(* ===== verification/Glm_Prelude.thy ===== *)
theory Glm_Prelude
  imports Complex_Main "HOL-Library.Sublist" "HOL-Library.Product_Lexorder"
begin

text \<open>
  What every component of the development shares: the exceptions of the Python sources as a
  datatype, results as sums (\<open>Inl\<close> the exception), the dynamically typed values an attribute of a
  vLLM request may hold, the parts of \<open>int(...)\<close>, \<open>str.strip\<close> and \<open>str.lower\<close> that the sources
  rely on, and the list lemmas that more than one component uses.
\<close>

named_theorems evict_simps \<open>facts about the eviction order\<close>
named_theorems text_simps \<open>facts about Python string search and replacement\<close>
named_theorems align_simps \<open>facts about rounding down to a block grid\<close>

subsection \<open>Exceptions and results\<close>

datatype py_exc =
    TypeError
  | ValueError
  | IndexError
  | KeyError
  | AttributeError
  | AssertionError
  | SyntaxError
  | RuntimeError
  | SystemExit
  | ZeroDivisionError
  | FileNotFoundError

type_synonym 'a res = "py_exc + 'a"

text \<open>Sequencing of fallible Python expressions: the first exception wins.\<close>

fun res_bind :: "'a res \<Rightarrow> ('a \<Rightarrow> 'b res) \<Rightarrow> 'b res" where
  "res_bind (Inl e) f = Inl e"
| "res_bind (Inr x) f = f x"

fun is_ok :: "'a res \<Rightarrow> bool" where
  "is_ok (Inl e) = False"
| "is_ok (Inr x) = True"

text \<open>\<open>try: return e; except ...: return d\<close> where the handler catches every exception of \<open>e\<close>.\<close>

fun res_default :: "'a \<Rightarrow> 'a res \<Rightarrow> 'a" where
  "res_default d (Inl e) = d"
| "res_default d (Inr x) = x"

lemma res_bind_Inr: "res_bind r f = Inr y \<longleftrightarrow> (\<exists>x. r = Inr x \<and> f x = Inr y)"
  by (cases r) auto

lemma res_bind_Inl: "res_bind r f = Inl e \<longleftrightarrow> r = Inl e \<or> (\<exists>x. r = Inr x \<and> f x = Inl e)"
  by (cases r) auto

lemma is_ok_iff: "is_ok r \<longleftrightarrow> (\<exists>x. r = Inr x)"
  by (cases r) auto

subsection \<open>Dynamically typed values\<close>

text \<open>
  The values a duck-typed attribute or an environment entry can hold. \<open>PObj\<close> is any object
  without an integer conversion (\<open>int()\<close> of it raises \<open>TypeError\<close>).
\<close>

datatype pyval = PNone | PBool bool | PInt int | PStr string | PObj nat

definition py_ws :: "char \<Rightarrow> bool" where
  "py_ws c \<longleftrightarrow> (let n = (of_char c :: nat) in (9 \<le> n \<and> n \<le> 13) \<or> (28 \<le> n \<and> n \<le> 32))"

definition py_strip :: "string \<Rightarrow> string" where
  "py_strip s = rev (dropWhile py_ws (rev (dropWhile py_ws s)))"

definition py_lower_char :: "char \<Rightarrow> char" where
  "py_lower_char c = (let n = (of_char c :: nat) in if 65 \<le> n \<and> n \<le> 90 then char_of (n + 32) else c)"

definition py_lower :: "string \<Rightarrow> string" where
  "py_lower = map py_lower_char"

definition digit_val :: "char \<Rightarrow> int option" where
  "digit_val c = (let n = (of_char c :: nat) in if 48 \<le> n \<and> n \<le> 57 then Some (int n - 48) else None)"

text \<open>The digits of \<open>int(s)\<close>: single underscores are allowed between two digits.\<close>

fun py_digits :: "bool \<Rightarrow> int \<Rightarrow> string \<Rightarrow> int option" where
  "py_digits after_digit acc [] = (if after_digit then Some acc else None)"
| "py_digits after_digit acc (c # cs) =
     (case digit_val c of
        Some d \<Rightarrow> py_digits True (10 * acc + d) cs
      | None \<Rightarrow> if c = CHR ''_'' \<and> after_digit then py_digits False acc cs else None)"

definition py_int_str :: "string \<Rightarrow> int option" where
  "py_int_str s =
     (case py_strip s of
        [] \<Rightarrow> None
      | c # cs \<Rightarrow>
          if c = CHR ''-'' then map_option uminus (py_digits False 0 cs)
          else if c = CHR ''+'' then py_digits False 0 cs
          else py_digits False 0 (c # cs))"

fun py_int :: "pyval \<Rightarrow> int res" where
  "py_int PNone = Inl TypeError"
| "py_int (PBool b) = Inr (if b then 1 else 0)"
| "py_int (PInt i) = Inr i"
| "py_int (PStr s) = (case py_int_str s of None \<Rightarrow> Inl ValueError | Some i \<Rightarrow> Inr i)"
| "py_int (PObj n) = Inl TypeError"

text \<open>Truthiness, as \<open>x or 0\<close> and \<open>if not x\<close> use it.\<close>

fun py_truthy :: "pyval \<Rightarrow> bool" where
  "py_truthy PNone = False"
| "py_truthy (PBool b) = b"
| "py_truthy (PInt i) = (i \<noteq> 0)"
| "py_truthy (PStr s) = (s \<noteq> [])"
| "py_truthy (PObj n) = True"

text \<open>\<open>int(getattr(obj, name, 0) or 0)\<close>: \<open>None\<close> stands for a missing attribute.\<close>

definition py_int_or0 :: "pyval option \<Rightarrow> int res" where
  "py_int_or0 a = (case a of None \<Rightarrow> Inr 0 | Some v \<Rightarrow> if py_truthy v then py_int v else Inr 0)"

text \<open>\<open>int(obj.name)\<close>: a missing attribute raises \<open>AttributeError\<close>.\<close>

definition py_int_attr :: "pyval option \<Rightarrow> int res" where
  "py_int_attr a = (case a of None \<Rightarrow> Inl AttributeError | Some v \<Rightarrow> py_int v)"

lemma py_int_or0_PInt [simp]: "py_int_or0 (Some (PInt i)) = Inr i"
  by (simp add: py_int_or0_def)

lemma py_int_or0_None [simp]: "py_int_or0 None = Inr 0"
  by (simp add: py_int_or0_def)

lemma py_int_attr_PInt [simp]: "py_int_attr (Some (PInt i)) = Inr i"
  by (simp add: py_int_attr_def)

subsection \<open>The environment\<close>

text \<open>\<open>os.environ\<close>, and \<open>os.environ.get(name, dflt)\<close>.\<close>

type_synonym environ = "string \<Rightarrow> string option"

definition env_get :: "environ \<Rightarrow> string \<Rightarrow> string \<Rightarrow> string" where
  "env_get env name dflt = (case env name of None \<Rightarrow> dflt | Some v \<Rightarrow> v)"

subsection \<open>Rounding down to a block grid\<close>

text \<open>\<open>x // b * b\<close> for the integers of the sources (Python's floor division is HOL's \<open>div\<close>).\<close>

definition floor_to :: "int \<Rightarrow> int \<Rightarrow> int" where
  "floor_to b x = x div b * b"

lemma floor_to_le [align_simps]: "0 < b \<Longrightarrow> floor_to b x \<le> x"
  by (simp add: floor_to_def minus_mod_eq_div_mult [symmetric])

lemma floor_to_gt [align_simps]: "0 < b \<Longrightarrow> x < floor_to b x + b"
  by (simp add: floor_to_def minus_mod_eq_div_mult [symmetric] add.commute)

lemma floor_to_dvd [align_simps]: "b dvd floor_to b x"
  by (simp add: floor_to_def)

lemma floor_to_mono [align_simps]: "0 < b \<Longrightarrow> x \<le> y \<Longrightarrow> floor_to b x \<le> floor_to b y"
  by (simp add: floor_to_def zdiv_mono1 mult_right_mono)

lemma floor_to_nonneg [align_simps]: "0 < b \<Longrightarrow> 0 \<le> x \<Longrightarrow> 0 \<le> floor_to b x"
  by (simp add: floor_to_def pos_imp_zdiv_nonneg_iff)

lemma floor_to_greatest [align_simps]:
  assumes "0 < b" and "b dvd y" and "y \<le> x"
  shows "y \<le> floor_to b x"
proof -
  from assms(2) have "floor_to b y = y" by (auto simp: floor_to_def)
  with floor_to_mono [OF assms(1,3)] show ?thesis by simp
qed

lemma floor_to_id [align_simps]: "b dvd x \<Longrightarrow> floor_to b x = x"
  by (auto simp: floor_to_def)

end
