(* ===== verification/Py_Text.thy ===== *)
theory Py_Text
  imports Glm_Prelude
begin

text \<open>
  The string operations the overlay installers are written with (\<open>in\<close>, \<open>str.find\<close>, \<open>str.count\<close>,
  \<open>str.replace(old, new, 1)\<close>, \<open>str.split(sep, 1)[0]\<close>), the guarded replacement every installer has
  its own copy of, and the contract of an installer as a locale.
\<close>

subsection \<open>Search, count, replace\<close>

fun starts :: "string \<Rightarrow> string \<Rightarrow> bool" where
  "starts [] s = True"
| "starts (p # ps) [] = False"
| "starts (p # ps) (c # cs) = (p = c \<and> starts ps cs)"

fun py_find :: "string \<Rightarrow> string \<Rightarrow> nat option" where
  "py_find p [] = (if p = [] then Some 0 else None)"
| "py_find p (c # cs) = (if starts p (c # cs) then Some 0 else map_option Suc (py_find p cs))"

definition py_in :: "string \<Rightarrow> string \<Rightarrow> bool" where
  "py_in p s \<longleftrightarrow> py_find p s \<noteq> None"

text \<open>\<open>s.find(p, i)\<close>.\<close>

definition py_find_from :: "string \<Rightarrow> string \<Rightarrow> nat \<Rightarrow> nat option" where
  "py_find_from p s i = (if length s < i then None else map_option (\<lambda>k. i + k) (py_find p (drop i s)))"

text \<open>Non-overlapping occurrences, as \<open>str.count\<close> counts them.\<close>

function py_count :: "string \<Rightarrow> string \<Rightarrow> nat" where
  "py_count p s =
     (if p = [] then Suc (length s)
      else case s of
        [] \<Rightarrow> 0
      | c # cs \<Rightarrow> if starts p s then Suc (py_count p (drop (length p) s)) else py_count p cs)"
  by pat_completeness auto
termination
  by (relation "measure (\<lambda>(p, s). length s)") auto

declare py_count.simps [simp del]

definition py_replace1 :: "string \<Rightarrow> string \<Rightarrow> string \<Rightarrow> string" where
  "py_replace1 old new s =
     (case py_find old s of None \<Rightarrow> s | Some i \<Rightarrow> take i s @ new @ drop (i + length old) s)"

text \<open>\<open>s.split(sep, 1)[0]\<close>.\<close>

definition py_before :: "string \<Rightarrow> string \<Rightarrow> string" where
  "py_before sep s = (case py_find sep s of None \<Rightarrow> s | Some i \<Rightarrow> take i s)"

text \<open>A source text given by its lines, each ended by a newline.\<close>

definition lns :: "string list \<Rightarrow> string" where
  "lns ls = concat (map (\<lambda>l. l @ [CHR 0x0A]) ls)"

text \<open>The installers' \<open>replace_once\<close>: refuse unless the anchor occurs exactly once.\<close>

definition replace_once :: "string \<Rightarrow> string \<Rightarrow> string \<Rightarrow> string res" where
  "replace_once t old new =
     (if py_count old t \<noteq> 1 then Inl SystemExit else Inr (py_replace1 old new t))"

subsection \<open>Facts\<close>

lemma starts_iff: "starts p s \<longleftrightarrow> (\<exists>v. s = p @ v)"
  by (induction p s rule: starts.induct) auto

lemma starts_refl [simp]: "starts p (p @ v)"
  by (auto simp: starts_iff)

lemma py_find_SomeD:
  "py_find p s = Some i \<Longrightarrow> (\<exists>v. s = take i s @ p @ v) \<and> i \<le> length s \<and> (\<forall>j < i. \<not> starts p (drop j s))"
proof (induction s arbitrary: i)
  case Nil
  then show ?case by (auto split: if_splits)
next
  case (Cons c cs)
  show ?case
  proof (cases "starts p (c # cs)")
    case True
    with Cons.prems show ?thesis by (auto simp: starts_iff)
  next
    case False
    with Cons.prems obtain k where k: "py_find p cs = Some k" and i: "i = Suc k" by auto
    from Cons.IH [OF k] False show ?thesis
      unfolding i by (auto simp: less_Suc_eq_0_disj)
  qed
qed

lemma py_find_None: "py_find p s = None \<Longrightarrow> j \<le> length s \<Longrightarrow> \<not> starts p (drop j s)"
proof (induction s arbitrary: j)
  case Nil
  then show ?case by (cases p) (auto split: if_splits)
next
  case (Cons c cs)
  then show ?case by (cases j) (auto split: if_splits)
qed

lemma py_in_iff [text_simps]: "py_in p s \<longleftrightarrow> (\<exists>u v. s = u @ p @ v)"
proof
  assume "py_in p s"
  then show "\<exists>u v. s = u @ p @ v" unfolding py_in_def using py_find_SomeD by fastforce
next
  assume "\<exists>u v. s = u @ p @ v"
  then obtain u v where s: "s = u @ p @ v" by blast
  then have "starts p (drop (length u) s)" and "length u \<le> length s" by simp_all
  then show "py_in p s" unfolding py_in_def using py_find_None by blast
qed

lemma py_in_trans: "py_in p q \<Longrightarrow> py_in q s \<Longrightarrow> py_in p s"
  unfolding py_in_iff by (metis append.assoc)

lemma py_in_refl [simp]: "py_in p p"
  unfolding py_in_iff by (metis append_Nil append_Nil2)

lemma py_in_append: "py_in p s \<Longrightarrow> py_in p (s @ t)" "py_in p t \<Longrightarrow> py_in p (s @ t)"
  unfolding py_in_iff by (metis append.assoc)+

lemma py_count_Nil [text_simps]: "p \<noteq> [] \<Longrightarrow> py_count p [] = 0"
  by (simp add: py_count.simps)

lemma py_count_Cons [text_simps]:
  "p \<noteq> [] \<Longrightarrow> py_count p (c # cs) =
     (if starts p (c # cs) then Suc (py_count p (drop (length p) (c # cs))) else py_count p cs)"
  by (subst py_count.simps) simp

lemma py_count_0_iff: "p \<noteq> [] \<Longrightarrow> py_count p s = 0 \<longleftrightarrow> \<not> py_in p s"
  by (induction s) (simp_all add: py_count_Nil py_count_Cons py_in_def)

lemma py_replace1_decomp:
  assumes "py_in old s"
  obtains u v where "s = u @ old @ v" and "py_replace1 old new s = u @ new @ v"
    and "\<forall>j < length u. \<not> starts old (drop j s)"
proof -
  from assms obtain i where i: "py_find old s = Some i" by (auto simp: py_in_def)
  from py_find_SomeD [OF i] obtain v where v: "s = take i s @ old @ v" and il: "i \<le> length s"
    and first: "\<forall>j < i. \<not> starts old (drop j s)" by blast
  have "drop (i + length old) s = v"
    by (subst v) (use il in simp)
  with i have "py_replace1 old new s = take i s @ new @ v" by (simp add: py_replace1_def)
  with v first il that [of "take i s" v] show thesis by simp
qed

lemma py_in_replace1: "py_in old s \<Longrightarrow> py_in new (py_replace1 old new s)"
  by (erule py_replace1_decomp [of _ _ new]) (auto simp: py_in_iff)

lemma replace_once_ok:
  assumes "replace_once t old new = Inr t'" and "old \<noteq> []"
  obtains u v where "t = u @ old @ v" and "t' = u @ new @ v"
    and "\<forall>j < length u. \<not> starts old (drop j t)"
proof -
  from assms have "py_count old t = 1" and t': "t' = py_replace1 old new t"
    by (auto simp: replace_once_def split: if_splits)
  then have "py_in old t" using py_count_0_iff [OF assms(2), of t] by auto
  then show thesis by (rule py_replace1_decomp [of _ _ new]) (use t' that in auto)
qed

lemma replace_once_in: "replace_once t old new = Inr t' \<Longrightarrow> old \<noteq> [] \<Longrightarrow> py_in new t'"
  by (erule (1) replace_once_ok) (auto simp: py_in_iff)

lemma replace_once_refuses: "replace_once t old new = Inl e \<longleftrightarrow> e = SystemExit \<and> py_count old t \<noteq> 1"
  by (auto simp: replace_once_def)

subsection \<open>The contract of an installer\<close>

text \<open>
  An installer maps the text of its target to the new text or to a failure. What makes it safe to
  run at every container start: what it produces is a complete installation, and a complete
  installation is left as it is.
\<close>

locale installer =
  fixes run :: "string \<Rightarrow> string res"
    and complete :: "string \<Rightarrow> bool"
  assumes installs: "run t = Inr t' \<Longrightarrow> complete t'"
    and noop: "complete t \<Longrightarrow> run t = Inr t"
begin

lemma idempotent: "run t = Inr t' \<Longrightarrow> run t' = Inr t'"
  by (intro noop installs)

lemma fixpoint_iff: "run t = Inr t \<longleftrightarrow> complete t"
  using installs noop by blast

text \<open>Any number of restarts after a successful one changes nothing.\<close>

lemma restarts: "run t = Inr t' \<Longrightarrow> ((\<lambda>r. res_bind r run) ^^ n) (Inr t') = Inr t'"
  by (induction n) (simp_all add: idempotent)

end

text \<open>
  The target file: a missing file or a failing run leaves the file system as it was, and success
  replaces the file in one step (\<open>os.replace\<close> of a sibling temporary).
\<close>

type_synonym file_system = "string \<Rightarrow> string option"

definition run_on_file :: "(string \<Rightarrow> string res) \<Rightarrow> string \<Rightarrow> file_system \<Rightarrow> unit res \<times> file_system" where
  "run_on_file run path fs =
     (case fs path of
        None \<Rightarrow> (Inl SystemExit, fs)
      | Some t \<Rightarrow> (case run t of Inl e \<Rightarrow> (Inl e, fs) | Inr t' \<Rightarrow> (Inr (), fs(path \<mapsto> t'))))"

lemma run_on_file_failure: "fst (run_on_file run path fs) = Inl e \<Longrightarrow> snd (run_on_file run path fs) = fs"
  by (auto simp: run_on_file_def split: option.splits sum.splits)

context installer
begin

lemma run_on_file_twice:
  assumes "run_on_file run path fs = (Inr (), fs')"
  shows "run_on_file run path fs' = (Inr (), fs')"
  using assms idempotent
  by (auto simp: run_on_file_def fun_upd_idem split: option.splits sum.splits)

end

end
