(* ===== verification/Overlay_Texts.thy ===== *)
theory Overlay_Texts
  imports Py_Text
begin

text \<open>
  The anchors and the replacement texts of the single-file installers under \<^verbatim>\<open>overlay/\<close>, line by line,
  as their modules define them. Helper functions whose text an installer takes with
  \<open>inspect.getsource\<close>, and the long gate helpers of the decode floor, are arguments of the installers.
\<close>

subsection \<open>\<^verbatim>\<open>overlay/patch_align_floor.py\<close>\<close>

definition AF_MARK :: string where
  \<open>AF_MARK = ''# [glm53-align-floor]''\<close>

definition AF_IMPORT_OLD :: string where
  \<open>AF_IMPORT_OLD = lns
     [''import itertools'',
      ''import time'']\<close>

definition AF_IMPORT_NEW :: string where
  \<open>AF_IMPORT_NEW = lns
     [''import itertools'',
      ''import os'',
      ''import time'']\<close>

definition AF_HELPER :: string where
  \<open>AF_HELPER = lns
     ['''',
      ''_GLM53_ALIGN_FLOOR = None'',
      '''',
      '''',
      ''def _glm53_align_floor():'',
      ''    """True when the align-floor fix is enabled (default on).  # [glm53-align-floor]'',
      '''',
      ''    Off restores the exact upstream disjunct, so rollback is one env value with'',
      ''    no kernel-shape change and therefore no JIT cache wipe.'',
      ''    """'',
      ''    global _GLM53_ALIGN_FLOOR'',
      ''    if _GLM53_ALIGN_FLOOR is None:'',
      ''        v = os.environ.get("GLM53_ALIGN_FLOOR", "1").strip().lower()'',
      ''        _GLM53_ALIGN_FLOOR = v not in ("0", "off", "false", "no", "")'',
      ''    return _GLM53_ALIGN_FLOOR'',
      '''']\<close>

definition AF_SPLIT_OLD :: string where
  \<open>AF_SPLIT_OLD = lns
     [''            aligned_end = end // block_size * block_size'',
      ''            if aligned_end > start or block_size <= max_prefill_tokens:'',
      ''                end = aligned_end'']\<close>

definition AF_SPLIT_NEW :: string where
  \<open>AF_SPLIT_NEW = lns
     [''            aligned_end = end // block_size * block_size'',
      ''            # [glm53-align-floor] Truncate to the block boundary only when that'',
      ''            # leaves forward progress. With LPTT >= block_size the second'',
      ''            # disjunct fired even when aligned_end <= start, zeroing any'',
      ''            # sub-block chunk (notably the decode-floor late-admit ladder,'',
      ''            # whose caps are all < block_size) and stalling the request for as'',
      ''            # long as a peer decoded. Advancing sub-block and re-aligning at'',
      ''            # the next boundary is what the LPTT < block_size regime already'',
      ''            # does. Mandatory stops below are unaffected.'',
      ''            if aligned_end > start or ('',
      ''                block_size <= max_prefill_tokens and not _glm53_align_floor()'',
      ''            ):'',
      ''                end = aligned_end'']\<close>

subsection \<open>\<^verbatim>\<open>overlay/patch_cache_tail_evict.py\<close>\<close>

definition TE_MARK :: string where
  \<open>TE_MARK = ''[glm53-cache-tail-evict]''\<close>

definition TE_POP_OLD :: string where
  \<open>TE_POP_OLD = lns
     [''        ret: list[KVCacheBlock] = self.free_block_queue.popleft_n(num_blocks)'']\<close>

definition TE_POP_NEW :: string where
  \<open>TE_POP_NEW = lns
     [''        ret: list[KVCacheBlock] = self._glm53_tail_first_blocks(num_blocks)  # [glm53-cache-tail-evict]'']\<close>

definition TE_DEF_OLD :: string where
  \<open>TE_DEF_OLD = lns
     [''    def get_new_blocks(self, num_blocks: int) -> list[KVCacheBlock]:'']\<close>

definition TE_DEF_NEW :: string where
  \<open>TE_DEF_NEW = lns
     [''    def _glm53_tail_first_blocks(self, num_blocks: int) -> list[KVCacheBlock]:'',
      ''        """[glm53-cache-tail-evict] Deepest cached block first. See cache_tail_evict.py."""'',
      ''        import sys as _glm53_sys'',
      '''',
      ''        if "/opt/glm53" not in _glm53_sys.path:'',
      ''            _glm53_sys.path.insert(0, "/opt/glm53")'',
      ''        from cache_tail_evict import select_blocks as _glm53_select_blocks'',
      '''',
      ''        return _glm53_select_blocks(self.free_block_queue, num_blocks)'',
      '''',
      ''    def get_new_blocks(self, num_blocks: int) -> list[KVCacheBlock]:'']\<close>

subsection \<open>\<^verbatim>\<open>overlay/patch_cache_hot_protect.py\<close>\<close>

definition HP_MARK :: string where
  \<open>HP_MARK = ''[glm53-cache-hot-protect]''\<close>

definition HP_HIT_OLD :: string where
  \<open>HP_HIT_OLD = lns
     [''        # Touch the computed blocks to make sure they won't be evicted.'',
      ''        if self.enable_caching:'',
      ''            self.block_pool.touch(new_computed_blocks)'']\<close>

definition HP_HIT_NEW :: string where
  \<open>HP_HIT_NEW = lns
     [''        # Touch the computed blocks to make sure they won't be evicted.'',
      ''        if self.enable_caching:'',
      ''            self.block_pool.touch(new_computed_blocks)'',
      ''            # [glm53-cache-hot-protect] a hit is a reuse; one-shot blocks stay cold'',
      ''            import sys as _glm53_sys'',
      ''            if "/opt/glm53" not in _glm53_sys.path:'',
      ''                _glm53_sys.path.insert(0, "/opt/glm53")'',
      ''            from cache_tail_evict import mark_reused as _glm53_mark_reused'',
      ''            for _glm53_block in new_computed_blocks:'',
      ''                if _glm53_block.block_hash is not None:'',
      ''                    _glm53_mark_reused(_glm53_block.block_id)'']\<close>

definition HP_RESET_OLD :: string where
  \<open>HP_RESET_OLD = lns
     [''    def reset_hash(self):'',
      ''        """Reset the block hash when the block is evicted."""'',
      ''        self._block_hash = None'',
      ''        self._block_hash_num_tokens = None'']\<close>

definition HP_RESET_NEW :: string where
  \<open>HP_RESET_NEW = lns
     [''    def reset_hash(self):'',
      ''        """Reset the block hash when the block is evicted."""'',
      ''        # [glm53-cache-hot-protect] the block is about to hold new tokens'',
      ''        import sys as _glm53_sys'',
      ''        if "/opt/glm53" not in _glm53_sys.path:'',
      ''            _glm53_sys.path.insert(0, "/opt/glm53")'',
      ''        from cache_tail_evict import clear_reused as _glm53_clear_reused'',
      ''        _glm53_clear_reused(self.block_id)'',
      ''        self._block_hash = None'',
      ''        self._block_hash_num_tokens = None'']\<close>

subsection \<open>\<^verbatim>\<open>overlay/patch_hybrid_prefix_hit.py\<close>\<close>

definition HH_MARK :: string where
  \<open>HH_MARK = ''# [glm53-hybrid-apc]''\<close>

definition HH_HELPER :: string where
  \<open>HH_HELPER = lns
     ['''',
      ''def _glm53_inner_kv_spec(spec):'',
      ''    specs = getattr(spec, "kv_cache_specs", None)'',
      ''    if isinstance(specs, dict) and specs:'',
      ''        return next(iter(specs.values()))'',
      ''    return spec'',
      '''',
      '''',
      ''def _glm53_is_draft_swa_spec(spec) -> bool:'',
      ''    """DFlash2 drafter: exact SlidingWindowSpec, not KpoolTailSpec."""'',
      ''    return type(_glm53_inner_kv_spec(spec)).__name__ == "SlidingWindowSpec"'',
      '''',
      '''']\<close>

definition HH_EAGLE_OLD :: string where
  \<open>HH_EAGLE_OLD = lns
     [''        # Conservatively fall back to flag all groups when no group is flagged.'',
      ''        if use_eagle and not self.eagle_group_ids:'',
      ''            self.eagle_group_ids = set(range(len(kv_cache_config.kv_cache_groups)))'']\<close>

definition HH_EAGLE_NEW :: string where
  \<open>HH_EAGLE_NEW = lns
     [''        # Conservatively fall back to flag all groups when no group is flagged.'',
      ''        if use_eagle and not self.eagle_group_ids:'',
      ''            # [glm53-hybrid-apc] dflash is use_eagle(); GLM has no is_eagle_group'',
      ''            # annotator. Flag only the drafter SlidingWindowSpec group so MLA /'',
      ''            # mamba do not drop a whole scheduler page (~3584). MTP with no SWA'',
      ''            # group keeps the upstream all-groups fallback.'',
      ''            swa_ids = {'',
      ''                i'',
      ''                for i, g in enumerate(kv_cache_config.kv_cache_groups)'',
      ''                if _glm53_is_draft_swa_spec(g.kv_cache_spec)'',
      ''            }'',
      ''            self.eagle_group_ids = swa_ids or set('',
      ''                range(len(kv_cache_config.kv_cache_groups))'',
      ''            )'']\<close>

definition HH_MIN_OLD :: string where
  \<open>HH_MIN_OLD = lns
     [''                if drop_eagle_block:'',
      ''                    eagle_verified.add(idx)'',
      ''                elif _new_hit_length < curr_hit_length:'',
      ''                    # length shrunk; invalidate previous eagle verifications'',
      ''                    eagle_verified.clear()'',
      ''                curr_hit_length = _new_hit_length'',
      ''                for group_id, blocks in zip(group_ids, hit_blocks):'',
      ''                    hit_blocks_by_group[group_id] = blocks'',
      ''                    hit_length_by_group[group_id] = _new_hit_length'',
      '''',
      ''                longest_hit_length = max(longest_hit_length, curr_hit_length)'']\<close>

definition HH_MIN_NEW :: string where
  \<open>HH_MIN_NEW = lns
     [''                if drop_eagle_block:'',
      ''                    eagle_verified.add(idx)'',
      ''                elif _new_hit_length < curr_hit_length:'',
      ''                    # length shrunk; invalidate previous eagle verifications'',
      ''                    eagle_verified.clear()'',
      ''                if _glm53_is_draft_swa_spec(spec):  # [glm53-hybrid-apc]'',
      ''                    # Drafter SWA must not min() the hybrid hit. Its EAGLE pop'',
      ''                    # re-aligns by LCM(window block, MLA page) = 3584. If the'',
      ''                    # cached window does not cover the MLA/mamba hit, leave'',
      ''                    # blocks empty so a fresh window is allocated; do not'',
      ''                    # reseed the indexer tail here (KpoolTail already opted out).'',
      ''                    if _new_hit_length >= curr_hit_length:'',
      ''                        for group_id, blocks in zip(group_ids, hit_blocks):'',
      ''                            hit_blocks_by_group[group_id] = blocks'',
      ''                            hit_length_by_group[group_id] = _new_hit_length'',
      ''                    continue'',
      ''                curr_hit_length = _new_hit_length'',
      ''                for group_id, blocks in zip(group_ids, hit_blocks):'',
      ''                    hit_blocks_by_group[group_id] = blocks'',
      ''                    hit_length_by_group[group_id] = _new_hit_length'',
      '''',
      ''                longest_hit_length = max(longest_hit_length, curr_hit_length)'']\<close>

definition HH_LOG_OLD :: string where
  \<open>HH_LOG_OLD = lns
     [''        # Propagate the eagle bit to each manager (default to ``use_eagle=False``).'',
      ''        for group in self.attention_groups:'',
      ''            if group.use_eagle:'',
      ''                for gid in group.group_ids:'',
      ''                    self.single_type_managers[gid].use_eagle = True'']\<close>

definition HH_LOG_NEW :: string where
  \<open>HH_LOG_NEW = lns
     [''        # Propagate the eagle bit to each manager (default to ``use_eagle=False``).'',
      ''        for group in self.attention_groups:'',
      ''            if group.use_eagle:'',
      ''                for gid in group.group_ids:'',
      ''                    self.single_type_managers[gid].use_eagle = True'',
      ''        logger.info(  # [glm53-hybrid-apc]'',
      ''            "hybrid APC groups: %s; eagle_group_ids=%s",'',
      ''            ['',
      ''                ('',
      ''                    type(_glm53_inner_kv_spec(g.spec)).__name__,'',
      ''                    g.group_ids,'',
      ''                    getattr(g.manager_cls, "__name__", type(g.manager_cls).__name__),'',
      ''                    g.use_eagle,'',
      ''                )'',
      ''                for g in self.attention_groups'',
      ''            ],'',
      ''            sorted(self.eagle_group_ids),'',
      ''        )'']\<close>

subsection \<open>\<^verbatim>\<open>overlay/patch_mamba_null_gap_retirement.py\<close>\<close>

definition NG_MARK :: string where
  \<open>NG_MARK = ''# [glm53-mamba-null-gap]''\<close>

definition NG_INIT_OLD :: string where
  \<open>NG_INIT_OLD = lns
     [''            self.last_state_block_idx: dict[str, int] = {}'',
      ''            # The set of the requests that have been allocated blocks'']\<close>

definition NG_INIT_NEW :: string where
  \<open>NG_INIT_NEW = lns
     [''            self.last_state_block_idx: dict[str, int] = {}'',
      ''            # Highest align-mode block prefix already scanned for retirement.'',
      ''            self._num_retired_blocks: dict[str, int] = {}  # [glm53-mamba-null-gap]'',
      ''            # The set of the requests that have been allocated blocks'']\<close>

definition NG_REMOVE_ANCHOR :: string where
  \<open>NG_REMOVE_ANCHOR = lns
     [''    def remove_skipped_blocks('',
      ''        self,'',
      ''        request_id: str,'']\<close>

definition NG_REMOVE_OVERRIDE :: string where
  \<open>NG_REMOVE_OVERRIDE = lns
     [''    def _remove_blocks_in_range('',
      ''        self, request_id: str, first_block: int, last_block: int'',
      ''    ) -> None:'',
      ''        if self.mamba_cache_mode != "align":'',
      ''            return super()._remove_blocks_in_range('',
      ''                request_id, first_block, last_block'',
      ''            )'',
      ''        blocks = self.req_to_blocks.get(request_id, [])'',
      ''        first_block = max('',
      ''            first_block, self._num_retired_blocks.get(request_id, 0)'',
      ''        )'',
      ''        last_block = min(last_block, len(blocks))'',
      ''        if first_block >= last_block:'',
      ''            return'',
      ''        freed: list[KVCacheBlock] = []'',
      ''        # Align-mode prefill can leave null gaps between state checkpoints.'',
      ''        for i in range(last_block - 1, first_block - 1, -1):'',
      ''            if blocks[i].is_null:'',
      ''                continue'',
      ''            freed.append(blocks[i])'',
      ''            blocks[i] = self._null_block'',
      ''        if freed:'',
      ''            self.block_pool.free_blocks(freed)'',
      ''        self._num_retired_blocks[request_id] = last_block'',
      '''']\<close>

definition NG_FREE_OLD :: string where
  \<open>NG_FREE_OLD = lns
     [''            self.last_state_block_idx.pop(request_id, None)'',
      ''            self._producer_partial_tail_reqs.pop(request_id, None)'']\<close>

definition NG_FREE_NEW :: string where
  \<open>NG_FREE_NEW = lns
     [''            self.last_state_block_idx.pop(request_id, None)'',
      ''            self._num_retired_blocks.pop(request_id, None)  # [glm53-mamba-null-gap]'',
      ''            self._producer_partial_tail_reqs.pop(request_id, None)'']\<close>

subsection \<open>\<^verbatim>\<open>overlay/patch_apc_tail_boundary.py\<close>\<close>

definition TB_MARKER :: string where
  \<open>TB_MARKER = ''[glm53-apc-tail-floor]''\<close>

definition TB_SCHED_OLD :: string where
  \<open>TB_SCHED_OLD = lns
     [''        tail_boundary = ('',
      ''            request.num_prompt_tokens // self.hash_block_size * self.hash_block_size'',
      ''            if self.mamba_partial_cache_hit'',
      ''            else 0'',
      ''        )'']\<close>

definition TB_SCHED_NEW :: string where
  \<open>TB_SCHED_NEW = lns
     [''        tail_boundary = ('',
      ''            # [glm53-apc-tail-floor] Floor from (n - 1): the finder is capped at'',
      ''            # `num_tokens - 1` (the last token is recomputed for logits), so a'',
      ''            # boundary registered at `n` is one unit above anything a lookup can'',
      ''            # request and never serves a hit.'',
      ''            (request.num_prompt_tokens - 1) // self.hash_block_size'',
      ''            * self.hash_block_size'',
      ''            if self.mamba_partial_cache_hit'',
      ''            else 0'',
      ''        )'']\<close>

definition TB_FA_OLD :: string where
  \<open>TB_FA_OLD = lns
     [''        hash_block_size = self.block_pool.hash_block_size'',
      ''        boundary_tokens = request.num_prompt_tokens // hash_block_size * hash_block_size'',
      ''        if boundary_tokens == 0 or boundary_tokens > num_tokens:'']\<close>

definition TB_FA_NEW :: string where
  \<open>TB_FA_NEW = lns
     [''        hash_block_size = self.block_pool.hash_block_size'',
      ''        # [glm53-apc-tail-floor] Same (n - 1) floor as the mamba tail: with'',
      ''        # fine-grained hashing this is the deepest tail a replay can reach, and'',
      ''        # it is the position the hybrid intersection needs to meet.'',
      ''        boundary_tokens = ('',
      ''            (request.num_prompt_tokens - 1) // hash_block_size * hash_block_size'',
      ''        )'',
      ''        if boundary_tokens == 0 or boundary_tokens > num_tokens:'']\<close>

definition TB_MAMBA_OLD :: string where
  \<open>TB_MAMBA_OLD = lns
     [''        latest_prompt_hash_boundary = ('',
      ''            request.num_prompt_tokens // hash_block_size'',
      ''        ) * hash_block_size'']\<close>

definition TB_MAMBA_NEW :: string where
  \<open>TB_MAMBA_NEW = lns
     [''        latest_prompt_hash_boundary = (  # [glm53-apc-tail-floor]'',
      ''            (request.num_prompt_tokens - 1) // hash_block_size'',
      ''        ) * hash_block_size'']\<close>

subsection \<open>\<^verbatim>\<open>overlay/patch_prefix_admit.py\<close>\<close>

definition PA_MARK :: string where
  \<open>PA_MARK = ''[glm53-prefix-admit]''\<close>

definition PA_INSERT_AT :: string where
  \<open>PA_INSERT_AT = lns
     [''logger = init_logger(__name__)'',
      '''',
      '''',
      ''class Scheduler(SchedulerInterface):'']\<close>

definition PA_ANCHOR :: string where
  \<open>PA_ANCHOR = lns
     [''                # Get already-cached tokens.'',
      ''                if request.num_computed_tokens == 0:'']\<close>

definition PA_CALL :: string where
  \<open>PA_CALL = lns
     [''                # [glm53-prefix-admit] Lookup below runs once. Wait until a'',
      ''                # running partner has hashed the longest full page this'',
      ''                # prompt shares, then admit. Pop so a different prefix'',
      ''                # behind this waiter is still considered this step.'',
      ''                if request.num_computed_tokens == 0:'',
      ''                    _glm53_prefix_need = _glm53_hold_for_inflight_prefix('',
      ''                        request,'',
      ''                        self.running,'',
      ''                        self.block_size,'',
      ''                        self.hash_block_size,'',
      ''                    )'',
      ''                    if _glm53_prefix_need:'',
      ''                        if not getattr('',
      ''                            request, "_glm53_prefix_admit_logged", False'',
      ''                        ):'',
      ''                            logger.info('',
      ''                                "[glm53-prefix-admit] holding %s for %s"'',
      ''                                " published tokens",'',
      ''                                request.request_id,'',
      ''                                _glm53_prefix_need,'',
      ''                            )'',
      ''                            request._glm53_prefix_admit_logged = True'',
      ''                        request_queue.pop_request()'',
      ''                        step_skipped_waiting.prepend_request(request)'',
      ''                        continue'',
      '''']\<close>

subsection \<open>\<^verbatim>\<open>overlay/patch_resident_tail.py\<close>\<close>

definition RT_MARK :: string where
  \<open>RT_MARK = ''[glm53-resident-tail]''\<close>

definition RT_CLASS_LINE :: string where
  \<open>RT_CLASS_LINE = lns
     [''class Scheduler(SchedulerInterface):'']\<close>

definition RT_RUN_ANCHOR :: string where
  \<open>RT_RUN_ANCHOR = lns
     [''            request = self.running[req_index]'',
      ''            if input_budget <= draft_slots:'',
      ''                break'']\<close>

definition RT_RUN_CALL :: string where
  \<open>RT_RUN_CALL = lns
     [''            # [glm53-resident-tail] A cold prefill does not share this step'',
      ''            # with a resident tail. The tail keeps the token budget until'',
      ''            # its prefill is done, or until the step cap.'',
      ''            if _glm53_defer_cold_for_resident_tail(self, request):'',
      ''                req_index += 1'',
      ''                continue'',
      '''']\<close>

definition RT_RUN_LPTT :: string where
  \<open>RT_RUN_LPTT = lns
     [''            if 0 < self.scheduler_config.long_prefill_token_threshold < num_new_tokens:'',
      ''                num_new_tokens = self.scheduler_config.long_prefill_token_threshold'',
      ''            num_new_tokens = min('',
      ''                num_new_tokens, token_budget, input_budget - draft_slots'',
      ''            )'']\<close>

definition RT_RUN_LPTT_NEW :: string where
  \<open>RT_RUN_LPTT_NEW = lns
     [''            if ('',
      ''                0'',
      ''                < self.scheduler_config.long_prefill_token_threshold'',
      ''                < num_new_tokens'',
      ''                and not _glm53_tail_still_open('',
      ''                    request, request.num_computed_tokens'',
      ''                )'',
      ''            ):'',
      ''                num_new_tokens = self.scheduler_config.long_prefill_token_threshold'',
      ''            num_new_tokens = min('',
      ''                num_new_tokens, token_budget, input_budget - draft_slots'',
      ''            )'']\<close>

definition RT_WAIT_LPTT :: string where
  \<open>RT_WAIT_LPTT = lns
     [''                    threshold = self.scheduler_config.long_prefill_token_threshold'',
      ''                    if 0 < threshold < num_new_tokens:'',
      ''                        num_new_tokens = threshold'']\<close>

definition RT_WAIT_LPTT_NEW :: string where
  \<open>RT_WAIT_LPTT_NEW = lns
     [''                    _glm53_note_resident_tail(request, num_computed_tokens)'',
      ''                    threshold = self.scheduler_config.long_prefill_token_threshold'',
      ''                    if ('',
      ''                        0 < threshold < num_new_tokens'',
      ''                        and not _glm53_tail_still_open('',
      ''                            request, num_computed_tokens'',
      ''                        )'',
      ''                    ):'',
      ''                        num_new_tokens = threshold'']\<close>

subsection \<open>\<^verbatim>\<open>overlay/patch_scheduler_decode_floor.py\<close>\<close>

definition DF_MARK :: string where
  \<open>DF_MARK = ''# [glm53-decode-floor]''\<close>

definition DF_MARK_V2 :: string where
  \<open>DF_MARK_V2 = ''[glm53-decode-floor-v2]''\<close>

definition DF_MARK_V3 :: string where
  \<open>DF_MARK_V3 = ''[glm53-decode-floor-v3]''\<close>

definition DF_MARK_V31 :: string where
  \<open>DF_MARK_V31 = ''[glm53-decode-floor-v3.1]''\<close>

definition DF_IMPORT_OLD :: string where
  \<open>DF_IMPORT_OLD = lns
     [''import itertools'',
      ''import time'']\<close>

definition DF_IMPORT_NEW :: string where
  \<open>DF_IMPORT_NEW = lns
     [''import itertools'',
      ''import os'',
      ''import time'']\<close>

definition DF_RUNNING_OLD :: string where
  \<open>DF_RUNNING_OLD = lns
     [''            if 0 < self.scheduler_config.long_prefill_token_threshold < num_new_tokens:'',
      ''                num_new_tokens = self.scheduler_config.long_prefill_token_threshold'',
      ''            num_new_tokens = min('',
      ''                num_new_tokens, token_budget, input_budget - draft_slots'',
      ''            )'',
      '''',
      ''            # Make sure the input position does not exceed the max model len.'']\<close>

definition DF_RUNNING_NEW :: string where
  \<open>DF_RUNNING_NEW = lns
     [''            if 0 < self.scheduler_config.long_prefill_token_threshold < num_new_tokens:'',
      ''                num_new_tokens = self.scheduler_config.long_prefill_token_threshold'',
      ''            num_new_tokens = min('',
      ''                num_new_tokens, token_budget, input_budget - draft_slots'',
      ''            )'',
      ''            mixed_cap = _glm53_mixed_prefill_gate(self.running, request, request.num_computed_tokens)  # [glm53-decode-floor] [glm53-decode-floor-v2]'',
      ''            if mixed_cap is not None:'',
      ''                num_new_tokens = min(num_new_tokens, mixed_cap)'',
      '''',
      ''            # Make sure the input position does not exceed the max model len.'']\<close>

definition DF_WAITING_OLD :: string where
  \<open>DF_WAITING_OLD = lns
     [''                    threshold = self.scheduler_config.long_prefill_token_threshold'',
      ''                    if 0 < threshold < num_new_tokens:'',
      ''                        num_new_tokens = threshold'',
      '''',
      ''                    # chunked prefill has to be enabled explicitly to allow'']\<close>

definition DF_WAITING_NEW :: string where
  \<open>DF_WAITING_NEW = lns
     [''                    threshold = self.scheduler_config.long_prefill_token_threshold'',
      ''                    if 0 < threshold < num_new_tokens:'',
      ''                        num_new_tokens = threshold'',
      ''                    mixed_cap = _glm53_mixed_prefill_gate(self.running, request, num_computed_tokens)  # [glm53-decode-floor] [glm53-decode-floor-v2]'',
      ''                    if mixed_cap is not None:'',
      ''                        if mixed_cap <= 0:'',
      ''                            request_queue.pop_request()'',
      ''                            step_skipped_waiting.prepend_request(request)'',
      ''                            continue'',
      ''                        num_new_tokens = min(num_new_tokens, mixed_cap)'',
      '''',
      ''                    # chunked prefill has to be enabled explicitly to allow'']\<close>

definition DF_V1_RUNNING :: string where
  \<open>DF_V1_RUNNING = lns
     [''            mixed_cap = _glm53_mixed_prefill_policy(self.running, request)  # [glm53-decode-floor]'',
      ''            if mixed_cap is not None and request.num_computed_tokens < request.num_prompt_tokens:'',
      ''                num_new_tokens = min(num_new_tokens, mixed_cap)'']\<close>

definition DF_V2_RUNNING :: string where
  \<open>DF_V2_RUNNING = lns
     [''            mixed_cap = _glm53_mixed_prefill_gate(self.running, request, request.num_computed_tokens)  # [glm53-decode-floor] [glm53-decode-floor-v2]'',
      ''            if mixed_cap is not None:'',
      ''                num_new_tokens = min(num_new_tokens, mixed_cap)'']\<close>

definition DF_V1_WAITING :: string where
  \<open>DF_V1_WAITING = lns
     [''                    mixed_cap = _glm53_mixed_prefill_policy(self.running, request)  # [glm53-decode-floor]'',
      ''                    if mixed_cap is not None and num_computed_tokens < request.num_prompt_tokens:'']\<close>

definition DF_V2_WAITING :: string where
  \<open>DF_V2_WAITING = lns
     [''                    mixed_cap = _glm53_mixed_prefill_gate(self.running, request, num_computed_tokens)  # [glm53-decode-floor] [glm53-decode-floor-v2]'',
      ''                    if mixed_cap is not None:'']\<close>

definition DF_HELPER_POLICY :: string where
  \<open>DF_HELPER_POLICY = lns
     [''def _glm53_mixed_prefill_policy(running, current):'',
      ''    """Mixed-step prefill policy when a peer in `running` is decoding.'',
      '''',
      ''    None = no extra policy. 0 = skip this prefill this step. N>0 = cap.'',
      ''    """'',
      ''    raw = os.environ.get("GLM53_MIXED_PREFILL_CHUNK", "skip").strip().lower()'',
      ''    if raw in ("0", "off", "no"):'',
      ''        return None'',
      ''    if raw in ("skip", "-1"):'',
      ''        cap = 0'',
      ''    else:'',
      ''        try:'',
      ''            cap = int(raw)'',
      ''        except ValueError:'',
      ''            cap = 0'',
      ''        if cap <= 0:'',
      ''            return None'',
      ''    cur_id = getattr(current, "request_id", None)'',
      ''    for r in running:'',
      ''        if r is current or getattr(r, "request_id", None) == cur_id:'',
      ''            continue'',
      ''        if r.num_computed_tokens >= r.num_prompt_tokens:'',
      ''            return cap'',
      ''    return None'',
      '''',
      '''']\<close>

subsection \<open>\<^verbatim>\<open>overlay/patch_draft_compact_page.py\<close>\<close>

definition DP_MARK :: string where
  \<open>DP_MARK = ''[glm53-draft-page]''\<close>

definition DP_BLOCK_OLD :: string where
  \<open>DP_BLOCK_OLD = lns
     [''            compact_block = 64'']\<close>

definition DP_BLOCK_NEW :: string where
  \<open>DP_BLOCK_NEW = lns
     [''            compact_block = 64'',
      ''            # [glm53-draft-page] One id per compact page. Floor 64 is today's'',
      ''            # reservation. A larger page has to divide the MLA block, fit in'',
      ''            # the MLA page, and be accepted whole by FlashAttention (the'',
      ''            # drafter backend). A padded page that the backend would split'',
      ''            # walks off the tensor, so those candidates stay at the floor.'',
      ''            # Drafter layers are not tagged eagle_head: get_model() is called'',
      ''            # with an empty prefix. Target layers live under language_model'',
      ''            # and are MLA, so a sliding-window name that contains that path'',
      ''            # is not this drafter and stays at the floor.'',
      ''            _glm53_names = list(draft_specs)'',
      ''            _glm53_reason = "floor"'',
      ''            if any("language_model" in str(n) for n in _glm53_names):'',
      ''                _glm53_reason = "non-drafter sliding-window layer"'',
      ''            elif ('',
      ''                _glm53_names'',
      ''                and mla_block % 64 == 0'',
      ''                and draft_bytes_per_token > 0'',
      ''            ):'',
      ''                _glm53_steps = mla_block // 64'',
      ''                for _glm53_k in range(_glm53_steps, 1, -1):'',
      ''                    if _glm53_steps % _glm53_k != 0:'',
      ''                        continue'',
      ''                    _glm53_cand = 64 * _glm53_k'',
      ''                    if _glm53_cand * draft_bytes_per_token > mla_page:'',
      ''                        continue'',
      ''                    try:'',
      ''                        from vllm.v1.attention.backends.flash_attn import ('',
      ''                            FlashAttentionBackend as _GLM53FA,'',
      ''                        )'',
      ''                        from vllm.v1.worker.utils import ('',
      ''                            select_common_block_size as _glm53_sel,'',
      ''                        )'',
      ''                        _glm53_kernel = _glm53_sel(_glm53_cand, [_GLM53FA])'',
      ''                        _glm53_ok = _glm53_kernel == _glm53_cand'',
      ''                    except Exception as _glm53_exc:'',
      ''                        _glm53_kernel = None'',
      ''                        _glm53_ok = False'',
      ''                        _glm53_reason = f"backend check failed: {_glm53_exc}"'',
      ''                    if not _glm53_ok:'',
      ''                        if _glm53_reason == "floor":'',
      ''                            _glm53_reason = ('',
      ''                                f"backend would split {_glm53_cand} "'',
      ''                                f"into {_glm53_kernel}"'',
      ''                            )'',
      ''                        continue'',
      ''                    compact_block = _glm53_cand'',
      ''                    _glm53_reason = "unsplit"'',
      ''                    break'',
      ''            logger.info('',
      ''                "DFlash2 drafter KV: compact page chose block=%d (%s) "'',
      ''                "draft_bytes/token=%d mla_block=%d layers=%s",'',
      ''                compact_block,'',
      ''                _glm53_reason,'',
      ''                draft_bytes_per_token,'',
      ''                mla_block,'',
      ''                _glm53_names,'',
      ''            )'']\<close>

definition DP_VALID_OLD :: string where
  \<open>DP_VALID_OLD = lns
     [''            if any('',
      ''                s.block_size != 64 or s.page_size_padded != mla_page'',
      ''                for s in draft_inner.values()'',
      ''            ):'',
      ''                return None'']\<close>

definition DP_VALID_NEW :: string where
  \<open>DP_VALID_NEW = lns
     [''            # [glm53-draft-page] Padded slot-share may use the compact page.'',
      ''            # The page still has to be the MLA page, a multiple of the'',
      ''            # 64-token floor, no bigger than that page, and a divisor of the'',
      ''            # MLA block (scheduler LCM).'',
      ''            if any('',
      ''                s.page_size_padded != mla_page'',
      ''                or s.block_size % 64 != 0'',
      ''                or s.block_size <= 0'',
      ''                or s.unpadded_page_size_bytes > mla_page'',
      ''                for s in draft_inner.values()'',
      ''            ):'',
      ''                return None'',
      ''            _glm53_mla_block = 0'',
      ''            if attn_group is not None:'',
      ''                _glm53_mla_block = next('',
      ''                    iter('',
      ''                        cast('',
      ''                            UniformTypeKVCacheSpecs, attn_group.kv_cache_spec'',
      ''                        ).kv_cache_specs.values()'',
      ''                    )'',
      ''                ).block_size'',
      ''            if any('',
      ''                _glm53_mla_block % s.block_size != 0'',
      ''                for s in draft_inner.values()'',
      ''            ):'',
      ''                return None'']\<close>

definition DP_DROP_OLD :: string where
  \<open>DP_DROP_OLD = lns
     [''                drop_eagle_block = use_eagle and idx not in eagle_verified'']\<close>

definition DP_DROP_NEW :: string where
  \<open>DP_DROP_NEW = lns
     [''                drop_eagle_block = use_eagle and idx not in eagle_verified'',
      ''                if ('',
      ''                    _glm53_is_draft_swa_spec(spec)'',
      ''                    and self.single_type_managers[first_group_id].block_size > 64'',
      ''                ):  # [glm53-draft-page]'',
      ''                    # Context KV is a projection of the target hidden state.'',
      ''                    # Dropping one compact page empties the drafter hit. The'',
      ''                    # 64-token floor keeps the drop. This group stays out of'',
      ''                    # the hybrid min().'',
      ''                    drop_eagle_block = False'']\<close>

subsection \<open>\<^verbatim>\<open>overlay/patch_apc_per_group_retention.py\<close>\<close>

definition PG_MARK :: string where
  \<open>PG_MARK = ''# [glm53-apc-per-group]''\<close>

definition PG_IMPORT_OLD :: string where
  \<open>PG_IMPORT_OLD = lns
     [''from abc import ABC, abstractmethod'',
      ''from collections.abc import Sequence'']\<close>

definition PG_IMPORT_NEW :: string where
  \<open>PG_IMPORT_NEW = lns
     [''import os  # [glm53-apc-per-group]'',
      ''from abc import ABC, abstractmethod'',
      ''from collections.abc import Sequence'']\<close>

definition PG_BASE_HELPER :: string where
  \<open>PG_BASE_HELPER = lns
     ['''',
      ''def _glm53_inner_kv_spec(spec):'',
      ''    specs = getattr(spec, "kv_cache_specs", None)'',
      ''    if isinstance(specs, dict) and specs:'',
      ''        return next(iter(specs.values()))'',
      ''    return spec'',
      '''',
      '''',
      ''def _glm53_is_draft_swa_spec(spec) -> bool:'',
      ''    """DFlash2 drafter: exact SlidingWindowSpec, not KpoolTailSpec."""'',
      ''    return type(_glm53_inner_kv_spec(spec)).__name__ == "SlidingWindowSpec"'',
      '''',
      '''']\<close>

definition PG_INIT_OLD :: string where
  \<open>PG_INIT_OLD = lns
     [''        self.retention_interval = envs.VLLM_PREFIX_CACHE_RETENTION_INTERVAL'',
      ''        _validate_prefix_cache_retention_interval('',
      ''            self.retention_interval, self.scheduler_block_size, kv_cache_config'',
      ''        )'']\<close>

definition PG_INIT_NEW :: string where
  \<open>PG_INIT_NEW = lns
     [''        self.retention_interval = envs.VLLM_PREFIX_CACHE_RETENTION_INTERVAL'',
      ''        _validate_prefix_cache_retention_interval('',
      ''            self.retention_interval, self.scheduler_block_size, kv_cache_config'',
      ''        )'',
      ''        # [glm53-apc-per-group] Per-group retention. The DFlash2 drafter SWA group'',
      ''        # hashes cdiv(window - 1, block) + 1 == 33 block ids at EVERY hit boundary'',
      ''        # and frees them *cached* onto the LRU tail (BlockPool.free_blocks), i.e.'',
      ''        # 33 of the 38 ids a cached 3584-token segment costs -- for a group that is'',
      ''        # exempted from the hybrid hit min(). Give it its own sparse interval so'',
      ''        # MLA and mamba can stay dense and keep the fine hit grid. The raw env'',
      ''        # value is validated unconditionally; it is applied only to the groups the'',
      ''        # coordinator itself flagged EAGLE-exempt, else boot fails.'',
      ''        _glm53_swa_interval = _glm53_swa_retention_env(self.scheduler_block_size)'',
      ''        _glm53_min_exempt = _glm53_min_exempt_group_ids('',
      ''            kv_cache_config.kv_cache_groups, self.eagle_group_ids'',
      ''        )'',
      ''        self.retention_interval_by_group = _glm53_resolve_retention_by_group('',
      ''            kv_cache_config.kv_cache_groups,'',
      ''            self.eagle_group_ids,'',
      ''            self.retention_interval,'',
      ''            _glm53_swa_interval,'',
      ''            self.scheduler_block_size,'',
      ''        )'',
      ''        _glm53_validate_retention_intervals('',
      ''            self.retention_interval_by_group, self.scheduler_block_size'',
      ''        )'',
      ''        logger.info(  # [glm53-apc-per-group]'',
      ''            "[glm53-apc-per-group] retention_by_group=%s "'',
      ''            "(global=%s swa_env=%s eagle_min_exempt=%s)",'',
      ''            _glm53_format_retention_vector(self.retention_interval_by_group),'',
      ''            self.retention_interval,'',
      ''            _glm53_swa_interval,'',
      ''            sorted(_glm53_min_exempt),'',
      ''        )'']\<close>

definition PG_BASE_CACHE_OLD :: string where
  \<open>PG_BASE_CACHE_OLD = lns
     [''        for manager in self.single_type_managers:'',
      ''            manager.cache_blocks('',
      ''                request,'',
      ''                num_computed_tokens,'',
      ''                retention_interval=self.retention_interval,'',
      ''            )'']\<close>

definition PG_BASE_CACHE_NEW :: string where
  \<open>PG_BASE_CACHE_NEW = lns
     [''        for i, manager in enumerate(self.single_type_managers):'',
      ''            manager.cache_blocks('',
      ''                request,'',
      ''                num_computed_tokens,'',
      ''                # [glm53-apc-per-group] per-group, not the single global value'',
      ''                retention_interval=self.retention_interval_by_group[i],'',
      ''            )'']\<close>

definition PG_HYBRID_LOOP_OLD :: string where
  \<open>PG_HYBRID_LOOP_OLD = lns
     [''        for manager in self.single_type_managers:'',
      ''            num_tokens_to_cache = aligned_num_computed_tokens'']\<close>

definition PG_HYBRID_LOOP_NEW :: string where
  \<open>PG_HYBRID_LOOP_NEW = lns
     [''        for i, manager in enumerate(self.single_type_managers):'',
      ''            num_tokens_to_cache = aligned_num_computed_tokens'']\<close>

definition PG_HYBRID_CACHE_OLD :: string where
  \<open>PG_HYBRID_CACHE_OLD = lns
     [''            manager.cache_blocks('',
      ''                request,'',
      ''                num_tokens_to_cache,'',
      ''                retention_interval=self.retention_interval,'',
      ''            )'']\<close>

definition PG_HYBRID_CACHE_NEW :: string where
  \<open>PG_HYBRID_CACHE_NEW = lns
     [''            manager.cache_blocks('',
      ''                request,'',
      ''                num_tokens_to_cache,'',
      ''                # [glm53-apc-per-group] per-group, not the single global value'',
      ''                retention_interval=self.retention_interval_by_group[i],'',
      ''            )'']\<close>

subsection \<open>\<^verbatim>\<open>overlay/patch_cache_reset.py\<close>\<close>

definition CR_MARK :: string where
  \<open>CR_MARK = ''# [glm53-cache-reset]''\<close>

definition CR_DEV_OLD :: string where
  \<open>CR_DEV_OLD = lns
     [''    if envs.VLLM_SERVER_DEV_MODE:'',
      ''        from vllm.entrypoints.serve import register_vllm_dev_api_routers'',
      '''',
      ''        register_vllm_dev_api_routers(app)'']\<close>

definition CR_DEV_NEW :: string where
  \<open>CR_DEV_NEW = lns
     [''    if envs.VLLM_SERVER_DEV_MODE:'',
      ''        from vllm.entrypoints.serve import register_vllm_dev_api_routers'',
      '''',
      ''        register_vllm_dev_api_routers(app)'',
      ''    elif os.getenv("GLM53_EXPOSE_CACHE_RESET", "0") == "1":'',
      ''        # [glm53-cache-reset] Expose only the cache-reset dev routes (issue'',
      ''        # #31): /reset_prefix_cache, /reset_mm_cache, /reset_encoder_cache.'',
      ''        # The rest of the dev surface (sleep / rlhf / rpc / server_info)'',
      ''        # stays off; VLLM_SERVER_DEV_MODE=1 keeps mounting everything.'',
      ''        from vllm.entrypoints.serve.dev.cache.api_router import ('',
      ''            attach_router as attach_cache_reset_router,'',
      ''        )'',
      '''',
      ''        attach_cache_reset_router(app)'']\<close>

subsection \<open>\<^verbatim>\<open>overlay/patch_prefix_cache_sparse_miss_metric.py\<close>\<close>

definition SM_MARK :: string where
  \<open>SM_MARK = ''# [glm53-prefix-cache-sparse-miss-metric]''\<close>

definition SM_STATS_OLD :: string where
  \<open>SM_STATS_OLD = lns
     [''    preempted_hits: int = 0'',
      ''    """The `hits` number for preempted requests."""'',
      '''',
      ''    def record(self, num_tokens: int, num_hits: int, preempted: bool) -> None:'',
      ''        """Aggregate request information into the stats."""'',
      ''        if preempted:'']\<close>

definition SM_STATS_NEW :: string where
  \<open>SM_STATS_NEW = lns
     [''    preempted_hits: int = 0'',
      ''    """The `hits` number for preempted requests."""'',
      '''',
      ''    sparse_retention_misses: int = 0  # [glm53-prefix-cache-sparse-miss-metric]'',
      ''    """Tokens in a shared prefix matched by some KV cache group but not reused'',
      ''    because another participating group held no checkpoint at that position.'',
      ''    Counted for preempted and new requests alike."""'',
      '''',
      ''    def record('',
      ''        self,'',
      ''        num_tokens: int,'',
      ''        num_hits: int,'',
      ''        preempted: bool,'',
      ''        sparse_retention_misses: int = 0,'',
      ''    ) -> None:'',
      ''        """Aggregate request information into the stats."""'',
      ''        self.sparse_retention_misses += sparse_retention_misses'',
      ''        if preempted:'']\<close>

definition SM_MANAGER_OLD :: string where
  \<open>SM_MANAGER_OLD = lns
     [''        assert self.prefix_cache_stats is not None'',
      ''        self.prefix_cache_stats.record('',
      ''            num_tokens=request.num_tokens,'',
      ''            num_hits=num_hits,'',
      ''            preempted=request.num_preemptions > 0,'',
      ''        )'']\<close>

definition SM_MANAGER_NEW :: string where
  \<open>SM_MANAGER_NEW = lns
     [''        assert self.prefix_cache_stats is not None'',
      ''        # The stored junction is the reconciled hit plus the shared prefix'',
      ''        # discarded by a lagging group. Record only the discarded suffix.'',
      ''        sparse_retention_misses = (  # [glm53-prefix-cache-sparse-miss-metric]'',
      ''            max(request.shared_prefix_boundary - num_hits, 0)'',
      ''            if request.shared_prefix_boundary'',
      ''            else 0'',
      ''        )'',
      ''        self.prefix_cache_stats.record('',
      ''            num_tokens=request.num_tokens,'',
      ''            num_hits=num_hits,'',
      ''            preempted=request.num_preemptions > 0,'',
      ''            sparse_retention_misses=sparse_retention_misses,'',
      ''        )'']\<close>

definition SM_LOGGER_COUNTER_OLD :: string where
  \<open>SM_LOGGER_COUNTER_OLD = lns
     [''        self.counter_prefix_cache_hits = create_metric_per_engine('',
      ''            counter_prefix_cache_hits, per_engine_labelvalues'',
      ''        )'',
      '''',
      ''        #'',
      ''        # External - KV connector prefix cache'']\<close>

definition SM_LOGGER_COUNTER_NEW :: string where
  \<open>SM_LOGGER_COUNTER_NEW = lns
     [''        self.counter_prefix_cache_hits = create_metric_per_engine('',
      ''            counter_prefix_cache_hits, per_engine_labelvalues'',
      ''        )'',
      '''',
      ''        counter_prefix_cache_sparse_retention_misses = self._counter_cls('',
      ''            name="vllm:prefix_cache_sparse_retention_misses",  # [glm53-prefix-cache-sparse-miss-metric]'',
      ''            documentation=('',
      ''                "Shared-prefix tokens matched by some KV cache group but not "'',
      ''                "reused because another participating group held no checkpoint "'',
      ''                "at that position."'',
      ''            ),'',
      ''            labelnames=labelnames,'',
      ''        )'',
      ''        self.counter_prefix_cache_sparse_retention_misses = ('',
      ''            create_metric_per_engine('',
      ''                counter_prefix_cache_sparse_retention_misses,'',
      ''                per_engine_labelvalues,'',
      ''            )'',
      ''        )'',
      '''',
      ''        #'',
      ''        # External - KV connector prefix cache'']\<close>

definition SM_LOGGER_RECORD_OLD :: string where
  \<open>SM_LOGGER_RECORD_OLD = lns
     [''            self.counter_prefix_cache_hits[engine_idx].inc('',
      ''                scheduler_stats.prefix_cache_stats.hits'',
      ''            )'',
      '''',
      ''            if scheduler_stats.connector_prefix_cache_stats is not None:'']\<close>

definition SM_LOGGER_RECORD_NEW :: string where
  \<open>SM_LOGGER_RECORD_NEW = lns
     [''            self.counter_prefix_cache_hits[engine_idx].inc('',
      ''                scheduler_stats.prefix_cache_stats.hits'',
      ''            )'',
      ''            self.counter_prefix_cache_sparse_retention_misses[engine_idx].inc('',
      ''                scheduler_stats.prefix_cache_stats.sparse_retention_misses'',
      ''            )  # [glm53-prefix-cache-sparse-miss-metric]'',
      '''',
      ''            if scheduler_stats.connector_prefix_cache_stats is not None:'']\<close>

definition SM_SCHEDULER_ADMISSION_CALL :: string where
  \<open>SM_SCHEDULER_ADMISSION_CALL = lns
     [''                # Record at admission so unscheduled lookups are not counted.'',
      ''                if did_prefix_cache_lookup:'',
      ''                    self.kv_cache_manager.record_prefix_cache_stats('',
      ''                        request, num_new_local_computed_tokens'',
      ''                    )'']\<close>

definition SM_SCHEDULER_ALLOCATION_FAILURE_EXIT :: string where
  \<open>SM_SCHEDULER_ALLOCATION_FAILURE_EXIT = lns
     [''                if new_blocks is None:'',
      ''                    # The request cannot be scheduled.'',
      '''',
      ''                    # NOTE: we need to untouch the request from the encode cache'',
      ''                    # manager'',
      ''                    if request.has_encoder_inputs:'',
      ''                        self.encoder_cache_manager.free(request)'',
      ''                    break'']\<close>

subsection \<open>\<^verbatim>\<open>overlay/patch_apc_no_store.py\<close>\<close>

definition NS_MARK :: string where
  \<open>NS_MARK = ''# [glm53-apc-no-store]''\<close>

definition NS_SP_FIELD_OLD :: string where
  \<open>NS_SP_FIELD_OLD = lns
     [''    skip_reading_prefix_cache: bool | None = None'']\<close>

definition NS_SP_FIELD_NEW :: string where
  \<open>NS_SP_FIELD_NEW = lns
     [''    skip_reading_prefix_cache: bool | None = None'',
      ''    skip_writing_prefix_cache: bool | None = None  # [glm53-apc-no-store]'',
      ''    """If True, this request's KV blocks are never inserted into the GPU'',
      ''    prefix cache (overlay/patch_apc_no_store.py). Lookups are unaffected: the'',
      ''    request may still read-hit. Its blocks stay unhashed, so'',
      ''    ``BlockPool.free_blocks`` recycles them LIFO from the front of the free'',
      ''    queue instead of queueing them behind -- and thereby evicting -- other'',
      ''    sessions' cached blocks. For one-off batch lanes whose prefix will never be'',
      ''    reused. Also reachable as ``vllm_xargs: {"skip_writing_prefix_cache": 1}``'',
      ''    (``extra_args``); accepted values are bool, int 0/1 and str "0"/"1"'',
      ''    (pydantic coerces a JSON boolean in ``vllm_xargs`` to 1/0)."""'']\<close>

definition NS_SP_CLASS_ANCHOR :: string where
  \<open>NS_SP_CLASS_ANCHOR = lns
     ['''',
      ''class SamplingParams('']\<close>

definition NS_SP_POST_OLD :: string where
  \<open>NS_SP_POST_OLD = lns
     [''            self.skip_reading_prefix_cache = self.prompt_logprobs is not None'']\<close>

definition NS_SP_POST_NEW :: string where
  \<open>NS_SP_POST_NEW = lns
     [''            self.skip_reading_prefix_cache = self.prompt_logprobs is not None'',
      ''        _glm53_validate_no_store_params(self)  # [glm53-apc-no-store]'']\<close>

definition NS_REQ_RESOLVE_OLD :: string where
  \<open>NS_REQ_RESOLVE_OLD = lns
     [''        self.skip_reading_prefix_cache = self.get_skip_reading_prefix_cache()'']\<close>

definition NS_REQ_RESOLVE_NEW :: string where
  \<open>NS_REQ_RESOLVE_NEW = lns
     [''        self.skip_reading_prefix_cache = self.get_skip_reading_prefix_cache()'',
      ''        # [glm53-apc-no-store] write-side sibling; resolved once, never raises'',
      ''        self.skip_writing_prefix_cache = self.get_skip_writing_prefix_cache()'']\<close>

definition NS_REQ_METHOD_OLD :: string where
  \<open>NS_REQ_METHOD_OLD = lns
     [''        return False'',
      '''',
      ''    def is_finished(self) -> bool:'']\<close>

definition NS_REQ_METHOD_NEW :: string where
  \<open>NS_REQ_METHOD_NEW = lns
     [''        return False'',
      '''',
      ''    def get_skip_writing_prefix_cache(self) -> bool:  # [glm53-apc-no-store]'',
      ''        """Whether this request's blocks must never enter the prefix cache.'',
      '''',
      ''        Typed ``SamplingParams.skip_writing_prefix_cache`` first, then'',
      ''        ``SamplingParams.extra_args`` (the ``vllm_xargs`` route). Strict 0/1'',
      ''        values; the kill switch GLM53_APC_NO_STORE=0 makes a valid 1 a logged'',
      ''        no-op. Never raises (see _glm53_resolve_no_store). PoolingParams are'',
      ''        out of scope (chat/completions only).'',
      ''        """'',
      ''        from vllm.sampling_params import _glm53_resolve_no_store'',
      '''',
      ''        return _glm53_resolve_no_store(self.sampling_params, self.request_id)'',
      '''',
      ''    def is_finished(self) -> bool:'']\<close>

definition NS_BP_CLASS_ANCHOR :: string where
  \<open>NS_BP_CLASS_ANCHOR = lns
     ['''',
      ''class BlockPool:'']\<close>

definition NS_BP_HELPER :: string where
  \<open>NS_BP_HELPER = lns
     ['''',
      ''def _glm53_log_nostore(request, site) -> None:  # [glm53-apc-no-store]'',
      ''    """Proof-of-life: log the first time a no-store request suppresses a store.'',
      '''',
      ''    Pair with the resolution receipt logged by Request: that one proves the'',
      ''    flag reached the engine, this one proves the store path was cut. A warm'',
      ''    no-store request that has nothing new to store legitimately emits only'',
      ''    the first.'',
      ''    """'',
      ''    # ``info_once`` is keyed on (msg, args): the site is a bounded set (two'',
      ''    # values), the request id is deliberately not an arg.'',
      ''    logger.info_once('',
      ''        "[glm53-apc-no-store] suppressing prefix-cache store (%s site); "'',
      ''        "lookups still enabled; later occurrences not logged",'',
      ''        site,'',
      ''    )'',
      ''    logger.debug('',
      ''        "[glm53-apc-no-store] %s store suppressed for request %s",'',
      ''        site,'',
      ''        getattr(request, "request_id", "<unknown>"),'',
      ''    )'',
      '''']\<close>

definition NS_BP_FULL_OLD :: string where
  \<open>NS_BP_FULL_OLD = lns
     [''        if num_cached_blocks >= num_full_blocks:'',
      ''            return'',
      ''        new_full_blocks = blocks[num_cached_blocks:num_full_blocks]'']\<close>

definition NS_BP_FULL_NEW :: string where
  \<open>NS_BP_FULL_NEW = lns
     [''        if num_cached_blocks >= num_full_blocks:'',
      ''            return'',
      ''        if getattr(request, "skip_writing_prefix_cache", False):  # [glm53-apc-no-store]'',
      ''            # No-store request: insert no hash, emit no BlockStored event.'',
      ''            # The caller (SingleTypeKVCacheManager.cache_blocks) still advances'',
      ''            # ``num_cached_block`` -- the running-request sentinel read at'',
      ''            # single_type_kv_cache_manager.py:196 and kv_cache_coordinator.py:241'',
      ''            # -- so allocation accounting is unchanged. These blocks keep'',
      ''            # ``block_hash is None`` and are recycled LIFO from the front of the'',
      ''            # free queue by ``free_blocks`` below, ahead of anything cached.'',
      ''            _glm53_log_nostore(request, "full")'',
      ''            return'',
      ''        new_full_blocks = blocks[num_cached_blocks:num_full_blocks]'']\<close>

definition NS_BP_PARTIAL_OLD :: string where
  \<open>NS_BP_PARTIAL_OLD = lns
     [''        if block.is_null:'',
      ''            return None'',
      '''',
      ''        assert block_size > self.hash_block_size'']\<close>

definition NS_BP_PARTIAL_NEW :: string where
  \<open>NS_BP_PARTIAL_NEW = lns
     [''        if block.is_null:'',
      ''            return None'',
      ''        if getattr(request, "skip_writing_prefix_cache", False):  # [glm53-apc-no-store]'',
      ''            # No-store request: no partial entry. Returning None also stops'',
      ''            # MambaManager._cache_partial_tail_block from registering this'',
      ''            # request in ``_partial_hit_reqs`` as a partial-tail *producer*'',
      ''            # (single_type_kv_cache_manager.py:1865), which keeps'',
      ''            # get_num_blocks_to_allocate and allocate_new_blocks in agreement'',
      ''            # and keeps move_block_hashes unreachable for it. The *reader* side'',
      ''            # of the partial-hit CoW (add_local_computed_blocks:285-291) is'',
      ''            # untouched: lookups remain enabled for no-store requests.'',
      ''            _glm53_log_nostore(request, "partial")'',
      ''            return None'',
      '''',
      ''        assert block_size > self.hash_block_size'']\<close>

subsection \<open>\<^verbatim>\<open>overlay/patch_xgrammar_termination.py\<close>\<close>

definition XG_BACKEND_MARK :: string where
  \<open>XG_BACKEND_MARK = lns
     [''    # [glm53-xgrammar-termination] Source-exact vLLM 12f64b39 backport.'']\<close>

definition XG_MANAGER_MARK :: string where
  \<open>XG_MANAGER_MARK = lns
     [''                    # [glm53-xgrammar-reasoning] Source-exact vLLM c6e19b3 backport.'']\<close>

definition XG_ACCEPT_OLD :: string where
  \<open>XG_ACCEPT_OLD = lns
     [''    def accept_tokens(self, request_id: str, tokens: list[int]) -> bool:'',
      ''        """Accepts a list of tokens and advances the FSM.'',
      '''',
      ''        Returns True if the FSM was advanced successfully.'',
      ''        Returns False if the FSM failed to advance.'',
      ''        """'',
      ''        if self._is_terminated:'',
      ''            return False'',
      ''        for token in tokens:'',
      ''            if not self.matcher.accept_token(token):'',
      ''                logger.error('',
      ''                    "Failed to advance FSM for request %s "'',
      ''                    "for tokens %s. Please file an issue.",'',
      ''                    request_id,'',
      ''                    token,'',
      ''                )'',
      ''                return False'',
      ''            self.num_processed_tokens += 1'',
      ''        self._is_terminated = self.matcher.is_terminated()'',
      ''        return True'']\<close>

definition XG_ACCEPT_UPSTREAM :: string where
  \<open>XG_ACCEPT_UPSTREAM = lns
     [''    def accept_tokens(self, request_id: str, tokens: list[int]) -> bool:'',
      ''        """Accepts a list of tokens and advances the FSM.'',
      '''',
      ''        Returns True if all grammar-constrained tokens were accepted.'',
      ''        Tokens after termination are ignored. Returns False if the FSM'',
      ''        failed to advance.'',
      ''        """'',
      ''        if self._is_terminated:'',
      ''            return True'',
      ''        for token in tokens:'',
      ''            if not self.matcher.accept_token(token):'',
      ''                logger.error('',
      ''                    "Failed to advance FSM for request %s "'',
      ''                    "for tokens %s. Please file an issue.",'',
      ''                    request_id,'',
      ''                    token,'',
      ''                )'',
      ''                return False'',
      ''            self.num_processed_tokens += 1'',
      ''            self._is_terminated = self.matcher.is_terminated()'',
      ''            if self._is_terminated:'',
      ''                break'',
      ''        return True'']\<close>

definition XG_VALIDATE_OLD :: string where
  \<open>XG_VALIDATE_OLD = lns
     [''    def validate_tokens(self, tokens: list[int]) -> list[int]:'',
      ''        """Checks if the list of tokens are accepted by the FSM in sequence.'',
      ''        Will not advance the FSM.'',
      '''',
      ''        Returns the prefix list of tokens that are accepted by the FSM.'',
      ''        """'',
      ''        accepted_tokens = []'',
      ''        for token in tokens:'',
      ''            if self.matcher.accept_token(token):'',
      ''                accepted_tokens.append(token)'',
      ''            else:'',
      ''                break'',
      ''        if len(accepted_tokens) > 0:'',
      ''            # Rollback the FSM to the initial state'',
      ''            self.matcher.rollback(len(accepted_tokens))'',
      ''        return accepted_tokens'']\<close>

definition XG_VALIDATE_UPSTREAM :: string where
  \<open>XG_VALIDATE_UPSTREAM = lns
     [''    def validate_tokens(self, tokens: list[int]) -> list[int]:'',
      ''        """Checks if the list of tokens are accepted by the FSM in sequence.'',
      ''        Will not advance the FSM.'',
      '''',
      ''        Returns the prefix list of tokens that are accepted by the FSM.'',
      ''        """'',
      ''        if self._is_terminated:'',
      ''            return []'',
      '''',
      ''        accepted_tokens = []'',
      ''        for token in tokens:'',
      ''            if self.matcher.accept_token(token):'',
      ''                accepted_tokens.append(token)'',
      ''                if self.matcher.is_terminated():'',
      ''                    break'',
      ''            else:'',
      ''                break'',
      ''        if len(accepted_tokens) > 0:'',
      ''            # Rollback the FSM to the initial state'',
      ''            self.matcher.rollback(len(accepted_tokens))'',
      ''        return accepted_tokens'']\<close>

definition XG_RESET_OLD :: string where
  \<open>XG_RESET_OLD = lns
     [''    def reset(self):'',
      ''        self.num_processed_tokens = 0'',
      ''        self.matcher.reset()'']\<close>

definition XG_RESET_UPSTREAM :: string where
  \<open>XG_RESET_UPSTREAM = lns
     [''    def reset(self):'',
      ''        self.matcher.reset()'',
      ''        self.num_processed_tokens = 0'',
      ''        self._is_terminated = False'']\<close>

definition XG_MANAGER_OLD :: string where
  \<open>XG_MANAGER_OLD = lns
     [''                    if advance_grammar and not grammar.is_terminated():'',
      ''                        accepted = grammar.accept_tokens(req_id, [token])'',
      ''                        if accepted:'',
      ''                            state_advancements += 1'',
      ''                        elif not post_reasoning_end_in_window:'',
      ''                            raise AssertionError('',
      ''                                (token, req_id, scheduled_spec_decode_tokens)'',
      ''                            )'']\<close>

definition XG_MANAGER_UPSTREAM :: string where
  \<open>XG_MANAGER_UPSTREAM = lns
     [''                    if advance_grammar and not grammar.is_terminated():'',
      ''                        if post_reasoning_end_in_window:'',
      ''                            accepted = bool(grammar.validate_tokens([token]))'',
      ''                            if accepted:'',
      ''                                accepted = grammar.accept_tokens(req_id, [token])'',
      ''                        else:'',
      ''                            accepted = grammar.accept_tokens(req_id, [token])'',
      ''                        if accepted:'',
      ''                            state_advancements += 1'',
      ''                        elif not post_reasoning_end_in_window:'',
      ''                            raise AssertionError('',
      ''                                (token, req_id, scheduled_spec_decode_tokens)'',
      ''                            )'']\<close>

end
