(* ===== verification/Block_Evict.thy ===== *)
theory Block_Evict
  imports Glm_Prelude "HOL-Library.Multiset"
begin

text \<open>
  The choice of prefix-cache victims: \<^verbatim>\<open>overlay/cache_tail_evict.py\<close> and the two hooks that
  \<^verbatim>\<open>overlay/patch_cache_hot_protect.py\<close> writes into vLLM's block pool. The free-block queue of vLLM
  (a doubly linked list between two sentinels) is the list of its blocks from head to tail; block
  ids are the identity of a block. The module globals are a record.
\<close>

subsection \<open>Model\<close>

record kv_block =
  block_id :: int
  block_hash :: "nat option"
  block_hash_num_tokens :: "int option"

record evict_globals =
  LOGGED :: bool
  HOT_LOGGED :: bool
  REUSED :: "int set"

definition hot_protect_enabled :: "environ \<Rightarrow> bool" where
  "hot_protect_enabled env \<longleftrightarrow> py_strip (env_get env ''GLM53_CACHE_HOT_PROTECT'' ''0'') = ''1''"

definition mark_reused :: "int \<Rightarrow> evict_globals \<Rightarrow> evict_globals" where
  "mark_reused b g = g\<lparr>REUSED := insert b (REUSED g)\<rparr>"

definition clear_reused :: "int \<Rightarrow> evict_globals \<Rightarrow> evict_globals" where
  "clear_reused b g = g\<lparr>REUSED := REUSED g - {b}\<rparr>"

definition rank_key :: "bool \<Rightarrow> int option \<Rightarrow> nat \<Rightarrow> bool \<Rightarrow> int \<times> int \<times> int \<times> nat" where
  "rank_key hashed num_tokens index reused =
     (if hashed then 1 else 0, if reused then 1 else 0,
      - (case num_tokens of None \<Rightarrow> 0 | Some n \<Rightarrow> n), index)"

text \<open>The \<open>while block is not tail\<close> walk, building the ranked list in queue order.\<close>

fun rank_queue :: "bool \<Rightarrow> int set \<Rightarrow> nat \<Rightarrow> kv_block list
    \<Rightarrow> ((int \<times> int \<times> int \<times> nat) \<times> kv_block) list" where
  "rank_queue protect reused index [] = []"
| "rank_queue protect reused index (b # bs) =
     (rank_key (block_hash b \<noteq> None) (block_hash_num_tokens b) index
        (protect \<and> block_hash b \<noteq> None \<and> block_id b \<in> reused), b)
     # rank_queue protect reused (Suc index) bs"

definition queue_remove :: "kv_block list \<Rightarrow> kv_block \<Rightarrow> kv_block list" where
  "queue_remove q b = filter (\<lambda>x. block_id x \<noteq> block_id b) q"

definition select_blocks :: "environ \<Rightarrow> evict_globals \<Rightarrow> kv_block list \<Rightarrow> nat
    \<Rightarrow> evict_globals \<times> kv_block list \<times> kv_block list" where
  "select_blocks env g queue num_blocks =
     (let g1 = g\<lparr>LOGGED := True\<rparr>;
          protect = hot_protect_enabled env;
          g2 = (if protect \<and> \<not> HOT_LOGGED g1 then g1\<lparr>HOT_LOGGED := True\<rparr> else g1)
      in if num_blocks = 0 then (g2, queue, [])
         else let ranked = sort_key fst (rank_queue protect (REUSED g2) 0 queue);
                  chosen = map snd (take num_blocks ranked)
              in (g2, foldl queue_remove queue chosen, chosen))"

text \<open>The hit hook (\<open>HIT_NEW\<close>) and the hash-reset hook (\<open>RESET_NEW\<close>) of the hot-protect overlay.\<close>

fun note_hits :: "kv_block list \<Rightarrow> evict_globals \<Rightarrow> evict_globals" where
  "note_hits [] g = g"
| "note_hits (b # bs) g =
     note_hits bs (if block_hash b \<noteq> None then mark_reused (block_id b) g else g)"

definition reset_hash :: "kv_block \<Rightarrow> evict_globals \<Rightarrow> kv_block \<times> evict_globals" where
  "reset_hash b g =
     (b\<lparr>block_hash := None, block_hash_num_tokens := None\<rparr>, clear_reused (block_id b) g)"

text \<open>Derived notions used in the statements.\<close>

definition depth :: "kv_block \<Rightarrow> int" where
  "depth b = (case block_hash_num_tokens b of None \<Rightarrow> 0 | Some n \<Rightarrow> n)"

definition hot :: "bool \<Rightarrow> int set \<Rightarrow> kv_block \<Rightarrow> bool" where
  "hot protect reused b \<longleftrightarrow> protect \<and> block_hash b \<noteq> None \<and> block_id b \<in> reused"

text \<open>Position-free rank: what the key says of a block apart from its place in the queue.\<close>

definition rank3 :: "bool \<Rightarrow> int set \<Rightarrow> kv_block \<Rightarrow> int \<times> int \<times> int" where
  "rank3 protect reused b =
     (if block_hash b \<noteq> None then 1 else 0, if hot protect reused b then 1 else 0, - depth b)"

subsection \<open>The walk and the sort\<close>

lemma map_snd_rank_queue [evict_simps]: "map snd (rank_queue p r i q) = q"
  by (induction q arbitrary: i) auto

lemma length_rank_queue [evict_simps]: "length (rank_queue p r i q) = length q"
  by (induction q arbitrary: i) auto

lemma rank_queue_nth:
  "j < length q \<Longrightarrow> rank_queue p r i q ! j =
     ((fst (rank3 p r (q ! j)), fst (snd (rank3 p r (q ! j))), snd (snd (rank3 p r (q ! j))), i + j), q ! j)"
proof (induction q arbitrary: i j)
  case Nil
  then show ?case by simp
next
  case (Cons b q)
  then show ?case
    by (cases j) (auto simp: rank3_def rank_key_def hot_def depth_def split: option.splits)
qed

lemma sorted_key_split:
  assumes "x \<in> set (take n (sort_key f xs))" and "y \<in> set (drop n (sort_key f xs))"
  shows "f x \<le> f y"
proof -
  have "sorted (map f (take n (sort_key f xs) @ drop n (sort_key f xs)))"
    by simp
  then have "\<forall>a \<in> set (map f (take n (sort_key f xs))). \<forall>b \<in> set (map f (drop n (sort_key f xs))). a \<le> b"
    unfolding map_append sorted_append by blast
  with assms show ?thesis by auto
qed

lemma foldl_queue_remove [evict_simps]:
  "foldl queue_remove q cs = filter (\<lambda>x. block_id x \<notin> block_id ` set cs) q"
  by (induction cs arbitrary: q) (auto simp: queue_remove_def filter_filter intro: filter_cong)

lemma select_globals_REUSED [evict_simps]: "REUSED (fst (select_blocks env g q n)) = REUSED g"
  by (auto simp: select_blocks_def Let_def)

definition victims :: "environ \<Rightarrow> evict_globals \<Rightarrow> kv_block list \<Rightarrow> nat \<Rightarrow> kv_block list" where
  "victims env g q n = snd (snd (select_blocks env g q n))"

definition kept :: "environ \<Rightarrow> evict_globals \<Rightarrow> kv_block list \<Rightarrow> nat \<Rightarrow> kv_block list" where
  "kept env g q n = fst (snd (select_blocks env g q n))"

lemma victims_eq:
  "victims env g q n =
     map snd (take n (sort_key fst (rank_queue (hot_protect_enabled env) (REUSED g) 0 q)))"
  by (auto simp: victims_def select_blocks_def Let_def)

lemma kept_eq: "kept env g q n = filter (\<lambda>x. block_id x \<notin> block_id ` set (victims env g q n)) q"
  unfolding kept_def victims_def
  by (auto simp: select_blocks_def Let_def evict_simps)

lemma mset_ranked: "mset (map snd (sort_key fst (rank_queue p r i q))) = mset q"
  by (metis map_snd_rank_queue mset_map mset_sort)

lemma length_victims: "length (victims env g q n) = min n (length q)"
  by (simp add: victims_eq evict_simps min.commute)

lemma mset_victims_subset: "mset (victims env g q n) \<subseteq># mset q"
proof -
  let ?s = "sort_key fst (rank_queue (hot_protect_enabled env) (REUSED g) 0 q)"
  have "mset (map snd (take n ?s)) \<subseteq># mset (map snd (take n ?s)) + mset (map snd (drop n ?s))"
    by simp
  also have "\<dots> = mset (map snd ?s)"
    by (metis append_take_drop_id map_append mset_append)
  also have "\<dots> = mset q" by (rule mset_ranked)
  finally show ?thesis by (simp add: victims_eq)
qed

lemma set_victims_subset: "set (victims env g q n) \<subseteq> set q"
  using mset_victims_subset [THEN set_mset_mono] by simp

lemma ids_inj: "distinct (map block_id q) \<Longrightarrow> x \<in> set q \<Longrightarrow> y \<in> set q \<Longrightarrow>
    block_id x = block_id y \<Longrightarrow> x = y"
  by (auto simp: distinct_map dest: inj_onD)

lemma kept_is_rest:
  assumes "distinct (map block_id q)"
  shows "kept env g q n = filter (\<lambda>x. x \<notin> set (victims env g q n)) q"
  unfolding kept_eq
  using assms set_victims_subset [of env g q n]
  by (intro filter_cong refl) (auto dest: ids_inj)

lemma mset_victims_kept:
  assumes d: "distinct (map block_id q)"
  shows "mset q = mset (victims env g q n) + mset (kept env g q n)"
proof -
  let ?v = "victims env g q n"
  have dq: "distinct q" using d by (simp add: distinct_map)
  have "distinct (map snd (sort_key fst (rank_queue (hot_protect_enabled env) (REUSED g) 0 q)))"
    using dq mset_ranked by (metis mset_eq_imp_distinct_iff)
  then have "distinct ?v"
    by (simp add: victims_eq distinct_take flip: take_map)
  then have "mset (filter (\<lambda>x. x \<in> set ?v) q) = mset ?v"
    using dq set_victims_subset [of env g q n]
    by (intro set_eq_iff_mset_eq_distinct [THEN iffD1]) auto
  then show ?thesis
    using multiset_partition [of "mset q" "\<lambda>x. x \<in> set ?v"] by (simp add: kept_is_rest [OF d])
qed

lemma victim_rank:
  assumes d: "distinct (map block_id q)"
    and v: "v \<in> set (victims env g q n)" and r: "r \<in> set (kept env g q n)"
  defines "p \<equiv> hot_protect_enabled env"
  obtains i j where "i < length q" "q ! i = v" "j < length q" "q ! j = r"
    "rank3 p (REUSED g) v \<le> rank3 p (REUSED g) r"
    "rank3 p (REUSED g) v = rank3 p (REUSED g) r \<longrightarrow> i \<le> j"
proof -
  let ?rq = "rank_queue p (REUSED g) 0 q"
  let ?s = "sort_key fst ?rq"
  from v obtain kv where kv: "(kv, v) \<in> set (take n ?s)"
    by (auto simp: victims_eq p_def)
  from kv have "(kv, v) \<in> set ?rq" by (metis in_set_takeD set_sort)
  then obtain i where i: "i < length q" "?rq ! i = (kv, v)"
    by (auto simp: in_set_conv_nth length_rank_queue)
  from r have rq: "r \<in> set q" and rv: "r \<notin> set (victims env g q n)"
    by (auto simp: kept_is_rest [OF d])
  from rq obtain j where j: "j < length q" "q ! j = r" by (auto simp: in_set_conv_nth)
  let ?kr = "fst (?rq ! j)"
  from j have jr: "?rq ! j = (?kr, r)" by (simp add: rank_queue_nth)
  then have "(?kr, r) \<in> set ?s" using j(1) by (metis length_rank_queue nth_mem set_sort)
  moreover have "(?kr, r) \<notin> set (take n ?s)"
    using rv by (force simp: victims_eq p_def)
  ultimately have "(?kr, r) \<in> set (drop n ?s)"
    by (metis UnE append_take_drop_id set_append)
  from sorted_key_split [OF kv this] have le: "kv \<le> ?kr" by simp
  from i have vi: "q ! i = v" and "kv = fst (?rq ! i)" by (auto simp: rank_queue_nth)
  with le i(1) j have "rank3 p (REUSED g) v \<le> rank3 p (REUSED g) r"
    and "rank3 p (REUSED g) v = rank3 p (REUSED g) r \<longrightarrow> i \<le> j"
    by (auto simp: rank_queue_nth less_eq_prod_def prod_eq_iff split: prod.splits if_splits)
  with i(1) vi j show thesis by (rule that)
qed

subsection \<open>The interface the block pool relies on\<close>

text \<open>
  \<^verbatim>\<open>BlockPool.get_new_blocks\<close> needs of whatever stands at its pop line only that it hands out
  exactly as many blocks as it was asked for and that victims and remaining queue together are the
  old queue. Under these two laws no block id is lost or handed out twice, whatever the order of
  allocations and releases is.
\<close>

locale evictor =
  fixes pick :: "'b list \<Rightarrow> nat \<Rightarrow> 'b list \<times> 'b list"
    and ok :: "'b list \<Rightarrow> bool"
  assumes pick_mset: "ok q \<Longrightarrow> mset q = mset (fst (pick q n)) + mset (snd (pick q n))"
    and pick_length: "ok q \<Longrightarrow> length (fst (pick q n)) = min n (length q)"
    and ok_sub: "ok q \<Longrightarrow> mset q' \<subseteq># mset q \<Longrightarrow> ok q'"
begin

text \<open>An operation of the pool: allocate \<open>n\<close> blocks, or release the \<open>n\<close> oldest ones in use.\<close>

fun pool_run :: "'b list \<times> 'b list \<Rightarrow> (bool \<times> nat) list \<Rightarrow> ('b list \<times> 'b list) option" where
  "pool_run s [] = Some s"
| "pool_run (free, used) ((True, n) # ops) =
     (if length free < n then None
      else pool_run (snd (pick free n), used @ fst (pick free n)) ops)"
| "pool_run (free, used) ((False, n) # ops) =
     pool_run (free @ take n used, drop n used) ops"

lemma pool_run_conserves:
  assumes "ok (free @ used)" and "pool_run (free, used) ops = Some (free', used')"
  shows "mset free' + mset used' = mset free + mset used"
  using assms
proof (induction "(free, used)" ops arbitrary: free used rule: pool_run.induct)
  case (1 free used)
  then show ?case by simp
next
  case (2 free used n ops)
  have okf: "ok free" using "2.prems"(1) by (rule ok_sub) simp
  have eq: "mset (snd (pick free n) @ (used @ fst (pick free n))) = mset (free @ used)"
    using pick_mset [OF okf, of n] by simp
  with "2.prems"(1) have "ok (snd (pick free n) @ (used @ fst (pick free n)))"
    by (metis ok_sub subset_mset.order_refl)
  with "2.hyps" "2.prems"(2) eq show ?case by (simp split: if_splits)
next
  case (3 free used n ops)
  have eq: "mset ((free @ take n used) @ drop n used) = mset (free @ used)" by simp
  with "3.prems"(1) have "ok ((free @ take n used) @ drop n used)"
    by (metis ok_sub subset_mset.order_refl)
  with "3.hyps" "3.prems"(2) eq show ?case by (metis mset_append pool_run.simps(3))
qed

lemma pick_exact: "ok q \<Longrightarrow> n \<le> length q \<Longrightarrow> length (fst (pick q n)) = n \<and> length (snd (pick q n)) = length q - n"
  using pick_length [of q n] pick_mset [of q n]
  by (metis add_diff_cancel_left' min.absorb1 size_mset size_union)

end

interpretation tail_first: evictor
  "\<lambda>q n. (victims env g q n, kept env g q n)" "\<lambda>q. distinct (map block_id q)" for env g
proof unfold_locales
  fix q :: "kv_block list" and n assume "distinct (map block_id q)"
  then show "mset q = mset (fst (victims env g q n, kept env g q n)) + mset (snd (victims env g q n, kept env g q n))"
    by (simp add: mset_victims_kept [symmetric])
next
  fix q :: "kv_block list" and n assume "distinct (map block_id q)"
  then show "length (fst (victims env g q n, kept env g q n)) = min n (length q)"
    by (simp add: length_victims)
next
  fix q q' :: "kv_block list" assume "distinct (map block_id q)" and "mset q' \<subseteq># mset q"
  then show "distinct (map block_id q')"
    by (metis distinct_append image_mset_subseteq_mono mset_append mset_eq_imp_distinct_iff mset_map
        mset_subset_eq_exists_conv ex_mset)
qed

subsection \<open>What is evicted\<close>

text \<open>(C15) Eviction order. Whenever \<open>select_blocks\<close> takes a block \<open>v\<close> and leaves a block \<open>r\<close> in the
  free queue: an unhashed block is never left behind while a cached one is taken; a protected (hit)
  block is taken only if every cached block left is protected too; within one band the block taken
  covers at least as many tokens; and at equal depth the block taken stood earlier in the queue.\<close>

theorem select_blocks_order:
  assumes d: "distinct (map block_id q)"
    and v: "v \<in> set (snd (snd (select_blocks env g q n)))"
    and r: "r \<in> set (fst (snd (select_blocks env g q n)))"
  shows "(block_hash v \<noteq> None \<longrightarrow> block_hash r \<noteq> None)
    \<and> (hot (hot_protect_enabled env) (REUSED g) v \<longrightarrow> hot (hot_protect_enabled env) (REUSED g) r)
    \<and> ((block_hash v \<noteq> None) = (block_hash r \<noteq> None)
        \<and> hot (hot_protect_enabled env) (REUSED g) v = hot (hot_protect_enabled env) (REUSED g) r
        \<longrightarrow> depth r \<le> depth v
          \<and> (depth r = depth v \<longrightarrow> (\<exists>i j. i < j \<and> j < length q \<and> q ! i = v \<and> q ! j = r)))"
proof -
  let ?p = "hot_protect_enabled env"
  from v r have v': "v \<in> set (victims env g q n)" and r': "r \<in> set (kept env g q n)"
    by (simp_all add: victims_def kept_def)
  then obtain i j where ij: "i < length q" "q ! i = v" "j < length q" "q ! j = r"
    and le: "rank3 ?p (REUSED g) v \<le> rank3 ?p (REUSED g) r"
    and tie: "rank3 ?p (REUSED g) v = rank3 ?p (REUSED g) r \<longrightarrow> i \<le> j"
    using victim_rank [OF d] by metis
  have "v \<noteq> r" using v' r' by (auto simp: kept_is_rest [OF d])
  then have "i \<noteq> j" using ij by auto
  with ij tie have tie': "rank3 ?p (REUSED g) v = rank3 ?p (REUSED g) r \<longrightarrow>
      (\<exists>i j. i < j \<and> j < length q \<and> q ! i = v \<and> q ! j = r)"
    using nat_less_le by blast
  from le show ?thesis
    using tie' by (auto simp: rank3_def hot_def less_eq_prod_def split: if_splits)
qed

definition blk :: "int \<Rightarrow> nat option \<Rightarrow> int option \<Rightarrow> kv_block" where
  "blk i h t = \<lparr>block_id = i, block_hash = h, block_hash_num_tokens = t\<rparr>"

definition demo_env :: environ where
  "demo_env = Map.empty(''GLM53_CACHE_HOT_PROTECT'' \<mapsto> ''1'')"

definition demo_globals :: evict_globals where
  "demo_globals = \<lparr>LOGGED = False, HOT_LOGGED = False, REUSED = {3}\<rparr>"

definition demo_queue :: "kv_block list" where
  "demo_queue = [blk 1 (Some 10) (Some 3584), blk 2 None None, blk 3 (Some 11) (Some 10752), blk 4 (Some 12) (Some 7168)]"

lemma demo_protect: "hot_protect_enabled demo_env"
  by (simp add: hot_protect_enabled_def demo_env_def env_get_def py_strip_def py_ws_def)

lemma demo_select:
  "snd (select_blocks demo_env demo_globals demo_queue 2) =
     ([blk 1 (Some 10) (Some 3584), blk 3 (Some 11) (Some 10752)], [blk 2 None None, blk 4 (Some 12) (Some 7168)])"
  by (simp add: select_blocks_def demo_protect demo_globals_def demo_queue_def blk_def rank_key_def
      queue_remove_def Let_def numeral_2_eq_2)

theorem select_blocks_order_witness:
  "depth (blk 1 (Some 10) (Some 3584)) \<le> depth (blk 4 (Some 12) (Some 7168))"
proof -
  have "distinct (map block_id demo_queue)" by (simp add: demo_queue_def blk_def)
  moreover have "blk 4 (Some 12) (Some 7168) \<in> set (snd (snd (select_blocks demo_env demo_globals demo_queue 2)))"
    by (simp add: demo_select)
  moreover have "blk 1 (Some 10) (Some 3584) \<in> set (fst (snd (select_blocks demo_env demo_globals demo_queue 2)))"
    by (simp add: demo_select)
  ultimately show ?thesis
    using select_blocks_order [of demo_queue "blk 4 (Some 12) (Some 7168)" demo_env demo_globals 2
        "blk 1 (Some 10) (Some 3584)"]
    by (simp add: hot_def blk_def demo_globals_def)
qed

text \<open>Hot protection. As long as the pool asks for no more blocks than there are one-shot blocks
  in the free queue (unhashed, or cached but never hit), no block that a later request has hit is
  evicted.\<close>

theorem hot_blocks_survive:
  assumes d: "distinct (map block_id q)"
    and n: "n \<le> length (filter (\<lambda>b. \<not> hot (hot_protect_enabled env) (REUSED g) b) q)"
  shows "\<forall>v \<in> set (snd (snd (select_blocks env g q n))). \<not> hot (hot_protect_enabled env) (REUSED g) v"
proof (rule ccontr)
  let ?hot = "hot (hot_protect_enabled env) (REUSED g)"
  assume "\<not> ?thesis"
  then obtain v where v: "v \<in> set (victims env g q n)" and hv: "?hot v"
    by (auto simp: victims_def)
  have "\<forall>r \<in> set (kept env g q n). ?hot r"
  proof
    fix r assume "r \<in> set (kept env g q n)"
    then have "rank3 (hot_protect_enabled env) (REUSED g) v \<le> rank3 (hot_protect_enabled env) (REUSED g) r"
      using victim_rank [OF d v] by metis
    with hv show "?hot r" by (auto simp: rank3_def hot_def less_eq_prod_def split: if_splits)
  qed
  then have none: "filter (\<lambda>b. \<not> ?hot b) (kept env g q n) = []" by (simp add: filter_empty_conv)
  have "length (filter (\<lambda>b. \<not> ?hot b) q)
      = size (filter_mset (\<lambda>b. \<not> ?hot b) (mset (victims env g q n) + mset (kept env g q n)))"
    by (metis d mset_filter mset_victims_kept size_mset)
  also have "\<dots> = length (filter (\<lambda>b. \<not> ?hot b) (victims env g q n))"
    using none by (metis filter_union_mset mset_filter mset.simps(1) add.right_neutral size_mset)
  also have "\<dots> < length (victims env g q n)"
    using v hv by (intro length_filter_less) auto
  also have "\<dots> \<le> n" by (simp add: length_victims)
  finally show False using n by simp
qed

theorem hot_blocks_survive_witness:
  "\<not> hot (hot_protect_enabled demo_env) (REUSED demo_globals) (blk 4 (Some 12) (Some 7168))"
proof -
  have "distinct (map block_id demo_queue)" by (simp add: demo_queue_def blk_def)
  moreover have "2 \<le> length (filter (\<lambda>b. \<not> hot (hot_protect_enabled demo_env) (REUSED demo_globals) b) demo_queue)"
    by (simp add: demo_queue_def blk_def hot_def demo_globals_def)
  ultimately have "\<forall>v \<in> set (snd (snd (select_blocks demo_env demo_globals demo_queue 2))).
      \<not> hot (hot_protect_enabled demo_env) (REUSED demo_globals) v"
    by (rule hot_blocks_survive)
  then show ?thesis unfolding demo_select by simp
qed

text \<open>Exact allocation. Asked for \<open>n\<close> of the free blocks, \<open>select_blocks\<close> hands out exactly \<open>n\<close>,
  removes exactly those from the queue, keeps the others in their order, and neither loses nor
  duplicates a block.\<close>

theorem select_blocks_exact:
  assumes d: "distinct (map block_id q)" and n: "n \<le> length q"
  shows "case select_blocks env g q n of (g', rest, chosen) \<Rightarrow>
    length chosen = n \<and> length rest = length q - n \<and> subseq rest q
    \<and> mset q = mset chosen + mset rest \<and> REUSED g' = REUSED g"
proof -
  obtain g' rest chosen where sel: "select_blocks env g q n = (g', rest, chosen)"
    by (metis prod_cases3)
  then have vk: "chosen = victims env g q n" "rest = kept env g q n"
    by (simp_all add: victims_def kept_def)
  have "subseq (kept env g q n) q"
    by (simp add: kept_is_rest [OF d] subseq_filter_left)
  moreover have "length (victims env g q n) = n" and "length (kept env g q n) = length q - n"
    using tail_first.pick_exact [OF d n, of env g] by simp_all
  moreover have "REUSED g' = REUSED g" using select_globals_REUSED [of env g q n] sel by simp
  ultimately show ?thesis
    using mset_victims_kept [OF d, of env g n] unfolding sel vk by simp
qed

theorem select_blocks_exact_witness:
  "length (snd (snd (select_blocks demo_env demo_globals demo_queue 2))) = 2"
proof -
  have "distinct (map block_id demo_queue)" and "2 \<le> length demo_queue"
    by (simp_all add: demo_queue_def blk_def)
  from select_blocks_exact [OF this, where env = demo_env and g = demo_globals] show ?thesis
    by (auto split: prod.splits)
qed

subsection \<open>Reuse marks never outlive the cached tokens\<close>

text \<open>
  The pool as the two hooks see it: the physical blocks by id and the globals of the eviction
  module. A step is a batch of cache hits, the reset of a block's hash, the registration of a hash
  by vLLM, or a choice of victims.
\<close>

record cache_pool =
  blocks :: "int \<Rightarrow> kv_block"
  globs :: evict_globals

inductive pool_step :: "cache_pool \<Rightarrow> cache_pool \<Rightarrow> bool" where
  hit: "pool_step s (s\<lparr>globs := note_hits (map (blocks s) ids) (globs s)\<rparr>)"
| reset: "reset_hash (blocks s i) (globs s) = (b', g') \<Longrightarrow>
    pool_step s (s\<lparr>blocks := (blocks s)(i := b'), globs := g'\<rparr>)"
| store: "pool_step s (s\<lparr>blocks := (blocks s)(i := (blocks s i)\<lparr>block_hash := Some h, block_hash_num_tokens := Some t\<rparr>)\<rparr>)"
| select: "pool_step s (s\<lparr>globs := fst (select_blocks env (globs s) (map (blocks s) ids) n)\<rparr>)"

definition pool_init :: cache_pool where
  "pool_init = \<lparr>blocks = (\<lambda>i. blk i None None), globs = \<lparr>LOGGED = False, HOT_LOGGED = False, REUSED = {}\<rparr>\<rparr>"

definition marks_live :: "cache_pool \<Rightarrow> bool" where
  "marks_live s \<longleftrightarrow> (\<forall>i. block_id (blocks s i) = i)
     \<and> (\<forall>i \<in> REUSED (globs s). block_hash (blocks s i) \<noteq> None)"

lemma REUSED_note_hits: "REUSED (note_hits bs g) = REUSED g \<union> block_id ` {b \<in> set bs. block_hash b \<noteq> None}"
  by (induction bs arbitrary: g) (auto simp: mark_reused_def)

lemma pool_step_marks_live: "pool_step s t \<Longrightarrow> marks_live s \<Longrightarrow> marks_live t"
proof (induction rule: pool_step.induct)
  case (hit s ids)
  then show ?case by (auto simp: marks_live_def REUSED_note_hits)
next
  case (reset s i b' g')
  then show ?case by (auto simp: marks_live_def reset_hash_def clear_reused_def)
next
  case (store s i h t)
  then show ?case by (auto simp: marks_live_def)
next
  case (select s env ids n)
  then show ?case by (simp add: marks_live_def evict_simps)
qed

text \<open>Marks are live. In every state the pool can reach from boot, a block id recorded as reused
  belongs to a block that still carries a hash: a recycled block never inherits the protection of
  the tokens it held before.\<close>

theorem reachable_marks_live:
  assumes "pool_step\<^sup>*\<^sup>* pool_init s" and "i \<in> REUSED (globs s)"
  shows "block_hash (blocks s i) \<noteq> None"
proof -
  have "marks_live s"
    using assms(1)
  proof (induction rule: rtranclp_induct)
    case base
    show ?case by (simp add: marks_live_def pool_init_def blk_def)
  next
    case (step y z)
    then show ?case by (blast intro: pool_step_marks_live)
  qed
  with assms(2) show ?thesis by (simp add: marks_live_def)
qed

definition demo_stored :: cache_pool where
  "demo_stored = pool_init\<lparr>blocks := (blocks pool_init)(7 := (blocks pool_init 7)\<lparr>block_hash := Some 1, block_hash_num_tokens := Some 64\<rparr>)\<rparr>"

theorem reachable_marks_live_witness:
  "7 \<in> REUSED (globs (demo_stored\<lparr>globs := note_hits (map (blocks demo_stored) [7]) (globs demo_stored)\<rparr>))
   \<and> block_hash (blocks (demo_stored\<lparr>globs := note_hits (map (blocks demo_stored) [7]) (globs demo_stored)\<rparr>) 7) \<noteq> None"
proof -
  let ?t = "demo_stored\<lparr>globs := note_hits (map (blocks demo_stored) [7]) (globs demo_stored)\<rparr>"
  have "pool_step pool_init demo_stored" unfolding demo_stored_def by (rule pool_step.store)
  moreover have "pool_step demo_stored ?t" by (rule pool_step.hit)
  ultimately have "pool_step\<^sup>*\<^sup>* pool_init ?t" by simp
  moreover have m: "7 \<in> REUSED (globs ?t)"
    by (simp add: demo_stored_def pool_init_def blk_def mark_reused_def)
  ultimately show ?thesis using reachable_marks_live [of ?t 7] by simp
qed

end
