(* ===== verification/Adaptive_K.thy ===== *)
theory Adaptive_K
  imports Py_Text Block_Evict
begin

text \<open>
  The adaptive verification length of \<^verbatim>\<open>overlay/patch_adaptive_k.py\<close>: the policy class it writes into
  vLLM's scheduler (\<open>SCHED_HELPER\<close>), the patched \<open>update_draft_token_ids\<close> (\<open>UPD_NEW\<close>) and
  \<open>update_from_output\<close> hook (\<open>OBS_NEW\<close>), and the CUDA-graph query lengths (\<open>CG_HELPER\<close>).
  Python floats are rationals, with a rounding function \<open>rnd\<close> applied to the result of every float
  operation and a conversion \<open>ofs\<close> for \<open>float(str)\<close>; both are arguments of the definitions. The override
  file is what \<open>os.stat\<close> and \<open>json.load\<close> return for it. Printing is left out.
\<close>

subsection \<open>Model\<close>

datatype jval = JNull | JBool bool | JInt int | JFloat rat | JStr string | JList "jval list" | JObj

record ak_request =
  rq_id :: string
  spec_token_ids :: "int list"

record adaptive_k =
  enabled :: bool
  graphs_enabled :: bool
  alpha :: rat
  margin :: rat
  min_steps :: int
  k_set :: "int list"
  saturate :: string
  hist_every :: int
  batch_margin :: bool
  pos_trim :: bool
  ema_state :: "string \<rightharpoonup> rat \<times> int"
  hist :: "int \<rightharpoonup> int"
  steps :: int
  k_max :: int
  boot_set :: "int list"
  boot_enabled :: bool
  boot_graphs :: bool
  file_mtime :: "int option"

text \<open>\<open>stat\<close> of the override file (\<open>None\<close>: it does not exist) with the result of \<open>json.load\<close>.\<close>

type_synonym override = "(int \<times> (string \<rightharpoonup> jval) res) option"

definition on_values :: "string list" where "on_values = [''ema'', ''on'', ''1'']"
definition yes_values :: "string list" where "yes_values = [''1'', ''on'', ''true'', ''yes'']"

fun split_on :: "char \<Rightarrow> string \<Rightarrow> string list" where
  "split_on c [] = [[]]"
| "split_on c (x # xs) =
     (if x = c then [] # split_on c xs
      else case split_on c xs of [] \<Rightarrow> [[x]] | w # ws \<Rightarrow> (x # w) # ws)"

fun res_map :: "('a \<Rightarrow> 'b res) \<Rightarrow> 'a list \<Rightarrow> 'b list res" where
  "res_map f [] = Inr []"
| "res_map f (x # xs) = res_bind (f x) (\<lambda>y. res_bind (res_map f xs) (\<lambda>ys. Inr (y # ys)))"

text \<open>\<open>sorted({int(x) for x in raw.split(",") if x.strip()})\<close>\<close>

definition parse_set :: "string \<Rightarrow> int list res" where
  "parse_set raw =
     res_bind (res_map (\<lambda>x. py_int (PStr x)) (filter (\<lambda>x. py_strip x \<noteq> []) (split_on (CHR '','') raw)))
       (\<lambda>ks. Inr (sorted_list_of_set (set ks)))"

fun j_float :: "(string \<Rightarrow> rat res) \<Rightarrow> (rat \<Rightarrow> rat) \<Rightarrow> jval \<Rightarrow> rat res" where
  "j_float ofs rnd (JBool b) = Inr (if b then 1 else 0)"
| "j_float ofs rnd (JInt i) = Inr (rnd (of_int i))"
| "j_float ofs rnd (JFloat r) = Inr r"
| "j_float ofs rnd (JStr s) = ofs s"
| "j_float ofs rnd v = Inl TypeError"

fun j_int :: "jval \<Rightarrow> int res" where
  "j_int (JBool b) = Inr (if b then 1 else 0)"
| "j_int (JInt i) = Inr i"
| "j_int (JFloat r) = Inr (if 0 \<le> r then \<lfloor>r\<rfloor> else \<lceil>r\<rceil>)"
| "j_int (JStr s) = py_int (PStr s)"
| "j_int v = Inl TypeError"

definition cfg_get :: "(string \<rightharpoonup> jval) \<Rightarrow> string \<Rightarrow> jval \<Rightarrow> jval" where
  "cfg_get cfg key d = (case cfg key of None \<Rightarrow> d | Some v \<Rightarrow> v)"

text \<open>The assignments of \<open>_reload\<close> in source order. A conversion that raises leaves the fields that
  were already assigned as they are: the result carries the object at the point of the exception.
  \<open>str_of\<close> is \<open>str(...)\<close> of a JSON value.\<close>

definition reload_cfg :: "(string \<Rightarrow> rat res) \<Rightarrow> (rat \<Rightarrow> rat) \<Rightarrow> (jval \<Rightarrow> string) \<Rightarrow> (string \<rightharpoonup> jval)
    \<Rightarrow> adaptive_k \<Rightarrow> adaptive_k" where
  "reload_cfg ofs rnd str_of cfg ak0 =
     (let mode = py_lower (py_strip (str_of (cfg_get cfg ''mode'' (JStr ''ema''))));
          ak1 = ak0\<lparr>enabled := mode \<in> set on_values\<rparr>
      in case j_float ofs rnd (cfg_get cfg ''alpha'' (JFloat (alpha ak1))) of Inl e \<Rightarrow> ak1 | Inr a \<Rightarrow>
      let ak2 = ak1\<lparr>alpha := a\<rparr>
      in case j_float ofs rnd (cfg_get cfg ''margin'' (JFloat (margin ak2))) of Inl e \<Rightarrow> ak2 | Inr m \<Rightarrow>
      let ak3 = ak2\<lparr>margin := m\<rparr>
      in case j_int (cfg_get cfg ''min_steps'' (JInt (min_steps ak3))) of Inl e \<Rightarrow> ak3 | Inr ms \<Rightarrow>
      let ak4 = ak3\<lparr>min_steps := ms\<rparr>;
          ak5 = ak4\<lparr>saturate := py_lower (py_strip (str_of (cfg_get cfg ''saturate'' (JStr (saturate ak4)))))\<rparr>
      in case (case cfg ''set'' of
                 None \<Rightarrow> Inr ak5
               | Some v \<Rightarrow>
                   res_bind (case v of
                               JList vs \<Rightarrow> res_map j_int vs
                             | _ \<Rightarrow> res_map (\<lambda>x. py_int (PStr x)) (split_on (CHR '','') (str_of v)))
                     (\<lambda>want. let ks = filter (\<lambda>k. k \<in> set want) (sorted_list_of_set (set (boot_set ak5)))
                             in Inr (ak5\<lparr>k_set := (if ks = [] then boot_set ak5 else ks)\<rparr>))) of
           Inl e \<Rightarrow> ak5
         | Inr ak6 \<Rightarrow> ak6\<lparr>ema_state := Map.empty, hist := Map.empty\<rparr>)"

definition reload :: "(string \<Rightarrow> rat res) \<Rightarrow> (rat \<Rightarrow> rat) \<Rightarrow> (jval \<Rightarrow> string) \<Rightarrow> override \<Rightarrow> adaptive_k \<Rightarrow> adaptive_k" where
  "reload ofs rnd str_of ov ak =
     (if \<not> boot_enabled ak then ak
      else let mtime = map_option fst ov
           in if mtime = file_mtime ak then ak
              else let ak' = ak\<lparr>file_mtime := mtime\<rparr>
                   in case ov of
                        None \<Rightarrow> ak'
                      | Some (_, Inl e) \<Rightarrow> ak'
                      | Some (_, Inr cfg) \<Rightarrow> reload_cfg ofs rnd str_of cfg ak')"

definition ak_init :: "(string \<Rightarrow> rat res) \<Rightarrow> (rat \<Rightarrow> rat) \<Rightarrow> (jval \<Rightarrow> string) \<Rightarrow> override \<Rightarrow> environ \<Rightarrow> adaptive_k res" where
  "ak_init ofs rnd str_of ov env =
     (let norm = (\<lambda>name d. py_lower (py_strip (env_get env name d)));
          en = (norm ''GLM53_ADAPTIVE_K'' ''off'' \<in> set on_values);
          gr = (en \<or> norm ''GLM53_ADAPTIVE_K_CAPTURE'' ''0'' \<in> set yes_values)
      in res_bind (ofs (env_get env ''GLM53_ADAPTIVE_K_ALPHA'' ''0.25'')) (\<lambda>a.
         res_bind (ofs (env_get env ''GLM53_ADAPTIVE_K_MARGIN'' ''1.0'')) (\<lambda>m.
         res_bind (py_int (PStr (env_get env ''GLM53_ADAPTIVE_K_MIN_STEPS'' ''4''))) (\<lambda>ms.
         res_bind (parse_set (env_get env ''GLM53_ADAPTIVE_K_SET'' ''2,4,7'')) (\<lambda>ks.
         res_bind (py_int (PStr (env_get env ''GLM53_ADAPTIVE_K_HIST'' ''200''))) (\<lambda>he.
           Inr (reload ofs rnd str_of ov
             \<lparr>enabled = en, graphs_enabled = gr, alpha = a, margin = m, min_steps = ms, k_set = ks,
              saturate = norm ''GLM53_ADAPTIVE_K_SATURATE'' ''max'', hist_every = he,
              batch_margin = (norm ''GLM53_ADAPTIVE_K_BATCH_MARGIN'' ''0'' \<in> set yes_values),
              pos_trim = (norm ''GLM53_ADAPTIVE_K_POS_TRIM'' ''0'' \<in> set yes_values),
              ema_state = Map.empty, hist = Map.empty, steps = 0,
              k_max = (if ks = [] then 0 else Max (set ks)), boot_set = ks, boot_enabled = en,
              boot_graphs = gr, file_mtime = None\<rparr>)))))))"

definition ema_step :: "(rat \<Rightarrow> rat) \<Rightarrow> rat \<Rightarrow> rat \<Rightarrow> rat \<Rightarrow> rat" where
  "ema_step rnd a obs prev = rnd (rnd (obs * a) + rnd (prev * rnd (1 - a)))"

definition observe :: "(rat \<Rightarrow> rat) \<Rightarrow> string \<Rightarrow> int \<Rightarrow> int \<Rightarrow> adaptive_k \<Rightarrow> adaptive_k" where
  "observe rnd req_id num_draft num_accepted ak =
     (if \<not> enabled ak \<or> num_draft \<le> 0 then ak
      else let obs = (if num_draft \<le> num_accepted \<and> saturate ak \<noteq> ''n''
                      then rnd (of_int (max (k_max ak) num_draft)) else rnd (of_int num_accepted))
           in case ema_state ak req_id of
                None \<Rightarrow> ak\<lparr>ema_state := (ema_state ak)(req_id \<mapsto> (ema_step rnd (alpha ak) obs (rnd (of_int (k_max ak))), 1))\<rparr>
              | Some (e, n) \<Rightarrow> ak\<lparr>ema_state := (ema_state ak)(req_id \<mapsto> (ema_step rnd (alpha ak) obs e, n + 1))\<rparr>)"

text \<open>The hook in \<open>update_from_output\<close>.\<close>

definition observe_output :: "(rat \<Rightarrow> rat) \<Rightarrow> string \<Rightarrow> int list \<Rightarrow> int list \<Rightarrow> int \<Rightarrow> adaptive_k \<Rightarrow> adaptive_k" where
  "observe_output rnd req_id scheduled generated num_sampled ak =
     observe rnd req_id (int (length scheduled)) (max (int (length generated) - num_sampled) 0) ak"

definition choose_k :: "(rat \<Rightarrow> rat) \<Rightarrow> adaptive_k \<Rightarrow> string \<Rightarrow> int \<Rightarrow> bool \<Rightarrow> int option res" where
  "choose_k rnd ak req_id k structured =
     (if \<not> enabled ak \<or> structured \<or> k \<le> 0 then Inr None
      else case ema_state ak req_id of
        None \<Rightarrow> Inr None
      | Some (e, n) \<Rightarrow>
          if n < min_steps ak then Inr None
          else let target = \<lceil>rnd (e + margin ak)\<rceil>;
                   cands = filter (\<lambda>v. v \<le> min target k) (k_set ak)
               in if cands \<noteq> [] then Inr (Some (max 1 (min (Max (set cands)) k)))
                  else if k_set ak = [] then Inl ValueError
                  else Inr (Some (max 1 (min (Min (set (k_set ak))) k))))"

definition margin_width :: "adaptive_k \<Rightarrow> (ak_request \<times> bool) list \<Rightarrow> int option list \<Rightarrow> int option" where
  "margin_width ak reqs picks =
     (if \<not> batch_margin ak \<or> (\<exists>rs \<in> set reqs. snd rs) then None
      else let known = map the (filter (\<lambda>v. v \<noteq> None) picks)
           in if known = [] then None else Some (Min (set known)))"

definition pos_width :: "adaptive_k \<Rightarrow> (ak_request \<times> bool) list \<Rightarrow> int option list \<Rightarrow> int \<Rightarrow> int option" where
  "pos_width ak reqs picks n =
     (if \<not> (pos_trim ak \<and> batch_margin ak) then None
      else if \<exists>rs \<in> set reqs. snd rs then None
      else if length reqs < 2 then None
      else if \<exists>v \<in> set picks. v = None then None
      else let floor = (if k_set ak = [] then n else Min (set (k_set ak)))
           in if floor < n then Some (min n floor) else None)"

definition count_step :: "int \<Rightarrow> string set \<Rightarrow> adaptive_k \<Rightarrow> adaptive_k" where
  "count_step n live ak =
     (let ak1 = ak\<lparr>hist := (hist ak)(n \<mapsto> (case hist ak n of None \<Rightarrow> 0 | Some c \<Rightarrow> c) + 1), steps := steps ak + 1\<rparr>
      in if 0 < hist_every ak1 \<and> steps ak1 mod hist_every ak1 = 0
         then ak1\<lparr>ema_state := ema_state ak1 |` live\<rparr> else ak1)"

text \<open>\<open>xs[:n]\<close>, with Python's meaning of a negative bound.\<close>

definition py_take :: "int \<Rightarrow> 'a list \<Rightarrow> 'a list" where
  "py_take n xs = (if 0 \<le> n then take (nat n) xs else take (length xs - nat (- n)) xs)"

definition trim_req :: "int \<Rightarrow> ak_request \<Rightarrow> ak_request" where
  "trim_req n r = (if n < int (length (spec_token_ids r)) then r\<lparr>spec_token_ids := py_take n (spec_token_ids r)\<rparr> else r)"

text \<open>The uniform width of the batch, from the per-request picks.\<close>

definition batch_width :: "adaptive_k \<Rightarrow> (ak_request \<times> bool) list \<Rightarrow> int option list \<Rightarrow> int" where
  "batch_width ak reqs picks =
     (if \<forall>v \<in> set picks. v \<noteq> None
      then let n = Min (set (map the picks))
           in case pos_width ak reqs picks n of None \<Rightarrow> n | Some g \<Rightarrow> g
      else case margin_width ak reqs picks of
             Some n \<Rightarrow> n
           | None \<Rightarrow> Max (set (map (\<lambda>rs. int (length (spec_token_ids (fst rs)))) reqs)))"

definition ak_apply :: "(string \<Rightarrow> rat res) \<Rightarrow> (rat \<Rightarrow> rat) \<Rightarrow> (jval \<Rightarrow> string) \<Rightarrow> override \<Rightarrow> adaptive_k
    \<Rightarrow> (ak_request \<times> bool) list \<Rightarrow> string set \<Rightarrow> ((ak_request \<times> bool) list \<times> adaptive_k) res" where
  "ak_apply ofs rnd str_of ov ak reqs live =
     (let ak1 = (if steps ak mod 50 = 0 then reload ofs rnd str_of ov ak else ak)
      in if \<not> enabled ak1 \<or> reqs = [] then Inr (reqs, ak1\<lparr>steps := steps ak1 + 1\<rparr>)
         else res_bind (res_map (\<lambda>rs. choose_k rnd ak1 (rq_id (fst rs)) (int (length (spec_token_ids (fst rs)))) (snd rs)) reqs)
                (\<lambda>picks. let n = batch_width ak1 reqs picks
                         in Inr (map (\<lambda>rs. (trim_req n (fst rs), snd rs)) reqs, count_step n live ak1)))"

text \<open>\<open>batch_k\<close>: the loop over the batch, where \<open>None\<close> stands for a missing request.\<close>

fun batch_picks :: "(rat \<Rightarrow> rat) \<Rightarrow> adaptive_k \<Rightarrow> int \<Rightarrow> (string \<times> bool \<times> bool) option list \<Rightarrow> int list \<Rightarrow> int list option res" where
  "batch_picks rnd ak k [] ns = Inr (Some ns)"
| "batch_picks rnd ak k (None # rs) ns = batch_picks rnd ak k rs ns"
| "batch_picks rnd ak k (Some (rid, prefill, structured) # rs) ns =
     (if prefill then batch_picks rnd ak k rs ns
      else res_bind (choose_k rnd ak rid k structured) (\<lambda>p.
        case p of None \<Rightarrow> Inr None | Some n \<Rightarrow> batch_picks rnd ak k rs (ns @ [n])))"

definition batch_k :: "(string \<Rightarrow> rat res) \<Rightarrow> (rat \<Rightarrow> rat) \<Rightarrow> (jval \<Rightarrow> string) \<Rightarrow> override \<Rightarrow> adaptive_k \<Rightarrow> int
    \<Rightarrow> (string \<times> bool \<times> bool) option list \<Rightarrow> string set \<Rightarrow> (int \<times> adaptive_k) res" where
  "batch_k ofs rnd str_of ov ak k reqs live =
     (let ak1 = (if steps ak mod 50 = 0 then reload ofs rnd str_of ov ak else ak)
      in if \<not> enabled ak1 \<or> k \<le> 0 then Inr (k, ak1\<lparr>steps := steps ak1 + 1\<rparr>)
         else res_bind (batch_picks rnd ak1 k reqs []) (\<lambda>ns.
                let n = (case ns of None \<Rightarrow> k | Some [] \<Rightarrow> k | Some xs \<Rightarrow> Min (set xs))
                in Inr (n, count_step n live ak1)))"

text \<open>The extra target graphs of \<open>cudagraph_utils.py\<close>.\<close>

definition query_lens :: "environ \<Rightarrow> int list \<Rightarrow> int \<Rightarrow> int list res" where
  "query_lens env lens decode_query_len =
     (let norm = (\<lambda>name d. py_lower (py_strip (env_get env name d)));
          graphs = (norm ''GLM53_ADAPTIVE_K'' ''off'' \<in> set on_values
                    \<or> norm ''GLM53_ADAPTIVE_K_CAPTURE'' ''0'' \<in> set yes_values)
      in if \<not> graphs then Inr lens
         else res_bind (parse_set (env_get env ''GLM53_ADAPTIVE_K_SET'' ''2,4,7'')) (\<lambda>ks.
           let extra = map (\<lambda>k. k + 1) (filter (\<lambda>k. 0 < k + 1 \<and> k + 1 \<le> decode_query_len) ks)
           in Inr (sorted_list_of_set (set lens \<union> set extra \<union> {decode_query_len}))))"

text \<open>The patched \<open>update_draft_token_ids\<close>. \<open>advance\<close> and \<open>validate\<close> are the structured-output
  manager and the grammar of vLLM. The requests are objects, so the list handed to \<open>apply\<close> is read
  back from the request table and written to it.\<close>

record sched_request =
  sr_finished :: bool
  sr_prefill_chunk :: bool
  sr_spec :: "int list"

fun draft_loop :: "(string \<Rightarrow> bool) \<Rightarrow> (string \<Rightarrow> int list \<Rightarrow> int list) \<Rightarrow> bool \<Rightarrow> (string \<times> int list) list
    \<Rightarrow> (string \<rightharpoonup> sched_request) \<Rightarrow> (string \<times> bool) list \<Rightarrow> (string \<rightharpoonup> sched_request) \<times> (string \<times> bool) list" where
  "draft_loop advance validate en [] rs acc = (rs, acc)"
| "draft_loop advance validate en ((rid, toks) # ds) rs acc =
     (case rs rid of
        None \<Rightarrow> draft_loop advance validate en ds rs acc
      | Some r \<Rightarrow>
          if sr_finished r then draft_loop advance validate en ds rs acc
          else if sr_prefill_chunk r
          then draft_loop advance validate en ds (rs(rid \<mapsto> r\<lparr>sr_spec := []\<rparr>)) acc
          else let structured = advance rid;
                   toks' = (if structured then validate rid toks else toks)
               in draft_loop advance validate en ds (rs(rid \<mapsto> r\<lparr>sr_spec := toks'\<rparr>))
                    (if en \<and> toks' \<noteq> [] then acc @ [(rid, structured)] else acc))"

definition read_req :: "(string \<rightharpoonup> sched_request) \<Rightarrow> string \<times> bool \<Rightarrow> ak_request \<times> bool" where
  "read_req rs p = (\<lparr>rq_id = fst p,
     spec_token_ids = (case rs (fst p) of None \<Rightarrow> [] | Some r \<Rightarrow> sr_spec r)\<rparr>, snd p)"

definition write_req :: "(string \<rightharpoonup> sched_request) \<Rightarrow> ak_request \<times> bool \<Rightarrow> (string \<rightharpoonup> sched_request)" where
  "write_req rs p = (case rs (rq_id (fst p)) of
     None \<Rightarrow> rs | Some r \<Rightarrow> rs(rq_id (fst p) \<mapsto> r\<lparr>sr_spec := spec_token_ids (fst p)\<rparr>))"

definition update_draft_token_ids :: "(string \<Rightarrow> rat res) \<Rightarrow> (rat \<Rightarrow> rat) \<Rightarrow> (jval \<Rightarrow> string) \<Rightarrow> override
    \<Rightarrow> (string \<Rightarrow> bool) \<Rightarrow> (string \<Rightarrow> int list \<Rightarrow> int list) \<Rightarrow> (string \<times> int list) list
    \<Rightarrow> (string \<rightharpoonup> sched_request) \<Rightarrow> adaptive_k \<Rightarrow> ((string \<rightharpoonup> sched_request) \<times> adaptive_k) res" where
  "update_draft_token_ids ofs rnd str_of ov advance validate drafts rs ak =
     (case draft_loop advance validate (enabled ak) drafts rs [] of
        (rs', acc) \<Rightarrow>
          if acc = [] then Inr (rs', ak)
          else res_bind (ak_apply ofs rnd str_of ov ak (map (read_req rs') acc) (dom rs'))
                 (\<lambda>(reqs, ak'). Inr (foldl write_req rs' reqs, ak')))"

text \<open>The handler as vLLM ships it (\<open>UPD_OLD\<close>): a loop that sets the drafts and knows no policy.\<close>

fun stock_loop :: "(string \<Rightarrow> bool) \<Rightarrow> (string \<Rightarrow> int list \<Rightarrow> int list) \<Rightarrow> (string \<times> int list) list
    \<Rightarrow> (string \<rightharpoonup> sched_request) \<Rightarrow> (string \<rightharpoonup> sched_request)" where
  "stock_loop advance validate [] rs = rs"
| "stock_loop advance validate ((rid, toks) # ds) rs =
     stock_loop advance validate ds
       (case rs rid of
          None \<Rightarrow> rs
        | Some r \<Rightarrow>
            if sr_finished r then rs
            else if sr_prefill_chunk r then (if sr_spec r \<noteq> [] then rs(rid \<mapsto> r\<lparr>sr_spec := []\<rparr>) else rs)
            else rs(rid \<mapsto> r\<lparr>sr_spec := (if advance rid then validate rid toks else toks)\<rparr>))"

definition stock_update_draft_token_ids :: "(string \<Rightarrow> bool) \<Rightarrow> (string \<Rightarrow> int list \<Rightarrow> int list)
    \<Rightarrow> (string \<times> int list) list \<Rightarrow> (string \<rightharpoonup> sched_request) \<Rightarrow> (string \<rightharpoonup> sched_request)" where
  "stock_update_draft_token_ids advance validate drafts rs = stock_loop advance validate drafts rs"

subsection \<open>Picks and widths\<close>

lemma res_map_Inr: "res_map f xs = Inr ys \<longleftrightarrow> list_all2 (\<lambda>x y. f x = Inr y) xs ys"
  by (induction xs arbitrary: ys) (auto simp: res_bind_Inr list_all2_Cons1)

lemma choose_k_bounds:
  assumes "choose_k rnd ak rid k st = Inr (Some n)"
  shows "1 \<le> n" and "n \<le> k" and "\<not> st"
  using assms by (auto simp: choose_k_def Let_def split: if_splits option.splits)

lemma choose_k_in_set:
  assumes c: "choose_k rnd ak rid k st = Inr (Some n)" and pos: "\<forall>v \<in> set (k_set ak). 1 \<le> v"
  shows "n \<in> set (k_set ak) \<union> {k}"
proof -
  from c obtain e m where k: "0 < k" and st: "ema_state ak rid = Some (e, m)"
    and n: "choose_k rnd ak rid k st = Inr (Some n)"
    by (auto simp: choose_k_def split: if_splits option.splits)
  let ?c = "filter (\<lambda>v. v \<le> min \<lceil>rnd (e + margin ak)\<rceil> k) (k_set ak)"
  show ?thesis
  proof (cases "?c = []")
    case True
    with n st have "k_set ak \<noteq> []" and "n = max 1 (min (Min (set (k_set ak))) k)"
      by (auto simp: choose_k_def Let_def split: if_splits)
    moreover from this(1) have "Min (set (k_set ak)) \<in> set (k_set ak)" by simp
    ultimately show ?thesis using pos k by (auto simp: min_def max_def)
  next
    case False
    with n st have "n = max 1 (min (Max (set ?c)) k)"
      by (auto simp: choose_k_def Let_def split: if_splits)
    moreover from False have "Max (set ?c) \<in> set ?c" by (metis List.finite_set Max_in set_empty)
    ultimately show ?thesis using pos by (auto simp: min_def max_def)
  qed
qed

lemma choose_k_structured: "choose_k rnd ak rid k True = Inr None"
  by (simp add: choose_k_def)

lemma prefix_py_take [simp]: "prefix (py_take n xs) xs"
  by (simp add: py_take_def take_is_prefix)

lemma trim_req_prefix: "prefix (spec_token_ids (trim_req n r)) (spec_token_ids r)"
  by (simp add: trim_req_def)

lemma trim_req_id [simp]: "rq_id (trim_req n r) = rq_id r"
  by (simp add: trim_req_def)

lemma trim_req_length: "0 \<le> n \<Longrightarrow> length (spec_token_ids (trim_req n r)) = min (length (spec_token_ids r)) (nat n)"
  by (auto simp: trim_req_def py_take_def)

lemma trim_req_int_length:
  "0 \<le> n \<Longrightarrow> int (length (spec_token_ids (trim_req n r))) = min (int (length (spec_token_ids r))) n"
  by (auto simp: trim_req_length min_def)

lemma trim_req_noop: "int (length (spec_token_ids r)) \<le> n \<Longrightarrow> trim_req n r = r"
  by (simp add: trim_req_def)

text \<open>What \<open>apply\<close> does when it does not return early: one width for the whole batch.\<close>

lemma ak_apply_cases:
  assumes "ak_apply ofs rnd str_of ov ak reqs live = Inr (reqs', ak')"
  defines "ak1 \<equiv> (if steps ak mod 50 = 0 then reload ofs rnd str_of ov ak else ak)"
  obtains (off) "reqs' = reqs" "ak' = ak1\<lparr>steps := steps ak1 + 1\<rparr>"
  | (on) picks where "enabled ak1" "reqs \<noteq> []"
      "list_all2 (\<lambda>rs p. choose_k rnd ak1 (rq_id (fst rs)) (int (length (spec_token_ids (fst rs)))) (snd rs) = Inr p) reqs picks"
      "reqs' = map (\<lambda>rs. (trim_req (batch_width ak1 reqs picks) (fst rs), snd rs)) reqs"
      "ak' = count_step (batch_width ak1 reqs picks) live ak1"
proof (cases "\<not> enabled ak1 \<or> reqs = []")
  case True
  with assms(1) have "Inr (reqs, ak1\<lparr>steps := steps ak1 + 1\<rparr>) = (Inr (reqs', ak') :: _ res)"
    unfolding ak_apply_def ak1_def [symmetric] Let_def by simp
  then show ?thesis by (intro off) simp_all
next
  case False
  with assms(1) obtain picks where
    p: "res_map (\<lambda>rs. choose_k rnd ak1 (rq_id (fst rs)) (int (length (spec_token_ids (fst rs)))) (snd rs)) reqs = Inr picks"
    and r: "reqs' = map (\<lambda>rs. (trim_req (batch_width ak1 reqs picks) (fst rs), snd rs)) reqs"
    and a: "ak' = count_step (batch_width ak1 reqs picks) live ak1"
    unfolding ak_apply_def ak1_def [symmetric] Let_def res_bind_Inr if_not_P [OF False] by blast
  from False p r a show ?thesis by (intro on [of picks]) (simp_all only: res_map_Inr de_Morgan_disj not_not simp_thms)
qed

lemma picks_Some:
  assumes "list_all2 (\<lambda>rs p. choose_k rnd ak (rq_id (fst rs)) (int (length (spec_token_ids (fst rs)))) (snd rs) = Inr p) reqs picks"
    and "Some n \<in> set picks"
  obtains rs where "rs \<in> set reqs"
    "choose_k rnd ak (rq_id (fst rs)) (int (length (spec_token_ids (fst rs)))) (snd rs) = Inr (Some n)"
  using assms by (induction rule: list_all2_induct) auto

lemma margin_width_in: "margin_width ak reqs picks = Some n \<Longrightarrow> Some n \<in> set picks"
proof -
  assume m: "margin_width ak reqs picks = Some n"
  let ?known = "map the (filter (\<lambda>v. v \<noteq> None) picks)"
  from m have "?known \<noteq> []" and "n = Min (set ?known)"
    by (auto simp: margin_width_def Let_def split: if_splits)
  then have "n \<in> set ?known" by (metis List.finite_set Min_in set_empty)
  then show ?thesis by auto
qed

lemma Min_picks_in: "picks \<noteq> [] \<Longrightarrow> \<forall>v \<in> set picks. v \<noteq> None \<Longrightarrow> Some (Min (set (map the picks))) \<in> set picks"
proof -
  assume ne: "picks \<noteq> []" and all: "\<forall>v \<in> set picks. v \<noteq> None"
  then have "Min (set (map the picks)) \<in> set (map the picks)" by (intro Min_in) auto
  with all show ?thesis by auto
qed

lemma pos_width_floor: "pos_width ak reqs picks n = Some m \<Longrightarrow> k_set ak \<noteq> [] \<and> m = Min (set (k_set ak)) \<and> m < n"
  by (auto simp: pos_width_def Let_def split: if_splits)

text \<open>The width comes from one of three places.\<close>

lemma batch_width_cases:
  assumes ch: "list_all2 (\<lambda>rs p. choose_k rnd ak (rq_id (fst rs)) (int (length (spec_token_ids (fst rs)))) (snd rs) = Inr p) reqs picks"
    and ne: "reqs \<noteq> []"
  obtains (pick) rs where "rs \<in> set reqs"
      "choose_k rnd ak (rq_id (fst rs)) (int (length (spec_token_ids (fst rs)))) (snd rs) = Inr (Some (batch_width ak reqs picks))"
  | (ladder) "k_set ak \<noteq> []" "batch_width ak reqs picks = Min (set (k_set ak))"
  | (full) "batch_width ak reqs picks = Max (set (map (\<lambda>rs. int (length (spec_token_ids (fst rs)))) reqs))"
proof (cases "\<forall>v \<in> set picks. v \<noteq> None")
  case True
  have pne: "picks \<noteq> []" using ch ne by auto
  let ?m = "Min (set (map the picks))"
  show ?thesis
  proof (cases "pos_width ak reqs picks ?m")
    case None
    with True have "batch_width ak reqs picks = ?m" by (simp add: batch_width_def)
    with picks_Some [OF ch Min_picks_in [OF pne True]] pick show ?thesis by metis
  next
    case (Some f)
    with True have "batch_width ak reqs picks = f" by (simp add: batch_width_def)
    with pos_width_floor [OF Some] ladder show ?thesis by simp
  qed
next
  case False
  show ?thesis
  proof (cases "margin_width ak reqs picks")
    case None
    have "batch_width ak reqs picks = Max (set (map (\<lambda>rs. int (length (spec_token_ids (fst rs)))) reqs))"
      unfolding batch_width_def by (simp only: False None if_False option.case(1))
    then show ?thesis by (rule full)
  next
    case (Some f)
    with False have "batch_width ak reqs picks = f" by (auto simp: batch_width_def)
    with picks_Some [OF ch margin_width_in [OF Some]] pick show ?thesis by metis
  qed
qed

subsection \<open>The boot contract\<close>

text \<open>What the override file must never change: the policy works inside the set of lengths whose
  graphs were captured at boot, and it cannot be switched on if it was off at boot.\<close>

definition ak_inv :: "environ \<Rightarrow> adaptive_k \<Rightarrow> bool" where
  "ak_inv env ak \<longleftrightarrow>
     parse_set (env_get env ''GLM53_ADAPTIVE_K_SET'' ''2,4,7'') = Inr (boot_set ak)
     \<and> set (k_set ak) \<subseteq> set (boot_set ak)
     \<and> (boot_set ak \<noteq> [] \<longrightarrow> k_set ak \<noteq> [])
     \<and> k_max ak = (if boot_set ak = [] then 0 else Max (set (boot_set ak)))
     \<and> boot_enabled ak = (py_lower (py_strip (env_get env ''GLM53_ADAPTIVE_K'' ''off'')) \<in> set on_values)
     \<and> (enabled ak \<longrightarrow> boot_enabled ak)"

lemma reload_cfg_frame:
  "boot_set (reload_cfg ofs rnd str_of cfg ak) = boot_set ak"
  "k_max (reload_cfg ofs rnd str_of cfg ak) = k_max ak"
  "boot_enabled (reload_cfg ofs rnd str_of cfg ak) = boot_enabled ak"
  "steps (reload_cfg ofs rnd str_of cfg ak) = steps ak"
  by (auto simp: reload_cfg_def Let_def res_bind_Inr split: sum.splits option.splits)

lemma reload_cfg_k_set:
  "k_set (reload_cfg ofs rnd str_of cfg ak) = k_set ak
   \<or> (set (k_set (reload_cfg ofs rnd str_of cfg ak)) \<subseteq> set (boot_set ak)
      \<and> (boot_set ak \<noteq> [] \<longrightarrow> k_set (reload_cfg ofs rnd str_of cfg ak) \<noteq> []))"
  by (auto simp: reload_cfg_def Let_def res_bind_Inr split: sum.splits option.splits)

lemma ak_inv_cong:
  "ak_inv env ak \<Longrightarrow> boot_set ak' = boot_set ak \<Longrightarrow> k_set ak' = k_set ak \<Longrightarrow> k_max ak' = k_max ak \<Longrightarrow>
   boot_enabled ak' = boot_enabled ak \<Longrightarrow> enabled ak' = enabled ak \<Longrightarrow> ak_inv env ak'"
  unfolding ak_inv_def by metis

lemma reload_cfg_inv:
  assumes "ak_inv env ak" and "boot_enabled ak"
  shows "ak_inv env (reload_cfg ofs rnd str_of cfg ak)"
  using assms reload_cfg_k_set [of ofs rnd str_of cfg ak]
  unfolding ak_inv_def reload_cfg_frame by metis

lemma reload_cases:
  "reload ofs rnd str_of ov ak = ak
   \<or> (\<exists>m. reload ofs rnd str_of ov ak = ak\<lparr>file_mtime := m\<rparr>)
   \<or> (\<exists>m cfg. boot_enabled ak \<and> reload ofs rnd str_of ov ak = reload_cfg ofs rnd str_of cfg (ak\<lparr>file_mtime := m\<rparr>))"
  unfolding reload_def Let_def by (auto split: option.splits sum.splits)

lemma reload_boot_set [simp]: "boot_set (reload ofs rnd str_of ov ak) = boot_set ak"
  using reload_cases [of ofs rnd str_of ov ak] by (auto simp: reload_cfg_frame)

lemma ak_inv_stamp [simp]: "ak_inv env (ak\<lparr>file_mtime := m\<rparr>) = ak_inv env ak"
  by (simp add: ak_inv_def)

lemma reload_inv: "ak_inv env ak \<Longrightarrow> ak_inv env (reload ofs rnd str_of ov ak)"
  using reload_cases [of ofs rnd str_of ov ak]
  by (auto intro!: reload_cfg_inv elim: ak_inv_cong)

lemma count_step_frame [simp]:
  "boot_set (count_step n live ak) = boot_set ak" "k_set (count_step n live ak) = k_set ak"
  "k_max (count_step n live ak) = k_max ak" "boot_enabled (count_step n live ak) = boot_enabled ak"
  "enabled (count_step n live ak) = enabled ak"
  by (simp_all add: count_step_def Let_def)

lemma observe_frame [simp]:
  "boot_set (observe rnd r d a ak) = boot_set ak" "k_set (observe rnd r d a ak) = k_set ak"
  "k_max (observe rnd r d a ak) = k_max ak" "boot_enabled (observe rnd r d a ak) = boot_enabled ak"
  "enabled (observe rnd r d a ak) = enabled ak" "alpha (observe rnd r d a ak) = alpha ak"
  by (auto simp: observe_def Let_def split: option.splits prod.splits)

lemma ak_init_inv: "ak_init ofs rnd str_of ov env = Inr ak \<Longrightarrow> ak_inv env ak"
  unfolding ak_init_def Let_def res_bind_Inr
  by (elim exE conjE, simp only: sum.inject, hypsubst) (intro reload_inv, simp add: ak_inv_def)

lemma ak_apply_inv:
  assumes "ak_apply ofs rnd str_of ov ak reqs live = Inr (reqs', ak')" and "ak_inv env ak"
  shows "ak_inv env ak'"
proof -
  let ?ak1 = "if steps ak mod 50 = 0 then reload ofs rnd str_of ov ak else ak"
  have "ak_inv env ?ak1" using assms(2) reload_inv by simp
  with assms(1) show ?thesis
    by (cases rule: ak_apply_cases) (auto elim!: ak_inv_cong)
qed

text \<open>The life of the policy object: built once from the environment, then observed and applied in any
  order, with whatever the override file holds at that moment.\<close>

inductive ak_reach :: "(string \<Rightarrow> rat res) \<Rightarrow> (rat \<Rightarrow> rat) \<Rightarrow> (jval \<Rightarrow> string) \<Rightarrow> environ \<Rightarrow> adaptive_k \<Rightarrow> bool"
  for ofs rnd str_of env where
  boot: "ak_init ofs rnd str_of ov env = Inr ak \<Longrightarrow> ak_reach ofs rnd str_of env ak"
| observed: "ak_reach ofs rnd str_of env ak \<Longrightarrow> ak_reach ofs rnd str_of env (observe rnd r d a ak)"
| applied: "ak_reach ofs rnd str_of env ak \<Longrightarrow> ak_apply ofs rnd str_of ov ak reqs live = Inr (reqs', ak')
    \<Longrightarrow> ak_reach ofs rnd str_of env ak'"

lemma ak_reach_inv: "ak_reach ofs rnd str_of env ak \<Longrightarrow> ak_inv env ak"
proof (induction rule: ak_reach.induct)
  case (boot ov ak)
  then show ?case by (rule ak_init_inv)
next
  case (observed ak r d a)
  then show ?case by (auto elim: ak_inv_cong)
next
  case (applied ak ov reqs live reqs' ak')
  then show ?case by (blast intro: ak_apply_inv)
qed

subsection \<open>Properties\<close>

lemma apply_shape:
  assumes "ak_apply ofs rnd str_of ov ak reqs live = Inr (reqs', ak')"
  shows "list_all2 (\<lambda>old new. rq_id (fst new) = rq_id (fst old) \<and> snd new = snd old
     \<and> prefix (spec_token_ids (fst new)) (spec_token_ids (fst old))) reqs reqs'"
  using assms
proof (cases rule: ak_apply_cases)
  case off
  then show ?thesis by (simp add: list.rel_refl)
next
  case (on picks)
  then show ?thesis
    by (simp add: list_all2_map2 list.rel_refl trim_req_prefix)
qed

definition demo_ofs :: "string \<Rightarrow> rat res" where
  "demo_ofs s = (if s = ''0.25'' then Inr (1 / 4) else if s = ''1.0'' then Inr 1 else Inl ValueError)"

definition demo_str :: "jval \<Rightarrow> string" where
  "demo_str v = (case v of JStr s \<Rightarrow> s | _ \<Rightarrow> ''None'')"

definition demo_ak :: adaptive_k where
  "demo_ak = \<lparr>enabled = True, graphs_enabled = True, alpha = 1 / 4, margin = 1, min_steps = 4, k_set = [2, 4, 7],
     saturate = ''max'', hist_every = 200, batch_margin = True, pos_trim = True,
     ema_state = [''a'' \<mapsto> (2, 5), ''b'' \<mapsto> (5, 9)], hist = Map.empty, steps = 1, k_max = 7, boot_set = [2, 4, 7],
     boot_enabled = True, boot_graphs = True, file_mtime = None\<rparr>"

definition demo_reqs :: "bool \<Rightarrow> (ak_request \<times> bool) list" where
  "demo_reqs st = [(\<lparr>rq_id = ''a'', spec_token_ids = [1, 2, 3, 4, 5, 6, 7]\<rparr>, False),
                   (\<lparr>rq_id = ''b'', spec_token_ids = [11, 12, 13, 14, 15, 16, 17]\<rparr>, st)]"

lemma demo_apply: "\<exists>ak'. ak_apply demo_ofs id demo_str None demo_ak (demo_reqs False) {} =
    Inr ([(\<lparr>rq_id = ''a'', spec_token_ids = [1, 2]\<rparr>, False), (\<lparr>rq_id = ''b'', spec_token_ids = [11, 12]\<rparr>, False)], ak')"
  by (simp add: ak_apply_def demo_ak_def demo_reqs_def choose_k_def batch_width_def pos_width_def Let_def
      trim_req_def py_take_def)

lemma demo_apply_pinned: "\<exists>ak'. ak_apply demo_ofs id demo_str None demo_ak (demo_reqs True) {} = Inr (demo_reqs True, ak')"
  by (simp add: ak_apply_def demo_ak_def demo_reqs_def choose_k_def batch_width_def margin_width_def Let_def
      trim_req_def py_take_def)

text \<open>A structured request pins the batch. If any request of the batch is under grammar control,
  \<open>apply\<close> trims nothing at all, with the batch margin and the position trim switched on or off.\<close>

theorem structured_pins_batch:
  assumes "ak_apply ofs rnd str_of ov ak reqs live = Inr (reqs', ak')"
    and "rs \<in> set reqs" and "snd rs"
  shows "reqs' = reqs"
  using assms(1)
proof (cases rule: ak_apply_cases)
  case off
  then show ?thesis by simp
next
  case (on picks)
  let ?ak1 = "if steps ak mod 50 = 0 then reload ofs rnd str_of ov ak else ak"
  let ?n = "batch_width ?ak1 reqs picks"
  obtain i where i: "i < length reqs" "reqs ! i = rs" using assms(2) by (auto simp: in_set_conv_nth)
  with on(3) assms(3) have "picks ! i = None" "i < length picks"
    by (auto simp: list_all2_conv_all_nth choose_k_structured)
  then have some_None: "\<not> (\<forall>v \<in> set picks. v \<noteq> None)" by (metis nth_mem)
  moreover have marg: "margin_width ?ak1 reqs picks = None"
    using assms(2,3) by (auto simp: margin_width_def)
  ultimately have w: "?n = Max (set (map (\<lambda>rs. int (length (spec_token_ids (fst rs)))) reqs))"
    unfolding batch_width_def by (simp only: if_False option.case(1))
  have "trim_req ?n (fst x) = fst x" if "x \<in> set reqs" for x
    unfolding w by (intro trim_req_noop Max_ge) (use that in auto)
  with on(4) show ?thesis by (simp add: map_idI)
qed

theorem structured_pins_batch_witness:
  "\<exists>reqs' ak'. ak_apply demo_ofs id demo_str None demo_ak (demo_reqs True) {} = Inr (reqs', ak') \<and> reqs' = demo_reqs True"
proof -
  obtain ak' where a: "ak_apply demo_ofs id demo_str None demo_ak (demo_reqs True) {} = Inr (demo_reqs True, ak')"
    using demo_apply_pinned by blast
  have "demo_reqs True ! 1 \<in> set (demo_reqs True)" and "snd (demo_reqs True ! 1)"
    by (simp_all add: demo_reqs_def)
  from structured_pins_batch [OF a this] a show ?thesis by blast
qed

lemma query_lens_set:
  assumes "query_lens env lens dql = Inr qs"
    and "parse_set (env_get env ''GLM53_ADAPTIVE_K_SET'' ''2,4,7'') = Inr ks"
    and "py_lower (py_strip (env_get env ''GLM53_ADAPTIVE_K'' ''off'')) \<in> set on_values"
  shows "set qs = set lens \<union> (\<lambda>k. k + 1) ` {k \<in> set ks. 0 < k + 1 \<and> k + 1 \<le> dql} \<union> {dql}"
proof -
  let ?x = "map (\<lambda>k. k + 1) (filter (\<lambda>k. 0 < k + 1 \<and> k + 1 \<le> dql) ks)"
  have "qs = sorted_list_of_set (set lens \<union> set ?x \<union> {dql})"
    using assms unfolding query_lens_def Let_def by (simp only: simp_thms if_False res_bind.simps sum.inject)
  moreover have "set (sorted_list_of_set (set lens \<union> set ?x \<union> {dql})) = set lens \<union> set ?x \<union> {dql}"
    by (rule set_sorted_list_of_set) simp
  ultimately show ?thesis by simp
qed

text \<open>(C27) Captured widths only. Take a policy object in any state it can reach from boot (observations,
  applications and override files in any order), a configured set of positive lengths, and a batch
  whose rows all carry the full draft. Then every row that \<open>apply\<close> leaves has a verify query length
  (row plus one) among the lengths that \<open>cudagraph_utils\<close> captured FULL graphs for.\<close>

theorem widths_have_graphs:
  assumes reach: "ak_reach ofs rnd str_of env ak"
    and lens: "query_lens env lens dql = Inr qs"
    and pos: "\<forall>v \<in> set (boot_set ak). 1 \<le> v"
    and full: "\<forall>rs \<in> set reqs. int (length (spec_token_ids (fst rs))) = dql - 1" and k: "2 \<le> dql"
    and app: "ak_apply ofs rnd str_of ov ak reqs live = Inr (reqs', ak')"
    and on: "enabled ak'"
    and r: "rs' \<in> set reqs'"
  shows "int (length (spec_token_ids (fst rs'))) + 1 \<in> set qs"
proof -
  let ?ak1 = "if steps ak mod 50 = 0 then reload ofs rnd str_of ov ak else ak"
  have inv: "ak_inv env ?ak1" using ak_reach_inv [OF reach] reload_inv by simp
  have "set (k_set ?ak1) \<subseteq> set (boot_set ?ak1)" using inv unfolding ak_inv_def by blast
  then have sub: "set (k_set ?ak1) \<subseteq> set (boot_set ak)" by (simp split: if_splits)
  have ks: "parse_set (env_get env ''GLM53_ADAPTIVE_K_SET'' ''2,4,7'') = Inr (boot_set ak)"
    using ak_reach_inv [OF reach] unfolding ak_inv_def by blast
  have "py_lower (py_strip (env_get env ''GLM53_ADAPTIVE_K'' ''off'')) \<in> set on_values"
    using on ak_apply_inv [OF app ak_reach_inv [OF reach]] unfolding ak_inv_def by blast
  note qs = query_lens_set [OF lens ks this]
  from app show ?thesis
  proof (cases rule: ak_apply_cases)
    case off
    with r full have "int (length (spec_token_ids (fst rs'))) = dql - 1" by blast
    then show ?thesis by (simp add: qs)
  next
    case (on picks)
    let ?n = "batch_width ?ak1 reqs picks"
    have posk: "\<forall>v \<in> set (k_set ?ak1). 1 \<le> v" using pos sub by blast
    have n: "1 \<le> ?n \<and> (?n \<in> set (boot_set ak) \<or> ?n = dql - 1)"
    proof (rule batch_width_cases [OF on(3,2)])
      fix x assume x: "x \<in> set reqs"
        and c: "choose_k rnd ?ak1 (rq_id (fst x)) (int (length (spec_token_ids (fst x)))) (snd x) = Inr (Some ?n)"
      from choose_k_in_set [OF c posk] choose_k_bounds(1) [OF c] x full sub show ?thesis by auto
    next
      assume "k_set ?ak1 \<noteq> []" and w: "?n = Min (set (k_set ?ak1))"
      then have "?n \<in> set (k_set ?ak1)" by (metis List.finite_set Min_in set_empty)
      with posk sub show ?thesis by auto
    next
      assume "?n = Max (set (map (\<lambda>rs. int (length (spec_token_ids (fst rs)))) reqs))"
      moreover have "set (map (\<lambda>rs. int (length (spec_token_ids (fst rs)))) reqs) = {dql - 1}"
        using full on(2) by (cases reqs) auto
      ultimately have "?n = dql - 1" by simp
      with k show ?thesis by simp
    qed
    from r on(4) obtain x where x: "x \<in> set reqs" and rx: "rs' = (trim_req ?n (fst x), snd x)" by auto
    obtain w where w: "w = ?n" by blast
    have "int (length (spec_token_ids (fst rs'))) = min (dql - 1) w"
      using trim_req_int_length [of w "fst x"] n bspec [OF full x] unfolding rx w [symmetric] by simp
    then show ?thesis using n k unfolding w [symmetric] by (auto simp: qs min_def image_iff)
  qed
qed

definition demo_ak_env :: environ where
  "demo_ak_env = Map.empty(''GLM53_ADAPTIVE_K'' \<mapsto> ''ema'')"

definition demo_ak0 :: adaptive_k where
  "demo_ak0 = \<lparr>enabled = True, graphs_enabled = True, alpha = 1 / 4, margin = 1, min_steps = 4, k_set = [2, 4, 7],
     saturate = ''max'', hist_every = 200, batch_margin = False, pos_trim = False, ema_state = Map.empty,
     hist = Map.empty, steps = 0, k_max = 7, boot_set = [2, 4, 7], boot_enabled = True, boot_graphs = True,
     file_mtime = None\<rparr>"

lemma demo_parse_set: "parse_set ''2,4,7'' = Inr [2, 4, 7]"
  by code_simp

lemma demo_ints: "py_int (PStr ''4'') = Inr 4" "py_int (PStr ''200'') = Inr 200"
  by code_simp+

lemma demo_ak_norms:
  "py_lower (py_strip ''ema'') = ''ema''" "py_lower (py_strip ''0'') = ''0''" "py_lower (py_strip ''max'') = ''max''"
  by code_simp+

lemma demo_ak_init: "ak_init demo_ofs id demo_str None demo_ak_env = Inr demo_ak0"
  by (simp add: ak_init_def demo_ak_env_def env_get_def demo_ofs_def demo_parse_set demo_ints demo_ak_norms
      reload_def demo_ak0_def on_values_def yes_values_def Let_def del: py_int.simps)

theorem widths_have_graphs_witness:
  "\<exists>reqs' ak'. ak_apply demo_ofs id demo_str None demo_ak0 (demo_reqs False) {} = Inr (reqs', ak')
     \<and> int (length (spec_token_ids (fst (hd reqs')))) + 1 \<in> {3, 5, 8}"
proof -
  have q: "query_lens demo_ak_env [8] 8 = Inr [3, 5, 8]"
    unfolding demo_ak_env_def by code_simp
  have a: "ak_apply demo_ofs id demo_str None demo_ak0 (demo_reqs False) {} = Inr (demo_reqs False, count_step 7 {} demo_ak0)"
    by (simp add: ak_apply_def demo_ak0_def demo_reqs_def choose_k_def batch_width_def margin_width_def Let_def
        trim_req_def reload_def)
  have "int (length (spec_token_ids (fst (hd (demo_reqs False))))) + 1 \<in> set [3, 5, 8]"
  proof (rule widths_have_graphs [OF ak_reach.boot [OF demo_ak_init] q _ _ _ a])
    show "\<forall>v \<in> set (boot_set demo_ak0). 1 \<le> v" by (simp add: demo_ak0_def)
    show "\<forall>rs \<in> set (demo_reqs False). int (length (spec_token_ids (fst rs))) = 8 - 1" by (simp add: demo_reqs_def)
    show "enabled (count_step 7 {} demo_ak0)" by (simp add: demo_ak0_def)
  qed (simp_all add: demo_reqs_def)
  with a show ?thesis by simp
qed

text \<open>One uniform, non-empty row. With positive configured lengths and a batch of non-empty drafts,
  \<open>apply\<close> gives every request the same width limit \<open>n \<ge> 1\<close>: a row longer than \<open>n\<close> becomes exactly \<open>n\<close>
  tokens, a shorter row is left alone, and no request loses its whole draft.\<close>

theorem apply_uniform_width:
  assumes app: "ak_apply ofs rnd str_of ov ak reqs live = Inr (reqs', ak')"
    and inv: "ak_inv env ak" and pos: "\<forall>v \<in> set (boot_set ak). 1 \<le> v"
    and ne: "\<forall>rs \<in> set reqs. spec_token_ids (fst rs) \<noteq> []"
  shows "\<exists>n \<ge> 1. list_all2 (\<lambda>old new. length (spec_token_ids (fst new)) = min (length (spec_token_ids (fst old))) n) reqs reqs'"
  using app
proof (cases rule: ak_apply_cases)
  case off
  define m where "m = Suc (sum_list (map (\<lambda>rs. length (spec_token_ids (fst rs))) reqs))"
  have "length (spec_token_ids (fst x)) \<le> m" if "x \<in> set reqs" for x
    using member_le_sum_list [of "length (spec_token_ids (fst x))" "map (\<lambda>rs. length (spec_token_ids (fst rs))) reqs"] that
    by (auto simp: m_def)
  then have "list_all2 (\<lambda>old new. length (spec_token_ids (fst new)) = min (length (spec_token_ids (fst old))) m) reqs reqs'"
    unfolding off by (simp add: list_all2_same min_absorb1)
  then show ?thesis by (intro exI [of _ m]) (simp add: m_def)
next
  case (on picks)
  let ?ak1 = "if steps ak mod 50 = 0 then reload ofs rnd str_of ov ak else ak"
  obtain n where n: "n = batch_width ?ak1 reqs picks" by blast
  have inv1: "ak_inv env ?ak1" using inv reload_inv by simp
  then have "set (k_set ?ak1) \<subseteq> set (boot_set ?ak1)" unfolding ak_inv_def by blast
  then have posk: "\<forall>v \<in> set (k_set ?ak1). 1 \<le> v" using pos by (auto split: if_splits)
  have "1 \<le> n"
  proof (rule batch_width_cases [OF on(3,2)])
    fix x assume "choose_k rnd ?ak1 (rq_id (fst x)) (int (length (spec_token_ids (fst x)))) (snd x)
        = Inr (Some (batch_width ?ak1 reqs picks))"
    then show ?thesis unfolding n by (rule choose_k_bounds(1))
  next
    assume "k_set ?ak1 \<noteq> []" and "batch_width ?ak1 reqs picks = Min (set (k_set ?ak1))"
    then show ?thesis unfolding n using posk by (metis List.finite_set Min_in set_empty)
  next
    let ?L = "set (map (\<lambda>rs. int (length (spec_token_ids (fst rs)))) reqs)"
    assume w: "batch_width ?ak1 reqs picks = Max ?L"
    have "Max ?L \<in> ?L" using on(2) by (intro Max_in) auto
    then show ?thesis unfolding n w using ne by (auto simp: Suc_le_eq)
  qed
  then have "list_all2 (\<lambda>old new. length (spec_token_ids (fst new)) = min (length (spec_token_ids (fst old))) (nat n)) reqs reqs'"
    unfolding on(4) n [symmetric] by (simp add: list_all2_map2 list_all2_same trim_req_length)
  with \<open>1 \<le> n\<close> show ?thesis by (intro exI [of _ "nat n"]) simp
qed

theorem apply_uniform_width_witness:
  "\<exists>n \<ge> 1. list_all2 (\<lambda>old new. length (spec_token_ids (fst new)) = min (length (spec_token_ids (fst old))) n) (demo_reqs False)
     [(\<lparr>rq_id = ''a'', spec_token_ids = [1, 2]\<rparr>, False), (\<lparr>rq_id = ''b'', spec_token_ids = [11, 12]\<rparr>, False)]"
proof -
  obtain ak' where a: "ak_apply demo_ofs id demo_str None demo_ak (demo_reqs False) {} =
    Inr ([(\<lparr>rq_id = ''a'', spec_token_ids = [1, 2]\<rparr>, False), (\<lparr>rq_id = ''b'', spec_token_ids = [11, 12]\<rparr>, False)], ak')"
    using demo_apply by blast
  have "ak_inv demo_ak_env demo_ak"
    by (simp add: ak_inv_def demo_ak_def demo_ak_env_def env_get_def demo_parse_set demo_ak_norms on_values_def del: py_int.simps)
  moreover have "\<forall>v \<in> set (boot_set demo_ak). 1 \<le> v" by (simp add: demo_ak_def)
  moreover have "\<forall>rs \<in> set (demo_reqs False). spec_token_ids (fst rs) \<noteq> []" by (simp add: demo_reqs_def)
  ultimately show ?thesis by (rule apply_uniform_width [OF a])
qed

subsection \<open>The moving average\<close>

definition ema_ok :: "adaptive_k \<Rightarrow> bool" where
  "ema_ok ak \<longleftrightarrow> (\<forall>r e n. ema_state ak r = Some (e, n) \<longrightarrow> 0 \<le> e \<and> e \<le> of_int (k_max ak) \<and> 1 \<le> n)"

lemma ema_step_bounds:
  assumes "mono rnd" and "rnd 0 = 0" and "rnd K = K" and "rnd (K * a) = K * a"
    and "rnd (1 - a) = 1 - a" and "rnd (K * (1 - a)) = K * (1 - a)"
    and a: "0 \<le> a" "a \<le> 1" and "0 \<le> obs" "obs \<le> K" "0 \<le> prev" "prev \<le> K"
  shows "0 \<le> ema_step rnd a obs prev \<and> ema_step rnd a obs prev \<le> K"
proof -
  have m: "rnd x \<le> rnd y" if "x \<le> y" for x y using assms(1) that by (rule monoD)
  have o: "0 \<le> obs * a" "obs * a \<le> K * a" and p: "0 \<le> prev * (1 - a)" "prev * (1 - a) \<le> K * (1 - a)"
    using a assms(9-12) by (simp_all add: mult_right_mono)
  have o': "0 \<le> rnd (obs * a)" "rnd (obs * a) \<le> K * a"
    using m [OF o(1)] m [OF o(2)] assms(2,4) by simp_all
  have p': "0 \<le> rnd (prev * (1 - a))" "rnd (prev * (1 - a)) \<le> K * (1 - a)"
    using m [OF p(1)] m [OF p(2)] assms(2,6) by simp_all
  have "rnd 0 \<le> rnd (rnd (obs * a) + rnd (prev * (1 - a)))"
    using o' p' by (intro m) simp
  moreover have "rnd (rnd (obs * a) + rnd (prev * (1 - a))) \<le> rnd (K * a + K * (1 - a))"
    using o' p' by (intro m add_mono)
  moreover have "K * a + K * (1 - a) = K" by (simp add: algebra_simps)
  ultimately show ?thesis using assms(2,3,5) by (simp add: ema_step_def)
qed

text \<open>The average stays in range. If float rounding is monotone and exact on the few products the
  configuration fixes (as IEEE doubles are for the default \<open>alpha = 0.25\<close> and \<open>k_max = 7\<close>), and the
  verifier reports between zero and \<open>k_max\<close> accepted of at most \<open>k_max\<close> drafted tokens, then
  \<open>observe\<close> keeps every request's average between 0 and \<open>k_max\<close> and every step count positive.\<close>

theorem observe_keeps_ema_range:
  assumes ok: "ema_ok ak" and "mono rnd" and "rnd 0 = 0"
    and "rnd (of_int (k_max ak)) = of_int (k_max ak)" and "rnd (of_int (k_max ak) * alpha ak) = of_int (k_max ak) * alpha ak"
    and "rnd (1 - alpha ak) = 1 - alpha ak" and "rnd (of_int (k_max ak) * (1 - alpha ak)) = of_int (k_max ak) * (1 - alpha ak)"
    and "0 \<le> alpha ak" "alpha ak \<le> 1"
    and rep: "0 \<le> accepted" "accepted \<le> k_max ak" "drafted \<le> k_max ak"
  shows "ema_ok (observe rnd rid drafted accepted ak)"
proof (cases "\<not> enabled ak \<or> drafted \<le> 0")
  case True
  with ok show ?thesis by (simp add: observe_def)
next
  case False
  define obs where "obs = (if drafted \<le> accepted \<and> saturate ak \<noteq> ''n''
      then rnd (of_int (max (k_max ak) drafted)) else rnd (of_int accepted))"
  have K: "0 \<le> (of_int (k_max ak) :: rat)" using rep by simp
  have acc: "0 \<le> rnd (of_int accepted)" "rnd (of_int accepted) \<le> of_int (k_max ak)"
    using monoD [OF assms(2), of 0 "of_int accepted"] monoD [OF assms(2), of "of_int accepted" "of_int (k_max ak)"]
      rep(1,2) assms(3,4) by simp_all
  have "max (k_max ak) drafted = k_max ak" using rep(3) by simp
  with acc K assms(4) have obs: "0 \<le> obs" "obs \<le> of_int (k_max ak)"
    by (simp_all add: obs_def)
  note b = ema_step_bounds [OF assms(2-9) obs]
  show ?thesis
  proof (cases "ema_state ak rid")
    case None
    with False have "observe rnd rid drafted accepted ak = ak\<lparr>ema_state :=
        (ema_state ak)(rid \<mapsto> (ema_step rnd (alpha ak) obs (rnd (of_int (k_max ak))), 1))\<rparr>"
      by (simp add: observe_def obs_def)
    with ok b [of "of_int (k_max ak)"] K assms(4) show ?thesis by (auto simp: ema_ok_def)
  next
    case (Some en)
    obtain e n where en: "en = (e, n)" by (cases en)
    with False Some have "observe rnd rid drafted accepted ak = ak\<lparr>ema_state :=
        (ema_state ak)(rid \<mapsto> (ema_step rnd (alpha ak) obs e, n + 1))\<rparr>"
      by (simp add: observe_def obs_def)
    moreover have "0 \<le> e" "e \<le> of_int (k_max ak)" "1 \<le> n"
      using ok Some en by (auto simp: ema_ok_def)
    ultimately show ?thesis using ok b [of e] by (auto simp: ema_ok_def)
  qed
qed

theorem observe_keeps_ema_range_witness: "ema_ok (observe id ''a'' 7 3 demo_ak)"
proof (rule observe_keeps_ema_range)
  show "ema_ok demo_ak" by (auto simp: ema_ok_def demo_ak_def split: if_splits)
qed (simp_all add: demo_ak_def monoI)

subsection \<open>The handler against the one it replaces\<close>

lemma draft_loop_stock: "fst (draft_loop adv val en ds rs acc) = stock_loop adv val ds rs"
proof (induction ds arbitrary: rs acc)
  case Nil
  then show ?case by simp
next
  case (Cons d ds)
  obtain rid toks where d: "d = (rid, toks)" by (cases d)
  show ?case
  proof (cases "rs rid")
    case None
    then show ?thesis by (simp add: d Cons)
  next
    case (Some r)
    moreover have "rs(rid \<mapsto> r\<lparr>sr_spec := []\<rparr>) = rs" if "sr_spec r = []"
      using Some that by (cases r) (simp add: map_upd_triv)
    ultimately show ?thesis
      by (simp only: d draft_loop.simps stock_loop.simps option.case Let_def Cons.IH split: if_split) (simp add: fun_upd_def)
  qed
qed

lemma draft_loop_acc:
  "set (snd (draft_loop adv val en ds rs acc)) \<subseteq> set acc \<union> fst ` set ds \<times> UNIV"
proof (induction ds arbitrary: rs acc)
  case Nil
  then show ?case by simp
next
  case (Cons d ds)
  obtain rid toks where d: "d = (rid, toks)" by (cases d)
  show ?case
    unfolding d using Cons.IH
    by (auto simp: Let_def split: option.splits) (force+)
qed

text \<open>A request table in which only drafts were cut.\<close>

definition drafts_cut :: "sched_request \<Rightarrow> sched_request \<Rightarrow> bool" where
  "drafts_cut r r' \<longleftrightarrow> sr_finished r' = sr_finished r \<and> sr_prefill_chunk r' = sr_prefill_chunk r
     \<and> prefix (sr_spec r') (sr_spec r)"

lemma drafts_cut_refl [simp]: "drafts_cut r r"
  by (simp add: drafts_cut_def)

lemma write_reqs_cut:
  assumes "\<forall>p \<in> set reqs. \<forall>r. rs0 (rq_id (fst p)) = Some r \<longrightarrow> prefix (spec_token_ids (fst p)) (sr_spec r)"
    and "\<forall>x. rel_option drafts_cut (rs0 x) (rs x)"
  shows "\<forall>x. rel_option drafts_cut (rs0 x) (foldl write_req rs reqs x)"
  using assms
proof (induction reqs arbitrary: rs)
  case Nil
  then show ?case by simp
next
  case (Cons p reqs)
  have "rel_option drafts_cut (rs0 x) (write_req rs p x)" for x
    using Cons.prems(1) Cons.prems(2) [rule_format, of x]
    by (auto simp: write_req_def drafts_cut_def option_rel_Some1 option_rel_Some2 split: option.splits
        elim!: option.rel_cases)
  with Cons.IH [of "write_req rs p"] Cons.prems(1) show ?case by simp
qed

lemma write_reqs_other: "x \<notin> (\<lambda>p. rq_id (fst p)) ` set reqs \<Longrightarrow> foldl write_req rs reqs x = rs x"
  by (induction reqs arbitrary: rs) (auto simp: write_req_def split: option.splits)

text \<open>(C23) The patched handler refines the stock one. For every request the table after the patched
  \<open>update_draft_token_ids\<close> agrees with the table the unpatched handler would have produced, except that
  a draft may have lost trailing tokens; requests without new drafts are exactly as the stock handler
  leaves them.\<close>

theorem update_draft_refines_stock:
  assumes "update_draft_token_ids ofs rnd str_of ov advance validate drafts rs ak = Inr (rs', ak')"
  shows "rel_option drafts_cut (stock_update_draft_token_ids advance validate drafts rs rid) (rs' rid)
    \<and> (rid \<notin> fst ` set drafts \<longrightarrow> rs' rid = stock_update_draft_token_ids advance validate drafts rs rid)"
proof -
  obtain rs1 acc where l: "draft_loop advance validate (enabled ak) drafts rs [] = (rs1, acc)" by fastforce
  have stock: "stock_update_draft_token_ids advance validate drafts rs = rs1"
    using draft_loop_stock [of advance validate "enabled ak" drafts rs "[]"] l
    by (simp add: stock_update_draft_token_ids_def)
  show ?thesis
  proof (cases "acc = []")
    case True
    with assms l stock show ?thesis by (auto simp: update_draft_token_ids_def intro: option.rel_refl)
  next
    case False
    with assms l obtain reqs where
      app: "ak_apply ofs rnd str_of ov ak (map (read_req rs1) acc) (dom rs1) = Inr (reqs, ak')"
      and rs': "rs' = foldl write_req rs1 reqs"
      by (auto simp: update_draft_token_ids_def res_bind_Inr)
    from apply_shape [OF app] have
      shape: "\<forall>p \<in> set reqs. \<exists>a \<in> set acc. rq_id (fst p) = fst a \<and> prefix (spec_token_ids (fst p)) (spec_token_ids (fst (read_req rs1 a)))"
      by (fastforce simp: list_all2_map1 list_all2_conv_all_nth in_set_conv_nth read_req_def)
    have "prefix (spec_token_ids (fst p)) (sr_spec r)" if "p \<in> set reqs" "rs1 (rq_id (fst p)) = Some r" for p r
      using bspec [OF shape that(1)] that(2) by (auto simp: read_req_def)
    then have "rel_option drafts_cut (rs1 rid) (rs' rid)"
      unfolding rs' using write_reqs_cut [of reqs rs1 rs1] by (simp add: option.rel_refl)
    moreover have "rs' rid = rs1 rid" if "rid \<notin> fst ` set drafts"
      unfolding rs'
    proof (rule write_reqs_other)
      have acc: "fst ` set acc \<subseteq> fst ` set drafts"
        using draft_loop_acc [of advance validate "enabled ak" drafts rs "[]"] l by auto
      show "rid \<notin> (\<lambda>p. rq_id (fst p)) ` set reqs"
      proof
        assume "rid \<in> (\<lambda>p. rq_id (fst p)) ` set reqs"
        then obtain p where "p \<in> set reqs" "rid = rq_id (fst p)" by blast
        with bspec [OF shape this(1)] have "rid \<in> fst ` set acc" by (metis imageI)
        with acc that show False by blast
      qed
    qed
    ultimately show ?thesis by (simp add: stock)
  qed
qed

definition demo_requests :: "string \<rightharpoonup> sched_request" where
  "demo_requests = [''a'' \<mapsto> \<lparr>sr_finished = False, sr_prefill_chunk = False, sr_spec = []\<rparr>,
                    ''b'' \<mapsto> \<lparr>sr_finished = False, sr_prefill_chunk = False, sr_spec = []\<rparr>]"

definition demo_drafts :: "(string \<times> int list) list" where
  "demo_drafts = [(''a'', [1, 2, 3, 4, 5, 6, 7]), (''b'', [11, 12, 13, 14, 15, 16, 17])]"

lemma demo_update: "\<exists>rs' ak'. update_draft_token_ids demo_ofs id demo_str None (\<lambda>_. False) (\<lambda>_ ts. ts) demo_drafts demo_requests demo_ak
     = Inr (rs', ak') \<and> rs' ''a'' = Some \<lparr>sr_finished = False, sr_prefill_chunk = False, sr_spec = [1, 2]\<rparr>"
  by (simp add: update_draft_token_ids_def demo_requests_def demo_drafts_def ak_apply_def demo_ak_def read_req_def write_req_def
      choose_k_def batch_width_def pos_width_def Let_def trim_req_def py_take_def)

theorem update_draft_refines_stock_witness:
  "rel_option drafts_cut (stock_update_draft_token_ids (\<lambda>_. False) (\<lambda>_ ts. ts) demo_drafts demo_requests ''a'')
     (Some \<lparr>sr_finished = False, sr_prefill_chunk = False, sr_spec = [1, 2]\<rparr>)"
proof -
  obtain rs' ak' where u: "update_draft_token_ids demo_ofs id demo_str None (\<lambda>_. False) (\<lambda>_ ts. ts) demo_drafts demo_requests demo_ak
     = Inr (rs', ak')" and a: "rs' ''a'' = Some \<lparr>sr_finished = False, sr_prefill_chunk = False, sr_spec = [1, 2]\<rparr>"
    using demo_update by blast
  show ?thesis using update_draft_refines_stock [OF u, of "''a''"] a by simp
qed

text \<open>An override file that is reported as ignored is partly applied. \<open>_reload\<close> assigns \<open>enabled\<close>,
  \<open>alpha\<close> and \<open>margin\<close> before it converts \<open>min_steps\<close>; when that conversion raises, the handler
  prints \<open>override file ignored\<close>, but the mode of the file is in force, and neither \<open>min_steps\<close> nor the
  recorded averages were reset.\<close>

theorem reload_failure_is_partial:
  assumes "boot_enabled ak" and "file_mtime ak \<noteq> Some t"
    and "cfg ''alpha'' = None" "cfg ''margin'' = None" and "cfg ''min_steps'' = Some v" and "j_int v = Inl err"
  shows "reload ofs rnd str_of (Some (t, Inr cfg)) ak =
    ak\<lparr>file_mtime := Some t,
       enabled := py_lower (py_strip (str_of (cfg_get cfg ''mode'' (JStr ''ema'')))) \<in> set on_values\<rparr>"
  using assms by (simp add: reload_def reload_cfg_def cfg_get_def Let_def)

theorem reload_failure_is_partial_witness:
  "enabled demo_ak \<and> \<not> enabled (reload demo_ofs id demo_str
      (Some (1, Inr [''mode'' \<mapsto> JStr ''off'', ''min_steps'' \<mapsto> JStr ''x''])) demo_ak)"
proof -
  let ?cfg = "[''mode'' \<mapsto> JStr ''off'', ''min_steps'' \<mapsto> JStr ''x'']"
  have bad: "j_int (JStr ''x'') = Inl ValueError" by code_simp
  have "py_lower (py_strip ''off'') = ''off''" by code_simp
  moreover have "reload demo_ofs id demo_str (Some (1, Inr ?cfg)) demo_ak = demo_ak\<lparr>file_mtime := Some 1,
       enabled := py_lower (py_strip (demo_str (cfg_get ?cfg ''mode'' (JStr ''ema'')))) \<in> set on_values\<rparr>"
    by (rule reload_failure_is_partial [OF _ _ _ _ _ bad]) (simp_all add: demo_ak_def)
  ultimately show ?thesis by (simp add: demo_ak_def demo_str_def cfg_get_def on_values_def)
qed

end
