(* ===== verification/Prefix_Admit.thy ===== *)
theory Prefix_Admit
  imports Glm_Prelude
begin

text \<open>
  The in-flight prefix hold of \<^verbatim>\<open>overlay/patch_prefix_admit.py\<close>: the block-aligned common prefix of
  two prompts (scanned in slices of 256 tokens), the decision to hold a waiter while the partner with
  the longest shared prefix has not published it, with its per-request memo table, and the hook in
  the waiting loop of the scheduler.
\<close>

subsection \<open>Model\<close>

text \<open>The inner loop: the first index from \<open>matched\<close> on, below \<open>nxt\<close>, where the prompts differ.\<close>

function scan_mismatch :: "int list \<Rightarrow> int list \<Rightarrow> nat \<Rightarrow> nat \<Rightarrow> nat" where
  "scan_mismatch mine theirs matched nxt =
     (if matched < nxt then
        if mine ! matched \<noteq> theirs ! matched then matched
        else scan_mismatch mine theirs (Suc matched) nxt
      else matched)"
  by pat_completeness auto
termination
  by (relation "measure (\<lambda>(mine, theirs, matched, nxt). nxt - matched)") auto

text \<open>The outer loop, \<open>step = 256\<close>.\<close>

function scan_slices :: "int list \<Rightarrow> int list \<Rightarrow> nat \<Rightarrow> nat \<Rightarrow> nat" where
  "scan_slices mine theirs limit matched =
     (if matched < limit then
        let nxt = min (matched + 256) limit
        in if take (nxt - matched) (drop matched mine) = take (nxt - matched) (drop matched theirs)
           then scan_slices mine theirs limit nxt
           else scan_mismatch mine theirs matched nxt
      else matched)"
  by pat_completeness auto
termination
  by (relation "measure (\<lambda>(mine, theirs, limit, matched). limit - matched)") auto

declare scan_mismatch.simps [simp del] scan_slices.simps [simp del]

definition aligned_prefix_tokens :: "int list \<Rightarrow> int list \<Rightarrow> int \<Rightarrow> int" where
  "aligned_prefix_tokens mine theirs block =
     (if block \<le> 0 then 0
      else floor_to block (int (scan_slices mine theirs (min (length mine) (length theirs)) 0)))"

text \<open>A request as the hold reads it. \<open>pa_obj\<close> is the identity of the object; the attributes that may be
  missing are options; \<open>pa_settable\<close> says whether the object accepts the memo attribute.\<close>

record pa_request =
  pa_obj :: nat
  pa_id :: "string option"
  pa_prompt :: "int list option"
  pa_computed :: "pyval option"
  pa_shares :: "(string \<rightharpoonup> int) option"
  pa_settable :: bool
  pa_logged :: bool

definition partner_published :: "int \<Rightarrow> pa_request \<Rightarrow> int" where
  "partner_published block partner =
     (let computed = res_default 0 (py_int_or0 (pa_computed partner));
          computed = (if computed < 0 then 0 else computed)
      in floor_to block computed)"

fun hold_loop :: "pa_request \<Rightarrow> int list \<Rightarrow> int \<Rightarrow> pa_request list \<Rightarrow> (string \<rightharpoonup> int) \<Rightarrow> int \<Rightarrow> bool
    \<Rightarrow> int \<times> bool \<times> (string \<rightharpoonup> int)" where
  "hold_loop request mine block [] shares best best_ready = (best, best_ready, shares)"
| "hold_loop request mine block (partner # rest) shares best best_ready =
     (if pa_obj partner = pa_obj request then hold_loop request mine block rest shares best best_ready
      else if pa_id request \<noteq> None \<and> pa_id partner = pa_id request
      then hold_loop request mine block rest shares best best_ready
      else case pa_prompt partner of
        None \<Rightarrow> hold_loop request mine block rest shares best best_ready
      | Some theirs \<Rightarrow>
          if theirs = [] then hold_loop request mine block rest shares best best_ready
          else let memo = (case pa_id partner of None \<Rightarrow> None | Some i \<Rightarrow> shares i);
                   shared = (case memo of Some s \<Rightarrow> s | None \<Rightarrow> aligned_prefix_tokens mine theirs block);
                   shares' = (case (memo, pa_id partner) of (None, Some i) \<Rightarrow> shares(i \<mapsto> shared) | _ \<Rightarrow> shares)
               in if shared \<le> 0 then hold_loop request mine block rest shares' best best_ready
                  else let ready = (shared \<le> partner_published block partner)
                       in if best < shared then hold_loop request mine block rest shares' shared ready
                          else if shared = best \<and> ready then hold_loop request mine block rest shares' best True
                          else hold_loop request mine block rest shares' best best_ready)"

definition hold_for_inflight_prefix :: "pa_request \<Rightarrow> pa_request list \<Rightarrow> pyval \<Rightarrow> pyval \<Rightarrow> int \<times> pa_request" where
  "hold_for_inflight_prefix request running block_size hash_block_size =
     (case res_bind (py_int block_size) (\<lambda>b. res_bind (py_int hash_block_size) (\<lambda>h. Inr (max b h))) of
        Inl e \<Rightarrow> (0, request)
      | Inr block \<Rightarrow>
          if block \<le> 0 then (0, request)
          else case pa_prompt request of
            None \<Rightarrow> (0, request)
          | Some mine \<Rightarrow>
              if mine = [] then (0, request)
              else let shares = (case pa_shares request of None \<Rightarrow> Map.empty | Some m \<Rightarrow> m)
                   in case hold_loop request mine block running shares 0 False of
                        (best, best_ready, shares') \<Rightarrow>
                          (if 0 < best \<and> \<not> best_ready then best else 0,
                           if pa_shares request \<noteq> None \<or> pa_settable request
                           then request\<lparr>pa_shares := Some shares'\<rparr> else request))"

text \<open>The hook before the cache lookup of a waiting request: held requests leave the head of the queue
  for the skipped queue of this step, and the hold is logged once per request.\<close>

datatype admit_decision = Held | Considered

definition admit_hook :: "pa_request \<Rightarrow> pa_request list \<Rightarrow> pyval \<Rightarrow> pyval \<Rightarrow> int \<Rightarrow> admit_decision \<times> pa_request" where
  "admit_hook request running block_size hash_block_size num_computed_tokens =
     (if num_computed_tokens = 0
      then case hold_for_inflight_prefix request running block_size hash_block_size of
             (need, request') \<Rightarrow>
               if need \<noteq> 0 then (Held, request'\<lparr>pa_logged := True\<rparr>) else (Considered, request')
      else (Considered, request))"

subsection \<open>The common prefix\<close>

lemma scan_mismatch_spec:
  assumes "matched \<le> nxt" and "nxt \<le> length mine" and "nxt \<le> length theirs"
    and "take matched mine = take matched theirs"
  shows "let m = scan_mismatch mine theirs matched nxt
    in m \<le> nxt \<and> take m mine = take m theirs \<and> (m < nxt \<longrightarrow> mine ! m \<noteq> theirs ! m)"
  using assms
proof (induction mine theirs matched nxt rule: scan_mismatch.induct)
  case (1 mine theirs matched nxt)
  show ?case
  proof (cases "matched < nxt \<and> mine ! matched = theirs ! matched")
    case True
    with "1.prems" have "take (Suc matched) mine = take (Suc matched) theirs"
      by (simp add: take_Suc_conv_app_nth)
    with True "1.prems" "1.IH" show ?thesis
      by (simp add: scan_mismatch.simps [of mine theirs matched nxt])
  next
    case False
    with "1.prems" show ?thesis by (auto simp: scan_mismatch.simps [of mine theirs matched nxt])
  qed
qed

lemma take_extend:
  assumes "take a xs = take a ys" and "a \<le> b" and "take (b - a) (drop a xs) = take (b - a) (drop a ys)"
  shows "take b xs = take b ys"
  using assms by (metis le_add_diff_inverse take_add)

lemma scan_slices_spec:
  assumes "matched \<le> limit" and "limit \<le> length mine" and "limit \<le> length theirs"
    and "take matched mine = take matched theirs"
  shows "let m = scan_slices mine theirs limit matched
    in m \<le> limit \<and> take m mine = take m theirs \<and> (m < limit \<longrightarrow> mine ! m \<noteq> theirs ! m)"
  using assms
proof (induction mine theirs limit matched rule: scan_slices.induct)
  case (1 mine theirs limit matched)
  let ?n = "min (matched + 256) limit"
  show ?case
  proof (cases "matched < limit")
    case False
    then have "scan_slices mine theirs limit matched = matched"
      by (simp add: scan_slices.simps [of mine theirs limit matched])
    with False "1.prems" show ?thesis by simp
  next
    case lt: True
    show ?thesis
    proof (cases "take (?n - matched) (drop matched mine) = take (?n - matched) (drop matched theirs)")
      case True
      have tn: "take ?n mine = take ?n theirs"
        by (rule take_extend [OF "1.prems"(4) _ True]) (use lt in simp)
      have eq: "scan_slices mine theirs limit matched = scan_slices mine theirs limit ?n"
        by (subst scan_slices.simps) (simp only: Let_def lt True if_True simp_thms)
      show ?thesis
        unfolding eq by (rule "1.IH" [OF lt refl True _ "1.prems"(2,3) tn]) simp
    next
      case False
      let ?m = "scan_mismatch mine theirs matched ?n"
      from "1.prems" lt have m: "?m \<le> ?n \<and> take ?m mine = take ?m theirs \<and> (?m < ?n \<longrightarrow> mine ! ?m \<noteq> theirs ! ?m)"
        using scan_mismatch_spec [of matched ?n mine theirs] by (simp add: Let_def)
      have "?m < ?n"
      proof (rule ccontr)
        assume "\<not> ?m < ?n"
        with m have "?m = ?n" by linarith
        with m have "take ?n mine = take ?n theirs" by metis
        with False show False by (metis drop_take)
      qed
      moreover have "scan_slices mine theirs limit matched = ?m"
        by (subst scan_slices.simps) (simp only: Let_def lt False if_True if_False simp_thms)
      moreover have "?n \<le> limit" by simp
      ultimately show ?thesis using m by simp
    qed
  qed
qed

lemma lcp_unique:
  assumes "m \<le> min (length xs) (length ys)" and "take m xs = take m ys"
    and "m < min (length xs) (length ys) \<longrightarrow> xs ! m \<noteq> ys ! m"
  shows "length (longest_common_prefix xs ys) = m"
  using assms
proof (induction xs ys arbitrary: m rule: longest_common_prefix.induct)
  case (1 x xs y ys)
  show ?case
  proof (cases m)
    case 0
    with "1.prems" show ?thesis by auto
  next
    case (Suc k)
    with "1.prems" have "x = y" and "length (longest_common_prefix xs ys) = k"
      using "1.IH" [of k] by auto
    with Suc show ?thesis by simp
  qed
qed auto

lemma aligned_prefix_lcp:
  "aligned_prefix_tokens mine theirs block =
     (if block \<le> 0 then 0 else floor_to block (int (length (longest_common_prefix mine theirs))))"
proof -
  let ?m = "scan_slices mine theirs (min (length mine) (length theirs)) 0"
  have "length (longest_common_prefix mine theirs) = ?m"
    using scan_slices_spec [of 0 "min (length mine) (length theirs)" mine theirs]
    by (intro lcp_unique) (auto simp: Let_def)
  then show ?thesis by (simp add: aligned_prefix_tokens_def)
qed

text \<open>(C25) The sliced scan computes the aligned longest common prefix. For every pair of prompts and
  every positive grid, \<open>_glm53_aligned_prefix_tokens\<close> returns the length of their longest common
  prefix rounded down to the grid; a non-positive grid gives 0.\<close>

theorem aligned_prefix_is_lcp:
  "aligned_prefix_tokens mine theirs block =
     (if block \<le> 0 then 0 else floor_to block (int (length (longest_common_prefix mine theirs))))"
  by (rule aligned_prefix_lcp)

subsection \<open>The decision\<close>

text \<open>What the memo table stands for: the share of an eligible partner, recomputed.\<close>

definition partner_share :: "pa_request \<Rightarrow> int list \<Rightarrow> int \<Rightarrow> pa_request \<Rightarrow> int" where
  "partner_share request mine block p =
     (if pa_obj p = pa_obj request \<or> (pa_id request \<noteq> None \<and> pa_id p = pa_id request) then 0
      else case pa_prompt p of None \<Rightarrow> 0 | Some theirs \<Rightarrow> if theirs = [] then 0 else aligned_prefix_tokens mine theirs block)"

text \<open>The memo is right for the running requests, and one id means one prompt.\<close>

definition memo_ok :: "int list \<Rightarrow> int \<Rightarrow> pa_request list \<Rightarrow> (string \<rightharpoonup> int) \<Rightarrow> bool" where
  "memo_ok mine block running shares \<longleftrightarrow>
     (\<forall>p \<in> set running. \<forall>i s theirs. pa_id p = Some i \<and> shares i = Some s \<and> pa_prompt p = Some theirs \<and> theirs \<noteq> []
        \<longrightarrow> s = aligned_prefix_tokens mine theirs block)"

definition ids_agree :: "pa_request list \<Rightarrow> bool" where
  "ids_agree running \<longleftrightarrow> (\<forall>p \<in> set running. \<forall>q \<in> set running. pa_id p \<noteq> None \<and> pa_id p = pa_id q \<longrightarrow> pa_prompt p = pa_prompt q)"

definition hold_pick :: "int \<times> bool \<Rightarrow> int \<times> bool \<Rightarrow> int \<times> bool" where
  "hold_pick acc e = (if fst e \<le> 0 then acc
     else if fst acc < fst e then e else if fst e = fst acc \<and> snd e then (fst acc, True) else acc)"

lemma aligned_nonneg: "0 \<le> aligned_prefix_tokens mine theirs block"
  by (auto simp: aligned_prefix_lcp intro: floor_to_nonneg)

lemma ids_agree_tl: "ids_agree (p # ps) \<Longrightarrow> ids_agree ps"
  unfolding ids_agree_def by (metis list.set_intros(2))

lemma memo_ok_update:
  assumes "memo_ok mine block (p # ps) shares" and "ids_agree (p # ps)"
    and "pa_id p = Some i" and "pa_prompt p = Some theirs" and "theirs \<noteq> []"
  shows "memo_ok mine block ps (shares(i \<mapsto> aligned_prefix_tokens mine theirs block))"
  unfolding memo_ok_def
proof (intro ballI allI impI)
  fix q j s t
  assume q: "q \<in> set ps" and
    h: "pa_id q = Some j \<and> (shares(i \<mapsto> aligned_prefix_tokens mine theirs block)) j = Some s \<and> pa_prompt q = Some t \<and> t \<noteq> []"
  show "s = aligned_prefix_tokens mine t block"
  proof (cases "j = i")
    case True
    with assms(2,3) q h have "pa_prompt q = pa_prompt p"
      unfolding ids_agree_def by (metis list.set_intros(1,2) option.distinct(1))
    with True h assms(4) show ?thesis by auto
  next
    case False
    with h have "shares j = Some s" by simp
    with assms(1) q h show ?thesis unfolding memo_ok_def by (metis list.set_intros(2))
  qed
qed

lemma memo_ok_tl: "memo_ok mine block (p # ps) shares \<Longrightarrow> memo_ok mine block ps shares"
  by (auto simp: memo_ok_def)

text \<open>With a right memo the loop is a fold over the shares of the partners.\<close>

lemma hold_loop_fold:
  assumes "memo_ok mine block ps shares" and "ids_agree ps"
  shows "(case hold_loop request mine block ps shares best ready of (b, r, m) \<Rightarrow> (b, r)) =
    foldl hold_pick (best, ready)
      (map (\<lambda>p. (partner_share request mine block p, partner_share request mine block p \<le> partner_published block p)) ps)"
  using assms
proof (induction ps arbitrary: shares best ready)
  case Nil
  then show ?case by simp
next
  case (Cons p ps)
  note IH = Cons.IH [OF _ ids_agree_tl [OF Cons.prems(2)]]
  note tl = memo_ok_tl [OF Cons.prems(1)]
  show ?case
  proof (cases "pa_obj p = pa_obj request \<or> (pa_id request \<noteq> None \<and> pa_id p = pa_id request)
      \<or> pa_prompt p = None \<or> pa_prompt p = Some []")
    case True
    then have z: "partner_share request mine block p = 0" by (auto simp: partner_share_def)
    from True have "hold_loop request mine block (p # ps) shares best ready = hold_loop request mine block ps shares best ready"
      by auto
    then show ?thesis using IH [OF tl] z by (simp add: hold_pick_def)
  next
    case False
    then obtain theirs where th: "pa_prompt p = Some theirs" "theirs \<noteq> []" by auto
    let ?s = "aligned_prefix_tokens mine theirs block"
    from False th have sh: "partner_share request mine block p = ?s" by (auto simp: partner_share_def)
    have memo: "shares i = Some s \<Longrightarrow> pa_id p = Some i \<Longrightarrow> s = ?s" for i s
      using Cons.prems(1) th by (auto simp: memo_ok_def)
    obtain shares' where ok': "memo_ok mine block ps shares'"
      and step: "hold_loop request mine block (p # ps) shares best ready =
        (case hold_pick (best, ready) (?s, ?s \<le> partner_published block p) of (b, r) \<Rightarrow>
           hold_loop request mine block ps shares' b r)"
    proof (cases "case pa_id p of None \<Rightarrow> None | Some i \<Rightarrow> shares i")
      case None
      show thesis
      proof (cases "pa_id p")
        case None
        with False th tl show thesis by (intro that [of shares]) (auto simp: hold_pick_def Let_def)
      next
        case (Some i)
        with None False th memo_ok_update [OF Cons.prems Some th] show thesis
          by (intro that [of "shares(i \<mapsto> ?s)"]) (auto simp: hold_pick_def Let_def)
      qed
    next
      case (Some v)
      then obtain i where i: "pa_id p = Some i" "shares i = Some v" by (auto split: option.splits)
      with memo have "v = ?s" by blast
      with i False th tl show thesis by (intro that [of shares]) (auto simp: hold_pick_def Let_def)
    qed
    obtain b r where br: "hold_pick (best, ready) (?s, ?s \<le> partner_published block p) = (b, r)" by fastforce
    show ?thesis
      using IH [OF ok', of b r] by (simp add: step br sh del: hold_loop.simps)
  qed
qed

lemma hold_fold_spec:
  assumes "foldl hold_pick (b0, r0) es = (b, r)" and "0 \<le> b0"
  shows "b0 \<le> b \<and> (\<forall>e \<in> set es. fst e \<le> b) \<and> (b = b0 \<or> (\<exists>e \<in> set es. fst e = b \<and> 0 < b))
    \<and> (r \<longleftrightarrow> (b = b0 \<and> r0) \<or> (0 < b \<and> (b, True) \<in> set es))"
  using assms
proof (induction es arbitrary: b0 r0)
  case Nil
  then show ?case by auto
next
  case (Cons e es)
  obtain s q where e: "e = (s, q)" by (cases e)
  obtain b1 r1 where p: "hold_pick (b0, r0) e = (b1, r1)" by fastforce
  then have "0 \<le> b1" using Cons.prems(2) e by (auto simp: hold_pick_def split: if_splits)
  with Cons.IH [of b1 r1] Cons.prems(1) p have
    "b1 \<le> b \<and> (\<forall>e \<in> set es. fst e \<le> b) \<and> (b = b1 \<or> (\<exists>e \<in> set es. fst e = b \<and> 0 < b))
      \<and> (r \<longleftrightarrow> (b = b1 \<and> r1) \<or> (0 < b \<and> (b, True) \<in> set es))" by simp
  with p e Cons.prems(2) show ?case
    by (auto simp: hold_pick_def split: if_splits)
qed

subsection \<open>The interface the scheduler relies on\<close>

text \<open>
  What a client of the hold may use: a held waiter has a running partner that shares pages with it
  and has not published them, and a partner with the longest share releases the waiter by publishing.
\<close>

locale inflight_hold =
  fixes hold :: "'w \<Rightarrow> 'p list \<Rightarrow> int"
    and share :: "'w \<Rightarrow> 'p \<Rightarrow> int"
    and published :: "'p \<Rightarrow> int"
    and good :: "'w \<Rightarrow> 'p list \<Rightarrow> bool"
  assumes held: "good w ps \<Longrightarrow> hold w ps \<noteq> 0 \<Longrightarrow>
      \<exists>p \<in> set ps. share w p = hold w ps \<and> 0 < share w p \<and> published p < share w p"
    and released: "good w ps \<Longrightarrow> p \<in> set ps \<Longrightarrow> \<forall>q \<in> set ps. share w q \<le> share w p \<Longrightarrow>
      share w p \<le> published p \<Longrightarrow> hold w ps = 0"
    and holds: "good w ps \<Longrightarrow> p \<in> set ps \<Longrightarrow> 0 < share w p \<Longrightarrow> \<forall>q \<in> set ps. share w q \<le> share w p \<Longrightarrow>
      \<forall>q \<in> set ps. share w q = share w p \<longrightarrow> published q < share w q \<Longrightarrow> hold w ps \<noteq> 0"
begin

lemma all_published: "good w ps \<Longrightarrow> \<forall>p \<in> set ps. share w p \<le> published p \<Longrightarrow> hold w ps = 0"
  using held by fastforce

lemma nothing_shared: "good w ps \<Longrightarrow> \<forall>p \<in> set ps. share w p \<le> 0 \<Longrightarrow> hold w ps = 0"
  using held by fastforce

end

definition hold_tokens :: "pyval \<Rightarrow> pyval \<Rightarrow> pa_request \<Rightarrow> pa_request list \<Rightarrow> int" where
  "hold_tokens bs hbs w ps = fst (hold_for_inflight_prefix w ps bs hbs)"

definition waiter_prompt :: "pa_request \<Rightarrow> int list" where
  "waiter_prompt w = (case pa_prompt w of None \<Rightarrow> [] | Some m \<Rightarrow> m)"

definition hold_good :: "int \<Rightarrow> pa_request \<Rightarrow> pa_request list \<Rightarrow> bool" where
  "hold_good block w ps \<longleftrightarrow> ids_agree ps
     \<and> memo_ok (waiter_prompt w) block ps (case pa_shares w of None \<Rightarrow> Map.empty | Some m \<Rightarrow> m)"

lemma share_empty: "partner_share w [] block p = 0"
  by (simp add: partner_share_def aligned_prefix_lcp floor_to_def split: option.splits)

lemma hold_tokens_cases:
  assumes g: "hold_good (max b h) w ps" and pos: "0 < max b h"
  obtains (empty) "waiter_prompt w = []" "hold_tokens (PInt b) (PInt h) w ps = 0"
  | (scan) best ready where
      "\<forall>p \<in> set ps. partner_share w (waiter_prompt w) (max b h) p \<le> best"
      "best = 0 \<or> (\<exists>p \<in> set ps. partner_share w (waiter_prompt w) (max b h) p = best \<and> 0 < best)"
      "ready \<longleftrightarrow> 0 < best \<and> (\<exists>p \<in> set ps. partner_share w (waiter_prompt w) (max b h) p = best
           \<and> best \<le> partner_published (max b h) p)"
      "hold_tokens (PInt b) (PInt h) w ps = (if 0 < best \<and> \<not> ready then best else 0)"
proof (cases "waiter_prompt w = []")
  case True
  then have "hold_tokens (PInt b) (PInt h) w ps = 0"
    by (auto simp: hold_tokens_def hold_for_inflight_prefix_def waiter_prompt_def split: option.splits)
  with True empty show ?thesis by blast
next
  case False
  then obtain mine where mine: "pa_prompt w = Some mine" "mine \<noteq> []" "waiter_prompt w = mine"
    by (auto simp: waiter_prompt_def split: option.splits)
  let ?block = "max b h"
  let ?es = "map (\<lambda>p. (partner_share w mine ?block p, partner_share w mine ?block p \<le> partner_published ?block p)) ps"
  let ?m = "case pa_shares w of None \<Rightarrow> Map.empty | Some m \<Rightarrow> m"
  obtain best ready m' where l: "hold_loop w mine ?block ps ?m 0 False = (best, ready, m')"
    by (metis prod_cases3)
  with g mine have f: "foldl hold_pick (0, False) ?es = (best, ready)"
    using hold_loop_fold [of mine ?block ps ?m w 0 False] by (simp add: hold_good_def)
  from hold_fold_spec [OF f] have spec: "0 \<le> best \<and> (\<forall>e \<in> set ?es. fst e \<le> best)
      \<and> (best = 0 \<or> (\<exists>e \<in> set ?es. fst e = best \<and> 0 < best)) \<and> (ready \<longleftrightarrow> 0 < best \<and> (best, True) \<in> set ?es)" by simp
  have h: "hold_tokens (PInt b) (PInt h) w ps = (if 0 < best \<and> \<not> ready then best else 0)"
    unfolding hold_tokens_def hold_for_inflight_prefix_def using l mine pos by (simp add: less_max_iff_disj) linarith
  show ?thesis
  proof (rule scan [of best ready])
    show "\<forall>p \<in> set ps. partner_share w (waiter_prompt w) (max b h) p \<le> best"
      using spec unfolding mine(3) by simp
    show "best = 0 \<or> (\<exists>p \<in> set ps. partner_share w (waiter_prompt w) (max b h) p = best \<and> 0 < best)"
      using spec unfolding mine(3) by auto
    show "ready \<longleftrightarrow> 0 < best \<and> (\<exists>p \<in> set ps. partner_share w (waiter_prompt w) (max b h) p = best
           \<and> best \<le> partner_published (max b h) p)"
    proof -
      have "(best, True) \<in> set ?es \<longleftrightarrow> (\<exists>p \<in> set ps. partner_share w mine (max b h) p = best
           \<and> best \<le> partner_published (max b h) p)"
        unfolding set_map image_iff by (rule bex_cong [OF refl]) auto
      with spec show ?thesis unfolding mine(3) by blast
    qed
  qed (rule h)
qed

interpretation page_hold: inflight_hold
  "hold_tokens (PInt b) (PInt h)" "\<lambda>w p. partner_share w (waiter_prompt w) (max b h) p"
  "partner_published (max b h)" "\<lambda>w ps. 0 < max b h \<and> hold_good (max b h) w ps" for b h
proof unfold_locales
  fix w ps
  assume g: "0 < max b h \<and> hold_good (max b h) w ps" and ne: "hold_tokens (PInt b) (PInt h) w ps \<noteq> 0"
  show "\<exists>p \<in> set ps. partner_share w (waiter_prompt w) (max b h) p = hold_tokens (PInt b) (PInt h) w ps
      \<and> 0 < partner_share w (waiter_prompt w) (max b h) p
      \<and> partner_published (max b h) p < partner_share w (waiter_prompt w) (max b h) p"
    by (rule hold_tokens_cases [of b h w ps]) (use g ne in \<open>auto simp: not_le split: if_splits\<close>)
next
  fix w ps p
  assume g: "0 < max b h \<and> hold_good (max b h) w ps" and p: "p \<in> set ps"
    and mx: "\<forall>q \<in> set ps. partner_share w (waiter_prompt w) (max b h) q \<le> partner_share w (waiter_prompt w) (max b h) p"
    and pub: "partner_share w (waiter_prompt w) (max b h) p \<le> partner_published (max b h) p"
  show "hold_tokens (PInt b) (PInt h) w ps = 0"
  proof (rule hold_tokens_cases [of b h w ps])
    fix best ready
    assume a: "\<forall>p \<in> set ps. partner_share w (waiter_prompt w) (max b h) p \<le> best"
      "best = 0 \<or> (\<exists>p \<in> set ps. partner_share w (waiter_prompt w) (max b h) p = best \<and> 0 < best)"
      "ready \<longleftrightarrow> 0 < best \<and> (\<exists>p \<in> set ps. partner_share w (waiter_prompt w) (max b h) p = best
           \<and> best \<le> partner_published (max b h) p)"
      "hold_tokens (PInt b) (PInt h) w ps = (if 0 < best \<and> \<not> ready then best else 0)"
    have "best = 0 \<or> partner_share w (waiter_prompt w) (max b h) p = best"
      using a(1,2) mx p by (metis order_antisym)
    with a(3,4) p pub show ?thesis by (auto split: if_splits)
  qed (use g in auto)
next
  fix w ps p
  assume g: "0 < max b h \<and> hold_good (max b h) w ps" and p: "p \<in> set ps"
    and pos: "0 < partner_share w (waiter_prompt w) (max b h) p"
    and mx: "\<forall>q \<in> set ps. partner_share w (waiter_prompt w) (max b h) q \<le> partner_share w (waiter_prompt w) (max b h) p"
    and pub: "\<forall>q \<in> set ps. partner_share w (waiter_prompt w) (max b h) q = partner_share w (waiter_prompt w) (max b h) p
        \<longrightarrow> partner_published (max b h) q < partner_share w (waiter_prompt w) (max b h) q"
  show "hold_tokens (PInt b) (PInt h) w ps \<noteq> 0"
  proof (rule hold_tokens_cases [of b h w ps])
    assume "waiter_prompt w = []"
    with pos show ?thesis by (simp add: share_empty)
  next
    fix best ready
    assume a: "\<forall>p \<in> set ps. partner_share w (waiter_prompt w) (max b h) p \<le> best"
      "best = 0 \<or> (\<exists>p \<in> set ps. partner_share w (waiter_prompt w) (max b h) p = best \<and> 0 < best)"
      "ready \<longleftrightarrow> 0 < best \<and> (\<exists>p \<in> set ps. partner_share w (waiter_prompt w) (max b h) p = best
           \<and> best \<le> partner_published (max b h) p)"
      "hold_tokens (PInt b) (PInt h) w ps = (if 0 < best \<and> \<not> ready then best else 0)"
    have "partner_share w (waiter_prompt w) (max b h) p = best" using a(1,2) mx p pos by force
    with a(3,4) pos pub show ?thesis by force
  qed (use g in auto)
qed

subsection \<open>Properties of the hold\<close>

text \<open>(C3) The hold decision. On integer grids, with a memo table that agrees with the prompts, a positive
  answer is the longest aligned prefix the waiter shares with a running request, and no partner with
  that share has published it yet; the answer 0 means that nothing is shared or that some partner with
  the longest share has already published it.\<close>

theorem hold_decision:
  assumes "0 < max b h" and "hold_good (max b h) w ps"
  defines "share \<equiv> partner_share w (waiter_prompt w) (max b h)"
  shows "case hold_for_inflight_prefix w ps (PInt b) (PInt h) of (need, w') \<Rightarrow>
      0 \<le> need
    \<and> (0 < need \<longrightarrow> (\<exists>p \<in> set ps. share p = need) \<and> (\<forall>q \<in> set ps. share q \<le> need)
          \<and> (\<forall>q \<in> set ps. share q = need \<longrightarrow> partner_published (max b h) q < need))
    \<and> (need = 0 \<longrightarrow> waiter_prompt w = [] \<or> (\<forall>q \<in> set ps. share q \<le> 0)
          \<or> (\<exists>q \<in> set ps. (\<forall>r \<in> set ps. share r \<le> share q) \<and> share q \<le> partner_published (max b h) q))"
proof -
  let ?need = "hold_tokens (PInt b) (PInt h) w ps"
  have "0 \<le> ?need
    \<and> (0 < ?need \<longrightarrow> (\<exists>p \<in> set ps. share p = ?need) \<and> (\<forall>q \<in> set ps. share q \<le> ?need)
          \<and> (\<forall>q \<in> set ps. share q = ?need \<longrightarrow> partner_published (max b h) q < ?need))
    \<and> (?need = 0 \<longrightarrow> waiter_prompt w = [] \<or> (\<forall>q \<in> set ps. share q \<le> 0)
          \<or> (\<exists>q \<in> set ps. (\<forall>r \<in> set ps. share r \<le> share q) \<and> share q \<le> partner_published (max b h) q))"
  proof (rule hold_tokens_cases [OF assms(2,1)], goal_cases)
    case 1
    then show ?case by simp
  next
    case (2 best ready)
    note c = "2" [folded share_def]
    show ?case
    proof (cases "0 < best \<and> \<not> ready")
      case True
      with c(4) have n: "?need = best" by simp
      from True c(3) have "\<forall>q \<in> set ps. share q = best \<longrightarrow> partner_published (max b h) q < best"
        by (metis not_le)
      with True c(1,2) show ?thesis unfolding n by auto
    next
      case False
      with c(4) have n: "?need = 0" by simp
      have "(\<forall>q \<in> set ps. share q \<le> 0)
          \<or> (\<exists>q \<in> set ps. (\<forall>r \<in> set ps. share r \<le> share q) \<and> share q \<le> partner_published (max b h) q)"
        using False c(1,2,3) by (metis order_trans not_less)
      then show ?thesis unfolding n by simp
    qed
  qed
  moreover obtain need w' where r: "hold_for_inflight_prefix w ps (PInt b) (PInt h) = (need, w')"
    by (cases "hold_for_inflight_prefix w ps (PInt b) (PInt h)")
  ultimately show ?thesis unfolding hold_tokens_def r by simp
qed

definition demo_pa :: "nat \<Rightarrow> string \<Rightarrow> int list \<Rightarrow> int \<Rightarrow> pa_request" where
  "demo_pa n i prompt c = \<lparr>pa_obj = n, pa_id = Some i, pa_prompt = Some prompt, pa_computed = Some (PInt c),
     pa_shares = None, pa_settable = True, pa_logged = False\<rparr>"

definition demo_waiter :: pa_request where "demo_waiter = demo_pa 0 ''w'' [1, 2, 3, 4, 5, 6] 0"
definition demo_partners :: "pa_request list" where
  "demo_partners = [demo_pa 1 ''p'' [1, 2, 3, 4, 9] 3, demo_pa 2 ''q'' [1, 2, 8] 3]"

lemma demo_hold: "fst (hold_for_inflight_prefix demo_waiter demo_partners (PInt 2) (PInt 1)) = 4"
  unfolding demo_waiter_def demo_partners_def demo_pa_def by code_simp

lemma demo_hold_good: "hold_good 2 demo_waiter demo_partners"
  by (simp add: hold_good_def ids_agree_def memo_ok_def demo_waiter_def demo_partners_def demo_pa_def)

theorem hold_decision_witness:
  "\<exists>p \<in> set demo_partners. partner_share demo_waiter (waiter_prompt demo_waiter) 2 p = 4 \<and> partner_published 2 p < 4"
proof -
  have m: "max (2 :: int) 1 = 2" by simp
  have g: "0 < max (2 :: int) 1" "hold_good (max 2 1) demo_waiter demo_partners"
    unfolding m using demo_hold_good by simp_all
  obtain w' where r: "hold_for_inflight_prefix demo_waiter demo_partners (PInt 2) (PInt 1) = (4, w')"
    using demo_hold by (metis prod.collapse)
  show ?thesis using hold_decision [OF g] unfolding m r prod.case by (metis zero_less_numeral)
qed

lemma share_le_prompt:
  assumes "0 < block"
  shows "partner_share w mine block p \<le> floor_to block (int (length (waiter_prompt p)))"
proof (cases "pa_prompt p")
  case None
  then show ?thesis by (simp add: partner_share_def waiter_prompt_def floor_to_def)
next
  case (Some theirs)
  have "length (longest_common_prefix mine theirs) \<le> length theirs"
    by (metis longest_common_prefix_prefix2 prefix_length_le)
  then have "aligned_prefix_tokens mine theirs block \<le> floor_to block (int (length theirs))"
    using assms by (simp add: aligned_prefix_lcp floor_to_mono)
  then show ?thesis
    using Some floor_to_nonneg [OF assms, of "int (length theirs)"]
    by (cases "theirs = []") (simp_all add: partner_share_def waiter_prompt_def floor_to_def)
qed

lemma finished_published:
  assumes "0 < block" and "pa_computed p = Some (PInt c)" and "int (length (waiter_prompt p)) \<le> c"
  shows "partner_share w mine block p \<le> partner_published block p"
proof -
  have "partner_published block p = floor_to block c"
    using assms(2,3) by (auto simp: partner_published_def py_int_attr_def)
  then show ?thesis
    using share_le_prompt [OF assms(1), of w mine p] floor_to_mono [OF assms(1,3)] by linarith
qed

text \<open>No hold by a partner that has computed its prompt. If every running request has computed at
  least as many tokens as its own prompt has, no waiter is held, whatever it shares with them: a hold
  lasts at most as long as some partner is still in prefill.\<close>

theorem finished_partners_release:
  assumes "0 < max b h" and "hold_good (max b h) w ps"
    and fin: "\<forall>p \<in> set ps. \<exists>c. pa_computed p = Some (PInt c) \<and> int (length (waiter_prompt p)) \<le> c"
  shows "fst (hold_for_inflight_prefix w ps (PInt b) (PInt h)) = 0"
proof -
  have pub: "\<forall>p \<in> set ps. partner_share w (waiter_prompt w) (max b h) p \<le> partner_published (max b h) p"
    using fin finished_published [OF assms(1)] by blast
  from page_hold.all_published [OF conjI [OF assms(1,2)] pub] show ?thesis
    by (simp only: hold_tokens_def)
qed

definition demo_done :: "pa_request list" where
  "demo_done = [demo_pa 1 ''p'' [1, 2, 3, 4, 9] 5]"

theorem finished_partners_release_witness:
  "fst (hold_for_inflight_prefix demo_waiter demo_done (PInt 2) (PInt 1)) = 0"
proof -
  have "0 < max (2 :: int) 1" by simp
  moreover have "hold_good (max 2 1) demo_waiter demo_done"
    by (simp add: hold_good_def ids_agree_def memo_ok_def demo_waiter_def demo_done_def demo_pa_def)
  moreover have "\<forall>p \<in> set demo_done. \<exists>c. pa_computed p = Some (PInt c) \<and> int (length (waiter_prompt p)) \<le> c"
    by (simp add: demo_done_def demo_pa_def waiter_prompt_def)
  ultimately show ?thesis by (rule finished_partners_release)
qed

end
