(* ===== verification/Resident_Tail.thy ===== *)
theory Resident_Tail
  imports Prefix_Admit
begin

text \<open>
  The resident-tail policy of \<^verbatim>\<open>overlay/patch_resident_tail.py\<close>: a short cached follow-up keeps the token
  budget while a cold prefill yields. The admission stamp, the scan of the first four waiters (with the
  in-flight prefix hold of the sibling overlay as the optional global the code looks up), the deferral
  of a running cold prefill with its step cap, and the two long-prefill caps. The cache lookup
  \<open>find_longest_cache_hit\<close> of vLLM is a parameter.
\<close>

subsection \<open>Model\<close>

record rt_request =
  rt_pa :: pa_request
  rt_num_prompt :: "pyval option"
  rt_num_tokens :: "pyval option"
  rt_hashes :: "nat list option"
  rt_stamp :: "pyval option"
  rt_defers :: "pyval option"
  rt_settable :: bool

type_synonym hit_lookup = "nat list \<Rightarrow> int \<Rightarrow> pyval res"
type_synonym holder = "pa_request \<Rightarrow> pa_request list \<Rightarrow> pyval \<Rightarrow> pyval \<Rightarrow> (int \<times> pa_request) res"

text \<open>A queue is \<open>None\<close> when the attribute is missing or cannot be iterated.\<close>

record rt_scheduler =
  sch_block_size :: "pyval option"
  sch_hash_block_size :: "pyval option"
  sch_manager :: "hit_lookup option"
  sch_running :: "rt_request list option"
  sch_max_running :: "pyval option"
  sch_waiting :: "rt_request list option"
  sch_skipped :: "rt_request list option"

definition resident_tail_limit :: "environ \<Rightarrow> string \<Rightarrow> int \<Rightarrow> int \<Rightarrow> int \<Rightarrow> int" where
  "resident_tail_limit env name dflt lo hi =
     (case env name of
        None \<Rightarrow> dflt
      | Some raw \<Rightarrow>
          (case py_int (PStr (py_strip raw)) of
             Inl e \<Rightarrow> dflt
           | Inr v \<Rightarrow> if v < lo \<or> hi < v then dflt else v))"

definition resident_tail_page :: "environ \<Rightarrow> int" where
  "resident_tail_page env = resident_tail_limit env ''GLM53_RESIDENT_TAIL_PAGE'' 3584 64 65536"

definition resident_tail_tokens :: "environ \<Rightarrow> int" where
  "resident_tail_tokens env = resident_tail_limit env ''GLM53_RESIDENT_TAIL_TOKENS'' 3584 1 65536"

definition resident_tail_steps :: "environ \<Rightarrow> int" where
  "resident_tail_steps env = resident_tail_limit env ''GLM53_RESIDENT_TAIL_STEPS'' 4 1 32"

definition is_resident_tail :: "pyval \<Rightarrow> pyval \<Rightarrow> pyval \<Rightarrow> pyval \<Rightarrow> bool" where
  "is_resident_tail computed prompt page tail =
     res_default False
       (res_bind (py_int computed) (\<lambda>computed_i.
        res_bind (py_int prompt) (\<lambda>prompt_i.
        res_bind (py_int page) (\<lambda>page_i.
        res_bind (py_int tail) (\<lambda>tail_i.
          Inr (if page_i \<le> 0 \<or> tail_i \<le> 0 then False
               else let left = prompt_i - computed_i
                    in page_i \<le> computed_i \<and> 0 < left \<and> left \<le> tail_i))))))"

definition should_defer_cold :: "pyval \<Rightarrow> bool \<Rightarrow> bool \<Rightarrow> bool \<Rightarrow> pyval \<Rightarrow> pyval \<Rightarrow> pyval \<Rightarrow> pyval \<Rightarrow> bool" where
  "should_defer_cold prefill_left is_tail tail_waiting tail_running num_running max_running defer_count step_cap =
     res_default False
       (res_bind (py_int prefill_left) (\<lambda>left.
        res_bind (py_int num_running) (\<lambda>running.
        res_bind (py_int max_running) (\<lambda>limit.
        res_bind (py_int defer_count) (\<lambda>used.
        res_bind (py_int step_cap) (\<lambda>cap.
          Inr (if is_tail \<or> left \<le> 64 \<or> cap \<le> used \<or> cap \<le> 0 then False
               else if tail_running then True
               else if tail_waiting \<and> running < limit then True
               else False)))))))"

definition note_resident_tail :: "environ \<Rightarrow> rt_request \<Rightarrow> pyval \<Rightarrow> rt_request" where
  "note_resident_tail env request computed =
     (case py_int_or0 (pa_computed (rt_pa request)) of
        Inl e \<Rightarrow> request
      | Inr already \<Rightarrow>
          if already \<noteq> 0 then request
          else case py_int_attr (rt_num_prompt request) of
            Inl e \<Rightarrow> request
          | Inr prompt \<Rightarrow>
              let qualifies = is_resident_tail computed (PInt prompt) (PInt (resident_tail_page env)) (PInt (resident_tail_tokens env))
              in if rt_settable request
                 then request\<lparr>rt_stamp := Some (PInt (if qualifies then 1 else 0))\<rparr>
                 else request)"

definition tail_still_open :: "environ \<Rightarrow> rt_request \<Rightarrow> pyval \<Rightarrow> bool" where
  "tail_still_open env request computed =
     (case py_int_or0 (rt_stamp request) of
        Inl e \<Rightarrow> False
      | Inr stamp \<Rightarrow>
          if stamp \<noteq> 1 then False
          else case py_int_attr (rt_num_prompt request) of
            Inl e \<Rightarrow> False
          | Inr prompt \<Rightarrow>
              is_resident_tail computed (PInt prompt) (PInt (resident_tail_page env)) (PInt (resident_tail_tokens env)))"

definition waiter_cache_hit :: "rt_request \<Rightarrow> hit_lookup \<Rightarrow> int" where
  "waiter_cache_hit waiter manager =
     (case py_int_or0 (pa_computed (rt_pa waiter)) of
        Inl e \<Rightarrow> -1
      | Inr computed \<Rightarrow>
          if computed \<noteq> 0 then -1
          else case rt_hashes waiter of
            None \<Rightarrow> -1
          | Some hashes \<Rightarrow>
              if hashes = [] then -1
              else let ntok = res_default 0 (py_int_or0 (rt_num_tokens waiter))
                   in case (if ntok \<le> 1 then py_int_or0 (rt_num_prompt waiter) else Inr ntok) of
                        Inl e \<Rightarrow> -1
                      | Inr ntok \<Rightarrow>
                          if ntok \<le> 1 then -1
                          else case res_bind (manager hashes (ntok - 1)) py_int of
                            Inl e \<Rightarrow> -1
                          | Inr hit \<Rightarrow> max 0 hit)"

text \<open>The hold may write its memo table on the waiter, so the waiter comes back with the answer.\<close>

definition waiter_is_blocked :: "holder option \<Rightarrow> rt_request \<Rightarrow> rt_request list \<Rightarrow> int \<Rightarrow> int \<Rightarrow> bool \<times> rt_request" where
  "waiter_is_blocked hold waiter running block_size hash_block_size =
     (case hold of
        None \<Rightarrow> (False, waiter)
      | Some f \<Rightarrow>
          (case f (rt_pa waiter) (map rt_pa running) (PInt block_size) (PInt hash_block_size) of
             Inl e \<Rightarrow> (True, waiter)
           | Inr (need, pa) \<Rightarrow> (need \<noteq> 0, waiter\<lparr>rt_pa := pa\<rparr>)))"

datatype scan_outcome = Found | Exhausted | Scanned nat

text \<open>The loop over one queue, \<open>scanned\<close> waiters in: \<open>Found\<close> and \<open>Exhausted\<close> are the two returns.\<close>

fun scan_queue :: "holder option \<Rightarrow> hit_lookup \<Rightarrow> rt_request list \<Rightarrow> int \<Rightarrow> int \<Rightarrow> int \<Rightarrow> int \<Rightarrow> rt_request list \<Rightarrow> nat
    \<Rightarrow> scan_outcome \<times> rt_request list" where
  "scan_queue hold manager running bs hbs page tail [] scanned = (Scanned scanned, [])"
| "scan_queue hold manager running bs hbs page tail (waiter # rest) scanned =
     (if 4 \<le> scanned then (Exhausted, waiter # rest)
      else case waiter_is_blocked hold waiter running bs hbs of
        (blocked, waiter') \<Rightarrow>
          if \<not> blocked
             \<and> res_default False
                 (res_bind (py_int_attr (rt_num_prompt waiter')) (\<lambda>prompt.
                    Inr (is_resident_tail (PInt (waiter_cache_hit waiter' manager)) (PInt prompt) (PInt page) (PInt tail))))
          then (Found, waiter' # rest)
          else case scan_queue hold manager running bs hbs page tail rest (Suc scanned) of
                 (r, rest') \<Rightarrow> (r, waiter' # rest'))"

definition scan_opt :: "holder option \<Rightarrow> hit_lookup \<Rightarrow> rt_request list \<Rightarrow> int \<Rightarrow> int \<Rightarrow> int \<Rightarrow> int \<Rightarrow> rt_request list option \<Rightarrow> nat
    \<Rightarrow> scan_outcome \<times> rt_request list option" where
  "scan_opt hold m rs b h page tail q n = (case q of None \<Rightarrow> (Scanned n, None)
     | Some ws \<Rightarrow> map_prod id Some (scan_queue hold m rs b h page tail ws n))"

definition has_waiting_resident_tail :: "holder option \<Rightarrow> rt_scheduler \<Rightarrow> int \<Rightarrow> int \<Rightarrow> bool \<times> rt_scheduler" where
  "has_waiting_resident_tail hold scheduler page tail =
     (case res_bind (py_int_attr (sch_block_size scheduler)) (\<lambda>b.
           res_bind (py_int_attr (sch_hash_block_size scheduler)) (\<lambda>h.
           case (sch_manager scheduler, sch_running scheduler) of
             (Some m, Some rs) \<Rightarrow> Inr (b, h, m, rs)
           | _ \<Rightarrow> Inl AttributeError)) of
        Inl e \<Rightarrow> (False, scheduler)
      | Inr (b, h, m, rs) \<Rightarrow>
          (case scan_opt hold m rs b h page tail (sch_waiting scheduler) 0 of
             (Found, q) \<Rightarrow> (True, scheduler\<lparr>sch_waiting := q\<rparr>)
           | (Exhausted, q) \<Rightarrow> (False, scheduler\<lparr>sch_waiting := q\<rparr>)
           | (Scanned n, q) \<Rightarrow>
               (case scan_opt hold m rs b h page tail (sch_skipped scheduler) n of
                  (r, q') \<Rightarrow> (r = Found, scheduler\<lparr>sch_waiting := q, sch_skipped := q'\<rparr>))))"

definition runs_tail :: "environ \<Rightarrow> rt_request \<Rightarrow> rt_request \<Rightarrow> bool" where
  "runs_tail env request other \<longleftrightarrow> pa_obj (rt_pa other) \<noteq> pa_obj (rt_pa request)
     \<and> res_default False (res_bind (py_int_attr (pa_computed (rt_pa other))) (\<lambda>c. Inr (tail_still_open env other (PInt c))))"

text \<open>The objects in \<open>scheduler.running\<close> are the requests themselves: a stamp on one is seen there.\<close>

definition put_running :: "rt_request \<Rightarrow> rt_scheduler \<Rightarrow> rt_scheduler" where
  "put_running request scheduler = scheduler\<lparr>sch_running :=
     map_option (map (\<lambda>r. if pa_obj (rt_pa r) = pa_obj (rt_pa request) then request else r)) (sch_running scheduler)\<rparr>"

definition defer_cold_for_resident_tail :: "environ \<Rightarrow> holder option \<Rightarrow> rt_scheduler \<Rightarrow> rt_request
    \<Rightarrow> bool \<times> rt_scheduler \<times> rt_request" where
  "defer_cold_for_resident_tail env hold scheduler request =
     (case res_bind (py_int_attr (rt_num_prompt request)) (\<lambda>p.
           res_bind (py_int_attr (pa_computed (rt_pa request))) (\<lambda>c.
           case sch_running scheduler of
             None \<Rightarrow> Inl AttributeError
           | Some rs \<Rightarrow> res_bind (py_int_attr (sch_max_running scheduler)) (\<lambda>m. Inr (p, c, rs, m)))) of
        Inl e \<Rightarrow> (False, scheduler, request)
      | Inr (prompt, computed, running, max_running) \<Rightarrow>
          let num_running = int (length running);
              left = prompt - computed;
              is_tail = tail_still_open env request (PInt computed);
              defer_count = res_default 0 (py_int_or0 (rt_defers request));
              step_cap = resident_tail_steps env
          in if is_tail \<or> left \<le> 64 \<or> step_cap \<le> defer_count then (False, scheduler, request)
             else let tail_running = list_ex (runs_tail env request) running
                  in case (if \<not> tail_running \<and> num_running < max_running
                           then has_waiting_resident_tail hold scheduler (resident_tail_page env) (resident_tail_tokens env)
                           else (False, scheduler)) of
                       (tail_waiting, scheduler') \<Rightarrow>
                         if \<not> should_defer_cold (PInt left) is_tail tail_waiting tail_running (PInt num_running)
                               (PInt max_running) (PInt defer_count) (PInt step_cap)
                         then (False, scheduler', request)
                         else if rt_settable request
                         then let request' = request\<lparr>rt_defers := Some (PInt (defer_count + 1))\<rparr>
                              in (True, put_running request' scheduler', request')
                         else (False, scheduler', request))"

text \<open>The two caps: \<open>RUN_LPTT_NEW\<close> in the running loop, \<open>WAIT_LPTT_NEW\<close> at admission.\<close>

definition run_cap :: "environ \<Rightarrow> rt_request \<Rightarrow> pyval \<Rightarrow> int \<Rightarrow> int \<Rightarrow> int \<Rightarrow> int \<Rightarrow> int \<Rightarrow> int" where
  "run_cap env request computed threshold num_new_tokens token_budget input_budget draft_slots =
     (let num_new_tokens =
            (if 0 < threshold \<and> threshold < num_new_tokens \<and> \<not> tail_still_open env request computed
             then threshold else num_new_tokens)
      in min (min num_new_tokens token_budget) (input_budget - draft_slots))"

definition wait_cap :: "environ \<Rightarrow> rt_request \<Rightarrow> int \<Rightarrow> int \<Rightarrow> int \<Rightarrow> int \<times> rt_request" where
  "wait_cap env request num_computed_tokens threshold num_new_tokens =
     (let request = note_resident_tail env request (PInt num_computed_tokens)
      in (if 0 < threshold \<and> threshold < num_new_tokens \<and> \<not> tail_still_open env request (PInt num_computed_tokens)
          then threshold else num_new_tokens, request))"


subsection \<open>Bounds of the configuration\<close>

lemma resident_tail_limit_bounds:
  "lo \<le> d \<Longrightarrow> d \<le> hi \<Longrightarrow> lo \<le> resident_tail_limit env name d lo hi \<and> resident_tail_limit env name d lo hi \<le> hi"
  by (auto simp: resident_tail_limit_def split: option.splits sum.splits)

lemma steps_bounds: "1 \<le> resident_tail_steps env \<and> resident_tail_steps env \<le> 32"
  unfolding resident_tail_steps_def by (rule resident_tail_limit_bounds) simp_all

lemma page_bounds: "64 \<le> resident_tail_page env \<and> resident_tail_page env \<le> 65536"
  unfolding resident_tail_page_def by (rule resident_tail_limit_bounds) simp_all

lemma tokens_bounds: "1 \<le> resident_tail_tokens env \<and> resident_tail_tokens env \<le> 65536"
  unfolding resident_tail_tokens_def by (rule resident_tail_limit_bounds) simp_all

lemma is_resident_tail_ints:
  "is_resident_tail (PInt c) (PInt p) (PInt page) (PInt tail) \<longleftrightarrow>
     0 < page \<and> page \<le> c \<and> c < p \<and> p - c \<le> tail"
  by (auto simp: is_resident_tail_def Let_def)

subsection \<open>The scan of the waiters\<close>

text \<open>A waiter that the scan takes for a resident tail.\<close>

definition waiter_tail :: "holder option \<Rightarrow> hit_lookup \<Rightarrow> rt_request list \<Rightarrow> int \<Rightarrow> int \<Rightarrow> int \<Rightarrow> int \<Rightarrow> rt_request \<Rightarrow> bool" where
  "waiter_tail hold manager running bs hbs page tail waiter =
     (case waiter_is_blocked hold waiter running bs hbs of
        (blocked, w) \<Rightarrow> \<not> blocked
          \<and> (\<exists>prompt. py_int_attr (rt_num_prompt w) = Inr prompt
               \<and> is_resident_tail (PInt (waiter_cache_hit w manager)) (PInt prompt) (PInt page) (PInt tail)))"

lemma waiter_tail_alt:
  "waiter_is_blocked hold w running bs hbs = (blocked, w') \<Longrightarrow>
   (\<not> blocked \<and> res_default False
      (res_bind (py_int_attr (rt_num_prompt w')) (\<lambda>prompt.
         Inr (is_resident_tail (PInt (waiter_cache_hit w' manager)) (PInt prompt) (PInt page) (PInt tail)))))
   \<longleftrightarrow> waiter_tail hold manager running bs hbs page tail w"
  by (cases "py_int_attr (rt_num_prompt w')") (auto simp: waiter_tail_def)

lemma scan_queue_spec:
  assumes "n \<le> 4"
  shows "case fst (scan_queue hold m rs b h page tail ws n) of
      Found \<Rightarrow> \<exists>w \<in> set (take (4 - n) ws). waiter_tail hold m rs b h page tail w
    | Exhausted \<Rightarrow> 4 - n < length ws \<and> (\<forall>w \<in> set (take (4 - n) ws). \<not> waiter_tail hold m rs b h page tail w)
    | Scanned k \<Rightarrow> k = n + length ws \<and> k \<le> 4 \<and> (\<forall>w \<in> set ws. \<not> waiter_tail hold m rs b h page tail w)"
  using assms
proof (induction ws arbitrary: n)
  case Nil
  then show ?case by simp
next
  case (Cons w ws)
  obtain bl w' where wb: "waiter_is_blocked hold w rs b h = (bl, w')" by (cases "waiter_is_blocked hold w rs b h")
  obtain r q where sq: "scan_queue hold m rs b h page tail ws (Suc n) = (r, q)"
    by (cases "scan_queue hold m rs b h page tail ws (Suc n)")
  show ?case
  proof (cases "4 \<le> n")
    case True
    with Cons.prems show ?thesis by simp
  next
    case False
    then have t: "take (4 - n) (w # ws) = w # take (4 - Suc n) ws" by (simp add: take_Cons')
    show ?thesis
    proof (cases "waiter_tail hold m rs b h page tail w")
      case True
      with False show ?thesis unfolding t by (simp add: wb waiter_tail_alt [OF wb])
    next
      case no: False
      with False have "fst (scan_queue hold m rs b h page tail (w # ws) n) = r"
        by (simp add: wb waiter_tail_alt [OF wb] sq)
      with Cons.IH [of "Suc n"] False no show ?thesis unfolding t by (cases r) (auto simp: sq)
    qed
  qed
qed

definition queue_of :: "rt_request list option \<Rightarrow> rt_request list" where
  "queue_of q = (case q of None \<Rightarrow> [] | Some ws \<Rightarrow> ws)"

lemma scan_opt_spec:
  assumes "n \<le> 4"
  shows "case fst (scan_opt hold m rs b h page tail q n) of
      Found \<Rightarrow> \<exists>w \<in> set (take (4 - n) (queue_of q)). waiter_tail hold m rs b h page tail w
    | Exhausted \<Rightarrow> 4 - n < length (queue_of q)
        \<and> (\<forall>w \<in> set (take (4 - n) (queue_of q)). \<not> waiter_tail hold m rs b h page tail w)
    | Scanned k \<Rightarrow> k = n + length (queue_of q) \<and> k \<le> 4 \<and> (\<forall>w \<in> set (queue_of q). \<not> waiter_tail hold m rs b h page tail w)"
  using scan_queue_spec [OF assms, where hold = hold and m = m and rs = rs and b = b and h = h and page = page
      and tail = tail and ws = "queue_of q"] assms
  by (cases q) (auto simp: scan_opt_def queue_of_def)

text \<open>The scheduler attributes the policy reads are present and are integers.\<close>

definition sched_ok :: "rt_scheduler \<Rightarrow> rt_request list \<Rightarrow> hit_lookup \<Rightarrow> int \<Rightarrow> int \<Rightarrow> int \<Rightarrow> bool" where
  "sched_ok s rs m b h mx \<longleftrightarrow> sch_running s = Some rs \<and> sch_manager s = Some m \<and> sch_block_size s = Some (PInt b)
     \<and> sch_hash_block_size s = Some (PInt h) \<and> sch_max_running s = Some (PInt mx)"

lemma has_waiting_spec:
  assumes "sched_ok s rs m b h mx"
  shows "fst (has_waiting_resident_tail hold s page tail) \<longleftrightarrow>
    (\<exists>w \<in> set (take 4 (queue_of (sch_waiting s) @ queue_of (sch_skipped s))). waiter_tail hold m rs b h page tail w)"
proof -
  obtain r q where r: "scan_opt hold m rs b h page tail (sch_waiting s) 0 = (r, q)"
    by (cases "scan_opt hold m rs b h page tail (sch_waiting s) 0")
  have hw: "fst (has_waiting_resident_tail hold s page tail) =
      (case r of Found \<Rightarrow> True | Exhausted \<Rightarrow> False
       | Scanned n \<Rightarrow> fst (scan_opt hold m rs b h page tail (sch_skipped s) n) = Found)"
    using assms r by (cases r)
      (auto simp: has_waiting_resident_tail_def sched_ok_def split: prod.splits)
  note first = scan_opt_spec [of 0, where hold = hold and m = m and rs = rs and b = b and h = h and page = page
      and tail = tail and q = "sch_waiting s", simplified]
  show ?thesis
  proof (cases r)
    case Found
    with first hw r show ?thesis by auto
  next
    case Exhausted
    with first hw r show ?thesis by auto
  next
    case (Scanned n)
    with first r
    have n: "n = length (queue_of (sch_waiting s))" "n \<le> 4"
      and no: "\<forall>w \<in> set (queue_of (sch_waiting s)). \<not> waiter_tail hold m rs b h page tail w" by auto
    from scan_opt_spec [OF n(2), where hold = hold and m = m and rs = rs and b = b and h = h and page = page
      and tail = tail and q = "sch_skipped s"] hw Scanned n no show ?thesis
      by (cases "fst (scan_opt hold m rs b h page tail (sch_skipped s) n)") auto
  qed
qed


subsection \<open>The deferral\<close>

definition defer_count :: "rt_request \<Rightarrow> int" where
  "defer_count r = res_default 0 (py_int_or0 (rt_defers r))"

lemma defer_unfold:
  assumes "rt_num_prompt r = Some (PInt p)" and "pa_computed (rt_pa r) = Some (PInt c)" and "sched_ok s rs m b h mx"
  shows "fst (defer_cold_for_resident_tail env hold s r) \<longleftrightarrow>
      rt_settable r \<and> \<not> tail_still_open env r (PInt c) \<and> 64 < p - c \<and> defer_count r < resident_tail_steps env
    \<and> (list_ex (runs_tail env r) rs
       \<or> int (length rs) < mx \<and> fst (has_waiting_resident_tail hold s (resident_tail_page env) (resident_tail_tokens env)))"
  using assms steps_bounds [of env]
  by (auto simp: defer_cold_for_resident_tail_def sched_ok_def defer_count_def should_defer_cold_def Let_def
      split: prod.splits if_splits)

lemma defer_effect:
  assumes "defer_cold_for_resident_tail env hold s r = (d, s', r')"
  shows "r' = (if d then r\<lparr>rt_defers := Some (PInt (defer_count r + 1))\<rparr> else r)"
    and "d \<Longrightarrow> defer_count r < resident_tail_steps env"
  using assms by (auto simp: defer_cold_for_resident_tail_def defer_count_def Let_def
      split: prod.splits if_splits sum.splits)

text \<open>(C7) When a running prefill is deferred. On integer attributes, a request loses its step exactly if it
  can be stamped, is not itself an open tail, has more than 64 prompt tokens left, has yielded fewer steps
  than the cap, and either another running request is an open tail, or a sequence slot is free and one of
  the first four waiters (the waiting queue, then the skipped one) is not held by the in-flight prefix
  hold and has a cache hit of at least a page with a remainder that fits.\<close>

theorem defer_exactly:
  assumes "rt_num_prompt r = Some (PInt p)" and "pa_computed (rt_pa r) = Some (PInt c)" and "sched_ok s rs m b h mx"
  shows "fst (defer_cold_for_resident_tail env hold s r) \<longleftrightarrow>
      rt_settable r \<and> \<not> tail_still_open env r (PInt c) \<and> 64 < p - c \<and> defer_count r < resident_tail_steps env
    \<and> ((\<exists>q \<in> set rs. runs_tail env r q)
       \<or> int (length rs) < mx
         \<and> (\<exists>w \<in> set (take 4 (queue_of (sch_waiting s) @ queue_of (sch_skipped s))).
               waiter_tail hold m rs b h (resident_tail_page env) (resident_tail_tokens env) w))"
  unfolding defer_unfold [OF assms] has_waiting_spec [OF assms(3)] list_ex_iff ..

text \<open>The life of one running request under the policy: at every step the scheduler, the environment and
  every other attribute of the request may have changed, only the counter of deferrals is carried over.\<close>

fun deferrals :: "(environ \<times> holder option \<times> rt_scheduler \<times> rt_request) list \<Rightarrow> pyval option \<Rightarrow> nat" where
  "deferrals [] cnt = 0"
| "deferrals ((env, hold, s, r) # vs) cnt =
     (case defer_cold_for_resident_tail env hold s (r\<lparr>rt_defers := cnt\<rparr>) of
        (d, s', r') \<Rightarrow> (if d then 1 else 0) + deferrals vs (rt_defers r'))"

lemma deferrals_bound:
  assumes "\<forall>v \<in> set vs. resident_tail_steps (fst v) \<le> K"
    and "cnt = None \<and> n = 0 \<or> cnt = Some (PInt n)" and "n \<le> K" and "0 \<le> n"
  shows "int (deferrals vs cnt) + n \<le> K"
  using assms
proof (induction vs arbitrary: cnt n)
  case Nil
  then show ?case by simp
next
  case (Cons v vs)
  obtain env hold s r where v: "v = (env, hold, s, r)" by (cases v)
  let ?r = "r\<lparr>rt_defers := cnt\<rparr>"
  obtain d s' r' where df: "defer_cold_for_resident_tail env hold s ?r = (d, s', r')"
    by (metis prod_cases3)
  have n: "defer_count ?r = n" using Cons.prems(2) by (auto simp: defer_count_def)
  note eff = defer_effect [OF df, unfolded n]
  show ?case
  proof (cases d)
    case True
    with eff(2) Cons.prems(1) v have "n + 1 \<le> K" by fastforce
    with Cons.IH [of "Some (PInt (n + 1))" "n + 1"] Cons.prems True eff(1) show ?thesis
      by (simp add: v df)
  next
    case False
    with Cons.IH [of cnt n] Cons.prems eff(1) show ?thesis by (simp add: v df)
  qed
qed

text \<open>(C31) A cold prefill yields a bounded number of steps. Over any sequence of scheduler steps, with any
  queues and even a changing environment, a request that starts without the counter is deferred at most as
  often as the largest step cap in force, and that cap is never above 32.\<close>

theorem deferrals_capped:
  assumes "\<forall>v \<in> set vs. resident_tail_steps (fst v) \<le> K" and "0 \<le> K"
  shows "int (deferrals vs None) \<le> K \<and> deferrals vs None \<le> 32"
proof -
  have "\<forall>v \<in> set vs. resident_tail_steps (fst v) \<le> 32" using steps_bounds by blast
  from deferrals_bound [OF this, of None 0] have "int (deferrals vs None) \<le> 32" by simp
  with deferrals_bound [OF assms(1), of None 0] assms(2) show ?thesis by simp
qed

text \<open>A cold prefill never becomes a tail. A fresh admission that does not qualify clears the stamp, so
  that no later chunk, whatever it has computed and whatever the page and tail limits are then, counts as
  a resident tail; an admission that qualifies is an open tail at once.\<close>

theorem admission_decides_tail:
  assumes "py_int_or0 (pa_computed (rt_pa r)) = Inr 0" and "rt_num_prompt r = Some (PInt p)" and "rt_settable r"
  shows "(tail_still_open env (note_resident_tail env r (PInt c)) (PInt c)
           \<longleftrightarrow> resident_tail_page env \<le> c \<and> c < p \<and> p - c \<le> resident_tail_tokens env)
    \<and> (\<not> (resident_tail_page env \<le> c \<and> c < p \<and> p - c \<le> resident_tail_tokens env)
           \<longrightarrow> (\<forall>env' c'. \<not> tail_still_open env' (note_resident_tail env r (PInt c)) c'))"
  using assms page_bounds [of env]
  by (auto simp: note_resident_tail_def tail_still_open_def is_resident_tail_ints)

text \<open>The hold of the sibling overlay, as the global the scan finds.\<close>

definition inflight_holder :: holder where
  "inflight_holder w ps bs hbs = Inr (hold_for_inflight_prefix w ps bs hbs)"

lemma blocked_by_hold:
  "fst (waiter_is_blocked (Some inflight_holder) w rs b h) \<longleftrightarrow> hold_tokens (PInt b) (PInt h) (rt_pa w) (map rt_pa rs) \<noteq> 0"
  by (auto simp: waiter_is_blocked_def inflight_holder_def hold_tokens_def split: prod.splits)

text \<open>The pages a waiter shares with a running request, on the grid of the scheduler.\<close>

definition shared_pages :: "int \<Rightarrow> int \<Rightarrow> rt_request \<Rightarrow> rt_request \<Rightarrow> int" where
  "shared_pages b h w r = partner_share (rt_pa w) (waiter_prompt (rt_pa w)) (max b h) (rt_pa r)"

text \<open>A running request publishes what the waiter waits for: the longest share is its, and nobody
  with a share of that length has published it yet.\<close>

definition publisher_of :: "int \<Rightarrow> int \<Rightarrow> rt_request list \<Rightarrow> rt_request \<Rightarrow> rt_request \<Rightarrow> bool" where
  "publisher_of b h rs r w \<longleftrightarrow> r \<in> set rs \<and> 0 < shared_pages b h w r
     \<and> (\<forall>q \<in> set rs. shared_pages b h w q \<le> shared_pages b h w r)
     \<and> (\<forall>q \<in> set rs. shared_pages b h w q = shared_pages b h w r
           \<longrightarrow> partner_published (max b h) (rt_pa q) < shared_pages b h w q)"

lemma publisher_blocks:
  assumes "0 < max b h" and "hold_good (max b h) (rt_pa w) (map rt_pa rs)" and "publisher_of b h rs r w"
  shows "\<not> waiter_tail (Some inflight_holder) m rs b h page tail w"
proof -
  have "hold_tokens (PInt b) (PInt h) (rt_pa w) (map rt_pa rs) \<noteq> 0"
    by (rule page_hold.holds [of b h _ _ "rt_pa r"])
       (use assms in \<open>simp_all add: publisher_of_def shared_pages_def\<close>)
  then show ?thesis by (auto simp: waiter_tail_def blocked_by_hold [symmetric] split: prod.splits)
qed

text \<open>The publisher of a page is not deferred for the waiter that needs it. With the in-flight hold
  installed, as long as no other running request is a tail, a running request does not yield its step when
  each of the first four waiters waits for pages that this request is about to publish.\<close>

theorem publisher_not_deferred:
  assumes "rt_num_prompt r = Some (PInt p)" and "pa_computed (rt_pa r) = Some (PInt c)" and "sched_ok s rs m b h mx"
    and "0 < max b h" and "\<forall>q \<in> set rs. \<not> runs_tail env r q"
    and "\<forall>w \<in> set (take 4 (queue_of (sch_waiting s) @ queue_of (sch_skipped s))).
           hold_good (max b h) (rt_pa w) (map rt_pa rs) \<and> publisher_of b h rs r w"
  shows "\<not> fst (defer_cold_for_resident_tail env (Some inflight_holder) s r)"
proof -
  have "\<not> fst (has_waiting_resident_tail (Some inflight_holder) s (resident_tail_page env) (resident_tail_tokens env))"
    unfolding has_waiting_spec [OF assms(3)] using assms(6) publisher_blocks [OF assms(4)] by blast
  with assms(5) show ?thesis unfolding defer_unfold [OF assms(1,2,3)] by (simp add: list_ex_iff)
qed


subsection \<open>Instances\<close>

definition demo_rt :: "nat \<Rightarrow> string \<Rightarrow> int list \<Rightarrow> int \<Rightarrow> int \<Rightarrow> rt_request" where
  "demo_rt n i prompt np c = \<lparr>rt_pa = demo_pa n i prompt c, rt_num_prompt = Some (PInt np),
     rt_num_tokens = Some (PInt np), rt_hashes = Some [1], rt_stamp = None, rt_defers = None, rt_settable = True\<rparr>"

definition demo_cold :: rt_request where "demo_cold = demo_rt 1 ''cold'' [1, 2, 3, 4, 9] 9000 1"
definition demo_follow :: rt_request where "demo_follow = demo_rt 2 ''warm'' [1, 2, 3, 4] 4000 0"

definition demo_sched :: rt_scheduler where
  "demo_sched = \<lparr>sch_block_size = Some (PInt 2), sch_hash_block_size = Some (PInt 1),
     sch_manager = Some (\<lambda>hs n. Inr (PInt 3600)), sch_running = Some [demo_cold], sch_max_running = Some (PInt 4),
     sch_waiting = Some [demo_follow], sch_skipped = None\<rparr>"

abbreviation no_env :: environ where "no_env \<equiv> \<lambda>_. None"

lemmas demo_rt_simps = demo_cold_def demo_follow_def demo_rt_def demo_pa_def demo_sched_def

lemma no_env_limits [simp]:
  "resident_tail_page no_env = 3584" "resident_tail_tokens no_env = 3584" "resident_tail_steps no_env = 4"
  by (simp_all add: resident_tail_page_def resident_tail_tokens_def resident_tail_steps_def resident_tail_limit_def)

lemma demo_sched_ok: "sched_ok demo_sched [demo_cold] (\<lambda>hs n. Inr (PInt 3600)) 2 1 4"
  by (simp add: sched_ok_def demo_sched_def)

lemma demo_cold_attrs: "rt_num_prompt demo_cold = Some (PInt 9000)" "pa_computed (rt_pa demo_cold) = Some (PInt 1)"
  by (simp_all add: demo_rt_simps)

theorem defer_exactly_witness: "fst (defer_cold_for_resident_tail no_env None demo_sched demo_cold)"
  unfolding defer_exactly [OF demo_cold_attrs demo_sched_ok]
  by (simp add: demo_rt_simps tail_still_open_def defer_count_def waiter_tail_def waiter_is_blocked_def
      waiter_cache_hit_def is_resident_tail_ints queue_of_def py_int_attr_def)

theorem deferrals_capped_witness:
  "int (deferrals [(no_env, None, demo_sched, demo_cold), (no_env, None, demo_sched, demo_cold)] None) \<le> 4"
  using deferrals_capped [of "[(no_env, None, demo_sched, demo_cold), (no_env, None, demo_sched, demo_cold)]" 4]
  by simp

theorem admission_decides_tail_witness:
  "tail_still_open no_env (note_resident_tail no_env demo_follow (PInt 3600)) (PInt 3600)
   \<and> \<not> tail_still_open no_env (note_resident_tail no_env demo_follow (PInt 100)) (PInt 3700)"
proof -
  have a: "py_int_or0 (pa_computed (rt_pa demo_follow)) = Inr 0" "rt_num_prompt demo_follow = Some (PInt 4000)"
    "rt_settable demo_follow" by (simp_all add: demo_rt_simps)
  show ?thesis
    using admission_decides_tail [OF a, of no_env 3600] admission_decides_tail [OF a, of no_env 100] by simp
qed

lemma demo_publisher:
  "hold_good 2 (rt_pa demo_follow) (map rt_pa [demo_cold])" "publisher_of 2 1 [demo_cold] demo_cold demo_follow"
proof -
  show "hold_good 2 (rt_pa demo_follow) (map rt_pa [demo_cold])"
    by (simp add: hold_good_def ids_agree_def memo_ok_def demo_rt_simps)
  have "shared_pages 2 1 demo_follow demo_cold = 4"
    unfolding shared_pages_def demo_rt_simps waiter_prompt_def by code_simp
  then show "publisher_of 2 1 [demo_cold] demo_cold demo_follow"
    by (simp add: publisher_of_def partner_published_def demo_rt_simps floor_to_def)
qed

theorem publisher_not_deferred_witness:
  "\<not> fst (defer_cold_for_resident_tail no_env (Some inflight_holder) demo_sched demo_cold)"
proof (rule publisher_not_deferred [OF demo_cold_attrs demo_sched_ok])
  show "0 < max (2 :: int) 1" by simp
  show "\<forall>q \<in> set [demo_cold]. \<not> runs_tail no_env demo_cold q" by (simp add: runs_tail_def)
  have q: "queue_of (sch_waiting demo_sched) @ queue_of (sch_skipped demo_sched) = [demo_follow]"
    by (simp add: queue_of_def demo_sched_def)
  show "\<forall>w \<in> set (take 4 (queue_of (sch_waiting demo_sched) @ queue_of (sch_skipped demo_sched))).
      hold_good (max 2 1) (rt_pa w) (map rt_pa [demo_cold]) \<and> publisher_of 2 1 [demo_cold] demo_cold w"
    unfolding q using demo_publisher by simp
qed

end
