(* ===== verification/Decode_Floor.thy ===== *)
theory Decode_Floor
  imports Glm_Prelude
begin

text \<open>
  The decode floor of \<^verbatim>\<open>overlay/patch_scheduler_decode_floor.py\<close>: the mixed-step policy, the three
  generations of the mixed-prefill gate that the patcher carries as helper texts (v2: bypass and
  deadline, v3: aging of the late cap, v3.1: split accounting of crawl time), the bounded fallback map for
  requests that reject attributes, and the two call sites in the scheduler. Times are seconds as
  rationals; the clock is an argument of the gate. Log lines are not modelled.
\<close>

subsection \<open>Configuration and policy\<close>

record gate_cfg =
  warm_tokens :: int
  max_wait_ms :: int
  late_cap :: int
  escalate_ms :: int
  late_cap_max :: int

definition cfg_int :: "environ \<Rightarrow> string \<Rightarrow> int \<Rightarrow> int \<Rightarrow> int \<Rightarrow> int" where
  "cfg_int env name dflt lo hi =
     (case env name of
        None \<Rightarrow> dflt
      | Some raw \<Rightarrow>
          if py_strip raw = [] then dflt
          else case py_int_str (py_strip raw) of
            None \<Rightarrow> dflt
          | Some v \<Rightarrow> if v < lo \<or> hi < v then dflt else v)"

definition gate_config :: "environ \<Rightarrow> gate_cfg" where
  "gate_config env =
     (let cfg = \<lparr>warm_tokens = cfg_int env ''GLM53_MIXED_PREFILL_WARM_TOKENS'' 3584 0 1000000,
                 max_wait_ms = cfg_int env ''GLM53_MIXED_PREFILL_MAX_WAIT_MS'' 1500 0 600000,
                 late_cap = cfg_int env ''GLM53_MIXED_PREFILL_LATE_CAP'' 512 64 8192,
                 escalate_ms = cfg_int env ''GLM53_MIXED_PREFILL_ESCALATE_MS'' 0 0 600000,
                 late_cap_max = cfg_int env ''GLM53_MIXED_PREFILL_LATE_CAP_MAX'' 1792 64 8192\<rparr>
      in if late_cap_max cfg < late_cap cfg then cfg\<lparr>late_cap_max := late_cap cfg\<rparr> else cfg)"

text \<open>The dict a request carries; a missing key is \<open>None\<close>.\<close>

record gate_dict =
  first_seen :: "rat option"
  late_at :: "rat option"
  cap_now :: "int option"
  crawl_done :: bool
  last_computed :: "int option"
  capped_at :: "rat option"
  capped_s :: "rat option"

definition empty_dict :: gate_dict where
  "empty_dict = \<lparr>first_seen = None, late_at = None, cap_now = None, crawl_done = False, last_computed = None,
     capped_at = None, capped_s = None\<rparr>"

text \<open>A request: \<open>df_obj\<close> is \<open>id(request)\<close>; \<open>df_accepts\<close> says whether it takes new attributes.\<close>

record df_request =
  df_obj :: nat
  df_id :: "string option"
  df_num_tokens :: int
  df_computed :: int
  df_prompt :: int
  df_accepts :: bool
  df_state :: "gate_dict option"
  df_first_seen :: "rat option"

fun any_decoding :: "df_request list \<Rightarrow> df_request \<Rightarrow> bool" where
  "any_decoding [] current = False"
| "any_decoding (r # rs) current =
     (if df_obj r = df_obj current \<or> df_id r = df_id current then any_decoding rs current
      else if df_prompt r \<le> df_computed r then True
      else any_decoding rs current)"

definition mixed_prefill_policy :: "environ \<Rightarrow> df_request list \<Rightarrow> df_request \<Rightarrow> int option" where
  "mixed_prefill_policy env running current =
     (let raw = py_lower (py_strip (env_get env ''GLM53_MIXED_PREFILL_CHUNK'' ''skip''));
          scan = (\<lambda>cap. if any_decoding running current then Some cap else None)
      in if raw \<in> {''0'', ''off'', ''no''} then None
         else if raw \<in> {''skip'', ''-1''} then scan 0
         else let cap = (case py_int_str raw of None \<Rightarrow> 0 | Some v \<Rightarrow> v)
              in if cap \<le> 0 then None else scan cap)"

subsection \<open>The state of a request\<close>

text \<open>The fallback map, an insertion-ordered dict from \<open>id(request)\<close> to the request id and the state;
  \<open>None\<close> until it is first needed. The configuration is parsed once and then cached.\<close>

type_synonym 'v fallback = "(nat \<times> string option \<times> 'v) list option"

record gate_globals =
  gate_cached :: "gate_cfg option"
  gate_fallback :: "gate_dict fallback"

definition load_config :: "environ \<Rightarrow> gate_globals \<Rightarrow> gate_cfg \<times> gate_globals" where
  "load_config env g = (case gate_cached g of
      Some cfg \<Rightarrow> (cfg, g)
    | None \<Rightarrow> let cfg = gate_config env in (cfg, g\<lparr>gate_cached := Some cfg\<rparr>))"

definition dict_set :: "nat \<Rightarrow> 'v \<Rightarrow> (nat \<times> 'v) list \<Rightarrow> (nat \<times> 'v) list" where
  "dict_set k v m = (if k \<in> fst ` set m then map (\<lambda>e. if fst e = k then (k, v) else e) m else m @ [(k, v)])"

definition dict_pop :: "nat \<Rightarrow> (nat \<times> 'v) list \<Rightarrow> (nat \<times> 'v) list" where
  "dict_pop k m = filter (\<lambda>e. fst e \<noteq> k) m"

definition fallback_get :: "'v fallback \<Rightarrow> df_request \<Rightarrow> 'v option \<times> 'v fallback" where
  "fallback_get fb current =
     (case fb of
        None \<Rightarrow> (None, fb)
      | Some m \<Rightarrow>
          (case map_of m (df_obj current) of
             None \<Rightarrow> (None, fb)
           | Some (rid, st) \<Rightarrow>
               if rid \<noteq> df_id current then (None, Some (dict_pop (df_obj current) m)) else (Some st, fb)))"

definition fallback_put :: "'v fallback \<Rightarrow> df_request \<Rightarrow> 'v \<Rightarrow> 'v fallback" where
  "fallback_put fb current st =
     (let m = (case fb of None \<Rightarrow> [] | Some m \<Rightarrow> m);
          m = (if 4096 \<le> length m then drop 1024 m else m)
      in Some (dict_set (df_obj current) (df_id current, st) m))"

definition gate_state :: "gate_globals \<Rightarrow> df_request \<Rightarrow> bool \<Rightarrow> gate_dict option \<times> gate_globals \<times> df_request" where
  "gate_state g current create =
     (case (case df_state current of Some st \<Rightarrow> (Some st, g)
            | None \<Rightarrow> (case fallback_get (gate_fallback g) current of (st, fb) \<Rightarrow> (st, g\<lparr>gate_fallback := fb\<rparr>))) of
        (Some st, g) \<Rightarrow> (Some st, g, current)
      | (None, g) \<Rightarrow>
          if create
          then if df_accepts current then (Some empty_dict, g, current\<lparr>df_state := Some empty_dict\<rparr>)
               else (Some empty_dict, g\<lparr>gate_fallback := fallback_put (gate_fallback g) current empty_dict\<rparr>, current)
          else (None, g, current))"

text \<open>The dict is shared: an update of it is seen where it is kept, on the request or in the map.\<close>

definition keep_state :: "gate_dict \<Rightarrow> gate_globals \<Rightarrow> df_request \<Rightarrow> gate_globals \<times> df_request" where
  "keep_state st g current =
     (if df_state current \<noteq> None then (g, current\<lparr>df_state := Some st\<rparr>)
      else (g\<lparr>gate_fallback := map_option
               (map (\<lambda>e. if fst e = df_obj current then (fst e, fst (snd e), st) else e)) (gate_fallback g)\<rparr>, current))"

definition set_capped :: "gate_dict \<Rightarrow> rat \<Rightarrow> bool \<Rightarrow> gate_dict" where
  "set_capped st now active =
     (if late_at st = None then st
      else if active then (if capped_at st = None then st\<lparr>capped_at := Some now\<rparr> else st)
      else case capped_at st of
        None \<Rightarrow> st
      | Some t \<Rightarrow> st\<lparr>capped_s := Some ((case capped_s st of None \<Rightarrow> 0 | Some s \<Rightarrow> s) + max (now - t) 0), capped_at := None\<rparr>)"

subsection \<open>The gate\<close>

text \<open>What a call does to the state before the decision: a rollback ends the crawl, not the hold.\<close>

definition note_progress :: "bool \<Rightarrow> int \<Rightarrow> gate_dict \<Rightarrow> gate_dict" where
  "note_progress v31 nct st =
     (let st = (case last_computed st of
                  Some prev \<Rightarrow>
                    if nct < prev
                    then if v31 then st\<lparr>late_at := None, cap_now := None, crawl_done := False, capped_at := None, capped_s := None\<rparr>
                         else st\<lparr>late_at := None, cap_now := None, crawl_done := False\<rparr>
                    else st
                | None \<Rightarrow> st)
      in st\<lparr>last_computed := Some nct\<rparr>)"

text \<open>The late cap; \<open>x << n\<close> raises \<open>ValueError\<close> for a negative \<open>n\<close>.\<close>

definition doublings :: "gate_cfg \<Rightarrow> rat \<Rightarrow> rat \<Rightarrow> int" where
  "doublings cfg now t0 = min \<lfloor>(now - t0) * 1000 / of_int (escalate_ms cfg)\<rfloor> 8"

definition escalated :: "gate_cfg \<Rightarrow> rat \<Rightarrow> rat \<Rightarrow> int res" where
  "escalated cfg now t0 =
     (if 0 < escalate_ms cfg
      then if doublings cfg now t0 < 0 then Inl ValueError
           else Inr (min (late_cap_max cfg) (late_cap cfg * 2 ^ nat (doublings cfg now t0)))
      else Inr (late_cap cfg))"

definition late_step :: "bool \<Rightarrow> gate_cfg \<Rightarrow> rat \<Rightarrow> int \<Rightarrow> int \<Rightarrow> gate_dict \<Rightarrow> (int option \<times> gate_dict) res" where
  "late_step v31 cfg now remaining cap st =
     (let seen = (case first_seen st of None \<Rightarrow> now | Some t \<Rightarrow> t);
          st = st\<lparr>first_seen := Some seen\<rparr>;
          waited_ms = (now - seen) * 1000
      in if waited_ms < of_int (max_wait_ms cfg) then Inr (Some cap, st)
         else let t0 = (case late_at st of None \<Rightarrow> now | Some t \<Rightarrow> t);
                  st = st\<lparr>late_at := Some t0\<rparr>
              in res_bind (escalated cfg now t0) (\<lambda>c.
                   let st = st\<lparr>cap_now := Some c\<rparr>;
                       st = (if v31 then set_capped st now True else st)
                   in Inr (Some (max (min c remaining) 1), st)))"

text \<open>The gate of v3 and v3.1; the flag selects the lines that \<open>_build_v31_helper\<close> adds.\<close>

definition mixed_prefill_gate :: "bool \<Rightarrow> environ \<Rightarrow> rat \<Rightarrow> gate_globals \<Rightarrow> df_request list \<Rightarrow> df_request \<Rightarrow> int
    \<Rightarrow> (int option \<times> gate_globals \<times> df_request) res" where
  "mixed_prefill_gate v31 env now g running current nct =
     (case load_config env g of
        (cfg, g) \<Rightarrow>
          let remaining = df_num_tokens current - nct
          in if remaining \<le> 0 then Inr (None, g, current)
             else case gate_state g current False of
               (sto, g, current) \<Rightarrow>
                 let sto = map_option (note_progress v31 nct) sto;
                     keep = (\<lambda>sto. case sto of None \<Rightarrow> (g, current) | Some st \<Rightarrow> keep_state st g current)
                 in if remaining \<le> warm_tokens cfg
                    then let fin = (\<lambda>st. if late_at st \<noteq> None \<and> \<not> crawl_done st
                                         then (if v31 then set_capped st now False else st)\<lparr>crawl_done := True\<rparr> else st)
                         in Inr (None, keep (map_option fin sto))
                    else case mixed_prefill_policy env running current of
                      None \<Rightarrow> Inr (None, keep (if v31 then map_option (\<lambda>st. set_capped st now False) sto else sto))
                    | Some cap \<Rightarrow>
                        if 0 < cap
                        then Inr (Some cap, keep (if v31 then map_option (\<lambda>st. set_capped st now False) sto else sto))
                        else if max_wait_ms cfg \<le> 0 then Inr (Some cap, keep sto)
                        else case (case sto of
                                     Some st \<Rightarrow> (st, g, current)
                                   | None \<Rightarrow> (case gate_state g current True of
                                       (new, g, current) \<Rightarrow>
                                         ((case new of None \<Rightarrow> empty_dict | Some st \<Rightarrow> st)\<lparr>last_computed := Some nct\<rparr>, g, current))) of
                          (st, g, current) \<Rightarrow>
                            res_bind (late_step v31 cfg now remaining cap st) (\<lambda>(r, st). Inr (r, keep_state st g current)))"

text \<open>The v2 gate: a first-seen stamp on the request, or in a weak-keyed map.\<close>

definition mixed_prefill_gate_v2 :: "environ \<Rightarrow> gate_cfg \<Rightarrow> rat \<Rightarrow> (nat \<rightharpoonup> rat) \<Rightarrow> df_request list \<Rightarrow> df_request \<Rightarrow> int
    \<Rightarrow> int option \<times> (nat \<rightharpoonup> rat) \<times> df_request" where
  "mixed_prefill_gate_v2 env cfg now weak running current nct =
     (let remaining = df_num_tokens current - nct
      in if remaining \<le> 0 then (None, weak, current)
         else if remaining \<le> warm_tokens cfg then (None, weak, current)
         else case mixed_prefill_policy env running current of
           None \<Rightarrow> (None, weak, current)
         | Some cap \<Rightarrow>
             if 0 < cap then (Some cap, weak, current)
             else if max_wait_ms cfg \<le> 0 then (Some cap, weak, current)
             else let old = (case df_first_seen current of Some t \<Rightarrow> Some t | None \<Rightarrow> weak (df_obj current));
                      seen = (case old of Some t \<Rightarrow> t | None \<Rightarrow> now);
                      current' = (if old = None \<and> df_accepts current then current\<lparr>df_first_seen := Some seen\<rparr> else current);
                      weak' = (if old = None \<and> \<not> df_accepts current then weak(df_obj current \<mapsto> seen) else weak)
                  in if of_int (max_wait_ms cfg) \<le> (now - seen) * 1000
                     then (Some (max (min (late_cap cfg) remaining) 1), weak', current')
                     else (Some cap, weak', current'))"

subsection \<open>The call sites\<close>

definition running_site :: "int \<Rightarrow> int \<Rightarrow> int \<Rightarrow> int \<Rightarrow> int option \<Rightarrow> int" where
  "running_site threshold num_new_tokens token_budget input_room mixed_cap =
     (let n = (if 0 < threshold \<and> threshold < num_new_tokens then threshold else num_new_tokens);
          n = min (min n token_budget) input_room
      in case mixed_cap of None \<Rightarrow> n | Some c \<Rightarrow> min n c)"

text \<open>\<open>None\<close>: the waiting request is skipped for this step.\<close>

definition waiting_site :: "int \<Rightarrow> int \<Rightarrow> int option \<Rightarrow> int option" where
  "waiting_site threshold num_new_tokens mixed_cap =
     (let n = (if 0 < threshold \<and> threshold < num_new_tokens then threshold else num_new_tokens)
      in case mixed_cap of
           None \<Rightarrow> Some n
         | Some c \<Rightarrow> if c \<le> 0 then None else Some (min n c))"


subsection \<open>Configuration bounds and the late cap\<close>

lemma cfg_int_bounds: "lo \<le> d \<Longrightarrow> d \<le> hi \<Longrightarrow> lo \<le> cfg_int env name d lo hi \<and> cfg_int env name d lo hi \<le> hi"
  by (auto simp: cfg_int_def split: option.splits)

definition cfg_ok :: "gate_cfg \<Rightarrow> bool" where
  "cfg_ok cfg \<longleftrightarrow> 0 \<le> warm_tokens cfg \<and> 0 \<le> max_wait_ms cfg \<and> 64 \<le> late_cap cfg \<and> late_cap cfg \<le> late_cap_max cfg
     \<and> late_cap_max cfg \<le> 8192 \<and> 0 \<le> escalate_ms cfg"

lemma gate_config_ok: "cfg_ok (gate_config env)"
  using cfg_int_bounds [of 0 3584 1000000 env "''GLM53_MIXED_PREFILL_WARM_TOKENS''"]
    cfg_int_bounds [of 0 1500 600000 env "''GLM53_MIXED_PREFILL_MAX_WAIT_MS''"]
    cfg_int_bounds [of 64 512 8192 env "''GLM53_MIXED_PREFILL_LATE_CAP''"]
    cfg_int_bounds [of 0 0 600000 env "''GLM53_MIXED_PREFILL_ESCALATE_MS''"]
    cfg_int_bounds [of 64 1792 8192 env "''GLM53_MIXED_PREFILL_LATE_CAP_MAX''"]
  by (simp add: gate_config_def cfg_ok_def Let_def)

lemma doublings_nonneg: "0 < escalate_ms cfg \<Longrightarrow> t0 \<le> now \<Longrightarrow> 0 \<le> doublings cfg now t0"
  by (simp add: doublings_def)

lemma doublings_mono:
  assumes "0 < escalate_ms cfg" and "now \<le> now'"
  shows "doublings cfg now t0 \<le> doublings cfg now' t0"
proof -
  have "(now - t0) * 1000 / of_int (escalate_ms cfg) \<le> (now' - t0) * 1000 / of_int (escalate_ms cfg)"
    using assms by (intro divide_right_mono mult_right_mono) auto
  then show ?thesis unfolding doublings_def by (intro min.mono floor_mono) auto
qed

lemma escalated_bounds:
  assumes "cfg_ok cfg" and "t0 \<le> now"
  shows "\<exists>c. escalated cfg now t0 = Inr c \<and> late_cap cfg \<le> c \<and> c \<le> late_cap_max cfg"
proof -
  have "late_cap cfg * 1 \<le> late_cap cfg * 2 ^ nat (doublings cfg now t0)"
    using assms(1) by (intro mult_left_mono) (auto simp: cfg_ok_def)
  with assms show ?thesis
    using doublings_nonneg [OF _ assms(2), of cfg] by (auto simp: escalated_def cfg_ok_def)
qed

lemma escalated_mono:
  assumes "cfg_ok cfg" and "now \<le> now'" and "escalated cfg now t0 = Inr c" and "escalated cfg now' t0 = Inr c'"
  shows "c \<le> c'"
proof (cases "0 < escalate_ms cfg")
  case False
  with assms(3,4) show ?thesis by (simp add: escalated_def)
next
  case True
  then have "(2 :: int) ^ nat (doublings cfg now t0) \<le> 2 ^ nat (doublings cfg now' t0)"
    using doublings_mono [OF True assms(2), of t0] by (intro power_increasing) auto
  then have "late_cap cfg * 2 ^ nat (doublings cfg now t0) \<le> late_cap cfg * 2 ^ nat (doublings cfg now' t0)"
    using assms(1) by (intro mult_left_mono) (auto simp: cfg_ok_def)
  then have "min (late_cap_max cfg) (late_cap cfg * 2 ^ nat (doublings cfg now t0))
      \<le> min (late_cap_max cfg) (late_cap cfg * 2 ^ nat (doublings cfg now' t0))" by (intro min.mono) auto
  with True assms(3,4) show ?thesis unfolding escalated_def by (simp split: if_splits)
qed

text \<open>The late cap. For every environment the gate configuration is within its bounds, and the cap of a
  late request never raises, starts at the configured floor, stays at or below the ceiling, and never
  shrinks as the crawl goes on.\<close>

theorem late_cap_escalates:
  assumes "t0 \<le> now" and "now \<le> now'"
  shows "cfg_ok (gate_config env) \<and> (\<exists>c c'. escalated (gate_config env) now t0 = Inr c \<and> escalated (gate_config env) now' t0 = Inr c'
      \<and> late_cap (gate_config env) \<le> c \<and> c \<le> c' \<and> c' \<le> late_cap_max (gate_config env))"
proof -
  note ok = gate_config_ok [of env]
  obtain c where c: "escalated (gate_config env) now t0 = Inr c" "late_cap (gate_config env) \<le> c"
    using escalated_bounds [OF ok assms(1)] by blast
  obtain c' where c': "escalated (gate_config env) now' t0 = Inr c'" "c' \<le> late_cap_max (gate_config env)"
    using escalated_bounds [OF ok order_trans [OF assms]] by blast
  from escalated_mono [OF ok assms(2) c(1) c'(1)] c c' ok show ?thesis by blast
qed

text \<open>A configuration with aging: the cap doubles every second.\<close>

definition demo_df_env :: environ where
  "demo_df_env name = (if name = ''GLM53_MIXED_PREFILL_ESCALATE_MS'' then Some ''1000'' else None)"

lemma demo_df_cfg: "gate_config demo_df_env =
   \<lparr>warm_tokens = 3584, max_wait_ms = 1500, late_cap = 512, escalate_ms = 1000, late_cap_max = 1792\<rparr>"
  by code_simp

theorem late_cap_escalates_witness:
  "\<exists>c c'. escalated (gate_config demo_df_env) (1 / 2) 0 = Inr c \<and> escalated (gate_config demo_df_env) 3 0 = Inr c'
     \<and> c = 512 \<and> c' = 1792 \<and> c \<le> c'"
proof -
  have "escalated (gate_config demo_df_env) (1 / 2) 0 = Inr 512" "escalated (gate_config demo_df_env) 3 0 = Inr 1792"
    unfolding demo_df_cfg by (simp_all add: escalated_def doublings_def)
  then show ?thesis using late_cap_escalates [of 0 "1 / 2" 3 demo_df_env] by simp
qed


subsection \<open>The decision on a request with a state\<close>

text \<open>What the gate does to the state of a request that has one.\<close>

definition decide :: "bool \<Rightarrow> gate_cfg \<Rightarrow> rat \<Rightarrow> int \<Rightarrow> int option \<Rightarrow> gate_dict \<Rightarrow> (int option \<times> gate_dict) res" where
  "decide v31 cfg now remaining pol st =
     (let uncap = (\<lambda>st. if v31 then set_capped st now False else st)
      in if remaining \<le> warm_tokens cfg
         then Inr (None, if late_at st \<noteq> None \<and> \<not> crawl_done st then (uncap st)\<lparr>crawl_done := True\<rparr> else st)
         else case pol of
           None \<Rightarrow> Inr (None, uncap st)
         | Some cap \<Rightarrow>
             if 0 < cap then Inr (Some cap, uncap st)
             else if max_wait_ms cfg \<le> 0 then Inr (Some cap, st)
             else late_step v31 cfg now remaining cap st)"

lemma gate_Some:
  assumes "load_config env g = (cfg, g1)" and "0 < df_num_tokens c - nct" and "gate_state g1 c False = (Some st, g2, c2)"
  shows "mixed_prefill_gate v31 env now g running c nct =
    res_bind (decide v31 cfg now (df_num_tokens c - nct) (mixed_prefill_policy env running c2) (note_progress v31 nct st))
      (\<lambda>(r, st). Inr (r, keep_state st g2 c2))"
  using assms by (simp add: mixed_prefill_gate_def decide_def Let_def split: option.splits)

lemma gate_None:
  assumes "load_config env g = (cfg, g1)" and "0 < df_num_tokens c - nct" and "gate_state g1 c False = (None, g2, c2)"
    and "gate_state g2 c2 True = (Some st, g3, c3)"
  shows "mixed_prefill_gate v31 env now g running c nct =
    (if df_num_tokens c - nct \<le> warm_tokens cfg then Inr (None, g2, c2)
     else case mixed_prefill_policy env running c2 of
       None \<Rightarrow> Inr (None, g2, c2)
     | Some cap \<Rightarrow>
         if 0 < cap \<or> max_wait_ms cfg \<le> 0 then Inr (Some cap, g2, c2)
         else res_bind (late_step v31 cfg now (df_num_tokens c - nct) cap (st\<lparr>last_computed := Some nct\<rparr>))
                (\<lambda>(r, st). Inr (r, keep_state st g3 c3)))"
  using assms by (simp add: mixed_prefill_gate_def Let_def split: option.splits)

lemma gate_state_create: "\<exists>st g' c'. gate_state g c True = (Some st, g', c')"
  by (cases "fallback_get (gate_fallback g) c") (auto simp: gate_state_def split: option.splits)

subsection \<open>The accounting of v3.1 changes no decision\<close>

definition erase :: "gate_dict \<Rightarrow> gate_dict" where
  "erase st = st\<lparr>capped_at := None, capped_s := None\<rparr>"

definition erase_fb :: "gate_dict fallback \<Rightarrow> gate_dict fallback" where
  "erase_fb = map_option (map (map_prod id (map_prod id erase)))"

definition erase_glob :: "gate_globals \<Rightarrow> gate_globals" where
  "erase_glob g = g\<lparr>gate_fallback := erase_fb (gate_fallback g)\<rparr>"

definition erase_req :: "df_request \<Rightarrow> df_request" where
  "erase_req r = r\<lparr>df_state := map_option erase (df_state r)\<rparr>"

named_theorems erase_simps \<open>the erasure commutes with the parts of the gate\<close>

lemma erase_sel [erase_simps, simp]:
  "late_at (erase st) = late_at st" "first_seen (erase st) = first_seen st" "cap_now (erase st) = cap_now st"
  "crawl_done (erase st) = crawl_done st" "last_computed (erase st) = last_computed st"
  by (simp_all add: erase_def)

lemma erase_upd [erase_simps]:
  "erase (st\<lparr>late_at := a\<rparr>) = (erase st)\<lparr>late_at := a\<rparr>" "erase (st\<lparr>first_seen := a\<rparr>) = (erase st)\<lparr>first_seen := a\<rparr>"
  "erase (st\<lparr>cap_now := c\<rparr>) = (erase st)\<lparr>cap_now := c\<rparr>" "erase (st\<lparr>crawl_done := d\<rparr>) = (erase st)\<lparr>crawl_done := d\<rparr>"
  "erase (st\<lparr>last_computed := n\<rparr>) = (erase st)\<lparr>last_computed := n\<rparr>" "erase empty_dict = empty_dict"
  by (simp_all add: erase_def empty_dict_def)

lemma erase_set_capped [erase_simps]: "erase (set_capped st now a) = erase st"
  by (simp add: set_capped_def erase_def split: option.splits)

lemma erase_note [erase_simps]: "erase (note_progress True n st) = note_progress False n (erase st)"
  by (simp add: note_progress_def Let_def erase_def split: option.splits)

lemma erase_late [erase_simps]:
  "late_step False cfg now rem cap (erase st) = map_sum id (map_prod id erase) (late_step True cfg now rem cap st)"
  by (cases "escalated cfg now (case late_at st of None \<Rightarrow> now | Some t \<Rightarrow> t)")
     (auto simp: late_step_def Let_def erase_simps split: option.splits)

lemma erase_req_sel [erase_simps, simp]:
  "df_obj (erase_req r) = df_obj r" "df_id (erase_req r) = df_id r" "df_num_tokens (erase_req r) = df_num_tokens r"
  "df_accepts (erase_req r) = df_accepts r" "df_state (erase_req r) = map_option erase (df_state r)"
  by (simp_all add: erase_req_def)

lemma erase_req_upd [erase_simps]: "erase_req (r\<lparr>df_state := s\<rparr>) = (erase_req r)\<lparr>df_state := map_option erase s\<rparr>"
  by (simp add: erase_req_def)

lemma any_decoding_cong: "df_obj c = df_obj c' \<Longrightarrow> df_id c = df_id c' \<Longrightarrow> any_decoding rs c = any_decoding rs c'"
  by (induction rs) simp_all

lemma policy_cong: "df_obj c = df_obj c' \<Longrightarrow> df_id c = df_id c' \<Longrightarrow> mixed_prefill_policy env rs c = mixed_prefill_policy env rs c'"
  using any_decoding_cong [of c c' rs] by (simp add: mixed_prefill_policy_def Let_def)

lemma erase_policy [erase_simps]: "mixed_prefill_policy env rs (erase_req r) = mixed_prefill_policy env rs r"
  by (rule policy_cong) simp_all

lemma map_of_erase: "map_of (map (map_prod id (map_prod id erase)) m) k = map_option (map_prod id erase) (map_of m k)"
  by (induction m) auto

lemma erase_fallback_get [erase_simps]:
  "fallback_get (erase_fb fb) (erase_req r) = map_prod (map_option erase) erase_fb (fallback_get fb r)"
  by (auto simp: fallback_get_def erase_fb_def map_of_erase dict_pop_def filter_map o_def split: option.splits)

lemma erase_fallback_put [erase_simps]:
  "fallback_put (erase_fb fb) (erase_req r) (erase st) = erase_fb (fallback_put fb r st)"
  by (cases fb) (auto simp: fallback_put_def erase_fb_def dict_set_def Let_def drop_map image_image intro!: image_eqI)

lemma erase_glob_sel [erase_simps]:
  "gate_cached (erase_glob g) = gate_cached g" "gate_fallback (erase_glob g) = erase_fb (gate_fallback g)"
  "(erase_glob g)\<lparr>gate_fallback := erase_fb fb\<rparr> = erase_glob (g\<lparr>gate_fallback := fb\<rparr>)"
  by (simp_all add: erase_glob_def)

lemma erase_gate_state [erase_simps]:
  "gate_state (erase_glob g) (erase_req r) create =
     (case gate_state g r create of (st, g, r) \<Rightarrow> (map_option erase st, erase_glob g, erase_req r))"
  using erase_fallback_put [of _ r empty_dict, unfolded erase_upd]
  by (cases "fallback_get (gate_fallback g) r"; cases "df_state r"; cases "fst (fallback_get (gate_fallback g) r)")
     (auto simp: gate_state_def erase_simps)

lemma erase_keep [erase_simps]:
  "keep_state (erase st) (erase_glob g) (erase_req r) = (case keep_state st g r of (g, r) \<Rightarrow> (erase_glob g, erase_req r))"
  by (cases "gate_fallback g") (auto simp: keep_state_def erase_glob_def erase_req_def erase_fb_def)

lemma erase_load [erase_simps]: "load_config env (erase_glob g) = (case load_config env g of (c, g) \<Rightarrow> (c, erase_glob g))"
  by (auto simp: load_config_def erase_glob_def Let_def split: option.splits)


definition erase_result :: "(int option \<times> gate_globals \<times> df_request) res \<Rightarrow> (int option \<times> gate_globals \<times> df_request) res" where
  "erase_result = map_sum id (\<lambda>(r, g, c). (r, erase_glob g, erase_req c))"

lemma erase_result_Inr [erase_simps]: "erase_result (Inr (r, g, c)) = Inr (r, erase_glob g, erase_req c)"
  by (simp add: erase_result_def)

lemma erase_keep_result [erase_simps]:
  "erase_result (Inr (r, keep_state st g c)) = Inr (r, keep_state (erase st) (erase_glob g) (erase_req c))"
  by (cases "keep_state st g c") (simp add: erase_simps)

lemma erase_decide [erase_simps]:
  "decide False cfg now rem pol (erase st) = map_sum id (map_prod id erase) (decide True cfg now rem pol st)"
  by (simp add: decide_def Let_def erase_simps split: option.splits)

lemma erase_bind [erase_simps]:
  "erase_result (res_bind d (\<lambda>(r, st). Inr (r, keep_state st g c))) =
     res_bind (map_sum id (map_prod id erase) d) (\<lambda>(r, st). Inr (r, keep_state st (erase_glob g) (erase_req c)))"
  by (cases d) (auto simp: erase_keep_result, simp add: erase_result_def)

text \<open>(C34) v3.1 only adds accounting. For every state, clock and queue, the v3.1 gate returns the cap of the v3
  gate (or raises with it) and leaves the same state, up to the two fields that measure the time spent
  under the late cap, also in the fallback map.\<close>

theorem v31_refines_v3:
  "mixed_prefill_gate False env now (erase_glob g) running (erase_req c) nct =
   erase_result (mixed_prefill_gate True env now g running c nct)"
proof -
  obtain cfg g1 where l: "load_config env g = (cfg, g1)" by (cases "load_config env g")
  then have el: "load_config env (erase_glob g) = (cfg, erase_glob g1)" by (simp add: erase_simps)
  obtain sto g2 c2 where st: "gate_state g1 c False = (sto, g2, c2)" by (metis prod_cases3)
  then have est: "gate_state (erase_glob g1) (erase_req c) False = (map_option erase sto, erase_glob g2, erase_req c2)"
    by (simp add: erase_simps)
  show ?thesis
  proof (cases "0 < df_num_tokens c - nct")
    case False
    then show ?thesis by (simp add: mixed_prefill_gate_def l el erase_simps)
  next
    case True
    then have ern: "0 < df_num_tokens (erase_req c) - nct" by simp
    show ?thesis
    proof (cases sto)
      case (Some s0)
      show ?thesis
        using gate_Some [OF l True st [unfolded Some]] gate_Some [OF el ern est [unfolded Some option.map]]
        by (simp add: erase_bind erase_decide [symmetric] erase_note erase_policy)
    next
      case None
      obtain new g3 c3 where nw: "gate_state g2 c2 True = (Some new, g3, c3)" using gate_state_create by blast
      then have enw: "gate_state (erase_glob g2) (erase_req c2) True = (Some (erase new), erase_glob g3, erase_req c3)"
        by (simp add: erase_simps)
      have "erase (new\<lparr>last_computed := Some nct\<rparr>) = (erase new)\<lparr>last_computed := Some nct\<rparr>" by (rule erase_upd)
      note el2 = erase_late [of cfg now _ _ "new\<lparr>last_computed := Some nct\<rparr>", unfolded this]
      show ?thesis
        using gate_None [OF l True st [unfolded None] nw] gate_None [OF el ern est [unfolded None option.map] enw]
        by (simp add: erase_simps el2 split: option.splits)
    qed
  qed
qed


subsection \<open>The deadline\<close>

text \<open>A request that keeps its state on itself, has been held since \<open>t0\<close>, and whose clock does not run
  backwards.\<close>

definition held_since :: "rat \<Rightarrow> rat \<Rightarrow> df_request \<Rightarrow> bool" where
  "held_since t0 now c \<longleftrightarrow> (\<exists>st. df_state c = Some st \<and> first_seen st = Some t0 \<and> (\<forall>t. late_at st = Some t \<longrightarrow> t \<le> now))"

lemma held_since_mono: "held_since t0 now c \<Longrightarrow> now \<le> now' \<Longrightarrow> held_since t0 now' c"
  by (fastforce simp: held_since_def)

lemma note_first_seen [simp]: "first_seen (note_progress v31 n st) = first_seen st"
  by (auto simp: note_progress_def Let_def split: option.splits if_splits)

lemma note_late_at: "late_at (note_progress v31 n st) = Some t \<Longrightarrow> late_at st = Some t"
  by (auto simp: note_progress_def Let_def split: option.splits if_splits)

lemma set_capped_sel [simp]: "first_seen (set_capped st now a) = first_seen st" "late_at (set_capped st now a) = late_at st"
  by (auto simp: set_capped_def split: option.splits)

text \<open>What the gate promises at a step where the policy holds the request: skip before the deadline, a
  cap between the floor and the ceiling after it.\<close>

definition deadline_cap :: "gate_cfg \<Rightarrow> rat \<Rightarrow> rat \<Rightarrow> int \<Rightarrow> int option \<Rightarrow> bool" where
  "deadline_cap cfg t0 now remaining r \<longleftrightarrow>
     (if (now - t0) * 1000 < of_int (max_wait_ms cfg) then r = Some 0
      else \<exists>c. r = Some c \<and> min (late_cap cfg) remaining \<le> c \<and> c \<le> min (late_cap_max cfg) remaining \<and> 1 \<le> c)"

lemma late_step_spec:
  assumes "cfg_ok cfg" and "case first_seen st of None \<Rightarrow> t0 = now | Some t \<Rightarrow> t0 = t" and "0 < remaining"
    and "\<forall>t. late_at st = Some t \<longrightarrow> t \<le> now"
  shows "\<exists>r st'. late_step v31 cfg now remaining 0 st = Inr (r, st') \<and> first_seen st' = Some t0
    \<and> (\<forall>t. late_at st' = Some t \<longrightarrow> t \<le> now) \<and> deadline_cap cfg t0 now remaining r"
proof -
  have seen: "(case first_seen st of None \<Rightarrow> now | Some t \<Rightarrow> t) = t0" using assms(2) by (auto split: option.splits)
  let ?at = "case late_at st of None \<Rightarrow> now | Some t \<Rightarrow> t"
  have "?at \<le> now" using assms(4) by (auto split: option.splits)
  then obtain c where c: "escalated cfg now ?at = Inr c" "late_cap cfg \<le> c" "c \<le> late_cap_max cfg"
    using escalated_bounds [OF assms(1)] by blast
  then show ?thesis
    using assms(1,3,4) \<open>?at \<le> now\<close> by (auto simp: late_step_def seen Let_def deadline_cap_def cfg_ok_def)
qed

lemma decide_keeps:
  assumes "cfg_ok cfg" and "0 < remaining" and "first_seen st = Some t0" and "\<forall>t. late_at st = Some t \<longrightarrow> t \<le> now"
    and "pol = None \<or> pol = Some cap \<and> 0 \<le> cap"
  shows "\<exists>r st'. decide v31 cfg now remaining pol st = Inr (r, st') \<and> first_seen st' = Some t0
    \<and> (\<forall>t. late_at st' = Some t \<longrightarrow> t \<le> now)
    \<and> (warm_tokens cfg < remaining \<and> pol = Some 0 \<and> 0 < max_wait_ms cfg \<longrightarrow> deadline_cap cfg t0 now remaining r)"
proof (cases "remaining \<le> warm_tokens cfg \<or> pol \<noteq> Some 0 \<or> max_wait_ms cfg \<le> 0")
  case True
  with assms(3,4,5) show ?thesis by (auto simp: decide_def Let_def)
next
  case False
  with late_step_spec [OF assms(1) _ assms(2,4), of t0 v31] assms(3) show ?thesis by (simp add: decide_def)
qed


lemma policy_nonneg: "mixed_prefill_policy env rs c = Some cap \<Longrightarrow> 0 \<le> cap"
  by (auto simp: mixed_prefill_policy_def Let_def split: if_splits)

text \<open>A step of the scheduler as the gate sees it: clock, running requests, length of the request and computed
  tokens. The policy holds the request at a step with a decoding peer and more than the bypass left.\<close>

type_synonym gate_event = "rat \<times> df_request list \<times> int \<times> int"

definition held_at :: "environ \<Rightarrow> gate_cfg \<Rightarrow> df_request \<Rightarrow> gate_event \<Rightarrow> bool" where
  "held_at env cfg c = (\<lambda>(now, running, n, nct). warm_tokens cfg < n - nct \<and> 0 < n - nct
     \<and> mixed_prefill_policy env running c = Some 0)"

lemma held_at_cong: "df_obj c = df_obj c' \<Longrightarrow> df_id c = df_id c' \<Longrightarrow> held_at env cfg c e = held_at env cfg c' e"
  using policy_cong [of c c' env] by (simp add: held_at_def split: prod.splits)

lemma load_cached: "load_config env g = (cfg, g1) \<Longrightarrow> gate_cached g1 = Some cfg \<and> load_config env g1 = (cfg, g1)"
  by (auto simp: load_config_def Let_def split: option.splits)

lemma load_config_ok: "gate_cached g = None \<or> gate_cached g = Some (gate_config env) \<Longrightarrow> fst (load_config env g) = gate_config env"
  by (auto simp: load_config_def Let_def)

lemma gate_keeps_hold:
  assumes "held_since t0 now c" and "cfg = gate_config env" and "gate_cached g = Some cfg" and "0 < max_wait_ms cfg"
  shows "\<exists>r g' c'. mixed_prefill_gate True env now g running c nct = Inr (r, g', c') \<and> held_since t0 now c'
    \<and> gate_cached g' = Some cfg \<and> df_obj c' = df_obj c \<and> df_id c' = df_id c
    \<and> (held_at env cfg c (now, running, df_num_tokens c, nct) \<longrightarrow> deadline_cap cfg t0 now (df_num_tokens c - nct) r)"
proof -
  from assms(3) have l: "load_config env g = (cfg, g)" by (simp add: load_config_def)
  from assms(1) obtain st where st: "df_state c = Some st" "first_seen st = Some t0" "\<forall>t. late_at st = Some t \<longrightarrow> t \<le> now"
    by (auto simp: held_since_def)
  show ?thesis
  proof (cases "0 < df_num_tokens c - nct")
    case False
    with l assms(1,3) show ?thesis by (simp add: mixed_prefill_gate_def held_at_def)
  next
    case True
    have gs: "gate_state g c False = (Some st, g, c)" using st(1) by (simp add: gate_state_def)
    let ?pol = "mixed_prefill_policy env running c"
    have "\<forall>t. late_at (note_progress True nct st) = Some t \<longrightarrow> t \<le> now" using st(3) note_late_at by blast
    moreover have "?pol = None \<or> (\<exists>cap. ?pol = Some cap \<and> 0 \<le> cap)" using policy_nonneg by (cases ?pol) auto
    ultimately obtain r st' where d: "decide True cfg now (df_num_tokens c - nct) ?pol (note_progress True nct st) = Inr (r, st')"
        "first_seen st' = Some t0" "\<forall>t. late_at st' = Some t \<longrightarrow> t \<le> now"
        "warm_tokens cfg < df_num_tokens c - nct \<and> ?pol = Some 0 \<and> 0 < max_wait_ms cfg \<longrightarrow> deadline_cap cfg t0 now (df_num_tokens c - nct) r"
      using decide_keeps [of cfg "df_num_tokens c - nct" "note_progress True nct st" t0 now ?pol _ True] True st(2)
        gate_config_ok [of env] assms(2) by fastforce
    have "mixed_prefill_gate True env now g running c nct = Inr (r, g, c\<lparr>df_state := Some st'\<rparr>)"
      using st(1) by (simp add: gate_Some [OF l True gs] d(1) keep_state_def)
    with d assms(3,4) show ?thesis by (auto simp: held_since_def held_at_def)
  qed
qed

text \<open>
  The process: the globals of the module and the request objects by address. In any order, new
  objects take an address over and the gate is called for some object; the caller supplies the
  clock, the running requests, the length of the request and its computed tokens.
\<close>

record gate_world =
  gw_glob :: gate_globals
  gw_reqs :: "nat \<Rightarrow> df_request"

datatype gate_call = Arrive df_request | Gate rat nat "df_request list" int int

definition gate_start :: "(nat \<Rightarrow> df_request) \<Rightarrow> gate_world" where
  "gate_start reqs = \<lparr>gw_glob = \<lparr>gate_cached = None, gate_fallback = None\<rparr>,
     gw_reqs = (\<lambda>a. (reqs a)\<lparr>df_obj := a, df_state := None, df_first_seen := None\<rparr>)\<rparr>"

fun gate_run :: "environ \<Rightarrow> gate_world \<Rightarrow> gate_call list \<Rightarrow> (int option list \<times> gate_world) res" where
  "gate_run env w [] = Inr ([], w)"
| "gate_run env w (Arrive c # es) =
     res_bind (gate_run env (w\<lparr>gw_reqs := (gw_reqs w)(df_obj c := c\<lparr>df_state := None, df_first_seen := None\<rparr>)\<rparr>) es) (\<lambda>(rs, w).
     Inr (None # rs, w))"
| "gate_run env w (Gate now a running n nct # es) =
     res_bind (mixed_prefill_gate True env now (gw_glob w) running ((gw_reqs w a)\<lparr>df_num_tokens := n\<rparr>) nct) (\<lambda>(r, g, c).
     res_bind (gate_run env \<lparr>gw_glob = g, gw_reqs = (gw_reqs w)(a := c)\<rparr> es) (\<lambda>(rs, w).
     Inr (r # rs, w)))"

fun call_times :: "gate_call list \<Rightarrow> rat list" where
  "call_times [] = []"
| "call_times (Arrive c # es) = call_times es"
| "call_times (Gate now a running n nct # es) = now # call_times es"

definition replaced :: "nat \<Rightarrow> gate_call list \<Rightarrow> bool" where
  "replaced a es = list_ex (\<lambda>e. case e of Arrive c \<Rightarrow> df_obj c = a | _ \<Rightarrow> False) es"

text \<open>What is promised of a call: for the request \<open>c\<close>, the deadline counted from \<open>t0\<close>.\<close>

definition call_ok :: "environ \<Rightarrow> gate_cfg \<Rightarrow> df_request \<Rightarrow> rat \<Rightarrow> gate_call \<Rightarrow> int option \<Rightarrow> bool" where
  "call_ok env cfg c t0 e r =
     (case e of
        Arrive _ \<Rightarrow> True
      | Gate now a running n nct \<Rightarrow>
          a = df_obj c \<and> held_at env cfg c (now, running, n, nct) \<longrightarrow> deadline_cap cfg t0 now (n - nct) r)"

subsubsection \<open>No call raises\<close>

definition stamped :: "rat \<Rightarrow> gate_dict \<Rightarrow> bool" where
  "stamped now st \<longleftrightarrow> (\<forall>t. late_at st = Some t \<longrightarrow> t \<le> now)"

definition fb_vals :: "gate_dict fallback \<Rightarrow> gate_dict set" where
  "fb_vals fb = (case fb of None \<Rightarrow> {} | Some m \<Rightarrow> (\<lambda>e. snd (snd e)) ` set m)"

abbreviation fb_states :: "gate_globals \<Rightarrow> gate_dict set" where
  "fb_states g \<equiv> fb_vals (gate_fallback g)"

lemma stamped_empty [simp]: "stamped now empty_dict"
  by (simp add: stamped_def empty_dict_def)

lemma stamped_note: "stamped now st \<Longrightarrow> stamped now (note_progress v31 n st)"
  unfolding stamped_def using note_late_at by blast

lemma stamped_mono: "stamped now st \<Longrightarrow> now \<le> now' \<Longrightarrow> stamped now' st"
  unfolding stamped_def by (meson order_trans)

lemma dict_set_subset: "set (dict_set k v m) \<subseteq> insert (k, v) (set m)"
  by (auto simp: dict_set_def)

lemma fallback_get_states:
  assumes "fallback_get fb c = (sto, fb')"
  shows "fb_vals fb' \<subseteq> fb_vals fb" and "set_option sto \<subseteq> fb_vals fb"
proof -
  show "fb_vals fb' \<subseteq> fb_vals fb"
    using assms by (auto simp: fallback_get_def fb_vals_def dict_pop_def split: option.splits if_splits)
  show "set_option sto \<subseteq> fb_vals fb"
    using assms by (force simp: fallback_get_def fb_vals_def dest: map_of_SomeD split: option.splits if_splits)
qed

lemma fallback_put_states: "fb_vals (fallback_put fb c st) \<subseteq> insert st (fb_vals fb)"
proof -
  define m d where "m = (case fb of None \<Rightarrow> [] | Some m \<Rightarrow> m)" and "d = (if 4096 \<le> length m then drop 1024 m else m)"
  have "fallback_put fb c st = Some (dict_set (df_obj c) (df_id c, st) d)"
    by (simp only: fallback_put_def Let_def m_def d_def)
  then have "fb_vals (fallback_put fb c st) \<subseteq> insert st ((\<lambda>e. snd (snd e)) ` set d)"
    using dict_set_subset [of "df_obj c" "(df_id c, st)" d] by (auto simp: fb_vals_def)
  moreover have "set d \<subseteq> set m"
    using set_drop_subset [of 1024 m] by (simp add: d_def)
  moreover have "(\<lambda>e. snd (snd e)) ` set m \<subseteq> fb_vals fb"
    by (cases fb) (simp_all add: m_def fb_vals_def)
  ultimately show ?thesis
    by blast
qed

lemma gate_state_frame:
  assumes "gate_state g c create = (sto, g', c')"
  shows "fb_states g' \<subseteq> insert empty_dict (fb_states g)" "gate_cached g' = gate_cached g"
    "set_option sto \<subseteq> insert empty_dict (fb_states g \<union> set_option (df_state c))"
    "c' = c \<or> c' = c\<lparr>df_state := Some empty_dict\<rparr>"
proof -
  obtain s fb where fg: "fallback_get (gate_fallback g) c = (s, fb)" by (cases "fallback_get (gate_fallback g) c")
  note F = fallback_get_states [OF fg] fallback_put_states [of fb c empty_dict]
  show "fb_states g' \<subseteq> insert empty_dict (fb_states g)"
    using assms F by (auto simp: gate_state_def fg split: option.splits if_splits)
  show "set_option sto \<subseteq> insert empty_dict (fb_states g \<union> set_option (df_state c))"
    using assms F(2) by (auto simp: gate_state_def fg split: option.splits if_splits)
  show "gate_cached g' = gate_cached g" "c' = c \<or> c' = c\<lparr>df_state := Some empty_dict\<rparr>"
    using assms by (auto simp: gate_state_def fg split: option.splits if_splits)
qed

lemma keep_state_frame:
  assumes "keep_state st g c = (g', c')"
  shows "fb_states g' \<subseteq> insert st (fb_states g)" "gate_cached g' = gate_cached g" "c' = c \<or> c' = c\<lparr>df_state := Some st\<rparr>"
proof -
  show "fb_states g' \<subseteq> insert st (fb_states g)"
    using assms by (cases "gate_fallback g") (force simp: keep_state_def fb_vals_def split: if_splits)+
  show "gate_cached g' = gate_cached g" "c' = c \<or> c' = c\<lparr>df_state := Some st\<rparr>"
    using assms by (auto simp: keep_state_def split: if_splits)
qed

text \<open>Every state that a call can meet carries stamps of the past.\<close>

definition call_safe :: "rat \<Rightarrow> gate_globals \<Rightarrow> df_request \<Rightarrow> bool" where
  "call_safe now g c \<longleftrightarrow> (\<forall>st \<in> fb_states g \<union> set_option (df_state c). stamped now st)"

lemma late_step_total:
  assumes "cfg_ok cfg" "0 < remaining" "stamped now st"
  shows "\<exists>r st'. late_step v31 cfg now remaining 0 st = Inr (r, st') \<and> stamped now st'"
  using late_step_spec [OF assms(1) _ assms(2), of "case first_seen st of None \<Rightarrow> now | Some t \<Rightarrow> t" now st v31] assms(3)
  by (cases "first_seen st") (auto simp: stamped_def)

lemma decide_total:
  assumes "cfg_ok cfg" "0 < remaining" "stamped now st" "\<And>cap. pol = Some cap \<Longrightarrow> 0 \<le> cap"
  shows "\<exists>r st'. decide v31 cfg now remaining pol st = Inr (r, st') \<and> stamped now st'"
proof (cases "remaining \<le> warm_tokens cfg \<or> pol \<noteq> Some 0 \<or> max_wait_ms cfg \<le> 0")
  case True
  with assms(3,4) show ?thesis by (cases pol) (auto simp: decide_def Let_def stamped_def)
next
  case False
  with late_step_total [OF assms(1-3), of v31] show ?thesis by (simp add: decide_def)
qed

lemma kept_safe:
  assumes "call_safe now g c" "stamped now st" "keep_state st g c = (g', c')"
  shows "call_safe now g' c'"
  using keep_state_frame [OF assms(3)] assms(1,2) by (auto simp: call_safe_def)

lemma state_safe:
  assumes "call_safe now g c" "gate_state g c create = (sto, g', c')"
  shows "call_safe now g' c'" "sto = Some st \<Longrightarrow> stamped now st"
proof -
  note F = gate_state_frame [OF assms(2)]
  show "call_safe now g' c'"
    using F(1,4) assms(1) unfolding call_safe_def by auto
  show "sto = Some st \<Longrightarrow> stamped now st"
    using F(3) assms(1) unfolding call_safe_def by auto
qed

lemma gate_total:
  assumes "call_safe now g c" and "gate_cached g = None \<or> gate_cached g = Some (gate_config env)"
  shows "\<exists>r g' c'. mixed_prefill_gate True env now g running c nct = Inr (r, g', c') \<and> call_safe now g' c'
    \<and> gate_cached g' = Some (gate_config env) \<and> df_obj c' = df_obj c"
proof -
  define cfg where "cfg = gate_config env"
  obtain g1 where l: "load_config env g = (cfg, g1)" and g1: "gate_cached g1 = Some cfg" "call_safe now g1 c"
    using assms by (auto simp: load_config_def cfg_def call_safe_def Let_def)
  show ?thesis
  proof (cases "0 < df_num_tokens c - nct")
    case False
    with l g1 show ?thesis by (simp add: mixed_prefill_gate_def cfg_def)
  next
    case True
    obtain sto g2 c2 where gs: "gate_state g1 c False = (sto, g2, c2)" by (metis prod_cases3)
    note S = state_safe [OF g1(2) gs] and F = gate_state_frame [OF gs]
    let ?rem = "df_num_tokens c - nct"
    have cok: "cfg_ok cfg" by (simp add: cfg_def gate_config_ok)
    show ?thesis
    proof (cases sto)
      case (Some st)
      have "stamped now (note_progress True nct st)" using S(2) [OF Some] by (rule stamped_note)
      then obtain r st' where d: "decide True cfg now ?rem (mixed_prefill_policy env running c2) (note_progress True nct st) = Inr (r, st')"
          "stamped now st'"
        using decide_total [OF cok True, of now _ "mixed_prefill_policy env running c2"] policy_nonneg by blast
      obtain g' c' where k: "keep_state st' g2 c2 = (g', c')" by fastforce
      from kept_safe [OF S(1) d(2) k] keep_state_frame(2,3) [OF k] F(2,4) g1(1) show ?thesis
        using gate_Some [OF l True gs [unfolded Some], of True now running] d(1) k by (auto simp: cfg_def)
    next
      case None
      obtain new g3 c3 where nw: "gate_state g2 c2 True = (Some new, g3, c3)" using gate_state_create by blast
      note S3 = state_safe [OF S(1) nw] and F3 = gate_state_frame [OF nw]
      note gate = gate_None [OF l True gs [unfolded None] nw, of True now running]
      show ?thesis
      proof (cases "?rem \<le> warm_tokens cfg \<or> mixed_prefill_policy env running c2 \<noteq> Some 0 \<or> max_wait_ms cfg \<le> 0")
        case True
        with S(1) F(2,4) g1(1) policy_nonneg [of env running c2] show ?thesis
          unfolding gate by (auto simp: cfg_def split: option.splits)
      next
        case False
        have "stamped now (new\<lparr>last_computed := Some nct\<rparr>)" using S3(2) by (simp add: stamped_def)
        then obtain r st' where d: "late_step True cfg now ?rem 0 (new\<lparr>last_computed := Some nct\<rparr>) = Inr (r, st')" "stamped now st'"
          using late_step_total [OF cok True] by blast
        obtain g' c' where k: "keep_state st' g3 c3 = (g', c')" by fastforce
        from kept_safe [OF S3(1) d(2) k] keep_state_frame(2,3) [OF k] F(2,4) F3(2,4) g1(1) show ?thesis
          unfolding gate using False d(1) k by (auto simp: cfg_def)
      qed
    qed
  qed
qed

text \<open>The invariant of the process between calls, and that every run of calls on a clock that does not run
  backwards returns.\<close>

definition world_ok :: "environ \<Rightarrow> rat \<Rightarrow> gate_world \<Rightarrow> bool" where
  "world_ok env now w \<longleftrightarrow> (\<forall>a. df_obj (gw_reqs w a) = a \<and> call_safe now (gw_glob w) (gw_reqs w a))
     \<and> (gate_cached (gw_glob w) = None \<or> gate_cached (gw_glob w) = Some (gate_config env))"

lemma call_safe_mono: "call_safe now g c \<Longrightarrow> now \<le> now' \<Longrightarrow> call_safe now' g c"
  using stamped_mono unfolding call_safe_def by blast

lemma world_ok_mono: "world_ok env now w \<Longrightarrow> now \<le> now' \<Longrightarrow> world_ok env now' w"
  using call_safe_mono unfolding world_ok_def by blast

lemma call_safe_resized [simp]: "call_safe now g (c\<lparr>df_num_tokens := n\<rparr>) = call_safe now g c"
  by (simp add: call_safe_def)

lemma world_ok_start: "world_ok env now (gate_start reqs)"
  by (simp add: world_ok_def gate_start_def call_safe_def fb_vals_def)

lemma world_ok_arrive:
  "world_ok env now w \<Longrightarrow> world_ok env now (w\<lparr>gw_reqs := (gw_reqs w)(df_obj c := c\<lparr>df_state := None, df_first_seen := None\<rparr>)\<rparr>)"
  by (auto simp: world_ok_def call_safe_def)

lemma world_ok_call:
  assumes "world_ok env now w"
  obtains r g c where "mixed_prefill_gate True env now (gw_glob w) running ((gw_reqs w a)\<lparr>df_num_tokens := n\<rparr>) nct = Inr (r, g, c)"
    and "world_ok env now \<lparr>gw_glob = g, gw_reqs = (gw_reqs w)(a := c)\<rparr>"
proof -
  let ?c = "(gw_reqs w a)\<lparr>df_num_tokens := n\<rparr>"
  have safe: "call_safe now (gw_glob w) ?c" and cached: "gate_cached (gw_glob w) = None \<or> gate_cached (gw_glob w) = Some (gate_config env)"
    using assms by (simp_all add: world_ok_def)
  obtain r g c where R: "mixed_prefill_gate True env now (gw_glob w) running ?c nct = Inr (r, g, c)" "call_safe now g c"
      "gate_cached g = Some (gate_config env)" "df_obj c = df_obj ?c"
    using gate_total [OF safe cached, of running nct] by blast
  have "call_safe now g (gw_reqs w b)" for b
    using R(2) assms unfolding world_ok_def call_safe_def by auto
  then have "world_ok env now \<lparr>gw_glob = g, gw_reqs = (gw_reqs w)(a := c)\<rparr>"
    using R assms by (auto simp: world_ok_def)
  with R(1) that show thesis by blast
qed

lemma gate_run_total:
  assumes "world_ok env now w" and "sorted (now # call_times es)"
  shows "\<exists>rs w'. gate_run env w es = Inr (rs, w') \<and> world_ok env (last (now # call_times es)) w'"
  using assms
proof (induction es arbitrary: now w)
  case (Cons e es)
  show ?case
  proof (cases e)
    case (Arrive c)
    with Cons.IH [OF world_ok_arrive [OF Cons.prems(1), of c]] Cons.prems(2) show ?thesis by fastforce
  next
    case (Gate t a running n nct)
    with Cons.prems have t: "world_ok env t w" "sorted (t # call_times es)" using world_ok_mono by auto
    from world_ok_call [OF t(1), of running n a nct] obtain r g c where
      s: "mixed_prefill_gate True env t (gw_glob w) running ((gw_reqs w a)\<lparr>df_num_tokens := n\<rparr>) nct = Inr (r, g, c)"
        "world_ok env t \<lparr>gw_glob = g, gw_reqs = (gw_reqs w)(a := c)\<rparr>" by blast
    from Cons.IH [OF s(2) t(2)] s(1) Gate show ?thesis by fastforce
  qed
qed simp

subsubsection \<open>The request that is held\<close>

lemma call_ok_cong: "df_obj c = df_obj c' \<Longrightarrow> df_id c = df_id c' \<Longrightarrow> call_ok env cfg c = call_ok env cfg c'"
  using held_at_cong [of c c' env cfg] by (intro ext) (simp add: call_ok_def split: gate_call.splits)

lemma call_ok_Arrive [simp]: "call_ok env cfg c t0 (Arrive d) r"
  by (simp add: call_ok_def)

lemma gate_run_deadline:
  assumes "world_ok env now w" and "sorted (now # call_times es)" and "held_since t0 now (gw_reqs w a)"
    and "gate_cached (gw_glob w) = Some (gate_config env)" and "0 < max_wait_ms (gate_config env)" and "\<not> replaced a es"
  shows "\<exists>rs w'. gate_run env w es = Inr (rs, w') \<and> list_all2 (call_ok env (gate_config env) (gw_reqs w a) t0) es rs"
  using assms
proof (induction es arbitrary: now w)
  case (Cons e es)
  let ?cfg = "gate_config env"
  show ?case
  proof (cases e)
    case (Arrive c)
    with Cons.prems(6) have ne: "df_obj c \<noteq> a" "\<not> replaced a es" by (simp_all add: replaced_def)
    from Cons.IH [OF world_ok_arrive [OF Cons.prems(1), of c]] Cons.prems(2-5) ne Arrive
    obtain rs w' where "gate_run env (w\<lparr>gw_reqs := (gw_reqs w)(df_obj c := c\<lparr>df_state := None, df_first_seen := None\<rparr>)\<rparr>) es = Inr (rs, w')"
      "list_all2 (call_ok env ?cfg (gw_reqs w a) t0) es rs" by auto
    with Arrive show ?thesis by simp
  next
    case (Gate t b running n nct)
    with Cons.prems have t: "now \<le> t" "world_ok env t w" "sorted (t # call_times es)" "\<not> replaced a es"
      using world_ok_mono by (auto simp: replaced_def)
    from world_ok_call [OF t(2), of running n b nct] obtain r g c where
      s: "mixed_prefill_gate True env t (gw_glob w) running ((gw_reqs w b)\<lparr>df_num_tokens := n\<rparr>) nct = Inr (r, g, c)"
        "world_ok env t \<lparr>gw_glob = g, gw_reqs = (gw_reqs w)(b := c)\<rparr>" by blast
    let ?w = "\<lparr>gw_glob = g, gw_reqs = (gw_reqs w)(b := c)\<rparr>"
    have held: "held_since t0 t (gw_reqs w a)" using held_since_mono [OF Cons.prems(3) t(1)] .
    have step: "held_since t0 t (gw_reqs ?w a) \<and> gate_cached g = Some ?cfg \<and> df_obj (gw_reqs ?w a) = df_obj (gw_reqs w a)
        \<and> df_id (gw_reqs ?w a) = df_id (gw_reqs w a) \<and> call_ok env ?cfg (gw_reqs w a) t0 e r"
    proof (cases "b = a")
      case True
      let ?c = "(gw_reqs w a)\<lparr>df_num_tokens := n\<rparr>"
      have "held_since t0 t ?c" using held by (simp add: held_since_def)
      from gate_keeps_hold [OF this refl Cons.prems(4,5), of running nct] s(1) True
      have "held_since t0 t c \<and> gate_cached g = Some ?cfg \<and> df_obj c = df_obj ?c \<and> df_id c = df_id ?c
        \<and> (held_at env ?cfg ?c (t, running, n, nct) \<longrightarrow> deadline_cap ?cfg t0 t (n - nct) r)" by auto
      with True Gate held_at_cong [of ?c "gw_reqs w a"] show ?thesis by (simp add: call_ok_def)
    next
      case False
      have "df_obj (gw_reqs w a) = a" using t(2) by (simp add: world_ok_def)
      moreover have "gate_cached g = Some ?cfg"
        using gate_total [of t "gw_glob w" "(gw_reqs w b)\<lparr>df_num_tokens := n\<rparr>" env running nct] s(1) t(2) by (auto simp: world_ok_def)
      ultimately show ?thesis using False held Gate by (simp add: call_ok_def)
    qed
    from Cons.IH [OF s(2) t(3)] step Cons.prems(5) t(4) obtain rs w' where
      IH: "gate_run env ?w es = Inr (rs, w')" "list_all2 (call_ok env ?cfg (gw_reqs ?w a) t0) es rs" by auto
    have "call_ok env ?cfg (gw_reqs ?w a) = call_ok env ?cfg (gw_reqs w a)" using step by (intro call_ok_cong) simp_all
    with IH s(1) step Gate show ?thesis by simp
  qed
qed simp

lemma first_hold:
  assumes "fst (gate_state g c False) = None" and "df_accepts c"
    and "gate_cached g = None \<or> gate_cached g = Some (gate_config env)" and "0 < max_wait_ms (gate_config env)"
    and "held_at env (gate_config env) c (t0, running, df_num_tokens c, nct)"
  shows "\<exists>g' c'. mixed_prefill_gate True env t0 g running c nct = Inr (Some 0, g', c') \<and> held_since t0 t0 c'
    \<and> gate_cached g' = Some (gate_config env) \<and> df_obj c' = df_obj c \<and> df_id c' = df_id c"
proof -
  let ?cfg = "gate_config env"
  define g1 where "g1 = snd (load_config env g)"
  have l: "load_config env g = (?cfg, g1)" and g1: "gate_cached g1 = Some ?cfg" "gate_fallback g1 = gate_fallback g"
    using assms(3) by (auto simp: g1_def load_config_def Let_def)
  have h: "warm_tokens ?cfg < df_num_tokens c - nct" "0 < df_num_tokens c - nct" "mixed_prefill_policy env running c = Some 0"
    using assms(5) by (auto simp: held_at_def)
  obtain fb where none: "df_state c = None" "fallback_get (gate_fallback g) c = (None, fb)"
    using assms(1) by (cases "fallback_get (gate_fallback g) c") (auto simp: gate_state_def split: option.splits)
  let ?g2 = "g1\<lparr>gate_fallback := fb\<rparr>" and ?c2 = "c\<lparr>df_state := Some empty_dict\<rparr>"
  have a: "gate_state g1 c False = (None, ?g2, c)"
    using none g1(2) by (simp add: gate_state_def)
  have "fst (fallback_get fb c) = None"
  proof (cases "fb = gate_fallback g")
    case False
    then have "\<exists>m. fb = Some (dict_pop (df_obj c) m)"
      using none(2) by (auto simp: fallback_get_def split: option.splits if_splits)
    then obtain m where fb: "fb = Some (dict_pop (df_obj c) m)" ..
    have "map_of (dict_pop (df_obj c) m) (df_obj c) = None"
      unfolding dict_pop_def map_of_eq_None_iff by auto
    then show ?thesis by (simp add: fb fallback_get_def)
  qed (simp add: none(2))
  then obtain fb2 where fb2: "fallback_get fb c = (None, fb2)" by (cases "fallback_get fb c") auto
  have b: "gate_state ?g2 c True = (Some empty_dict, ?g2\<lparr>gate_fallback := fb2\<rparr>, ?c2)"
    using none(1) assms(2) fb2 by (simp add: gate_state_def)
  let ?st = "empty_dict\<lparr>last_computed := Some nct, first_seen := Some t0\<rparr>"
  have "late_step True ?cfg t0 (df_num_tokens c - nct) 0 (empty_dict\<lparr>last_computed := Some nct\<rparr>) = Inr (Some 0, ?st)"
    using assms(4) by (simp add: late_step_def Let_def empty_dict_def)
  then have "mixed_prefill_gate True env t0 g running c nct = Inr (Some 0, ?g2\<lparr>gate_fallback := fb2\<rparr>, c\<lparr>df_state := Some ?st\<rparr>)"
    using gate_None [OF l h(2) a b, of True t0 running] h assms(4) by (simp add: keep_state_def)
  then show ?thesis
    using g1(1) by (simp add: held_since_def empty_dict_def)
qed

text \<open>(C5) Bounded time to first service, for every request of a process. From the start of the process on, let requests
  arrive and the gate be called for any of them in any order, on a clock that does not run backwards and in a fixed
  environment. No call ever raises. When the policy first holds a request for which the gate keeps no state and
  which accepts attributes, at \<open>t0\<close>, the call skips it; from then on, whatever the queues, the chunking, the preemptions
  and the calls for other requests do, it is skipped at every held step before the deadline and scheduled at every
  held step from the deadline on, with at least one token and a cap between the floor and the ceiling of the late
  cap, as long as its object lives. (The deadline is switched off by a maximal wait of zero.)\<close>

theorem first_service_deadline:
  assumes "sorted (call_times (pre @ Gate t0 a running n nct # post))"
  shows "\<exists>rs0 w. gate_run env (gate_start reqs) pre = Inr (rs0, w) \<and>
    (\<exists>rs w'. gate_run env w (Gate t0 a running n nct # post) = Inr (rs, w') \<and>
      (fst (gate_state (gw_glob w) (gw_reqs w a) False) = None \<and> df_accepts (gw_reqs w a) \<and> 0 < max_wait_ms (gate_config env)
         \<and> held_at env (gate_config env) (gw_reqs w a) (t0, running, n, nct) \<and> \<not> replaced a post \<longrightarrow>
       hd rs = Some 0 \<and> list_all2 (call_ok env (gate_config env) (gw_reqs w a) t0) post (tl rs)))"
proof -
  let ?cfg = "gate_config env"
  have ts: "call_times (pre @ es) = call_times pre @ call_times es" for es
    by (induction pre rule: call_times.induct) simp_all
  define t1 where "t1 = (case call_times pre of [] \<Rightarrow> t0 | t # _ \<Rightarrow> t)"
  have pre: "sorted (t1 # call_times pre)" and le: "last (t1 # call_times pre) \<le> t0" and post: "sorted (t0 # call_times post)"
    using assms by (auto simp: ts t1_def sorted_append split: list.splits)
  obtain rs0 w where w: "gate_run env (gate_start reqs) pre = Inr (rs0, w)" "world_ok env t0 w"
    using gate_run_total [OF world_ok_start pre] world_ok_mono [OF _ le] by blast
  from world_ok_call [OF w(2), of running n a nct] obtain r g c where
    s: "mixed_prefill_gate True env t0 (gw_glob w) running ((gw_reqs w a)\<lparr>df_num_tokens := n\<rparr>) nct = Inr (r, g, c)"
      "world_ok env t0 \<lparr>gw_glob = g, gw_reqs = (gw_reqs w)(a := c)\<rparr>" by blast
  let ?w = "\<lparr>gw_glob = g, gw_reqs = (gw_reqs w)(a := c)\<rparr>" and ?c = "(gw_reqs w a)\<lparr>df_num_tokens := n\<rparr>"
  obtain rs w' where run: "gate_run env ?w post = Inr (rs, w')"
    using gate_run_total [OF s(2) post] by blast
  have "r = Some 0 \<and> list_all2 (call_ok env ?cfg (gw_reqs w a) t0) post rs"
    if H: "fst (gate_state (gw_glob w) (gw_reqs w a) False) = None" "df_accepts (gw_reqs w a)" "0 < max_wait_ms ?cfg"
      "held_at env ?cfg (gw_reqs w a) (t0, running, n, nct)" "\<not> replaced a post"
  proof -
    have none: "fst (gate_state (gw_glob w) ?c False) = None"
      using H(1) by (auto simp: gate_state_def fallback_get_def split: option.splits prod.splits)
    have held: "held_at env ?cfg ?c (t0, running, df_num_tokens ?c, nct)"
      using H(4) held_at_cong [of ?c "gw_reqs w a"] by simp
    have cached: "gate_cached (gw_glob w) = None \<or> gate_cached (gw_glob w) = Some ?cfg"
      using w(2) by (simp add: world_ok_def)
    from first_hold [OF none _ cached H(3) held] H(2) s(1)
    have F: "r = Some 0" "held_since t0 t0 c" "gate_cached g = Some ?cfg" "df_obj c = df_obj ?c" "df_id c = df_id ?c" by auto
    have "call_ok env ?cfg c = call_ok env ?cfg (gw_reqs w a)"
      using F(4,5) by (intro call_ok_cong) simp_all
    with gate_run_deadline [OF s(2) post, of t0 a] F H(3,5) run show ?thesis by auto
  qed
  then show ?thesis
    using w(1) s(1) run by fastforce
qed


text \<open>A preemption ends the crawl and not the hold. When a late request comes back with fewer computed
  tokens than the gate last saw, its cap is the base late cap again, its crawl clock restarts, and the
  time it was first seen is kept.\<close>

theorem preemption_restarts_crawl:
  assumes "df_state c = Some st" and "first_seen st = Some t0" and "last_computed st = Some prev" and "nct < prev"
    and "gate_cached g = Some (gate_config env)" and "held_at env (gate_config env) c (now, running, df_num_tokens c, nct)"
    and "0 < max_wait_ms (gate_config env)" and "of_int (max_wait_ms (gate_config env)) \<le> (now - t0) * 1000"
  shows "\<exists>st'. mixed_prefill_gate True env now g running c nct
      = Inr (Some (min (late_cap (gate_config env)) (df_num_tokens c - nct)), g, c\<lparr>df_state := Some st'\<rparr>)
    \<and> first_seen st' = Some t0 \<and> late_at st' = Some now \<and> cap_now st' = Some (late_cap (gate_config env))
    \<and> capped_at st' = Some now \<and> capped_s st' = None \<and> \<not> crawl_done st'"
proof -
  let ?cfg = "gate_config env"
  have l: "load_config env g = (?cfg, g)" using assms(5) by (simp add: load_config_def)
  have gs: "gate_state g c False = (Some st, g, c)" using assms(1) by (simp add: gate_state_def)
  have h: "warm_tokens ?cfg < df_num_tokens c - nct" "0 < df_num_tokens c - nct" "mixed_prefill_policy env running c = Some 0"
    using assms(6) by (auto simp: held_at_def)
  have ok: "64 \<le> late_cap ?cfg" "late_cap ?cfg \<le> late_cap_max ?cfg" using gate_config_ok [of env] by (auto simp: cfg_ok_def)
  have esc: "escalated ?cfg now now = Inr (late_cap ?cfg)" using ok by (auto simp: escalated_def doublings_def)
  let ?st = "st\<lparr>crawl_done := False, capped_s := None, last_computed := Some nct, first_seen := Some t0, late_at := Some now,
      cap_now := Some (late_cap ?cfg), capped_at := Some now\<rparr>"
  show ?thesis
    using assms h ok esc
    by (intro exI [of _ ?st]) (simp add: gate_Some [OF l h(2) gs] decide_def late_step_def note_progress_def set_capped_def keep_state_def Let_def)
qed

subsection \<open>The flat crawl is v2\<close>

text \<open>The v2 stamp of a request and the v3 state agree on the time it was first seen.\<close>

definition same_hold :: "df_request \<Rightarrow> df_request \<Rightarrow> bool" where
  "same_hold c2 c3 \<longleftrightarrow> df_obj c2 = df_obj c3 \<and> df_id c2 = df_id c3 \<and> df_num_tokens c2 = df_num_tokens c3
     \<and> df_accepts c2 \<and> df_accepts c3
     \<and> df_first_seen c2 = (case df_state c3 of None \<Rightarrow> None | Some st \<Rightarrow> first_seen st)"

lemma late_step_flat:
  assumes "escalate_ms cfg = 0"
  shows "\<exists>st'. late_step v31 cfg now rem cap st = Inr
      (if (now - (case first_seen st of None \<Rightarrow> now | Some t \<Rightarrow> t)) * 1000 < of_int (max_wait_ms cfg) then Some cap
       else Some (max (min (late_cap cfg) rem) 1), st')
    \<and> first_seen st' = Some (case first_seen st of None \<Rightarrow> now | Some t \<Rightarrow> t)"
  using assms by (auto simp: late_step_def escalated_def Let_def)


lemma gate_v2_late:
  assumes "mixed_prefill_policy env running c = Some cap" and "\<not> 0 < cap" and "0 < max_wait_ms cfg" and "df_accepts c"
    and "0 < df_num_tokens c - nct" and "warm_tokens cfg < df_num_tokens c - nct"
    and "seen = (case df_first_seen c of None \<Rightarrow> now | Some t \<Rightarrow> t)"
  shows "mixed_prefill_gate_v2 env cfg now Map.empty running c nct =
    (if (now - seen) * 1000 < of_int (max_wait_ms cfg) then Some cap
       else Some (max (min (late_cap cfg) (df_num_tokens c - nct)) 1), Map.empty, c\<lparr>df_first_seen := Some seen\<rparr>)"
  using assms by (cases "df_first_seen c") (auto simp: mixed_prefill_gate_v2_def Let_def)

text \<open>The outcome of both gates on one call.\<close>

definition flat_step :: "bool \<Rightarrow> environ \<Rightarrow> gate_cfg \<Rightarrow> rat \<Rightarrow> gate_globals \<Rightarrow> df_request list \<Rightarrow> df_request \<Rightarrow> df_request \<Rightarrow> int \<Rightarrow> bool" where
  "flat_step v31 env cfg now g running c2 c3 nct \<longleftrightarrow>
     (\<exists>r g' c3' c2'. mixed_prefill_gate v31 env now g running c3 nct = Inr (r, g', c3')
       \<and> mixed_prefill_gate_v2 env cfg now Map.empty running c2 nct = (r, Map.empty, c2')
       \<and> same_hold c2' c3' \<and> gate_fallback g' = None \<and> gate_cached g' = Some cfg)"

lemma flat_early:
  assumes "same_hold c2 c3" and "gate_cached g = Some cfg" and "gate_fallback g = None" and rem: "0 < df_num_tokens c3 - nct"
    and pol: "pol = mixed_prefill_policy env running c3" and warm: "w \<longleftrightarrow> df_num_tokens c3 - nct \<le> warm_tokens cfg"
    and early: "w \<or> pol = None \<or> (\<exists>cap. pol = Some cap \<and> (0 < cap \<or> max_wait_ms cfg \<le> 0))"
  shows "flat_step v31 env cfg now g running c2 c3 nct"
proof -
  have l: "load_config env g = (cfg, g)" using assms(2) by (simp add: load_config_def)
  have p: "mixed_prefill_policy env running c2 = pol" unfolding pol
    using assms(1) by (intro policy_cong) (auto simp: same_hold_def)
  have v2: "mixed_prefill_gate_v2 env cfg now Map.empty running c2 nct = (if w then None else pol, Map.empty, c2)"
    using early rem assms(1) by (auto simp: mixed_prefill_gate_v2_def p warm same_hold_def Let_def)
  show ?thesis
  proof (cases "df_state c3")
    case None
    then have gs: "gate_state g c3 False = (None, g, c3)" using assms(3) by (simp add: gate_state_def fallback_get_def)
    obtain new g3 c4 where nw: "gate_state g c3 True = (Some new, g3, c4)" using gate_state_create by blast
    have "mixed_prefill_gate v31 env now g running c3 nct = Inr (if w then None else pol, g, c3)"
      using early unfolding gate_None [OF l rem gs nw] pol warm by auto
    then show ?thesis unfolding flat_step_def v2 using assms(1,2,3) by auto
  next
    case (Some st)
    then have gs: "gate_state g c3 False = (Some st, g, c3)" by (simp add: gate_state_def)
    have "\<exists>st'. decide v31 cfg now (df_num_tokens c3 - nct) pol (note_progress v31 nct st)
        = Inr (if w then None else pol, st') \<and> first_seen st' = first_seen st"
      using early warm by (auto simp: decide_def Let_def)
    then obtain st' where d: "decide v31 cfg now (df_num_tokens c3 - nct) pol (note_progress v31 nct st)
        = Inr (if w then None else pol, st')" "first_seen st' = first_seen st" by blast
    have "same_hold c2 (c3\<lparr>df_state := Some st'\<rparr>)" using assms(1) Some d(2) by (simp add: same_hold_def)
    then show ?thesis unfolding flat_step_def gate_Some [OF l rem gs] pol [symmetric] d(1) v2
      using Some assms(2,3) by (simp add: keep_state_def)
  qed
qed

lemma flat_late:
  assumes "same_hold c2 c3" and "gate_cached g = Some cfg" and "gate_fallback g = None" and "escalate_ms cfg = 0"
    and late: "0 < df_num_tokens c3 - nct" "warm_tokens cfg < df_num_tokens c3 - nct"
      "mixed_prefill_policy env running c3 = Some cap" "\<not> 0 < cap" "0 < max_wait_ms cfg"
  shows "flat_step v31 env cfg now g running c2 c3 nct"
proof -
  let ?rem = "df_num_tokens c3 - nct"
  let ?seen = "case df_first_seen c2 of None \<Rightarrow> now | Some t \<Rightarrow> t"
  have l: "load_config env g = (cfg, g)" using assms(2) by (simp add: load_config_def)
  have p: "mixed_prefill_policy env running c2 = Some cap"
    using assms(1) late(3) policy_cong [of c2 c3 env running] by (auto simp: same_hold_def)
  have sh: "df_num_tokens c2 = df_num_tokens c3" "df_accepts c2" "df_accepts c3" using assms(1) by (auto simp: same_hold_def)
  note v2 = gate_v2_late [OF p late(4,5) sh(2), of nct ?seen now, unfolded sh(1), OF late(1,2) refl]
  have keep: "same_hold (c2\<lparr>df_first_seen := Some ?seen\<rparr>) (c3\<lparr>df_state := Some st'\<rparr>)" if "first_seen st' = Some ?seen" for st'
    using assms(1) that by (simp add: same_hold_def)
  show ?thesis
  proof (cases "df_state c3")
    case None
    then have gs: "gate_state g c3 False = (None, g, c3)" "gate_state g c3 True = (Some empty_dict, g, c3\<lparr>df_state := Some empty_dict\<rparr>)"
      using assms(3) sh(3) by (simp_all add: gate_state_def fallback_get_def)
    have fs: "first_seen (empty_dict\<lparr>last_computed := Some nct\<rparr>) = df_first_seen c2"
      using assms(1) None by (simp add: same_hold_def empty_dict_def)
    from late_step_flat [OF assms(4), of v31 now ?rem cap "empty_dict\<lparr>last_computed := Some nct\<rparr>"] keep fs
    show ?thesis unfolding flat_step_def v2 gate_None [OF l late(1) gs] using late assms(2,3) by (auto simp: keep_state_def)
  next
    case (Some st)
    then have gs: "gate_state g c3 False = (Some st, g, c3)" by (simp add: gate_state_def)
    have fs: "first_seen (note_progress v31 nct st) = df_first_seen c2" using assms(1) Some by (simp add: same_hold_def)
    from late_step_flat [OF assms(4), of v31 now ?rem cap "note_progress v31 nct st"] keep fs
    show ?thesis unfolding flat_step_def v2 gate_Some [OF l late(1) gs]
      using late assms(2,3) Some by (auto simp: keep_state_def decide_def)
  qed
qed

text \<open>Without aging the gate is the v2 gate. With the escalation off, on requests that keep their state as
  attributes, the v3 and the v3.1 gate return the cap of v2 and keep the same time of first sight.\<close>

theorem flat_crawl_is_v2:
  assumes "same_hold c2 c3" and "gate_cached g = Some cfg" and "gate_fallback g = None" and "escalate_ms cfg = 0"
  shows "\<exists>r g' c3' c2'. mixed_prefill_gate v31 env now g running c3 nct = Inr (r, g', c3')
    \<and> mixed_prefill_gate_v2 env cfg now Map.empty running c2 nct = (r, Map.empty, c2')
    \<and> same_hold c2' c3' \<and> gate_fallback g' = None \<and> gate_cached g' = Some cfg"
  unfolding flat_step_def [symmetric]
proof (cases "0 < df_num_tokens c3 - nct")
  case False
  then show "flat_step v31 env cfg now g running c2 c3 nct"
    using assms by (simp add: flat_step_def mixed_prefill_gate_def mixed_prefill_gate_v2_def load_config_def same_hold_def)
next
  case True
  note early = flat_early [OF assms(1,2,3) True refl refl] and late = flat_late [OF assms True]
  show "flat_step v31 env cfg now g running c2 c3 nct"
    by (cases "mixed_prefill_policy env running c3")
       (use early in blast, metis early late linorder_not_less)
qed


subsection \<open>The fallback map\<close>

definition fb_ok :: "gate_globals \<Rightarrow> bool" where
  "fb_ok g \<longleftrightarrow> (case gate_fallback g of None \<Rightarrow> True | Some m \<Rightarrow> length m \<le> 4096 \<and> distinct (map fst m))"

text \<open>Updating values in place keeps the keys.\<close>

lemma map_fst_update: "(\<And>e. fst (f e) = fst e) \<Longrightarrow> map fst (map (\<lambda>e. if P e then f e else e) m) = map fst m"
  by (induction m) auto

lemma dict_set_distinct: "distinct (map fst m) \<Longrightarrow> distinct (map fst (dict_set k v m))"
proof (cases "k \<in> fst ` set m")
  case True
  have "map fst (map (\<lambda>e. if fst e = k then (k, v) else e) m) = map fst m" by (induction m) auto
  with True show "distinct (map fst m) \<Longrightarrow> ?thesis" unfolding dict_set_def by (simp only: if_True)
next
  case False
  then show "distinct (map fst m) \<Longrightarrow> ?thesis" by (simp add: dict_set_def)
qed

lemma dict_set_lookup: "map_of (dict_set k v m) k = Some v"
proof (cases "k \<in> fst ` set m")
  case True
  then have "map_of (map (\<lambda>e. if fst e = k then (k, v) else e) m) k = Some v" by (induction m) auto
  with True show ?thesis by (simp add: dict_set_def)
next
  case False
  then show ?thesis by (simp add: dict_set_def map_add_def map_of_eq_None_iff [THEN iffD2])
qed

lemma fallback_put_ok:
  assumes "case fb of None \<Rightarrow> True | Some m \<Rightarrow> length m \<le> 4096 \<and> distinct (map fst m)"
  shows "\<exists>m. fallback_put fb c st = Some m \<and> length m \<le> 4096 \<and> distinct (map fst m)"
proof -
  let ?m = "case fb of None \<Rightarrow> [] | Some m \<Rightarrow> m"
  let ?d = "if 4096 \<le> length ?m then drop 1024 ?m else ?m"
  have d: "distinct (map fst ?d)" "length ?d < 4096"
    using assms by (auto simp: drop_map [symmetric] distinct_drop split: option.splits)
  have "length (dict_set (df_obj c) (df_id c, st) ?d) \<le> Suc (length ?d)" unfolding dict_set_def by simp
  with d(2) have "length (dict_set (df_obj c) (df_id c, st) ?d) \<le> 4096" by linarith
  moreover have "fallback_put fb c st = Some (dict_set (df_obj c) (df_id c, st) ?d)" by (simp only: fallback_put_def Let_def)
  ultimately show ?thesis using dict_set_distinct [OF d(1)] by blast
qed

lemma gate_state_fb_ok: "fb_ok g \<Longrightarrow> gate_state g c create = (st, g', c') \<Longrightarrow> fb_ok g'"
proof -
  assume ok: "fb_ok g" and gs: "gate_state g c create = (st, g', c')"
  obtain s fb where fg: "fallback_get (gate_fallback g) c = (s, fb)" by (cases "fallback_get (gate_fallback g) c")
  have fb: "case fb of None \<Rightarrow> True | Some m \<Rightarrow> length m \<le> 4096 \<and> distinct (map fst m)"
    using fg ok length_filter_le [of _ "the (gate_fallback g)"]
    by (auto simp: fallback_get_def fb_ok_def dict_pop_def distinct_map_filter split: option.splits if_splits
        intro: order_trans [OF length_filter_le])
  from fallback_put_ok [OF fb] obtain m where m: "fallback_put fb c empty_dict = Some m" "length m \<le> 4096" "distinct (map fst m)"
    by blast
  show "fb_ok g'"
    using gs ok fb m by (auto simp: gate_state_def fg fb_ok_def split: option.splits if_splits prod.splits)
qed

lemma keep_state_fb_ok: "fb_ok g \<Longrightarrow> fb_ok (fst (keep_state st g c))"
proof (cases "gate_fallback g")
  case (Some m)
  have "map fst (map (\<lambda>e. if fst e = df_obj c then (fst e, fst (snd e), st) else e) m) = map fst m"
    by (rule map_fst_update) simp
  with Some show "fb_ok g \<Longrightarrow> ?thesis" by (simp add: keep_state_def fb_ok_def del: map_map)
qed (simp add: keep_state_def fb_ok_def)

lemma keep_result_fb_ok:
  "fb_ok g \<Longrightarrow> res_bind d (\<lambda>(r, st). Inr (r, keep_state st g c)) = Inr (r', g', c') \<Longrightarrow> fb_ok g'"
  using keep_state_fb_ok [of g] by (auto simp: res_bind_Inr) (metis fst_conv)

text \<open>The fallback map is bounded. Whatever the requests do, a call of the gate keeps the map for
  requests that reject attributes at no more than 4096 entries with distinct keys, and a state put there is
  found again by the same request but never by another request that reuses the address.\<close>

theorem fallback_bounded:
  assumes "fb_ok g" and "mixed_prefill_gate v31 env now g running c nct = Inr (r, g', c')"
  shows "fb_ok g' \<and> fst (fallback_get (fallback_put (gate_fallback g) c st) c) = Some st
    \<and> (\<forall>d. df_obj d = df_obj c \<and> df_id d \<noteq> df_id c \<longrightarrow> fst (fallback_get (fallback_put (gate_fallback g) c st) d) = None)"
proof -
  obtain cfg g1 where l: "load_config env g = (cfg, g1)" by (cases "load_config env g")
  then have g1: "fb_ok g1" using assms(1) by (auto simp: load_config_def fb_ok_def Let_def split: option.splits)
  obtain sto g2 c2 where gs: "gate_state g1 c False = (sto, g2, c2)" by (metis prod_cases3)
  obtain new g3 c3 where nw: "gate_state g2 c2 True = (Some new, g3, c3)" using gate_state_create by blast
  note g2 = gate_state_fb_ok [OF g1 gs] and g3 = gate_state_fb_ok [OF gate_state_fb_ok [OF g1 gs] nw]
  have "fb_ok g'"
  proof (cases "0 < df_num_tokens c - nct")
    case False
    with assms(2) l g1 show ?thesis by (simp add: mixed_prefill_gate_def)
  next
    case True
    show ?thesis
    proof (cases sto)
      case None
      from assms(2) g2 show ?thesis
        unfolding gate_None [OF l True gs [unfolded None] nw]
        by (auto split: if_splits option.splits dest: keep_result_fb_ok [OF g3])
    next
      case (Some st0)
      from assms(2) show ?thesis
        unfolding gate_Some [OF l True gs [unfolded Some]] by (rule keep_result_fb_ok [OF g2])
    qed
  qed
  then show ?thesis
    by (auto simp: fallback_get_def fallback_put_def Let_def dict_set_lookup split: option.splits)
qed


subsection \<open>Instances\<close>

definition demo_df :: "nat \<Rightarrow> string \<Rightarrow> int \<Rightarrow> df_request" where
  "demo_df n i c = \<lparr>df_obj = n, df_id = Some i, df_num_tokens = 9000, df_computed = c, df_prompt = 9000, df_accepts = True,
     df_state = None, df_first_seen = None\<rparr>"

definition demo_held :: df_request where "demo_held = demo_df 1 ''cold'' 0"
definition demo_peer :: df_request where "demo_peer = demo_df 2 ''decode'' 9001"
definition demo_glob :: gate_globals where "demo_glob = \<lparr>gate_cached = None, gate_fallback = None\<rparr>"

lemma demo_policy: "mixed_prefill_policy demo_df_env [demo_peer] demo_held = Some 0"
  unfolding demo_peer_def demo_held_def by code_simp

lemma demo_held_at: "held_at demo_df_env (gate_config demo_df_env) demo_held (t, [demo_peer], 9000, 0)"
  unfolding held_at_def demo_df_cfg by (simp add: demo_policy)

text \<open>A request of another user is gated before and between the calls for the held one.\<close>

definition demo_other :: df_request where "demo_other = demo_df 3 ''other'' 0"

definition demo_pre :: "gate_call list" where
  "demo_pre = [Arrive demo_other, Gate 0 3 [demo_peer] 9000 0, Arrive demo_held]"

definition demo_post :: "gate_call list" where
  "demo_post = [Gate (3 / 2) 3 [demo_peer] 9000 0, Gate 3 1 [demo_peer] 9000 0]"

lemma demo_gate_run:
  "gate_run demo_df_env (gate_start (\<lambda>_. demo_held)) demo_pre = Inr (rs, w) \<Longrightarrow>
     gw_reqs w 1 = demo_held \<and> fst (gate_state (gw_glob w) demo_held False) = None"
  using demo_policy policy_cong [of "demo_other\<lparr>df_num_tokens := 9000\<rparr>" demo_other demo_df_env "[demo_peer]"]
  by (auto simp: demo_pre_def gate_start_def mixed_prefill_gate_def load_config_def demo_df_cfg gate_state_def fallback_get_def
      late_step_def Let_def demo_held_def demo_other_def demo_df_def empty_dict_def keep_state_def split: option.splits if_splits)

theorem first_service_deadline_witness:
  "\<exists>rs0 w r x w'. gate_run demo_df_env (gate_start (\<lambda>_. demo_held)) demo_pre = Inr (rs0, w)
     \<and> gate_run demo_df_env w (Gate 1 1 [demo_peer] 9000 0 # demo_post) = Inr ([Some 0, x, Some r], w') \<and> 512 \<le> r \<and> r \<le> 1792"
proof -
  have srt: "sorted (call_times (demo_pre @ Gate 1 1 [demo_peer] 9000 0 # demo_post))"
    by (simp add: demo_pre_def demo_post_def)
  obtain rs0 w rs w' where
    pre: "gate_run demo_df_env (gate_start (\<lambda>_. demo_held)) demo_pre = Inr (rs0, w)"
    and run: "gate_run demo_df_env w (Gate 1 1 [demo_peer] 9000 0 # demo_post) = Inr (rs, w')"
    and imp: "fst (gate_state (gw_glob w) (gw_reqs w 1) False) = None \<and> df_accepts (gw_reqs w 1) \<and> 0 < max_wait_ms (gate_config demo_df_env)
       \<and> held_at demo_df_env (gate_config demo_df_env) (gw_reqs w 1) (1, [demo_peer], 9000, 0) \<and> \<not> replaced 1 demo_post \<longrightarrow>
       hd rs = Some 0 \<and> list_all2 (call_ok demo_df_env (gate_config demo_df_env) (gw_reqs w 1) 1) demo_post (tl rs)"
    using first_service_deadline [OF srt, of demo_df_env "\<lambda>_. demo_held"] by blast
  have w: "gw_reqs w 1 = demo_held" "fst (gate_state (gw_glob w) demo_held False) = None"
    using demo_gate_run [OF pre] by simp_all
  have "hd rs = Some 0 \<and> list_all2 (call_ok demo_df_env (gate_config demo_df_env) demo_held 1) demo_post (tl rs)"
  proof -
    have "df_accepts demo_held" "0 < max_wait_ms (gate_config demo_df_env)" "\<not> replaced 1 demo_post"
      by (simp_all add: demo_held_def demo_df_def demo_df_cfg replaced_def demo_post_def)
    with imp demo_held_at [of 1] w show ?thesis by metis
  qed
  then have h: "hd rs = Some 0" "list_all2 (call_ok demo_df_env (gate_config demo_df_env) demo_held 1) demo_post (tl rs)" by simp_all
  from h(2) obtain x y where xy: "tl rs = [x, y]"
    "call_ok demo_df_env (gate_config demo_df_env) demo_held 1 (Gate 3 1 [demo_peer] 9000 0) y"
    by (auto simp: demo_post_def list_all2_Cons1)
  from xy(2) demo_held_at [of 3] obtain r where r: "y = Some r" "512 \<le> r" "r \<le> 1792"
    by (auto simp: call_ok_def deadline_cap_def demo_df_cfg demo_held_def demo_df_def)
  have "rs = [Some 0, x, Some r]"
    using h(1) xy(1) r(1) by (cases rs) auto
  with pre run r show ?thesis by blast
qed

definition demo_late :: gate_dict where
  "demo_late = empty_dict\<lparr>first_seen := Some 0, late_at := Some 2, cap_now := Some 1024, last_computed := Some 4000\<rparr>"

theorem preemption_restarts_crawl_witness:
  "\<exists>st'. mixed_prefill_gate True demo_df_env 9 \<lparr>gate_cached = Some (gate_config demo_df_env), gate_fallback = None\<rparr>
      [demo_peer] (demo_held\<lparr>df_state := Some demo_late\<rparr>) 0
     = Inr (Some 512, \<lparr>gate_cached = Some (gate_config demo_df_env), gate_fallback = None\<rparr>, demo_held\<lparr>df_state := Some st'\<rparr>)
   \<and> cap_now st' = Some 512 \<and> first_seen st' = Some 0"
proof -
  let ?c = "demo_held\<lparr>df_state := Some demo_late\<rparr>"
  have "held_at demo_df_env (gate_config demo_df_env) ?c (9, [demo_peer], df_num_tokens ?c, 0)"
    using demo_held_at [of 9] held_at_cong [of ?c demo_held] by (simp add: demo_held_def demo_df_def)
  from preemption_restarts_crawl [OF _ _ _ _ _ this, of demo_late 0 4000
      "\<lparr>gate_cached = Some (gate_config demo_df_env), gate_fallback = None\<rparr>"]
  show ?thesis by (auto simp: demo_late_def demo_df_cfg demo_held_def demo_df_def)
qed

theorem flat_crawl_is_v2_witness:
  "\<exists>r g' c3' c2'. mixed_prefill_gate True demo_df_env 1 \<lparr>gate_cached = Some (gate_config (\<lambda>_. None)), gate_fallback = None\<rparr> [demo_peer] demo_held 0
       = Inr (r, g', c3')
    \<and> mixed_prefill_gate_v2 demo_df_env (gate_config (\<lambda>_. None)) 1 Map.empty [demo_peer] demo_held 0 = (r, Map.empty, c2')
    \<and> same_hold c2' c3'"
proof -
  have "same_hold demo_held demo_held" by (simp add: same_hold_def demo_held_def demo_df_def)
  moreover have "escalate_ms (gate_config (\<lambda>_. None)) = 0" by (simp add: gate_config_def cfg_int_def Let_def)
  ultimately show ?thesis
    using flat_crawl_is_v2 [of demo_held demo_held "\<lparr>gate_cached = Some (gate_config (\<lambda>_. None)), gate_fallback = None\<rparr>"
        "gate_config (\<lambda>_. None)" True demo_df_env 1 "[demo_peer]" 0] by (simp, blast)
qed

theorem fallback_bounded_witness:
  "\<exists>r g' c'. mixed_prefill_gate True demo_df_env 0 demo_glob [demo_peer] (demo_held\<lparr>df_accepts := False\<rparr>) 0 = Inr (r, g', c') \<and> fb_ok g'"
proof -
  let ?c = "demo_held\<lparr>df_accepts := False\<rparr>"
  have p: "mixed_prefill_policy demo_df_env [demo_peer] ?c = Some 0"
    using demo_policy policy_cong [of ?c demo_held] by simp
  have "\<exists>r g' c'. mixed_prefill_gate True demo_df_env 0 demo_glob [demo_peer] ?c 0 = Inr (r, g', c')"
    using p by (simp add: mixed_prefill_gate_def load_config_def demo_glob_def demo_df_cfg gate_state_def fallback_get_def
        late_step_def Let_def demo_held_def demo_df_def empty_dict_def keep_state_def)
  then obtain r g' c' where g: "mixed_prefill_gate True demo_df_env 0 demo_glob [demo_peer] ?c 0 = Inr (r, g', c')" by blast
  have "fb_ok demo_glob" by (simp add: fb_ok_def demo_glob_def)
  from fallback_bounded [OF this g] g show ?thesis by blast
qed

end
