(* ===== verification/Align_Tail.thy ===== *)
theory Align_Tail
  imports Glm_Prelude
begin

text \<open>
  Two corrections on the block grid: the align floor of \<^verbatim>\<open>overlay/patch_align_floor.py\<close> (a chunk is
  truncated to the block boundary only when that leaves progress; the flag is read once and cached) and
  the tail boundary of \<^verbatim>\<open>overlay/patch_apc_tail_boundary.py\<close> (reusable state is registered at the
  deepest hash unit below \<open>n - 1\<close>, at three sites). Both texts of each edit are modelled, the one the
  installer expects and the one it writes.
\<close>

subsection \<open>The align floor\<close>

definition align_floor :: "environ \<Rightarrow> bool option \<Rightarrow> bool \<times> bool option" where
  "align_floor env cached =
     (case cached of
        Some v \<Rightarrow> (v, cached)
      | None \<Rightarrow>
          let v = py_lower (py_strip (env_get env ''GLM53_ALIGN_FLOOR'' ''1''));
              on = (v \<notin> {''0'', ''off'', ''false'', ''no'', ''''})
          in (on, Some on))"

definition split_old :: "int \<Rightarrow> int \<Rightarrow> int \<Rightarrow> int \<Rightarrow> int" where
  "split_old block_size max_prefill_tokens start stop =
     (let aligned_end = stop div block_size * block_size
      in if start < aligned_end \<or> block_size \<le> max_prefill_tokens then aligned_end else stop)"

definition split_new :: "environ \<Rightarrow> bool option \<Rightarrow> int \<Rightarrow> int \<Rightarrow> int \<Rightarrow> int \<Rightarrow> int \<times> bool option" where
  "split_new env cached block_size max_prefill_tokens start stop =
     (let aligned_end = stop div block_size * block_size
      in if start < aligned_end then (aligned_end, cached)
         else if block_size \<le> max_prefill_tokens
         then (case align_floor env cached of (on, cached) \<Rightarrow> (if \<not> on then aligned_end else stop, cached))
         else (stop, cached))"

definition floor_on :: "environ \<Rightarrow> bool option \<Rightarrow> bool" where
  "floor_on env cached = fst (align_floor env cached)"

lemma split_new_fst:
  "fst (split_new env cached b mp start stop) =
     (if start < floor_to b stop \<or> b \<le> mp \<and> \<not> floor_on env cached then floor_to b stop else stop)"
  by (simp add: split_new_def Let_def floor_to_def floor_on_def split: prod.splits)

lemma split_new_cache: "snd (split_new env cached b mp start stop) \<in> {cached, Some (floor_on env cached)}"
  by (auto simp: split_new_def align_floor_def floor_on_def Let_def split: option.splits)

text \<open>The align floor keeps every chunk moving. With the fix on, a chunk that asked for tokens ends after
  its start, never beyond what it asked for, on the block grid whenever a boundary lies inside it; with
  the fix off it is the upstream split, and the two agree whenever the long-prefill limit is below the
  block size or a boundary lies inside the chunk.\<close>

theorem align_floor_progress:
  assumes "0 < b" and "start < stop"
  shows "(floor_on env cached \<longrightarrow> start < fst (split_new env cached b mp start stop)
        \<and> fst (split_new env cached b mp start stop) \<le> stop
        \<and> (start < floor_to b stop \<longrightarrow> b dvd fst (split_new env cached b mp start stop)))
    \<and> (\<not> floor_on env cached \<or> mp < b \<or> start < floor_to b stop
        \<longrightarrow> fst (split_new env cached b mp start stop) = split_old b mp start stop)"
  using assms floor_to_le [OF assms(1), of stop] floor_to_dvd [of b stop]
  by (auto simp: split_new_fst split_old_def Let_def floor_to_def)

text \<open>The stall that the fix removes. Upstream, with the long-prefill limit at or above the block size,
  a chunk that starts on a block boundary and asks for less than a block (such as a late-admitted prefill
  under the decode floor, whose caps are below the block size) is truncated to nothing.\<close>

theorem upstream_split_stalls:
  assumes "0 < b" and "b \<le> mp" and "b dvd start" and "0 < cap" and "cap < b"
  shows "split_old b mp start (start + cap) = start"
proof -
  from assms(3) obtain k where k: "start = b * k" ..
  have "(start + cap) div b = k" unfolding k using assms(1,4,5) by simp
  then show ?thesis using assms(2) by (simp add: split_old_def Let_def k)
qed

theorem align_floor_progress_witness:
  "fst (split_new (\<lambda>_. None) None 3584 3584 7168 7680) = 7680"
proof -
  have "floor_on (\<lambda>_. None) None" unfolding floor_on_def by code_simp
  with align_floor_progress [of 3584 7168 7680 "\<lambda>_. None" None 3584]
  have "7168 < fst (split_new (\<lambda>_. None) None 3584 3584 7168 7680)" by simp
  then show ?thesis by (simp add: split_new_fst floor_to_def split: if_splits)
qed

theorem upstream_split_stalls_witness: "split_old 3584 3584 7168 (7168 + 512) = 7168"
  by (rule upstream_split_stalls) simp_all

subsection \<open>The tail boundary\<close>

text \<open>The scheduler stop, before and after the edit (\<open>SCHED_OLD\<close>, \<open>SCHED_NEW\<close>).\<close>

definition tail_boundary_old :: "int \<Rightarrow> int \<Rightarrow> bool \<Rightarrow> int" where
  "tail_boundary_old num_prompt_tokens hash_block_size mamba_partial_cache_hit =
     (if mamba_partial_cache_hit then num_prompt_tokens div hash_block_size * hash_block_size else 0)"

definition tail_boundary :: "int \<Rightarrow> int \<Rightarrow> bool \<Rightarrow> int" where
  "tail_boundary num_prompt_tokens hash_block_size mamba_partial_cache_hit =
     (if mamba_partial_cache_hit then (num_prompt_tokens - 1) div hash_block_size * hash_block_size else 0)"

text \<open>The partial tail of full attention (\<open>FA_OLD\<close>, \<open>FA_NEW\<close>): \<open>None\<close> where the method returns early.\<close>

definition fa_boundary_old :: "int \<Rightarrow> int \<Rightarrow> int \<Rightarrow> int option" where
  "fa_boundary_old num_prompt_tokens hash_block_size num_tokens =
     (let boundary_tokens = num_prompt_tokens div hash_block_size * hash_block_size
      in if boundary_tokens = 0 \<or> num_tokens < boundary_tokens then None else Some boundary_tokens)"

definition fa_boundary :: "int \<Rightarrow> int \<Rightarrow> int \<Rightarrow> int option" where
  "fa_boundary num_prompt_tokens hash_block_size num_tokens =
     (let boundary_tokens = (num_prompt_tokens - 1) div hash_block_size * hash_block_size
      in if boundary_tokens = 0 \<or> num_tokens < boundary_tokens then None else Some boundary_tokens)"

text \<open>The partial tail of the Mamba manager (\<open>MAMBA_OLD\<close>, \<open>MAMBA_NEW\<close>).\<close>

definition mamba_boundary_old :: "int \<Rightarrow> int \<Rightarrow> int" where
  "mamba_boundary_old num_prompt_tokens hash_block_size = (num_prompt_tokens div hash_block_size) * hash_block_size"

definition mamba_boundary :: "int \<Rightarrow> int \<Rightarrow> int" where
  "mamba_boundary num_prompt_tokens hash_block_size = ((num_prompt_tokens - 1) div hash_block_size) * hash_block_size"

text \<open>What a replay of \<open>n\<close> tokens can ask for: hash units up to \<open>n - 1\<close>, the last token being recomputed.\<close>

definition lookupable :: "int \<Rightarrow> int \<Rightarrow> int \<Rightarrow> bool" where
  "lookupable h n q \<longleftrightarrow> h dvd q \<and> 0 \<le> q \<and> q \<le> n - 1"

lemma mamba_boundary_floor: "mamba_boundary n h = floor_to h (n - 1)"
  by (simp add: mamba_boundary_def floor_to_def)

lemma boundary_shift:
  assumes "0 < h"
  shows "floor_to h (n - 1) = (if h dvd n then n - h else floor_to h n)"
proof (cases "h dvd n")
  case True
  then obtain k where n: "n = h * k" ..
  have q: "(h * k - 1) div h = k - 1"
    using assms by (intro int_div_pos_eq [of _ _ _ "h - 1"]) (simp_all add: algebra_simps)
  have "floor_to h (n - 1) = (k - 1) * h" unfolding floor_to_def n q ..
  then show ?thesis using True by (simp add: n right_diff_distrib mult.commute)
next
  case False
  then have "n mod h \<noteq> 0" by auto
  then have "0 < n mod h" using assms by (simp add: order_less_le)
  then have "(n - 1) div h = n div h"
    using assms pos_mod_bound [OF assms, of n]
    by (intro int_div_pos_eq [of _ _ _ "n mod h - 1"]) (simp_all add: algebra_simps)
  with False show ?thesis by (simp add: floor_to_def)
qed

text \<open>The tail is registered where a replay can ask. For every prompt length and hash unit, the three
  edited sites agree on one position, it is the deepest hash unit that a lookup capped at \<open>n - 1\<close> can
  request, and it is the old position unless the unit divides the prompt length; in that case the old
  position was beyond any lookup and the new one is one unit below it.\<close>

theorem tail_boundary_reachable:
  assumes "0 < h" and "1 \<le> n"
  shows "mamba_boundary n h = tail_boundary n h True
    \<and> lookupable h n (tail_boundary n h True)
    \<and> (\<forall>q. lookupable h n q \<longrightarrow> q \<le> tail_boundary n h True)
    \<and> (if h dvd n then \<not> lookupable h n (tail_boundary_old n h True) \<and> tail_boundary n h True = tail_boundary_old n h True - h
       else tail_boundary n h True = tail_boundary_old n h True)
    \<and> (n \<le> num_tokens \<longrightarrow> fa_boundary n h num_tokens = (if tail_boundary n h True = 0 then None else Some (tail_boundary n h True)))"
proof -
  have t: "tail_boundary n h True = floor_to h (n - 1)" "tail_boundary_old n h True = floor_to h n"
    by (simp_all add: tail_boundary_def tail_boundary_old_def floor_to_def)
  have "floor_to h n = n" if "h dvd n" using that by (rule floor_to_id)
  moreover have "lookupable h n (floor_to h (n - 1))"
    unfolding lookupable_def using assms floor_to_le [OF assms(1), of "n - 1"] by (simp add: floor_to_dvd floor_to_nonneg)
  moreover have "q \<le> floor_to h (n - 1)" if "lookupable h n q" for q
    using that floor_to_greatest [OF assms(1)] by (simp add: lookupable_def)
  moreover have "fa_boundary n h num_tokens = (if floor_to h (n - 1) = 0 then None else Some (floor_to h (n - 1)))" if "n \<le> num_tokens"
    using that floor_to_le [OF assms(1), of "n - 1"] by (auto simp: fa_boundary_def floor_to_def Let_def)
  ultimately show ?thesis unfolding t mamba_boundary_floor boundary_shift [OF assms(1)]
    by (auto simp: lookupable_def)
qed

theorem tail_boundary_reachable_witness:
  "tail_boundary 10752 64 True = 10688 \<and> lookupable 64 10752 (tail_boundary 10752 64 True)
   \<and> \<not> lookupable 64 10752 (tail_boundary_old 10752 64 True)"
  using tail_boundary_reachable [of 64 10752 10752] by (simp add: tail_boundary_def tail_boundary_old_def)

end
