(* ===== verification/Mamba_Retire.thy ===== *)
theory Mamba_Retire
  imports Glm_Prelude "HOL-Library.Multiset"
begin

text \<open>
  The retirement of obsolete Mamba states across null gaps, \<^verbatim>\<open>overlay/patch_mamba_null_gap_retirement.py\<close>:
  the override of \<open>_remove_blocks_in_range\<close> that the installer writes into \<open>MambaManager\<close>, with its
  per-request mark of the prefix already retired, and the cleanup when the request is freed. The
  inherited method, used outside align mode, is a parameter.
\<close>

subsection \<open>Model\<close>

record mamba_block =
  mb_id :: nat
  mb_null :: bool

text \<open>The manager: the blocks of each request, the retired prefixes, and every call of
  \<open>block_pool.free_blocks\<close>, in order.\<close>

record mamba_manager =
  mamba_cache_mode :: string
  req_to_blocks :: "string \<rightharpoonup> mamba_block list"
  num_retired_blocks :: "string \<rightharpoonup> int"
  null_block :: mamba_block
  freed_log :: "mamba_block list list"

text \<open>The loop \<open>for i in range(last - 1, first - 1, -1)\<close>, \<open>n\<close> indices from \<open>first\<close> on left to visit.\<close>

fun retire_loop :: "mamba_block \<Rightarrow> nat \<Rightarrow> nat \<Rightarrow> mamba_block list \<Rightarrow> mamba_block list \<Rightarrow> mamba_block list \<times> mamba_block list" where
  "retire_loop null first 0 blocks freed = (blocks, freed)"
| "retire_loop null first (Suc n) blocks freed =
     (let i = first + n
      in if mb_null (blocks ! i) then retire_loop null first n blocks freed
         else retire_loop null first n (blocks[i := null]) (freed @ [blocks ! i]))"

definition remove_blocks_in_range :: "(mamba_manager \<Rightarrow> string \<Rightarrow> int \<Rightarrow> int \<Rightarrow> mamba_manager) \<Rightarrow> mamba_manager \<Rightarrow> string \<Rightarrow> int \<Rightarrow> int \<Rightarrow> mamba_manager" where
  "remove_blocks_in_range super_remove m request_id first_block last_block =
     (if mamba_cache_mode m \<noteq> ''align'' then super_remove m request_id first_block last_block
      else let blocks = (case req_to_blocks m request_id of None \<Rightarrow> [] | Some bs \<Rightarrow> bs);
               first_block = max first_block (case num_retired_blocks m request_id of None \<Rightarrow> 0 | Some n \<Rightarrow> n);
               last_block = min last_block (int (length blocks))
           in if last_block \<le> first_block then m
              else case retire_loop (null_block m) (nat first_block) (nat (last_block - first_block)) blocks [] of
                (blocks', freed) \<Rightarrow>
                  m\<lparr>req_to_blocks := (case req_to_blocks m request_id of None \<Rightarrow> req_to_blocks m
                                       | Some _ \<Rightarrow> (req_to_blocks m)(request_id \<mapsto> blocks')),
                    freed_log := (if freed \<noteq> [] then freed_log m @ [freed] else freed_log m),
                    num_retired_blocks := (num_retired_blocks m)(request_id \<mapsto> last_block)\<rparr>)"

text \<open>The cleanup that \<open>FREE_NEW\<close> adds to \<open>free\<close>.\<close>

definition forget_retired :: "mamba_manager \<Rightarrow> string \<Rightarrow> mamba_manager" where
  "forget_retired m request_id = m\<lparr>num_retired_blocks := (num_retired_blocks m)(request_id := None)\<rparr>"

subsection \<open>The loop\<close>

lemma retire_loop_spec:
  assumes "first + n \<le> length blocks" and "mb_null null"
  shows "retire_loop null first n blocks freed =
    (take first blocks @ map (\<lambda>b. if mb_null b then b else null) (take n (drop first blocks)) @ drop (first + n) blocks,
     freed @ rev (filter (\<lambda>b. \<not> mb_null b) (take n (drop first blocks))))"
  using assms
proof (induction n arbitrary: blocks freed)
  case 0
  then show ?case by simp
next
  case (Suc n)
  let ?i = "first + n" and ?b = "blocks ! (first + n)"
  have i: "?i < length blocks" using Suc.prems by simp
  have t: "take (Suc n) (drop first blocks) = take n (drop first blocks) @ [?b]"
    using i by (simp add: take_Suc_conv_app_nth)
  have d: "drop ?i blocks = ?b # drop (first + Suc n) blocks" using i by (simp add: Cons_nth_drop_Suc)
  show ?case
  proof (cases "mb_null ?b")
    case True
    with Suc.IH [of blocks freed] Suc.prems show ?thesis unfolding t by (simp add: d Let_def)
  next
    case False
    have u: "take first (blocks[?i := null]) = take first blocks"
      "take n (drop first (blocks[?i := null])) = take n (drop first blocks)"
      "drop ?i (blocks[?i := null]) = null # drop (first + Suc n) blocks"
      using i by (simp_all add: drop_update_swap d)
    from Suc.IH [of "blocks[?i := null]" "freed @ [?b]"] Suc.prems False show ?thesis unfolding t u by (simp add: Let_def)
  qed
qed


subsection \<open>Retirement\<close>

definition blocks_of :: "mamba_manager \<Rightarrow> string \<Rightarrow> mamba_block list" where
  "blocks_of m r = (case req_to_blocks m r of None \<Rightarrow> [] | Some bs \<Rightarrow> bs)"

definition mark_of :: "mamba_manager \<Rightarrow> string \<Rightarrow> int" where
  "mark_of m r = (case num_retired_blocks m r of None \<Rightarrow> 0 | Some n \<Rightarrow> n)"

definition live :: "mamba_block list \<Rightarrow> mamba_block list" where
  "live bs = filter (\<lambda>b. \<not> mb_null b) bs"

text \<open>The marks are prefixes that hold no state any more.\<close>

definition retired_ok :: "mamba_manager \<Rightarrow> bool" where
  "retired_ok m \<longleftrightarrow> mb_null (null_block m)
     \<and> (\<forall>r. 0 \<le> mark_of m r \<and> (\<forall>b \<in> set (take (nat (mark_of m r)) (blocks_of m r)). mb_null b))"

lemma remove_unfold:
  assumes "mamba_cache_mode m = ''align''" and "mb_null (null_block m)" and "0 \<le> mark_of m r"
    and "f = max first (mark_of m r)" and "l = min lst (int (length (blocks_of m r)))"
    and "mid = take (nat (l - f)) (drop (nat f) (blocks_of m r))"
  shows "remove_blocks_in_range super_rm m r first lst =
    (if l \<le> f then m
     else m\<lparr>req_to_blocks := (req_to_blocks m)(r \<mapsto> take (nat f) (blocks_of m r)
               @ map (\<lambda>b. if mb_null b then b else null_block m) mid @ drop (nat l) (blocks_of m r)),
            freed_log := (if live mid \<noteq> [] then freed_log m @ [rev (live mid)] else freed_log m),
            num_retired_blocks := (num_retired_blocks m)(r \<mapsto> l)\<rparr>)"
proof (cases "l \<le> f")
  case True
  with assms show ?thesis by (simp add: remove_blocks_in_range_def Let_def blocks_of_def mark_of_def)
next
  case False
  have "0 \<le> f" "l \<le> int (length (blocks_of m r))" using assms(3,4,5) by auto
  with False have f: "0 \<le> f" "nat f + nat (l - f) = nat l" "nat f + nat (l - f) \<le> length (blocks_of m r)" by linarith+
  obtain bs where bs: "req_to_blocks m r = Some bs" "blocks_of m r = bs"
    using False f assms(5) by (cases "req_to_blocks m r") (auto simp: blocks_of_def)
  note loop = retire_loop_spec [OF f(3) assms(2), of "[]"]
  show ?thesis
    using False assms(1,4,5,6) loop [unfolded f(2)] bs
    by (simp add: remove_blocks_in_range_def Let_def mark_of_def live_def)
qed

lemma live_simps [simp]: "live [] = []" "live (xs @ ys) = live xs @ live ys"
  by (simp_all add: live_def)

lemma live_retired: "mb_null n \<Longrightarrow> live (map (\<lambda>b. if mb_null b then b else n) bs) = []"
  by (induction bs) (auto simp: live_def)

lemma take_len: "length xs = n \<Longrightarrow> take n (xs @ ys) = xs"
  by auto

lemma three_parts:
  assumes "0 \<le> f" and "f \<le> l" and "l \<le> int (length bs)"
  shows "bs = take (nat f) bs @ take (nat (l - f)) (drop (nat f) bs) @ drop (nat l) bs"
proof -
  have "nat l = nat f + nat (l - f)" using assms(1,2) by (simp add: nat_diff_distrib')
  then have "drop (nat (l - f)) (drop (nat f) bs) = drop (nat l) bs" by (simp add: add.commute)
  then show ?thesis by (metis append_take_drop_id)
qed

text \<open>A retirement neither loses nor duplicates a state.\<close>

lemma retire_mset:
  assumes "mamba_cache_mode m = ''align''" and "retired_ok m"
    and m'_def: "m' = remove_blocks_in_range super_rm m r first lst"
  shows "mset (concat (freed_log m')) + mset (live (blocks_of m' r)) = mset (concat (freed_log m)) + mset (live (blocks_of m r))
    \<and> (\<forall>i. int i \<ge> lst \<and> i < length (blocks_of m r) \<longrightarrow> blocks_of m' r ! i = blocks_of m r ! i)
    \<and> length (blocks_of m' r) = length (blocks_of m r)
    \<and> (\<forall>q. q \<noteq> r \<longrightarrow> blocks_of m' q = blocks_of m q \<and> mark_of m' q = mark_of m q)"
proof -
  define f l mid where "f = max first (mark_of m r)" and "l = min lst (int (length (blocks_of m r)))"
    and "mid = take (nat (l - f)) (drop (nat f) (blocks_of m r))"
  have nn: "mb_null (null_block m)" "0 \<le> mark_of m r" using assms(2) by (auto simp: retired_ok_def)
  note u = remove_unfold [OF assms(1) nn f_def l_def mid_def, of super_rm, folded m'_def]
  show ?thesis
  proof (cases "l \<le> f")
    case True
    with u show ?thesis by simp
  next
    case False
    have fl: "0 \<le> f" "f \<le> l" "l \<le> int (length (blocks_of m r))" "l \<le> lst" using False nn by (auto simp: f_def l_def)
    let ?new = "map (\<lambda>b. if mb_null b then b else null_block m) mid"
    from False u have b': "blocks_of m' r = take (nat f) (blocks_of m r) @ ?new @ drop (nat l) (blocks_of m r)"
      and log': "concat (freed_log m') = concat (freed_log m) @ rev (live mid)"
      and other: "q \<noteq> r \<Longrightarrow> blocks_of m' q = blocks_of m q \<and> mark_of m' q = mark_of m q" for q
      by (auto simp: blocks_of_def mark_of_def)
    have b: "blocks_of m r = take (nat f) (blocks_of m r) @ mid @ drop (nat l) (blocks_of m r)"
      unfolding mid_def by (rule three_parts [OF fl(1,2,3)])
    have ms: "mset (live (blocks_of m r)) = mset (live (take (nat f) (blocks_of m r))) + mset (live mid) + mset (live (drop (nat l) (blocks_of m r)))"
      by (subst b) simp
    have len: "length (take (nat f) (blocks_of m r) @ ?new) = nat l"
      using fl by (simp add: mid_def nat_diff_distrib)
    have "blocks_of m' r ! i = blocks_of m r ! i" if "lst \<le> int i" "i < length (blocks_of m r)" for i
    proof -
      have "nat l \<le> i" using that(1) fl(4) by linarith
      then have "blocks_of m' r ! i = drop (nat l) (blocks_of m r) ! (i - nat l)"
        unfolding b' append_assoc [symmetric] nth_append len by simp
      then show ?thesis using \<open>nat l \<le> i\<close> that(2) by simp
    qed
    moreover have "length (blocks_of m' r) = length (blocks_of m r)"
      using arg_cong [OF b, of length] unfolding b' by simp
    moreover have "mset (concat (freed_log m')) + mset (live (blocks_of m' r)) = mset (concat (freed_log m)) + mset (live (blocks_of m r))"
      unfolding b' log' ms by (simp add: live_retired [OF nn(1)])
    ultimately show ?thesis using other by blast
  qed
qed


text \<open>Null gaps do not keep old states alive. A retirement that starts at or before the mark of the request
  leaves no state below its end (or below the end of the block list), advances the mark without moving
  it back, and keeps the invariant that everything below a mark is retired; forgetting the mark when the
  request is freed keeps it too.\<close>

lemma gaps_are_retired:
  assumes "mamba_cache_mode m = ''align''" and "retired_ok m" and "first \<le> mark_of m r"
    and m'_def: "m' = remove_blocks_in_range super_rm m r first lst"
  shows "retired_ok m' \<and> mark_of m r \<le> mark_of m' r
    \<and> (\<forall>b \<in> set (take (nat (min lst (int (length (blocks_of m r))))) (blocks_of m' r)). mb_null b)
    \<and> retired_ok (forget_retired m' r)"
proof -
  define f l mid where "f = max first (mark_of m r)" and "l = min lst (int (length (blocks_of m r)))"
    and "mid = take (nat (l - f)) (drop (nat f) (blocks_of m r))"
  have nn: "mb_null (null_block m)" "0 \<le> mark_of m r" and pre: "\<forall>b \<in> set (take (nat (mark_of m r)) (blocks_of m r)). mb_null b"
    using assms(2) by (auto simp: retired_ok_def)
  have f: "f = mark_of m r" using assms(3) by (simp add: f_def)
  note u = remove_unfold [OF assms(1) nn f_def l_def mid_def, of super_rm, folded m'_def]
  have forget: "retired_ok (forget_retired m r)" if "retired_ok m" for m
    using that by (auto simp: retired_ok_def forget_retired_def mark_of_def blocks_of_def)
  show ?thesis
  proof (cases "l \<le> f")
    case True
    with u have "m' = m" by simp
    moreover have "\<forall>b \<in> set (take (nat l) (blocks_of m r)). mb_null b"
      using pre True f set_take_subset_set_take [OF nat_mono, of l f "blocks_of m r"] by auto
    ultimately show ?thesis using assms(2) forget by (simp add: l_def)
  next
    case False
    let ?new = "map (\<lambda>b. if mb_null b then b else null_block m) mid"
    from False u have b': "blocks_of m' r = (take (nat f) (blocks_of m r) @ ?new) @ drop (nat l) (blocks_of m r)"
      and mk: "mark_of m' r = l" and nb: "null_block m' = null_block m"
      and other: "q \<noteq> r \<Longrightarrow> blocks_of m' q = blocks_of m q \<and> mark_of m' q = mark_of m q" for q
      by (auto simp: blocks_of_def mark_of_def)
    have fl: "0 \<le> f" "l \<le> int (length (blocks_of m r))" using nn f by (auto simp: l_def)
    have "length (take (nat f) (blocks_of m r) @ ?new) = nat l" using fl False by (simp add: mid_def)
    then have t: "take (nat l) (blocks_of m' r) = take (nat f) (blocks_of m r) @ ?new"
      unfolding b' by (rule take_len)
    have low: "\<forall>b \<in> set (take (nat l) (blocks_of m' r)). mb_null b" unfolding t using pre f nn by auto
    have "retired_ok m'" unfolding retired_ok_def
    proof (intro conjI allI)
      show "mb_null (null_block m')" using nb nn by simp
      fix q
      show "0 \<le> mark_of m' q" using other [of q] mk fl False assms(2) by (cases "q = r") (auto simp: retired_ok_def)
      show "\<forall>b \<in> set (take (nat (mark_of m' q)) (blocks_of m' q)). mb_null b"
        using other [of q] low mk assms(2) by (cases "q = r") (auto simp: retired_ok_def)
    qed
    moreover have "mark_of m r \<le> mark_of m' r" using mk f False by simp
    ultimately show ?thesis using low forget unfolding l_def by blast
  qed
qed

text \<open>The positions a retirement visits, and what it does at each.\<close>

lemma retire_exact:
  assumes "mamba_cache_mode m = ''align''" and "retired_ok m"
    and m'_def: "m' = remove_blocks_in_range super_rm m r first lst"
    and f_def: "f = max first (mark_of m r)" and l_def: "l = min lst (int (length (blocks_of m r)))"
  shows "concat (freed_log m') = concat (freed_log m) @ rev (live (take (nat (l - f)) (drop (nat f) (blocks_of m r))))"
    "blocks_of m' r = map (\<lambda>i. if f \<le> int i \<and> int i < l \<and> \<not> mb_null (blocks_of m r ! i) then null_block m else blocks_of m r ! i)
       [0..<length (blocks_of m r)]"
    "mark_of m' r = (if f < l then l else mark_of m r)"
proof -
  define mid where "mid = take (nat (l - f)) (drop (nat f) (blocks_of m r))"
  let ?new = "map (\<lambda>b. if mb_null b then b else null_block m) mid"
  have nn: "mb_null (null_block m)" "0 \<le> mark_of m r" using assms(2) by (auto simp: retired_ok_def)
  note u = remove_unfold [OF assms(1) nn f_def l_def mid_def, of super_rm, folded m'_def]
  have "f \<ge> 0" "l \<le> int (length (blocks_of m r))" using nn by (auto simp: f_def l_def)
  note fl = this
  show "concat (freed_log m') = concat (freed_log m) @ rev (live (take (nat (l - f)) (drop (nat f) (blocks_of m r))))"
    using u fl by (auto simp: mid_def)
  show "mark_of m' r = (if f < l then l else mark_of m r)"
    using u by (simp add: mark_of_def)
  show "blocks_of m' r = map (\<lambda>i. if f \<le> int i \<and> int i < l \<and> \<not> mb_null (blocks_of m r ! i) then null_block m else blocks_of m r ! i)
       [0..<length (blocks_of m r)]"
  proof (cases "l \<le> f")
    case True
    then have no: "(f \<le> int i \<and> int i < l \<and> P) = False" for i P by auto
    from True u have "m' = m" by simp
    then show ?thesis by (simp only: no if_False map_nth)
  next
    case False
    with u have b': "blocks_of m' r = take (nat f) (blocks_of m r) @ ?new @ drop (nat l) (blocks_of m r)"
      by (simp add: blocks_of_def)
    have len: "length mid = nat l - nat f" using False fl by (simp add: mid_def nat_diff_distrib)
    show ?thesis
    proof (rule nth_equalityI)
      show "length (blocks_of m' r) = length (map (\<lambda>i. if f \<le> int i \<and> int i < l \<and> \<not> mb_null (blocks_of m r ! i) then null_block m else blocks_of m r ! i)
          [0..<length (blocks_of m r)])"
        using False fl len by (simp add: b')
      fix i assume "i < length (blocks_of m' r)"
      then have i: "i < length (blocks_of m r)" using False fl len by (simp add: b')
      consider (before) "int i < f" | (inside) "f \<le> int i" "int i < l" | (behind) "l \<le> int i" by linarith
      then show "blocks_of m' r ! i = map (\<lambda>i. if f \<le> int i \<and> int i < l \<and> \<not> mb_null (blocks_of m r ! i) then null_block m else blocks_of m r ! i)
          [0..<length (blocks_of m r)] ! i"
      proof cases
        case before
        then show ?thesis using i fl by (simp add: b' nth_append)
      next
        case inside
        then have "i - nat f < nat l - nat f" "\<not> i < nat f" using False by linarith+
        with inside show ?thesis using i fl len by (simp add: b' nth_append) (simp add: mid_def)
      next
        case behind
        have L: "length (take (nat f) (blocks_of m r) @ ?new) = nat l" using False fl len by simp
        have "nat l \<le> i" using behind by linarith
        then have "blocks_of m' r ! i = blocks_of m r ! i"
          unfolding b' append_assoc [symmetric] nth_append L using i by simp
        with behind i show ?thesis by simp
      qed
    qed
  qed
qed

text \<open>(C30) Every obsolete state is freed, once, across null gaps. A retirement of the range from \<open>first\<close> to \<open>lst\<close> hands to
  the pool exactly the states at the positions from \<open>first\<close> or the mark of the request on (whichever is later)
  to \<open>lst\<close> or the end of the block list, from the back and whatever null blocks lie between them, puts the null
  block in the place of each, and leaves every other position and every other request as it was. The mark moves to
  the end of the range and never back. What was freed and what is still referenced together stay the same
  multiset, so that no state is freed twice; and if the range reaches back to the mark, no state is left before its
  end, and everything before a mark stays retired.\<close>

theorem retire_frees_exactly:
  assumes "mamba_cache_mode m = ''align''" and "retired_ok m"
    and "m' = remove_blocks_in_range super_rm m r first lst"
    and "f = max first (mark_of m r)" and "l = min lst (int (length (blocks_of m r)))"
  shows "concat (freed_log m') = concat (freed_log m) @ rev (live (take (nat (l - f)) (drop (nat f) (blocks_of m r))))
    \<and> blocks_of m' r = map (\<lambda>i. if f \<le> int i \<and> int i < l \<and> \<not> mb_null (blocks_of m r ! i) then null_block m else blocks_of m r ! i)
        [0..<length (blocks_of m r)]
    \<and> mark_of m' r = (if f < l then l else mark_of m r)
    \<and> (\<forall>q. q \<noteq> r \<longrightarrow> blocks_of m' q = blocks_of m q \<and> mark_of m' q = mark_of m q)
    \<and> mset (concat (freed_log m')) + mset (live (blocks_of m' r)) = mset (concat (freed_log m)) + mset (live (blocks_of m r))
    \<and> (first \<le> mark_of m r \<longrightarrow> retired_ok m' \<and> list_all mb_null (take (nat l) (blocks_of m' r)) \<and> retired_ok (forget_retired m' r))"
  using retire_exact [OF assms] retire_mset [OF assms(1-3)] gaps_are_retired [OF assms(1,2) _ assms(3)]
  unfolding assms(5) list_all_iff by blast

definition demo_mamba :: mamba_manager where
  "demo_mamba = \<lparr>mamba_cache_mode = ''align'',
     req_to_blocks = [''r'' \<mapsto> [\<lparr>mb_id = 3, mb_null = False\<rparr>, \<lparr>mb_id = 0, mb_null = True\<rparr>, \<lparr>mb_id = 5, mb_null = False\<rparr>]],
     num_retired_blocks = Map.empty, null_block = \<lparr>mb_id = 0, mb_null = True\<rparr>, freed_log = []\<rparr>"

lemma demo_mamba_ok: "mamba_cache_mode demo_mamba = ''align''" "retired_ok demo_mamba" "(0 :: int) \<le> mark_of demo_mamba ''r''"
  by (simp_all add: demo_mamba_def retired_ok_def mark_of_def)

theorem retire_frees_exactly_witness:
  "concat (freed_log (remove_blocks_in_range (\<lambda>m _ _ _. m) demo_mamba ''r'' 0 3)) = [\<lparr>mb_id = 5, mb_null = False\<rparr>, \<lparr>mb_id = 3, mb_null = False\<rparr>]
   \<and> list_all mb_null (blocks_of (remove_blocks_in_range (\<lambda>m _ _ _. m) demo_mamba ''r'' 0 3) ''r'')"
  using retire_frees_exactly [OF demo_mamba_ok(1,2) refl refl refl, of "\<lambda>m _ _ _. m" "''r''" 0 3] demo_mamba_ok(3)
  by (simp add: demo_mamba_def blocks_of_def mark_of_def live_def eval_nat_numeral upt_rec)

end
