(* ===== verification/Segment_Cache.thy ===== *)
theory Segment_Cache
  imports Glm_Prelude "HOL-Library.Multiset"
begin

text \<open>
  The token-exact segment cache of \<^verbatim>\<open>overlay/role_token_cache.py\<close>: the qualification of a fast tokenizer from
  its serialized configuration, the split of a prompt at the added tokens (the leftmost-longest
  alternation that \<open>re.finditer\<close> walks), the cached encoding of the segments with hit and miss counts, and
  the byte-bounded least-recently-used store. The tokenizer itself is a parameter: \<open>tok\<close> is its encoding
  of a string without special tokens and truncation, \<open>stock\<close> the unmodified call; \<open>sys.getsizeof\<close> is a
  record of parameters.
\<close>

subsection \<open>Qualification\<close>

datatype tjson = TNull | TBool bool | TNum int | TStr string | TArr "tjson list" | TDict "(string \<times> tjson) list"

fun t_index :: "tjson \<Rightarrow> string \<Rightarrow> tjson res" where
  "t_index (TDict kvs) k = (case map_of kvs k of None \<Rightarrow> Inl KeyError | Some v \<Rightarrow> Inr v)"
| "t_index _ k = Inl TypeError"

fun t_get :: "tjson \<Rightarrow> string \<Rightarrow> tjson \<Rightarrow> tjson res" where
  "t_get (TDict kvs) k d = Inr (case map_of kvs k of None \<Rightarrow> d | Some v \<Rightarrow> v)"
| "t_get _ k d = Inl AttributeError"

fun t_truthy :: "tjson \<Rightarrow> bool" where
  "t_truthy TNull = False"
| "t_truthy (TBool b) = b"
| "t_truthy (TNum n) = (n \<noteq> 0)"
| "t_truthy (TStr s) = (s \<noteq> [])"
| "t_truthy (TArr vs) = (vs \<noteq> [])"
| "t_truthy (TDict kvs) = (kvs \<noteq> [])"

text \<open>A pre-tokenizer of the qualified family.\<close>

definition stateless_part :: "tjson \<Rightarrow> bool" where
  "stateless_part p = res_default False
     (res_bind (t_index p ''type'') (\<lambda>ty.
        if ty = TStr ''Split'' then Inr True
        else if ty = TStr ''ByteLevel'' then res_bind (t_get p ''add_prefix_space'' TNull) (\<lambda>v. Inr (v = TBool False))
        else Inr False))"

text \<open>An added token that is a plain separator: its content, if it is one.\<close>

definition plain_added :: "tjson \<Rightarrow> string option" where
  "plain_added t =
     (case t_index t ''content'' of
        Inr (TStr c) \<Rightarrow>
          if c \<noteq> [] \<and> list_all (\<lambda>f. case t_index t f of Inl e \<Rightarrow> False | Inr v \<Rightarrow> \<not> t_truthy v)
                       [''single_word'', ''lstrip'', ''rstrip'', ''normalized'']
          then Some c else None
      | _ \<Rightarrow> None)"

definition config_pattern :: "tjson \<Rightarrow> string list option" where
  "config_pattern config =
     (case (t_index config ''normalizer'', t_index config ''model'', t_index config ''pre_tokenizer'',
            t_index config ''post_processor'', t_index config ''added_tokens'') of
        (Inr TNull, Inr model, Inr pre, Inr post, Inr (TArr added)) \<Rightarrow>
          if t_index model ''type'' = Inr (TStr ''BPE'') \<and> t_get model ''dropout'' TNull = Inr TNull
             \<and> (case t_index pre ''type'' of
                  Inl e \<Rightarrow> False
                | Inr ty \<Rightarrow>
                    (case (if ty = TStr ''Sequence'' then t_get pre ''pretokenizers'' (TArr []) else Inr (TArr [pre])) of
                       Inr (TArr parts) \<Rightarrow> parts \<noteq> [] \<and> list_all stateless_part parts
                     | _ \<Rightarrow> False))
             \<and> (post = TNull \<or> t_index post ''type'' = Inr (TStr ''ByteLevel''))
             \<and> added \<noteq> [] \<and> list_all (\<lambda>t. plain_added t \<noteq> None) added
          then Some (sort_key (\<lambda>c. - int (length c)) (map (\<lambda>t. the (plain_added t)) added))
          else None
      | _ \<Rightarrow> None)"

text \<open>The tokenizer as the cache sees it; \<open>tk_config\<close> is \<open>json.loads(backend.to_str())\<close>, absent without a backend.\<close>

record seg_tokenizer =
  tk_is_fast :: bool
  tk_config :: "tjson res option"
  tk_split_special :: bool
  tk_encode_special :: bool

definition qualify :: "seg_tokenizer \<Rightarrow> string list option" where
  "qualify tk =
     (if \<not> tk_is_fast tk then None
      else case tk_config tk of
        None \<Rightarrow> None
      | Some (Inl e) \<Rightarrow> None
      | Some (Inr config) \<Rightarrow> config_pattern config)"

subsection \<open>The split at the added tokens\<close>




subsection \<open>The cache\<close>

type_synonym seg_key = "string option \<times> string"

record seg_cache =
  seg_pattern :: "string list option"
  max_bytes :: int
  max_entries :: nat
  seg_entries :: "(seg_key \<times> int list \<times> int) list"
  seg_bytes :: int
  seg_hits :: int
  seg_misses :: int
  announced_hit :: bool

definition seg_init :: "seg_tokenizer \<Rightarrow> int \<Rightarrow> nat \<Rightarrow> seg_cache" where
  "seg_init tk mb me = \<lparr>seg_pattern = qualify tk, max_bytes = mb, max_entries = me, seg_entries = [], seg_bytes = 0,
     seg_hits = 0, seg_misses = 0, announced_hit = False\<rparr>"

definition MAX_BYTES :: int where "MAX_BYTES = 32 * 1024 * 1024"
definition MAX_ENTRIES :: nat where "MAX_ENTRIES = 128"
definition MIN_CHARS :: nat where "MIN_CHARS = 1024"

definition make_cache :: "environ \<Rightarrow> seg_tokenizer option \<Rightarrow> seg_cache option res" where
  "make_cache env tokenizer =
     (let raw = env_get env ''GLM53_ROLE_TOKEN_CACHE'' ''0''
      in if raw \<notin> {''0'', ''1''} then Inl RuntimeError
         else case tokenizer of
           None \<Rightarrow> Inr None
         | Some tk \<Rightarrow> if raw = ''0'' then Inr None else Inr (Some (seg_init tk MAX_BYTES MAX_ENTRIES)))"

text \<open>A raw prompt is a dict; only the salt is copied from the extras.\<close>

definition with_request_salt :: "(string \<rightharpoonup> pyval) list \<Rightarrow> (string \<rightharpoonup> pyval) option \<Rightarrow> (string \<rightharpoonup> pyval) list" where
  "with_request_salt prompts extras =
     (case extras of
        None \<Rightarrow> prompts
      | Some ex \<Rightarrow> (case ex ''cache_salt'' of None \<Rightarrow> prompts | Some s \<Rightarrow> map (\<lambda>p. p(''cache_salt'' \<mapsto> s)) prompts))"

text \<open>\<open>sys.getsizeof\<close> of the parts of an entry.\<close>

record sizes =
  sz_key :: "seg_key \<Rightarrow> int"
  sz_text :: "string \<Rightarrow> int"
  sz_salt :: "string option \<Rightarrow> int"
  sz_tuple :: "int list \<Rightarrow> int"
  sz_int :: "int \<Rightarrow> int"

definition entry_size :: "sizes \<Rightarrow> seg_key \<Rightarrow> int list \<Rightarrow> int" where
  "entry_size sz key tokens = sz_key sz key + sz_text sz (snd key) + sz_salt sz (fst key) + sz_tuple sz tokens
     + sum_list (map (sz_int sz) tokens) + 256"

definition move_to_end :: "seg_key \<Rightarrow> (seg_key \<times> 'v) list \<Rightarrow> (seg_key \<times> 'v) list" where
  "move_to_end key es = filter (\<lambda>e. fst e \<noteq> key) es @ filter (\<lambda>e. fst e = key) es"

definition slice :: "string \<Rightarrow> nat \<Rightarrow> nat \<Rightarrow> string" where
  "slice s i j = take (j - i) (drop i s)"

text \<open>The loop over the matches: ids so far, pending entries, and the cache with its counts and order.\<close>

fun encode_loop :: "(string \<Rightarrow> int list) \<Rightarrow> string option \<Rightarrow> string \<Rightarrow> (nat \<times> nat) list \<Rightarrow> nat \<Rightarrow> int list
    \<Rightarrow> (seg_key \<times> int list) list \<Rightarrow> seg_cache \<Rightarrow> int list \<times> (seg_key \<times> int list) list \<times> nat \<times> seg_cache" where
  "encode_loop tok salt s [] start ids pending c = (ids, pending, start, c)"
| "encode_loop tok salt s ((i, j) # ms) start ids pending c =
     (let chunk = slice s start i;
          key = (salt, chunk);
          (tokens, pending, c) =
            (if chunk = [] then ([], pending, c)
             else case map_of (seg_entries c) key of
               None \<Rightarrow>
                 let tokens = tok chunk
                 in (tokens, if MIN_CHARS \<le> length chunk then pending @ [(key, tokens)] else pending,
                     c\<lparr>seg_misses := seg_misses c + 1\<rparr>)
             | Some cached \<Rightarrow>
                 (fst cached, pending, c\<lparr>seg_hits := seg_hits c + 1, seg_entries := move_to_end key (seg_entries c)\<rparr>))
      in encode_loop tok salt s ms j (ids @ tokens @ tok (slice s i j)) pending c)"

text \<open>The eviction loop; \<open>popitem\<close> of an empty dict raises.\<close>

fun evict :: "int \<Rightarrow> nat \<Rightarrow> (seg_key \<times> int list \<times> int) list \<Rightarrow> int \<Rightarrow> ((seg_key \<times> int list \<times> int) list \<times> int) res" where
  "evict mb me [] b = (if mb < b then Inl KeyError else Inr ([], b))"
| "evict mb me (e # es) b =
     (if mb < b \<or> me < length (e # es) then evict mb me es (b - snd (snd e)) else Inr (e # es, b))"

definition store_entry :: "sizes \<Rightarrow> seg_key \<times> int list \<Rightarrow> seg_cache \<Rightarrow> seg_cache res" where
  "store_entry sz kt c =
     (let key = fst kt; tokens = snd kt; size = entry_size sz key tokens
      in if max_bytes c < size then Inr c
         else let previous = map_of (seg_entries c) key;
                  es = filter (\<lambda>e. fst e \<noteq> key) (seg_entries c);
                  b = (case previous of None \<Rightarrow> seg_bytes c | Some p \<Rightarrow> seg_bytes c - snd p)
              in res_bind (evict (max_bytes c) (max_entries c) (es @ [(key, tokens, size)]) (b + size)) (\<lambda>(es, b).
                   Inr (c\<lparr>seg_entries := es, seg_bytes := b\<rparr>)))"

fun store_all :: "sizes \<Rightarrow> (seg_key \<times> int list) list \<Rightarrow> seg_cache \<Rightarrow> seg_cache res" where
  "store_all sz [] c = Inr c"
| "store_all sz (kt # kts) c = res_bind (store_entry sz kt c) (store_all sz kts)"







subsection \<open>The store\<close>

definition bytes_of :: "(seg_key \<times> int list \<times> int) list \<Rightarrow> int" where
  "bytes_of es = sum_list (map (\<lambda>e. snd (snd e)) es)"

text \<open>Well-formed stores: one entry per key, exact byte accounting, both bounds kept, and every entry holds
  the tokenizer's own encoding of its segment with its own size.\<close>

definition store_ok :: "(string \<Rightarrow> int list) \<Rightarrow> sizes \<Rightarrow> seg_cache \<Rightarrow> bool" where
  "store_ok tok sz c \<longleftrightarrow> distinct (map fst (seg_entries c)) \<and> seg_bytes c = bytes_of (seg_entries c)
     \<and> seg_bytes c \<le> max_bytes c \<and> length (seg_entries c) \<le> max_entries c \<and> 0 \<le> max_bytes c
     \<and> (\<forall>(key, tokens, size) \<in> set (seg_entries c). tokens = tok (snd key) \<and> size = entry_size sz key tokens)"

lemma bytes_of_simps [simp]: "bytes_of [] = 0" "bytes_of (e # es) = snd (snd e) + bytes_of es" "bytes_of (xs @ ys) = bytes_of xs + bytes_of ys"
  by (simp_all add: bytes_of_def)

lemma evict_spec:
  assumes "b = bytes_of es" and "0 \<le> mb"
  shows "\<exists>es'. evict mb me es b = Inr (es', bytes_of es') \<and> suffix es' es \<and> bytes_of es' \<le> mb \<and> length es' \<le> me"
  using assms
proof (induction es arbitrary: b)
  case Nil
  then show ?case by simp
next
  case (Cons e es)
  show ?case
  proof (cases "mb < b \<or> me < length (e # es)")
    case True
    with Cons.IH [of "b - snd (snd e)"] Cons.prems obtain es' where
      "evict mb me (e # es) b = Inr (es', bytes_of es')" "suffix es' es" "bytes_of es' \<le> mb" "length es' \<le> me" by auto
    then show ?thesis by (metis suffix_ConsI)
  next
    case False
    with Cons.prems show ?thesis by auto
  qed
qed

lemma bytes_of_partition: "bytes_of (filter P es) + bytes_of (filter (\<lambda>e. \<not> P e) es) = bytes_of es"
  by (induction es) auto

lemma filter_key: "distinct (map fst es) \<Longrightarrow>
   filter (\<lambda>e. fst e = k) es = (case map_of es k of None \<Rightarrow> [] | Some v \<Rightarrow> [(k, v)])"
proof (induction es)
  case (Cons e es)
  then have "map_of es (fst e) = None" by (simp add: map_of_eq_None_iff)
  with Cons show ?case by (cases "fst e = k") auto
qed simp

lemma bytes_without:
  assumes "distinct (map fst es)"
  shows "bytes_of (filter (\<lambda>e. fst e \<noteq> k) es) = bytes_of es - (case map_of es k of None \<Rightarrow> 0 | Some p \<Rightarrow> snd p)"
  using bytes_of_partition [of "\<lambda>e. fst e = k" es] filter_key [OF assms, of k] by (auto split: option.splits)

lemma distinct_suffix: "distinct ys \<Longrightarrow> suffix xs ys \<Longrightarrow> distinct xs"
  by (auto simp: suffix_def)

lemma map_suffix: "suffix xs ys \<Longrightarrow> suffix (map f xs) (map f ys)"
  by (auto simp: suffix_def)

lemma store_entry_ok:
  assumes "store_ok tok sz c" and "snd kt = tok (snd (fst kt))"
  shows "\<exists>c'. store_entry sz kt c = Inr c' \<and> store_ok tok sz c' \<and> seg_pattern c' = seg_pattern c \<and> seg_hits c' = seg_hits c
     \<and> max_bytes c' = max_bytes c \<and> max_entries c' = max_entries c"
proof (cases "max_bytes c < entry_size sz (fst kt) (snd kt)")
  case True
  with assms show ?thesis by (simp add: store_entry_def)
next
  case False
  let ?key = "fst kt" and ?es = "filter (\<lambda>e. fst e \<noteq> fst kt) (seg_entries c)"
  let ?new = "?es @ [(fst kt, snd kt, entry_size sz (fst kt) (snd kt))]"
  let ?b = "(case map_of (seg_entries c) ?key of None \<Rightarrow> seg_bytes c | Some p \<Rightarrow> seg_bytes c - snd p)"
  have ok: "distinct (map fst (seg_entries c))" "seg_bytes c = bytes_of (seg_entries c)" "0 \<le> max_bytes c"
    "\<forall>(key, tokens, size) \<in> set (seg_entries c). tokens = tok (snd key) \<and> size = entry_size sz key tokens"
    using assms(1) by (auto simp: store_ok_def)
  have "?b + entry_size sz (fst kt) (snd kt) = bytes_of ?new"
    using bytes_without [OF ok(1), of ?key] ok(2) by (auto split: option.splits)
  from evict_spec [OF this ok(3), of "max_entries c"] obtain es' where
    e: "evict (max_bytes c) (max_entries c) ?new (?b + entry_size sz (fst kt) (snd kt)) = Inr (es', bytes_of es')"
      "suffix es' ?new" "bytes_of es' \<le> max_bytes c" "length es' \<le> max_entries c" by blast
  have "distinct (map fst ?new)" using ok(1) by (auto simp: distinct_map_filter)
  then have d: "distinct (map fst es')" by (rule distinct_suffix) (rule map_suffix [OF e(2)])
  have "set es' \<subseteq> set ?new" using e(2) by (rule set_mono_suffix)
  then have "\<forall>(key, tokens, size) \<in> set es'. tokens = tok (snd key) \<and> size = entry_size sz key tokens"
  proof (intro ballI)
    fix e1
    assume "e1 \<in> set es'"
    with \<open>set es' \<subseteq> set ?new\<close> have "e1 \<in> set (seg_entries c) \<or> e1 = (fst kt, snd kt, entry_size sz (fst kt) (snd kt))" by auto
    with ok(4) assms(2) show "case e1 of (key, tokens, n) \<Rightarrow> tokens = tok (snd key) \<and> n = entry_size sz key tokens"
      by auto
  qed
  with d e ok(3) False show ?thesis
    by (auto simp: store_entry_def Let_def store_ok_def)
qed

lemma store_all_ok:
  assumes "store_ok tok sz c" and "\<forall>kt \<in> set kts. snd kt = tok (snd (fst kt))"
  shows "\<exists>c'. store_all sz kts c = Inr c' \<and> store_ok tok sz c' \<and> seg_pattern c' = seg_pattern c \<and> seg_hits c' = seg_hits c
     \<and> max_bytes c' = max_bytes c \<and> max_entries c' = max_entries c"
  using assms
proof (induction kts arbitrary: c)
  case Nil
  then show ?case by simp
next
  case (Cons kt kts)
  from store_entry_ok [OF Cons.prems(1), of kt] Cons.prems(2) obtain c1 where
    c1: "store_entry sz kt c = Inr c1" "store_ok tok sz c1" "seg_pattern c1 = seg_pattern c" "seg_hits c1 = seg_hits c"
      "max_bytes c1 = max_bytes c" "max_entries c1 = max_entries c" by auto
  from Cons.IH [OF c1(2)] Cons.prems(2) c1 show ?case by auto
qed




subsection \<open>The encoding\<close>








text \<open>(C32) The store stays within its budget. A new cache is well-formed for any non-negative budget, and
  storing any list of freshly encoded segments terminates without an exception and leaves at most the
  allowed entries and bytes, with the byte counter equal to the sizes of what is stored.\<close>

theorem store_within_budget:
  assumes "0 \<le> mb" and "\<forall>kt \<in> set kts. snd kt = tok (snd (fst kt))"
  shows "\<exists>c. store_all sz kts (seg_init tk mb me) = Inr c \<and> seg_bytes c \<le> mb \<and> length (seg_entries c) \<le> me
    \<and> seg_bytes c = bytes_of (seg_entries c) \<and> distinct (map fst (seg_entries c))"
proof -
  have "store_ok tok sz (seg_init tk mb me)" using assms(1) by (simp add: store_ok_def seg_init_def)
  from store_all_ok [OF this assms(2)] show ?thesis by (auto simp: store_ok_def seg_init_def)
qed

text \<open>Two caches that a request with this salt cannot tell apart.\<close>

definition same_salt :: "string option \<Rightarrow> seg_cache \<Rightarrow> seg_cache \<Rightarrow> bool" where
  "same_salt salt c d \<longleftrightarrow> seg_hits c = seg_hits d \<and> seg_misses c = seg_misses d
     \<and> (\<forall>s. map_of (seg_entries c) (salt, s) = map_of (seg_entries d) (salt, s))"

lemma map_of_without: "map_of (filter (\<lambda>e. fst e \<noteq> k) es) k' = (if k' = k then None else map_of es k')"
  by (induction es) auto

lemma map_of_only: "map_of (filter (\<lambda>e. fst e = k) es) k' = (if k' = k then map_of es k else None)"
  by (induction es) auto

lemma map_of_move: "map_of (move_to_end k es) k' = map_of es k'"
  by (auto simp: move_to_end_def map_of_append map_add_def map_of_without map_of_only split: option.splits)

lemma encode_loop_salt:
  assumes "same_salt salt c d"
  shows "case (encode_loop tok salt s ms start ids pending c, encode_loop tok salt s ms start ids pending d) of
     ((ids1, p1, st1, c1), (ids2, p2, st2, d1)) \<Rightarrow> ids1 = ids2 \<and> p1 = p2 \<and> st1 = st2 \<and> same_salt salt c1 d1"
  using assms
proof (induction ms arbitrary: start ids pending c d)
  case Nil
  then show ?case by simp
next
  case (Cons m ms)
  obtain i j where m: "m = (i, j)" by (cases m)
  let ?key = "(salt, slice s start i)"
  have look: "map_of (seg_entries c) ?key = map_of (seg_entries d) ?key" using Cons.prems by (simp add: same_salt_def)
  have miss: "same_salt salt (c\<lparr>seg_misses := seg_misses c + 1\<rparr>) (d\<lparr>seg_misses := seg_misses d + 1\<rparr>)"
    and hit: "same_salt salt (c\<lparr>seg_hits := seg_hits c + 1, seg_entries := move_to_end ?key (seg_entries c)\<rparr>)
        (d\<lparr>seg_hits := seg_hits d + 1, seg_entries := move_to_end ?key (seg_entries d)\<rparr>)"
    using Cons.prems by (simp_all add: same_salt_def map_of_move)
  show ?case
    using Cons.IH [OF Cons.prems] Cons.IH [OF miss] Cons.IH [OF hit] look
    by (cases "map_of (seg_entries d) ?key") (auto simp: m Let_def)
qed

lemma encode_loop_pending:
  assumes "\<forall>kt \<in> set p. fst (fst kt) = salt" and "encode_loop tok salt s ms start ids p c = (ids', p', st', c')"
  shows "\<forall>kt \<in> set p'. fst (fst kt) = salt"
  using assms
proof (induction ms arbitrary: start ids p c)
  case Nil
  then show ?case by simp
next
  case (Cons m ms)
  obtain i j where m: "m = (i, j)" by (cases m)
  let ?key = "(salt, slice s start i)"
  let ?p = "if MIN_CHARS \<le> length (slice s start i) then p @ [(?key, tok (slice s start i))] else p"
  have p: "\<forall>kt \<in> set ?p. fst (fst kt) = salt" using Cons.prems(1) by simp
  show ?case
    using Cons.prems(2) Cons.IH [OF Cons.prems(1)] Cons.IH [OF p]
    by (cases "slice s start i = []"; cases "map_of (seg_entries c) ?key") (simp_all add: m Let_def)
qed

text \<open>(C33) Segments of one salt are never served to another. Two caches that have the same pattern and counters
  and agree on the entries of a request's salt give the loop over the request's segments the same ids, the
  same segments to store, and the same hits and misses, whatever entries the other salts have.\<close>

theorem salt_isolation:
  assumes "same_salt salt c d" and "encode_loop tok salt s ms 0 [] [] c = (ids1, p1, st1, c1)"
    and "encode_loop tok salt s ms 0 [] [] d = (ids2, p2, st2, d1)"
  shows "ids1 = ids2 \<and> p1 = p2 \<and> seg_hits c1 = seg_hits d1 \<and> seg_misses c1 = seg_misses d1 \<and> (\<forall>kt \<in> set p1. fst (fst kt) = salt)"
  using assms encode_loop_salt [OF assms(1), of tok s ms 0 "[]" "[]"] encode_loop_pending [OF _ assms(2)]
  by (simp add: same_salt_def)

subsection \<open>The pieces are the text\<close>





subsection \<open>Instances\<close>

text \<open>A tokenizer that qualifies: byte level, one added token, one id per character.\<close>

definition demo_tok :: "string \<Rightarrow> int list" where "demo_tok = map (\<lambda>ch. int (of_char ch))"


definition demo_sizes :: sizes where
  "demo_sizes = \<lparr>sz_key = (\<lambda>_. 56), sz_text = (\<lambda>s. 49 + int (length s)), sz_salt = (\<lambda>_. 16), sz_tuple = (\<lambda>ts. 40 + 8 * int (length ts)), sz_int = (\<lambda>_. 28)\<rparr>"

definition demo_added :: tjson where
  "demo_added = TDict [(''content'', TStr ''<|user|>''), (''single_word'', TBool False), (''lstrip'', TBool False),
     (''rstrip'', TBool False), (''normalized'', TBool False)]"

definition demo_config :: tjson where
  "demo_config = TDict [(''normalizer'', TNull), (''model'', TDict [(''type'', TStr ''BPE'')]),
     (''pre_tokenizer'', TDict [(''type'', TStr ''ByteLevel''), (''add_prefix_space'', TBool False)]),
     (''post_processor'', TNull), (''added_tokens'', TArr [demo_added])]"

definition demo_tk :: seg_tokenizer where
  "demo_tk = \<lparr>tk_is_fast = True, tk_config = Some (Inr demo_config), tk_split_special = False, tk_encode_special = False\<rparr>"




theorem store_within_budget_witness:
  "\<exists>c. store_all demo_sizes [((None, ''hello''), demo_tok ''hello'')] (seg_init demo_tk 1000 1) = Inr c \<and> seg_bytes c \<le> 1000"
  using store_within_budget [of 1000 "[((None, ''hello''), demo_tok ''hello'')]" demo_tok demo_sizes demo_tk 1] by auto

definition demo_other :: seg_cache where
  "demo_other = (seg_init demo_tk MAX_BYTES MAX_ENTRIES)\<lparr>seg_entries := [((Some ''tenant'', ''abc''), [7, 7, 7], 400)]\<rparr>"

theorem salt_isolation_witness:
  "fst (encode_loop demo_tok None ''abc<|user|>'' [(3, 11)] 0 [] [] (seg_init demo_tk MAX_BYTES MAX_ENTRIES))
   = fst (encode_loop demo_tok None ''abc<|user|>'' [(3, 11)] 0 [] [] demo_other)"
proof -
  have "same_salt None (seg_init demo_tk MAX_BYTES MAX_ENTRIES) demo_other" by (simp add: same_salt_def demo_other_def seg_init_def)
  from salt_isolation [OF this, of demo_tok "''abc<|user|>''" "[(3, 11)]"] show ?thesis
    by (metis prod.collapse)
qed

end
