(* ===== verification/Hybrid_Cache.thy ===== *)
theory Hybrid_Cache
  imports Glm_Prelude
begin

text \<open>
  The hybrid prefix cache of the KV coordinator: the EAGLE fallback and the hit-length step of
  \<^verbatim>\<open>overlay/patch_hybrid_prefix_hit.py\<close> (the drafter's sliding-window group does not shorten the
  hybrid hit), and the per-group retention of \<^verbatim>\<open>overlay/patch_apc_per_group_retention.py\<close> (the
  environment override, the exempt groups, the resolved vector and its validation). The lookups of the
  single groups are vLLM code and appear as the list of their results.
\<close>

subsection \<open>Specs and groups\<close>

text \<open>A spec by class name with the attributes the code reads, or a uniform spec that wraps several.\<close>

datatype kv_spec =
    KvSpec string "int option" "int option"
  | KvUniform "kv_spec list"

fun inner_kv_spec :: "kv_spec \<Rightarrow> kv_spec" where
  "inner_kv_spec (KvUniform (s # ss)) = s"
| "inner_kv_spec s = s"

fun spec_class :: "kv_spec \<Rightarrow> string" where
  "spec_class (KvSpec cls w b) = cls"
| "spec_class (KvUniform ss) = ''UniformTypeKVCacheSpecs''"

definition is_draft_swa_spec :: "kv_spec \<Rightarrow> bool" where
  "is_draft_swa_spec s \<longleftrightarrow> spec_class (inner_kv_spec s) = ''SlidingWindowSpec''"

definition swa_ids :: "kv_spec list \<Rightarrow> nat set" where
  "swa_ids groups = set (filter (\<lambda>i. is_draft_swa_spec (groups ! i)) [0..<length groups])"

text \<open>The fallback before and after the edit (\<open>EAGLE_OLD\<close>, \<open>EAGLE_NEW\<close>).\<close>

definition eagle_groups_old :: "bool \<Rightarrow> nat set \<Rightarrow> kv_spec list \<Rightarrow> nat set" where
  "eagle_groups_old use_eagle flagged groups = (if use_eagle \<and> flagged = {} then {0..<length groups} else flagged)"

definition eagle_groups :: "bool \<Rightarrow> nat set \<Rightarrow> kv_spec list \<Rightarrow> nat set" where
  "eagle_groups use_eagle flagged groups =
     (if use_eagle \<and> flagged = {} then (if swa_ids groups \<noteq> {} then swa_ids groups else {0..<length groups}) else flagged)"

subsection \<open>The hybrid hit\<close>

text \<open>The state of one pass over the attention groups, and what the lookup of a group returns.\<close>

record hit_state =
  curr_hit_length :: int
  longest_hit_length :: int
  eagle_verified :: "nat set"
  hit_blocks_by_group :: "nat \<rightharpoonup> nat list"
  hit_length_by_group :: "nat \<rightharpoonup> int"

record group_hit =
  gh_idx :: nat
  gh_spec :: kv_spec
  gh_group_ids :: "nat list"
  gh_blocks :: "nat list list"
  gh_length :: int
  gh_drop_eagle :: bool

fun record_hits :: "(nat \<times> nat list) list \<Rightarrow> int \<Rightarrow> hit_state \<Rightarrow> hit_state" where
  "record_hits [] n st = st"
| "record_hits ((g, bs) # gbs) n st = record_hits gbs n
     (st\<lparr>hit_blocks_by_group := (hit_blocks_by_group st)(g \<mapsto> bs), hit_length_by_group := (hit_length_by_group st)(g \<mapsto> n)\<rparr>)"

definition verify_eagle :: "group_hit \<Rightarrow> hit_state \<Rightarrow> hit_state" where
  "verify_eagle h st =
     (if gh_drop_eagle h then st\<lparr>eagle_verified := insert (gh_idx h) (eagle_verified st)\<rparr>
      else if gh_length h < curr_hit_length st then st\<lparr>eagle_verified := {}\<rparr>
      else st)"

definition hit_step_old :: "group_hit \<Rightarrow> hit_state \<Rightarrow> hit_state" where
  "hit_step_old h st =
     (let st = verify_eagle h st;
          st = st\<lparr>curr_hit_length := gh_length h\<rparr>;
          st = record_hits (zip (gh_group_ids h) (gh_blocks h)) (gh_length h) st
      in st\<lparr>longest_hit_length := max (longest_hit_length st) (curr_hit_length st)\<rparr>)"

definition hit_step :: "group_hit \<Rightarrow> hit_state \<Rightarrow> hit_state" where
  "hit_step h st =
     (let st = verify_eagle h st
      in if is_draft_swa_spec (gh_spec h)
         then if curr_hit_length st \<le> gh_length h
              then record_hits (zip (gh_group_ids h) (gh_blocks h)) (gh_length h) st
              else st
         else let st = st\<lparr>curr_hit_length := gh_length h\<rparr>;
                  st = record_hits (zip (gh_group_ids h) (gh_blocks h)) (gh_length h) st
              in st\<lparr>longest_hit_length := max (longest_hit_length st) (curr_hit_length st)\<rparr>)"

subsection \<open>Retention\<close>

definition swa_retention_env :: "environ \<Rightarrow> int \<Rightarrow> int \<Rightarrow> int option res" where
  "swa_retention_env env scheduler_block_size max_interval =
     (let raw = env_get env ''VLLM_PREFIX_CACHE_RETENTION_INTERVAL_SWA'' ''''
      in if py_strip raw = [] then Inr None
         else case py_int_str (py_strip raw) of
           None \<Rightarrow> Inl ValueError
         | Some value \<Rightarrow>
             if value < 0 then Inl ValueError
             else if scheduler_block_size \<noteq> 0 \<and> value mod scheduler_block_size \<noteq> 0 then Inl ValueError
             else if max_interval < value then Inl ValueError
             else Inr (Some value))"

definition min_exempt_group_ids :: "kv_spec list \<Rightarrow> nat set \<Rightarrow> nat set" where
  "min_exempt_group_ids groups eagle = (if swa_ids groups = {} \<or> eagle \<noteq> swa_ids groups then {} else swa_ids groups)"

definition retention_for_group :: "kv_spec \<Rightarrow> int option \<Rightarrow> int option \<Rightarrow> int \<Rightarrow> bool \<Rightarrow> int option" where
  "retention_for_group spec global_interval swa_interval alignment_tokens is_min_exempt =
     (if \<not> is_draft_swa_spec spec \<or> \<not> is_min_exempt then global_interval
      else if swa_interval \<noteq> None then swa_interval
      else case inner_kv_spec spec of
        KvSpec cls (Some window) (Some block) \<Rightarrow>
          if window = 0 \<or> block = 0 \<or> alignment_tokens = 0 then global_interval
          else if alignment_tokens \<le> window then global_interval
          else Some 0
      | _ \<Rightarrow> global_interval)"

definition resolve_retention_by_group :: "kv_spec list \<Rightarrow> nat set \<Rightarrow> int option \<Rightarrow> int option \<Rightarrow> int \<Rightarrow> int option list res" where
  "resolve_retention_by_group groups eagle global_interval swa_interval alignment_tokens =
     (let min_exempt = min_exempt_group_ids groups eagle
      in if swa_interval \<noteq> None \<and> min_exempt = {} then Inl ValueError
         else Inr (map (\<lambda>i. retention_for_group (groups ! i) global_interval swa_interval alignment_tokens (i \<in> min_exempt))
                    [0..<length groups]))"

fun validate_retention_intervals :: "int option list \<Rightarrow> int \<Rightarrow> unit res" where
  "validate_retention_intervals [] sbs = Inr ()"
| "validate_retention_intervals (None # vs) sbs = validate_retention_intervals vs sbs"
| "validate_retention_intervals (Some value # vs) sbs =
     (if value = 0 then validate_retention_intervals vs sbs
      else if value < 0 then Inl ValueError
      else if sbs = 0 then Inl ZeroDivisionError
      else if value mod sbs \<noteq> 0 then Inl ValueError
      else validate_retention_intervals vs sbs)"

text \<open>The initialisation that \<open>INIT_NEW\<close> adds to the coordinator; \<open>global_interval\<close> has passed upstream's check.\<close>

definition retention_init :: "environ \<Rightarrow> kv_spec list \<Rightarrow> nat set \<Rightarrow> int option \<Rightarrow> int \<Rightarrow> int option list res" where
  "retention_init env groups eagle global_interval scheduler_block_size =
     res_bind (swa_retention_env env scheduler_block_size 1000000) (\<lambda>swa.
     res_bind (resolve_retention_by_group groups eagle global_interval swa scheduler_block_size) (\<lambda>vec.
     res_bind (validate_retention_intervals vec scheduler_block_size) (\<lambda>_. Inr vec)))"


subsection \<open>The drafter does not shorten the hit\<close>

lemma record_hits_sel [simp]:
  "curr_hit_length (record_hits gbs n st) = curr_hit_length st"
  "longest_hit_length (record_hits gbs n st) = longest_hit_length st"
  by (induction gbs arbitrary: st) auto

lemma record_hits_other:
  "g \<notin> fst ` set gbs \<Longrightarrow> hit_blocks_by_group (record_hits gbs n st) g = hit_blocks_by_group st g
     \<and> hit_length_by_group (record_hits gbs n st) g = hit_length_by_group st g"
  by (induction gbs arbitrary: st) auto

lemma record_hits_length:
  "hit_length_by_group (record_hits gbs n st) g = (if g \<in> fst ` set gbs then Some n else hit_length_by_group st g)"
proof (induction gbs arbitrary: st)
  case (Cons e gbs)
  then show ?case by (cases e) (simp only: record_hits.simps list.set image_insert fst_conv, simp)
qed simp

lemma record_hits_cong:
  "hit_blocks_by_group st g = hit_blocks_by_group st' g \<Longrightarrow> hit_blocks_by_group (record_hits gbs n st) g = hit_blocks_by_group (record_hits gbs n st') g"
  by (induction gbs arbitrary: st st') auto

lemma verify_eagle_sel [simp]:
  "curr_hit_length (verify_eagle h st) = curr_hit_length st" "longest_hit_length (verify_eagle h st) = longest_hit_length st"
  "hit_blocks_by_group (verify_eagle h st) = hit_blocks_by_group st" "hit_length_by_group (verify_eagle h st) = hit_length_by_group st"
  by (auto simp: verify_eagle_def)

lemma zip_ids: "g \<notin> set ids \<Longrightarrow> g \<notin> fst ` set (zip ids bs)"
  by (auto dest: set_zip_leftD)

definition drafter_owned :: "group_hit list \<Rightarrow> nat \<Rightarrow> bool" where
  "drafter_owned hs g \<longleftrightarrow> (\<exists>h \<in> set hs. is_draft_swa_spec (gh_spec h) \<and> g \<in> set (gh_group_ids h))"

text \<open>Two states that agree on the lengths and on the blocks of the groups outside \<open>D\<close>.\<close>

definition agree_outside :: "(nat \<Rightarrow> bool) \<Rightarrow> hit_state \<Rightarrow> hit_state \<Rightarrow> bool" where
  "agree_outside D st st' \<longleftrightarrow> curr_hit_length st = curr_hit_length st' \<and> longest_hit_length st = longest_hit_length st'
     \<and> (\<forall>g. \<not> D g \<longrightarrow> hit_blocks_by_group st g = hit_blocks_by_group st' g)"

lemma agree_step:
  assumes "agree_outside D st st'"
  shows "\<not> is_draft_swa_spec (gh_spec h) \<Longrightarrow> agree_outside D (hit_step h st) (hit_step_old h st')"
    and "is_draft_swa_spec (gh_spec h) \<Longrightarrow> \<forall>g \<in> set (gh_group_ids h). D g \<Longrightarrow> agree_outside D (hit_step h st) st'"
proof -
  show "agree_outside D (hit_step h st) (hit_step_old h st')" if "\<not> is_draft_swa_spec (gh_spec h)"
    using assms that unfolding agree_outside_def
    by (auto simp: hit_step_def hit_step_old_def Let_def intro!: record_hits_cong)
  show "agree_outside D (hit_step h st) st'" if "is_draft_swa_spec (gh_spec h)" "\<forall>g \<in> set (gh_group_ids h). D g"
  proof -
    have "hit_blocks_by_group (record_hits (zip (gh_group_ids h) (gh_blocks h)) n st1) g = hit_blocks_by_group st1 g" if "\<not> D g" for g n st1
      using record_hits_other [of g "zip (gh_group_ids h) (gh_blocks h)"] zip_ids [of g "gh_group_ids h"] that
        \<open>\<forall>g \<in> set (gh_group_ids h). D g\<close> by blast
    then show ?thesis using assms that(1) by (auto simp: agree_outside_def hit_step_def Let_def)
  qed
qed

lemma pass_agrees:
  assumes "agree_outside D st st'" and "\<forall>g. drafter_owned hs g \<longrightarrow> D g"
  shows "agree_outside D (fold hit_step hs st) (fold hit_step_old (filter (\<lambda>h. \<not> is_draft_swa_spec (gh_spec h)) hs) st')"
  using assms
proof (induction hs arbitrary: st st')
  case (Cons h hs)
  have own: "\<forall>g. drafter_owned hs g \<longrightarrow> D g" "is_draft_swa_spec (gh_spec h) \<Longrightarrow> \<forall>g \<in> set (gh_group_ids h). D g"
    using Cons.prems(2) by (auto simp: drafter_owned_def)
  show ?case
    using Cons.IH [OF agree_step(1) [OF Cons.prems(1)] own(1)] Cons.IH [OF agree_step(2) [OF Cons.prems(1)] own(1)] own(2)
    by (cases "is_draft_swa_spec (gh_spec h)") auto
qed simp

text \<open>A pass as the coordinator runs it: a lookup is bounded by the current hit length, and the drafter's groups
  are not the groups of another spec.\<close>

fun bounded_pass :: "group_hit list \<Rightarrow> int \<Rightarrow> bool" where
  "bounded_pass [] n = True"
| "bounded_pass (h # hs) n =
     (if is_draft_swa_spec (gh_spec h) then bounded_pass hs n else gh_length h \<le> n \<and> bounded_pass hs (gh_length h))"

definition drafter_covers :: "(nat \<Rightarrow> bool) \<Rightarrow> hit_state \<Rightarrow> bool" where
  "drafter_covers D st \<longleftrightarrow> (\<forall>g n. D g \<and> hit_length_by_group st g = Some n \<longrightarrow> curr_hit_length st \<le> n)"

lemma pass_covers:
  assumes "bounded_pass hs (curr_hit_length st)" and "drafter_covers D st"
    and "\<forall>h \<in> set hs. \<forall>g \<in> set (gh_group_ids h). D g \<longrightarrow> is_draft_swa_spec (gh_spec h)"
  shows "drafter_covers D (fold hit_step hs st)"
  using assms
proof (induction hs arbitrary: st)
  case (Cons h hs)
  let ?z = "zip (gh_group_ids h) (gh_blocks h)"
  have "drafter_covers D (hit_step h st)"
  proof (cases "is_draft_swa_spec (gh_spec h)")
    case True
    with Cons.prems(2) show ?thesis
      by (auto simp: hit_step_def Let_def drafter_covers_def record_hits_length split: if_splits)
  next
    case False
    with Cons.prems(3) have "g \<notin> fst ` set ?z" if "D g" for g using that zip_ids [of g "gh_group_ids h"] by auto
    with False Cons.prems(1,2) show ?thesis
      by (fastforce simp: hit_step_def Let_def drafter_covers_def record_hits_length)
  qed
  moreover have "bounded_pass hs (curr_hit_length (hit_step h st))"
    using Cons.prems(1) by (auto simp: hit_step_def Let_def split: if_splits)
  ultimately show ?case using Cons.IH [of "hit_step h st"] Cons.prems(3) by simp
qed simp

text \<open>The drafter does not shorten the hybrid hit. A pass over the groups gives the hit length, the longest
  hit and the blocks of every other group that the upstream pass gives when the drafter's sliding-window
  groups are left out; and where the drafter's cached blocks are used, they cover the whole hybrid hit.\<close>

theorem drafter_never_shrinks:
  assumes "bounded_pass hs (curr_hit_length st)" and "hit_length_by_group st = Map.empty"
    and "\<forall>h \<in> set hs. \<forall>g \<in> set (gh_group_ids h). drafter_owned hs g \<longrightarrow> is_draft_swa_spec (gh_spec h)"
  defines "others \<equiv> filter (\<lambda>h. \<not> is_draft_swa_spec (gh_spec h)) hs"
  shows "curr_hit_length (fold hit_step hs st) = curr_hit_length (fold hit_step_old others st)
    \<and> longest_hit_length (fold hit_step hs st) = longest_hit_length (fold hit_step_old others st)
    \<and> (\<forall>g. \<not> drafter_owned hs g \<longrightarrow> hit_blocks_by_group (fold hit_step hs st) g = hit_blocks_by_group (fold hit_step_old others st) g)
    \<and> (\<forall>g n. drafter_owned hs g \<and> hit_length_by_group (fold hit_step hs st) g = Some n \<longrightarrow> curr_hit_length (fold hit_step hs st) \<le> n)"
proof -
  have "agree_outside (drafter_owned hs) (fold hit_step hs st) (fold hit_step_old others st)"
    unfolding others_def by (rule pass_agrees) (simp_all add: agree_outside_def)
  moreover have "drafter_covers (drafter_owned hs) (fold hit_step hs st)"
    by (rule pass_covers [OF assms(1) _ assms(3)]) (simp add: drafter_covers_def assms(2))
  ultimately show ?thesis by (auto simp: agree_outside_def drafter_covers_def)
qed


subsection \<open>Retention per group\<close>

definition interval_ok :: "int \<Rightarrow> int option \<Rightarrow> bool" where
  "interval_ok sbs v \<longleftrightarrow> (case v of None \<Rightarrow> True | Some n \<Rightarrow> 0 \<le> n \<and> n mod sbs = 0)"

lemma validate_ok: "0 < sbs \<Longrightarrow> \<forall>v \<in> set vs. interval_ok sbs v \<Longrightarrow> validate_retention_intervals vs sbs = Inr ()"
  by (induction vs sbs rule: validate_retention_intervals.induct) (auto simp: interval_ok_def)

lemma swa_env_ok: "0 < sbs \<Longrightarrow> swa_retention_env env sbs mx = Inr (Some v) \<Longrightarrow> interval_ok sbs (Some v) \<and> v \<le> mx"
  by (auto simp: swa_retention_env_def interval_ok_def Let_def split: if_splits option.splits)

lemma retention_for_group_ok:
  "interval_ok sbs g \<Longrightarrow> sw \<noteq> None \<longrightarrow> interval_ok sbs sw \<Longrightarrow> interval_ok sbs (retention_for_group spec g sw al ex)"
  by (auto simp: retention_for_group_def interval_ok_def split: kv_spec.splits option.splits)

lemma retention_global: "\<not> (is_draft_swa_spec spec \<and> ex) \<Longrightarrow> retention_for_group spec g sw al ex = g"
  by (auto simp: retention_for_group_def)

lemma init_is_resolve:
  assumes "0 < sbs" and "interval_ok sbs g"
  shows "retention_init env groups eagle g sbs =
    res_bind (swa_retention_env env sbs 1000000) (\<lambda>sw. resolve_retention_by_group groups eagle g sw sbs)"
proof (cases "swa_retention_env env sbs 1000000")
  case (Inr sw)
  have sw: "sw \<noteq> None \<longrightarrow> interval_ok sbs sw" using swa_env_ok [OF assms(1)] Inr by (cases sw) auto
  have "validate_retention_intervals (map (\<lambda>i. retention_for_group (groups ! i) g sw sbs (i \<in> ex)) [0..<length groups]) sbs = Inr ()" for ex
    using retention_for_group_ok [OF assms(2) sw] by (intro validate_ok [OF assms(1)]) auto
  then show ?thesis using Inr by (auto simp: retention_init_def resolve_retention_by_group_def Let_def)
qed (simp add: retention_init_def)

text \<open>The retention vector. With an upstream-valid global interval and a positive scheduler block size, the
  second validation never refuses a vector that was resolved; initialisation fails only on a malformed
  override or on an override without an exempt drafter group; and on success there is one interval per
  group, every entry is absent or a non-negative multiple of the block size, and every group that is not an
  exempt sliding-window drafter keeps the global interval.\<close>

theorem retention_vector_sound:
  assumes "0 < sbs" and "interval_ok sbs g"
  shows "case retention_init env groups eagle g sbs of
      Inl e \<Rightarrow> swa_retention_env env sbs 1000000 = Inl e
        \<or> (\<exists>v. swa_retention_env env sbs 1000000 = Inr (Some v)) \<and> min_exempt_group_ids groups eagle = {}
    | Inr vec \<Rightarrow> length vec = length groups \<and> (\<forall>v \<in> set vec. interval_ok sbs v)
        \<and> (\<forall>i < length groups. \<not> (is_draft_swa_spec (groups ! i) \<and> i \<in> min_exempt_group_ids groups eagle) \<longrightarrow> vec ! i = g)"
proof (cases "swa_retention_env env sbs 1000000")
  case (Inl e)
  then show ?thesis by (simp add: init_is_resolve [OF assms])
next
  case (Inr sw)
  have sw: "sw \<noteq> None \<longrightarrow> interval_ok sbs sw" using swa_env_ok [OF assms(1)] Inr by (cases sw) auto
  show ?thesis
    using Inr retention_for_group_ok [OF assms(2) sw]
    by (auto simp: init_is_resolve [OF assms] resolve_retention_by_group_def Let_def retention_global)
qed

text \<open>The two overlays fit together. On a model with a drafter group that no annotator flagged, the
  narrowed EAGLE fallback is what makes an explicit override legal: it then reaches exactly the drafter
  groups and every other group keeps the global interval, whereas with the upstream fallback over a model
  that also has other groups the same override is refused.\<close>

theorem narrowing_enables_override:
  assumes "0 < sbs" and "interval_ok sbs g" and "swa_ids groups \<noteq> {}" and "swa_ids groups \<noteq> {0..<length groups}"
    and "swa_retention_env env sbs 1000000 = Inr (Some v)"
  shows "retention_init env groups (eagle_groups True {} groups) g sbs
      = Inr (map (\<lambda>s. if is_draft_swa_spec s then Some v else g) groups)
    \<and> retention_init env groups (eagle_groups_old True {} groups) g sbs = Inl ValueError"
proof
  have "min_exempt_group_ids groups (eagle_groups True {} groups) = swa_ids groups"
    using assms(3) by (simp add: min_exempt_group_ids_def eagle_groups_def)
  moreover have "map (\<lambda>i. retention_for_group (groups ! i) g (Some v) sbs (i \<in> swa_ids groups)) [0..<length groups]
      = map (\<lambda>s. if is_draft_swa_spec s then Some v else g) groups"
    by (rule nth_equalityI) (auto simp: retention_for_group_def swa_ids_def)
  ultimately show "retention_init env groups (eagle_groups True {} groups) g sbs
      = Inr (map (\<lambda>s. if is_draft_swa_spec s then Some v else g) groups)"
    using assms(3,5) by (simp add: init_is_resolve [OF assms(1,2)] resolve_retention_by_group_def)
  show "retention_init env groups (eagle_groups_old True {} groups) g sbs = Inl ValueError"
    using assms(4,5) by (auto simp: init_is_resolve [OF assms(1,2)] resolve_retention_by_group_def min_exempt_group_ids_def eagle_groups_old_def)
qed

subsection \<open>Instances\<close>

definition demo_swa :: kv_spec where "demo_swa = KvSpec ''SlidingWindowSpec'' (Some 2048) (Some 64)"
definition demo_mla :: kv_spec where "demo_mla = KvSpec ''MLAAttentionSpec'' None (Some 3584)"

definition demo_swa_env :: environ where
  "demo_swa_env name = (if name = ''VLLM_PREFIX_CACHE_RETENTION_INTERVAL_SWA'' then Some ''7168'' else None)"

lemma demo_swa_parse: "swa_retention_env demo_swa_env 3584 1000000 = Inr (Some 7168)"
  by code_simp

lemma demo_swa_ids: "swa_ids [demo_mla, demo_swa] = {1}"
  by (auto simp: swa_ids_def demo_mla_def demo_swa_def is_draft_swa_spec_def upt_rec)

definition demo_hits :: "group_hit list" where
  "demo_hits = [\<lparr>gh_idx = 0, gh_spec = demo_mla, gh_group_ids = [0], gh_blocks = [[1, 2]], gh_length = 7168, gh_drop_eagle = False\<rparr>,
     \<lparr>gh_idx = 1, gh_spec = demo_swa, gh_group_ids = [1], gh_blocks = [[3]], gh_length = 3584, gh_drop_eagle = True\<rparr>]"

definition demo_hit_state :: hit_state where
  "demo_hit_state = \<lparr>curr_hit_length = 10752, longest_hit_length = 0, eagle_verified = {}, hit_blocks_by_group = Map.empty,
     hit_length_by_group = Map.empty\<rparr>"

theorem drafter_never_shrinks_witness: "curr_hit_length (fold hit_step demo_hits demo_hit_state) = 7168"
proof -
  have d: "is_draft_swa_spec demo_swa" "\<not> is_draft_swa_spec demo_mla" by (simp_all add: demo_swa_def demo_mla_def is_draft_swa_spec_def)
  have "bounded_pass demo_hits (curr_hit_length demo_hit_state)" "hit_length_by_group demo_hit_state = Map.empty"
    "\<forall>h \<in> set demo_hits. \<forall>g \<in> set (gh_group_ids h). drafter_owned demo_hits g \<longrightarrow> is_draft_swa_spec (gh_spec h)"
    using d by (simp_all add: demo_hits_def demo_hit_state_def drafter_owned_def)
  from drafter_never_shrinks [OF this] show ?thesis
    using d by (simp add: demo_hits_def demo_hit_state_def hit_step_old_def Let_def)
qed

theorem retention_vector_sound_witness:
  "case retention_init demo_swa_env [demo_mla, demo_swa] {1} None 3584 of Inl e \<Rightarrow> False | Inr vec \<Rightarrow> length vec = 2 \<and> vec ! 0 = None"
proof -
  have ok: "interval_ok 3584 None" by (simp add: interval_ok_def)
  have ex: "min_exempt_group_ids [demo_mla, demo_swa] {1} = {1}" unfolding min_exempt_group_ids_def demo_swa_ids by simp
  obtain vec where v: "retention_init demo_swa_env [demo_mla, demo_swa] {1} None 3584 = Inr vec"
    unfolding init_is_resolve [OF _ ok, of demo_swa_env, simplified] demo_swa_parse res_bind.simps resolve_retention_by_group_def ex Let_def
    by simp
  from retention_vector_sound [of 3584 None demo_swa_env "[demo_mla, demo_swa]" "{1}"] show ?thesis
    unfolding v by (auto simp: interval_ok_def demo_mla_def is_draft_swa_spec_def)
qed

theorem narrowing_enables_override_witness:
  "retention_init demo_swa_env [demo_mla, demo_swa] (eagle_groups True {} [demo_mla, demo_swa]) None 3584 = Inr [None, Some 7168]"
proof -
  have "0 \<in> {0..<length [demo_mla, demo_swa]}" by simp
  then have "swa_ids [demo_mla, demo_swa] \<noteq> {0..<length [demo_mla, demo_swa]}"
    unfolding demo_swa_ids by (metis singletonD zero_neq_one)
  moreover have "swa_ids [demo_mla, demo_swa] \<noteq> {}" unfolding demo_swa_ids by simp
  ultimately have this: "swa_ids [demo_mla, demo_swa] \<noteq> {}" "swa_ids [demo_mla, demo_swa] \<noteq> {0..<length [demo_mla, demo_swa]}" by blast+
  from narrowing_enables_override [OF _ _ this demo_swa_parse, of None] show ?thesis
    by (simp add: interval_ok_def demo_mla_def demo_swa_def is_draft_swa_spec_def)
qed

end
