(* ===== verification/No_Store.thy ===== *)
theory No_Store
  imports Py_Text
begin

text \<open>
  The per-request no-store flag of \<^verbatim>\<open>overlay/patch_apc_no_store.py\<close>: the strict parser, the kill switch, the
  validation in \<open>SamplingParams.__post_init__\<close>, the resolution in the engine, the two guards in the block
  pool, and the three-file installer with its preflight before any write. The parts of the block pool
  behind the guards are vLLM code and parameters of the model.
\<close>

subsection \<open>The flag\<close>

text \<open>\<open>isinstance(True, int)\<close> holds in Python, so booleans are tested first; other types (floats, lists) are
  objects without an accepted value.\<close>

definition parse_no_store :: "pyval \<Rightarrow> bool res" where
  "parse_no_store v =
     (case v of
        PBool b \<Rightarrow> Inr b
      | PInt i \<Rightarrow> if i \<in> {0, 1} then Inr (i = 1) else Inl ValueError
      | PStr s \<Rightarrow> if s \<in> {''0'', ''1''} then Inr (s = ''1'') else Inl ValueError
      | _ \<Rightarrow> Inl ValueError)"

definition no_store_env :: "environ \<Rightarrow> bool res" where
  "no_store_env env =
     (case env ''GLM53_APC_NO_STORE'' of
        None \<Rightarrow> Inr True
      | Some raw \<Rightarrow> if raw \<in> {''0'', ''1''} then Inr (raw = ''1'') else Inl ValueError)"

record ns_params =
  ns_typed :: pyval
  ns_extra :: "(string \<times> pyval) list option"

definition NO_STORE_KEY :: string where
  "NO_STORE_KEY = ''skip_writing_prefix_cache''"

definition extra_value :: "ns_params \<Rightarrow> pyval option" where
  "extra_value p = (case ns_extra p of None \<Rightarrow> None | Some ex \<Rightarrow> map_of ex NO_STORE_KEY)"

definition validate_no_store_params :: "ns_params \<Rightarrow> ns_params res" where
  "validate_no_store_params p =
     res_bind (if ns_typed p \<noteq> PNone then res_bind (parse_no_store (ns_typed p)) (\<lambda>b. Inr (p\<lparr>ns_typed := PBool b\<rparr>)) else Inr p) (\<lambda>p.
       case extra_value p of
         None \<Rightarrow> Inr p
       | Some v \<Rightarrow> res_bind (parse_no_store v) (\<lambda>_. Inr p))"

definition resolve_no_store :: "bool \<Rightarrow> ns_params option \<Rightarrow> bool" where
  "resolve_no_store enabled sampling_params =
     (case sampling_params of
        None \<Rightarrow> False
      | Some p \<Rightarrow>
          (case (if ns_typed p = PNone then extra_value p else Some (ns_typed p)) of
             None \<Rightarrow> False
           | Some raw \<Rightarrow>
               (case parse_no_store raw of
                  Inl e \<Rightarrow> False
                | Inr value \<Rightarrow> if \<not> value then False else enabled)))"

subsection \<open>The block pool\<close>

text \<open>A pool operation: caching of full blocks or of a partial tail, for a request with its resolved flag.\<close>

datatype pool_op =
    CacheFull bool nat nat nat
  | CachePartial bool nat bool

text \<open>\<open>store_full\<close> and \<open>store_partial\<close> are the bodies behind the guards, by request.\<close>

definition cache_full_blocks :: "(nat \<Rightarrow> nat \<Rightarrow> nat \<Rightarrow> 'p \<Rightarrow> 'p) \<Rightarrow> bool \<Rightarrow> nat \<Rightarrow> nat \<Rightarrow> nat \<Rightarrow> 'p \<Rightarrow> 'p" where
  "cache_full_blocks store_full skip_writing request num_cached_blocks num_full_blocks pool =
     (if num_full_blocks \<le> num_cached_blocks then pool
      else if skip_writing then pool
      else store_full request num_cached_blocks num_full_blocks pool)"

definition cache_partial_block :: "(nat \<Rightarrow> 'p \<Rightarrow> nat option \<times> 'p) \<Rightarrow> bool \<Rightarrow> nat \<Rightarrow> bool \<Rightarrow> 'p \<Rightarrow> nat option \<times> 'p" where
  "cache_partial_block store_partial skip_writing request is_null pool =
     (if is_null then (None, pool)
      else if skip_writing then (None, pool)
      else store_partial request pool)"

fun ns_run :: "(nat \<Rightarrow> nat \<Rightarrow> nat \<Rightarrow> 'p \<Rightarrow> 'p) \<Rightarrow> (nat \<Rightarrow> 'p \<Rightarrow> nat option \<times> 'p) \<Rightarrow> pool_op list \<Rightarrow> 'p \<Rightarrow> nat option list \<times> 'p" where
  "ns_run full part [] pool = ([], pool)"
| "ns_run full part (CacheFull skip r nc nf # ops) pool = ns_run full part ops (cache_full_blocks full skip r nc nf pool)"
| "ns_run full part (CachePartial skip r nul # ops) pool =
     (case cache_partial_block part skip r nul pool of (h, pool) \<Rightarrow>
        (case ns_run full part ops pool of (hs, pool) \<Rightarrow> (h # hs, pool)))"

fun op_skips :: "pool_op \<Rightarrow> bool" where
  "op_skips (CacheFull skip r nc nf) = skip"
| "op_skips (CachePartial skip r nul) = skip"

subsection \<open>The installer\<close>

type_synonym edits = "(string \<times> string) list"

record plan_entry =
  pl_path :: string
  pl_edits :: edits
  pl_requires :: "string list"

definition expected_marks :: "string \<Rightarrow> edits \<Rightarrow> int" where
  "expected_marks mark edits = sum_list (map (\<lambda>(old, new). int (py_count mark new) - int (py_count mark old)) edits)"

fun apply_edits :: "edits \<Rightarrow> string \<Rightarrow> string res" where
  "apply_edits [] t = Inr t"
| "apply_edits ((old, new) # es) t = res_bind (replace_once t old new) (apply_edits es)"

text \<open>\<open>None\<close>: the file is already complete.\<close>

definition preflight :: "(string \<Rightarrow> bool) \<Rightarrow> string \<Rightarrow> plan_entry \<Rightarrow> file_system \<Rightarrow> string option res" where
  "preflight parses mark pl fs =
     (case fs (pl_path pl) of
        None \<Rightarrow> Inl SystemExit
      | Some t \<Rightarrow>
          let marks = int (py_count mark t);
              want = expected_marks mark (pl_edits pl)
          in if marks \<noteq> 0
             then if marks \<noteq> want \<or> list_ex (\<lambda>(old, new). py_count new t \<noteq> 1) (pl_edits pl) then Inl SystemExit
                  else if parses t then Inr None else Inl SystemExit
             else if list_ex (\<lambda>needle. py_count needle t \<noteq> 1) (pl_requires pl) then Inl SystemExit
             else res_bind (apply_edits (pl_edits pl) t) (\<lambda>t.
                    if int (py_count mark t) \<noteq> want then Inl SystemExit
                    else if parses t then Inr (Some t) else Inl SystemExit))"

fun stage :: "(string \<Rightarrow> bool) \<Rightarrow> string \<Rightarrow> plan_entry list \<Rightarrow> file_system \<Rightarrow> (string \<times> string) list res" where
  "stage parses mark [] fs = Inr []"
| "stage parses mark (pl # pls) fs =
     res_bind (preflight parses mark pl fs) (\<lambda>patched.
     res_bind (stage parses mark pls fs) (\<lambda>rest.
       Inr (case patched of None \<Rightarrow> rest | Some t \<Rightarrow> (pl_path pl, t) # rest)))"

definition no_store_main :: "(string \<Rightarrow> bool) \<Rightarrow> string \<Rightarrow> plan_entry list \<Rightarrow> file_system \<Rightarrow> unit res \<times> file_system" where
  "no_store_main parses mark plan fs =
     (case stage parses mark plan fs of
        Inl e \<Rightarrow> (Inl e, fs)
      | Inr staged \<Rightarrow> (Inr (), foldl (\<lambda>fs (p, t). fs(p \<mapsto> t)) fs staged))"

subsection \<open>The flag: properties\<close>

text \<open>What the client asked for, when it is well-formed: the typed field first, then the extra arguments.\<close>

definition requested :: "ns_params \<Rightarrow> bool" where
  "requested p = (case (if ns_typed p = PNone then extra_value p else Some (ns_typed p)) of
     None \<Rightarrow> False | Some v \<Rightarrow> parse_no_store v = Inr True)"

definition well_formed :: "pyval \<Rightarrow> bool" where
  "well_formed v \<longleftrightarrow> v \<in> {PBool False, PBool True, PInt 0, PInt 1, PStr ''0'', PStr ''1''}"

lemma parse_alt: "parse_no_store v = (if well_formed v then Inr (v \<in> {PBool True, PInt 1, PStr ''1''}) else Inl ValueError)"
  by (cases v) (auto simp: parse_no_store_def well_formed_def)

lemma well_formed_PBool [simp]: "well_formed (PBool b)"
  by (cases b) (simp_all add: well_formed_def)

lemma extra_value_upd [simp]: "extra_value (p\<lparr>ns_typed := v\<rparr>) = extra_value p"
  by (simp add: extra_value_def)

text \<open>The contract of the flag. Parameters pass validation exactly if the typed field is absent or well-formed
  and the extra argument, if given, is well-formed (whatever the kill switch says); and a request that passed
  is resolved to no-store exactly if it asked for it and the switch is on, with the typed field taking
  precedence.\<close>

theorem no_store_contract:
  "(case validate_no_store_params p of
      Inl e \<Rightarrow> e = ValueError \<and> (ns_typed p \<noteq> PNone \<and> \<not> well_formed (ns_typed p)
                 \<or> (\<exists>v. extra_value p = Some v \<and> \<not> well_formed v))
    | Inr p' \<Rightarrow> (ns_typed p = PNone \<or> well_formed (ns_typed p)) \<and> (\<nexists>v. extra_value p = Some v \<and> \<not> well_formed v)
        \<and> resolve_no_store enabled (Some p') = (enabled \<and> requested p))"
  by (cases "extra_value p")
     (auto simp: validate_no_store_params_def resolve_no_store_def requested_def parse_alt split: if_splits option.splits)

text \<open>The two caching operations of a no-store request leave no trace. Whatever the bodies behind the guards do, the
  pool after any interleaving of caching operations is the pool after those of the other requests alone, and
  every partial-tail call of a no-store request returns no hash, so that it is never registered as a producer.
  Reads of a no-store request are another matter: they still touch the order of eviction.\<close>

lemma no_store_leaves_no_trace:
  "snd (ns_run full part ops pool) = snd (ns_run full part (filter (\<lambda>x. \<not> op_skips x) ops) pool)
   \<and> fst (cache_partial_block part True r nul pool) = None"
proof
  show "snd (ns_run full part ops pool) = snd (ns_run full part (filter (\<lambda>x. \<not> op_skips x) ops) pool)"
  proof (induction ops arbitrary: pool)
    case (Cons x ops)
    show ?case
    proof (cases x)
      case (CacheFull skip r nc nf)
      then show ?thesis by (cases skip) (simp_all add: Cons cache_full_blocks_def)
    next
      case (CachePartial skip r nul)
      then show ?thesis
        by (cases skip) (simp_all add: Cons cache_partial_block_def case_prod_beta)
    qed
  qed simp
qed (simp add: cache_partial_block_def)


subsection \<open>The installer: properties\<close>

lemma stage_paths: "stage parses mark plan fs = Inr staged \<Longrightarrow> (p, t) \<in> set staged \<Longrightarrow>
   \<exists>pl \<in> set plan. pl_path pl = p \<and> preflight parses mark pl fs = Inr (Some t)"
  by (induction plan arbitrary: staged) (fastforce simp: res_bind_Inr split: option.splits)+

lemma stage_all: "stage parses mark plan fs = Inr staged \<Longrightarrow> pl \<in> set plan \<Longrightarrow>
   preflight parses mark pl fs = Inr None \<or> (\<exists>t. preflight parses mark pl fs = Inr (Some t) \<and> (pl_path pl, t) \<in> set staged)"
  by (induction plan arbitrary: staged) (fastforce simp: res_bind_Inr split: option.splits)+

lemma writes_other: "p \<notin> fst ` set staged \<Longrightarrow> foldl (\<lambda>fs (p, t). fs(p \<mapsto> t)) fs staged p = fs p"
  by (induction staged arbitrary: fs) (auto split: prod.splits)

lemma writes_staged: "p \<in> fst ` set staged \<Longrightarrow> \<exists>t. (p, t) \<in> set staged \<and> foldl (\<lambda>fs (p, t). fs(p \<mapsto> t)) fs staged p = Some t"
proof (induction staged arbitrary: fs)
  case (Cons e staged)
  obtain q u where e: "e = (q, u)" by (cases e)
  show ?case
  proof (cases "p \<in> fst ` set staged")
    case True
    with Cons.IH [OF True] show ?thesis by (auto simp: e)
  next
    case False
    with Cons.prems e have "q = p" by auto
    with writes_other [OF False, of "fs(p \<mapsto> u)"] show ?thesis
      by (intro exI [of _ u] conjI) (simp_all only: e list.set insertI1 foldl_Cons prod.case fun_upd_same)
  qed
qed simp

lemma staged_marks:
  "preflight parses mark pl fs = Inr (Some t) \<Longrightarrow> int (py_count mark t) = expected_marks mark (pl_edits pl)"
  by (auto simp: preflight_def Let_def res_bind_Inr split: option.splits if_splits)

text \<open>A file with marks is never edited.\<close>

lemma marked_not_edited: "fs (pl_path pl) = Some t \<Longrightarrow> py_count mark t \<noteq> 0 \<Longrightarrow> preflight parses mark pl fs \<noteq> Inr (Some u)"
  by (auto simp: preflight_def Let_def)

lemma preflight_cong: "fs (pl_path pl) = fs' (pl_path pl) \<Longrightarrow> preflight parses mark pl fs = preflight parses mark pl fs'"
  by (simp add: preflight_def)

text \<open>All files or none. For any plan, the installer writes nothing unless every file of the plan passes
  its preflight; on success only files of the plan change, each to a text that parses and carries the expected
  number of marks; and if every entry of the plan adds a mark, a further run edits no file again.\<close>

theorem no_store_all_or_nothing:
  assumes "\<forall>pl \<in> set plan. 0 < expected_marks mark (pl_edits pl)" and "no_store_main parses mark plan fs = (r, fs')"
  shows "(\<forall>e. r = Inl e \<longrightarrow> fs' = fs)
    \<and> (r = Inr () \<longrightarrow> (\<forall>pl \<in> set plan. \<exists>x. preflight parses mark pl fs = Inr x)
        \<and> (\<forall>p. fs' p \<noteq> fs p \<longrightarrow> (\<exists>pl \<in> set plan. pl_path pl = p \<and> preflight parses mark pl fs = Inr (fs' p)))
        \<and> snd (no_store_main parses mark plan fs') = fs')"
proof (cases "stage parses mark plan fs")
  case (Inl e)
  with assms(2) show ?thesis by (auto simp: no_store_main_def)
next
  case (Inr staged)
  with assms(2) have fs': "fs' = foldl (\<lambda>fs (p, t). fs(p \<mapsto> t)) fs staged" and r: "r = Inr ()" by (auto simp: no_store_main_def)
  have ch: "\<exists>pl \<in> set plan. pl_path pl = p \<and> preflight parses mark pl fs = Inr (fs' p)" if "fs' p \<noteq> fs p" for p
  proof -
    have "p \<in> fst ` set staged" using that writes_other [of p staged fs] fs' by auto
    from writes_staged [OF this, of fs] obtain t where "(p, t) \<in> set staged" "fs' p = Some t" using fs' by auto
    with stage_paths [OF Inr] show ?thesis by metis
  qed
  have "staged' = []" if "stage parses mark plan fs' = Inr staged'" for staged'
  proof (rule ccontr)
    assume "staged' \<noteq> []"
    then obtain p t where "(p, t) \<in> set staged'" by (cases staged') auto
    with stage_paths [OF that] obtain pl where pl: "pl \<in> set plan" "preflight parses mark pl fs' = Inr (Some t)" by blast
    show False
    proof (cases "fs' (pl_path pl) = fs (pl_path pl)")
      case True
      with pl(2) have "preflight parses mark pl fs = Inr (Some t)" using preflight_cong by metis
      with stage_all [OF Inr pl(1)] have "pl_path pl \<in> fst ` set staged" by force
      from writes_staged [OF this, of fs] obtain u where u: "(pl_path pl, u) \<in> set staged" "fs' (pl_path pl) = Some u" using fs' by auto
      from stage_paths [OF Inr u(1)] obtain pl2 where "pl2 \<in> set plan" "preflight parses mark pl2 fs = Inr (Some u)" by blast
      with assms(1) staged_marks have "py_count mark u \<noteq> 0" by fastforce
      with marked_not_edited u(2) pl(2) show False by blast
    next
      case False
      from ch [OF False] obtain pl2 where p2: "pl2 \<in> set plan" "preflight parses mark pl2 fs = Inr (fs' (pl_path pl))"
        "pl_path pl2 = pl_path pl" by blast
      then obtain u where u: "fs' (pl_path pl) = Some u" using False stage_all [OF Inr p2(1)] pl(2)
        by (cases "fs' (pl_path pl)") (auto simp: preflight_def)
      with p2 assms(1) staged_marks have "py_count mark u \<noteq> 0" by fastforce
      with marked_not_edited u pl(2) show False by blast
    qed
  qed
  then have "snd (no_store_main parses mark plan fs') = fs'"
    by (cases "stage parses mark plan fs'") (auto simp: no_store_main_def)
  with ch r stage_all [OF Inr] show ?thesis by blast
qed


definition demo_plan :: "plan_entry list" where
  "demo_plan = [\<lparr>pl_path = ''pool.py'', pl_edits = [(''OLD'', ''NEW # [m]'')], pl_requires = [''logger'']\<rparr>,
     \<lparr>pl_path = ''request.py'', pl_edits = [(''A'', ''B # [m]'')], pl_requires = []\<rparr>]"

definition demo_fs :: file_system where
  "demo_fs = [''pool.py'' \<mapsto> ''logger OLD'', ''request.py'' \<mapsto> ''no anchor'']"

lemma demo_plan_marks: "\<forall>pl \<in> set demo_plan. 0 < expected_marks ''[m]'' (pl_edits pl)"
  by code_simp

theorem no_store_all_or_nothing_witness: "no_store_main (\<lambda>_. True) ''[m]'' demo_plan demo_fs = (Inl SystemExit, demo_fs)"
proof -
  have r: "fst (no_store_main (\<lambda>_. True) ''[m]'' demo_plan demo_fs) = Inl SystemExit" by code_simp
  from no_store_all_or_nothing [OF demo_plan_marks, of "\<lambda>_. True" demo_fs] r show ?thesis
    by (cases "no_store_main (\<lambda>_. True) ''[m]'' demo_plan demo_fs") simp
qed

end
