(* ===== verification/Installers.thy ===== *)
theory Installers
  imports Overlay_Texts
begin

text \<open>
  The installers of the overlays that patch one installed file of vLLM at container start, as functions from
  the text of the file to its new text or to a refusal (an exit code 1 is a refusal like \<open>SystemExit\<close>):
  which texts they take for a finished installation, which for a partial one, the anchors they count and the
  edits they make. Python's own parser is a parameter (\<open>parses\<close>, and \<open>plain_os\<close> for the check of a
  top-level \<open>import os\<close>), and so are the texts of helper functions that an installer copies with
  \<open>inspect.getsource\<close>. Every installer is shown to satisfy the contract of the locale \<open>installer\<close>.
\<close>

subsection \<open>Align floor\<close>

definition CUDA_IMPORT :: string where
  "CUDA_IMPORT = lns [''from vllm.compilation.cuda_graph import CUDAGraphStat'']"

text \<open>A validation parses the text first, so that a syntax error comes before every other complaint.\<close>

definition validated :: "(string \<Rightarrow> bool) \<Rightarrow> bool \<Rightarrow> string \<Rightarrow> string res" where
  "validated parses ok t = (if ok then Inr t else Inl (if parses t then SystemExit else SyntaxError))"

lemma validated_Inr [simp]: "validated parses ok t = Inr t' \<longleftrightarrow> ok \<and> t' = t"
  by (auto simp: validated_def)

definition af_validate :: "(string \<Rightarrow> bool) \<Rightarrow> (string \<Rightarrow> bool) \<Rightarrow> string \<Rightarrow> bool" where
  "af_validate parses plain_os t \<longleftrightarrow> parses t \<and> py_count AF_SPLIT_NEW t = 1 \<and> py_count AF_SPLIT_OLD t = 0
     \<and> py_count AF_HELPER t = 1 \<and> plain_os t"

definition add_import_os :: "string \<Rightarrow> string res" where
  "add_import_os t =
     (if \<not> py_in (lns [''import os'']) (py_before (lns [''import time'']) t) then replace_once t AF_IMPORT_OLD AF_IMPORT_NEW
      else Inr t)"

definition align_floor_main :: "(string \<Rightarrow> bool) \<Rightarrow> (string \<Rightarrow> bool) \<Rightarrow> string \<Rightarrow> string res" where
  "align_floor_main parses plain_os t =
     (if py_in AF_MARK t then validated parses (af_validate parses plain_os t) t
      else if py_in AF_SPLIT_NEW t \<or> py_in ''def _glm53_align_floor('' t then Inl SystemExit
      else res_bind (add_import_os t) (\<lambda>t.
           res_bind (if \<not> py_in ''def _glm53_align_floor('' t
                     then replace_once t CUDA_IMPORT (AF_HELPER @ CUDA_IMPORT) else Inr t) (\<lambda>t.
           res_bind (replace_once t AF_SPLIT_OLD AF_SPLIT_NEW) (\<lambda>t.
             validated parses (af_validate parses plain_os t) t))))"

definition align_floor_complete :: "(string \<Rightarrow> bool) \<Rightarrow> (string \<Rightarrow> bool) \<Rightarrow> string \<Rightarrow> bool" where
  "align_floor_complete parses plain_os t \<longleftrightarrow> py_in AF_MARK t \<and> af_validate parses plain_os t"

subsection \<open>Tail-first eviction\<close>

definition tail_evict_main :: "environ \<Rightarrow> string \<Rightarrow> string res" where
  "tail_evict_main env t =
     (if py_strip (env_get env ''GLM53_CACHE_TAIL_EVICT'' ''0'') \<noteq> ''1'' then Inr t
      else if py_in TE_MARK t then Inr t
      else if py_count TE_POP_OLD t \<noteq> 1 \<or> py_count TE_DEF_OLD t \<noteq> 1 then Inl SystemExit
      else let updated = py_replace1 TE_POP_OLD TE_POP_NEW (py_replace1 TE_DEF_OLD TE_DEF_NEW t)
           in if py_count TE_MARK updated < 2 \<or> py_in TE_POP_OLD updated then Inl SystemExit else Inr updated)"

definition tail_evict_complete :: "environ \<Rightarrow> string \<Rightarrow> bool" where
  "tail_evict_complete env t \<longleftrightarrow> py_strip (env_get env ''GLM53_CACHE_TAIL_EVICT'' ''0'') \<noteq> ''1'' \<or> py_in TE_MARK t"

subsection \<open>Hybrid prefix hit\<close>

definition RETENTION_NEEDLE :: string where
  "RETENTION_NEEDLE = lns [''def _validate_prefix_cache_retention_interval('']"

definition hh_verified :: "string \<Rightarrow> bool" where
  "hh_verified t \<longleftrightarrow> py_in HH_MARK t \<and> py_in ''def _glm53_is_draft_swa_spec('' t \<and> py_in ''swa_ids or set('' t
     \<and> py_count HH_EAGLE_NEW t = 1 \<and> py_count HH_MIN_NEW t = 1 \<and> py_count HH_LOG_NEW t = 1
     \<and> py_count HH_EAGLE_OLD t = 0 \<and> py_count HH_MIN_OLD t = 0"

definition hybrid_hit_main :: "(string \<Rightarrow> bool) \<Rightarrow> string \<Rightarrow> string res" where
  "hybrid_hit_main parses t =
     (if py_in HH_MARK t then (if hh_verified t then Inr t else Inl SystemExit)
      else if py_count RETENTION_NEEDLE t \<noteq> 1 then Inl SystemExit
      else let t = (if \<not> py_in ''def _glm53_inner_kv_spec('' t then py_replace1 RETENTION_NEEDLE (HH_HELPER @ RETENTION_NEEDLE) t else t)
           in res_bind (replace_once t HH_EAGLE_OLD HH_EAGLE_NEW) (\<lambda>t.
              res_bind (replace_once t HH_MIN_OLD HH_MIN_NEW) (\<lambda>t.
              res_bind (replace_once t HH_LOG_OLD HH_LOG_NEW) (\<lambda>t.
                if \<not> hh_verified t then Inl SystemExit else if parses t then Inr t else Inl SyntaxError))))"

subsection \<open>Mamba null gaps\<close>

definition ng_class_text :: "string \<Rightarrow> string" where
  "ng_class_text t =
     (case py_find ''class MambaManager('' t of
        None \<Rightarrow> (case py_find_from (lns [[]] @ ''class '') t 0 of
                   Some j \<Rightarrow> drop (length t - 1) (take j t) | None \<Rightarrow> drop (length t - 1) t)
      | Some i \<Rightarrow> (case py_find_from (lns [[]] @ ''class '') t (i + 1) of
                     Some j \<Rightarrow> drop i (take j t) | None \<Rightarrow> drop i t))"

definition ng_validate :: "(string \<Rightarrow> bool) \<Rightarrow> string \<Rightarrow> bool" where
  "ng_validate parses t \<longleftrightarrow> parses t
     \<and> list_all (\<lambda>sn. py_count sn t = 1 \<and> py_in sn (ng_class_text t)) [NG_INIT_NEW, NG_REMOVE_OVERRIDE, NG_FREE_NEW]
     \<and> py_count NG_MARK t = 2"

definition null_gap_main :: "(string \<Rightarrow> bool) \<Rightarrow> string \<Rightarrow> string res" where
  "null_gap_main parses t =
     (if py_in NG_MARK t then validated parses (ng_validate parses t) t
      else res_bind (replace_once t NG_INIT_OLD NG_INIT_NEW) (\<lambda>t.
           case py_find ''class MambaManager('' t of
             None \<Rightarrow> Inl SystemExit
           | Some i \<Rightarrow>
               (case py_find_from NG_REMOVE_ANCHOR t i of
                  None \<Rightarrow> Inl SystemExit
                | Some j \<Rightarrow>
                    res_bind (replace_once (take j t @ NG_REMOVE_OVERRIDE @ drop j t) NG_FREE_OLD NG_FREE_NEW) (\<lambda>t.
                      validated parses (ng_validate parses t) t))))"

definition null_gap_complete :: "(string \<Rightarrow> bool) \<Rightarrow> string \<Rightarrow> bool" where
  "null_gap_complete parses t \<longleftrightarrow> py_in NG_MARK t \<and> ng_validate parses t"

subsection \<open>Prefix admission and resident tail\<close>

definition pa_complete :: "string \<Rightarrow> bool" where
  "pa_complete t \<longleftrightarrow> py_count PA_MARK t = 2 \<and> py_count ''def _glm53_aligned_prefix_tokens('' t = 1
     \<and> py_count ''def _glm53_hold_for_inflight_prefix('' t = 1 \<and> py_count PA_CALL t = 1 \<and> py_count PA_ANCHOR t = 1"

definition LOGGER_LINE :: string where
  "LOGGER_LINE = lns [''logger = init_logger(__name__)'', [], []]"

definition prefix_admit_main :: "(string \<Rightarrow> bool) \<Rightarrow> string \<Rightarrow> string \<Rightarrow> string res" where
  "prefix_admit_main parses helper_source t =
     (if pa_complete t then Inr t
      else if py_in PA_MARK t \<or> py_in ''def _glm53_hold_for_inflight_prefix('' t then Inl SystemExit
      else if py_count PA_ANCHOR t \<noteq> 1 \<or> py_count PA_INSERT_AT t \<noteq> 1 then Inl SystemExit
      else let patched = py_replace1 PA_INSERT_AT (LOGGER_LINE @ helper_source @ RT_CLASS_LINE) t;
               patched = py_replace1 PA_ANCHOR (PA_CALL @ PA_ANCHOR) patched
           in if \<not> pa_complete patched then Inl SystemExit else if parses patched then Inr patched else Inl SyntaxError)"

definition rt_complete :: "string \<Rightarrow> bool" where
  "rt_complete t \<longleftrightarrow> py_count RT_MARK t = 2
     \<and> list_all (\<lambda>d. py_count d t = 1)
         [''def _glm53_is_resident_tail('', ''def _glm53_should_defer_cold('', ''def _glm53_note_resident_tail('',
          ''def _glm53_tail_still_open('', ''def _glm53_defer_cold_for_resident_tail('', ''def _glm53_has_waiting_resident_tail('',
          RT_RUN_CALL, RT_RUN_ANCHOR, RT_RUN_LPTT_NEW, RT_WAIT_LPTT_NEW, RT_CLASS_LINE]
     \<and> py_count RT_RUN_LPTT t = 0 \<and> py_count RT_WAIT_LPTT t = 0"

definition resident_tail_main :: "(string \<Rightarrow> bool) \<Rightarrow> string \<Rightarrow> string \<Rightarrow> string res" where
  "resident_tail_main parses helper_source t =
     (if rt_complete t then Inr t
      else if py_in RT_MARK t \<or> py_in ''def _glm53_defer_cold_for_resident_tail('' t then Inl SystemExit
      else if py_count RT_RUN_ANCHOR t \<noteq> 1 \<or> py_count RT_RUN_LPTT t \<noteq> 1 \<or> py_count RT_WAIT_LPTT t \<noteq> 1 \<or> py_count RT_CLASS_LINE t \<noteq> 1
      then Inl SystemExit
      else let patched = py_replace1 RT_CLASS_LINE (helper_source @ RT_CLASS_LINE) t;
               patched = py_replace1 RT_RUN_ANCHOR (RT_RUN_ANCHOR @ RT_RUN_CALL) patched;
               patched = py_replace1 RT_RUN_LPTT RT_RUN_LPTT_NEW patched;
               patched = py_replace1 RT_WAIT_LPTT RT_WAIT_LPTT_NEW patched
           in if \<not> rt_complete patched then Inl SystemExit else if parses patched then Inr patched else Inl SyntaxError)"

text \<open>The entry points of both have the same three-way answer to their flag: off, on, malformed.\<close>

definition flagged :: "environ \<Rightarrow> string \<Rightarrow> (string \<Rightarrow> string res) \<Rightarrow> string \<Rightarrow> string res" where
  "flagged env name run t =
     (let flag = py_strip (env_get env name ''0'')
      in if flag = ''0'' then Inr t else if flag \<noteq> ''1'' then Inl SystemExit else run t)"

definition flag_off :: "environ \<Rightarrow> string \<Rightarrow> bool" where
  "flag_off env name \<longleftrightarrow> py_strip (env_get env name ''0'') = ''0''"

definition flag_on :: "environ \<Rightarrow> string \<Rightarrow> bool" where
  "flag_on env name \<longleftrightarrow> py_strip (env_get env name ''0'') = ''1''"

definition prefix_admit_boot :: "environ \<Rightarrow> (string \<Rightarrow> bool) \<Rightarrow> string \<Rightarrow> string \<Rightarrow> string res" where
  "prefix_admit_boot env parses helper_source = flagged env ''GLM53_PREFIX_ADMIT'' (prefix_admit_main parses helper_source)"

definition resident_tail_boot :: "environ \<Rightarrow> (string \<Rightarrow> bool) \<Rightarrow> string \<Rightarrow> string \<Rightarrow> string res" where
  "resident_tail_boot env parses helper_source = flagged env ''GLM53_RESIDENT_TAIL'' (resident_tail_main parses helper_source)"

subsection \<open>Decode floor\<close>

text \<open>The gate helpers of the three versions; v3.1 is what \<open>_build_v31_helper\<close> derives from v3, of which only
  one thing matters here: it carries its version mark (the first time in the docstring of the configuration).\<close>

record df_helpers =
  helper_v2 :: string
  helper_v3 :: string
  v31_head :: string
  v31_tail :: string

definition helper_v31 :: "df_helpers \<Rightarrow> string" where
  "helper_v31 hs = v31_head hs @ DF_MARK_V31 @ v31_tail hs"

definition POLICY_DEF :: string where
  "POLICY_DEF = ''def _glm53_mixed_prefill_policy(running, current):''"

definition validate_v31 :: "df_helpers \<Rightarrow> (string \<Rightarrow> bool) \<Rightarrow> (string \<Rightarrow> bool) \<Rightarrow> string \<Rightarrow> string res" where
  "validate_v31 hs parses plain_os t =
     (if list_ex (\<lambda>sn. py_count sn t \<noteq> 1) [helper_v31 hs, DF_HELPER_POLICY, DF_RUNNING_NEW, DF_WAITING_NEW] then Inl SystemExit
      else if py_in (helper_v2 hs) t \<or> py_in (helper_v3 hs) t then Inl SystemExit
      else if \<not> parses t then Inl SyntaxError
      else if \<not> plain_os t then Inl SystemExit
      else Inr t)"

definition upgrade_v1_to_v2 :: "df_helpers \<Rightarrow> string \<Rightarrow> string res" where
  "upgrade_v1_to_v2 hs t =
     res_bind (replace_once t DF_V1_RUNNING DF_V2_RUNNING) (\<lambda>t.
     res_bind (replace_once t DF_V1_WAITING DF_V2_WAITING) (\<lambda>t.
       replace_once t POLICY_DEF (helper_v2 hs @ POLICY_DEF)))"

definition upgrade_to_v31 :: "string \<Rightarrow> df_helpers \<Rightarrow> string \<Rightarrow> string res" where
  "upgrade_to_v31 old hs t =
     res_bind (replace_once t old (helper_v31 hs)) (\<lambda>t.
       if \<not> py_in DF_MARK_V31 t \<or> py_in old t \<or> py_count ''def _glm53_mixed_prefill_gate('' t \<noteq> 1 then Inl SystemExit else Inr t)"

definition decode_floor_main :: "df_helpers \<Rightarrow> (string \<Rightarrow> bool) \<Rightarrow> (string \<Rightarrow> bool) \<Rightarrow> string \<Rightarrow> string res" where
  "decode_floor_main hs parses plain_os t =
     (if py_in DF_MARK_V31 t then validate_v31 hs parses plain_os t
      else res_bind
        (if py_in DF_MARK_V3 t then upgrade_to_v31 (helper_v3 hs) hs t
         else if py_in DF_MARK_V2 t then upgrade_to_v31 (helper_v2 hs) hs t
         else if py_in DF_MARK t then res_bind (upgrade_v1_to_v2 hs t) (upgrade_to_v31 (helper_v2 hs) hs)
         else res_bind (add_import_os t) (\<lambda>t.
              res_bind (if \<not> py_in ''def _glm53_mixed_prefill_policy('' t
                        then replace_once t CUDA_IMPORT (helper_v31 hs @ DF_HELPER_POLICY @ CUDA_IMPORT) else Inr t) (\<lambda>t.
              res_bind (replace_once t DF_RUNNING_OLD DF_RUNNING_NEW) (\<lambda>t. replace_once t DF_WAITING_OLD DF_WAITING_NEW))))
        (validate_v31 hs parses plain_os))"

definition decode_floor_complete :: "df_helpers \<Rightarrow> (string \<Rightarrow> bool) \<Rightarrow> (string \<Rightarrow> bool) \<Rightarrow> string \<Rightarrow> bool" where
  "decode_floor_complete hs parses plain_os t \<longleftrightarrow> py_in DF_MARK_V31 t \<and> validate_v31 hs parses plain_os t = Inr t"


subsection \<open>The contract\<close>

lemma count_1_in: "py_count p s = 1 \<Longrightarrow> p \<noteq> [] \<Longrightarrow> py_in p s"
  using py_count_0_iff [of p s] by auto

lemma lns_neq_Nil [simp]: "lns (l # ls) \<noteq> []"
  by (simp add: lns_def)

text \<open>Each replacement text carries its installer's mark.\<close>

lemma marks_in [text_simps]:
  "py_in AF_MARK AF_SPLIT_NEW" "py_in HH_MARK HH_MIN_NEW" "py_in NG_MARK NG_INIT_NEW"
  by code_simp+

interpretation align_floor_inst: installer "align_floor_main parses plain_os" "align_floor_complete parses plain_os"
  for parses plain_os
proof unfold_locales
  fix t t'
  assume r: "align_floor_main parses plain_os t = Inr t'"
  have "py_in AF_MARK u" if "af_validate parses plain_os u" for u
  proof -
    from that have "py_in AF_SPLIT_NEW u" by (intro count_1_in) (simp_all add: af_validate_def AF_SPLIT_NEW_def)
    with marks_in(1) show ?thesis by (rule py_in_trans)
  qed
  with r show "align_floor_complete parses plain_os t'"
    by (auto simp: align_floor_main_def align_floor_complete_def res_bind_Inr split: if_splits)
next
  fix t
  assume "align_floor_complete parses plain_os t"
  then show "align_floor_main parses plain_os t = Inr t" by (simp add: align_floor_main_def align_floor_complete_def)
qed

interpretation tail_evict_inst: installer "tail_evict_main env" "tail_evict_complete env" for env
proof unfold_locales
  fix t t'
  assume r: "tail_evict_main env t = Inr t'"
  have "py_in TE_MARK u" if "\<not> py_count TE_MARK u < 2" for u
    using that py_count_0_iff [of TE_MARK u] by (auto simp: TE_MARK_def)
  with r show "tail_evict_complete env t'"
    by (auto simp: tail_evict_main_def tail_evict_complete_def Let_def split: if_splits)
next
  fix t
  assume "tail_evict_complete env t"
  then show "tail_evict_main env t = Inr t" by (auto simp: tail_evict_main_def tail_evict_complete_def)
qed

interpretation hybrid_hit_inst: installer "hybrid_hit_main parses" hh_verified for parses
proof unfold_locales
  show "hh_verified t'" if "hybrid_hit_main parses t = Inr t'" for t t'
    using that by (auto simp: hybrid_hit_main_def Let_def res_bind_Inr split: if_splits)
  show "hybrid_hit_main parses t = Inr t" if "hh_verified t" for t
    using that by (simp add: hybrid_hit_main_def hh_verified_def)
qed

interpretation null_gap_inst: installer "null_gap_main parses" "null_gap_complete parses" for parses
proof unfold_locales
  fix t t'
  assume r: "null_gap_main parses t = Inr t'"
  have "py_in NG_MARK u" if "ng_validate parses u" for u
    using that by (intro py_in_trans [OF marks_in(3)] count_1_in) (simp_all add: ng_validate_def NG_INIT_NEW_def)
  with r show "null_gap_complete parses t'"
    by (auto simp: null_gap_main_def null_gap_complete_def res_bind_Inr split: if_splits option.splits)
next
  fix t
  assume "null_gap_complete parses t"
  then show "null_gap_main parses t = Inr t" by (simp add: null_gap_main_def null_gap_complete_def)
qed

interpretation prefix_admit_inst: installer "prefix_admit_main parses helper" pa_complete for parses helper
  by unfold_locales (auto simp: prefix_admit_main_def Let_def split: if_splits)

interpretation resident_tail_inst: installer "resident_tail_main parses helper" rt_complete for parses helper
  by unfold_locales (auto simp: resident_tail_main_def Let_def split: if_splits)

text \<open>A flag in front of an installer is again an installer.\<close>

lemma flagged_installer:
  assumes "installer run done_at"
  shows "installer (flagged env name run) (\<lambda>t. flag_off env name \<or> flag_on env name \<and> done_at t)"
  using installer.installs [OF assms] installer.noop [OF assms]
  by unfold_locales (auto simp: flagged_def flag_off_def flag_on_def Let_def split: if_splits)

interpretation prefix_admit_flag: installer "prefix_admit_boot env parses helper"
    "\<lambda>t. flag_off env ''GLM53_PREFIX_ADMIT'' \<or> flag_on env ''GLM53_PREFIX_ADMIT'' \<and> pa_complete t" for env parses helper
  unfolding prefix_admit_boot_def by (rule flagged_installer [OF prefix_admit_inst.installer_axioms])

interpretation resident_tail_flag: installer "resident_tail_boot env parses helper"
    "\<lambda>t. flag_off env ''GLM53_RESIDENT_TAIL'' \<or> flag_on env ''GLM53_RESIDENT_TAIL'' \<and> rt_complete t" for env parses helper
  unfolding resident_tail_boot_def by (rule flagged_installer [OF resident_tail_inst.installer_axioms])

lemma validate_v31_Inr: "validate_v31 hs parses plain_os t = Inr t' \<Longrightarrow> t' = t \<and> py_in DF_MARK_V31 t"
proof -
  assume v: "validate_v31 hs parses plain_os t = Inr t'"
  then have "py_count (helper_v31 hs) t = 1" and eq: "t' = t" by (auto simp: validate_v31_def split: if_splits)
  then have "py_in (helper_v31 hs) t" by (intro count_1_in) (simp_all add: helper_v31_def DF_MARK_V31_def)
  moreover have "py_in DF_MARK_V31 (helper_v31 hs)" by (auto simp: helper_v31_def py_in_iff)
  ultimately show ?thesis using eq py_in_trans by blast
qed

interpretation decode_floor_inst: installer "decode_floor_main hs parses plain_os" "decode_floor_complete hs parses plain_os"
  for hs parses plain_os
proof unfold_locales
  fix t t'
  assume "decode_floor_main hs parses plain_os t = Inr t'"
  then obtain u where "validate_v31 hs parses plain_os u = Inr t'"
    by (auto simp: decode_floor_main_def res_bind_Inr split: if_splits)
  then show "decode_floor_complete hs parses plain_os t'"
    using validate_v31_Inr [of hs parses plain_os u t'] by (auto simp: decode_floor_complete_def)
next
  fix t
  assume "decode_floor_complete hs parses plain_os t"
  then show "decode_floor_main hs parses plain_os t = Inr t" by (simp add: decode_floor_main_def decode_floor_complete_def)
qed


subsection \<open>Properties\<close>

text \<open>The decode floor is installed once. Whatever generation of the gate a scheduler file carries (none, v1,
  v2, v3 or v3.1), if the installer accepts it the result carries the v3.1 helper, the policy and both call
  sites exactly once and no predecessor, and running the installer again on the result changes nothing.\<close>

theorem decode_floor_installs_once:
  "case decode_floor_main hs parses plain_os t of
     Inl e \<Rightarrow> True
   | Inr t' \<Rightarrow> decode_floor_main hs parses plain_os t' = Inr t'
       \<and> py_count (helper_v31 hs) t' = 1 \<and> py_count DF_HELPER_POLICY t' = 1
       \<and> py_count DF_RUNNING_NEW t' = 1 \<and> py_count DF_WAITING_NEW t' = 1
       \<and> \<not> py_in (helper_v2 hs) t' \<and> \<not> py_in (helper_v3 hs) t' \<and> parses t' \<and> plain_os t'"
proof (cases "decode_floor_main hs parses plain_os t")
  case (Inr t')
  from decode_floor_inst.idempotent [OF Inr] decode_floor_inst.installs [OF Inr] show ?thesis
    unfolding Inr by (auto simp: decode_floor_complete_def validate_v31_def split: if_splits)
qed simp

text \<open>The resident tail unsettles the decode floor. The long-prefill cap that the resident-tail installer
  rewrites is part of the call site that the decode-floor installer insists on finding verbatim, so no
  scheduler file with the finished resident tail is one on which a further run of the decode-floor
  installer is the announced no-op.\<close>

theorem resident_tail_unsettles_decode_floor:
  "\<not> (rt_complete t \<and> decode_floor_main hs parses plain_os t = Inr t)"
proof
  assume a: "rt_complete t \<and> decode_floor_main hs parses plain_os t = Inr t"
  then have "validate_v31 hs parses plain_os t = Inr t"
    using decode_floor_inst.fixpoint_iff by (auto simp: decode_floor_complete_def)
  then have "py_count DF_RUNNING_NEW t = 1" by (auto simp: validate_v31_def split: if_splits)
  moreover have "DF_RUNNING_NEW \<noteq> []" by (simp add: DF_RUNNING_NEW_def)
  moreover have "py_in RT_RUN_LPTT DF_RUNNING_NEW" by code_simp
  ultimately have "py_in RT_RUN_LPTT t" using py_in_trans count_1_in by blast
  then show False using a py_count_0_iff [of RT_RUN_LPTT t] by (simp add: rt_complete_def RT_RUN_LPTT_def)
qed

text \<open>A boot is safe to repeat. On the file system, an installer that refuses leaves every file as it was,
  and after one that succeeds any number of further starts changes nothing: stated for the installer of the
  null-gap retirement, whose target is written without a temporary file.\<close>

theorem null_gap_boot_repeatable:
  "case run_on_file (null_gap_main parses) path fs of
     (Inl e, fs') \<Rightarrow> fs' = fs
   | (Inr u, fs') \<Rightarrow> run_on_file (null_gap_main parses) path fs' = (Inr u, fs')
       \<and> (\<exists>t. fs' = fs(path \<mapsto> t) \<and> null_gap_complete parses t)"
  using null_gap_inst.installs null_gap_inst.idempotent
  by (auto simp: run_on_file_def split: option.splits sum.splits prod.splits)

end
