(* ===== verification/Stop_Guard.thy ===== *)
theory Stop_Guard
  imports Py_Text
begin

text \<open>
  Client stop strings during reasoning, \<^verbatim>\<open>overlay/patch_suppress_stops_in_reasoning.py\<close>: when the
  guard of a detokenizer is armed (\<open>FACTORY_NEW\<close>), the evaluation of the stop strings that \<open>STOP_NEW\<close>
  puts in front of vLLM's \<open>check_stop_strings\<close>, and the installer. The stop check itself, the
  tokenizer and the offset from which the stop check looks at the text are vLLM code and are arguments.
\<close>

subsection \<open>Arming the guard\<close>

definition suppress_stops_enabled :: "environ \<Rightarrow> bool" where
  "suppress_stops_enabled env =
     (case env ''GLM53_SUPPRESS_STOPS_IN_REASONING'' of
        Some v \<Rightarrow> v \<noteq> ''0''
      | None \<Rightarrow> (case env ''VLLM_SUPPRESS_STOPS_IN_REASONING'' of Some v \<Rightarrow> v \<noteq> ''0'' | None \<Rightarrow> True))"

text \<open>The markers of the reasoning configuration, if there is one; an empty marker is no marker.\<close>

definition reasoning_stop_markers :: "(string \<times> string) option \<Rightarrow> string \<times> string" where
  "reasoning_stop_markers rc =
     (case rc of
        None \<Rightarrow> (''<think>'', ''</think>'')
      | Some (s, e) \<Rightarrow> (if s = [] then ''<think>'' else s, if e = [] then ''</think>'' else e))"

text \<open>\<open>convert_tokens_to_ids\<close> and \<open>encode\<close>, where the tokenizer has them; \<open>encode\<close> is tried with and
  without the keyword argument, and \<open>None\<close> stands for a result that is not a list.\<close>

record guard_tokenizer =
  gt_convert :: "(string \<Rightarrow> int option res) option"
  gt_encode :: "(bool \<Rightarrow> string \<Rightarrow> int list option res) option"

definition think_id :: "guard_tokenizer \<Rightarrow> string \<Rightarrow> int option res" where
  "think_id tok start =
     res_bind (case gt_convert tok of None \<Rightarrow> Inr None | Some f \<Rightarrow> f start) (\<lambda>tid.
       if (case tid of None \<Rightarrow> True | Some i \<Rightarrow> i < 0)
       then case gt_encode tok of
              None \<Rightarrow> Inr tid
            | Some enc \<Rightarrow>
                res_bind (case enc True start of Inl TypeError \<Rightarrow> enc False start | r \<Rightarrow> r)
                  (\<lambda>ids. Inr (case ids of Some [i] \<Rightarrow> Some i | _ \<Rightarrow> tid))
       else Inr tid)"

record detok =
  dt_stop :: "string list"
  dt_min_tokens :: int
  dt_num_tokens :: int
  dt_text :: string
  dt_guard :: bool
  dt_closed :: bool
  dt_end :: string

definition detok_init :: "string list \<Rightarrow> int \<Rightarrow> detok" where
  "detok_init stop min_tokens = \<lparr>dt_stop = stop, dt_min_tokens = min_tokens, dt_num_tokens = 0, dt_text = [],
     dt_guard = False, dt_closed = False, dt_end = ''</think>''\<rparr>"

definition maybe_enable_guard :: "environ \<Rightarrow> (string \<times> string) option \<Rightarrow> guard_tokenizer \<Rightarrow> int list option \<Rightarrow> detok \<Rightarrow> detok" where
  "maybe_enable_guard env rc tok prompt_token_ids d =
     (if \<not> suppress_stops_enabled env then d
      else case prompt_token_ids of
        None \<Rightarrow> d
      | Some ptids \<Rightarrow>
          if dt_stop d = [] \<or> ptids = [] then d
          else case think_id tok (fst (reasoning_stop_markers rc)) of
            Inr (Some i) \<Rightarrow>
              if 0 \<le> i \<and> last ptids = i
              then d\<lparr>dt_guard := True, dt_end := snd (reasoning_stop_markers rc)\<rparr> else d
          | _ \<Rightarrow> d)"

subsection \<open>The stop check\<close>

text \<open>\<open>check text off\<close> is the stock evaluation: a stop in the part of the text that reaches beyond \<open>off\<close>.
  The result is the stop, the offset it was evaluated with, and the detokenizer.\<close>

definition stop_step :: "(string \<Rightarrow> nat \<Rightarrow> 'r option) \<Rightarrow> nat \<Rightarrow> detok \<Rightarrow> 'r option \<times> nat \<times> detok" where
  "stop_step check stop_check_offset d =
     (let (off, d) =
        (if dt_guard d \<and> \<not> dt_closed d
         then let marker = dt_end d;
                  window = nat (max 0 (int stop_check_offset - (int (length marker) - 1)))
              in case py_find_from marker (dt_text d) window of
                   None \<Rightarrow> (stop_check_offset, d)
                 | Some idx \<Rightarrow> (max stop_check_offset (idx + length marker), d\<lparr>dt_closed := True\<rparr>)
         else (stop_check_offset, d))
      in (if dt_stop d \<noteq> [] \<and> dt_min_tokens d < dt_num_tokens d \<and> (\<not> dt_guard d \<or> dt_closed d)
          then check (dt_text d) off else None, off, d))"

text \<open>One update: the new text and tokens, then the check. A request ends with its first stop. An event
  is the text of an update, its tokens and the offset that vLLM passes.\<close>

type_synonym update_event = "string \<times> int \<times> nat"

definition grow :: "string \<Rightarrow> int \<Rightarrow> detok \<Rightarrow> detok" where
  "grow chunk n d = d\<lparr>dt_text := dt_text d @ chunk, dt_num_tokens := dt_num_tokens d + n\<rparr>"

fun guard_run :: "(string \<Rightarrow> nat \<Rightarrow> 'r option) \<Rightarrow> detok \<Rightarrow> update_event list \<Rightarrow> ('r \<times> nat) option \<times> detok" where
  "guard_run check d [] = (None, d)"
| "guard_run check d ((chunk, n, off) # es) =
     (case stop_step check off (grow chunk n d) of
        (Some r, off', d') \<Rightarrow> (Some (r, off'), d')
      | (None, off', d') \<Rightarrow> guard_run check d' es)"

text \<open>Offsets within the new text; and the offsets of a request without a minimum length, each the
  length of the text before the update.\<close>

fun offsets_ok :: "nat \<Rightarrow> update_event list \<Rightarrow> bool" where
  "offsets_ok len [] = True"
| "offsets_ok len ((chunk, n, off) # es) = (len \<le> off \<and> off \<le> len + length chunk \<and> offsets_ok (len + length chunk) es)"

fun stock_events :: "nat \<Rightarrow> (string \<times> int) list \<Rightarrow> update_event list" where
  "stock_events len [] = []"
| "stock_events len ((chunk, n) # es) = (chunk, n, len) # stock_events (len + length chunk) es"

subsection \<open>The installer\<close>

text \<open>The replaced texts and their replacements, in the order of the edits.\<close>

record stop_texts =
  st_mark :: string
  st_import_old :: string
  st_import_new :: string
  st_factory_old :: string
  st_factory_new :: string
  st_init_old :: string
  st_init_new :: string
  st_stop_old :: string
  st_stop_new :: string

datatype apply_status = Applied | Skipped | Missing "string list"

definition GUARD_NAME :: string where
  "GUARD_NAME = ''_maybe_enable_reasoning_stop_guard''"

definition verified_installed :: "stop_texts \<Rightarrow> string \<Rightarrow> bool" where
  "verified_installed ts src \<longleftrightarrow> py_in (st_mark ts) src \<and> py_in GUARD_NAME src
     \<and> py_in (st_import_new ts) src \<and> py_in (st_factory_new ts) src \<and> py_in (st_init_new ts) src \<and> py_in (st_stop_new ts) src
     \<and> \<not> py_in (st_factory_old ts) src \<and> \<not> py_in (st_init_old ts) src \<and> \<not> py_in (st_stop_old ts) src"

definition labelled :: "(bool \<times> string) list \<Rightarrow> string list" where
  "labelled xs = map snd (filter fst xs)"

definition apply_text :: "stop_texts \<Rightarrow> string \<Rightarrow> string \<times> apply_status" where
  "apply_text ts src =
     (if verified_installed ts src then (src, Skipped)
      else if py_in (st_mark ts) src \<or> py_in GUARD_NAME src \<or> py_in (st_import_new ts) src \<or> py_in (st_factory_new ts) src
        \<or> py_in (st_init_new ts) src \<or> py_in (st_stop_new ts) src
      then let missing = labelled [(\<not> py_in (st_import_new ts) src, ''import''), (\<not> py_in (st_factory_new ts) src, ''factory''),
                 (\<not> py_in (st_init_new ts) src, ''init''), (\<not> py_in (st_stop_new ts) src \<or> py_in (st_stop_old ts) src, ''stop'')]
           in (src, Missing (if missing = [] then [''partial''] else missing))
      else let missing = labelled [(\<not> py_in (st_import_old ts) src, ''import''), (\<not> py_in (st_factory_old ts) src, ''factory''),
                 (\<not> py_in (st_init_old ts) src, ''init''), (\<not> py_in (st_stop_old ts) src, ''stop'')]
           in if missing \<noteq> [] then (src, Missing missing)
              else let out = py_replace1 (st_import_old ts) (st_import_new ts) src;
                       out = py_replace1 (st_factory_old ts) (st_factory_new ts) out;
                       out = py_replace1 (st_init_old ts) (st_init_new ts) out;
                       out = py_replace1 (st_stop_old ts) (st_stop_new ts) out
                   in if \<not> verified_installed ts out then (src, Missing [''post-patch'']) else (out, Applied))"

text \<open>\<open>apply_file\<close> and the exit of \<open>main\<close>.\<close>

definition stop_guard_main :: "stop_texts \<Rightarrow> (string \<Rightarrow> bool) \<Rightarrow> string \<Rightarrow> string res" where
  "stop_guard_main ts parses src =
     (case apply_text ts src of
        (out, Applied) \<Rightarrow> if parses out then Inr out else Inl SyntaxError
      | (out, Skipped) \<Rightarrow> Inr src
      | (out, Missing _) \<Rightarrow> Inl SystemExit)"

interpretation stop_guard_inst: installer "stop_guard_main ts parses" "verified_installed ts" for ts parses
  by unfold_locales
    (auto simp: stop_guard_main_def apply_text_def Let_def split: if_splits prod.splits apply_status.splits)


subsection \<open>The search for the marker\<close>

lemma find_from_SomeD:
  assumes "py_find_from p s w = Some i"
  shows "\<exists>v. s = take i s @ p @ v" and "w \<le> i" and "i + length p \<le> length s"
proof -
  from assms obtain k where k: "py_find p (drop w s) = Some k" and i: "i = w + k" and w: "w \<le> length s"
    by (auto simp: py_find_from_def split: if_splits)
  from py_find_SomeD [OF k] obtain v where "drop w s = take k (drop w s) @ p @ v" by blast
  then have "take w s @ drop w s = (take w s @ take k (drop w s)) @ p @ v" by simp
  then have s: "s = take i s @ p @ v" by (simp add: i take_add)
  then show "\<exists>v. s = take i s @ p @ v" by blast
  from py_find_SomeD [OF k] w have "i \<le> length s" by (auto simp: i)
  with arg_cong [OF s, of length] show "i + length p \<le> length s" by simp
  show "w \<le> i" by (simp add: i)
qed

lemma find_from_NoneD:
  assumes "py_find_from p s w = None" and "s = u @ p @ v"
  shows "length u < w"
proof (rule ccontr)
  assume "\<not> length u < w"
  then have w: "w \<le> length u" by simp
  with assms have "py_find p (drop w s) = None" by (simp add: py_find_from_def)
  from py_find_None [OF this, of "length u - w"] w assms(2) show False by (simp add: diff_le_mono)
qed

lemma stop_step_open:
  assumes "dt_guard d" and "\<not> dt_closed d" and "dt_end d \<noteq> []" and "stop_step check off d = (r, off', d')"
  shows "dt_closed d' \<longleftrightarrow> (\<exists>u v. dt_text d = u @ dt_end d @ v \<and> off < length u + length (dt_end d))"
    and "\<not> dt_closed d' \<Longrightarrow> r = None"
    and "dt_closed d' \<Longrightarrow> \<exists>u v. dt_text d = u @ dt_end d @ v \<and> length u + length (dt_end d) \<le> off'"
proof -
  let ?w = "nat (max 0 (int off - (int (length (dt_end d)) - 1)))"
  have w: "?w \<le> n \<longleftrightarrow> off < n + length (dt_end d)" for n
    using assms(3) by (cases "dt_end d") auto
  have iff: "dt_closed d' \<longleftrightarrow> py_find_from (dt_end d) (dt_text d) ?w \<noteq> None"
    using assms by (auto simp: stop_step_def Let_def split: option.splits if_splits)
  show "dt_closed d' \<longleftrightarrow> (\<exists>u v. dt_text d = u @ dt_end d @ v \<and> off < length u + length (dt_end d))"
  proof
    assume "dt_closed d'"
    then obtain i where i: "py_find_from (dt_end d) (dt_text d) ?w = Some i" using iff by auto
    then obtain v where "dt_text d = take i (dt_text d) @ dt_end d @ v" using find_from_SomeD(1) by blast
    moreover have "off < i + length (dt_end d)" using find_from_SomeD(2) [OF i] w by blast
    moreover have "length (take i (dt_text d)) = i" using find_from_SomeD(3) [OF i] by simp
    ultimately show "\<exists>u v. dt_text d = u @ dt_end d @ v \<and> off < length u + length (dt_end d)" by metis
  next
    assume "\<exists>u v. dt_text d = u @ dt_end d @ v \<and> off < length u + length (dt_end d)"
    then show "dt_closed d'" using iff w find_from_NoneD by (meson not_le)
  qed
  show "r = None" if "\<not> dt_closed d'"
    using assms that by (auto simp: stop_step_def Let_def split: option.splits if_splits)
  show "\<exists>u v. dt_text d = u @ dt_end d @ v \<and> length u + length (dt_end d) \<le> off'" if cl: "dt_closed d'"
  proof -
    obtain i where i: "py_find_from (dt_end d) (dt_text d) ?w = Some i" using iff cl by auto
    with assms have "off' = max off (i + length (dt_end d))"
      by (auto simp: stop_step_def Let_def split: if_splits)
    moreover from find_from_SomeD [OF i] obtain v where "dt_text d = take i (dt_text d) @ dt_end d @ v"
      and "length (take i (dt_text d)) = i" by auto
    ultimately show ?thesis by (metis max.cobounded2)
  qed
qed

lemma stop_step_closed:
  assumes "dt_closed d" and "stop_step check off d = (r, off', d')"
  shows "off' = off \<and> d' = d \<and> (\<forall>x. r = Some x \<longrightarrow> check (dt_text d) off = Some x)"
  using assms by (auto simp: stop_step_def split: if_splits)

lemma stop_step_frame:
  assumes "stop_step check off d = (r, off', d')"
  shows "dt_text d' = dt_text d" and "dt_guard d' = dt_guard d" and "dt_end d' = dt_end d" and "dt_stop d' = dt_stop d"
    and "r = Some x \<Longrightarrow> check (dt_text d') off' = Some x"
  using assms by (auto simp: stop_step_def Let_def split: option.splits if_splits)

lemma grow_sel [simp]:
  "dt_text (grow c n d) = dt_text d @ c" "dt_guard (grow c n d) = dt_guard d" "dt_closed (grow c n d) = dt_closed d"
  "dt_end (grow c n d) = dt_end d" "dt_stop (grow c n d) = dt_stop d"
  by (simp_all add: grow_def)

subsection \<open>Reasoning is not interrupted\<close>

text \<open>Everything up to \<open>n\<close> includes a whole end marker.\<close>

definition marker_by :: "string \<Rightarrow> string \<Rightarrow> nat \<Rightarrow> bool" where
  "marker_by m s n \<longleftrightarrow> (\<exists>u v. s = u @ m @ v \<and> length u + length m \<le> n)"

lemma marker_by_append: "marker_by m s n \<Longrightarrow> n \<le> k \<Longrightarrow> marker_by m (s @ t) k"
  unfolding marker_by_def by (metis append.assoc le_trans)

lemma marker_by_length: "marker_by m s n \<Longrightarrow> marker_by m s (length s)"
  unfolding marker_by_def by fastforce

lemma guard_run_dormant:
  assumes "dt_guard d" and "dt_end d \<noteq> []" and "dt_closed d \<Longrightarrow> marker_by (dt_end d) (dt_text d) (length (dt_text d))"
    and "offsets_ok (length (dt_text d)) es" and "guard_run check d es = (Some (r, off), d')"
  shows "marker_by (dt_end d) (dt_text d') off \<and> check (dt_text d') off = Some r"
  using assms
proof (induction es arbitrary: d)
  case Nil
  then show ?case by simp
next
  case (Cons e es)
  obtain c n o1 where e: "e = (c, n, o1)" by (cases e)
  obtain r1 o2 d1 where st: "stop_step check o1 (grow c n d) = (r1, o2, d1)" by (metis prod_cases3)
  note fr = stop_step_frame [OF st, simplified]
  have m1: "dt_closed d1 \<Longrightarrow> marker_by (dt_end d) (dt_text d1) o2 \<and> (dt_closed d \<longrightarrow> o2 = o1)"
  proof (cases "dt_closed d")
    case True
    with stop_step_closed [OF _ st] Cons.prems(3,4) show "dt_closed d1 \<Longrightarrow> ?thesis"
      by (auto simp: e intro: marker_by_append)
  next
    case False
    assume "dt_closed d1"
    with stop_step_open(3) [OF _ _ _ st] False Cons.prems(1,2) fr(1) show ?thesis
      by (auto simp: marker_by_def)
  qed
  show ?case
  proof (cases r1)
    case None
    with st Cons.prems(5) have run: "guard_run check d1 es = (Some (r, off), d')" by (simp add: e)
    have "dt_closed d1 \<Longrightarrow> marker_by (dt_end d1) (dt_text d1) (length (dt_text d1))"
      using m1 fr(3) marker_by_length by auto
    from Cons.IH [OF _ _ this _ run] Cons.prems(1,2,4) fr show ?thesis by (simp add: e)
  next
    case (Some x)
    with st Cons.prems(5) have res: "x = r" "o2 = off" "d1 = d'" by (simp_all add: e)
    have "dt_closed d1"
      using stop_step_open(2) [OF _ _ _ st] stop_step_closed [OF _ st] Some Cons.prems(1,2)
      by (cases "dt_closed d") auto
    with m1 fr(5) [OF Some] res show ?thesis by simp
  qed
qed

text \<open>(C39) Reasoning is never cut short. Take a request whose prompt ends in the reasoning marker, with the guard
  armed, and any sequence of updates, however the text is cut into chunks and whatever the stop check is. If
  a stop is reported, the text holds a complete end marker before the offset the stop check was given, so the
  stop reaches into text after the reasoning.\<close>

theorem reasoning_stops_dormant:
  assumes "d = maybe_enable_guard env rc tok prompt (detok_init stops min_tokens)" and "dt_guard d"
    and "offsets_ok 0 es" and "guard_run check d es = (Some (r, off), d')"
  shows "marker_by (snd (reasoning_stop_markers rc)) (dt_text d') off \<and> check (dt_text d') off = Some r"
proof -
  have d: "dt_end d = snd (reasoning_stop_markers rc)" "\<not> dt_closed d" "dt_text d = []"
    using assms(1,2) by (auto simp: maybe_enable_guard_def detok_init_def split: if_splits option.splits sum.splits)
  moreover have "snd (reasoning_stop_markers rc) \<noteq> []"
    by (auto simp: reasoning_stop_markers_def split: option.splits)
  ultimately show ?thesis using guard_run_dormant [OF assms(2) _ _ _ assms(4)] assms(3) by simp
qed


subsection \<open>The guard follows the text\<close>

lemma new_occurrence:
  assumes "s @ c = u @ m @ v" and "\<not> py_in m s"
  shows "length s < length u + length m"
proof (rule ccontr)
  assume "\<not> length s < length u + length m"
  then have "take (length s) (u @ m @ v) = u @ m @ take (length s - (length u + length m)) v" by (simp add: take_all)
  with assms(1) have "s = u @ m @ take (length s - (length u + length m)) v" by (metis append_eq_conv_conj)
  with assms(2) show False unfolding py_in_iff by blast
qed

lemma stop_step_tracks:
  assumes "dt_guard d" and "dt_end d \<noteq> []" and inv: "dt_closed d \<longleftrightarrow> py_in (dt_end d) (dt_text d)"
    and st: "stop_step check (length (dt_text d)) (grow c n d) = (r, off', d')"
  shows "dt_closed d' \<longleftrightarrow> py_in (dt_end d) (dt_text d')"
proof (cases "dt_closed d")
  case True
  with stop_step_closed [OF _ st] inv show ?thesis by (auto intro: py_in_append)
next
  case False
  note iff = stop_step_open(1) [OF _ _ _ st, simplified, OF assms(1) False assms(2)]
  show ?thesis
    unfolding iff stop_step_frame(1) [OF st] grow_sel py_in_iff
    using new_occurrence False inv by blast
qed

lemma guard_run_tracks:
  assumes "dt_guard d" and "dt_end d \<noteq> []" and "dt_closed d \<longleftrightarrow> py_in (dt_end d) (dt_text d)"
  shows "let d' = snd (guard_run check d (stock_events (length (dt_text d)) es))
    in dt_closed d' \<longleftrightarrow> py_in (dt_end d) (dt_text d')"
  using assms
proof (induction es arbitrary: d)
  case Nil
  then show ?case by simp
next
  case (Cons e es)
  obtain c n where e: "e = (c, n)" by (cases e)
  obtain r1 o2 d1 where st: "stop_step check (length (dt_text d)) (grow c n d) = (r1, o2, d1)" by (metis prod_cases3)
  note fr = stop_step_frame [OF st, simplified] and tr = stop_step_tracks [OF Cons.prems st]
  show ?case
  proof (cases r1)
    case None
    with Cons.IH [of d1] Cons.prems fr tr st show ?thesis by (simp add: e)
  next
    case (Some x)
    with tr st show ?thesis by (simp add: e Let_def)
  qed
qed

text \<open>(C40) The windowed search misses no marker. With the offsets of a request without a minimum length, the guard
  is closed at the end of any sequence of updates exactly if the whole text contains the end marker: looking
  only at the new text and the last few characters before it is as good as searching everything, also when
  the marker is spread over several updates.\<close>

theorem guard_tracks_marker:
  assumes "dt_guard d" and "\<not> dt_closed d" and "dt_end d \<noteq> []" and "dt_text d = []"
    and "guard_run check d (stock_events 0 es) = (r, d')"
  shows "dt_closed d' \<longleftrightarrow> py_in (dt_end d) (dt_text d')"
proof -
  have "dt_closed d \<longleftrightarrow> py_in (dt_end d) (dt_text d)" using assms(2-4) by (simp add: py_in_def)
  from guard_run_tracks [OF assms(1,3) this, of check es] assms(4,5) show ?thesis by (simp add: Let_def)
qed

subsection \<open>A minimum length can hide the marker\<close>

lemma guard_run_blind:
  assumes "dt_guard d" and "\<not> dt_closed d" and "dt_end d \<noteq> []" and "length u + length (dt_end d) \<le> length (dt_text d)"
    and "\<not> py_in (dt_end d) (drop (Suc (length u)) (dt_text d @ concat (map fst es)))"
  shows "fst (guard_run check d (stock_events (length (dt_text d)) es)) = None
    \<and> \<not> dt_closed (snd (guard_run check d (stock_events (length (dt_text d)) es)))"
  using assms
proof (induction es arbitrary: d)
  case Nil
  then show ?case by simp
next
  case (Cons e es)
  obtain c n where e: "e = (c, n)" by (cases e)
  obtain r1 o2 d1 where st: "stop_step check (length (dt_text d)) (grow c n d) = (r1, o2, d1)" by (metis prod_cases3)
  note fr = stop_step_frame [OF st, simplified] and op = stop_step_open [OF _ _ _ st, simplified]
  have "\<not> dt_closed d1"
  proof
    assume "dt_closed d1"
    then obtain x v where x: "dt_text d @ c = x @ dt_end d @ v" "length (dt_text d) < length x + length (dt_end d)"
      using op(1) Cons.prems(1-3) by blast
    with Cons.prems(4) have "Suc (length u) \<le> length x" by linarith
    then have "drop (Suc (length u)) (dt_text d @ concat (map fst (e # es)))
        = drop (Suc (length u)) x @ dt_end d @ v @ concat (map fst es)"
      using x(1) by (simp add: e flip: append_assoc)
    with Cons.prems(5) show False unfolding py_in_iff by metis
  qed
  with op(2) Cons.prems(1-3) have "r1 = None" by blast
  with Cons.IH [of d1] Cons.prems fr st \<open>\<not> dt_closed d1\<close> show ?case by (simp add: e)
qed

text \<open>A minimum length can keep the stops dormant for ever. vLLM moves the offset to the end of the text while
  a request is below its minimum length. If the update that completes the end marker is checked with such an
  offset, the search starts behind the beginning of the marker, and unless a further marker is generated the
  guard never closes and no stop string is evaluated for the rest of the request.\<close>

theorem minimum_length_hides_marker:
  assumes "dt_guard d" and "\<not> dt_closed d" and "dt_end d \<noteq> []" and "dt_text d @ c = u @ dt_end d"
    and "\<not> py_in (dt_end d) (drop (Suc (length u)) (u @ dt_end d @ concat (map fst es)))"
    and "length (dt_text d @ c) = k"
  shows "fst (guard_run check d ((c, n, k) # stock_events k es)) = None
    \<and> \<not> dt_closed (snd (guard_run check d ((c, n, k) # stock_events k es)))"
proof -
  obtain r1 o2 d1 where st: "stop_step check k (grow c n d) = (r1, o2, d1)" by (metis prod_cases3)
  note fr = stop_step_frame [OF st, simplified] and op = stop_step_open [OF _ _ _ st, simplified]
  have k: "k = length u + length (dt_end d)" using assms(4,6) by simp
  have "\<not> dt_closed d1"
  proof
    assume "dt_closed d1"
    then obtain x v where x: "u @ dt_end d = x @ dt_end d @ v" "k < length x + length (dt_end d)"
      using op(1) assms(1-4) by auto
    from arg_cong [OF x(1), of length] x(2) k show False by simp
  qed
  moreover from this op(2) assms(1-3) have "r1 = None" by blast
  moreover have "fst (guard_run check d1 (stock_events k es)) = None \<and> \<not> dt_closed (snd (guard_run check d1 (stock_events k es)))"
    using guard_run_blind [of d1 u es check] \<open>\<not> dt_closed d1\<close> assms fr k by simp
  ultimately show ?thesis using st by simp
qed

subsection \<open>Witnesses\<close>

definition demo_gtok :: guard_tokenizer where
  "demo_gtok = \<lparr>gt_convert = Some (\<lambda>_. Inr (Some 9)), gt_encode = None\<rparr>"

definition demo_detok :: "int \<Rightarrow> detok" where
  "demo_detok n = maybe_enable_guard (\<lambda>_. None) (Some (''<t>'', ''</t>'')) demo_gtok (Some [4, 9]) (detok_init [''Q:''] n)"

definition demo_check :: "string \<Rightarrow> nat \<Rightarrow> nat option" where
  "demo_check s off = py_find_from ''Q:'' s off"

lemma demo_detok_ok: "dt_guard (demo_detok n)" "\<not> dt_closed (demo_detok n)" "dt_end (demo_detok n) = ''</t>''" "dt_text (demo_detok n) = []"
  by (simp_all add: demo_detok_def maybe_enable_guard_def suppress_stops_enabled_def reasoning_stop_markers_def
      think_id_def demo_gtok_def detok_init_def)

lemma demo_detok_run:
  "guard_run demo_check (demo_detok 0) [(''Q: x</'', 3, 0), (''t>Q:'', 2, 6)] = (Some (8, 8), (demo_detok 0)\<lparr>dt_text := ''Q: x</t>Q:'', dt_num_tokens := 5, dt_closed := True\<rparr>)"
  by (simp add: demo_detok_def maybe_enable_guard_def suppress_stops_enabled_def reasoning_stop_markers_def think_id_def
      demo_gtok_def detok_init_def grow_def stop_step_def demo_check_def py_find_from_def)

theorem reasoning_stops_dormant_witness: "marker_by ''</t>'' ''Q: x</t>Q:'' 8"
  using reasoning_stops_dormant [OF demo_detok_def demo_detok_ok(1) _ demo_detok_run]
  by (simp add: reasoning_stop_markers_def)

theorem guard_tracks_marker_witness: "py_in ''</t>'' ''Q: x</t>Q:''"
proof -
  have ev: "stock_events 0 [(''Q: x</'', 3), (''t>Q:'', 2)] = [(''Q: x</'', 3, 0), (''t>Q:'', 2, 6)]" by simp
  have "dt_end (demo_detok 0) \<noteq> []" by (simp add: demo_detok_ok)
  from guard_tracks_marker [OF demo_detok_ok(1,2) this demo_detok_ok(4) demo_detok_run [folded ev]]
  show ?thesis by (simp add: demo_detok_ok)
qed

theorem minimum_length_hides_marker_witness:
  "fst (guard_run demo_check (demo_detok 3) ((''x</t>'', 2, 5) # stock_events 5 [(''Q:'', 2)])) = None"
  using minimum_length_hides_marker [OF demo_detok_ok(1,2), of 3 "''x</t>''" "''x''" "[(''Q:'', 2)]" 5 demo_check 2]
  by (simp add: demo_detok_ok py_in_def)

end
