(* ===== verification/Draft_Page.thy ===== *)
theory Draft_Page
  imports Hybrid_Cache
begin

text \<open>
  The compact page of the drafter group, \<^verbatim>\<open>overlay/patch_draft_compact_page.py\<close>: the choice of the manager
  block, once as the module's reference function and once as the text that the installer writes into
  \<^verbatim>\<open>kv_cache_utils.py\<close>, the validation of the padded slot share, and the drop of the last EAGLE block.
  The block size that the attention backend would really run is an argument.
\<close>

subsection \<open>The reference choice\<close>

definition FLOOR :: int where "FLOOR = 64"

text \<open>The loop \<open>for k in range(steps, 1, -1)\<close>.\<close>

fun choose_loop :: "int \<Rightarrow> int \<Rightarrow> int \<Rightarrow> (int \<Rightarrow> bool) \<Rightarrow> nat \<Rightarrow> int" where
  "choose_loop steps mla_page draft_bytes accepts (Suc (Suc k)) =
     (let c = int (Suc (Suc k)); block = FLOOR * c
      in if steps mod c \<noteq> 0 then choose_loop steps mla_page draft_bytes accepts (Suc k)
         else if mla_page < block * draft_bytes then choose_loop steps mla_page draft_bytes accepts (Suc k)
         else if accepts block then block
         else choose_loop steps mla_page draft_bytes accepts (Suc k))"
| "choose_loop steps mla_page draft_bytes accepts k = FLOOR"

definition target_layer :: "string \<Rightarrow> bool" where
  "target_layer name \<longleftrightarrow> sublist ''language_model'' name"

definition choose_draft_block :: "int \<Rightarrow> int \<Rightarrow> int \<Rightarrow> (int \<Rightarrow> bool) \<Rightarrow> string list \<Rightarrow> int" where
  "choose_draft_block mla_block mla_page draft_bytes accepts names =
     (if names = [] \<or> list_ex target_layer names \<or> mla_block < FLOOR \<or> mla_block mod FLOOR \<noteq> 0 \<or> mla_page \<le> 0 \<or> draft_bytes \<le> 0
      then FLOOR
      else choose_loop (mla_block div FLOOR) mla_page draft_bytes accepts (nat (mla_block div FLOOR)))"

subsection \<open>The installed choice\<close>

datatype page_reason =
    Floor
  | NonDrafter
  | WouldSplit int int
  | CheckFailed py_exc
  | Unsplit

text \<open>\<open>run_as b\<close> is the block size that the backend selects for a page of \<open>b\<close> tokens, or the exception of the
  check. A reason that is already known is kept.\<close>

fun page_loop :: "int \<Rightarrow> int \<Rightarrow> int \<Rightarrow> (int \<Rightarrow> int res) \<Rightarrow> page_reason \<Rightarrow> nat \<Rightarrow> int \<times> page_reason" where
  "page_loop steps mla_page draft_bytes run_as reason (Suc (Suc k)) =
     (let c = int (Suc (Suc k)); cand = 64 * c
      in if steps mod c \<noteq> 0 then page_loop steps mla_page draft_bytes run_as reason (Suc k)
         else if mla_page < cand * draft_bytes then page_loop steps mla_page draft_bytes run_as reason (Suc k)
         else case run_as cand of
           Inl e \<Rightarrow> page_loop steps mla_page draft_bytes run_as (CheckFailed e) (Suc k)
         | Inr b \<Rightarrow>
             if b = cand then (cand, Unsplit)
             else page_loop steps mla_page draft_bytes run_as (if reason = Floor then WouldSplit cand b else reason) (Suc k))"
| "page_loop steps mla_page draft_bytes run_as reason k = (64, reason)"

definition compact_block :: "string list \<Rightarrow> int \<Rightarrow> int \<Rightarrow> int \<Rightarrow> (int \<Rightarrow> int res) \<Rightarrow> int \<times> page_reason" where
  "compact_block names mla_block mla_page draft_bytes_per_token run_as =
     (if list_ex target_layer names then (64, NonDrafter)
      else if names \<noteq> [] \<and> mla_block mod 64 = 0 \<and> 0 < draft_bytes_per_token
      then page_loop (mla_block div 64) mla_page draft_bytes_per_token run_as Floor (nat (mla_block div 64))
      else (64, Floor))"

subsection \<open>The validation of the padded slot share\<close>

record draft_spec =
  ds_block_size :: int
  ds_page_padded :: int
  ds_unpadded_bytes :: int

definition padded_valid_old :: "int \<Rightarrow> draft_spec list \<Rightarrow> bool" where
  "padded_valid_old mla_page draft_inner \<longleftrightarrow>
     \<not> list_ex (\<lambda>s. ds_block_size s \<noteq> 64 \<or> ds_page_padded s \<noteq> mla_page) draft_inner"

text \<open>The block of the attention group, \<open>0\<close> when there is none.\<close>

definition padded_valid :: "int \<Rightarrow> int option \<Rightarrow> draft_spec list \<Rightarrow> bool" where
  "padded_valid mla_page attn_block draft_inner \<longleftrightarrow>
     \<not> list_ex (\<lambda>s. ds_page_padded s \<noteq> mla_page \<or> ds_block_size s mod 64 \<noteq> 0 \<or> ds_block_size s \<le> 0
         \<or> mla_page < ds_unpadded_bytes s) draft_inner
     \<and> \<not> list_ex (\<lambda>s. (case attn_block of None \<Rightarrow> 0 | Some b \<Rightarrow> b) mod ds_block_size s \<noteq> 0) draft_inner"

definition drop_eagle_block :: "bool \<Rightarrow> nat \<Rightarrow> nat set \<Rightarrow> kv_spec \<Rightarrow> int \<Rightarrow> bool" where
  "drop_eagle_block use_eagle idx verified spec manager_block =
     (if is_draft_swa_spec spec \<and> 64 < manager_block then False else use_eagle \<and> idx \<notin> verified)"

subsection \<open>The two choices agree\<close>

lemma loops_agree:
  "fst (page_loop steps mla_page db run_as reason k) = choose_loop steps mla_page db (\<lambda>b. run_as b = Inr b) k"
  by (induction steps mla_page db run_as reason k rule: page_loop.induct)
    (auto simp: FLOOR_def Let_def split: sum.splits)

lemma page_too_small:
  "mla_page \<le> 0 \<Longrightarrow> 0 < db \<Longrightarrow> choose_loop steps mla_page db accepts k = FLOOR"
proof (induction steps mla_page db accepts k rule: choose_loop.induct)
  case (1 steps mla_page db accepts k)
  have "0 < FLOOR * int (Suc (Suc k)) * db" using "1.prems" by (simp add: FLOOR_def)
  then have "mla_page < FLOOR * int (Suc (Suc k)) * db" using "1.prems" by linarith
  with 1 show ?case by (simp add: Let_def)
qed simp_all

lemma page_loop_reason:
  "reason \<noteq> Unsplit \<Longrightarrow> snd (page_loop steps mla_page db run_as reason k) = Unsplit \<longleftrightarrow> 64 < fst (page_loop steps mla_page db run_as reason k)"
  by (induction steps mla_page db run_as reason k rule: page_loop.induct) (auto simp: Let_def split: sum.splits)

text \<open>One choice. For every configuration, also a malformed one, the text that is installed chooses the block
  that the reference function chooses with a backend that accepts a page exactly if it would run it unsplit;
  and the reason it logs is \<open>unsplit\<close> exactly if the block is above the floor.\<close>

theorem compact_block_is_reference:
  "fst (compact_block names mla_block mla_page db run_as)
     = choose_draft_block mla_block mla_page db (\<lambda>b. run_as b = Inr b) names
   \<and> (snd (compact_block names mla_block mla_page db run_as) = Unsplit
      \<longleftrightarrow> 64 < fst (compact_block names mla_block mla_page db run_as))"
proof
  have "choose_loop steps mla_page db accepts (nat steps) = FLOOR" if "steps < 1" for steps accepts
    using that by simp
  moreover have "mla_block div 64 < 1" if "mla_block < 64" using that by simp
  ultimately show "fst (compact_block names mla_block mla_page db run_as)
     = choose_draft_block mla_block mla_page db (\<lambda>b. run_as b = Inr b) names"
    using page_too_small [of mla_page db]
    by (auto simp: compact_block_def choose_draft_block_def loops_agree FLOOR_def)
  show "snd (compact_block names mla_block mla_page db run_as) = Unsplit
      \<longleftrightarrow> 64 < fst (compact_block names mla_block mla_page db run_as)"
    by (simp add: compact_block_def page_loop_reason)
qed

subsection \<open>The largest safe page\<close>

text \<open>A page above the floor that satisfies every condition of the documentation.\<close>

definition safe_page :: "int \<Rightarrow> int \<Rightarrow> int \<Rightarrow> (int \<Rightarrow> bool) \<Rightarrow> int \<Rightarrow> bool" where
  "safe_page mla_block mla_page db accepts b \<longleftrightarrow>
     FLOOR < b \<and> FLOOR dvd b \<and> b dvd mla_block \<and> b * db \<le> mla_page \<and> accepts b"

lemma safe_page_steps:
  assumes "mla_block mod FLOOR = 0"
  shows "safe_page mla_block mla_page db accepts (FLOOR * c)
     \<longleftrightarrow> 1 < c \<and> (mla_block div FLOOR) mod c = 0 \<and> FLOOR * c * db \<le> mla_page \<and> accepts (FLOOR * c)"
proof -
  have "mla_block = FLOOR * (mla_block div FLOOR)" using assms by auto
  then have "FLOOR * c dvd mla_block \<longleftrightarrow> c dvd mla_block div FLOOR"
    by (metis FLOOR_def dvd_mult_cancel_left zero_neq_numeral)
  then show ?thesis by (auto simp: safe_page_def FLOOR_def dvd_eq_mod_eq_0)
qed

lemma choose_loop_spec:
  assumes "mla_block mod FLOOR = 0"
    and "b = choose_loop (mla_block div FLOOR) mla_page db accepts k"
  shows "(b = FLOOR \<or> safe_page mla_block mla_page db accepts b)
     \<and> (\<forall>c. c \<le> int k \<longrightarrow> safe_page mla_block mla_page db accepts (FLOOR * c) \<longrightarrow> FLOOR * c \<le> b)"
  unfolding assms(2)
proof (induction k)
  case 0
  then show ?case by (auto simp: safe_page_def FLOOR_def)
next
  case (Suc j)
  show ?case
  proof (cases j)
    case 0
    then show ?thesis by (auto simp: safe_page_def FLOOR_def)
  next
    case (Suc i)
    define c where "c = int (Suc (Suc i))"
    let ?S = "safe_page mla_block mla_page db accepts"
    have step: "choose_loop (mla_block div FLOOR) mla_page db accepts (Suc j)
        = (if ?S (FLOOR * c) then FLOOR * c else choose_loop (mla_block div FLOOR) mla_page db accepts j)"
      using safe_page_steps [OF assms(1), of mla_page db accepts c] by (auto simp: Suc c_def Let_def)
    have le: "d \<le> int (Suc j) \<longleftrightarrow> d = c \<or> d \<le> int j" for d by (auto simp: Suc c_def)
    have mono: "FLOOR * d \<le> FLOOR * c" if "d \<le> int j" for d using that by (simp add: Suc c_def FLOOR_def)
    from Suc.IH show ?thesis unfolding step le using mono by auto
  qed
qed

text \<open>The compact page is the largest safe one. With a usable configuration the chosen block is the floor, or
  a multiple of it that divides the MLA block, fits into the MLA page and is run whole by the backend; no
  block with these properties is larger; a drafter group laid out with it passes the validation of the
  padded slot share as long as the floor itself fits; and above the floor the group keeps its last block.\<close>

theorem compact_page_largest:
  assumes "names \<noteq> []" and "\<not> list_ex target_layer names" and "FLOOR \<le> mla_block" and "mla_block mod FLOOR = 0"
    and "0 < mla_page" and "0 < db" and b_def: "b = choose_draft_block mla_block mla_page db accepts names"
  shows "(b = FLOOR \<or> safe_page mla_block mla_page db accepts b)
    \<and> (\<forall>x. safe_page mla_block mla_page db accepts x \<longrightarrow> x \<le> b)
    \<and> (FLOOR * db \<le> mla_page \<longrightarrow>
         padded_valid mla_page (Some mla_block) (map (\<lambda>_. \<lparr>ds_block_size = b, ds_page_padded = mla_page, ds_unpadded_bytes = b * db\<rparr>) names))
    \<and> (FLOOR < b \<longrightarrow> is_draft_swa_spec spec \<longrightarrow> \<not> drop_eagle_block use_eagle idx verified spec b)"
proof -
  have b: "b = choose_loop (mla_block div FLOOR) mla_page db accepts (nat (mla_block div FLOOR))"
    using assms by (simp add: choose_draft_block_def)
  note spec = choose_loop_spec [OF assms(4) b]
  have "x \<le> b" if x: "safe_page mla_block mla_page db accepts x" for x
  proof -
    from x obtain c where c: "x = FLOOR * c" by (auto simp: safe_page_def dvd_def)
    have "x \<le> mla_block" using x assms(3) by (intro zdvd_imp_le) (auto simp: safe_page_def FLOOR_def)
    then have "c \<le> mla_block div FLOOR" using c unfolding FLOOR_def by simp
    then have "c \<le> int (nat (mla_block div FLOOR))" by linarith
    then show ?thesis using spec x c by blast
  qed
  moreover have "padded_valid mla_page (Some mla_block) (map (\<lambda>_. \<lparr>ds_block_size = b, ds_page_padded = mla_page, ds_unpadded_bytes = b * db\<rparr>) names)"
    if "FLOOR * db \<le> mla_page"
  proof -
    have "64 dvd b \<and> 0 < b \<and> b * db \<le> mla_page \<and> b dvd mla_block"
      using spec that assms(4) by (auto simp: safe_page_def FLOOR_def)
    then show ?thesis by (auto simp: padded_valid_def list_ex_iff)
  qed
  ultimately show ?thesis using spec by (auto simp: drop_eagle_block_def FLOOR_def)
qed

definition demo_runs :: "int \<Rightarrow> int res" where
  "demo_runs b = (if b = 3584 then Inl RuntimeError else if b mod 256 = 0 then Inr b else Inr 64)"

theorem compact_page_largest_witness:
  "choose_draft_block 3584 1000000 1024 (\<lambda>b. demo_runs b = Inr b) [''model.layers.0''] = 512
   \<and> padded_valid 1000000 (Some 3584) [\<lparr>ds_block_size = 512, ds_page_padded = 1000000, ds_unpadded_bytes = 512 * 1024\<rparr>]"
proof -
  have c: "choose_draft_block 3584 1000000 1024 (\<lambda>b. demo_runs b = Inr b) [''model.layers.0''] = 512" by code_simp
  have "\<not> list_ex target_layer [''model.layers.0'']" by code_simp
  from compact_page_largest [OF _ this, of 3584 1000000 1024 512 "\<lambda>b. demo_runs b = Inr b"] c show ?thesis
    by (simp add: FLOOR_def)
qed

end
