(* ===== verification/Kv_Capacity.thy ===== *)
theory Kv_Capacity
  imports Hybrid_Cache
begin

text \<open>
  The boot report on the KV capacity of the hybrid model, \<^verbatim>\<open>overlay/patch_kv_capacity_log.py\<close>: the row of each
  cache group, the EAGLE groups (a second copy of the coordinator's rule), the block ids one aligned
  cached segment costs, and the capacity derived from them or withheld. The specs are vLLM objects
  and appear as the attributes that the helpers read; the wording of the log lines is left out.
\<close>

subsection \<open>Groups and rows\<close>

text \<open>\<open>cs_kinds\<close> are the class names along the method resolution order; a flag of a spec is \<open>None\<close> where it is
  missing or not a Boolean.\<close>

record cap_spec =
  cs_kinds :: "string list"
  cs_block_size :: int
  cs_page_bytes :: int
  cs_max_bytes :: int
  cs_participates :: "bool option"
  cs_cacheable :: "bool option"
  cs_window :: "int option"
  cs_mamba_mode :: "string option"

record cap_group =
  cg_spec :: cap_spec
  cg_members :: "cap_spec list"
  cg_layers :: nat
  cg_eagle :: bool

record cap_row =
  cr_index :: nat
  cr_spec :: string
  cr_layers :: nat
  cr_block_size :: int
  cr_page_bytes :: int
  cr_blocks_per_request :: int
  cr_cacheable :: bool
  cr_eagle :: bool
  cr_window :: "int option"
  cr_mamba_mode :: "string option"

definition kv_capacity_log_enabled :: "environ \<Rightarrow> bool res" where
  "kv_capacity_log_enabled env =
     (case env ''GLM53_KV_CAPACITY_LOG'' of
        None \<Rightarrow> Inr True
      | Some raw \<Rightarrow> if raw = ''1'' then Inr True else if raw = ''0'' then Inr False else Inl ValueError)"

definition inner_spec :: "cap_group \<Rightarrow> cap_spec" where
  "inner_spec g = (case cg_members g of [] \<Rightarrow> cg_spec g | s # ss \<Rightarrow> s)"

definition class_name :: "cap_spec \<Rightarrow> string" where
  "class_name s = (case cs_kinds s of [] \<Rightarrow> [] | k # ks \<Rightarrow> k)"

definition spec_prefix_cacheable :: "cap_spec \<Rightarrow> bool" where
  "spec_prefix_cacheable s =
     (case cs_participates s of Some b \<Rightarrow> b | None \<Rightarrow> (case cs_cacheable s of Some b \<Rightarrow> b | None \<Rightarrow> True))"

definition eagle_group_ids :: "bool \<Rightarrow> cap_group list \<Rightarrow> nat set" where
  "eagle_group_ids use_eagle groups =
     (let ids = set (filter (\<lambda>i. cg_eagle (groups ! i)) [0..<length groups]);
          swa = set (filter (\<lambda>i. class_name (inner_spec (groups ! i)) = ''SlidingWindowSpec'') [0..<length groups])
      in if ids \<noteq> {} then ids
         else if \<not> use_eagle then {}
         else if swa \<noteq> {} then swa else {0..<length groups})"

definition mamba_cache_mode_of :: "cap_group \<Rightarrow> string option" where
  "mamba_cache_mode_of g =
     (let specs = (if cg_members g \<noteq> [] then cg_members g else [cg_spec g])
      in case remdups (map cs_mamba_mode specs) of [m] \<Rightarrow> m | _ \<Rightarrow> Some ''mixed'')"

definition cdiv :: "int \<Rightarrow> int \<Rightarrow> int" where
  "cdiv a b = - ((- a) div b)"

definition cap_row_of :: "nat set \<Rightarrow> nat \<Rightarrow> cap_group \<Rightarrow> cap_row res" where
  "cap_row_of eagle index g =
     (let spec = cg_spec g; inner = inner_spec g
      in if cs_page_bytes spec = 0 then Inl ZeroDivisionError
         else Inr \<lparr>cr_index = index, cr_spec = class_name inner, cr_layers = cg_layers g, cr_block_size = cs_block_size spec,
           cr_page_bytes = cs_page_bytes spec, cr_blocks_per_request = cdiv (cs_max_bytes spec) (cs_page_bytes spec),
           cr_cacheable = spec_prefix_cacheable spec, cr_eagle = index \<in> eagle,
           cr_window = (if ''SlidingWindowSpec'' \<in> set (cs_kinds inner) then cs_window inner else None),
           cr_mamba_mode = (if ''MambaSpec'' \<in> set (cs_kinds inner) then mamba_cache_mode_of g else None)\<rparr>)"

fun cap_rows_from :: "nat set \<Rightarrow> nat \<Rightarrow> cap_group list \<Rightarrow> cap_row list res" where
  "cap_rows_from eagle i [] = Inr []"
| "cap_rows_from eagle i (g # gs) =
     res_bind (cap_row_of eagle i g) (\<lambda>r. res_bind (cap_rows_from eagle (Suc i) gs) (\<lambda>rs. Inr (r # rs)))"

definition kv_capacity_rows :: "bool \<Rightarrow> cap_group list \<Rightarrow> cap_row list res" where
  "kv_capacity_rows use_eagle groups = cap_rows_from (eagle_group_ids use_eagle groups) 0 groups"

subsection \<open>The cost of a segment\<close>

text \<open>\<open>None\<close>: not modelled, so that no figure is derived.\<close>

definition ids_per_segment :: "cap_row \<Rightarrow> int \<Rightarrow> int option" where
  "ids_per_segment row alignment =
     (if \<not> cr_cacheable row then Some 0
      else if cr_block_size row \<le> 0 \<or> alignment mod cr_block_size row \<noteq> 0 then None
      else let per_segment = alignment div cr_block_size row; kind = cr_spec row
           in if kind = ''MambaSpec''
              then if cr_mamba_mode row \<in> {Some ''align'', Some ''all''} then Some per_segment else None
              else if kind \<in> {''SlidingWindowSpec'', ''SlidingWindowMLASpec''}
              then case cr_window row of
                     None \<Rightarrow> None
                   | Some window \<Rightarrow>
                       if window = 0 then None
                       else Some (min (cdiv (window - 1) (cr_block_size row) + (if cr_eagle row then 1 else 0)) per_segment)
              else if kind \<in> {''FullAttentionSpec'', ''MLAAttentionSpec''} then Some per_segment
              else None)"

record cap_summary =
  sm_num_blocks :: int
  sm_usable :: int
  sm_blocks_per_request :: int
  sm_alignment :: int
  sm_per_group :: "int option list"
  sm_unmodelled :: "nat list"
  sm_withheld :: bool
  sm_total :: int
  sm_segments :: "int option"
  sm_capacity :: "int option"

definition segment_alignment :: "cap_row list \<Rightarrow> int" where
  "segment_alignment rows = foldl (\<lambda>a r. lcm a (max (cr_block_size r) 1)) 1 rows"

definition kv_capacity_summary :: "cap_row list \<Rightarrow> int \<Rightarrow> int \<times> int \<Rightarrow> cap_summary" where
  "kv_capacity_summary rows num_blocks cp =
     (let usable = max (num_blocks - 1) 0;
          alignment = segment_alignment rows;
          per_group = map (\<lambda>r. ids_per_segment r alignment) rows;
          unmodelled = map (\<lambda>(r, v). cr_index r) (filter (\<lambda>(r, v). v = None) (zip rows per_group));
          withheld = (1 < fst cp \<or> 1 < snd cp);
          total_ids = sum_list (map (\<lambda>v. case v of None \<Rightarrow> 0 | Some n \<Rightarrow> n) per_group);
          derive = (rows \<noteq> [] \<and> unmodelled = [] \<and> \<not> withheld \<and> 0 < total_ids)
      in \<lparr>sm_num_blocks = num_blocks, sm_usable = usable,
          sm_blocks_per_request = sum_list (map cr_blocks_per_request rows), sm_alignment = alignment,
          sm_per_group = per_group, sm_unmodelled = unmodelled, sm_withheld = withheld, sm_total = total_ids,
          sm_segments = (if derive then Some (usable div total_ids) else None),
          sm_capacity = (if derive then Some (usable div total_ids * alignment) else None)\<rparr>)"

text \<open>What the last line of the report says.\<close>

datatype cap_verdict = NotModelled "nat list" | Withheld | NoCost | Capacity int int

definition capacity_verdict :: "cap_summary \<Rightarrow> cap_verdict" where
  "capacity_verdict s =
     (case (sm_capacity s, sm_segments s) of
        (Some cap, Some seg) \<Rightarrow> Capacity cap seg
      | _ \<Rightarrow> if sm_unmodelled s \<noteq> [] then NotModelled (sm_unmodelled s) else if sm_withheld s then Withheld else NoCost)"

text \<open>The call at boot: the knob is read outside the \<open>try\<close>, every later exception becomes a warning.\<close>

datatype boot_report = Disabled | Warned py_exc | Reported "cap_row list" cap_summary cap_verdict

definition log_kv_capacity :: "environ \<Rightarrow> bool \<Rightarrow> cap_group list \<Rightarrow> int \<Rightarrow> int \<times> int \<Rightarrow> boot_report res" where
  "log_kv_capacity env use_eagle groups num_blocks cp =
     res_bind (kv_capacity_log_enabled env) (\<lambda>on.
       if \<not> on then Inr Disabled
       else Inr (case kv_capacity_rows use_eagle groups of
                   Inl e \<Rightarrow> Warned e
                 | Inr rows \<Rightarrow> let s = kv_capacity_summary rows num_blocks cp in Reported rows s (capacity_verdict s)))"


subsection \<open>The EAGLE groups are the coordinator's\<close>

text \<open>A group as the coordinator sees it.\<close>

definition to_kv :: "cap_group \<Rightarrow> kv_spec" where
  "to_kv g =
     (let kv = (\<lambda>s. KvSpec (class_name s) (cs_window s) (Some (cs_block_size s)))
      in if cg_members g = [] then kv (cg_spec g) else KvUniform (map kv (cg_members g)))"

lemma is_draft_to_kv: "is_draft_swa_spec (to_kv g) \<longleftrightarrow> class_name (inner_spec g) = ''SlidingWindowSpec''"
  by (cases "cg_members g") (simp_all add: to_kv_def inner_spec_def is_draft_swa_spec_def)

text \<open>The report flags the groups that the coordinator flags. The helper that decides which groups pay for
  the EAGLE block is written a second time for the report; on every list of groups it returns the set that
  the patched coordinator computes from the annotated groups.\<close>

theorem report_mirrors_coordinator:
  "eagle_group_ids use_eagle groups
     = eagle_groups use_eagle (set (filter (\<lambda>i. cg_eagle (groups ! i)) [0..<length groups])) (map to_kv groups)"
proof -
  have "swa_ids (map to_kv groups) = set (filter (\<lambda>i. class_name (inner_spec (groups ! i)) = ''SlidingWindowSpec'') [0..<length groups])"
    by (auto simp: swa_ids_def is_draft_to_kv)
  then show ?thesis unfolding eagle_group_ids_def eagle_groups_def Let_def length_map by (simp only: split: if_split) blast
qed

subsection \<open>The figure\<close>

lemma foldl_lcm_dvd: "a dvd foldl (\<lambda>a r. lcm a (f r)) a rows" for a :: int
proof (induction rows arbitrary: a)
  case (Cons r rows)
  from Cons.IH [of "lcm a (f r)"] show ?case by (auto intro: dvd_trans [OF dvd_lcm1])
qed simp

lemma foldl_lcm_member: "r \<in> set rows \<Longrightarrow> f r dvd foldl (\<lambda>a r. lcm a (f r)) a rows" for a :: int
proof (induction rows arbitrary: a)
  case (Cons x rows)
  then show ?case
    using foldl_lcm_dvd [of "lcm a (f x)" f rows] by (auto intro: dvd_trans [OF dvd_lcm2])
qed simp

lemma foldl_lcm_pos: "0 < a \<Longrightarrow> (\<And>r. 0 < f r) \<Longrightarrow> 0 < foldl (\<lambda>a r. lcm a (f r)) a rows" for a :: int
proof (induction rows arbitrary: a)
  case (Cons r rows)
  have "0 < lcm a (f r)" using Cons.prems(1) Cons.prems(2) [of r] by (simp add: lcm_pos_int)
  from Cons.IH [OF this Cons.prems(2)] show ?case by simp
qed simp

lemma alignment_facts:
  "0 < segment_alignment rows" "r \<in> set rows \<Longrightarrow> 0 < cr_block_size r \<Longrightarrow> cr_block_size r dvd segment_alignment rows"
  using foldl_lcm_pos [of 1 "\<lambda>r. max (cr_block_size r) 1" rows] foldl_lcm_member [of r rows "\<lambda>r. max (cr_block_size r) 1" 1]
  by (simp_all add: segment_alignment_def)

lemma ids_bounds:
  assumes "ids_per_segment r a = Some v" and "0 < a" and "\<And>w. cr_window r = Some w \<Longrightarrow> 0 < w"
  shows "0 \<le> v" and "cr_cacheable r \<Longrightarrow> 0 < cr_block_size r \<and> v \<le> a div cr_block_size r"
proof -
  have d: "0 \<le> a div b" if "0 < b" for b using assms(2) that by (simp add: pos_imp_zdiv_nonneg_iff)
  have c: "0 \<le> cdiv (w - 1) b" if "0 < w" "0 < b" for w b
    using that by (simp add: cdiv_def div_nonpos_pos_le0)
  show "cr_cacheable r \<Longrightarrow> 0 < cr_block_size r \<and> v \<le> a div cr_block_size r"
    using assms(1) by (auto simp: ids_per_segment_def Let_def split: if_splits option.splits)
  show "0 \<le> v"
  proof (cases "cr_cacheable r \<and> 0 < cr_block_size r")
    case True
    with assms(1,3) d [of "cr_block_size r"] c [of _ "cr_block_size r"] show ?thesis
      by (auto simp: ids_per_segment_def Let_def split: if_splits option.splits)
  next
    case False
    with assms(1) show ?thesis by (auto simp: ids_per_segment_def split: if_splits)
  qed
qed

lemma whole_parts: "0 < t \<Longrightarrow> u div t * t \<le> u" "0 < t \<Longrightarrow> u < (u div t + 1) * t" for t u :: int
  using pos_mod_bound [of t u] pos_mod_sign [of t u] div_mult_mod_eq [of u t] unfolding distrib_right mult_1 by linarith+

lemma unmodelled_Nil: "map (\<lambda>(r, v). cr_index r) (filter (\<lambda>(r, v). v = None) (zip rows (map f rows))) = [] \<longleftrightarrow> (\<forall>r \<in> set rows. f r \<noteq> None)"
  by (induction rows) auto

text \<open>The reported capacity. A figure is derived exactly if there are groups, all of them are modelled, no
  context parallelism rescales them and a segment costs at least one block id. Then it is the number of
  whole segments that the usable ids pay for (one more segment would not fit), times an alignment that is a
  multiple of every group's block; and with positive windows every group pays between nothing and one id per
  block of the segment.\<close>

theorem capacity_is_whole_segments:
  assumes "s = kv_capacity_summary rows num_blocks cp"
    and "list_all (\<lambda>r. case cr_window r of None \<Rightarrow> True | Some w \<Rightarrow> 0 < w) rows"
  shows "(sm_capacity s \<noteq> None \<longleftrightarrow> rows \<noteq> [] \<and> (\<forall>r \<in> set rows. ids_per_segment r (sm_alignment s) \<noteq> None)
        \<and> fst cp \<le> 1 \<and> snd cp \<le> 1 \<and> 0 < sm_total s)
    \<and> (\<forall>cap. sm_capacity s = Some cap \<longrightarrow>
        (\<exists>seg. sm_segments s = Some seg \<and> cap = seg * sm_alignment s
           \<and> seg * sm_total s \<le> sm_usable s \<and> sm_usable s < (seg + 1) * sm_total s)
      \<and> (\<forall>r \<in> set rows. (0 < cr_block_size r \<longrightarrow> cr_block_size r dvd sm_alignment s)
           \<and> (\<exists>v. ids_per_segment r (sm_alignment s) = Some v \<and> 0 \<le> v
                \<and> (cr_cacheable r \<longrightarrow> v \<le> sm_alignment s div cr_block_size r))))"
proof -
  let ?u = "max (num_blocks - 1) 0"
  have al: "sm_alignment s = segment_alignment rows" and us: "sm_usable s = ?u"
    by (simp_all add: assms(1) kv_capacity_summary_def Let_def)
  have iff: "sm_capacity s \<noteq> None \<longleftrightarrow> rows \<noteq> [] \<and> (\<forall>r \<in> set rows. ids_per_segment r (sm_alignment s) \<noteq> None)
        \<and> fst cp \<le> 1 \<and> snd cp \<le> 1 \<and> 0 < sm_total s"
    by (auto simp: al assms(1) kv_capacity_summary_def Let_def unmodelled_Nil [unfolded map_is_Nil_conv])
  have seg: "sm_segments s = Some (?u div sm_total s) \<and> cap = ?u div sm_total s * sm_alignment s"
    if "sm_capacity s = Some cap" for cap
    using that by (auto simp: assms(1) kv_capacity_summary_def Let_def split: if_splits)
  note div = whole_parts [of _ ?u]
  have row: "(0 < cr_block_size r \<longrightarrow> cr_block_size r dvd sm_alignment s)
       \<and> (\<exists>v. ids_per_segment r (sm_alignment s) = Some v \<and> 0 \<le> v \<and> (cr_cacheable r \<longrightarrow> v \<le> sm_alignment s div cr_block_size r))"
    if "sm_capacity s \<noteq> None" and r: "r \<in> set rows" for r
  proof -
    from that iff obtain v where v: "ids_per_segment r (sm_alignment s) = Some v" by blast
    have "0 < w" if "cr_window r = Some w" for w using assms(2) r that by (auto simp: list_all_iff)
    with ids_bounds [OF v [unfolded al] alignment_facts(1)] alignment_facts(2) [OF r] v show ?thesis by (simp add: al)
  qed
  show ?thesis using iff seg div row unfolding us by (metis option.distinct(1))
qed

text \<open>The deployment of the documentation: one MLA group, a scratch group, four Mamba groups and the drafter.\<close>

definition cap_demo_spec :: "string list \<Rightarrow> int \<Rightarrow> cap_spec" where
  "cap_demo_spec kinds b = \<lparr>cs_kinds = kinds, cs_block_size = b, cs_page_bytes = 4096, cs_max_bytes = 8192, cs_participates = None,
     cs_cacheable = None, cs_window = None, cs_mamba_mode = None\<rparr>"

definition cap_demo_group :: "cap_spec \<Rightarrow> cap_group" where
  "cap_demo_group s = \<lparr>cg_spec = s, cg_members = [], cg_layers = 1, cg_eagle = False\<rparr>"

definition cap_demo :: "cap_group list" where
  "cap_demo = map cap_demo_group
     ([cap_demo_spec [''MLAAttentionSpec'', ''FullAttentionSpec''] 3584,
       (cap_demo_spec [''KpoolTailSpec''] 3584)\<lparr>cs_participates := Some False\<rparr>]
      @ replicate 4 ((cap_demo_spec [''MambaSpec''] 3584)\<lparr>cs_mamba_mode := Some ''align''\<rparr>)
      @ [(cap_demo_spec [''SlidingWindowSpec''] 64)\<lparr>cs_window := Some 2048\<rparr>])"

definition cap_demo_rows :: "cap_row list" where
  "cap_demo_rows = (case kv_capacity_rows True cap_demo of Inr rs \<Rightarrow> rs | Inl e \<Rightarrow> [])"

lemma cap_demo_summary:
  "sm_capacity (kv_capacity_summary cap_demo_rows 643 (1, 1)) = Some 57344"
  "sm_total (kv_capacity_summary cap_demo_rows 643 (1, 1)) = 38"
  "sm_usable (kv_capacity_summary cap_demo_rows 643 (1, 1)) = 642"
  "list_all (\<lambda>r. case cr_window r of None \<Rightarrow> True | Some w \<Rightarrow> 0 < w) cap_demo_rows"
  by code_simp+

theorem capacity_is_whole_segments_witness:
  "\<exists>seg. sm_segments (kv_capacity_summary cap_demo_rows 643 (1, 1)) = Some seg \<and> seg * 38 \<le> 642 \<and> 642 < (seg + 1) * 38"
  using capacity_is_whole_segments [OF refl cap_demo_summary(4), of 643 "(1, 1)"] cap_demo_summary(1)
  unfolding cap_demo_summary(2,3) by blast

end
