(* ===== verification/Boot_Installers.thy ===== *)
theory Boot_Installers
  imports Installers No_Store Hybrid_Cache
begin

text \<open>
  Installers that work on several files: hot protection (\<^verbatim>\<open>overlay/patch_cache_hot_protect.py\<close>), the compact drafter
  page (\<^verbatim>\<open>overlay/patch_draft_compact_page.py\<close>), the tail boundary (\<^verbatim>\<open>overlay/patch_apc_tail_boundary.py\<close>), the
  adaptive verification length (\<^verbatim>\<open>overlay/patch_adaptive_k.py\<close>) and the sparse-miss metric
  (\<^verbatim>\<open>overlay/patch_prefix_cache_sparse_miss_metric.py\<close>), two more single-file installers, and what they
  promise, as locales: a refused run leaves the files alone, a successful one can be repeated. Files are at
  their default paths; Python parsing is an argument.
\<close>

subsection \<open>Contracts\<close>

locale fail_safe =
  fixes boot :: "file_system \<Rightarrow> unit res \<times> file_system"
  assumes refuses: "boot fs = (Inl e, fs') \<Longrightarrow> fs' = fs"

locale repeatable =
  fixes boot :: "file_system \<Rightarrow> unit res \<times> file_system"
    and installed :: "file_system \<Rightarrow> bool"
  assumes installs: "boot fs = (Inr (), fs') \<Longrightarrow> installed fs'"
    and noop: "installed fs \<Longrightarrow> boot fs = (Inr (), fs)"
begin

lemma twice: "boot fs = (Inr (), fs') \<Longrightarrow> boot fs' = (Inr (), fs')"
  by (intro noop installs)

end

locale atomic_boot = fail_safe + repeatable
begin

lemma all_or_nothing: "boot fs = (r, fs') \<Longrightarrow> fs' = fs \<or> installed fs'"
  using refuses installs by (cases r) auto

end

text \<open>A single-file installer on its file is atomic.\<close>

sublocale installer \<subseteq> on_file: atomic_boot "run_on_file run path" "\<lambda>fs. \<exists>t. fs path = Some t \<and> complete t" for path
  by unfold_locales
    (auto simp: run_on_file_def fun_upd_idem installs noop split: option.splits sum.splits)


subsection \<open>Edits that do not meet\<close>

text \<open>Two texts agree as far as both go; a text is apart from another if no occurrences of the two can share a
  character.\<close>

fun agrees :: "string \<Rightarrow> string \<Rightarrow> bool" where
  "agrees (c # cs) (d # ds) = (c = d \<and> agrees cs ds)"
| "agrees _ _ = True"

fun none_agree :: "string \<Rightarrow> string \<Rightarrow> bool" where
  "none_agree [] q = True"
| "none_agree (c # cs) q = (\<not> agrees (c # cs) q \<and> none_agree cs q)"

definition apart :: "string \<Rightarrow> string \<Rightarrow> bool" where
  "apart p q \<longleftrightarrow> none_agree p q \<and> none_agree q p"

lemma none_agreeD: "none_agree p q \<Longrightarrow> k < length p \<Longrightarrow> \<not> agrees (drop k p) q"
proof (induction p arbitrary: k)
  case (Cons c cs)
  then show ?case by (cases k) auto
qed simp

lemma agrees_prefixes: "x @ v = y @ w \<Longrightarrow> agrees x y"
  by (induction x y rule: agrees.induct) auto

lemma apart_sym: "apart p q \<longleftrightarrow> apart q p"
  by (auto simp: apart_def)

lemma apart_before:
  assumes "u @ p @ v = x @ q @ y" and "apart p q" and "length u \<le> length x" and "q \<noteq> []"
  shows "length u + length p \<le> length x"
proof (rule ccontr)
  assume "\<not> length u + length p \<le> length x"
  then have k: "length x - length u < length p" using assms(3) by simp
  from assms(1) have "drop (length x) (u @ p @ v) = q @ y" by simp
  then have "drop (length x - length u) p @ v = q @ y" using assms(3) k by (simp add: drop_append)
  then have "agrees (drop (length x - length u) p) q" by (rule agrees_prefixes)
  with k assms(2) show False by (auto simp: apart_def dest: none_agreeD)
qed

lemma replace1_keeps:
  assumes "apart p old" and "py_in p s" and "p \<noteq> []" and "old \<noteq> []"
  shows "py_in p (py_replace1 old new s)"
proof (cases "py_in old s")
  case True
  then obtain x y where s: "s = x @ old @ y" and r: "py_replace1 old new s = x @ new @ y"
    using py_replace1_decomp by metis
  from assms(2) obtain u v where p: "s = u @ p @ v" by (auto simp: py_in_iff)
  show ?thesis
  proof (cases "length u \<le> length x")
    case True
    from apart_before [OF _ assms(1) True assms(4)] s p have "length (u @ p) \<le> length x" by simp
    moreover from s p have "(u @ p) @ v = x @ old @ y" by simp
    ultimately obtain z where "x = (u @ p) @ z" by (metis append_eq_append_conv_if append_eq_conv_conj append_take_drop_id)
    then show ?thesis unfolding r py_in_iff by (metis append.assoc)
  next
    case False
    then have "length x + length old \<le> length u"
      using apart_before [of x old y u p v] assms(1,3) s p apart_sym by auto
    then have le: "length (x @ old) \<le> length u" by simp
    from s p have "(x @ old) @ y = u @ p @ v" by simp
    with le obtain z where "u = (x @ old) @ z" and "y = z @ p @ v" by (auto simp: append_eq_append_conv2)
    then show ?thesis unfolding r py_in_iff by (metis append.assoc)
  qed
next
  case False
  then show ?thesis using assms(2) by (simp add: py_replace1_def py_in_def)
qed

lemma py_in_lns: "l \<in> set ls \<Longrightarrow> py_in p l \<Longrightarrow> py_in p (lns ls)"
proof (induction ls)
  case (Cons a ls)
  have "lns (a # ls) = (a @ [CHR 0x0A]) @ lns ls" by (simp add: lns_def)
  then show ?case
    using Cons py_in_append [where p = p and s = a] py_in_append [where p = p and s = "a @ [CHR 0x0A]"]
    by (metis set_ConsD)
qed simp

subsection \<open>Hot protection\<close>

definition POOL_PY :: string where "POOL_PY = ''v1/core/block_pool.py''"
definition MANAGER_PY :: string where "MANAGER_PY = ''v1/core/kv_cache_manager.py''"
definition UTILS_PY :: string where "UTILS_PY = ''v1/core/kv_cache_utils.py''"
definition COORD_PY :: string where "COORD_PY = ''v1/core/kv_cache_coordinator.py''"
definition SCHED_PY :: string where "SCHED_PY = ''v1/core/sched/scheduler.py''"
definition MGR_PY :: string where "MGR_PY = ''v1/core/single_type_kv_cache_manager.py''"

lemmas path_defs = POOL_PY_def MANAGER_PY_def UTILS_PY_def COORD_PY_def SCHED_PY_def MGR_PY_def

text \<open>The flag is read first; a pool without tail-first eviction is refused before the targets are read.\<close>

definition hot_protect_main :: "environ \<Rightarrow> file_system \<Rightarrow> unit res \<times> file_system" where
  "hot_protect_main env fs =
     (if py_strip (env_get env ''GLM53_CACHE_HOT_PROTECT'' ''0'') \<noteq> ''1'' then (Inr (), fs)
      else if (case fs POOL_PY of None \<Rightarrow> True | Some pool \<Rightarrow> \<not> py_in TE_MARK pool) then (Inl SystemExit, fs)
      else case (fs MANAGER_PY, fs UTILS_PY) of
        (Some manager, Some utils) \<Rightarrow>
          if py_in HP_MARK manager \<and> py_in HP_MARK utils then (Inr (), fs)
          else if py_in HP_MARK manager \<or> py_in HP_MARK utils then (Inl SystemExit, fs)
          else if py_count HP_HIT_OLD manager \<noteq> 1 \<or> py_count HP_RESET_OLD utils \<noteq> 1 then (Inl SystemExit, fs)
          else let new_manager = py_replace1 HP_HIT_OLD HP_HIT_NEW manager;
                   new_utils = py_replace1 HP_RESET_OLD HP_RESET_NEW utils
               in if \<not> py_in HP_MARK new_manager \<or> \<not> py_in HP_MARK new_utils then (Inl SystemExit, fs)
                  else (Inr (), fs(MANAGER_PY \<mapsto> new_manager, UTILS_PY \<mapsto> new_utils))
      | _ \<Rightarrow> (Inl FileNotFoundError, fs))"

definition text_has :: "string \<Rightarrow> string option \<Rightarrow> bool" where
  "text_has p t = (case t of None \<Rightarrow> False | Some s \<Rightarrow> py_in p s)"

definition hot_protect_installed :: "environ \<Rightarrow> file_system \<Rightarrow> bool" where
  "hot_protect_installed env fs \<longleftrightarrow> py_strip (env_get env ''GLM53_CACHE_HOT_PROTECT'' ''0'') \<noteq> ''1''
     \<or> text_has TE_MARK (fs POOL_PY) \<and> text_has HP_MARK (fs MANAGER_PY) \<and> text_has HP_MARK (fs UTILS_PY)"

interpretation hot_protect_inst: atomic_boot "hot_protect_main env" "hot_protect_installed env" for env
proof unfold_locales
  show "fs' = fs" if "hot_protect_main env fs = (Inl e, fs')" for fs e fs'
    using that by (auto simp: hot_protect_main_def Let_def split: if_splits option.splits)
  show "hot_protect_installed env fs'" if "hot_protect_main env fs = (Inr (), fs')" for fs fs'
    using that
    by (auto simp: hot_protect_main_def hot_protect_installed_def text_has_def path_defs Let_def split: if_splits option.splits)
  show "hot_protect_main env fs = (Inr (), fs)" if "hot_protect_installed env fs" for fs
    using that by (auto simp: hot_protect_main_def hot_protect_installed_def text_has_def split: option.splits)
qed

subsection \<open>The compact drafter page\<close>

definition CHOSE :: string where "CHOSE = ''compact page chose block=%d''"
definition UNPADDED :: string where "UNPADDED = ''unpadded_page_size_bytes''"
definition ABOVE_FLOOR :: string where "ABOVE_FLOOR = ''block_size > 64''"

definition kv_done :: "string \<Rightarrow> bool" where
  "kv_done t \<longleftrightarrow> py_in DP_MARK t \<and> py_in CHOSE t \<and> py_in UNPADDED t"

definition coord_done :: "string \<Rightarrow> bool" where
  "coord_done t \<longleftrightarrow> py_in DP_MARK t \<and> py_in ABOVE_FLOOR t"

definition patch_kv :: "(string \<Rightarrow> bool) \<Rightarrow> string \<Rightarrow> string res" where
  "patch_kv parses t =
     (if kv_done t then Inr t
      else res_bind (replace_once t DP_BLOCK_OLD DP_BLOCK_NEW) (\<lambda>t.
           res_bind (replace_once t DP_VALID_OLD DP_VALID_NEW) (\<lambda>t.
             if parses t then Inr t else Inl SyntaxError)))"

definition patch_coord :: "(string \<Rightarrow> bool) \<Rightarrow> string \<Rightarrow> string res" where
  "patch_coord parses t =
     (if coord_done t then Inr t
      else if \<not> py_in ''def _glm53_is_draft_swa_spec('' t then Inl SystemExit
      else res_bind (replace_once t DP_DROP_OLD DP_DROP_NEW) (\<lambda>t. if parses t then Inr t else Inl SyntaxError))"

definition draft_page_main :: "environ \<Rightarrow> (string \<Rightarrow> bool) \<Rightarrow> file_system \<Rightarrow> unit res \<times> file_system" where
  "draft_page_main env parses fs =
     (if env_get env ''GLM53_DRAFT_COMPACT_PAGE'' ''0'' \<noteq> ''1'' then (Inr (), fs)
      else case (fs UTILS_PY, fs COORD_PY) of
        (Some kv, Some coord) \<Rightarrow>
          (case res_bind (patch_kv parses kv) (\<lambda>kv_out. res_bind (patch_coord parses coord) (\<lambda>coord_out. Inr (kv_out, coord_out))) of
             Inl e \<Rightarrow> (Inl e, fs)
           | Inr (kv_out, coord_out) \<Rightarrow>
               let fs = (if kv_out \<noteq> kv then fs(UTILS_PY \<mapsto> kv_out) else fs)
               in (Inr (), if coord_out \<noteq> coord then fs(COORD_PY \<mapsto> coord_out) else fs))
      | _ \<Rightarrow> (Inl SystemExit, fs))"

definition draft_page_installed :: "environ \<Rightarrow> file_system \<Rightarrow> bool" where
  "draft_page_installed env fs \<longleftrightarrow> env_get env ''GLM53_DRAFT_COMPACT_PAGE'' ''0'' \<noteq> ''1''
     \<or> (\<exists>kv coord. fs UTILS_PY = Some kv \<and> fs COORD_PY = Some coord \<and> kv_done kv \<and> coord_done coord)"

lemma page_texts:
  "py_in CHOSE DP_BLOCK_NEW" "py_in DP_MARK DP_VALID_NEW" "py_in UNPADDED DP_VALID_NEW" "py_in DP_MARK DP_DROP_NEW"
  "py_in ABOVE_FLOOR DP_DROP_NEW" "apart CHOSE DP_VALID_OLD"
  subgoal unfolding DP_BLOCK_NEW_def
    by (rule py_in_lns [of "''                \"DFlash2 drafter KV: compact page chose block=%d (%s) \"''"]) (simp, code_simp)
  subgoal unfolding DP_VALID_NEW_def
    by (rule py_in_lns [of "''            # [glm53-draft-page] Padded slot-share may use the compact page.''"]) (simp, code_simp)
  subgoal unfolding DP_VALID_NEW_def
    by (rule py_in_lns [of "''                or s.unpadded_page_size_bytes > mla_page''"]) (simp, code_simp)
  subgoal unfolding DP_DROP_NEW_def
    by (rule py_in_lns [of "''                ):  # [glm53-draft-page]''"]) (simp, code_simp)
  subgoal unfolding DP_DROP_NEW_def
    by (rule py_in_lns [of "''                    and self.single_type_managers[first_group_id].block_size > 64''"]) (simp, code_simp)
  subgoal by code_simp
  done


interpretation draft_page_inst: atomic_boot "draft_page_main env parses" "draft_page_installed env" for env parses
proof unfold_locales
  have kv: "kv_done t'" if "patch_kv parses t = Inr t'" for t t'
  proof (cases "kv_done t")
    case True
    with that show ?thesis by (simp add: patch_kv_def)
  next
    case False
    with that obtain u where u: "replace_once t DP_BLOCK_OLD DP_BLOCK_NEW = Inr u" "replace_once u DP_VALID_OLD DP_VALID_NEW = Inr t'"
      by (auto simp: patch_kv_def res_bind_Inr split: if_splits)
    have ne: "DP_BLOCK_OLD \<noteq> []" "DP_VALID_OLD \<noteq> []" "CHOSE \<noteq> []" by (simp_all add: DP_BLOCK_OLD_def DP_VALID_OLD_def CHOSE_def)
    have "py_in DP_VALID_NEW t'" by (rule replace_once_in [OF u(2) ne(2)])
    moreover have "py_in CHOSE u" by (rule py_in_trans [OF page_texts(1) replace_once_in [OF u(1) ne(1)]])
    then have "py_in CHOSE (py_replace1 DP_VALID_OLD DP_VALID_NEW u)" by (rule replace1_keeps [OF page_texts(6) _ ne(3,2)])
    with u(2) have "py_in CHOSE t'" by (auto simp: replace_once_def split: if_splits)
    ultimately show ?thesis using page_texts(2,3) py_in_trans by (auto simp: kv_done_def)
  qed
  have coord: "coord_done t'" if "patch_coord parses t = Inr t'" for t t'
  proof (cases "coord_done t")
    case True
    with that show ?thesis by (simp add: patch_coord_def)
  next
    case False
    with that have "replace_once t DP_DROP_OLD DP_DROP_NEW = Inr t'" by (auto simp: patch_coord_def res_bind_Inr split: if_splits)
    then have "py_in DP_DROP_NEW t'" by (rule replace_once_in) (simp add: DP_DROP_OLD_def)
    with page_texts(4,5) py_in_trans show ?thesis by (auto simp: coord_done_def)
  qed
  show "fs' = fs" if "draft_page_main env parses fs = (Inl e, fs')" for fs e fs'
    using that by (auto simp: draft_page_main_def Let_def split: if_splits option.splits sum.splits prod.splits)
  show "draft_page_main env parses fs = (Inr (), fs)" if "draft_page_installed env fs" for fs
    using that by (auto simp: draft_page_main_def draft_page_installed_def patch_kv_def patch_coord_def)
  show "draft_page_installed env fs'" if run: "draft_page_main env parses fs = (Inr (), fs')" for fs fs'
  proof (cases "env_get env ''GLM53_DRAFT_COMPACT_PAGE'' ''0'' = ''1''")
    case True
    with run obtain k c k' c' where io: "fs UTILS_PY = Some k" "fs COORD_PY = Some c"
      and p: "patch_kv parses k = Inr k'" "patch_coord parses c = Inr c'"
      and fs': "fs' = (let fs = (if k' \<noteq> k then fs(UTILS_PY \<mapsto> k') else fs) in if c' \<noteq> c then fs(COORD_PY \<mapsto> c') else fs)"
      by (auto simp: draft_page_main_def Let_def res_bind_Inr split: option.splits sum.splits prod.splits)
    from io fs' have "fs' UTILS_PY = Some k'" "fs' COORD_PY = Some c'" by (auto simp: path_defs Let_def)
    with kv [OF p(1)] coord [OF p(2)] show ?thesis by (simp add: draft_page_installed_def)
  qed (simp add: draft_page_installed_def)
qed


subsection \<open>The tail boundary\<close>

definition tb_patch_file :: "(string \<Rightarrow> bool) \<Rightarrow> edits \<Rightarrow> string \<Rightarrow> string res" where
  "tb_patch_file parses edits t =
     (if py_in TB_MARKER t
      then if list_all (\<lambda>(old, new). py_in new t) edits then (if parses t then Inr t else Inl SyntaxError) else Inl AssertionError
      else res_bind (apply_edits edits t) (\<lambda>t. if parses t then Inr t else Inl AssertionError))"

definition TB_SCHED_EDITS :: edits where "TB_SCHED_EDITS = [(TB_SCHED_OLD, TB_SCHED_NEW)]"
definition TB_MGR_EDITS :: edits where "TB_MGR_EDITS = [(TB_FA_OLD, TB_FA_NEW), (TB_MAMBA_OLD, TB_MAMBA_NEW)]"

text \<open>The files are patched one after the other; each is written before the next is looked at.\<close>

definition tail_boundary_main :: "environ \<Rightarrow> (string \<Rightarrow> bool) \<Rightarrow> file_system \<Rightarrow> unit res \<times> file_system" where
  "tail_boundary_main env parses fs =
     (if env_get env ''GLM53_APC_TAIL_FLOOR'' ''0'' \<noteq> ''1'' then (Inr (), fs)
      else case run_on_file (tb_patch_file parses TB_SCHED_EDITS) SCHED_PY fs of
        (Inl e, fs) \<Rightarrow> (Inl e, fs)
      | (Inr _, fs) \<Rightarrow> run_on_file (tb_patch_file parses TB_MGR_EDITS) MGR_PY fs)"

definition tb_done :: "(string \<Rightarrow> bool) \<Rightarrow> edits \<Rightarrow> string \<Rightarrow> bool" where
  "tb_done parses edits t \<longleftrightarrow> py_in TB_MARKER t \<and> list_all (\<lambda>(old, new). py_in new t) edits \<and> parses t"

lemma boundary_texts:
  "py_in TB_MARKER TB_SCHED_NEW" "py_in TB_MARKER TB_MAMBA_NEW" "apart TB_FA_NEW TB_MAMBA_OLD"
  subgoal unfolding TB_SCHED_NEW_def
    by (rule py_in_lns [of "''            # [glm53-apc-tail-floor] Floor from (n - 1): the finder is capped at''"]) (simp, code_simp)
  subgoal unfolding TB_MAMBA_NEW_def
    by (rule py_in_lns [of "''        latest_prompt_hash_boundary = (  # [glm53-apc-tail-floor]''"]) (simp, code_simp)
  subgoal by code_simp
  done


lemma tb_patch_file_installer:
  assumes "\<And>t t'. apply_edits edits t = Inr t' \<Longrightarrow> py_in TB_MARKER t' \<and> list_all (\<lambda>(old, new). py_in new t') edits"
  shows "installer (tb_patch_file parses edits) (tb_done parses edits)"
  using assms by unfold_locales (auto simp: tb_patch_file_def tb_done_def res_bind_Inr split: if_splits)

interpretation tb_sched_inst: installer "tb_patch_file parses TB_SCHED_EDITS" "tb_done parses TB_SCHED_EDITS" for parses
proof (rule tb_patch_file_installer)
  fix t t'
  assume "apply_edits TB_SCHED_EDITS t = Inr t'"
  then have "replace_once t TB_SCHED_OLD TB_SCHED_NEW = Inr t'" by (auto simp: TB_SCHED_EDITS_def res_bind_Inr)
  then have "py_in TB_SCHED_NEW t'" by (rule replace_once_in) (simp add: TB_SCHED_OLD_def)
  then show "py_in TB_MARKER t' \<and> list_all (\<lambda>(old, new). py_in new t') TB_SCHED_EDITS"
    using boundary_texts(1) py_in_trans by (auto simp: TB_SCHED_EDITS_def)
qed

interpretation tb_mgr_inst: installer "tb_patch_file parses TB_MGR_EDITS" "tb_done parses TB_MGR_EDITS" for parses
proof (rule tb_patch_file_installer)
  fix t t'
  assume "apply_edits TB_MGR_EDITS t = Inr t'"
  then obtain u where u: "replace_once t TB_FA_OLD TB_FA_NEW = Inr u" "replace_once u TB_MAMBA_OLD TB_MAMBA_NEW = Inr t'"
    by (auto simp: TB_MGR_EDITS_def res_bind_Inr)
  have ne: "TB_FA_OLD \<noteq> []" "TB_MAMBA_OLD \<noteq> []" "TB_FA_NEW \<noteq> []"
    by (simp_all add: TB_FA_OLD_def TB_MAMBA_OLD_def TB_FA_NEW_def)
  have "py_in TB_FA_NEW (py_replace1 TB_MAMBA_OLD TB_MAMBA_NEW u)"
    by (rule replace1_keeps [OF boundary_texts(3) replace_once_in [OF u(1) ne(1)] ne(3,2)])
  with u(2) have "py_in TB_FA_NEW t'" by (auto simp: replace_once_def split: if_splits)
  moreover have "py_in TB_MAMBA_NEW t'" by (rule replace_once_in [OF u(2) ne(2)])
  ultimately show "py_in TB_MARKER t' \<and> list_all (\<lambda>(old, new). py_in new t') TB_MGR_EDITS"
    using boundary_texts(2) py_in_trans by (auto simp: TB_MGR_EDITS_def)
qed

text \<open>Two installers, one after the other on different files, make a repeatable boot.\<close>

lemma two_files_repeatable:
  assumes "installer f cf" and "installer g cg" and "p \<noteq> q"
    and "\<And>fs. boot fs = (if off then (Inr (), fs) else case run_on_file f p fs of (Inl e, fs) \<Rightarrow> (Inl e, fs) | (Inr _, fs) \<Rightarrow> run_on_file g q fs)"
  shows "repeatable boot (\<lambda>fs. off \<or> (\<exists>a b. fs p = Some a \<and> fs q = Some b \<and> cf a \<and> cg b))"
  using installer.installs [OF assms(1)] installer.installs [OF assms(2)] installer.noop [OF assms(1)] installer.noop [OF assms(2)] assms(3)
  by unfold_locales (auto simp: assms(4) run_on_file_def fun_upd_idem split: if_splits option.splits sum.splits)

lemma two_files_failure:
  assumes "installer f cf"
    and "(case run_on_file f p fs of (Inl e, fs) \<Rightarrow> (Inl e, fs) | (Inr _, fs) \<Rightarrow> run_on_file g q fs) = (Inl e, fs')"
  shows "fs' = fs \<or> (\<exists>a. cf a \<and> fs' = fs(p \<mapsto> a))"
  using assms(2) installer.installs [OF assms(1)]
  by (auto simp: run_on_file_def split: option.splits sum.splits)

definition tail_boundary_installed :: "environ \<Rightarrow> (string \<Rightarrow> bool) \<Rightarrow> file_system \<Rightarrow> bool" where
  "tail_boundary_installed env parses fs \<longleftrightarrow> env_get env ''GLM53_APC_TAIL_FLOOR'' ''0'' \<noteq> ''1''
     \<or> (\<exists>a b. fs SCHED_PY = Some a \<and> fs MGR_PY = Some b \<and> tb_done parses TB_SCHED_EDITS a \<and> tb_done parses TB_MGR_EDITS b)"

interpretation tail_boundary_inst: repeatable "tail_boundary_main env parses" "tail_boundary_installed env parses" for env parses
  unfolding tail_boundary_installed_def
  by (rule two_files_repeatable [OF tb_sched_inst.installer_axioms tb_mgr_inst.installer_axioms])
    (simp_all add: path_defs tail_boundary_main_def)

subsection \<open>The adaptive verification length\<close>

text \<open>The texts of the two helpers and of the edits.\<close>

record ak_texts =
  ax_mark :: string
  ax_draft_hook :: string
  ax_helper :: string
  ax_obs_old :: string
  ax_obs_new :: string
  ax_upd_old :: string
  ax_upd_new :: string
  ax_sched_k_old :: string
  ax_cg_helper :: string
  ax_cg_anchor :: string
  ax_cg_old :: string
  ax_cg_new :: string

definition no_draft_hook :: "ak_texts \<Rightarrow> string \<Rightarrow> bool" where
  "no_draft_hook ts t \<longleftrightarrow> \<not> py_in (ax_draft_hook ts) t \<and> py_count (ax_sched_k_old ts) t = 1"

definition os_before_time :: "string \<Rightarrow> bool" where
  "os_before_time t \<longleftrightarrow> py_in (lns [''import os'']) (py_before (lns [''import time'']) t)"

definition validate_scheduler :: "ak_texts \<Rightarrow> (string \<Rightarrow> bool) \<Rightarrow> string \<Rightarrow> bool" where
  "validate_scheduler ts parses t \<longleftrightarrow> parses t \<and> 4 \<le> py_count (ax_mark ts) t \<and> py_count (ax_helper ts) t = 1
     \<and> py_in ''_GLM53_ADAPTIVE_K.observe('' t \<and> py_in ''_GLM53_ADAPTIVE_K.apply('' t \<and> no_draft_hook ts t \<and> os_before_time t"

definition validate_cudagraph :: "ak_texts \<Rightarrow> (string \<Rightarrow> bool) \<Rightarrow> string \<Rightarrow> bool" where
  "validate_cudagraph ts parses t \<longleftrightarrow> parses t \<and> 2 \<le> py_count (ax_mark ts) t \<and> py_count (ax_cg_helper ts) t = 1
     \<and> py_in ''_glm53_adaptive_k_query_lens(decode_query_lens'' t"

definition patch_scheduler :: "ak_texts \<Rightarrow> (string \<Rightarrow> bool) \<Rightarrow> string \<Rightarrow> string res" where
  "patch_scheduler ts parses t =
     (if py_in (ax_mark ts) t then validated parses (validate_scheduler ts parses t) t
      else if py_in ''def _Glm53AdaptiveK'' t \<or> py_in ''_GLM53_ADAPTIVE_K'' t then Inl SystemExit
      else if \<not> no_draft_hook ts t \<or> py_count (ax_obs_old ts) t \<noteq> 1 \<or> py_count (ax_upd_old ts) t \<noteq> 1 \<or> py_count CUDA_IMPORT t \<noteq> 1
        \<or> \<not> os_before_time t then Inl SystemExit
      else res_bind (replace_once (py_replace1 CUDA_IMPORT (ax_helper ts @ CUDA_IMPORT) t) (ax_obs_old ts) (ax_obs_new ts)) (\<lambda>t.
           res_bind (replace_once t (ax_upd_old ts) (ax_upd_new ts)) (\<lambda>t. validated parses (validate_scheduler ts parses t) t)))"

definition patch_cudagraph_utils :: "ak_texts \<Rightarrow> (string \<Rightarrow> bool) \<Rightarrow> string \<Rightarrow> string res" where
  "patch_cudagraph_utils ts parses t =
     (if py_in (ax_mark ts) t then validated parses (validate_cudagraph ts parses t) t
      else if py_in ''_glm53_adaptive_k_query_lens'' t then Inl SystemExit
      else if py_count (ax_cg_anchor ts) t \<noteq> 1 \<or> py_count (ax_cg_old ts) t \<noteq> 1 then Inl SystemExit
      else res_bind (replace_once (py_replace1 (ax_cg_anchor ts) (ax_cg_helper ts @ ax_cg_anchor ts) t) (ax_cg_old ts) (ax_cg_new ts)) (\<lambda>t.
             validated parses (validate_cudagraph ts parses t) t))"

definition CG_PY :: string where "CG_PY = ''v1/worker/gpu/cudagraph_utils.py''"

definition adaptive_k_main :: "ak_texts \<Rightarrow> (string \<Rightarrow> bool) \<Rightarrow> file_system \<Rightarrow> unit res \<times> file_system" where
  "adaptive_k_main ts parses fs =
     (case run_on_file (patch_scheduler ts parses) SCHED_PY fs of
        (Inl e, fs) \<Rightarrow> (Inl e, fs)
      | (Inr _, fs) \<Rightarrow> run_on_file (patch_cudagraph_utils ts parses) CG_PY fs)"


lemma count_pos_in: "0 < py_count p s \<Longrightarrow> py_in p s"
  by (cases "p = []") (use py_count_0_iff [of p s] in \<open>auto simp: py_in_iff\<close>)

interpretation ak_sched_inst: installer "patch_scheduler ts parses" "validate_scheduler ts parses" for ts parses
  by unfold_locales
    (auto simp: patch_scheduler_def res_bind_Inr validated_def validate_scheduler_def intro: count_pos_in split: if_splits)

interpretation ak_graph_inst: installer "patch_cudagraph_utils ts parses" "validate_cudagraph ts parses" for ts parses
  by unfold_locales
    (auto simp: patch_cudagraph_utils_def res_bind_Inr validated_def validate_cudagraph_def intro: count_pos_in split: if_splits)

definition adaptive_k_installed :: "ak_texts \<Rightarrow> (string \<Rightarrow> bool) \<Rightarrow> file_system \<Rightarrow> bool" where
  "adaptive_k_installed ts parses fs \<longleftrightarrow>
     (\<exists>a b. fs SCHED_PY = Some a \<and> fs CG_PY = Some b \<and> validate_scheduler ts parses a \<and> validate_cudagraph ts parses b)"

lemma adaptive_k_installed_alt:
  "adaptive_k_installed ts parses = (\<lambda>fs. False \<or> (\<exists>a b. fs SCHED_PY = Some a \<and> fs CG_PY = Some b
     \<and> validate_scheduler ts parses a \<and> validate_cudagraph ts parses b))"
  by (simp add: adaptive_k_installed_def fun_eq_iff)

interpretation adaptive_k_inst: repeatable "adaptive_k_main ts parses" "adaptive_k_installed ts parses" for ts parses
  unfolding adaptive_k_installed_alt
  by (rule two_files_repeatable [OF ak_sched_inst.installer_axioms ak_graph_inst.installer_axioms])
    (simp_all add: path_defs CG_PY_def adaptive_k_main_def)

subsection \<open>Per-group retention and cache reset\<close>

definition per_group_main :: "string \<Rightarrow> string \<Rightarrow> string res" where
  "per_group_main retention_helper t =
     (if py_in PG_MARK t then Inr t
      else if py_count RETENTION_NEEDLE t \<noteq> 1 then Inl SystemExit
      else res_bind (if \<not> py_in (lns [[], ''import os'']) t then replace_once t PG_IMPORT_OLD PG_IMPORT_NEW else Inr t) (\<lambda>t.
           let t = (if \<not> py_in ''def _glm53_inner_kv_spec('' t then py_replace1 RETENTION_NEEDLE (PG_BASE_HELPER @ RETENTION_NEEDLE) t else t);
               t = py_replace1 RETENTION_NEEDLE (retention_helper @ RETENTION_NEEDLE) t
           in res_bind (replace_once t PG_INIT_OLD PG_INIT_NEW) (\<lambda>t.
              res_bind (replace_once t PG_BASE_CACHE_OLD PG_BASE_CACHE_NEW) (\<lambda>t.
              res_bind (replace_once t PG_HYBRID_LOOP_OLD PG_HYBRID_LOOP_NEW) (\<lambda>t.
                replace_once t PG_HYBRID_CACHE_OLD PG_HYBRID_CACHE_NEW)))))"

lemma per_group_mark: "py_in PG_MARK PG_HYBRID_CACHE_NEW"
  unfolding PG_HYBRID_CACHE_NEW_def
  by (rule py_in_lns [of "''                # [glm53-apc-per-group] per-group, not the single global value''"]) (simp, code_simp)

interpretation per_group_inst: installer "per_group_main helper" "py_in PG_MARK" for helper
proof unfold_locales
  show "per_group_main helper t = Inr t" if "py_in PG_MARK t" for t
    using that by (simp add: per_group_main_def)
  show "py_in PG_MARK t'" if run: "per_group_main helper t = Inr t'" for t t'
  proof (cases "py_in PG_MARK t")
    case True
    with run show ?thesis by (simp add: per_group_main_def)
  next
    case False
    with run obtain u where "replace_once u PG_HYBRID_CACHE_OLD PG_HYBRID_CACHE_NEW = Inr t'"
      by (auto simp: per_group_main_def res_bind_Inr Let_def split: if_splits)
    then have "py_in PG_HYBRID_CACHE_NEW t'" by (rule replace_once_in) (simp add: PG_HYBRID_CACHE_OLD_def)
    with per_group_mark show ?thesis by (rule py_in_trans)
  qed
qed

text \<open>The routes of \<open>build_app\<close>, and the installer of the branch.\<close>

datatype dev_routes = AllDev | CacheResetOnly | NoDev

definition build_app_routes :: "bool \<Rightarrow> environ \<Rightarrow> dev_routes" where
  "build_app_routes dev_mode env =
     (if dev_mode then AllDev
      else if env_get env ''GLM53_EXPOSE_CACHE_RESET'' ''0'' = ''1'' then CacheResetOnly else NoDev)"

definition cache_reset_main :: "(string \<Rightarrow> bool) \<Rightarrow> string \<Rightarrow> string res" where
  "cache_reset_main parses t =
     (let n_old = py_count CR_DEV_OLD t; n_new = py_count CR_DEV_NEW t; n_mark = py_count CR_MARK t
      in if n_new = 1 \<and> n_mark \<le> 1 then Inr t
         else if n_mark \<noteq> 0 \<or> n_new \<noteq> 0 then Inl SystemExit
         else if n_old \<noteq> 1 then Inl SystemExit
         else let t = py_replace1 CR_DEV_OLD CR_DEV_NEW t
              in if py_count CR_DEV_NEW t \<noteq> 1 \<or> py_count CR_MARK t \<noteq> 1 then Inl SystemExit
                 else if parses t then Inr t else Inl SyntaxError)"

interpretation cache_reset_inst: installer "cache_reset_main parses" "\<lambda>t. py_count CR_DEV_NEW t = 1 \<and> py_count CR_MARK t \<le> 1" for parses
  by unfold_locales (auto simp: cache_reset_main_def Let_def split: if_splits)

subsection \<open>The sparse-miss metric\<close>

definition metric_enabled :: "environ \<Rightarrow> bool res" where
  "metric_enabled env =
     (let raw = env_get env ''GLM53_PREFIX_CACHE_SPARSE_MISS_METRIC'' ''1''
      in if raw \<notin> {''0'', ''1''} then Inl SystemExit else Inr (raw = ''1''))"

text \<open>The statistics: the stock part is vLLM's, its \<open>record\<close> is an argument.\<close>

record 'st cache_stats =
  stock_stats :: 'st
  sparse_misses :: int

definition record_stats :: "(int \<Rightarrow> int \<Rightarrow> bool \<Rightarrow> 'st \<Rightarrow> 'st) \<Rightarrow> int \<Rightarrow> int \<Rightarrow> bool \<Rightarrow> int \<Rightarrow> 'st cache_stats \<Rightarrow> 'st cache_stats" where
  "record_stats stock num_tokens num_hits preempted misses st =
     st\<lparr>sparse_misses := sparse_misses st + misses, stock_stats := stock num_tokens num_hits preempted (stock_stats st)\<rparr>"

record metric_request =
  mr_num_tokens :: int
  mr_preemptions :: int
  mr_boundary :: int

definition record_prefix_cache_stats :: "(int \<Rightarrow> int \<Rightarrow> bool \<Rightarrow> 'st \<Rightarrow> 'st) \<Rightarrow> metric_request \<Rightarrow> int \<Rightarrow> 'st cache_stats \<Rightarrow> 'st cache_stats" where
  "record_prefix_cache_stats stock r num_hits st =
     (let misses = (if mr_boundary r \<noteq> 0 then max (mr_boundary r - num_hits) 0 else 0)
      in record_stats stock (mr_num_tokens r) num_hits (0 < mr_preemptions r) misses st)"

definition stock_record :: "(int \<Rightarrow> int \<Rightarrow> bool \<Rightarrow> 'st \<Rightarrow> 'st) \<Rightarrow> metric_request \<times> int \<Rightarrow> 'st \<Rightarrow> 'st" where
  "stock_record stock rh st = stock (mr_num_tokens (fst rh)) (snd rh) (0 < mr_preemptions (fst rh)) st"

text \<open>The two counters of an engine after the statistics of a step are exported.\<close>

definition export_stats :: "('st \<Rightarrow> int) \<Rightarrow> nat \<Rightarrow> 'st cache_stats \<Rightarrow> (nat \<Rightarrow> int) \<times> (nat \<Rightarrow> int) \<Rightarrow> (nat \<Rightarrow> int) \<times> (nat \<Rightarrow> int)" where
  "export_stats hits engine st = (\<lambda>(h, m). (h(engine := h engine + hits (stock_stats st)), m(engine := m engine + sparse_misses st)))"

definition SM_PLAN :: "plan_entry list" where
  "SM_PLAN =
     [\<lparr>pl_path = ''v1/metrics/stats.py'', pl_edits = [(SM_STATS_OLD, SM_STATS_NEW)],
       pl_requires = [lns [''@dataclass'', ''class PrefixCacheStats(BaseCacheStats):'']]\<rparr>,
      \<lparr>pl_path = MANAGER_PY, pl_edits = [(SM_MANAGER_OLD, SM_MANAGER_NEW)],
       pl_requires = [lns [''def record_prefix_cache_stats(self, request: Request, num_hits: int) -> None:'']]\<rparr>,
      \<lparr>pl_path = ''v1/metrics/loggers.py'',
       pl_edits = [(SM_LOGGER_COUNTER_OLD, SM_LOGGER_COUNTER_NEW), (SM_LOGGER_RECORD_OLD, SM_LOGGER_RECORD_NEW)], pl_requires = []\<rparr>]"

definition admission_after_allocation :: "(string \<Rightarrow> bool) \<Rightarrow> string \<Rightarrow> bool" where
  "admission_after_allocation parses t \<longleftrightarrow> parses t \<and> py_count SM_SCHEDULER_ALLOCATION_FAILURE_EXIT t = 1
     \<and> py_count SM_SCHEDULER_ADMISSION_CALL t = 1
     \<and> (case (py_find SM_SCHEDULER_ALLOCATION_FAILURE_EXIT t, py_find SM_SCHEDULER_ADMISSION_CALL t) of
          (Some i, Some j) \<Rightarrow> i \<le> j | _ \<Rightarrow> False)"

definition metric_main :: "environ \<Rightarrow> (string \<Rightarrow> bool) \<Rightarrow> file_system \<Rightarrow> unit res \<times> file_system" where
  "metric_main env parses fs =
     (case metric_enabled env of
        Inl e \<Rightarrow> (Inl e, fs)
      | Inr False \<Rightarrow> (Inr (), fs)
      | Inr True \<Rightarrow>
          (case fs SCHED_PY of
             None \<Rightarrow> (Inl SystemExit, fs)
           | Some t \<Rightarrow> if \<not> admission_after_allocation parses t then (Inl SystemExit, fs)
                       else no_store_main parses SM_MARK SM_PLAN fs))"

definition NS_PLAN :: "string \<Rightarrow> plan_entry list" where
  "NS_PLAN sp_helpers =
     [\<lparr>pl_path = ''sampling_params.py'',
       pl_edits = [(NS_SP_FIELD_OLD, NS_SP_FIELD_NEW), (NS_SP_CLASS_ANCHOR, sp_helpers @ NS_SP_CLASS_ANCHOR), (NS_SP_POST_OLD, NS_SP_POST_NEW)],
       pl_requires = [lns [''logger = init_logger(__name__)'']]\<rparr>,
      \<lparr>pl_path = ''v1/request.py'',
       pl_edits = [(NS_REQ_RESOLVE_OLD, NS_REQ_RESOLVE_NEW), (NS_REQ_METHOD_OLD, NS_REQ_METHOD_NEW)], pl_requires = []\<rparr>,
      \<lparr>pl_path = POOL_PY,
       pl_edits = [(NS_BP_CLASS_ANCHOR, NS_BP_HELPER @ NS_BP_CLASS_ANCHOR), (NS_BP_FULL_OLD, NS_BP_FULL_NEW), (NS_BP_PARTIAL_OLD, NS_BP_PARTIAL_NEW)],
       pl_requires = [lns [''logger = init_logger(__name__)'']]\<rparr>]"

interpretation no_store_inst: fail_safe "no_store_main parses NS_MARK (NS_PLAN sp_helpers)" for parses sp_helpers
  by unfold_locales (auto simp: no_store_main_def split: sum.splits)

interpretation metric_inst: fail_safe "metric_main env parses" for env parses
  by unfold_locales (auto simp: metric_main_def no_store_main_def split: sum.splits bool.splits option.splits if_splits)


subsection \<open>Properties\<close>

text \<open>Hot protection is installed in both files or in neither. Whatever the files hold, a run that refuses
  leaves every file as it was, and after one that succeeds with the flag on both hooks are in place, on a
  pool with tail-first eviction, and a further run changes nothing.\<close>

theorem hot_protect_both_or_neither:
  "case hot_protect_main env fs of
     (Inl e, fs') \<Rightarrow> fs' = fs
   | (Inr u, fs') \<Rightarrow> hot_protect_main env fs' = (Inr (), fs') \<and> hot_protect_installed env fs'"
  using hot_protect_inst.refuses hot_protect_inst.installs hot_protect_inst.twice
  by (auto split: prod.splits sum.splits)

text \<open>The boundary and adaptive-length installers write their files one after the other. A refused run leaves
  the files alone or has completed the scheduler and nothing else, so that the next run starts from a valid
  state; a successful one has completed both files, is repeatable, and the adaptive-length scheduler never
  calls the policy from the drafter.\<close>

theorem sequential_installers_resume:
  "(case tail_boundary_main env parses fs of
      (Inl e, fs') \<Rightarrow> fs' = fs \<or> (\<exists>t. tb_done parses TB_SCHED_EDITS t \<and> fs' = fs(SCHED_PY \<mapsto> t))
    | (Inr u, fs') \<Rightarrow> tail_boundary_main env parses fs' = (Inr (), fs') \<and> tail_boundary_installed env parses fs')
   \<and> (case adaptive_k_main ts parses fs of
      (Inl e, fs') \<Rightarrow> fs' = fs \<or> (\<exists>t. validate_scheduler ts parses t \<and> fs' = fs(SCHED_PY \<mapsto> t))
    | (Inr u, fs') \<Rightarrow> adaptive_k_main ts parses fs' = (Inr (), fs')
        \<and> (\<exists>t. fs' SCHED_PY = Some t \<and> \<not> py_in (ax_draft_hook ts) t))"
proof
  have "fs' = fs \<or> (\<exists>t. tb_done parses TB_SCHED_EDITS t \<and> fs' = fs(SCHED_PY \<mapsto> t))"
    if "tail_boundary_main env parses fs = (Inl e, fs')" for e fs'
    using that two_files_failure [OF tb_sched_inst.installer_axioms, where p = SCHED_PY and g = "tb_patch_file parses TB_MGR_EDITS" and q = MGR_PY]
    by (auto simp: tail_boundary_main_def split: if_splits)
  then show "case tail_boundary_main env parses fs of
      (Inl e, fs') \<Rightarrow> fs' = fs \<or> (\<exists>t. tb_done parses TB_SCHED_EDITS t \<and> fs' = fs(SCHED_PY \<mapsto> t))
    | (Inr u, fs') \<Rightarrow> tail_boundary_main env parses fs' = (Inr (), fs') \<and> tail_boundary_installed env parses fs'"
    using tail_boundary_inst.installs tail_boundary_inst.twice by (auto split: prod.splits sum.splits)
  have "fs' = fs \<or> (\<exists>t. validate_scheduler ts parses t \<and> fs' = fs(SCHED_PY \<mapsto> t))"
    if "adaptive_k_main ts parses fs = (Inl e, fs')" for e fs'
    using that two_files_failure [OF ak_sched_inst.installer_axioms, where p = SCHED_PY and g = "patch_cudagraph_utils ts parses" and q = CG_PY]
    by (auto simp: adaptive_k_main_def)
  moreover have "\<exists>t. fs' SCHED_PY = Some t \<and> \<not> py_in (ax_draft_hook ts) t" if "adaptive_k_main ts parses fs = (Inr (), fs')" for fs'
    using adaptive_k_inst.installs [OF that] by (auto simp: adaptive_k_installed_def validate_scheduler_def no_draft_hook_def)
  ultimately show "case adaptive_k_main ts parses fs of
      (Inl e, fs') \<Rightarrow> fs' = fs \<or> (\<exists>t. validate_scheduler ts parses t \<and> fs' = fs(SCHED_PY \<mapsto> t))
    | (Inr u, fs') \<Rightarrow> adaptive_k_main ts parses fs' = (Inr (), fs')
        \<and> (\<exists>t. fs' SCHED_PY = Some t \<and> \<not> py_in (ax_draft_hook ts) t)"
    using adaptive_k_inst.twice by (auto split: prod.splits sum.splits)
qed

lemma metric_run:
  "stock_stats (fold (\<lambda>(r, h). record_prefix_cache_stats stock r h) rs st) = fold (stock_record stock) rs (stock_stats st)
   \<and> sparse_misses (fold (\<lambda>(r, h). record_prefix_cache_stats stock r h) rs st)
     = sparse_misses st + (\<Sum>(r, h) \<leftarrow> rs. if mr_boundary r = 0 then 0 else max (mr_boundary r - h) 0)"
proof (induction rs arbitrary: st)
  case (Cons rh rs)
  then show ?case
    by (cases rh) (auto simp: record_prefix_cache_stats_def record_stats_def stock_record_def Let_def)
qed simp

text \<open>The metric only observes. Over any admissions the stock statistics are what they are without the
  overlay, and the exported counter of the engine grows by exactly the tokens of the shared prefixes beyond
  the reconciled hits, never by less than nothing; no other engine's counter moves.\<close>

theorem metric_only_observes:
  "let st = fold (\<lambda>(r, h). record_prefix_cache_stats stock r h) rs \<lparr>stock_stats = s0, sparse_misses = 0\<rparr>;
       lost = (\<Sum>(r, h) \<leftarrow> rs. if mr_boundary r = 0 then 0 else max (mr_boundary r - h) 0)
   in stock_stats st = fold (stock_record stock) rs s0
     \<and> 0 \<le> lost
     \<and> export_stats hits e st (ch, cm)
       = (ch(e := ch e + hits (fold (stock_record stock) rs s0)), cm(e := cm e + lost))"
proof -
  have "0 \<le> (\<Sum>(r, h) \<leftarrow> rs. if mr_boundary r = 0 then 0 else max (mr_boundary r - h) 0)"
    by (rule sum_list_nonneg) auto
  then show ?thesis
    using metric_run [of stock rs "\<lparr>stock_stats = s0, sparse_misses = 0\<rparr>"] by (simp add: export_stats_def Let_def)
qed

end
