(* ===== verification/Draft_Group.thy ===== *)
theory Draft_Group
  imports Glm_Prelude "HOL-Library.Multiset"
begin

text \<open>
  The drafter's group in the KV layout of the hybrid model, \<^verbatim>\<open>overlay/patch_glm5_drafter_group.py\<close>: the partition
  of the layers, the geometry of the drafter group (exact fit or padded slot share), its validation in the
  tensor layout, and the three consumers of the layout: bytes per block, tensors, memory demand. The
  parts of these functions that the overlay leaves as they are in vLLM give the MLA and indexer names,
  the pages and the base demand, which are arguments.
\<close>

subsection \<open>Layers\<close>

text \<open>A sliding-window spec; its page is the padded size if there is one, else block times bytes per token.\<close>

record swa_spec =
  sw_block :: int
  sw_bytes_per_token :: int
  sw_padded :: "int option"

definition page_size_bytes :: "swa_spec \<Rightarrow> int" where
  "page_size_bytes s = (case sw_padded s of Some p \<Rightarrow> p | None \<Rightarrow> sw_block s * sw_bytes_per_token s)"

datatype layer_spec = MambaSpec | KpoolTailSpec | SlidingWindowSpec swa_spec | MLAAttentionSpec int | OtherSpec

type_synonym layers = "(string \<times> layer_spec) list"

definition draft_specs :: "layers \<Rightarrow> (string \<times> swa_spec) list" where
  "draft_specs kvs = List.map_filter (\<lambda>(n, s). case s of SlidingWindowSpec w \<Rightarrow> Some (n, w) | _ \<Rightarrow> None) kvs"

definition attn_specs :: "layers \<Rightarrow> layers" where
  "attn_specs kvs = filter (\<lambda>(n, s). case s of MambaSpec \<Rightarrow> False | KpoolTailSpec \<Rightarrow> False | SlidingWindowSpec w \<Rightarrow> False | _ \<Rightarrow> True) kvs"

definition attn_specs_old :: "layers \<Rightarrow> layers" where
  "attn_specs_old kvs = filter (\<lambda>(n, s). case s of MambaSpec \<Rightarrow> False | KpoolTailSpec \<Rightarrow> False | _ \<Rightarrow> True) kvs"

text \<open>Whether the model takes the fast path, before and after the edit.\<close>

definition fast_path :: "layers \<Rightarrow> layers \<Rightarrow> bool" where
  "fast_path kvs attn \<longleftrightarrow> list_ex (\<lambda>(n, s). s = MambaSpec) kvs \<and> list_all (\<lambda>(n, s). case s of MLAAttentionSpec b \<Rightarrow> True | _ \<Rightarrow> False) attn"

subsection \<open>The geometry of the group\<close>

definition exact_fit_block :: "int \<Rightarrow> int \<Rightarrow> int" where
  "exact_fit_block mla_page bpt = (if mla_page mod bpt = 0 then mla_page div bpt else 0)"

definition exact_fit :: "nat \<Rightarrow> nat \<Rightarrow> int \<Rightarrow> int \<Rightarrow> bool res" where
  "exact_fit num_draft num_mla mla_block fit_block =
     (if fit_block = 0 \<or> fit_block mod 64 \<noteq> 0 then Inr False
      else if mla_block = 0 then Inl ZeroDivisionError
      else Inr ((fit_block mod mla_block = 0 \<or> mla_block mod fit_block = 0) \<and> num_draft \<le> num_mla))"

text \<open>The drafter group as names and specs; empty when the model has no drafter. The figures that the padded
  mode logs divide by the page.\<close>

definition build_draft_group :: "(string \<times> swa_spec) list \<Rightarrow> nat \<Rightarrow> int \<Rightarrow> int \<Rightarrow> (string \<times> swa_spec) list res" where
  "build_draft_group drafts num_mla mla_block mla_page =
     (case drafts of
        [] \<Rightarrow> Inr []
      | (_, any_draft) # _ \<Rightarrow>
          if \<not> list_all (\<lambda>(n, s). s = any_draft) drafts then Inl AssertionError
          else if sw_block any_draft = 0 then Inl ZeroDivisionError
          else let bpt = page_size_bytes any_draft div sw_block any_draft
               in if bpt = 0 then Inl ZeroDivisionError
                  else let fit_block = exact_fit_block mla_page bpt
                       in res_bind (exact_fit (length drafts) num_mla mla_block fit_block) (\<lambda>fits.
                            if fits then Inr (map (\<lambda>(n, s). (n, s\<lparr>sw_block := fit_block\<rparr>)) drafts)
                            else if mla_page = 0 then Inl ZeroDivisionError
                            else Inr (map (\<lambda>(n, s). (n, s\<lparr>sw_block := 64, sw_padded := Some mla_page\<rparr>)) drafts)))"

record padding_report =
  kernel_page_bytes :: int
  draft_tokens_per_mla_page :: int
  usable_draft_tokens :: int
  structural_padding_waste_bytes :: int
  exact_fit_page_bytes :: int

definition report_padding :: "int \<Rightarrow> int \<Rightarrow> padding_report" where
  "report_padding mla_page bpt =
     (let per_page = mla_page div bpt; usable = per_page div 64 * 64
      in \<lparr>kernel_page_bytes = 64 * bpt, draft_tokens_per_mla_page = per_page, usable_draft_tokens = usable,
          structural_padding_waste_bytes = (per_page - usable) * bpt,
          exact_fit_page_bytes = (per_page + 64 - 1) div 64 * 64 * bpt\<rparr>)"

subsection \<open>The tensor layout\<close>

text \<open>The check of the drafter group once the MLA page is known; \<open>False\<close>: no layout.\<close>

definition draft_layout_ok :: "(string \<times> swa_spec) list \<Rightarrow> nat \<Rightarrow> int \<Rightarrow> bool" where
  "draft_layout_ok dgroup num_mla mla_page \<longleftrightarrow>
     (dgroup = [] \<or>
      card (set (map (page_size_bytes \<circ> snd) dgroup)) = 1
      \<and> (list_ex (\<lambda>(n, s). sw_padded s \<noteq> None) dgroup
          \<longrightarrow> \<not> list_ex (\<lambda>(n, s). sw_block s \<noteq> 64 \<or> sw_padded s \<noteq> Some mla_page) dgroup)
      \<and> \<not> (page_size_bytes (snd (hd dgroup)) = mla_page \<and> num_mla < length dgroup))"

record glm_layout =
  gl_mamba :: "string list list"
  gl_mla :: "string list"
  gl_idx :: "string list"
  gl_mla_page :: int
  gl_idx_page :: int
  gl_tail :: "string list"
  gl_draft :: "(string \<times> swa_spec) list"

definition draft_page :: "glm_layout \<Rightarrow> int" where
  "draft_page l = (case gl_draft l of [] \<Rightarrow> 0 | (_, s) # _ \<Rightarrow> page_size_bytes s)"

definition draft_shared :: "glm_layout \<Rightarrow> bool" where
  "draft_shared l \<longleftrightarrow> gl_draft l \<noteq> [] \<and> draft_page l = gl_mla_page l"

subsection \<open>The consumers\<close>

definition pool_bytes_per_block :: "glm_layout \<Rightarrow> int" where
  "pool_bytes_per_block l =
     (let per_block = int (length (gl_mla l)) * gl_mla_page l + int (length (gl_idx l)) * gl_idx_page l
      in if gl_draft l \<noteq> [] \<and> draft_page l \<noteq> gl_mla_page l
         then per_block + int (length (gl_draft l)) * draft_page l else per_block)"

record kv_tensor =
  kt_size :: int
  kt_shared_by :: "string list"

definition config_per_block :: "glm_layout \<Rightarrow> int" where
  "config_per_block l =
     (let per_block = int (length (gl_mla l)) * gl_mla_page l + int (length (gl_idx l)) * gl_idx_page l
      in if gl_draft l \<noteq> [] \<and> \<not> draft_shared l then per_block + int (length (gl_draft l)) * draft_page l else per_block)"

definition mla_tensor :: "glm_layout \<Rightarrow> int \<Rightarrow> nat \<Rightarrow> kv_tensor" where
  "mla_tensor l num_blocks i =
     \<lparr>kt_size = gl_mla_page l * num_blocks,
      kt_shared_by = [gl_mla l ! i] @ List.map_filter (\<lambda>g. if i < length g then Some (g ! i) else None) (gl_mamba l)
        @ (if draft_shared l \<and> i < length (gl_draft l) then [fst (gl_draft l ! i)] else [])\<rparr>"

definition idx_tensor :: "glm_layout \<Rightarrow> int \<Rightarrow> nat \<Rightarrow> kv_tensor" where
  "idx_tensor l num_blocks i =
     \<lparr>kt_size = gl_idx_page l * num_blocks,
      kt_shared_by = (if gl_tail l \<noteq> [] then [gl_idx l ! i, gl_tail l ! i] else [gl_idx l ! i])\<rparr>"

definition kv_cache_config :: "glm_layout \<Rightarrow> int \<Rightarrow> (int \<times> kv_tensor list) res" where
  "kv_cache_config l available_memory =
     (if config_per_block l = 0 then Inl ZeroDivisionError
      else let num_blocks = available_memory div config_per_block l
           in Inr (num_blocks, map (mla_tensor l num_blocks) [0..<length (gl_mla l)] @ map (idx_tensor l num_blocks) [0..<length (gl_idx l)]
                @ map (\<lambda>(n, s). \<lparr>kt_size = draft_page l * num_blocks, kt_shared_by = [n]\<rparr>) (if draft_shared l then [] else gl_draft l)))"

text \<open>\<open>base_blocks\<close> is vLLM's demand for the attention and Mamba groups, \<open>draft_blocks\<close> the window-bounded demand of
  the drafter.\<close>

definition max_memory_usage_bytes :: "glm_layout \<Rightarrow> int \<Rightarrow> int \<Rightarrow> int" where
  "max_memory_usage_bytes l base_blocks draft_blocks =
     (let blocks = base_blocks + (if gl_tail l \<noteq> [] then 1 else 0);
          per_block = int (length (gl_mla l)) * gl_mla_page l + int (length (gl_idx l)) * gl_idx_page l
      in if gl_draft l = [] then blocks * per_block
         else (blocks + draft_blocks) * (if draft_page l \<noteq> gl_mla_page l then per_block + int (length (gl_draft l)) * draft_page l else per_block))"


subsection \<open>The group always shares the MLA tensors\<close>

lemma draft_layout_uniform:
  assumes "g = map (\<lambda>(n, s). (n, w)) drafts" and "drafts \<noteq> []" and "page_size_bytes w = mla_page"
    and "sw_padded w \<noteq> None \<Longrightarrow> sw_block w = 64 \<and> sw_padded w = Some mla_page"
  shows "draft_layout_ok g num_mla mla_page \<longleftrightarrow> length drafts \<le> num_mla"
proof -
  have "set (map (page_size_bytes \<circ> snd) g) = {mla_page}" using assms(1-3) by (cases drafts) (auto simp: case_prod_unfold)
  moreover have "page_size_bytes (snd (hd g)) = mla_page" using assms(1-3) by (cases drafts) (auto simp: case_prod_unfold)
  moreover have "length g = length drafts" "g \<noteq> []" using assms(1,2) by auto
  moreover have "\<not> list_ex (\<lambda>(n, s). sw_block s \<noteq> 64 \<or> sw_padded s \<noteq> Some mla_page) g"
    if "list_ex (\<lambda>(n, s). sw_padded s \<noteq> None) g"
    using that assms(1,4) by (auto simp: list_ex_iff)
  ultimately show ?thesis by (auto simp: draft_layout_ok_def)
qed

lemma build_draft_group_cases:
  assumes "build_draft_group ((n0, w) # rest) num_mla mla_block mla_page = Inr g"
    and "sw_padded w = None" and "0 < sw_block w" and "0 < sw_bytes_per_token w"
  shows "\<exists>w'. g = map (\<lambda>(n, s). (n, w')) ((n0, w) # rest) \<and> page_size_bytes w' = mla_page
      \<and> (sw_padded w' \<noteq> None \<longrightarrow> sw_block w' = 64 \<and> sw_padded w' = Some mla_page)"
proof -
  let ?ds = "(n0, w) # rest" and ?fit = "exact_fit_block mla_page (sw_bytes_per_token w)"
  have bpt: "page_size_bytes w div sw_block w = sw_bytes_per_token w" using assms(2,3) by (simp add: page_size_bytes_def)
  have all: "\<forall>(n, s) \<in> set ?ds. s = w" using assms(1) by (auto simp: build_draft_group_def list_all_iff split: if_splits)
  have same: "map (\<lambda>(n, s). (n, f s)) ?ds = map (\<lambda>(n, s). (n, f w)) ?ds" for f :: "swa_spec \<Rightarrow> swa_spec"
    using all by (auto simp: case_prod_unfold)
  have "list_all (\<lambda>(n, s). s = w) ?ds" using all by (simp add: list_all_iff)
  then have run: "build_draft_group ?ds num_mla mla_block mla_page = res_bind (exact_fit (length ?ds) num_mla mla_block ?fit) (\<lambda>fits.
      if fits then Inr (map (\<lambda>(n, s). (n, s\<lparr>sw_block := ?fit\<rparr>)) ?ds)
      else if mla_page = 0 then Inl ZeroDivisionError
      else Inr (map (\<lambda>(n, s). (n, s\<lparr>sw_block := 64, sw_padded := Some mla_page\<rparr>)) ?ds))"
    unfolding build_draft_group_def list.case prod.case Let_def bpt using assms(3,4) by simp
  from assms(1) [unfolded run res_bind_Inr] obtain fits where f: "exact_fit (length ?ds) num_mla mla_block ?fit = Inr fits"
    and r: "(if fits then Inr (map (\<lambda>(n, s). (n, s\<lparr>sw_block := ?fit\<rparr>)) ?ds)
      else if mla_page = 0 then Inl ZeroDivisionError
      else Inr (map (\<lambda>(n, s). (n, s\<lparr>sw_block := 64, sw_padded := Some mla_page\<rparr>)) ?ds)) = Inr g"
    by blast
  have g: "g = (if fits then map (\<lambda>(n, s). (n, s\<lparr>sw_block := ?fit\<rparr>)) ?ds
                 else map (\<lambda>(n, s). (n, s\<lparr>sw_block := 64, sw_padded := Some mla_page\<rparr>)) ?ds)"
    using r by (simp split: if_splits)
  show ?thesis
  proof (cases fits)
    case True
    with f have "?fit \<noteq> 0" by (auto simp: exact_fit_def split: if_splits)
    then have "?fit * sw_bytes_per_token w = mla_page" by (auto simp: exact_fit_block_def split: if_splits)
    then have "page_size_bytes (w\<lparr>sw_block := ?fit\<rparr>) = mla_page" by (simp add: page_size_bytes_def assms(2))
    moreover have "g = map (\<lambda>(n, s). (n, w\<lparr>sw_block := ?fit\<rparr>)) ?ds"
      using g [unfolded same [of "\<lambda>s. s\<lparr>sw_block := ?fit\<rparr>"]] True by (simp only: if_True)
    ultimately show ?thesis using assms(2) by (intro exI [of _ "w\<lparr>sw_block := ?fit\<rparr>"]) simp
  next
    case False
    have "g = map (\<lambda>(n, s). (n, w\<lparr>sw_block := 64, sw_padded := Some mla_page\<rparr>)) ?ds"
      using g [unfolded same [of "\<lambda>s. s\<lparr>sw_block := 64, sw_padded := Some mla_page\<rparr>"]] False by (simp only: if_False)
    then show ?thesis
      by (intro exI [of _ "w\<lparr>sw_block := 64, sw_padded := Some mla_page\<rparr>"]) (simp add: page_size_bytes_def)
  qed
qed

text \<open>(C36) A drafter group that is built shares the MLA tensors, or is thrown away. For unpadded drafter layers, what
  the group builder returns has the MLA page in both of its modes, and the tensor layout accepts it exactly
  if there are at most as many drafter layers as MLA layers. So with more drafter layers than MLA layers
  the model loses its layout: the standalone tensors announced for this case are never laid out.\<close>

theorem drafter_shares_or_loses_layout:
  assumes "build_draft_group drafts num_mla mla_block mla_page = Inr g" and "drafts = (n0, w) # rest"
    and "sw_padded w = None" and "0 < sw_block w" and "0 < sw_bytes_per_token w"
    and "gl_draft l = g" and "gl_mla_page l = mla_page"
  shows "draft_shared l \<and> map fst g = map fst drafts \<and> (draft_layout_ok g num_mla mla_page \<longleftrightarrow> length drafts \<le> num_mla)"
proof -
  from build_draft_group_cases [OF assms(1) [unfolded assms(2)] assms(3-5)] obtain w' where
    w': "g = map (\<lambda>(n, s). (n, w')) drafts" "page_size_bytes w' = mla_page"
      "sw_padded w' \<noteq> None \<longrightarrow> sw_block w' = 64 \<and> sw_padded w' = Some mla_page"
    unfolding assms(2) by blast
  from draft_layout_uniform [OF w'(1) _ w'(2)] w'(3) have "draft_layout_ok g num_mla mla_page \<longleftrightarrow> length drafts \<le> num_mla"
    by (simp add: assms(2))
  moreover have "draft_shared l" using w'(1,2) assms(2,6,7) by (auto simp: draft_shared_def draft_page_def)
  moreover have "map fst g = map fst drafts" using w'(1) by (simp add: case_prod_unfold comp_def)
  ultimately show ?thesis by simp
qed

subsection \<open>The consumers agree\<close>

lemma per_block_agree: "config_per_block l = pool_bytes_per_block l"
  by (auto simp: config_per_block_def pool_bytes_per_block_def draft_shared_def Let_def)

lemma singles_mset: "(\<Sum>i \<leftarrow> is. {#f i#}) = mset (map f is)"
  by (induction "is") simp_all

lemma list_mset: "(\<Sum>i \<leftarrow> [0..<length xs]. {#xs ! i#}) = mset xs"
  unfolding singles_mset by (simp add: map_nth)

lemma column_mset: "(\<Sum>i \<leftarrow> [0..<n]. if i < length g then {#g ! i#} else {#}) = mset (take n g)"
proof (induction n)
  case (Suc n)
  then show ?case by (cases "n < length g") (simp_all add: take_Suc_conv_app_nth)
qed simp

lemma map_filter_mset: "mset (List.map_filter f xs) = (\<Sum>x \<leftarrow> xs. case f x of None \<Rightarrow> {#} | Some y \<Rightarrow> {#y#})"
  by (induction xs) (auto simp: List.map_filter_def split: option.splits)

lemma columns_mset:
  "(\<Sum>i \<leftarrow> [0..<n]. mset (List.map_filter (\<lambda>g. if i < length g then Some (g ! i) else None) gs)) = mset (concat (map (take n) gs))"
proof (induction gs)
  case (Cons g gs)
  have "mset (List.map_filter (\<lambda>g. if i < length g then Some (g ! i) else None) (g # gs))
      = (if i < length g then {#g ! i#} else {#}) + mset (List.map_filter (\<lambda>g. if i < length g then Some (g ! i) else None) gs)" for i
    by (simp add: map_filter_mset)
  then show ?case using Cons.IH by (simp add: sum_list_addf column_mset)
qed (simp add: map_filter_mset)

lemma mset_concat_map: "mset (concat (map f xs)) = (\<Sum>x \<leftarrow> xs. mset (f x))"
  by (induction xs) simp_all

lemma mla_owners:
  assumes "\<forall>g \<in> set (gl_mamba l). length g \<le> length (gl_mla l)" and "draft_layout_ok (gl_draft l) (length (gl_mla l)) (gl_mla_page l)"
  shows "mset (concat (map kt_shared_by (map (mla_tensor l nb) [0..<length (gl_mla l)])))
    = mset (gl_mla l) + mset (concat (gl_mamba l)) + (if draft_shared l then mset (map fst (gl_draft l)) else {#})"
proof -
  let ?n = "length (gl_mla l)" and ?dr = "map fst (gl_draft l)"
  have mla: "(\<Sum>i \<leftarrow> [0..<?n]. {#gl_mla l ! i#}) = mset (gl_mla l)"
    by (rule list_mset)
  have mam: "concat (map (take ?n) (gl_mamba l)) = concat (gl_mamba l)" using assms(1) by (metis map_idI take_all)
  have len: "draft_shared l \<Longrightarrow> length (gl_draft l) \<le> ?n"
    using assms(2) by (cases "gl_draft l") (auto simp: draft_layout_ok_def draft_shared_def draft_page_def)
  have dr: "(\<Sum>i \<leftarrow> [0..<?n]. mset (if draft_shared l \<and> i < length (gl_draft l) then [fst (gl_draft l ! i)] else []))
      = (if draft_shared l then mset ?dr else {#})"
  proof (cases "draft_shared l")
    case True
    have "(\<Sum>i \<leftarrow> [0..<?n]. if i < length ?dr then {#?dr ! i#} else {#}) = mset ?dr"
      using column_mset [of ?dr ?n] len [OF True] by simp
    moreover have "mset (if draft_shared l \<and> i < length (gl_draft l) then [fst (gl_draft l ! i)] else [])
        = (if i < length ?dr then {#?dr ! i#} else {#})" for i using True by simp
    ultimately show ?thesis using True by simp
  qed simp
  have "mset (concat (map kt_shared_by (map (mla_tensor l nb) [0..<?n]))) = (\<Sum>i \<leftarrow> [0..<?n]. {#gl_mla l ! i#}
      + mset (List.map_filter (\<lambda>g. if i < length g then Some (g ! i) else None) (gl_mamba l))
      + mset (if draft_shared l \<and> i < length (gl_draft l) then [fst (gl_draft l ! i)] else []))"
    unfolding map_map mset_concat_map by (intro arg_cong [where f = sum_list] map_cong refl) (simp add: mla_tensor_def)
  then show ?thesis unfolding sum_list_addf mla columns_mset mam dr .
qed

lemma idx_owners:
  assumes "gl_tail l = [] \<or> length (gl_tail l) = length (gl_idx l)"
  shows "mset (concat (map kt_shared_by (map (idx_tensor l nb) [0..<length (gl_idx l)]))) = mset (gl_idx l) + mset (gl_tail l)"
proof -
  note col = list_mset [where ?'a = string]
  show ?thesis
  proof (cases "gl_tail l = []")
    case True
    then show ?thesis using col [of "gl_idx l"] by (simp add: mset_concat_map idx_tensor_def comp_def)
  next
    case False
    with assms have len: "length (gl_idx l) = length (gl_tail l)" by simp
    have "mset (concat (map kt_shared_by (map (idx_tensor l nb) [0..<length (gl_idx l)])))
        = (\<Sum>i \<leftarrow> [0..<length (gl_idx l)]. {#gl_idx l ! i#} + {#gl_tail l ! i#})"
      unfolding map_map mset_concat_map using False by (intro arg_cong [where f = sum_list] map_cong refl) (simp add: idx_tensor_def)
    also have "\<dots> = mset (gl_idx l) + mset (gl_tail l)"
      unfolding sum_list_addf col [of "gl_idx l"] unfolding len col ..
    finally show ?thesis .
  qed
qed


lemma tensor_sizes:
  "(\<Sum>t \<leftarrow> map (mla_tensor l nb) is. kt_size t) = int (length is) * (gl_mla_page l * nb)"
  "(\<Sum>t \<leftarrow> map (idx_tensor l nb) is. kt_size t) = int (length is) * (gl_idx_page l * nb)"
  by (induction "is") (simp_all add: mla_tensor_def idx_tensor_def algebra_simps)

lemma draft_tensors:
  "(\<Sum>t \<leftarrow> map (\<lambda>(n, s). \<lparr>kt_size = p * nb, kt_shared_by = [n]\<rparr>) ds. kt_size t) = int (length ds) * p * nb"
  "concat (map kt_shared_by (map (\<lambda>(n, s). \<lparr>kt_size = p * nb, kt_shared_by = [n]\<rparr>) ds)) = map fst ds"
  by (induction ds) (auto simp: algebra_simps)

text \<open>(C26) The layout in lock step. For a layout that passed its checks, the tensors add up to the bytes per block
  that the pool is charged with, times the number of blocks, and fit into the available memory while one
  more block would not; every layer of every group owns a place in exactly one tensor; and the demand of a
  request is counted in the same bytes per block.\<close>

theorem layout_in_lock_step:
  assumes "kv_cache_config l available = Inr (num_blocks, tensors)" and "0 < pool_bytes_per_block l"
    and "\<forall>g \<in> set (gl_mamba l). length g \<le> length (gl_mla l)" and "gl_tail l = [] \<or> length (gl_tail l) = length (gl_idx l)"
    and "draft_layout_ok (gl_draft l) (length (gl_mla l)) (gl_mla_page l)"
  shows "(\<Sum>t \<leftarrow> tensors. kt_size t) = num_blocks * pool_bytes_per_block l
    \<and> num_blocks * pool_bytes_per_block l \<le> available \<and> available < (num_blocks + 1) * pool_bytes_per_block l
    \<and> mset (concat (map kt_shared_by tensors))
      = mset (gl_mla l @ concat (gl_mamba l) @ gl_idx l @ gl_tail l @ map fst (gl_draft l))
    \<and> (\<exists>blocks. max_memory_usage_bytes l base_blocks draft_blocks = blocks * pool_bytes_per_block l
         \<and> blocks = base_blocks + (if gl_tail l = [] then 0 else 1) + (if gl_draft l = [] then 0 else draft_blocks))"
proof -
  let ?p = "pool_bytes_per_block l"
  have nb: "num_blocks = available div ?p"
    and ts: "tensors = map (mla_tensor l num_blocks) [0..<length (gl_mla l)] @ map (idx_tensor l num_blocks) [0..<length (gl_idx l)]
                @ map (\<lambda>(n, s). \<lparr>kt_size = draft_page l * num_blocks, kt_shared_by = [n]\<rparr>) (if draft_shared l then [] else gl_draft l)"
    using assms(1) by (auto simp: kv_cache_config_def Let_def per_block_agree split: if_splits)
  have "(\<Sum>t \<leftarrow> tensors. kt_size t) = num_blocks * ?p"
    unfolding ts map_append sum_list_append tensor_sizes draft_tensors
    by (simp add: pool_bytes_per_block_def draft_shared_def Let_def algebra_simps)
  moreover have "num_blocks * ?p \<le> available" "available < (num_blocks + 1) * ?p"
    using assms(2) pos_mod_bound [OF assms(2), of available] pos_mod_sign [OF assms(2), of available] div_mult_mod_eq [of available ?p]
    unfolding nb distrib_right mult_1 by linarith+
  moreover have "mset (concat (map kt_shared_by tensors))
      = mset (gl_mla l @ concat (gl_mamba l) @ gl_idx l @ gl_tail l @ map fst (gl_draft l))"
    unfolding ts map_append concat_append mset_append mla_owners [OF assms(3,5)] idx_owners [OF assms(4)] draft_tensors(2) by simp
  moreover have "max_memory_usage_bytes l base_blocks draft_blocks
      = (base_blocks + (if gl_tail l = [] then 0 else 1) + (if gl_draft l = [] then 0 else draft_blocks)) * ?p"
    by (simp add: max_memory_usage_bytes_def pool_bytes_per_block_def Let_def)
  ultimately show ?thesis by blast
qed


subsection \<open>Witnesses\<close>

text \<open>The deployed geometry: 656 bytes per token and layer in the MLA cache, blocks of 3584 tokens, 4096 bytes per
  token in the drafter.\<close>

definition dg_draft :: swa_spec where
  "dg_draft = \<lparr>sw_block = 64, sw_bytes_per_token = 4096, sw_padded = None\<rparr>"

definition dg_drafts :: "(string \<times> swa_spec) list" where
  "dg_drafts = [(''d0'', dg_draft), (''d1'', dg_draft)]"

definition dg_padded :: "(string \<times> swa_spec) list" where
  "dg_padded = map (\<lambda>(n, s). (n, s\<lparr>sw_padded := Some (656 * 3584)\<rparr>)) dg_drafts"

definition dg_layout :: "nat \<Rightarrow> glm_layout" where
  "dg_layout n = \<lparr>gl_mamba = [[''k0'']], gl_mla = take n [''m0'', ''m1''], gl_idx = [''i0''], gl_mla_page = 656 * 3584, gl_idx_page = 1000,
     gl_tail = [''t0''], gl_draft = dg_padded\<rparr>"

lemma dg_build: "build_draft_group dg_drafts n 3584 (656 * 3584) = Inr dg_padded"
  by (simp add: build_draft_group_def dg_drafts_def dg_draft_def dg_padded_def page_size_bytes_def exact_fit_def exact_fit_block_def)

theorem drafter_shares_or_loses_layout_witness:
  "draft_shared (dg_layout 1) \<and> \<not> draft_layout_ok dg_padded 1 (656 * 3584) \<and> draft_layout_ok dg_padded 2 (656 * 3584)"
  using drafter_shares_or_loses_layout [OF dg_build [of 1], of "''d0''" dg_draft "[(''d1'', dg_draft)]" "dg_layout 1"]
    drafter_shares_or_loses_layout [OF dg_build [of 2], of "''d0''" dg_draft "[(''d1'', dg_draft)]" "dg_layout 2"]
  by (simp add: dg_drafts_def dg_draft_def dg_layout_def)

theorem layout_in_lock_step_witness:
  "\<exists>nb ts. kv_cache_config (dg_layout 2) 100000000 = Inr (nb, ts)
     \<and> (\<Sum>t \<leftarrow> ts. kt_size t) = nb * pool_bytes_per_block (dg_layout 2)
     \<and> mset (concat (map kt_shared_by ts)) = {#''m0'', ''m1'', ''k0'', ''i0'', ''t0'', ''d0'', ''d1''#}"
proof -
  have ok: "draft_layout_ok (gl_draft (dg_layout 2)) (length (gl_mla (dg_layout 2))) (gl_mla_page (dg_layout 2))"
    "0 < pool_bytes_per_block (dg_layout 2)" "kv_cache_config (dg_layout 2) 100000000 \<noteq> Inl ZeroDivisionError"
    by code_simp+
  then obtain nb ts where c: "kv_cache_config (dg_layout 2) 100000000 = Inr (nb, ts)"
    by (auto simp: kv_cache_config_def Let_def split: if_splits)
  from layout_in_lock_step [OF c ok(2) _ _ ok(1)] c show ?thesis
    by (simp add: dg_layout_def dg_padded_def dg_drafts_def)
qed

end
