(* ===== verification/Grammar_Guard.thy ===== *)
theory Grammar_Guard
  imports Boot_Installers
begin

text \<open>
  Grammar-constrained decoding with speculative batches, \<^verbatim>\<open>overlay/patch_xgrammar_termination.py\<close>: the operations of
  the XGrammar backend before and after the backport, the step of the structured-output manager that
  advances a grammar, and the installer. The matcher is XGrammar code: its operations are arguments, and what
  the backend relies on (a refused token changes nothing, a rollback undoes accepted tokens, reset clears
  termination) is the predicate \<open>matcher_ok\<close>.
\<close>

subsection \<open>The backend\<close>

record 'm matcher_ops =
  mo_accept :: "'m \<Rightarrow> int \<Rightarrow> bool \<times> 'm"
  mo_terminated :: "'m \<Rightarrow> bool"
  mo_rollback :: "nat \<Rightarrow> 'm \<Rightarrow> 'm"
  mo_reset :: "'m \<Rightarrow> 'm"

record 'm grammar =
  gr_matcher :: 'm
  gr_processed :: int
  gr_terminated :: bool

fun accept_loop_old :: "'m matcher_ops \<Rightarrow> int list \<Rightarrow> 'm grammar \<Rightarrow> bool \<times> 'm grammar" where
  "accept_loop_old ops [] g = (True, g\<lparr>gr_terminated := mo_terminated ops (gr_matcher g)\<rparr>)"
| "accept_loop_old ops (t # ts) g =
     (case mo_accept ops (gr_matcher g) t of
        (False, m) \<Rightarrow> (False, g\<lparr>gr_matcher := m\<rparr>)
      | (True, m) \<Rightarrow> accept_loop_old ops ts (g\<lparr>gr_matcher := m, gr_processed := gr_processed g + 1\<rparr>))"

definition accept_tokens_old :: "'m matcher_ops \<Rightarrow> int list \<Rightarrow> 'm grammar \<Rightarrow> bool \<times> 'm grammar" where
  "accept_tokens_old ops ts g = (if gr_terminated g then (False, g) else accept_loop_old ops ts g)"

fun accept_loop :: "'m matcher_ops \<Rightarrow> int list \<Rightarrow> 'm grammar \<Rightarrow> bool \<times> 'm grammar" where
  "accept_loop ops [] g = (True, g)"
| "accept_loop ops (t # ts) g =
     (case mo_accept ops (gr_matcher g) t of
        (False, m) \<Rightarrow> (False, g\<lparr>gr_matcher := m\<rparr>)
      | (True, m) \<Rightarrow>
          let g = g\<lparr>gr_matcher := m, gr_processed := gr_processed g + 1, gr_terminated := mo_terminated ops m\<rparr>
          in if gr_terminated g then (True, g) else accept_loop ops ts g)"

definition accept_tokens :: "'m matcher_ops \<Rightarrow> int list \<Rightarrow> 'm grammar \<Rightarrow> bool \<times> 'm grammar" where
  "accept_tokens ops ts g = (if gr_terminated g then (True, g) else accept_loop ops ts g)"

fun validate_loop_old :: "'m matcher_ops \<Rightarrow> int list \<Rightarrow> 'm \<Rightarrow> int list \<times> 'm" where
  "validate_loop_old ops [] m = ([], m)"
| "validate_loop_old ops (t # ts) m =
     (case mo_accept ops m t of
        (False, m) \<Rightarrow> ([], m)
      | (True, m) \<Rightarrow> (case validate_loop_old ops ts m of (acc, m) \<Rightarrow> (t # acc, m)))"

fun validate_loop :: "'m matcher_ops \<Rightarrow> int list \<Rightarrow> 'm \<Rightarrow> int list \<times> 'm" where
  "validate_loop ops [] m = ([], m)"
| "validate_loop ops (t # ts) m =
     (case mo_accept ops m t of
        (False, m) \<Rightarrow> ([], m)
      | (True, m) \<Rightarrow> if mo_terminated ops m then ([t], m)
                     else (case validate_loop ops ts m of (acc, m) \<Rightarrow> (t # acc, m)))"

definition rolled_back :: "'m matcher_ops \<Rightarrow> int list \<times> 'm \<Rightarrow> 'm grammar \<Rightarrow> int list \<times> 'm grammar" where
  "rolled_back ops r g = (case r of (acc, m) \<Rightarrow> (acc, g\<lparr>gr_matcher := if acc \<noteq> [] then mo_rollback ops (length acc) m else m\<rparr>))"

definition validate_tokens_old :: "'m matcher_ops \<Rightarrow> int list \<Rightarrow> 'm grammar \<Rightarrow> int list \<times> 'm grammar" where
  "validate_tokens_old ops ts g = rolled_back ops (validate_loop_old ops ts (gr_matcher g)) g"

definition validate_tokens :: "'m matcher_ops \<Rightarrow> int list \<Rightarrow> 'm grammar \<Rightarrow> int list \<times> 'm grammar" where
  "validate_tokens ops ts g = (if gr_terminated g then ([], g) else rolled_back ops (validate_loop ops ts (gr_matcher g)) g)"

definition grammar_reset_old :: "'m matcher_ops \<Rightarrow> 'm grammar \<Rightarrow> 'm grammar" where
  "grammar_reset_old ops g = g\<lparr>gr_processed := 0, gr_matcher := mo_reset ops (gr_matcher g)\<rparr>"

definition grammar_reset :: "'m matcher_ops \<Rightarrow> 'm grammar \<Rightarrow> 'm grammar" where
  "grammar_reset ops g = g\<lparr>gr_matcher := mo_reset ops (gr_matcher g), gr_processed := 0, gr_terminated := False\<rparr>"

subsection \<open>The manager\<close>

text \<open>One token of the speculative window: the advancements so far and the grammar, or the assertion.\<close>

definition manager_step_old :: "'m matcher_ops \<Rightarrow> bool \<Rightarrow> bool \<Rightarrow> int \<Rightarrow> nat \<times> 'm grammar \<Rightarrow> (nat \<times> 'm grammar) res" where
  "manager_step_old ops advance_grammar post_reasoning_end_in_window token st =
     (case st of (n, g) \<Rightarrow>
        if advance_grammar \<and> \<not> gr_terminated g
        then case accept_tokens_old ops [token] g of
               (accepted, g) \<Rightarrow> if accepted then Inr (n + 1, g) else if \<not> post_reasoning_end_in_window then Inl AssertionError else Inr (n, g)
        else Inr (n, g))"

definition manager_step :: "'m matcher_ops \<Rightarrow> bool \<Rightarrow> bool \<Rightarrow> int \<Rightarrow> nat \<times> 'm grammar \<Rightarrow> (nat \<times> 'm grammar) res" where
  "manager_step ops advance_grammar post_reasoning_end_in_window token st =
     (case st of (n, g) \<Rightarrow>
        if advance_grammar \<and> \<not> gr_terminated g
        then case (if post_reasoning_end_in_window
                   then case validate_tokens ops [token] g of
                          (acc, g) \<Rightarrow> if acc \<noteq> [] then accept_tokens ops [token] g else (False, g)
                   else accept_tokens ops [token] g) of
               (accepted, g) \<Rightarrow> if accepted then Inr (n + 1, g) else if \<not> post_reasoning_end_in_window then Inl AssertionError else Inr (n, g)
        else Inr (n, g))"

subsection \<open>What the matcher promises\<close>

fun accepts_all :: "'m matcher_ops \<Rightarrow> 'm \<Rightarrow> int list \<Rightarrow> 'm option" where
  "accepts_all ops m [] = Some m"
| "accepts_all ops m (t # ts) = (case mo_accept ops m t of (True, m) \<Rightarrow> accepts_all ops m ts | (False, m) \<Rightarrow> None)"

definition matcher_ok :: "'m matcher_ops \<Rightarrow> bool" where
  "matcher_ok ops \<longleftrightarrow>
     (\<forall>m t m'. mo_accept ops m t = (False, m') \<longrightarrow> m' = m)
     \<and> (\<forall>m ts m'. accepts_all ops m ts = Some m' \<longrightarrow> mo_rollback ops (length ts) m' = m)
     \<and> (\<forall>m. \<not> mo_terminated ops (mo_reset ops m))"

text \<open>The flag of the backend is the matcher's.\<close>

definition flag_ok :: "'m matcher_ops \<Rightarrow> 'm grammar \<Rightarrow> bool" where
  "flag_ok ops g \<longleftrightarrow> gr_terminated g = mo_terminated ops (gr_matcher g)"

text \<open>The reference: the longest prefix the matcher accepts, cut after the token that terminates it.\<close>

fun legal_prefix :: "'m matcher_ops \<Rightarrow> 'm \<Rightarrow> int list \<Rightarrow> int list" where
  "legal_prefix ops m [] = []"
| "legal_prefix ops m (t # ts) =
     (if mo_terminated ops m \<or> \<not> fst (mo_accept ops m t) then [] else t # legal_prefix ops (snd (mo_accept ops m t)) ts)"

lemma legal_prefix_terminated [simp]: "mo_terminated ops m \<Longrightarrow> legal_prefix ops m ts = []"
  by (cases ts) auto

lemma matcher_okD:
  assumes "matcher_ok ops"
  shows "mo_accept ops m t = (False, m') \<Longrightarrow> m' = m"
    and "accepts_all ops m ts = Some m' \<Longrightarrow> mo_rollback ops (length ts) m' = m"
    and "\<not> mo_terminated ops (mo_reset ops m)"
  using assms unfolding matcher_ok_def by blast+

lemma validate_loop_spec:
  assumes "matcher_ok ops" and "\<not> mo_terminated ops m" and "validate_loop ops ts m = (acc, m')"
  shows "acc = legal_prefix ops m ts \<and> accepts_all ops m acc = Some m'"
  using assms(2,3)
proof (induction ts arbitrary: m acc)
  case (Cons t ts)
  obtain b m1 where a: "mo_accept ops m t = (b, m1)" by (cases "mo_accept ops m t")
  show ?case
  proof (cases b)
    case True
    with Cons.prems Cons.IH [of m1] a show ?thesis
      by (cases "mo_terminated ops m1") (auto split: prod.splits)
  next
    case False
    with Cons.prems a matcher_okD(1) [OF assms(1)] show ?thesis by auto
  qed
qed simp

lemma validate_tokens_spec:
  assumes "matcher_ok ops" and "flag_ok ops g"
  shows "validate_tokens ops ts g = (legal_prefix ops (gr_matcher g) ts, g)"
proof (cases "gr_terminated g")
  case True
  with assms(2) show ?thesis by (simp add: validate_tokens_def flag_ok_def)
next
  case False
  obtain acc m' where v: "validate_loop ops ts (gr_matcher g) = (acc, m')" by fastforce
  from validate_loop_spec [OF assms(1) _ v] False assms(2)
  have s: "acc = legal_prefix ops (gr_matcher g) ts" "accepts_all ops (gr_matcher g) acc = Some m'" by (auto simp: flag_ok_def)
  then have "(if acc \<noteq> [] then mo_rollback ops (length acc) m' else m') = gr_matcher g"
    using matcher_okD(2) [OF assms(1) s(2)] by (cases acc) auto
  then have "rolled_back ops (acc, m') g = (acc, g)" unfolding rolled_back_def prod.case by simp
  with False v s(1) show ?thesis by (simp add: validate_tokens_def)
qed

lemma accept_loop_spec:
  assumes "matcher_ok ops" and "\<not> mo_terminated ops (gr_matcher g)" and "\<not> gr_terminated g" and "accept_loop ops ts g = (ok, g')"
  shows "accepts_all ops (gr_matcher g) (legal_prefix ops (gr_matcher g) ts) = Some (gr_matcher g') \<and> flag_ok ops g'
    \<and> gr_processed g' = gr_processed g + int (length (legal_prefix ops (gr_matcher g) ts))
    \<and> (ok \<longleftrightarrow> legal_prefix ops (gr_matcher g) ts = ts \<or> gr_terminated g')"
  using assms(2-4)
proof (induction ts arbitrary: g)
  case Nil
  then show ?case by (auto simp: flag_ok_def)
next
  case (Cons t ts)
  obtain b m1 where a: "mo_accept ops (gr_matcher g) t = (b, m1)" by (cases "mo_accept ops (gr_matcher g) t")
  show ?case
  proof (cases b)
    case True
    let ?g = "g\<lparr>gr_matcher := m1, gr_processed := gr_processed g + 1, gr_terminated := mo_terminated ops m1\<rparr>"
    show ?thesis
    proof (cases "mo_terminated ops m1")
      case t: True
      with True a Cons.prems show ?thesis by (auto simp: flag_ok_def Let_def)
    next
      case f: False
      with True a Cons.prems have "accept_loop ops ts ?g = (ok, g')" by (simp add: Let_def)
      from Cons.IH [OF _ _ this] f True a Cons.prems show ?thesis by simp
    qed
  next
    case False
    with a have "m1 = gr_matcher g" by (auto intro: matcher_okD(1) [OF assms(1)])
    with False a Cons.prems show ?thesis by (auto simp: flag_ok_def)
  qed
qed

lemma legal_prefix_idem [simp]: "legal_prefix ops m (legal_prefix ops m ts) = legal_prefix ops m ts"
  by (induction ts arbitrary: m) auto

lemma accept_tokens_spec:
  assumes "matcher_ok ops" and "flag_ok ops g" and "accept_tokens ops ts g = (ok, g')"
  shows "accepts_all ops (gr_matcher g) (legal_prefix ops (gr_matcher g) ts) = Some (gr_matcher g') \<and> flag_ok ops g'
    \<and> gr_processed g' = gr_processed g + int (length (legal_prefix ops (gr_matcher g) ts))
    \<and> (ok \<longleftrightarrow> legal_prefix ops (gr_matcher g) ts = ts \<or> gr_terminated g')"
proof (cases "gr_terminated g")
  case True
  with assms(2,3) have "mo_terminated ops (gr_matcher g)" "ok" "g' = g" by (auto simp: accept_tokens_def flag_ok_def)
  with assms(2) True show ?thesis by simp
next
  case False
  with assms(2,3) have "\<not> mo_terminated ops (gr_matcher g)" "accept_loop ops ts g = (ok, g')"
    by (auto simp: accept_tokens_def flag_ok_def)
  from accept_loop_spec [OF assms(1) this(1) False this(2)] show ?thesis .
qed

lemma flag_ok_unique:
  "flag_ok ops g \<Longrightarrow> flag_ok ops g' \<Longrightarrow> gr_matcher g = gr_matcher g' \<Longrightarrow> gr_processed g = gr_processed g' \<Longrightarrow> g = g'"
  by (rule grammar.equality) (auto simp: flag_ok_def)

lemma accept_validated:
  assumes "matcher_ok ops" and "flag_ok ops g" and "accept_tokens ops ts g = (ok, g')"
  shows "accept_tokens ops (legal_prefix ops (gr_matcher g) ts) g = (True, g')"
proof -
  obtain ok2 g2 where a: "accept_tokens ops (legal_prefix ops (gr_matcher g) ts) g = (ok2, g2)" by fastforce
  note s1 = accept_tokens_spec [OF assms] and s2 = accept_tokens_spec [OF assms(1,2) a, simplified]
  from s1 s2 have "g2 = g'" by (auto intro: flag_ok_unique)
  with a s2 show ?thesis by simp
qed

text \<open>(C11) A batch of tokens stops where the grammar ends. For a grammar whose flag agrees with its matcher, accepting a
  batch feeds the matcher exactly the longest legal prefix, cut after the token that terminates it: the flag
  agrees again, the counter grows by that many tokens, and the answer is False only for a token that was
  refused before the end. Validating the batch returns that same prefix and leaves the grammar as it was, and
  accepting what validation returned succeeds and gives the same state.\<close>

theorem batch_stops_at_end:
  assumes "matcher_ok ops" and "flag_ok ops g" and "accept_tokens ops ts g = (ok, g')"
  shows "let pre = legal_prefix ops (gr_matcher g) ts
    in accepts_all ops (gr_matcher g) pre = Some (gr_matcher g') \<and> flag_ok ops g'
       \<and> gr_processed g' = gr_processed g + int (length pre)
       \<and> (ok \<longleftrightarrow> pre = ts \<or> gr_terminated g')
       \<and> validate_tokens ops ts g = (pre, g) \<and> accept_tokens ops pre g = (True, g')"
  using accept_tokens_spec [OF assms] validate_tokens_spec [OF assms(1,2), of ts] accept_validated [OF assms]
  unfolding Let_def by blast

subsection \<open>The window of the manager\<close>

text \<open>The tokens of one speculative window, each with the two flags of its position.\<close>

fun manager_run :: "'m matcher_ops \<Rightarrow> (bool \<times> bool \<times> int) list \<Rightarrow> nat \<times> 'm grammar \<Rightarrow> (nat \<times> 'm grammar) res" where
  "manager_run ops [] st = Inr st"
| "manager_run ops ((advance, post, token) # es) st = res_bind (manager_step ops advance post token st) (manager_run ops es)"

text \<open>The grammar of a window that began with the matcher \<open>m\<close>: \<open>n\<close> tokens are on top of it.\<close>

definition advanced :: "'m matcher_ops \<Rightarrow> 'm \<Rightarrow> nat \<times> 'm grammar \<Rightarrow> bool" where
  "advanced ops m st \<longleftrightarrow> (case st of (n, g) \<Rightarrow>
     flag_ok ops g \<and> (\<exists>ts. length ts = n \<and> accepts_all ops m ts = Some (gr_matcher g)))"

lemma accepts_all_append:
  "accepts_all ops m (ts @ us) = (case accepts_all ops m ts of None \<Rightarrow> None | Some m \<Rightarrow> accepts_all ops m us)"
  by (induction ts arbitrary: m) (auto split: prod.splits bool.splits)

lemma advanced_snoc:
  assumes "advanced ops m (n, g)" and "accepts_all ops (gr_matcher g) [t] = Some (gr_matcher g')" and "flag_ok ops g'"
  shows "advanced ops m (n + 1, g')"
proof -
  from assms(1) obtain ts where "length ts = n" "accepts_all ops m ts = Some (gr_matcher g)" by (auto simp: advanced_def)
  with assms(2) have "length (ts @ [t]) = n + 1 \<and> accepts_all ops m (ts @ [t]) = Some (gr_matcher g')"
    by (simp add: accepts_all_append)
  with assms(3) show ?thesis unfolding advanced_def by blast
qed

lemma single_token:
  assumes "matcher_ok ops" and "flag_ok ops g" and "\<not> gr_terminated g" and "accept_tokens ops [t] g = (ok, g')"
  shows "(ok \<longrightarrow> legal_prefix ops (gr_matcher g) [t] = [t] \<and> accepts_all ops (gr_matcher g) [t] = Some (gr_matcher g'))
    \<and> (\<not> ok \<longrightarrow> legal_prefix ops (gr_matcher g) [t] = [] \<and> g' = g) \<and> flag_ok ops g'"
proof -
  note sp = accept_tokens_spec [OF assms(1,2,4)]
  show ?thesis
  proof (cases "legal_prefix ops (gr_matcher g) [t] = [t]")
    case True
    with sp show ?thesis by simp
  next
    case False
    then have "legal_prefix ops (gr_matcher g) [t] = []" by (auto split: if_splits)
    with sp assms(2) have "g' = g" by (auto intro: flag_ok_unique)
    with sp assms(3) False \<open>legal_prefix ops (gr_matcher g) [t] = []\<close> show ?thesis by simp
  qed
qed

lemma manager_step_cases:
  assumes "matcher_ok ops" and "advanced ops m st"
  shows "case manager_step ops advance post token st of
      Inl e \<Rightarrow> advance \<and> \<not> post \<and> e = AssertionError
    | Inr st' \<Rightarrow> advanced ops m st'"
proof -
  obtain n g where st: "st = (n, g)" by fastforce
  with assms(2) have fl: "flag_ok ops g" by (simp add: advanced_def)
  obtain ok g' where a: "accept_tokens ops [token] g = (ok, g')" by fastforce
  show ?thesis
  proof (cases "advance \<and> \<not> gr_terminated g")
    case True
    note one = single_token [OF assms(1) fl _ a]
    have v: "validate_tokens ops [token] g = (legal_prefix ops (gr_matcher g) [token], g)"
      by (rule validate_tokens_spec [OF assms(1) fl])
    show ?thesis
    proof (cases ok)
      case ok: True
      with one True have "advanced ops m (n + 1, g')" using assms(2) st by (intro advanced_snoc [of ops m n g token]) auto
      with ok one True a v st show ?thesis by (auto simp: manager_step_def)
    next
      case False
      with one True a v st assms(2) show ?thesis by (auto simp: manager_step_def)
    qed
  next
    case False
    with assms(2) st show ?thesis by (auto simp: manager_step_def)
  qed
qed

lemma manager_run_cases:
  assumes "matcher_ok ops" and "advanced ops m st"
  shows "case manager_run ops es st of
      Inl e \<Rightarrow> \<not> list_all (\<lambda>(advance, post, token). advance \<longrightarrow> post) es \<and> e = AssertionError
    | Inr st' \<Rightarrow> advanced ops m st'"
  using assms(2)
proof (induction es arbitrary: st)
  case (Cons e es)
  obtain advance post token where e: "e = (advance, post, token)" by (cases e)
  show ?case
  proof (cases "manager_step ops advance post token st")
    case (Inl x)
    with manager_step_cases [OF assms(1) Cons.prems, of advance post token] e show ?thesis by simp
  next
    case (Inr st1)
    with manager_step_cases [OF assms(1) Cons.prems, of advance post token] have "advanced ops m st1" by simp
    from Cons.IH [OF this] Inr e show ?thesis by (auto split: sum.splits)
  qed
qed simp

text \<open>Drafts made before the end of the reasoning cannot fail a step. Over a window of speculative tokens the
  count of advancements is the number of tokens the matcher holds on top of its state before the window, so that
  rolling back that many restores it; the flag agrees with the matcher throughout; and the assertion is only
  raised for a token that advances the grammar outside the part of the window after the end of the reasoning.\<close>

theorem window_counts_advancements:
  assumes "matcher_ok ops" and "flag_ok ops g"
  shows "case manager_run ops es (0, g) of
      Inl e \<Rightarrow> \<not> list_all (\<lambda>(advance, post, token). advance \<longrightarrow> post) es \<and> e = AssertionError
    | Inr (n, g') \<Rightarrow> flag_ok ops g' \<and> mo_rollback ops n (gr_matcher g') = gr_matcher g"
proof -
  have "accepts_all ops (gr_matcher g) [] = Some (gr_matcher g)" by simp
  with assms(2) have "advanced ops (gr_matcher g) (0, g)" unfolding advanced_def by blast
  from manager_run_cases [OF assms(1) this, of es] matcher_okD(2) [OF assms(1)] show ?thesis
    by (auto simp: advanced_def split: sum.splits prod.splits)
qed

text \<open>A reset makes the flag agree again, whatever state the grammar was in; before the backport the flag of a
  finished grammar survived the reset, and the grammar refused every token of the next round.\<close>

lemma reset_agrees: "matcher_ok ops \<Longrightarrow> flag_ok ops (grammar_reset ops g) \<and> gr_processed (grammar_reset ops g) = 0"
  by (simp add: flag_ok_def grammar_reset_def matcher_okD(3))

lemma old_reset_refuses:
  "gr_terminated g \<Longrightarrow> accept_tokens_old ops ts (grammar_reset_old ops g) = (False, grammar_reset_old ops g)"
  by (simp add: accept_tokens_old_def grammar_reset_old_def)

subsection \<open>The installer\<close>

definition backend_counts :: "string \<Rightarrow> nat list \<times> nat list" where
  "backend_counts t =
     (map (\<lambda>x. py_count x t) [XG_ACCEPT_OLD, XG_VALIDATE_OLD, XG_RESET_OLD],
      [py_count XG_ACCEPT_UPSTREAM t, py_count XG_VALIDATE_UPSTREAM t, py_count XG_RESET_UPSTREAM t])"

definition verified_backend_state :: "string \<Rightarrow> bool" where
  "verified_backend_state t \<longleftrightarrow> (case backend_counts t of (olds, news) \<Rightarrow> olds = [0, 0, 0] \<and> news = [1, 1, 1])"

definition verified_manager_state :: "string \<Rightarrow> bool" where
  "verified_manager_state t \<longleftrightarrow> py_count XG_MANAGER_OLD t = 0 \<and> py_count XG_MANAGER_UPSTREAM t = 1"

definition prepare_backend :: "string \<Rightarrow> string res" where
  "prepare_backend t =
     (let counts = backend_counts t; marker_count = py_count XG_BACKEND_MARK t
      in if marker_count \<noteq> 0 then (if marker_count \<noteq> 1 \<or> \<not> verified_backend_state t then Inl ValueError else Inr t)
         else if verified_backend_state t then Inr t
         else if fst counts \<noteq> [1, 1, 1] \<or> snd counts \<noteq> [0, 0, 0] then Inl ValueError
         else let patched = py_replace1 XG_ACCEPT_OLD (XG_BACKEND_MARK @ XG_ACCEPT_UPSTREAM) t;
                  patched = py_replace1 XG_VALIDATE_OLD XG_VALIDATE_UPSTREAM patched;
                  patched = py_replace1 XG_RESET_OLD XG_RESET_UPSTREAM patched
              in if \<not> verified_backend_state patched \<or> py_count XG_BACKEND_MARK patched \<noteq> 1 then Inl ValueError else Inr patched)"

definition prepare_manager :: "string \<Rightarrow> string res" where
  "prepare_manager t =
     (let old = py_count XG_MANAGER_OLD t; new = py_count XG_MANAGER_UPSTREAM t; marker_count = py_count XG_MANAGER_MARK t
      in if marker_count \<noteq> 0 then (if marker_count \<noteq> 1 \<or> \<not> verified_manager_state t then Inl ValueError else Inr t)
         else if verified_manager_state t then Inr t
         else if old \<noteq> 1 \<or> new \<noteq> 0 then Inl ValueError
         else let patched = py_replace1 XG_MANAGER_OLD (XG_MANAGER_MARK @ XG_MANAGER_UPSTREAM) t
              in if \<not> verified_manager_state patched \<or> py_count XG_MANAGER_MARK patched \<noteq> 1 then Inl ValueError else Inr patched)"

definition BACKEND_PY :: string where "BACKEND_PY = ''v1/structured_output/backend_xgrammar.py''"
definition OUTPUT_PY :: string where "OUTPUT_PY = ''v1/structured_output/__init__.py''"

text \<open>Both files are read, prepared and compiled before either is written.\<close>

definition xgrammar_main :: "(string \<Rightarrow> bool) \<Rightarrow> file_system \<Rightarrow> unit res \<times> file_system" where
  "xgrammar_main parses fs =
     (case (fs BACKEND_PY, fs OUTPUT_PY) of
        (Some backend_source, Some manager_source) \<Rightarrow>
          (case (prepare_backend backend_source, prepare_manager manager_source) of
             (Inr backend_patched, Inr manager_patched) \<Rightarrow>
               if \<not> parses backend_patched \<or> \<not> parses manager_patched then (Inl SyntaxError, fs)
               else let fs = (if backend_patched \<noteq> backend_source then fs(BACKEND_PY \<mapsto> backend_patched) else fs);
                        fs = (if manager_patched \<noteq> manager_source then fs(OUTPUT_PY \<mapsto> manager_patched) else fs)
                    in (Inr (), fs)
           | _ \<Rightarrow> (Inl SystemExit, fs))
      | _ \<Rightarrow> (Inl SystemExit, fs))"

definition backend_done :: "string \<Rightarrow> bool" where
  "backend_done t \<longleftrightarrow> verified_backend_state t \<and> py_count XG_BACKEND_MARK t \<le> 1"

definition manager_done :: "string \<Rightarrow> bool" where
  "manager_done t \<longleftrightarrow> verified_manager_state t \<and> py_count XG_MANAGER_MARK t \<le> 1"

interpretation backend_inst: installer prepare_backend backend_done
  by unfold_locales (auto simp: prepare_backend_def backend_done_def Let_def split: if_splits)

interpretation manager_inst: installer prepare_manager manager_done
  by unfold_locales (auto simp: prepare_manager_def manager_done_def Let_def split: if_splits)

interpretation xgrammar_boot: atomic_boot "xgrammar_main parses"
    "\<lambda>fs. \<exists>b m. fs BACKEND_PY = Some b \<and> fs OUTPUT_PY = Some m \<and> backend_done b \<and> manager_done m \<and> parses b \<and> parses m"
  for parses
proof unfold_locales
  show "fs' = fs" if "xgrammar_main parses fs = (Inl e, fs')" for fs e fs'
    using that by (auto simp: xgrammar_main_def Let_def split: option.splits sum.splits if_splits)
next
  fix fs fs'
  assume "xgrammar_main parses fs = (Inr (), fs')"
  moreover have "BACKEND_PY \<noteq> OUTPUT_PY" by (simp add: BACKEND_PY_def OUTPUT_PY_def)
  ultimately show "\<exists>b m. fs' BACKEND_PY = Some b \<and> fs' OUTPUT_PY = Some m \<and> backend_done b \<and> manager_done m \<and> parses b \<and> parses m"
    using backend_inst.installs manager_inst.installs
    by (auto simp: xgrammar_main_def Let_def split: option.splits sum.splits if_splits)
next
  fix fs
  assume "\<exists>b m. fs BACKEND_PY = Some b \<and> fs OUTPUT_PY = Some m \<and> backend_done b \<and> manager_done m \<and> parses b \<and> parses m"
  then show "xgrammar_main parses fs = (Inr (), fs)"
    using backend_inst.noop manager_inst.noop by (auto simp: xgrammar_main_def)
qed

subsection \<open>Witnesses\<close>

text \<open>A matcher over the tokens it has taken, the last one first: 0 ends, 1 and 2 are legal, the rest is refused.\<close>

definition demo_matcher :: "int list matcher_ops" where
  "demo_matcher = \<lparr>mo_accept = (\<lambda>m t. if m \<noteq> [] \<and> hd m = 0 \<or> t \<notin> {0, 1, 2} then (False, m) else (True, t # m)),
     mo_terminated = (\<lambda>m. m \<noteq> [] \<and> hd m = 0), mo_rollback = drop, mo_reset = (\<lambda>m. [])\<rparr>"

lemma demo_accepts_all: "accepts_all demo_matcher m ts = Some m' \<Longrightarrow> m' = rev ts @ m"
  by (induction ts arbitrary: m) (auto simp: demo_matcher_def split: if_splits)

lemma demo_matcher_ok: "matcher_ok demo_matcher"
proof -
  have "mo_rollback demo_matcher (length ts) m' = m" if "accepts_all demo_matcher m ts = Some m'" for m ts m'
    using demo_accepts_all [OF that] by (simp add: demo_matcher_def)
  then show ?thesis unfolding matcher_ok_def by (auto simp: demo_matcher_def split: if_splits)
qed

definition demo_grammar :: "int list grammar" where
  "demo_grammar = \<lparr>gr_matcher = [], gr_processed = 0, gr_terminated = False\<rparr>"

lemma demo_flag_ok: "flag_ok demo_matcher demo_grammar"
  by (simp add: flag_ok_def demo_grammar_def demo_matcher_def)

text \<open>Before the backport a batch that goes on behind the end is refused, with the flag left behind.\<close>

lemma old_batch_overruns:
  "accept_tokens_old demo_matcher [1, 0, 2] demo_grammar = (False, \<lparr>gr_matcher = [0, 1], gr_processed = 2, gr_terminated = False\<rparr>)"
  by (simp add: accept_tokens_old_def demo_grammar_def demo_matcher_def)

lemma demo_batch: "accept_tokens demo_matcher [1, 0, 2] demo_grammar = (True, \<lparr>gr_matcher = [0, 1], gr_processed = 2, gr_terminated = True\<rparr>)"
  by (simp add: accept_tokens_def demo_grammar_def demo_matcher_def)

theorem batch_stops_at_end_witness: "validate_tokens demo_matcher [1, 0, 2] demo_grammar = ([1, 0], demo_grammar)"
  using batch_stops_at_end [OF demo_matcher_ok demo_flag_ok demo_batch]
  by (simp add: Let_def demo_grammar_def demo_matcher_def)

theorem window_counts_advancements_witness:
  "manager_run demo_matcher [(True, True, 7), (True, True, 1)] (0, demo_grammar) = Inr (1, \<lparr>gr_matcher = [1], gr_processed = 1, gr_terminated = False\<rparr>)
    \<and> drop 1 [1] = gr_matcher demo_grammar"
proof -
  have r: "manager_run demo_matcher [(True, True, 7), (True, True, 1)] (0, demo_grammar) = Inr (1, \<lparr>gr_matcher = [1], gr_processed = 1, gr_terminated = False\<rparr>)"
    by (simp add: manager_step_def validate_tokens_def rolled_back_def accept_tokens_def demo_grammar_def demo_matcher_def)
  with window_counts_advancements [OF demo_matcher_ok demo_flag_ok, of "[(True, True, 7), (True, True, 1)]"] show ?thesis
    by (simp add: demo_matcher_def)
qed

end
