(* ===== verification/Indexer_Workspace.thy ===== *)
theory Indexer_Workspace
  imports Py_Text
begin

text \<open>
  The gather workspace of the sparse indexer, \<^verbatim>\<open>overlay/patch_indexer_workspace.py\<close>: the mode and the size
  of the workspace, the splitter of a prefill batch into chunks that fit, and the two guards in front of the
  gather. Lengths are Python integers; the batch is given by the compressed sequence length and the query
  length of each request.
\<close>

subsection \<open>The size\<close>

record workspace_config =
  wc_max_model_len :: int
  wc_max_num_seqs :: int
  wc_num_speculative_tokens :: "pyval option"

definition STOCK_MULTIPLIER :: int where "STOCK_MULTIPLIER = 40"

definition get_max_prefill_buffer_size :: "workspace_config \<Rightarrow> int" where
  "get_max_prefill_buffer_size c = wc_max_model_len c * STOCK_MULTIPLIER"

datatype workspace_mode = Stock | Rightsize

definition glm53_workspace_mode :: "environ \<Rightarrow> workspace_mode res" where
  "glm53_workspace_mode env =
     (case env ''GLM53_INDEXER_WORKSPACE'' of
        None \<Rightarrow> Inr Stock
      | Some raw \<Rightarrow> if raw = ''stock'' then Inr Stock else if raw = ''rightsize'' then Inr Rightsize else Inl ValueError)"

definition workspace_entries :: "environ \<Rightarrow> workspace_config \<Rightarrow> int \<Rightarrow> int res" where
  "workspace_entries env c index_kpool =
     (let stock = get_max_prefill_buffer_size c
      in res_bind (glm53_workspace_mode env) (\<lambda>mode.
           if mode = Stock then Inr stock
           else if index_kpool \<le> 1 then Inl ValueError
           else if wc_max_model_len c \<le> 0 \<or> wc_max_num_seqs c \<le> 0 then Inl ValueError
           else res_bind (py_int_or0 (wc_num_speculative_tokens c)) (\<lambda>num_spec.
                  let span = wc_max_model_len c + max 0 num_spec;
                      per_req = - ((- span) div index_kpool);
                      entries = per_req * wc_max_num_seqs c
                  in if entries \<ge> stock then Inl ValueError else Inr entries)))"

subsection \<open>The splitter\<close>

type_synonym span = "nat \<times> nat"

text \<open>The inner loop: requests are added to the chunk while the gather fits and the logits fit.\<close>

function fill_chunk :: "int list \<Rightarrow> int list \<Rightarrow> int \<Rightarrow> int \<Rightarrow> nat \<Rightarrow> int \<Rightarrow> int \<Rightarrow> (nat \<times> int \<times> int) res" where
  "fill_chunk ss qs ws elems stop chunk_m chunk_n =
     (if stop < length ss
      then if length qs \<le> stop then Inl IndexError
           else let new_m = chunk_m + qs ! stop; new_n = chunk_n + ss ! stop
                in if new_n \<le> ws \<and> new_m * new_n \<le> elems then fill_chunk ss qs ws elems (Suc stop) new_m new_n
                   else Inr (stop, chunk_m, chunk_n)
      else Inr (stop, chunk_m, chunk_n))"
  by pat_completeness auto
termination
  by (relation "measure (\<lambda>(ss, qs, ws, elems, stop, m, n). length ss - stop)") auto

declare fill_chunk.simps [simp del]

text \<open>One chunk of requests from \<open>start\<close>: a request too wide for the logits is taken alone, one too wide for
  the workspace is refused.\<close>

definition next_chunk :: "int list \<Rightarrow> int list \<Rightarrow> int \<Rightarrow> int \<Rightarrow> nat \<Rightarrow> (nat \<times> int \<times> int) res" where
  "next_chunk ss qs ws elems start =
     (case fill_chunk ss qs ws elems start 0 0 of
        Inl e \<Rightarrow> Inl e
      | Inr (stop, chunk_m, chunk_n) \<Rightarrow>
          res_bind (if stop = start
                    then if ws < ss ! stop then Inl ValueError else Inr (Suc stop, qs ! stop, ss ! stop)
                    else Inr (stop, chunk_m, chunk_n))
            (\<lambda>(stop, chunk_m, chunk_n). if ws < chunk_n then Inl AssertionError else Inr (stop, chunk_m, chunk_n)))"

text \<open>\<open>range(0, stop, step)\<close> for a positive step.\<close>

definition py_range :: "int \<Rightarrow> int \<Rightarrow> int list" where
  "py_range stop step = map (\<lambda>k. int k * step) [0..<nat ((stop + step - 1) div step)]"

definition sub_chunks :: "int \<Rightarrow> int \<Rightarrow> int \<Rightarrow> (int \<times> int) list" where
  "sub_chunks elems chunk_m chunk_n =
     (let max_q = (if 0 < chunk_n then max 1 (elems div chunk_n) else max 1 chunk_m)
      in map (\<lambda>q_off. (q_off, q_off + min max_q (chunk_m - q_off))) (py_range chunk_m max_q))"

text \<open>What is in a slice of the batch.\<close>

definition seg :: "int list \<Rightarrow> nat \<Rightarrow> nat \<Rightarrow> int" where
  "seg xs a b = sum_list (drop a (take b xs))"

lemma seg_same [simp]: "seg xs a a = 0"
  by (simp add: seg_def)

lemma seg_step: "a < b \<Longrightarrow> b \<le> length xs \<Longrightarrow> seg xs a b = xs ! a + seg xs (Suc a) b"
proof -
  assume "a < b" and "b \<le> length xs"
  moreover from this have "b - a = Suc (b - Suc a)" by simp
  ultimately show ?thesis by (simp add: seg_def drop_take flip: Cons_nth_drop_Suc)
qed

lemma fill_chunk_step:
  assumes "stop < length ss" and "stop < length qs"
    and "chunk_n + ss ! stop \<le> ws" and "(chunk_m + qs ! stop) * (chunk_n + ss ! stop) \<le> elems"
  shows "fill_chunk ss qs ws elems stop chunk_m chunk_n = fill_chunk ss qs ws elems (Suc stop) (chunk_m + qs ! stop) (chunk_n + ss ! stop)"
  using assms by (subst fill_chunk.simps) (simp add: Let_def)

lemma fill_chunk_stop:
  assumes "stop < length ss" and "stop < length qs"
    and "\<not> (chunk_n + ss ! stop \<le> ws \<and> (chunk_m + qs ! stop) * (chunk_n + ss ! stop) \<le> elems)"
  shows "fill_chunk ss qs ws elems stop chunk_m chunk_n = Inr (stop, chunk_m, chunk_n)"
  using assms by (subst fill_chunk.simps) (auto simp: Let_def)

lemma fill_chunk_spec:
  assumes "fill_chunk ss qs ws elems stop chunk_m chunk_n = Inr (e, m, n)"
    and "stop \<le> length ss"
  shows "stop \<le> e \<and> e \<le> length ss \<and> (stop < e \<longrightarrow> n \<le> ws \<and> e \<le> length qs \<and> m = chunk_m + seg qs stop e \<and> n = chunk_n + seg ss stop e)
    \<and> (stop = e \<longrightarrow> m = chunk_m \<and> n = chunk_n)"
  using assms
proof (induction "length ss - stop" arbitrary: stop chunk_m chunk_n)
  case 0
  then show ?case by (subst (asm) fill_chunk.simps) auto
next
  case (Suc k)
  then have lt: "stop < length ss" by simp
  from Suc.prems(1) lt have lq: "stop < length qs" by (subst (asm) fill_chunk.simps) (auto split: if_splits)
  show ?case
  proof (cases "chunk_n + ss ! stop \<le> ws \<and> (chunk_m + qs ! stop) * (chunk_n + ss ! stop) \<le> elems")
    case True
    with Suc.prems(1) lt lq have f: "fill_chunk ss qs ws elems (Suc stop) (chunk_m + qs ! stop) (chunk_n + ss ! stop) = Inr (e, m, n)"
      by (simp add: fill_chunk_step)
    have ih: "Suc stop \<le> e \<and> e \<le> length ss \<and> (Suc stop < e \<longrightarrow> n \<le> ws \<and> e \<le> length qs \<and> m = chunk_m + qs ! stop + seg qs (Suc stop) e
        \<and> n = chunk_n + ss ! stop + seg ss (Suc stop) e) \<and> (Suc stop = e \<longrightarrow> m = chunk_m + qs ! stop \<and> n = chunk_n + ss ! stop)"
    proof -
      have "k = length ss - Suc stop" and "Suc stop \<le> length ss" using Suc.hyps(2) lt by simp_all
      from Suc.hyps(1) [OF this(1) f this(2)] show ?thesis .
    qed
    then show ?thesis using True lq seg_step [of stop e qs] seg_step [of stop e ss] by (cases "Suc stop = e") auto
  next
    case False
    with Suc.prems(1) lt lq show ?thesis by (simp add: fill_chunk_stop)
  qed
qed

lemma fill_chunk_ge: "fill_chunk ss qs ws elems stop m n = Inr (stop', m', n') \<Longrightarrow> stop \<le> stop'"
  using fill_chunk_spec [of ss qs ws elems stop m n stop' m' n']
  by (cases "stop \<le> length ss") (simp, subst (asm) fill_chunk.simps, simp)

lemma next_chunk_gt: "next_chunk ss qs ws elems start = Inr (stop, m, n) \<Longrightarrow> start < stop"
  by (auto simp: next_chunk_def split: sum.splits if_splits dest: fill_chunk_ge)

function split_from :: "int list \<Rightarrow> int list \<Rightarrow> int \<Rightarrow> int \<Rightarrow> nat \<Rightarrow> (span \<times> int \<times> int) list res" where
  "split_from ss qs ws elems start =
     (if start < length ss
      then case next_chunk ss qs ws elems start of
             Inl e \<Rightarrow> Inl e
           | Inr (stop, chunk_m, chunk_n) \<Rightarrow>
               (case split_from ss qs ws elems stop of
                  Inl e \<Rightarrow> Inl e
                | Inr rest \<Rightarrow> Inr (map (Pair (start, stop)) (sub_chunks elems chunk_m chunk_n) @ rest))
      else Inr [])"
  by pat_completeness auto
termination
  by (relation "measure (\<lambda>(ss, qs, ws, elems, start). length ss - start)") (auto dest: next_chunk_gt)

declare split_from.simps [simp del]

definition split_prefill_chunks :: "int list \<Rightarrow> int list \<Rightarrow> int \<Rightarrow> int \<Rightarrow> (span \<times> int \<times> int) list res" where
  "split_prefill_chunks compressed_seq_lens query_lens workspace_size max_logits_bytes =
     split_from compressed_seq_lens query_lens workspace_size (max_logits_bytes div 4) 0"

subsection \<open>The guards\<close>

definition metadata_guard :: "int \<Rightarrow> int \<Rightarrow> unit res" where
  "metadata_guard max_prefill_buffer_size total_seq_lens =
     (if total_seq_lens > max_prefill_buffer_size then Inl AssertionError else Inr ())"

definition gather_guard :: "int \<Rightarrow> int \<Rightarrow> int \<Rightarrow> unit res" where
  "gather_guard index_kpool allocated chunk_total =
     (if index_kpool > 1 \<and> chunk_total > allocated then Inl ValueError else Inr ())"

subsection \<open>What the splitter does\<close>

lemma seg_split: "a \<le> b \<Longrightarrow> b \<le> c \<Longrightarrow> seg xs a c = seg xs a b + seg xs b c"
proof -
  assume "a \<le> b" "b \<le> c"
  then obtain k where c: "c = b + k" using le_Suc_ex by blast
  have "drop a (take c xs) = drop a (take b xs) @ take k (drop b xs)"
    using \<open>a \<le> b\<close> by (cases "b \<le> length xs") (simp_all add: c take_add)
  then show ?thesis by (simp add: seg_def c drop_take)
qed

lemma seg_nonneg: "list_all ((\<le>) 0) xs \<Longrightarrow> 0 \<le> seg xs a b"
  unfolding seg_def by (rule sum_list_nonneg) (auto simp: list_all_iff dest: in_set_takeD in_set_dropD)

lemma seg_mono:
  assumes "list_all ((\<le>) 0) xs" and "a' \<le> a" "a \<le> b" "b \<le> b'"
  shows "seg xs a b \<le> seg xs a' b'"
  using seg_split [of a' a b' xs] seg_split [of a b b' xs] seg_nonneg [OF assms(1)] assms(2-)
  by (smt (verit) le_trans)

lemma seg_one: "j < length xs \<Longrightarrow> seg xs j (Suc j) = xs ! j"
  by (simp add: seg_step)

lemma fill_chunk_total: "length ss \<le> length qs \<Longrightarrow> fill_chunk ss qs ws elems stop m n \<noteq> Inl e"
proof (induction "length ss - stop" arbitrary: stop m n)
  case 0
  then show ?case by (subst fill_chunk.simps) auto
next
  case (Suc k)
  then show ?case by (subst fill_chunk.simps) (auto simp: Let_def)
qed

lemma next_chunk_ok:
  assumes "next_chunk ss qs ws elems start = Inr (stop, m, n)" and "start < length ss" and "length qs = length ss"
  shows "start < stop \<and> stop \<le> length ss \<and> m = seg qs start stop \<and> n = seg ss start stop \<and> n \<le> ws"
proof -
  from assms(1) obtain e m' n' where f: "fill_chunk ss qs ws elems start 0 0 = Inr (e, m', n')"
    by (auto simp: next_chunk_def split: sum.splits)
  from fill_chunk_spec [OF f] assms f show ?thesis
    by (auto simp: next_chunk_def seg_one Suc_le_eq split: if_splits)
qed

lemma next_chunk_refuses:
  assumes "next_chunk ss qs ws elems start = Inl x" and "start < length ss" and "length qs = length ss"
  shows "x = ValueError \<and> ws < ss ! start"
proof -
  obtain e m' n' where f: "fill_chunk ss qs ws elems start 0 0 = Inr (e, m', n')"
    using fill_chunk_total [of ss qs ws elems start 0 0] assms(3) by (cases "fill_chunk ss qs ws elems start 0 0") auto
  from fill_chunk_spec [OF f] assms f show ?thesis by (auto simp: next_chunk_def split: if_splits)
qed

text \<open>The query rows of a chunk of requests, cut into pieces, in order and without gaps.\<close>

lemma range_tiles:
  assumes "1 \<le> step" and "0 \<le> m"
  shows "concat (map (\<lambda>q. [c + q..c + (q + min step (m - q)) - 1]) (py_range m step)) = [c..c + m - 1]"
proof -
  let ?t = "\<lambda>k. (\<lambda>q. [c + q..c + (q + min step (m - q)) - 1]) (int k * step)"
  have "concat (map ?t [0..<k]) = [c..c + min (int k * step) m - 1]" if "int k \<le> (m + step - 1) div step" for k
    using that
  proof (induction k)
    case 0
    then show ?case using assms(2) by simp
  next
    case (Suc k)
    have "(int k + 1) * step \<le> (m + step - 1) div step * step" using Suc.prems assms(1) by (intro mult_right_mono) auto
    also have "\<dots> \<le> m + step - 1" using floor_to_le [of step "m + step - 1"] assms(1) by (simp add: floor_to_def)
    finally have lt: "int k * step < m" by (simp add: algebra_simps)
    have m: "int k * step + min step (m - int k * step) = min (int (Suc k) * step) m" by (simp add: algebra_simps min_def)
    from Suc have "concat (map ?t [0..<Suc k]) = [c..c + int k * step - 1] @ [c + int k * step..c + min (int (Suc k) * step) m - 1]"
      using lt m by (simp add: add.assoc)
    also have "\<dots> = [c..c + min (int (Suc k) * step) m - 1]"
      using lt assms(1) by (intro upto_split1 [symmetric]) (auto simp: algebra_simps min_def)
    finally show ?case .
  qed
  note tiles = this
  have "0 \<le> (m + step - 1) div step" using assms by (simp add: pos_imp_zdiv_nonneg_iff)
  moreover have "m \<le> (m + step - 1) div step * step"
    using floor_to_gt [of step "m + step - 1"] assms(1) by (simp add: floor_to_def)
  ultimately show ?thesis using tiles [of "nat ((m + step - 1) div step)"] by (simp add: py_range_def comp_def)
qed

lemma sub_chunks_tile:
  "0 \<le> m \<Longrightarrow> concat (map (\<lambda>(x, y). [c + x..c + y - 1]) (sub_chunks elems m n)) = [c..c + m - 1]"
  using range_tiles [of "if 0 < n then max 1 (elems div n) else max 1 m" m c]
  by (simp add: sub_chunks_def Let_def comp_def)

text \<open>A piece has at least one query row, at most the rows of its requests, and its logits fit unless it is one row.\<close>

lemma sub_chunks_bounds:
  assumes "(x, y) \<in> set (sub_chunks elems m n)" and "0 \<le> n"
  shows "0 \<le> x \<and> x < y \<and> y \<le> m \<and> (n = 0 \<or> (y - x) * n \<le> elems \<or> y = x + 1)"
proof -
  define step where "step = (if 0 < n then max 1 (elems div n) else max 1 m)"
  have "sub_chunks elems m n = map (\<lambda>q. (q, q + min step (m - q))) (py_range m step)"
    by (simp add: sub_chunks_def step_def Let_def)
  with assms(1) obtain k where k: "k < nat ((m + step - 1) div step)" and x: "x = int k * step" and y: "y = x + min step (m - x)"
    by (auto simp: py_range_def)
  have pos: "1 \<le> step" by (simp add: step_def)
  have "(int k + 1) * step \<le> (m + step - 1) div step * step" using k pos by (intro mult_right_mono) auto
  also have "\<dots> \<le> m + step - 1" using floor_to_le [of step "m + step - 1"] pos by (simp add: floor_to_def)
  finally have lt: "x < m" unfolding x by (simp add: distrib_right)
  have "0 \<le> x" unfolding x using pos by simp
  moreover have "(y - x) * n \<le> elems \<or> y = x + 1" if "0 < n"
  proof (cases "1 \<le> elems div n")
    case True
    then have "y - x \<le> elems div n" using y that by (simp add: step_def)
    with that have "(y - x) * n \<le> elems div n * n" by (intro mult_right_mono) auto
    also have "\<dots> \<le> elems" using floor_to_le [of n elems] that by (simp add: floor_to_def)
    finally show ?thesis by simp
  next
    case False
    with that have "step = 1" by (simp add: step_def)
    with y lt show ?thesis by simp
  qed
  moreover have "x < y" "y \<le> m" using lt y pos by auto
  ultimately show ?thesis using assms(2) by (cases "n = 0") auto
qed

text \<open>The rows of the whole batch that a piece covers.\<close>

definition piece_rows :: "int list \<Rightarrow> span \<times> int \<times> int \<Rightarrow> int list" where
  "piece_rows qs p = (case p of ((a, b), (x, y)) \<Rightarrow> [seg qs 0 a + x..seg qs 0 a + y - 1])"

definition piece_ok :: "int list \<Rightarrow> int list \<Rightarrow> int \<Rightarrow> int \<Rightarrow> span \<times> int \<times> int \<Rightarrow> bool" where
  "piece_ok ss qs ws elems p = (case p of ((a, b), (x, y)) \<Rightarrow>
     a < b \<and> b \<le> length ss \<and> seg ss a b \<le> ws \<and> 0 \<le> x \<and> x < y \<and> y \<le> seg qs a b
     \<and> (seg ss a b = 0 \<or> (y - x) * seg ss a b \<le> elems \<or> y = x + 1))"

lemma split_from_ok:
  assumes "split_from ss qs ws elems start = Inr ps" and "length qs = length ss"
    and "list_all ((\<le>) 0) ss" "list_all ((\<le>) 0) qs" and "start \<le> length ss"
  shows "list_all (piece_ok ss qs ws elems) ps \<and> concat (map (piece_rows qs) ps) = [seg qs 0 start..seg qs 0 (length ss) - 1]
    \<and> (\<forall>j. start \<le> j \<longrightarrow> j < length ss \<longrightarrow> ss ! j \<le> ws)"
  using assms(1,5)
proof (induction "length ss - start" arbitrary: start ps rule: less_induct)
  case less
  show ?case
  proof (cases "start < length ss")
    case True
    obtain stop m n rest where nx: "next_chunk ss qs ws elems start = Inr (stop, m, n)"
      and r: "split_from ss qs ws elems stop = Inr rest" and ps: "ps = map (Pair (start, stop)) (sub_chunks elems m n) @ rest"
      using less.prems(1) True by (subst (asm) split_from.simps) (auto split: sum.splits prod.splits)
    note ok = next_chunk_ok [OF nx True assms(2)]
    have ih: "list_all (piece_ok ss qs ws elems) rest" "concat (map (piece_rows qs) rest) = [seg qs 0 stop..seg qs 0 (length ss) - 1]"
      "\<forall>j. stop \<le> j \<longrightarrow> j < length ss \<longrightarrow> ss ! j \<le> ws"
      using less.hyps [OF _ r] ok True by auto
    have n0: "0 \<le> n" and m0: "0 \<le> m" using ok seg_nonneg assms(3,4) by simp_all
    have "list_all (piece_ok ss qs ws elems) (map (Pair (start, stop)) (sub_chunks elems m n))"
      using sub_chunks_bounds [of _ _ elems m n] n0 ok by (auto simp: list_all_iff piece_ok_def)
    moreover have "concat (map (piece_rows qs) (map (Pair (start, stop)) (sub_chunks elems m n))) = [seg qs 0 start..seg qs 0 stop - 1]"
      using sub_chunks_tile [OF m0, of "seg qs 0 start" elems n] ok seg_split [of 0 start stop qs]
      by (simp add: piece_rows_def comp_def case_prod_unfold)
    moreover have "[seg qs 0 start..seg qs 0 (length ss) - 1] = [seg qs 0 start..seg qs 0 stop - 1] @ [seg qs 0 stop..seg qs 0 (length ss) - 1]"
      using seg_mono [OF assms(4), of 0 0 start stop] seg_mono [OF assms(4), of 0 0 stop "length ss"] ok
      by (cases "seg qs 0 stop = seg qs 0 (length ss)") (auto intro: upto_split1)
    moreover have le: "ss ! j \<le> ws" if "start \<le> j" "j < stop" for j
      using seg_mono [OF assms(3), of start j "Suc j" stop] seg_one [of j ss] that ok by simp
    moreover have "\<forall>j. start \<le> j \<longrightarrow> j < length ss \<longrightarrow> ss ! j \<le> ws" using le ih(3) by (metis not_le)
    ultimately show ?thesis using ih ps by simp
  next
    case False
    with less.prems show ?thesis by (subst (asm) split_from.simps) auto
  qed
qed

lemma split_from_refuses:
  assumes "split_from ss qs ws elems start = Inl e" and "length qs = length ss"
  shows "e = ValueError \<and> (\<exists>j < length ss. ws < ss ! j)"
  using assms(1)
proof (induction "length ss - start" arbitrary: start rule: less_induct)
  case less
  from less.prems have lt: "start < length ss" by (subst (asm) split_from.simps) (auto split: if_splits)
  show ?case
  proof (cases "next_chunk ss qs ws elems start")
    case (Inl x)
    with less.prems lt have "e = x" by (subst (asm) split_from.simps) simp
    with next_chunk_refuses [OF Inl lt assms(2)] lt show ?thesis by blast
  next
    case (Inr r)
    obtain stop m n where r: "r = (stop, m, n)" by (cases r)
    from less.prems lt Inr r have "split_from ss qs ws elems stop = Inl e" by (subst (asm) split_from.simps) (auto split: sum.splits)
    moreover have "start < stop" using next_chunk_gt Inr r by blast
    ultimately show ?thesis using less.hyps [of stop] lt by simp
  qed
qed

lemma split_prefill_chunks_spec:
  assumes "length qs = length ss" and "list_all ((\<le>) 0) ss" and "list_all ((\<le>) 0) qs"
  shows "case split_prefill_chunks ss qs ws bytes of
      Inl e \<Rightarrow> e = ValueError \<and> (\<exists>s \<in> set ss. ws < s)
    | Inr ps \<Rightarrow> list_all ((\<ge>) ws) ss \<and> concat (map (piece_rows qs) ps) = [0..sum_list qs - 1]
        \<and> list_all (piece_ok ss qs ws (bytes div 4)) ps"
proof (cases "split_prefill_chunks ss qs ws bytes")
  case (Inl e)
  with split_from_refuses [of ss qs ws "bytes div 4" 0 e] assms(1) show ?thesis
    by (auto simp: split_prefill_chunks_def)
next
  case (Inr ps)
  from split_from_ok [of ss qs ws "bytes div 4" 0 ps] Inr assms
  have "list_all (piece_ok ss qs ws (bytes div 4)) ps" "concat (map (piece_rows qs) ps) = [0..seg qs 0 (length ss) - 1]"
    "\<forall>j < length ss. ss ! j \<le> ws" by (simp_all add: split_prefill_chunks_def)
  with Inr assms(1) show ?thesis by (simp add: seg_def list_all_length flip: assms(1))
qed

text \<open>(C9) The splitter covers the batch. For a batch with non-negative lengths the splitter raises (a ValueError,
  never the assertion) exactly if one request alone is wider than the workspace; otherwise the pieces cover
  every query row of the batch exactly once and in order, no chunk of requests gathers more than the
  workspace holds, and the logits of a piece fit their budget unless the piece is a single row.\<close>

theorem splitter_covers_batch:
  assumes "length qs = length ss" and "list_all ((\<le>) 0) ss" and "list_all ((\<le>) 0) qs"
  shows "case split_prefill_chunks ss qs ws bytes of
      Inl e \<Rightarrow> e = ValueError \<and> (\<exists>s \<in> set ss. ws < s)
    | Inr ps \<Rightarrow> list_all ((\<ge>) ws) ss \<and> concat (map (piece_rows qs) ps) = [0..sum_list qs - 1]
        \<and> list_all (piece_ok ss qs ws (bytes div 4)) ps"
  using assms by (rule split_prefill_chunks_spec)

subsection \<open>The right-sized workspace\<close>

text \<open>The length of a sequence of \<open>len\<close> tokens in pooled entries, rounded up.\<close>

definition compressed :: "int \<Rightarrow> int \<Rightarrow> int" where
  "compressed index_kpool len = - ((- len) div index_kpool)"

lemma compressed_mono: "0 < k \<Longrightarrow> x \<le> y \<Longrightarrow> compressed k x \<le> compressed k y"
  by (simp add: compressed_def zdiv_mono1)

lemma compressed_nonneg: "0 < k \<Longrightarrow> 0 \<le> x \<Longrightarrow> 0 \<le> compressed k x"
  using compressed_mono [of k 0 x] by (simp add: compressed_def)

lemma sum_list_bounded:
  fixes xs :: "int list"
  assumes "list_all ((\<ge>) b) xs"
  shows "sum_list xs \<le> int (length xs) * b"
  using assms by (induction xs) (auto simp: algebra_simps)

lemma workspace_entries_Inr:
  assumes "workspace_entries env c kpool = Inr entries" and "glm53_workspace_mode env = Inr Rightsize"
  obtains num_spec where "py_int_or0 (wc_num_speculative_tokens c) = Inr num_spec" and "1 < kpool"
    and "0 < wc_max_model_len c" and "0 < wc_max_num_seqs c" and "entries < get_max_prefill_buffer_size c"
    and "entries = compressed kpool (wc_max_model_len c + max 0 num_spec) * wc_max_num_seqs c"
  using assms by (auto simp: workspace_entries_def compressed_def Let_def res_bind_Inr split: if_splits)

lemma batch_fits:
  assumes "list_all (\<lambda>s. s \<le> compressed kpool width) ss" and "int (length ss) \<le> seqs" and "0 < kpool" and "0 \<le> width"
  shows "sum_list ss \<le> compressed kpool width * seqs"
proof -
  from assms(1) have "sum_list ss \<le> int (length ss) * compressed kpool width" by (intro sum_list_bounded) (simp add: list_all_iff)
  also have "\<dots> \<le> seqs * compressed kpool width" using assms(2-) by (intro mult_right_mono compressed_nonneg) auto
  finally show ?thesis by (simp add: mult.commute)
qed

text \<open>(C28) The right-sized workspace holds every batch. Whenever the right-sized mode boots, it allocates less than
  stock; and for a batch of at most the configured number of requests, each no longer than the window plus
  the speculative tokens, the splitter never raises for any workspace at least that large (its own limit, the
  stock size, included), and no chunk it emits trips the guard on the metadata or the guard on the actual
  allocation.\<close>

theorem rightsized_workspace_suffices:
  assumes "glm53_workspace_mode env = Inr Rightsize" and "workspace_entries env c kpool = Inr entries"
    and "py_int_or0 (wc_num_speculative_tokens c) = Inr num_spec"
    and "length qs = length ss" and "list_all ((\<le>) 0) ss" and "list_all ((\<le>) 0) qs"
    and "list_all (\<lambda>s. s \<le> compressed kpool (wc_max_model_len c + max 0 num_spec)) ss"
    and "int (length ss) \<le> wc_max_num_seqs c" and "entries \<le> ws"
  shows "entries < get_max_prefill_buffer_size c
    \<and> (\<exists>ps. split_prefill_chunks ss qs ws bytes = Inr ps
         \<and> list_all (\<lambda>((a, b), _). metadata_guard ws (seg ss a b) = Inr () \<and> gather_guard kpool entries (seg ss a b) = Inr ()) ps)"
proof -
  from workspace_entries_Inr [OF assms(2,1)] assms(3)
  have k: "1 < kpool" "0 < wc_max_model_len c" and lt: "entries < get_max_prefill_buffer_size c"
    and en: "entries = compressed kpool (wc_max_model_len c + max 0 num_spec) * wc_max_num_seqs c" by auto
  have "sum_list ss \<le> entries" unfolding en using batch_fits [OF assms(7,8)] k by simp
  then have total: "seg ss 0 (length ss) \<le> entries" by (simp add: seg_def)
  have piece: "seg ss a b \<le> entries" if "a < b" "b \<le> length ss" for a b
    using seg_mono [OF assms(5), of 0 a b "length ss"] that total by linarith
  have "s \<le> ws" if "s \<in> set ss" for s
  proof -
    from that obtain j where "j < length ss" "ss ! j = s" by (auto simp: in_set_conv_nth)
    with piece [of j "Suc j"] assms(9) show ?thesis by (simp add: seg_one)
  qed
  then have "\<not> (\<exists>s \<in> set ss. ws < s)" by (auto simp: not_less)
  with split_prefill_chunks_spec [OF assms(4-6), of ws bytes] obtain ps where ps: "split_prefill_chunks ss qs ws bytes = Inr ps"
    and ok: "list_all (piece_ok ss qs ws (bytes div 4)) ps" by (auto split: sum.splits)
  from ok have "list_all (\<lambda>((a, b), _). metadata_guard ws (seg ss a b) = Inr () \<and> gather_guard kpool entries (seg ss a b) = Inr ()) ps"
    unfolding list_all_iff using piece by (fastforce simp: piece_ok_def metadata_guard_def gather_guard_def)
  with ps lt show ?thesis by blast
qed

subsection \<open>Witnesses\<close>

lemma demo_split:
  "split_prefill_chunks [3, 0, 2, 9] [2, 1, 1, 3] 10 40
     = Inr [((0, 2), (0, 3)), ((2, 3), (0, 1)), ((3, 4), (0, 1)), ((3, 4), (1, 2)), ((3, 4), (2, 3))]"
  by code_simp

theorem splitter_covers_batch_witness:
  "concat (map (piece_rows [2, 1, 1, 3]) [((0, 2), (0, 3)), ((2, 3), (0, 1)), ((3, 4), (0, 1)), ((3, 4), (1, 2)), ((3, 4), (2, 3))]) = [0..6]"
  using splitter_covers_batch [of "[2, 1, 1, 3]" "[3, 0, 2, 9]" 10 40] by (simp add: demo_split)

text \<open>The production window of a million tokens with four requests, a pool of four and seven speculative tokens.\<close>

definition demo_workspace :: workspace_config where
  "demo_workspace = \<lparr>wc_max_model_len = 1048576, wc_max_num_seqs = 4, wc_num_speculative_tokens = Some (PInt 7)\<rparr>"

lemma demo_entries: "workspace_entries [''GLM53_INDEXER_WORKSPACE'' \<mapsto> ''rightsize''] demo_workspace 4 = Inr 1048584"
  by (simp add: workspace_entries_def glm53_workspace_mode_def demo_workspace_def get_max_prefill_buffer_size_def STOCK_MULTIPLIER_def)

theorem rightsized_workspace_suffices_witness:
  "\<exists>ps. split_prefill_chunks [262146, 262146, 5] [100, 1, 20] 41943040 1000000 = Inr ps"
proof -
  have m: "glm53_workspace_mode [''GLM53_INDEXER_WORKSPACE'' \<mapsto> ''rightsize''] = Inr Rightsize" by (simp add: glm53_workspace_mode_def)
  have "py_int_or0 (wc_num_speculative_tokens demo_workspace) = Inr 7" by (simp add: demo_workspace_def)
  from rightsized_workspace_suffices [OF m demo_entries this, of "[100, 1, 20]" "[262146, 262146, 5]" 41943040 1000000]
  show ?thesis by (auto simp: demo_workspace_def compressed_def)
qed

end
