(* ===== verification/Kpool_Tail.thy ===== *)
theory Kpool_Tail
  imports Py_Text
begin

text \<open>
  Addressing of the pooled tail: the clamp of the legacy slot mapping
  (\<^verbatim>\<open>overlay/patch_kpool_tail_slotmap.py\<close>), the bounded slot-mapping kernel and the seed kernel
  (\<^verbatim>\<open>overlay/patch_kpool_tail_correctness.py\<close>), each with the code it replaces. Kernels are functions of
  one element of their grid; positions, block numbers and addresses are natural numbers, and device memory
  is a function of the address.
\<close>

subsection \<open>The replica of the legacy mapping\<close>

text \<open>\<open>xs[i]\<close>, negative indices included.\<close>

definition py_nth :: "'a list \<Rightarrow> int \<Rightarrow> 'a res" where
  "py_nth xs i =
     (if 0 \<le> i \<and> i < int (length xs) then Inr (xs ! nat i)
      else if i < 0 \<and> - int (length xs) \<le> i then Inr (xs ! nat (int (length xs) + i))
      else Inl IndexError)"

definition count_overruns :: "int list \<Rightarrow> int \<Rightarrow> int \<Rightarrow> int res" where
  "count_overruns positions block_size stride =
     (if block_size < 1 \<or> stride < 1 then Inl ValueError
      else Inr (int (length (filter (\<lambda>pos. stride \<le> pos div block_size) positions))))"

fun slot_ids_loop :: "int list \<Rightarrow> int list \<Rightarrow> int \<Rightarrow> bool \<Rightarrow> int list res" where
  "slot_ids_loop [] row block_size clamp = Inr []"
| "slot_ids_loop (pos # positions) row block_size clamp =
     (let stride = int (length row)
      in if block_size = 0 then Inl ZeroDivisionError
         else res_bind
           (if clamp then Inr (min (pos div block_size) (stride - 1))
            else if pos div block_size < 0 \<or> stride \<le> pos div block_size then Inl IndexError
            else Inr (pos div block_size))
           (\<lambda>idx. res_bind (py_nth row idx) (\<lambda>b.
              res_bind (slot_ids_loop positions row block_size clamp) (\<lambda>ids.
                Inr ((b * block_size + pos mod block_size) # ids)))))"

definition circular_slot_ids :: "int list \<Rightarrow> int list \<Rightarrow> int \<Rightarrow> bool \<Rightarrow> int list res" where
  "circular_slot_ids positions row block_size clamp =
     (if row = [] then Inl ValueError else slot_ids_loop positions row block_size clamp)"

subsection \<open>The slot-mapping kernel\<close>

record slot_kernel =
  sk_block_size :: nat
  sk_stride :: nat
  sk_cp_size :: nat
  sk_cp_interleave :: nat
  sk_cp_rank :: nat
  sk_pad :: int

definition block_index :: "slot_kernel \<Rightarrow> nat \<Rightarrow> nat" where
  "block_index k pos = pos div (sk_block_size k * sk_cp_size k)"

definition block_offset :: "slot_kernel \<Rightarrow> nat \<Rightarrow> nat" where
  "block_offset k pos = pos mod (sk_block_size k * sk_cp_size k)"

definition local_offset :: "slot_kernel \<Rightarrow> nat \<Rightarrow> nat" where
  "local_offset k off = off div (sk_cp_interleave k * sk_cp_size k) * sk_cp_interleave k + off mod sk_cp_interleave k"

definition is_local :: "slot_kernel \<Rightarrow> nat \<Rightarrow> bool" where
  "is_local k off \<longleftrightarrow> off div sk_cp_interleave k mod sk_cp_size k = sk_cp_rank k"

definition slot_old :: "slot_kernel \<Rightarrow> (nat \<Rightarrow> nat) \<Rightarrow> nat \<Rightarrow> nat \<Rightarrow> int" where
  "slot_old k table req pos =
     (let number = table (req * sk_stride k + block_index k pos); off = block_offset k pos
      in if sk_cp_size k = 1 then int (number * sk_block_size k + off)
         else if is_local k off then int (number * sk_block_size k + local_offset k off) else sk_pad k)"

definition slot_new :: "slot_kernel \<Rightarrow> (nat \<Rightarrow> nat) \<Rightarrow> nat \<Rightarrow> nat \<Rightarrow> int" where
  "slot_new k table req pos =
     (let in_range = block_index k pos < sk_stride k;
          number = (if in_range then table (req * sk_stride k + block_index k pos) else 0); off = block_offset k pos
      in if sk_cp_size k = 1 then (if in_range then int (number * sk_block_size k + off) else sk_pad k)
         else if is_local k off \<and> in_range then int (number * sk_block_size k + local_offset k off) else sk_pad k)"

subsection \<open>The seed kernel\<close>

type_synonym 'a memory = "nat \<Rightarrow> 'a"

definition store_vec :: "nat \<Rightarrow> 'a list \<Rightarrow> 'a memory \<Rightarrow> 'a memory" where
  "store_vec base xs mem = (\<lambda>a. if base \<le> a \<and> a < base + length xs then xs ! (a - base) else mem a)"

text \<open>The tail cache as the host sees it: its rank, second dimension and strides, and whether the two tensors
  hold bfloat16.\<close>

record tail_cache =
  tc_bf16 :: bool
  tc_key_bf16 :: bool
  tc_ndim :: nat
  tc_shape1 :: nat
  tc_stride0 :: nat
  tc_stride1 :: nat
  tc_stride2 :: nat
  tc_stride3 :: nat

text \<open>A token to seed: the block and the position its slot decodes to, its key and its score.\<close>

type_synonym 'a seed = "nat \<times> nat \<times> 'a list \<times> 'a list"

fun seed_token_old :: "nat \<Rightarrow> nat \<Rightarrow> 'a seed \<Rightarrow> 'a memory \<Rightarrow> 'a memory" where
  "seed_token_old KPOOL HEAD_DIM (blk, t, k, s) mem =
     (let base = (blk * 2 * KPOOL + t mod KPOOL) * HEAD_DIM
      in store_vec (base + KPOOL * HEAD_DIM) s (store_vec base k mem))"

fun seed_token :: "nat \<Rightarrow> nat \<Rightarrow> nat \<Rightarrow> nat \<Rightarrow> 'a seed \<Rightarrow> 'a memory \<Rightarrow> 'a memory" where
  "seed_token TAIL_BLOCK_ELEMS KPOOL_HEAD HEAD_DIM KPOOL (blk, t, k, s) mem =
     (let base = blk * TAIL_BLOCK_ELEMS + (t mod KPOOL) * HEAD_DIM
      in store_vec (base + KPOOL_HEAD) s (store_vec base k mem))"

definition kpool_tail_seed :: "tail_cache \<Rightarrow> nat \<Rightarrow> nat \<Rightarrow> 'a seed list \<Rightarrow> 'a memory \<Rightarrow> 'a memory res" where
  "kpool_tail_seed tail head_dim kpool toks mem =
     (if \<not> tc_bf16 tail then Inl AssertionError
      else if \<not> (tc_ndim tail = 4 \<and> tc_shape1 tail = 2) then Inl AssertionError
      else if \<not> (tc_stride3 tail = 1 \<and> tc_stride2 tail = head_dim) then Inl AssertionError
      else if \<not> tc_key_bf16 tail then Inl AssertionError
      else Inr (foldl (\<lambda>mem tok. seed_token (tc_stride0 tail) (tc_stride1 tail) head_dim kpool tok mem) mem toks))"

text \<open>\<open>tail[block, c, p, d]\<close> read through the strides of the tensor.\<close>

definition tail_at :: "tail_cache \<Rightarrow> 'a memory \<Rightarrow> nat \<Rightarrow> nat \<Rightarrow> nat \<Rightarrow> nat \<Rightarrow> 'a" where
  "tail_at tail mem block c p d = mem (block * tc_stride0 tail + c * tc_stride1 tail + p * tc_stride2 tail + d * tc_stride3 tail)"

subsection \<open>The clamp\<close>

lemma py_nth_in: "0 \<le> i \<Longrightarrow> i < int (length xs) \<Longrightarrow> py_nth xs i = Inr (xs ! nat i)"
  by (simp add: py_nth_def)

lemma slot_ids_clamped:
  assumes "0 < bs" and "row \<noteq> []" and "list_all ((\<le>) 0) positions"
  shows "slot_ids_loop positions row bs True
    = Inr (map (\<lambda>pos. (if pos div bs < int (length row) then row ! nat (pos div bs) else last row) * bs + pos mod bs) positions)"
  using assms(3)
proof (induction positions)
  case (Cons pos positions)
  have nn: "0 \<le> pos div bs" using Cons.prems assms(1) by (simp add: pos_imp_zdiv_nonneg_iff)
  have "py_nth row (min (pos div bs) (int (length row) - 1)) = Inr (if pos div bs < int (length row) then row ! nat (pos div bs) else last row)"
  proof (cases "pos div bs < int (length row)")
    case True
    with nn show ?thesis by (simp add: py_nth_in min_def)
  next
    case False
    with assms(2) have "min (pos div bs) (int (length row) - 1) = int (length row - 1)" by (cases row) auto
    with assms(2) False show ?thesis by (simp add: py_nth_in last_conv_nth del: of_nat_diff)
  qed
  with Cons assms(1) show ?case by (simp add: Let_def)
qed simp

lemma slot_ids_unclamped:
  assumes "0 < bs" and "list_all ((\<le>) 0) positions"
  shows "slot_ids_loop positions row bs False
    = (if list_all (\<lambda>pos. pos div bs < int (length row)) positions
       then Inr (map (\<lambda>pos. row ! nat (pos div bs) * bs + pos mod bs) positions) else Inl IndexError)"
  using assms(2)
proof (induction positions)
  case (Cons pos positions)
  have "0 \<le> pos div bs" using Cons.prems assms(1) by (simp add: pos_imp_zdiv_nonneg_iff)
  with Cons assms(1) show ?case by (auto simp: py_nth_in not_le not_less)
qed simp

text \<open>The clamp removes the overruns and pins them to the last column. For non-negative positions the mapping
  without the clamp fails exactly if some position overruns its row; with the clamp it never fails, agrees with
  the unclamped mapping on every batch without overruns, and sends an overrunning position to the block in the
  last column of the row, which is the block of the request only if the row has one column or repeats it.\<close>

theorem clamp_pins_last_column:
  assumes "0 < bs" and "row \<noteq> []" and "list_all ((\<le>) 0) positions" and "n = int (length row)"
  shows "(is_ok (circular_slot_ids positions row bs False) \<longleftrightarrow> count_overruns positions bs n = Inr 0)
    \<and> circular_slot_ids positions row bs True
        = Inr (map (\<lambda>pos. (if pos div bs < n then row ! nat (pos div bs) else last row) * bs + pos mod bs) positions)
    \<and> (count_overruns positions bs n = Inr 0 \<longrightarrow> circular_slot_ids positions row bs True = circular_slot_ids positions row bs False)"
proof -
  have "1 \<le> n" using assms(2,4) by (cases row) auto
  with assms(1) have c: "count_overruns positions bs n = Inr 0 \<longleftrightarrow> list_all (\<lambda>pos. pos div bs < n) positions"
    by (auto simp: count_overruns_def list_all_iff filter_empty_conv not_le)
  show ?thesis
    unfolding c circular_slot_ids_def using assms slot_ids_clamped [OF assms(1-3)] slot_ids_unclamped [OF assms(1,3), of row]
    by (auto simp: list_all_iff)
qed

theorem clamp_pins_last_column_witness:
  "circular_slot_ids [0, 5, 130] ([7] @ replicate 31 0) 4 True = Inr [28, 1, 2]"
proof -
  have "list_all ((\<le>) 0) [0, 5, 130 :: int]" by simp
  from clamp_pins_last_column [of 4 "[7] @ replicate 31 0", OF _ _ this refl] show ?thesis
    by (simp add: last_replicate)
qed

subsection \<open>The bounded kernel\<close>

definition kernel_ok :: "slot_kernel \<Rightarrow> bool" where
  "kernel_ok k \<longleftrightarrow> 0 < sk_block_size k \<and> 0 < sk_cp_size k \<and> 0 < sk_cp_interleave k
     \<and> sk_cp_interleave k dvd sk_block_size k \<and> sk_pad k < 0"

lemma slot_new_in_range: "block_index k pos < sk_stride k \<Longrightarrow> slot_new k table req pos = slot_old k table req pos"
  by (simp add: slot_new_def slot_old_def Let_def)

lemma slot_new_out: "\<not> block_index k pos < sk_stride k \<Longrightarrow> slot_new k table req pos = sk_pad k"
  by (simp add: slot_new_def Let_def)

text \<open>A request maps its tokens through its own row only. Two block tables that agree on the row of a request give
  the request the same slots at every position, whatever the rest of the tables holds; a position inside the row
  is mapped as before and one beyond it to the pad value. Before the bound, the slot of such a position was
  computed from the entry that many columns further, in the rows of the following requests.\<close>

theorem slots_from_own_row:
  assumes "map table [req * sk_stride k..<Suc req * sk_stride k] = map table' [req * sk_stride k..<Suc req * sk_stride k]"
  shows "slot_new k table req pos = slot_new k table' req pos
    \<and> slot_new k table req pos = (if block_index k pos < sk_stride k then slot_old k table req pos else sk_pad k)"
proof (cases "block_index k pos < sk_stride k")
  case True
  then have "req * sk_stride k + block_index k pos \<in> set [req * sk_stride k..<Suc req * sk_stride k]" by simp
  with assms have "table (req * sk_stride k + block_index k pos) = table' (req * sk_stride k + block_index k pos)"
    unfolding map_eq_conv by blast
  with True show ?thesis by (simp add: slot_new_in_range slot_old_def Let_def)
next
  case False
  then show ?thesis by (simp add: slot_new_out)
qed

lemma mixed_radix:
  fixes x :: nat
  assumes "0 < i" and "0 < c"
  shows "x = (x div (i * c) * c + x div i mod c) * i + x mod i"
proof -
  have "x div i = x div (i * c) * c + x div i mod c" by (simp add: div_mult2_eq)
  then show ?thesis by (metis div_mult_mod_eq)
qed

lemma local_offset_div:
  assumes "0 < sk_cp_interleave k"
  shows "local_offset k off div sk_cp_interleave k = off div (sk_cp_interleave k * sk_cp_size k)"
    and "local_offset k off mod sk_cp_interleave k = off mod sk_cp_interleave k"
  using assms by (simp_all add: local_offset_def)

lemma local_offset_inj:
  assumes "0 < sk_cp_interleave k" and "0 < sk_cp_size k"
    and "is_local k x" and "is_local k y" and "local_offset k x = local_offset k y"
  shows "x = y"
proof -
  from assms(5) local_offset_div [OF assms(1)]
  have "x div (sk_cp_interleave k * sk_cp_size k) = y div (sk_cp_interleave k * sk_cp_size k)"
    and "x mod sk_cp_interleave k = y mod sk_cp_interleave k" by metis+
  moreover from assms(3,4) have "x div sk_cp_interleave k mod sk_cp_size k = y div sk_cp_interleave k mod sk_cp_size k"
    by (simp add: is_local_def)
  ultimately show ?thesis using mixed_radix [OF assms(1,2), of x] mixed_radix [OF assms(1,2), of y] by metis
qed

lemma local_offset_less:
  assumes "kernel_ok k" and "off < sk_block_size k * sk_cp_size k"
  shows "local_offset k off < sk_block_size k"
proof -
  from assms(1) obtain q where q: "sk_block_size k = sk_cp_interleave k * q" by (auto simp: kernel_ok_def)
  have "off div (sk_cp_interleave k * sk_cp_size k) < q"
    using assms(2) q by (intro less_mult_imp_div_less) (simp add: mult.commute mult.left_commute)
  then have "Suc (off div (sk_cp_interleave k * sk_cp_size k)) * sk_cp_interleave k \<le> q * sk_cp_interleave k"
    by (intro mult_right_mono) auto
  moreover have "off mod sk_cp_interleave k < sk_cp_interleave k" using assms(1) by (simp add: kernel_ok_def)
  ultimately show ?thesis unfolding q local_offset_def by (simp add: mult.commute)
qed

text \<open>The offset inside the block that a rank uses for a position.\<close>

definition rank_offset :: "slot_kernel \<Rightarrow> nat \<Rightarrow> nat" where
  "rank_offset k pos = (if sk_cp_size k = 1 then block_offset k pos else local_offset k (block_offset k pos))"

lemma block_offset_less: "kernel_ok k \<Longrightarrow> block_offset k pos < sk_block_size k * sk_cp_size k"
  by (simp add: block_offset_def kernel_ok_def)

lemma rank_offset_less: "kernel_ok k \<Longrightarrow> rank_offset k pos < sk_block_size k"
  using block_offset_less [of k pos] by (auto simp: rank_offset_def local_offset_less)

lemma slot_new_value:
  assumes "kernel_ok k" and "slot_new k table req pos \<noteq> sk_pad k"
  shows "block_index k pos < sk_stride k"
    and "slot_new k table req pos = int (table (req * sk_stride k + block_index k pos) * sk_block_size k + rank_offset k pos)"
    and "sk_cp_size k \<noteq> 1 \<Longrightarrow> is_local k (block_offset k pos)"
  using assms by (auto simp: slot_new_def rank_offset_def Let_def split: if_splits)

lemma rank_offset_inj:
  assumes "kernel_ok k" and "sk_cp_size k \<noteq> 1 \<Longrightarrow> is_local k (block_offset k p)"
    and "sk_cp_size k \<noteq> 1 \<Longrightarrow> is_local k (block_offset k q)"
    and "rank_offset k p = rank_offset k q" and "block_index k p = block_index k q"
  shows "p = q"
proof -
  have "block_offset k p = block_offset k q"
    using assms local_offset_inj [of k "block_offset k p" "block_offset k q"]
    by (auto simp: rank_offset_def kernel_ok_def split: if_splits)
  with assms(5) show ?thesis unfolding block_offset_def block_index_def by (metis div_mult_mod_eq)
qed

lemma block_geometry_rank [simp]:
  "block_index (k\<lparr>sk_cp_rank := r\<rparr>) p = block_index k p" "block_offset (k\<lparr>sk_cp_rank := r\<rparr>) p = block_offset k p"
  by (simp_all add: block_index_def block_offset_def)

lemma one_rank:
  assumes "kernel_ok k" and "block_index k p < sk_stride k"
  shows "slot_new (k\<lparr>sk_cp_rank := r\<rparr>) table req p \<noteq> sk_pad k
    \<longleftrightarrow> sk_cp_size k = 1 \<or> r = block_offset k p div sk_cp_interleave k mod sk_cp_size k"
proof -
  have "int n \<noteq> sk_pad k" for n using assms(1) by (simp add: kernel_ok_def)
  with assms(2) show ?thesis by (auto simp: slot_new_def is_local_def Let_def simp del: of_nat_add of_nat_mult)
qed

text \<open>Context-parallel ranks share a sequence without overlap. If the interleave divides the block size and the row
  of a request holds distinct blocks, then exactly one rank owns a slot for each position inside the row; a slot
  a rank uses lies in the block of its position; and no rank uses a slot for two positions.\<close>

theorem ranks_partition_slots:
  assumes "kernel_ok k" and "inj_on table {req * sk_stride k..<Suc req * sk_stride k}"
  shows "(block_index k p < sk_stride k \<longrightarrow> (\<exists>!r. r < sk_cp_size k \<and> slot_new (k\<lparr>sk_cp_rank := r\<rparr>) table req p \<noteq> sk_pad k))
    \<and> (slot_new k table req p \<noteq> sk_pad k \<longrightarrow>
         nat (slot_new k table req p) div sk_block_size k = table (req * sk_stride k + block_index k p)
         \<and> (slot_new k table req p = slot_new k table req q \<longrightarrow> p = q))"
proof (intro conjI impI)
  assume "block_index k p < sk_stride k"
  moreover have "0 < sk_cp_size k" using assms(1) by (simp add: kernel_ok_def)
  ultimately show "\<exists>!r. r < sk_cp_size k \<and> slot_new (k\<lparr>sk_cp_rank := r\<rparr>) table req p \<noteq> sk_pad k"
    unfolding one_rank [OF assms(1) \<open>block_index k p < sk_stride k\<close>]
    by (cases "sk_cp_size k = 1") auto
next
  assume np: "slot_new k table req p \<noteq> sk_pad k"
  have blk: "nat (slot_new k table req x) div sk_block_size k = table (req * sk_stride k + block_index k x)"
    if "slot_new k table req x \<noteq> sk_pad k" for x
    unfolding slot_new_value(2) [OF assms(1) that] nat_int using rank_offset_less [OF assms(1), of x] by simp
  then show "nat (slot_new k table req p) div sk_block_size k = table (req * sk_stride k + block_index k p)" using np .
  assume eq: "slot_new k table req p = slot_new k table req q"
  with np have nq: "slot_new k table req q \<noteq> sk_pad k" by simp
  note vp = slot_new_value [OF assms(1) np] and vq = slot_new_value [OF assms(1) nq]
  from blk [OF np] blk [OF nq] eq have t: "table (req * sk_stride k + block_index k p) = table (req * sk_stride k + block_index k q)" by simp
  have "req * sk_stride k + block_index k p = req * sk_stride k + block_index k q"
    using inj_onD [OF assms(2) t] vp(1) vq(1) by simp
  moreover from this vp(2) vq(2) eq t have "rank_offset k p = rank_offset k q" by simp
  ultimately show "p = q" using rank_offset_inj [OF assms(1)] vp(3) vq(3) by simp
qed

definition demo_kernel :: slot_kernel where
  "demo_kernel = \<lparr>sk_block_size = 4, sk_stride = 3, sk_cp_size = 2, sk_cp_interleave = 2, sk_cp_rank = 1, sk_pad = -1\<rparr>"

theorem slots_from_own_row_witness:
  "slot_new demo_kernel (\<lambda>a. [9, 5, 7, 0, 0, 0] ! a) 0 11 = slot_new demo_kernel (\<lambda>a. [9, 5, 7, 8, 8, 8] ! a) 0 11
    \<and> slot_new demo_kernel (\<lambda>a. [9, 5, 7, 0, 0, 0] ! a) 0 11 = 21
    \<and> slot_new demo_kernel (\<lambda>a. [9, 5, 7, 0, 0, 0] ! a) 0 27 = -1 \<and> slot_old demo_kernel (\<lambda>a. [9, 5, 7, 0, 0, 0] ! a) 0 27 = 1"
  using slots_from_own_row [of "\<lambda>a. [9, 5, 7, 0, 0, 0] ! a" 0 demo_kernel "\<lambda>a. [9, 5, 7, 8, 8, 8] ! a" 11]
  by (simp add: demo_kernel_def slot_new_def slot_old_def block_index_def block_offset_def is_local_def local_offset_def upt_rec)

theorem ranks_partition_slots_witness:
  "\<exists>!r. r < 2 \<and> slot_new (demo_kernel\<lparr>sk_cp_rank := r\<rparr>) (\<lambda>a. a + 5) 0 11 \<noteq> -1"
  using ranks_partition_slots [of demo_kernel "\<lambda>a. a + 5" 0 11]
  by (simp add: kernel_ok_def demo_kernel_def block_index_def)

subsection \<open>Seeding the tail\<close>

lemma store_vec_in [simp]: "d < length xs \<Longrightarrow> store_vec base xs mem (base + d) = xs ! d"
  by (simp add: store_vec_def)

lemma store_vec_out: "a < base \<or> base + length xs \<le> a \<Longrightarrow> store_vec base xs mem a = mem a"
  by (auto simp: store_vec_def)

text \<open>The strides keep the cells of a block apart, and blocks apart from each other.\<close>

definition strides_ok :: "nat \<Rightarrow> nat \<Rightarrow> nat \<Rightarrow> nat \<Rightarrow> bool" where
  "strides_ok block half head kpool \<longleftrightarrow> kpool * head \<le> half \<and> half + kpool * head \<le> block \<and> 0 < kpool"

lemma cell_end: "p < kpool \<Longrightarrow> p * head + head \<le> kpool * (head :: nat)"
  using mult_le_mono1 [of "Suc p" kpool head] by simp

lemma cells_apart:
  fixes p p' :: nat
  assumes "p \<noteq> p'"
  shows "p * head + head \<le> p' * head \<or> p' * head + head \<le> p * head"
  using assms mult_le_mono1 [of "Suc p" p' head] mult_le_mono1 [of "Suc p'" p head] by (cases p p' rule: linorder_cases) auto

lemma blocks_apart:
  fixes b b' :: nat
  assumes "b \<noteq> b'" and "x < w" and "y < w"
  shows "b * w + x \<noteq> b' * w + y"
  using assms by (metis div_mult_self3 less_nat_zero_code add.commute div_less div_mult_self1 mult.commute add_cancel_right_right)

text \<open>The address of one element, and that elements of different cells have different addresses.\<close>

definition cell_addr :: "nat \<Rightarrow> nat \<Rightarrow> nat \<Rightarrow> nat \<Rightarrow> nat \<Rightarrow> nat \<Rightarrow> nat \<Rightarrow> nat" where
  "cell_addr block half head b c p d = b * block + (c * half + p * head + d)"

lemma cell_addr_less:
  assumes "strides_ok block half head kpool" and "c < 2" and "p < kpool" and "d < head"
  shows "c * half + p * head + d < block" "p * head + d < half"
  using assms cell_end [OF assms(3), of head] unfolding strides_ok_def by (auto simp: less_2_cases_iff)

lemma cell_addr_inj:
  assumes ok: "strides_ok block half head kpool" and "c < 2" "p < kpool" "d < head" and "c' < 2" "p' < kpool" "d' < head"
    and eq: "cell_addr block half head b c p d = cell_addr block half head b' c' p' d'"
  shows "b = b' \<and> c = c' \<and> p = p' \<and> d = d'"
proof -
  note l = cell_addr_less [OF ok assms(2-4)] and l' = cell_addr_less [OF ok assms(5-7)]
  have b: "b = b'" using eq blocks_apart [OF _ l(1) l'(1), of b b'] unfolding cell_addr_def by blast
  with eq have in_block: "c * half + (p * head + d) = c' * half + (p' * head + d')" by (simp add: cell_addr_def)
  then have c: "c = c'" using blocks_apart [OF _ l(2) l'(2), of c c'] by blast
  with in_block have "p * head + d = p' * head + d'" by simp
  then have "p = p'" using blocks_apart [OF _ assms(4,7), of p p'] by blast
  with \<open>p * head + d = p' * head + d'\<close> b c show ?thesis by simp
qed

text \<open>The cell of a token, and a token with a full key and score.\<close>

definition seed_cell :: "nat \<Rightarrow> 'a seed \<Rightarrow> nat \<times> nat" where
  "seed_cell kpool tok = (case tok of (blk, t, k, s) \<Rightarrow> (blk, t mod kpool))"

definition seed_sized :: "nat \<Rightarrow> 'a seed \<Rightarrow> bool" where
  "seed_sized head tok = (case tok of (blk, t, k, s) \<Rightarrow> length k = head \<and> length s = head)"

lemma store_vec_cell:
  assumes "strides_ok block half head kpool" and "c < 2" "p < kpool" "d < head" and "c' < 2" "p' < kpool" and "length xs = head"
  shows "store_vec (cell_addr block half head b' c' p' 0) xs mem (cell_addr block half head b c p d)
    = (if b = b' \<and> c = c' \<and> p = p' then xs ! d else mem (cell_addr block half head b c p d))"
proof (cases "b = b' \<and> c = c' \<and> p = p'")
  case True
  have "cell_addr block half head b c p d = cell_addr block half head b c p 0 + d" by (simp add: cell_addr_def)
  with True assms(4,7) show ?thesis by (metis store_vec_in)
next
  case False
  have "\<not> (cell_addr block half head b' c' p' 0 \<le> cell_addr block half head b c p d
      \<and> cell_addr block half head b c p d < cell_addr block half head b' c' p' 0 + length xs)"
  proof
    assume in_vec: "cell_addr block half head b' c' p' 0 \<le> cell_addr block half head b c p d
      \<and> cell_addr block half head b c p d < cell_addr block half head b' c' p' 0 + length xs"
    define j where "j = cell_addr block half head b c p d - cell_addr block half head b' c' p' 0"
    from in_vec assms(7) have "j < head" and "cell_addr block half head b c p d = cell_addr block half head b' c' p' j"
      by (auto simp: j_def cell_addr_def)
    from cell_addr_inj [OF assms(1-6) this] False show False by blast
  qed
  with False show ?thesis by (auto simp: store_vec_def)
qed

lemma seed_token_cell:
  assumes "strides_ok block half head kpool" and "c < 2" "p < kpool" "d < head" and "seed_sized head tok"
  shows "seed_token block half head kpool tok mem (cell_addr block half head b c p d)
    = (if (b, p) = seed_cell kpool tok then (case tok of (blk, t, k, s) \<Rightarrow> if c = 0 then k ! d else s ! d)
       else mem (cell_addr block half head b c p d))"
proof -
  obtain blk t k s where tok: "tok = (blk, t, k, s)" by (cases tok)
  have t: "t mod kpool < kpool" using assms(1) by (simp add: strides_ok_def)
  have st: "seed_token block half head kpool tok mem = store_vec (cell_addr block half head blk 1 (t mod kpool) 0) s
      (store_vec (cell_addr block half head blk 0 (t mod kpool) 0) k mem)" by (simp add: tok Let_def cell_addr_def ac_simps)
  have halves: "(0 :: nat) < 2" "(1 :: nat) < 2" by simp_all
  have len: "length k = head" "length s = head" using assms(5) by (simp_all add: tok seed_sized_def)
  show ?thesis
    unfolding st store_vec_cell [OF assms(1-4) halves(2) t len(2)] store_vec_cell [OF assms(1-4) halves(1) t len(1)]
    using assms(2) by (auto simp: tok seed_cell_def less_2_cases_iff)
qed

lemma seeds_other_cells:
  assumes "strides_ok block half head kpool" and "c < 2" "p < kpool" "d < head"
    and "list_all (seed_sized head) toks" and "(b, p) \<notin> seed_cell kpool ` set toks"
  shows "foldl (\<lambda>mem tok. seed_token block half head kpool tok mem) mem toks (cell_addr block half head b c p d)
    = mem (cell_addr block half head b c p d)"
  using assms(5,6)
proof (induction toks arbitrary: mem)
  case (Cons tok toks)
  then show ?case using seed_token_cell [OF assms(1-4), of tok mem b] by (simp del: seed_token.simps)
qed simp

text \<open>(C21) A seeded tail reads back. On a tail cache that passes the assertions of the host, with strides that leave room
  for both halves of a block, seeding any batch of tokens with distinct cells succeeds, and reading the cache
  through its own strides gives each token its key and its score; every cell no token was seeded to keeps its
  contents.\<close>

theorem seeded_tail_reads_back:
  assumes "tc_bf16 tail" "tc_key_bf16 tail" "tc_ndim tail = 4" "tc_shape1 tail = 2" "tc_stride3 tail = 1" "tc_stride2 tail = head"
    and "strides_ok (tc_stride0 tail) (tc_stride1 tail) head kpool"
    and "list_all (seed_sized head) toks" and "distinct (map (seed_cell kpool) toks)"
  shows "\<exists>mem'. kpool_tail_seed tail head kpool toks mem = Inr mem'
    \<and> list_all (\<lambda>(blk, t, k, s). map (tail_at tail mem' blk 0 (t mod kpool)) [0..<head] = k
         \<and> map (tail_at tail mem' blk 1 (t mod kpool)) [0..<head] = s) toks
    \<and> (\<forall>b p c d. (b, p) \<notin> seed_cell kpool ` set toks \<longrightarrow> c < 2 \<longrightarrow> p < kpool \<longrightarrow> d < head
         \<longrightarrow> tail_at tail mem' b c p d = tail_at tail mem b c p d)"
proof -
  let ?seed = "\<lambda>mem tok. seed_token (tc_stride0 tail) (tc_stride1 tail) head kpool tok mem"
  let ?mem = "foldl ?seed mem toks"
  have at: "tail_at tail m b c p d = m (cell_addr (tc_stride0 tail) (tc_stride1 tail) head b c p d)" for m :: "'a memory" and b c p d
    using assms(5,6) by (simp add: tail_at_def cell_addr_def add.assoc)
  have cell: "tail_at tail ?mem blk c (t mod kpool) d = (if c = 0 then k ! d else s ! d)"
    if tok: "(blk, t, k, s) \<in> set toks" and "c < 2" "d < head" for blk t k s c d
  proof -
    from tok obtain us vs where sp: "toks = us @ (blk, t, k, s) # vs" by (meson split_list)
    with assms(9) have "(blk, t mod kpool) \<notin> seed_cell kpool ` set vs" by (auto simp: seed_cell_def)
    moreover have "t mod kpool < kpool" using assms(7) by (simp add: strides_ok_def)
    ultimately show ?thesis unfolding at
      using assms(8) that(2,3) seeds_other_cells [OF assms(7), of c "t mod kpool" d vs]
        seed_token_cell [OF assms(7), of c "t mod kpool" d "(blk, t, k, s)"]
      by (simp add: sp seed_cell_def del: seed_token.simps)
  qed
  have "map (tail_at tail ?mem blk 0 (t mod kpool)) [0..<head] = k \<and> map (tail_at tail ?mem blk 1 (t mod kpool)) [0..<head] = s"
    if tok: "(blk, t, k, s) \<in> set toks" for blk t k s
  proof -
    have "length k = head" "length s = head" using assms(8) tok by (auto simp: list_all_iff seed_sized_def)
    with cell [OF tok, of 0] cell [OF tok, of 1] show ?thesis by (auto intro!: nth_equalityI)
  qed
  then have "list_all (\<lambda>(blk, t, k, s). map (tail_at tail ?mem blk 0 (t mod kpool)) [0..<head] = k
         \<and> map (tail_at tail ?mem blk 1 (t mod kpool)) [0..<head] = s) toks" unfolding list_all_iff by blast
  moreover have "kpool_tail_seed tail head kpool toks mem = Inr ?mem" using assms(1-6) by (simp add: kpool_tail_seed_def)
  moreover have "tail_at tail ?mem b c p d = tail_at tail mem b c p d"
    if "(b, p) \<notin> seed_cell kpool ` set toks" "c < 2" "p < kpool" "d < head" for b p c d
    unfolding at using seeds_other_cells [OF assms(7) that(2-4) assms(8) that(1)] .
  ultimately show ?thesis by blast
qed

text \<open>The dense addressing missed the block. If a block of the tail tensor is padded to at least twice its dense
  size, the old kernel wrote nothing for a token of any block but the first into that block: every address of the
  block kept its contents.\<close>

theorem dense_seed_misses_block:
  assumes "0 < blk" and "0 < kpool" and "2 * (2 * kpool * head) \<le> stride" and "length k = head" and "length s = head"
    and "blk * stride \<le> a"
  shows "seed_token_old kpool head (blk, t, k, s) mem a = mem a"
proof -
  define base where "base = (blk * 2 * kpool + t mod kpool) * head"
  have "t mod kpool * head + head \<le> kpool * head" by (intro cell_end) (simp add: assms(2))
  then have "base + head \<le> blk * (2 * kpool * head) + kpool * head" by (simp add: base_def algebra_simps)
  then have "base + kpool * head + head \<le> (blk + 1) * (2 * kpool * head)" by (simp add: algebra_simps)
  also have "\<dots> \<le> blk * (2 * (2 * kpool * head))" using assms(1) by (cases blk) (simp_all add: algebra_simps)
  also have "\<dots> \<le> blk * stride" using assms(3) by (rule mult_le_mono2)
  finally have "base + kpool * head + head \<le> a" using assms(6) by simp
  then show ?thesis using assms(4,5) by (simp add: base_def [symmetric] store_vec_out)
qed

definition demo_tail :: tail_cache where
  "demo_tail = \<lparr>tc_bf16 = True, tc_key_bf16 = True, tc_ndim = 4, tc_shape1 = 2, tc_stride0 = 20, tc_stride1 = 4, tc_stride2 = 2, tc_stride3 = 1\<rparr>"

theorem seeded_tail_reads_back_witness:
  "\<exists>mem'. kpool_tail_seed demo_tail 2 2 [(1, 5, [1, 2], [3, 4]), (1, 6, [5, 6], [7, 8])] (\<lambda>a. 0 :: int) = Inr mem'
     \<and> map (tail_at demo_tail mem' 1 1 1) [0..<2] = [3, 4]"
  using seeded_tail_reads_back [of demo_tail 2 2 "[(1, 5, [1, 2], [3, 4]), (1, 6, [5, 6], [7, 8])]" "\<lambda>a. 0 :: int"]
  by (auto simp: demo_tail_def strides_ok_def seed_sized_def seed_cell_def)

theorem dense_seed_misses_block_witness: "seed_token_old 2 2 (1, 5, [1, 2], [3, 4]) (\<lambda>a. 0 :: int) 22 = 0"
  using dense_seed_misses_block [of 1 2 2 20 "[1, 2]" "[3, 4 :: int]" 22 5 "\<lambda>a. 0"] by simp

end
