(* ===== verification/Mamba_Bind.thy ===== *)
theory Mamba_Bind
  imports Py_Text
begin

text \<open>
  The state index of a resumed request in the hybrid model state, as
  \<^verbatim>\<open>overlay/patch_w28_correctness.py\<close> leaves it: the KV-cache configuration is bound once, the Mamba groups
  are resolved and validated there, and the index of a request is counted in Mamba blocks. The device tensor of
  indices is a function of the request slot.
\<close>

record mamba_spec =
  ms_block_size :: int
  ms_num_speculative_blocks :: int
  ms_mamba_cache_mode :: string

datatype group_spec = MambaGroup mamba_spec | OtherGroup

record hybrid_state =
  hs_align_mode :: bool
  hs_group_ids :: "nat list"
  hs_spec :: "mamba_spec option"
  hs_state_idx :: "nat \<Rightarrow> int"

text \<open>The loop over the groups: the ids and the specs of the Mamba groups, in order.\<close>

fun mamba_groups :: "nat \<Rightarrow> group_spec list \<Rightarrow> (nat \<times> mamba_spec) list" where
  "mamba_groups i [] = []"
| "mamba_groups i (OtherGroup # gs) = mamba_groups (Suc i) gs"
| "mamba_groups i (MambaGroup s # gs) = (i, s) # mamba_groups (Suc i) gs"

definition same_scheduling :: "mamba_spec \<Rightarrow> mamba_spec \<Rightarrow> bool" where
  "same_scheduling representative s \<longleftrightarrow> ms_block_size s = ms_block_size representative
     \<and> ms_num_speculative_blocks s = ms_num_speculative_blocks representative
     \<and> ms_mamba_cache_mode s = ms_mamba_cache_mode representative"

definition set_kv_cache_config :: "group_spec list \<Rightarrow> hybrid_state \<Rightarrow> hybrid_state res" where
  "set_kv_cache_config groups st =
     (if \<not> hs_align_mode st then Inr st
      else case mamba_groups 0 groups of
             [] \<Rightarrow> Inl AssertionError
           | (i, representative) # rest \<Rightarrow>
               if list_all (same_scheduling representative) (map snd ((i, representative) # rest))
               then Inr (st\<lparr>hs_group_ids := map fst ((i, representative) # rest), hs_spec := Some representative\<rparr>)
               else Inl AssertionError)"

definition get_mamba_group_info :: "hybrid_state \<Rightarrow> (nat list \<times> mamba_spec) res" where
  "get_mamba_group_info st = (case hs_spec st of None \<Rightarrow> Inl AssertionError | Some s \<Rightarrow> Inr (hs_group_ids st, s))"

definition seed_index :: "int \<Rightarrow> int \<Rightarrow> int res" where
  "seed_index num_computed_tokens block_size =
     (if block_size = 0 then Inl ZeroDivisionError else Inr ((num_computed_tokens - 1) div block_size))"

definition add_request_old :: "int \<Rightarrow> nat \<Rightarrow> int \<Rightarrow> hybrid_state \<Rightarrow> hybrid_state res" where
  "add_request_old cache_block_size req_index num_computed_tokens st =
     (if hs_align_mode st
      then res_bind (seed_index num_computed_tokens cache_block_size) (\<lambda>i. Inr (st\<lparr>hs_state_idx := (hs_state_idx st)(req_index := i)\<rparr>))
      else Inr st)"

definition add_request :: "nat \<Rightarrow> int \<Rightarrow> hybrid_state \<Rightarrow> hybrid_state res" where
  "add_request req_index num_computed_tokens st =
     (if hs_align_mode st
      then res_bind (get_mamba_group_info st) (\<lambda>(_, spec).
           res_bind (seed_index num_computed_tokens (ms_block_size spec)) (\<lambda>i. Inr (st\<lparr>hs_state_idx := (hs_state_idx st)(req_index := i)\<rparr>)))
      else Inr st)"

text \<open>Requests admitted one after the other.\<close>

fun add_requests :: "(nat \<times> int) list \<Rightarrow> hybrid_state \<Rightarrow> hybrid_state res" where
  "add_requests [] st = Inr st"
| "add_requests ((req, n) # rs) st = res_bind (add_request req n st) (add_requests rs)"

subsection \<open>The bound groups\<close>

lemma mamba_groups_iff: "(j, s) \<in> set (mamba_groups i gs) \<longleftrightarrow> i \<le> j \<and> j < i + length gs \<and> gs ! (j - i) = MambaGroup s"
proof (induction i gs rule: mamba_groups.induct)
  case (2 i gs)
  then show ?case by (cases "j = i") (auto simp: nth_Cons' Suc_le_eq)
next
  case (3 i s' gs)
  then show ?case by (cases "j = i") (auto simp: nth_Cons' Suc_le_eq)
qed simp

lemma mamba_groups_mem: "(\<exists>j. (j, s) \<in> set (mamba_groups i gs)) \<longleftrightarrow> MambaGroup s \<in> set gs"
  by (induction i gs rule: mamba_groups.induct) auto

definition bound :: "group_spec list \<Rightarrow> hybrid_state \<Rightarrow> bool" where
  "bound groups st \<longleftrightarrow> hs_align_mode st
     \<and> (\<forall>j. j \<in> set (hs_group_ids st) \<longleftrightarrow> j < length groups \<and> (\<exists>s. groups ! j = MambaGroup s))
     \<and> (\<exists>rep. hs_spec st = Some rep \<and> (\<forall>s. MambaGroup s \<in> set groups \<longrightarrow> same_scheduling rep s))"

lemma set_kv_cache_config_bound:
  assumes "set_kv_cache_config groups st = Inr st'" and "hs_align_mode st"
  shows "bound groups st' \<and> hs_state_idx st' = hs_state_idx st"
proof -
  from assms obtain i rep rest where g: "mamba_groups 0 groups = (i, rep) # rest"
    and ok: "list_all (same_scheduling rep) (map snd ((i, rep) # rest))"
    and st': "st' = st\<lparr>hs_group_ids := map fst ((i, rep) # rest), hs_spec := Some rep\<rparr>"
    by (auto simp: set_kv_cache_config_def split: list.splits if_splits prod.splits)
  have "j \<in> set (hs_group_ids st') \<longleftrightarrow> (\<exists>s. (j, s) \<in> set (mamba_groups 0 groups))" for j
    unfolding g st' by force
  moreover have "same_scheduling rep s" if "MambaGroup s \<in> set groups" for s
  proof -
    from that obtain j where "j < length groups" "groups ! j = MambaGroup s" by (auto simp: in_set_conv_nth)
    then have "(j, s) \<in> set (mamba_groups 0 groups)" by (simp add: mamba_groups_iff)
    with ok show ?thesis unfolding g [symmetric] by (force simp: list_all_iff)
  qed
  ultimately show ?thesis using st' assms(2) unfolding bound_def by (auto simp: mamba_groups_iff)
qed

text \<open>The block of a resumed request: the one with its last computed token, or the one before all of them.\<close>

lemma seed_index_block:
  assumes "0 < bs" and "seed_index n bs = Inr i"
  shows "i * bs \<le> n - 1 \<and> n - 1 < (i + 1) * bs"
  using assms floor_to_le [of bs "n - 1"] floor_to_gt [of bs "n - 1"] by (auto simp: seed_index_def floor_to_def algebra_simps)

lemma add_request_bound:
  assumes "bound groups st" and "\<forall>s. MambaGroup s \<in> set groups \<longrightarrow> 0 < ms_block_size s" and "hs_group_ids st \<noteq> []"
  shows "\<exists>st'. add_request req n st = Inr st' \<and> bound groups st' \<and> hs_group_ids st' = hs_group_ids st
    \<and> (\<forall>s. MambaGroup s \<in> set groups \<longrightarrow> hs_state_idx st' req * ms_block_size s \<le> n - 1 \<and> n - 1 < (hs_state_idx st' req + 1) * ms_block_size s)
    \<and> (\<forall>r. r \<noteq> req \<longrightarrow> hs_state_idx st' r = hs_state_idx st r)"
proof -
  from assms(1) obtain rep where rep: "hs_spec st = Some rep" and same: "\<And>s. MambaGroup s \<in> set groups \<Longrightarrow> same_scheduling rep s"
    and al: "hs_align_mode st" by (auto simp: bound_def)
  from assms(1,3) obtain s0 where "MambaGroup s0 \<in> set groups" unfolding bound_def by (metis list.set_intros(1) neq_Nil_conv nth_mem)
  then have pos: "0 < ms_block_size rep" using assms(2) same by (auto simp: same_scheduling_def)
  then have ok: "seed_index n (ms_block_size rep) = Inr ((n - 1) div ms_block_size rep)" by (simp add: seed_index_def)
  let ?st = "st\<lparr>hs_state_idx := (hs_state_idx st)(req := (n - 1) div ms_block_size rep)\<rparr>"
  have "add_request req n st = Inr ?st" using al rep ok by (simp add: add_request_def get_mamba_group_info_def)
  moreover have "bound groups ?st" using assms(1) by (simp add: bound_def)
  moreover have "ms_block_size s = ms_block_size rep" if "MambaGroup s \<in> set groups" for s
    using same [OF that] by (simp add: same_scheduling_def)
  ultimately show ?thesis using seed_index_block [OF pos ok] by (intro exI [of _ ?st]) simp
qed

text \<open>The token before the next one to compute lies in the block the index names, for every Mamba group.\<close>

definition in_block :: "group_spec list \<Rightarrow> hybrid_state \<Rightarrow> nat \<times> int \<Rightarrow> bool" where
  "in_block groups st r = (case r of (req, n) \<Rightarrow> \<forall>s. MambaGroup s \<in> set groups \<longrightarrow>
     hs_state_idx st req * ms_block_size s \<le> n - 1 \<and> n - 1 < (hs_state_idx st req + 1) * ms_block_size s)"

lemma add_requests_bound:
  assumes "bound groups st" and "\<forall>s. MambaGroup s \<in> set groups \<longrightarrow> 0 < ms_block_size s" and "hs_group_ids st \<noteq> []"
    and "distinct (map fst rs)"
  shows "\<exists>st'. add_requests rs st = Inr st' \<and> bound groups st' \<and> list_all (in_block groups st') rs
    \<and> (\<forall>r. r \<notin> fst ` set rs \<longrightarrow> hs_state_idx st' r = hs_state_idx st r)"
  using assms(1,3,4)
proof (induction rs arbitrary: st)
  case (Cons a rs)
  obtain req n where a: "a = (req, n)" by (cases a)
  from add_request_bound [OF Cons.prems(1) assms(2) Cons.prems(2), of req n] obtain st1
    where s1: "add_request req n st = Inr st1" "bound groups st1" "hs_group_ids st1 \<noteq> []" "in_block groups st1 (req, n)"
      "\<forall>r. r \<noteq> req \<longrightarrow> hs_state_idx st1 r = hs_state_idx st r" using Cons.prems(2) by (auto simp: in_block_def)
  from Cons.IH [OF s1(2,3)] Cons.prems(3) obtain st2
    where s2: "add_requests rs st1 = Inr st2" "bound groups st2" "list_all (in_block groups st2) rs"
      "\<forall>r. r \<notin> fst ` set rs \<longrightarrow> hs_state_idx st2 r = hs_state_idx st1 r" by auto
  have "req \<notin> fst ` set rs" using Cons.prems(3) a by simp
  with s1(4) s2(4) have "in_block groups st2 (req, n)" by (simp add: in_block_def)
  with s1 s2 show ?case by (auto simp: a)
qed simp

lemma unbound_refuses: "hs_align_mode st \<Longrightarrow> hs_spec st = None \<Longrightarrow> add_request req n st = Inl AssertionError"
  by (simp add: add_request_def get_mamba_group_info_def)

lemma set_kv_cache_config_refuses:
  assumes "set_kv_cache_config groups st = Inl e"
  shows "e = AssertionError \<and> ((\<forall>s. MambaGroup s \<notin> set groups)
    \<or> (\<exists>s s'. MambaGroup s \<in> set groups \<and> MambaGroup s' \<in> set groups \<and> \<not> same_scheduling s s'))"
proof (cases "mamba_groups 0 groups")
  case Nil
  with assms mamba_groups_mem [of _ 0 groups] show ?thesis by (auto simp: set_kv_cache_config_def split: if_splits)
next
  case (Cons p rest)
  obtain i rep where p: "p = (i, rep)" by (cases p)
  from assms Cons p have e: "e = AssertionError" and "\<not> list_all (same_scheduling rep) (map snd (mamba_groups 0 groups))"
    by (auto simp: set_kv_cache_config_def split: if_splits)
  then obtain j s where "(j, s) \<in> set (mamba_groups 0 groups)" "\<not> same_scheduling rep s" by (auto simp: list_all_iff)
  moreover have "(i, rep) \<in> set (mamba_groups 0 groups)" using Cons p by simp
  ultimately show ?thesis using mamba_groups_mem [of _ 0 groups] e by blast
qed

text \<open>Resumed requests are indexed in Mamba blocks. Binding a configuration fails only if it has no Mamba group or
  two that disagree on their scheduling; once it is bound, every request can be admitted, and after any sequence
  of admissions to different slots the index of each one names the block of every Mamba group that holds the last
  token computed for it (block -1 if there is none).\<close>

theorem resumed_index_in_mamba_blocks:
  assumes "hs_align_mode st" and "list_all (\<lambda>(_, s). 0 < ms_block_size s) (mamba_groups 0 groups)" and "distinct (map fst rs)"
  shows "case set_kv_cache_config groups st of
      Inl e \<Rightarrow> e = AssertionError \<and> ((\<forall>s. MambaGroup s \<notin> set groups)
         \<or> (\<exists>s s'. MambaGroup s \<in> set groups \<and> MambaGroup s' \<in> set groups \<and> \<not> same_scheduling s s'))
    | Inr st0 \<Rightarrow> (\<exists>st'. add_requests rs st0 = Inr st' \<and> bound groups st' \<and> list_all (in_block groups st') rs)"
proof (cases "set_kv_cache_config groups st")
  case (Inl e)
  with set_kv_cache_config_refuses [OF Inl] show ?thesis by simp
next
  case (Inr st0)
  from set_kv_cache_config_bound [OF Inr assms(1)] have b: "bound groups st0" ..
  have ne: "hs_group_ids st0 \<noteq> []" using Inr assms(1) by (auto simp: set_kv_cache_config_def split: list.splits if_splits prod.splits)
  have "\<forall>s. MambaGroup s \<in> set groups \<longrightarrow> 0 < ms_block_size s"
    using assms(2) mamba_groups_mem [of _ 0 groups] by (fastforce simp: list_all_iff)
  from add_requests_bound [OF b this ne assms(3)] Inr show ?thesis by auto
qed

subsection \<open>Witness\<close>

definition demo_mspec :: mamba_spec where
  "demo_mspec = \<lparr>ms_block_size = 16, ms_num_speculative_blocks = 2, ms_mamba_cache_mode = ''align''\<rparr>"

definition demo_hybrid :: hybrid_state where
  "demo_hybrid = \<lparr>hs_align_mode = True, hs_group_ids = [], hs_spec = None, hs_state_idx = (\<lambda>_. 0)\<rparr>"

text \<open>A request resumed after 40 tokens is in block 2 of size 16; the scheduler block size 64 would name block 0.\<close>

theorem resumed_index_in_mamba_blocks_witness:
  "\<exists>st'. add_requests [(3, 40)] (demo_hybrid\<lparr>hs_group_ids := [1], hs_spec := Some demo_mspec\<rparr>) = Inr st'
     \<and> hs_state_idx st' 3 * 16 \<le> 39 \<and> 39 < (hs_state_idx st' 3 + 1) * 16"
  using resumed_index_in_mamba_blocks [of demo_hybrid "[OtherGroup, MambaGroup demo_mspec]" "[(3, 40)]"]
  by (auto simp: set_kv_cache_config_def same_scheduling_def demo_hybrid_def demo_mspec_def in_block_def)

lemma demo_old_index: "seed_index 40 64 = Inr 0" "seed_index 40 16 = Inr 2"
  by (simp_all add: seed_index_def)

end
