(* ===== verification/Kernel_Texts.thy ===== *)
theory Kernel_Texts
  imports Py_Text
begin

text \<open>
  The marks, anchors and replacement texts of the installers that patch kernels and model code at several
  places, line by line, as their modules under \<^verbatim>\<open>overlay/\<close> define them.
\<close>

subsection \<open>\<^verbatim>\<open>overlay/patch_kpool_tail_slotmap.py\<close>\<close>

definition KS_MARK :: string where
  \<open>KS_MARK = lns
     [''    # [glm53-kpool-tail-slotmap] Never index past the request's'']\<close>

definition KS_ANCHOR :: string where
  \<open>KS_ANCHOR = lns
     [''        block_indices = ('',
      ''            virtual_block_indices * BLOCKS_PER_KV_BLOCK'',
      ''            + local_block_offsets // block_size'',
      ''        )'',
      ''        block_numbers = tl.load('',
      ''            block_table_ptr + row_offset + block_indices,'',
      ''            mask=mask & is_local,'',
      ''            other=0,'',
      ''        ).to(tl.int64)'']\<close>

definition KS_PATCHED :: string where
  \<open>KS_PATCHED = lns
     [''        block_indices = ('',
      ''            virtual_block_indices * BLOCKS_PER_KV_BLOCK'',
      ''            + local_block_offsets // block_size'',
      ''        )'',
      ''        # [glm53-kpool-tail-slotmap] Never index past the request's'',
      ''        # block-table row. KpoolTailSpec is a one-block circular scratch'',
      ''        # whose row is a single entry; without this clamp every token at'',
      ''        # pos >= block_size reads adjacent memory and the kpool kernels'',
      ''        # write through garbage. Clamping pins that group to entry 0:'',
      ''        # block_table[req, 0] * block_size + pos % block_size.'',
      ''        # For every other group this is identity.'',
      ''        block_indices = tl.minimum(block_indices, block_table_stride - 1)'',
      ''        block_numbers = tl.load('',
      ''            block_table_ptr + row_offset + block_indices,'',
      ''            mask=mask & is_local,'',
      ''            other=0,'',
      ''        ).to(tl.int64)'']\<close>

subsection \<open>\<^verbatim>\<open>overlay/patch_kpool_tail_correctness.py\<close>\<close>

definition KT_KPOOL_DOC_MARK :: string where
  \<open>KT_KPOOL_DOC_MARK = ''    stride, so blocks are addressed through ``TAIL_BLOCK_ELEMS`` /''\<close>

definition KT_KPOOL_DOC_ANCHOR :: string where
  \<open>KT_KPOOL_DOC_ANCHOR = lns
     [''    ``tail[block, {0:K, 1:score}, pos % KPOOL, :]``.'',
      ''    """'']\<close>

definition KT_KPOOL_DOC_PATCHED :: string where
  \<open>KT_KPOOL_DOC_PATCHED = lns
     [''    ``tail[block, {0:K, 1:score}, pos % KPOOL, :]``.'',
      '''',
      ''    The tail cache aliases the indexer cache with the indexer's (padded) block'',
      ''    stride, so blocks are addressed through ``TAIL_BLOCK_ELEMS`` /'',
      ''    ``KPOOL_HEAD`` (``tail.stride(0)`` / ``tail.stride(1)``), never as a dense'',
      ''    ``[num_blocks, 2, KPOOL, HEAD_DIM]`` array.'',
      ''    """'']\<close>

definition KT_KPOOL_SIG_ANCHOR :: string where
  \<open>KT_KPOOL_SIG_ANCHOR = lns
     [''    tslot_ptr,'',
      ''    tail_ptr,'',
      ''    n_tokens,'',
      ''    HEAD_DIM: tl.constexpr,'',
      ''    KPOOL: tl.constexpr,'',
      ''    BLOCK_D: tl.constexpr,'',
      ''):'']\<close>

definition KT_KPOOL_SIG_PATCHED :: string where
  \<open>KT_KPOOL_SIG_PATCHED = lns
     [''    tslot_ptr,'',
      ''    tail_ptr,'',
      ''    n_tokens,'',
      ''    TAIL_BLOCK_ELEMS: tl.constexpr,'',
      ''    KPOOL_HEAD: tl.constexpr,'',
      ''    HEAD_DIM: tl.constexpr,'',
      ''    KPOOL: tl.constexpr,'',
      ''    BLOCK_D: tl.constexpr,'',
      ''):'']\<close>

definition KT_KPOOL_BODY_ANCHOR :: string where
  \<open>KT_KPOOL_BODY_ANCHOR = lns
     [''    base = (blk * 2 * KPOOL + t % KPOOL) * HEAD_DIM'',
      ''    k = tl.load(key_ptr + i * HEAD_DIM + offs, mask=m)'',
      ''    s = tl.load(score_ptr + i * HEAD_DIM + offs, mask=m)'',
      ''    tl.store(tail_ptr + base + offs, k, mask=m)'',
      ''    tl.store(tail_ptr + base + KPOOL * HEAD_DIM + offs, s, mask=m)'']\<close>

definition KT_KPOOL_BODY_PATCHED :: string where
  \<open>KT_KPOOL_BODY_PATCHED = lns
     [''    base = blk * TAIL_BLOCK_ELEMS + (t % KPOOL) * HEAD_DIM'',
      ''    k = tl.load(key_ptr + i * HEAD_DIM + offs, mask=m)'',
      ''    s = tl.load(score_ptr + i * HEAD_DIM + offs, mask=m)'',
      ''    tl.store(tail_ptr + base + offs, k, mask=m)'',
      ''    tl.store(tail_ptr + base + KPOOL_HEAD + offs, s, mask=m)'']\<close>

definition KT_KPOOL_HOST_MARK :: string where
  \<open>KT_KPOOL_HOST_MARK = lns
     [''    assert tail_kv_cache.ndim == 4 and tail_kv_cache.shape[1] == 2'']\<close>

definition KT_KPOOL_HOST_ANCHOR :: string where
  \<open>KT_KPOOL_HOST_ANCHOR = lns
     [''    """Seed the paged tail cache from a prefill batch (see the kernel)."""'',
      ''    assert tail_kv_cache.dtype == torch.bfloat16'',
      ''    assert key.dtype == torch.bfloat16'']\<close>

definition KT_KPOOL_HOST_PATCHED :: string where
  \<open>KT_KPOOL_HOST_PATCHED = lns
     [''    """Seed the paged tail cache from a prefill batch (see the kernel)."""'',
      ''    assert tail_kv_cache.dtype == torch.bfloat16'',
      ''    assert tail_kv_cache.ndim == 4 and tail_kv_cache.shape[1] == 2'',
      ''    assert tail_kv_cache.stride(3) == 1 and tail_kv_cache.stride(2) == head_dim'',
      ''    assert key.dtype == torch.bfloat16'']\<close>

definition KT_KPOOL_CALL_ANCHOR :: string where
  \<open>KT_KPOOL_CALL_ANCHOR = lns
     [''    _kpool_tail_seed_kernel[(n,)]('',
      ''        key,'',
      ''        gate_score,'',
      ''        tslot,'',
      ''        tail_kv_cache,'',
      ''        n,'',
      ''        HEAD_DIM=head_dim,'']\<close>

definition KT_KPOOL_CALL_PATCHED :: string where
  \<open>KT_KPOOL_CALL_PATCHED = lns
     [''    _kpool_tail_seed_kernel[(n,)]('',
      ''        key,'',
      ''        gate_score,'',
      ''        tslot,'',
      ''        tail_kv_cache,'',
      ''        n,'',
      ''        TAIL_BLOCK_ELEMS=tail_kv_cache.stride(0),'',
      ''        KPOOL_HEAD=tail_kv_cache.stride(1),'',
      ''        HEAD_DIM=head_dim,'']\<close>

definition KT_MAMBA_MARK :: string where
  \<open>KT_MAMBA_MARK = lns
     [''            positions=input_batch.positions,'']\<close>

definition KT_MAMBA_ANCHOR :: string where
  \<open>KT_MAMBA_ANCHOR = lns
     [''            dcp_local_seq_lens=input_batch.dcp_local_seq_lens,'',
      ''            model_specific_attn_metadata=mamba_attn_metadata,'']\<close>

definition KT_MAMBA_PATCHED :: string where
  \<open>KT_MAMBA_PATCHED = lns
     [''            dcp_local_seq_lens=input_batch.dcp_local_seq_lens,'',
      ''            positions=input_batch.positions,'',
      ''            model_specific_attn_metadata=mamba_attn_metadata,'']\<close>

definition KT_INDEXER_SIG_MARK :: string where
  \<open>KT_INDEXER_SIG_MARK = lns
     [''    out: torch.Tensor | None = None,'']\<close>

definition KT_INDEXER_SIG_ANCHOR :: string where
  \<open>KT_INDEXER_SIG_ANCHOR = lns
     [''    num_actual_tokens: int,'',
      ''    num_reqs: int,'',
      ''    kpool: int,'',
      '') -> torch.Tensor:'']\<close>

definition KT_INDEXER_SIG_PATCHED :: string where
  \<open>KT_INDEXER_SIG_PATCHED = lns
     [''    num_actual_tokens: int,'',
      ''    num_reqs: int,'',
      ''    kpool: int,'',
      ''    out: torch.Tensor | None = None,'',
      '') -> torch.Tensor:'']\<close>

definition KT_INDEXER_DOC_ANCHOR :: string where
  \<open>KT_INDEXER_DOC_ANCHOR = lns
     [''    Pure torch (no Triton, no device sync): the indexer op consumes the tail'',
      ''    slot mapping on its eager break, so the returned tensor need not be the'',
      ''    persistent ``BlockTables`` buffer.'',
      ''    """'']\<close>

definition KT_INDEXER_DOC_PATCHED :: string where
  \<open>KT_INDEXER_DOC_PATCHED = lns
     [''    Pure torch (no Triton, no device sync): the indexer op consumes the tail'',
      ''    slot mapping on its eager break. When ``out`` is supplied the mapping is'',
      ''    written into that caller-owned buffer, whose address must stay stable'',
      ''    across CUDA graph replays; otherwise a fresh clone is returned.'',
      ''    """'']\<close>

definition KT_INDEXER_OUT_MARK :: string where
  \<open>KT_INDEXER_OUT_MARK = lns
     [''    # [glm53-kpool-tail-correctness] Write into caller-owned persistent'']\<close>

definition KT_INDEXER_OUT_ANCHOR :: string where
  \<open>KT_INDEXER_OUT_ANCHOR = lns
     [''    out = slot_mapping.clone()'',
      ''    if num_actual_tokens == 0:'',
      ''        return out'']\<close>

definition KT_INDEXER_OUT_PATCHED :: string where
  \<open>KT_INDEXER_OUT_PATCHED = lns
     [''    # [glm53-kpool-tail-correctness] Write into caller-owned persistent'',
      ''    # storage. A fresh clone() per step is recorded by CUDA graph capture; on'',
      ''    # replay the tail kernels read a buffer that has since been freed or'',
      ''    # reused, which dies with Xid 13 Out Of Range Address right after capture.'',
      ''    # The buffer is passed pre-viewed to this tensor's exact shape, so the'',
      ''    # exported metadata is shape-identical to the clone() it replaces.'',
      ''    if out is None:'',
      ''        out = slot_mapping.clone()'',
      ''    else:'',
      ''        if out.shape != slot_mapping.shape:'',
      ''            raise ValueError('',
      ''                "kpool tail slot-mapping buffer shape mismatch "'',
      ''                f"({tuple(out.shape)} != {tuple(slot_mapping.shape)})"'',
      ''            )'',
      ''        out.copy_(slot_mapping)'',
      ''    if num_actual_tokens == 0:'',
      ''        return out'']\<close>

definition KT_INDEXER_INIT_MARK :: string where
  \<open>KT_INDEXER_INIT_MARK = lns
     [''        self._tail_slot_mapping = torch.empty('']\<close>

definition KT_INDEXER_INIT_ANCHOR :: string where
  \<open>KT_INDEXER_INIT_ANCHOR = lns
     [''        # No indexer-builder buffers (expanded_block_table / scheduler_metadata /'',
      ''        # compressed_slot_mapping) -- the tail is storage-only and exports only'',
      ''        # slot_mapping, which is rebuilt per step from the group's block table.'',
      ''        super().__init__(kv_cache_spec, layer_names, vllm_config, device)'']\<close>

definition KT_INDEXER_INIT_PATCHED :: string where
  \<open>KT_INDEXER_INIT_PATCHED = lns
     [''        # No indexer-builder buffers (expanded_block_table / scheduler_metadata /'',
      ''        # compressed_slot_mapping) -- the tail is storage-only and exports only'',
      ''        # slot_mapping, which is rebuilt per step from the group's block table.'',
      ''        super().__init__(kv_cache_spec, layer_names, vllm_config, device)'',
      ''        # [glm53-kpool-tail-correctness] Builder-owned persistent output. CUDA'',
      ''        # graph replay retains the slot-mapping address, so returning a fresh'',
      ''        # clone() every step leaves the captured kernels reading freed memory.'',
      ''        self._tail_slot_mapping = torch.empty('',
      ''            vllm_config.scheduler_config.max_num_batched_tokens,'',
      ''            dtype=torch.int64,'',
      ''            device=device,'',
      ''        )'']\<close>

definition KT_INDEXER_CALL_MARK :: string where
  \<open>KT_INDEXER_CALL_MARK = lns
     [''            tail_slot_mapping = self._tail_slot_mapping['']\<close>

definition KT_INDEXER_CALL_ANCHOR :: string where
  \<open>KT_INDEXER_CALL_ANCHOR = lns
     [''            slot_mapping = compute_kpool_tail_slot_mapping('',
      ''                slot_mapping,'',
      ''                common_attn_metadata.block_table_tensor,'',
      ''                common_attn_metadata.query_start_loc,'',
      ''                positions,'',
      ''                common_attn_metadata.num_actual_tokens,'',
      ''                common_attn_metadata.num_reqs,'',
      ''                self.kv_cache_spec.block_size,'',
      ''            )'']\<close>

definition KT_INDEXER_CALL_PATCHED :: string where
  \<open>KT_INDEXER_CALL_PATCHED = lns
     [''            # [glm53-kpool-tail-correctness] Builder-owned persistent storage,'',
      ''            # viewed to the batch shape so the exported metadata is unchanged.'',
      ''            # ``view_as`` never copies, so the address captured by CUDA graphs'',
      ''            # is the stable buffer base, not a per-step allocation.'',
      ''            tail_slot_mapping = self._tail_slot_mapping['',
      ''                : slot_mapping.numel()'',
      ''            ].view_as(slot_mapping)'',
      ''            slot_mapping = compute_kpool_tail_slot_mapping('',
      ''                slot_mapping,'',
      ''                common_attn_metadata.block_table_tensor,'',
      ''                common_attn_metadata.query_start_loc,'',
      ''                positions,'',
      ''                common_attn_metadata.num_actual_tokens,'',
      ''                common_attn_metadata.num_reqs,'',
      ''                self.kv_cache_spec.block_size,'',
      ''                out=tail_slot_mapping,'',
      ''            )'']\<close>

definition KT_BLOCKTABLE_MARK :: string where
  \<open>KT_BLOCKTABLE_MARK = lns
     [''        in_range = block_indices < block_table_stride'']\<close>

definition KT_BLOCKTABLE_ANCHOR :: string where
  \<open>KT_BLOCKTABLE_ANCHOR = lns
     [''        block_indices = positions // (block_size * CP_SIZE)'',
      ''        block_offsets = positions % (block_size * CP_SIZE)'',
      ''        block_numbers = tl.load('',
      ''            block_table_ptr + req_state_idx * block_table_stride + block_indices'',
      ''        )'',
      '''',
      ''        if CP_SIZE == 1:'',
      ''            # Common case: Context parallelism is not used.'',
      ''            slot_ids = block_numbers * block_size + block_offsets'',
      ''        else:'',
      ''            # Context parallelism is used.'',
      ''            is_local = block_offsets // CP_INTERLEAVE % CP_SIZE == cp_rank'',
      ''            rounds = block_offsets // (CP_INTERLEAVE * CP_SIZE)'',
      ''            remainder = block_offsets % CP_INTERLEAVE'',
      ''            local_offsets = rounds * CP_INTERLEAVE + remainder'',
      ''            slot_ids = block_numbers * block_size + local_offsets'',
      ''            slot_ids = tl.where(is_local, slot_ids, PAD_ID)'']\<close>

definition KT_BLOCKTABLE_PATCHED :: string where
  \<open>KT_BLOCKTABLE_PATCHED = lns
     [''        block_indices = positions // (block_size * CP_SIZE)'',
      ''        block_offsets = positions % (block_size * CP_SIZE)'',
      ''        # [glm53-kpool-tail-correctness] The kpool tail group's block-table row'',
      ''        # is one block wide (padded to the block-table alignment), so its column'',
      ''        # index runs off the end of the row -- and of the whole allocation for'',
      ''        # the last request -- for every pos >= block_size * alignment. Bound the'',
      ''        # column index; for any group whose row spans the sequence this is'',
      ''        # identity, and the tail group's own builder supplies the real mapping.'',
      ''        in_range = block_indices < block_table_stride'',
      ''        block_numbers = tl.load('',
      ''            block_table_ptr + req_state_idx * block_table_stride + block_indices,'',
      ''            mask=in_range,'',
      ''            other=0,'',
      ''        )'',
      '''',
      ''        if CP_SIZE == 1:'',
      ''            # Common case: Context parallelism is not used.'',
      ''            slot_ids = block_numbers * block_size + block_offsets'',
      ''            slot_ids = tl.where(in_range, slot_ids, PAD_ID)'',
      ''        else:'',
      ''            # Context parallelism is used.'',
      ''            is_local = block_offsets // CP_INTERLEAVE % CP_SIZE == cp_rank'',
      ''            rounds = block_offsets // (CP_INTERLEAVE * CP_SIZE)'',
      ''            remainder = block_offsets % CP_INTERLEAVE'',
      ''            local_offsets = rounds * CP_INTERLEAVE + remainder'',
      ''            slot_ids = block_numbers * block_size + local_offsets'',
      ''            slot_ids = tl.where(is_local & in_range, slot_ids, PAD_ID)'']\<close>

subsection \<open>\<^verbatim>\<open>overlay/patch_w28_correctness.py\<close>\<close>

definition W8_INTERFACE_MARK :: string where
  \<open>W8_INTERFACE_MARK = lns
     [''    def set_kv_cache_config(  # [glm53-w28-correctness]'']\<close>

definition W8_INTERFACE_ANCHOR :: string where
  \<open>W8_INTERFACE_ANCHOR = lns
     [''    def apply_staged_writes(self) -> None:'',
      ''        return None'',
      '''',
      ''    def get_additional_cg_support(self) -> tuple[AttentionCGSupport, str | None]:'']\<close>

definition W8_INTERFACE_PATCHED :: string where
  \<open>W8_INTERFACE_PATCHED = lns
     [''    def apply_staged_writes(self) -> None:'',
      ''        return None'',
      '''',
      ''    def set_kv_cache_config(  # [glm53-w28-correctness]'',
      ''        self, kv_cache_config: KVCacheConfig'',
      ''    ) -> None:'',
      ''        """Bind the resolved KV cache config before requests are admitted."""'',
      ''        return None'',
      '''',
      ''    def get_additional_cg_support(self) -> tuple[AttentionCGSupport, str | None]:'']\<close>

definition W8_RUNNER_MARK :: string where
  \<open>W8_RUNNER_MARK = lns
     [''        self.model_state.set_kv_cache_config(  # [glm53-w28-correctness]'']\<close>

definition W8_RUNNER_ANCHOR :: string where
  \<open>W8_RUNNER_ANCHOR = lns
     [''        self.attn_groups, attn_cg_support, self.kernel_block_sizes = init_attn_backend('',
      ''            self.kv_cache_config, self.vllm_config, self.device'',
      ''        )'',
      ''        attn_cg_support = attn_cg_support.narrow('']\<close>

definition W8_RUNNER_PATCHED :: string where
  \<open>W8_RUNNER_PATCHED = lns
     [''        self.attn_groups, attn_cg_support, self.kernel_block_sizes = init_attn_backend('',
      ''            self.kv_cache_config, self.vllm_config, self.device'',
      ''        )'',
      ''        self.model_state.set_kv_cache_config(  # [glm53-w28-correctness]'',
      ''            self.kv_cache_config'',
      ''        )'',
      ''        attn_cg_support = attn_cg_support.narrow('']\<close>

definition W8_MAMBA_BIND_MARK :: string where
  \<open>W8_MAMBA_BIND_MARK = lns
     [''    def set_kv_cache_config(  # [glm53-w28-correctness]'']\<close>

definition W8_MAMBA_BIND_ANCHOR :: string where
  \<open>W8_MAMBA_BIND_ANCHOR = lns
     [''    def add_request(self, req_index: int, new_req_data: NewRequestData) -> None:'',
      ''        super().add_request(req_index, new_req_data)'']\<close>

definition W8_MAMBA_BIND_PATCHED :: string where
  \<open>W8_MAMBA_BIND_PATCHED = lns
     [''    def set_kv_cache_config(  # [glm53-w28-correctness]'',
      ''        self, kv_cache_config: KVCacheConfig'',
      ''    ) -> None:'',
      ''        if not self._align_mode:'',
      ''            return'',
      ''        group_ids: list[int] = []'',
      ''        specs: list[MambaSpec] = []'',
      ''        for group_id, group in enumerate(kv_cache_config.kv_cache_groups):'',
      ''            spec = group.kv_cache_spec'',
      ''            if isinstance(spec, MambaSpec):'',
      ''                group_ids.append(group_id)'',
      ''                specs.append(spec)'',
      ''        assert specs, "no mamba layers in the model"'',
      ''        representative = specs[0]'',
      ''        assert all('',
      ''            spec.block_size == representative.block_size'',
      ''            and spec.num_speculative_blocks'',
      ''            == representative.num_speculative_blocks'',
      ''            and spec.mamba_cache_mode == representative.mamba_cache_mode'',
      ''            for spec in specs'',
      ''        ), "all mamba groups must share cache scheduling parameters"'',
      ''        self._mamba_group_ids = group_ids'',
      ''        self._mamba_spec = representative'',
      '''',
      ''    def add_request(self, req_index: int, new_req_data: NewRequestData) -> None:'',
      ''        super().add_request(req_index, new_req_data)'']\<close>

definition W8_MAMBA_SEED_MARK :: string where
  \<open>W8_MAMBA_SEED_MARK = lns
     [''            # [glm53-w28-correctness] The align table is in Mamba blocks.'']\<close>

definition W8_MAMBA_SEED_ANCHOR :: string where
  \<open>W8_MAMBA_SEED_ANCHOR = lns
     [''        if self._align_mode:'',
      ''            # Seed the running state block from the resumed/prefilled position.'',
      ''            self._mamba_state_idx_gpu[req_index].fill_('',
      ''                (new_req_data.num_computed_tokens - 1) // self.cache_config.block_size'',
      ''            )'',
      '''',
      ''    def _get_mamba_group_info('',
      ''        self, kv_cache_config: KVCacheConfig'',
      ''    ) -> tuple[list[int], MambaSpec]:'',
      ''        if self._mamba_spec is None:'',
      ''            group_ids: list[int] = []'',
      ''            specs: list[MambaSpec] = []'',
      ''            for i, group in enumerate(kv_cache_config.kv_cache_groups):'',
      ''                spec = group.kv_cache_spec'',
      ''                if isinstance(spec, MambaSpec):'',
      ''                    group_ids.append(i)'',
      ''                    specs.append(spec)'',
      ''            assert specs, "no mamba layers in the model"'',
      ''            assert all(specs[0] == s for s in specs)'',
      ''            self._mamba_group_ids = group_ids'',
      ''            self._mamba_spec = specs[0]'',
      ''        return self._mamba_group_ids, self._mamba_spec'']\<close>

definition W8_MAMBA_SEED_PATCHED :: string where
  \<open>W8_MAMBA_SEED_PATCHED = lns
     [''        if self._align_mode:'',
      ''            # Seed the running state block from the resumed/prefilled position.'',
      ''            # [glm53-w28-correctness] The align table is in Mamba blocks.'',
      ''            _, mamba_spec = self._get_mamba_group_info()'',
      ''            self._mamba_state_idx_gpu[req_index].fill_('',
      ''                (new_req_data.num_computed_tokens - 1) // mamba_spec.block_size'',
      ''            )'',
      '''',
      ''    def _get_mamba_group_info(self) -> tuple[list[int], MambaSpec]:'',
      ''        assert self._mamba_spec is not None, "KV cache config not bound"'',
      ''        return self._mamba_group_ids, self._mamba_spec'']\<close>

definition W8_MAMBA_CALLS_MARK :: string where
  \<open>W8_MAMBA_CALLS_MARK = lns
     [''        mamba_group_ids, mamba_spec = self._get_mamba_group_info()  # [glm53-w28-correctness]'']\<close>

definition W8_MAMBA_CALLS_ANCHOR :: string where
  \<open>W8_MAMBA_CALLS_ANCHOR = lns
     [''        mamba_group_ids, mamba_spec = self._get_mamba_group_info(kv_cache_config)'',
      ''        ctx = self._ensure_align_ctx(kv_cache_config, mamba_group_ids, block_tables)'']\<close>

definition W8_MAMBA_CALLS_PATCHED :: string where
  \<open>W8_MAMBA_CALLS_PATCHED = lns
     [''        mamba_group_ids, mamba_spec = self._get_mamba_group_info()  # [glm53-w28-correctness]'',
      ''        ctx = self._ensure_align_ctx(kv_cache_config, mamba_group_ids, block_tables)'']\<close>

definition W8_SM120_MARK :: string where
  \<open>W8_SM120_MARK = lns
     [''    masked_mha_available = False  # [glm53-w28-correctness]'']\<close>

definition W8_SM120_ANCHOR :: string where
  \<open>W8_SM120_ANCHOR = lns
     [''    is_sparse = True'',
      ''    supports_dense_mha_prefill = False'',
      '''',
      ''    def __init__('']\<close>

definition W8_SM120_PATCHED :: string where
  \<open>W8_SM120_PATCHED = lns
     [''    is_sparse = True'',
      ''    supports_dense_mha_prefill = False'',
      ''    # The sparse-MQA-only SM120 implementation does not define this'',
      ''    # capability, but the prefill dispatcher reads it for every sparse backend'',
      ''    # once num_mha_tokens > 0.'',
      ''    masked_mha_available = False  # [glm53-w28-correctness]'',
      '''',
      ''    def __init__('']\<close>

subsection \<open>\<^verbatim>\<open>overlay/patch_indexer_workspace.py\<close>\<close>

definition IW_HELPERS_SRC :: string where
  \<open>IW_HELPERS_SRC = lns
     ['''',
      '''',
      ''# [glm53-indexer-workspace] GLM-5.3-only prefill gather sizing.'',
      ''_GLM53_WORKSPACE_ENV = "GLM53_INDEXER_WORKSPACE"'',
      '''',
      '''',
      ''def _glm53_workspace_mode() -> str:'',
      ''    """Return the literal workspace mode; only an unset value defaults."""'',
      ''    raw = os.environ.get(_GLM53_WORKSPACE_ENV)'',
      ''    if raw is None:'',
      ''        return "stock"'',
      ''    if raw not in ("stock", "rightsize"):'',
      ''        raise ValueError('',
      ''            f"{_GLM53_WORKSPACE_ENV} must be exactly one of: stock rightsize "'',
      ''            f"(got: {raw!r})"'',
      ''        )'',
      ''    return raw'',
      '''',
      '''',
      ''def _glm53_glm5next_workspace_entries('',
      ''    vllm_config: VllmConfig,'',
      ''    index_kpool: int,'',
      '') -> int:'',
      ''    """Return the GLM kpool workspace, never a generic model workspace."""'',
      ''    stock = get_max_prefill_buffer_size(vllm_config)'',
      ''    if _glm53_workspace_mode() == "stock":'',
      ''        return stock'',
      '''',
      ''    ratio = int(index_kpool)'',
      ''    if ratio <= 1:'',
      ''        raise ValueError('',
      ''            "[glm53-indexer-workspace] rightsize requires GLM index_kpool > 1 "'',
      ''            f"(got {ratio})"'',
      ''        )'',
      ''    max_model_len = int(vllm_config.model_config.max_model_len)'',
      ''    max_num_seqs = int(vllm_config.scheduler_config.max_num_seqs)'',
      ''    if max_model_len <= 0 or max_num_seqs <= 0:'',
      ''        raise ValueError('',
      ''            "[glm53-indexer-workspace] rightsize requires positive "'',
      ''            f"max_model_len/max_num_seqs (got {max_model_len}/{max_num_seqs})"'',
      ''        )'',
      ''    spec_cfg = getattr(vllm_config, "speculative_config", None)'',
      ''    num_spec = int(getattr(spec_cfg, "num_speculative_tokens", 0) or 0)'',
      ''    span = max_model_len + max(0, num_spec)'',
      ''    per_req = -(-span // ratio)'',
      ''    entries = per_req * max_num_seqs'',
      '''',
      ''    # A rightsize arm that silently kept stock would produce a false-positive'',
      ''    # deployment receipt. Fail readiness instead.'',
      ''    if entries >= stock:'',
      ''        raise ValueError('',
      ''            "[glm53-indexer-workspace] rightsize does not narrow the stock "'',
      ''            f"workspace: computed={entries}, stock={stock}, "'',
      ''            f"index_kpool={ratio}, max_num_seqs={max_num_seqs}"'',
      ''        )'',
      '''',
      ''    rank = ('',
      ''        torch.distributed.get_rank()'',
      ''        if torch.distributed.is_available()'',
      ''        and torch.distributed.is_initialized()'',
      ''        else -1'',
      ''    )'',
      ''    logger.info('',
      ''        "[glm53-indexer-workspace] role=target rank=%d mode=rightsize "'',
      ''        "index_kpool=%d max_num_seqs=%d entries=%d stock=%d bytes=%d "'',
      ''        "reclaimed_mib=%.1f",'',
      ''        rank,'',
      ''        ratio,'',
      ''        max_num_seqs,'',
      ''        entries,'',
      ''        stock,'',
      ''        entries * 132,'',
      ''        (stock - entries) * 132 / (1024 * 1024),'',
      ''    )'',
      ''    return entries'']\<close>

definition IW_MARK_HELPERS :: string where
  \<open>IW_MARK_HELPERS = lns
     [''# [glm53-indexer-workspace] GLM-5.3-only prefill gather sizing.'']\<close>

definition IW_MARK_IMPORT :: string where
  \<open>IW_MARK_IMPORT = lns
     [''import os  # [glm53-indexer-workspace]'']\<close>

definition IW_ANCHOR_IMPORT :: string where
  \<open>IW_ANCHOR_IMPORT = lns
     [''from dataclasses import dataclass'',
      '''',
      ''import torch'']\<close>

definition IW_PATCHED_IMPORT :: string where
  \<open>IW_PATCHED_IMPORT = lns
     [''from dataclasses import dataclass'',
      '''',
      ''import os  # [glm53-indexer-workspace]'',
      ''import torch'']\<close>

definition IW_ANCHOR_HELPERS :: string where
  \<open>IW_ANCHOR_HELPERS = lns
     [''def get_max_prefill_buffer_size(vllm_config: VllmConfig):'',
      ''    max_model_len = vllm_config.model_config.max_model_len'',
      ''    # NOTE(Chen): 40 is a magic number for controlling the prefill buffer size.'',
      ''    # Each entry is 128 fp8 bytes and 4 scale bytes for a total of 132 bytes.'',
      ''    # The flashmla_sparse backend uses a workspace size of 5 * max_model_len.'',
      ''    # The memory usage of the workspace there is 576 * 2 bytes; so we size this as'',
      ''    # (576 * 2 // 132) * 5 = 40 to maximize this workspace size while still fitting'',
      ''    # within the flashmla_sparse workspace.'',
      ''    # For DeepSeek-V3.2, the max_model_len is 163840.'',
      ''    #   40 * 163840 * 132 = 865075200 bytes = 825 MB'',
      ''    return max_model_len * 40'']\<close>

definition IW_MARK_SPLITTER :: string where
  \<open>IW_MARK_SPLITTER = lns
     [''            # [glm53-indexer-workspace] N cannot be sub-chunked.'']\<close>

definition IW_ANCHOR_SPLITTER :: string where
  \<open>IW_ANCHOR_SPLITTER = lns
     [''        # A single request can exceed the budget, requiring sub-chunking'',
      ''        # on the query dimension.'',
      ''        if end == start:'',
      ''            chunk_m, chunk_n = query_lens_cpu[end].item(), seq_lens_cpu[end].item()'',
      ''            end += 1'',
      '''',
      ''        req_slice = slice(start + request_offset, end + request_offset)'']\<close>

definition IW_PATCHED_SPLITTER :: string where
  \<open>IW_PATCHED_SPLITTER = lns
     [''        # A single request can exceed the logits budget, requiring'',
      ''        # sub-chunking on the query dimension. N cannot be sub-chunked: the'',
      ''        # stock fail-open admitted the oversized row anyway, so right-sizing'',
      ''        # could overrun the locked gather workspace.'',
      ''        if end == start:'',
      ''            chunk_m, chunk_n = query_lens_cpu[end].item(), seq_lens_cpu[end].item()'',
      ''            # [glm53-indexer-workspace] N cannot be sub-chunked.'',
      ''            if chunk_n > workspace_size:'',
      ''                raise ValueError('',
      ''                    "[glm53-indexer-workspace] sparse-indexer row exceeds "'',
      ''                    f"workspace: row={chunk_n}, workspace={workspace_size}, "'',
      ''                    f"request={end + request_offset}"'',
      ''                )'',
      ''            end += 1'',
      '''',
      ''        if chunk_n > workspace_size:'',
      ''            raise AssertionError('',
      ''                "[glm53-indexer-workspace] emitted chunk exceeds workspace: "'',
      ''                f"chunk={chunk_n}, workspace={workspace_size}, "'',
      ''                f"requests={start + request_offset}:{end + request_offset}"'',
      ''            )'',
      ''        req_slice = slice(start + request_offset, end + request_offset)'']\<close>

definition IW_MARK_CHUNK_ASSERT :: string where
  \<open>IW_MARK_CHUNK_ASSERT = lns
     [''                # [glm53-indexer-workspace] Final guard before GPU gather.'']\<close>

definition IW_ANCHOR_CHUNK_ASSERT :: string where
  \<open>IW_ANCHOR_CHUNK_ASSERT = lns
     [''                # Skip when total_seq_lens is 0 (i.e., no compressed token).'',
      ''                if metadata is not None:'',
      ''                    chunks.append(metadata)'']\<close>

definition IW_PATCHED_CHUNK_ASSERT :: string where
  \<open>IW_PATCHED_CHUNK_ASSERT = lns
     [''                # Skip when total_seq_lens is 0 (i.e., no compressed token).'',
      ''                if metadata is not None:'',
      ''                    # [glm53-indexer-workspace] Final guard before GPU gather.'',
      ''                    if metadata.total_seq_lens > self.max_prefill_buffer_size:'',
      ''                        raise AssertionError('',
      ''                            "[glm53-indexer-workspace] metadata chunk exceeds "'',
      ''                            f"workspace: chunk={metadata.total_seq_lens}, "'',
      ''                            f"workspace={self.max_prefill_buffer_size}"'',
      ''                        )'',
      ''                    chunks.append(metadata)'']\<close>

definition IW_MARK_GLM_IMPORT :: string where
  \<open>IW_MARK_GLM_IMPORT = lns
     [''            _glm53_glm5next_workspace_entries,  # [glm53-indexer-workspace]'']\<close>

definition IW_ANCHOR_GLM_IMPORT :: string where
  \<open>IW_ANCHOR_GLM_IMPORT = lns
     [''        from vllm.v1.attention.backends.mla.indexer import get_max_prefill_buffer_size'',
      '''',
      ''        self.max_total_seq_len = get_max_prefill_buffer_size(vllm_config)'']\<close>

definition IW_PATCHED_GLM_IMPORT :: string where
  \<open>IW_PATCHED_GLM_IMPORT = lns
     [''        from vllm.v1.attention.backends.mla.indexer import ('',
      ''            _glm53_glm5next_workspace_entries,  # [glm53-indexer-workspace]'',
      ''        )'',
      '''',
      ''        # GLM-scoped by construction: the generic helper remains untouched,'',
      ''        # and the authoritative kpool value is the same instance value used'',
      ''        # to build the compressed KV-cache spec above.'',
      ''        self.max_total_seq_len = _glm53_glm5next_workspace_entries('',
      ''            vllm_config,'',
      ''            self.index_kpool,'',
      ''        )'']\<close>

definition IW_MARK_KPOOL_CAP :: string where
  \<open>IW_MARK_KPOOL_CAP = lns
     [''            # [glm53-indexer-workspace] Guard the actual GLM allocation.'']\<close>

definition IW_ANCHOR_KPOOL_CAP :: string where
  \<open>IW_ANCHOR_KPOOL_CAP = lns
     [''        for chunk in prefill_metadata.chunks if not short_prefill else ():'',
      ''            k_quant = k_quant_full[: chunk.total_seq_lens]'',
      ''            k_scale = k_scale_full[: chunk.total_seq_lens]'']\<close>

definition IW_PATCHED_KPOOL_CAP :: string where
  \<open>IW_PATCHED_KPOOL_CAP = lns
     [''        for chunk in prefill_metadata.chunks if not short_prefill else ():'',
      ''            # [glm53-indexer-workspace] Guard the actual GLM allocation.'',
      ''            if index_kpool > 1 and chunk.total_seq_lens > total_seq_lens:'',
      ''                raise ValueError('',
      ''                    "[glm53-indexer-workspace] gather chunk exceeds allocated "'',
      ''                    f"workspace: chunk={chunk.total_seq_lens}, "'',
      ''                    f"allocated={total_seq_lens}"'',
      ''                )'',
      ''            k_quant = k_quant_full[: chunk.total_seq_lens]'',
      ''            k_scale = k_scale_full[: chunk.total_seq_lens]'']\<close>

subsection \<open>\<^verbatim>\<open>overlay/patch_glm_video_placeholders.py\<close>\<close>

definition VP_PTH_BODY :: string where
  \<open>VP_PTH_BODY = lns
     [''import glm53_video_patch'']\<close>

definition VP_KPOOL_OLD :: string where
  \<open>VP_KPOOL_OLD = ''if current_platform.is_cuda() and select_k in (512, 1024, 2048):''\<close>

definition VP_KPOOL_NEW :: string where
  \<open>VP_KPOOL_NEW = ''if False and current_platform.is_cuda() and select_k in (512, 1024, 2048):  # GB10 persistent_topk smem''\<close>

end
