(* ===== verification/Site_Installers.thy ===== *)
theory Site_Installers
  imports Kernel_Texts Boot_Installers
begin

text \<open>
  Installers that edit several files at several places and write nothing before everything is prepared: the
  pooled-tail fixes (\<^verbatim>\<open>overlay/patch_kpool_tail_correctness.py\<close>), the fixes of the W28 restart
  (\<^verbatim>\<open>overlay/patch_w28_correctness.py\<close>), the indexer workspace
  (\<^verbatim>\<open>overlay/patch_indexer_workspace.py\<close>) and the clamp of the legacy slot mapping
  (\<^verbatim>\<open>overlay/patch_kpool_tail_slotmap.py\<close>). A place is a mark, an anchor and a replacement. Paths are
  relative to the installed vLLM; Python's compiler is an argument.
\<close>

subsection \<open>Places\<close>

record site =
  si_mark :: "string option"
  si_anchor :: string
  si_patched :: string

definition marked_site :: "string \<Rightarrow> string \<Rightarrow> string \<Rightarrow> site" where
  "marked_site mark anchor patched = \<lparr>si_mark = Some mark, si_anchor = anchor, si_patched = patched\<rparr>"

definition plain_site :: "string \<Rightarrow> string \<Rightarrow> site" where
  "plain_site anchor patched = \<lparr>si_mark = None, si_anchor = anchor, si_patched = patched\<rparr>"

definition mark_count :: "string \<Rightarrow> site list \<Rightarrow> nat" where
  "mark_count t sites = sum_list (map (\<lambda>s. case si_mark s of None \<Rightarrow> 0 | Some m \<Rightarrow> py_count m t) sites)"

text \<open>A place is in its patched form.\<close>

definition site_done :: "string \<Rightarrow> site \<Rightarrow> bool" where
  "site_done t s \<longleftrightarrow> py_count (si_patched s) t = 1 \<and> py_count (si_anchor s) t = py_count (si_anchor s) (si_patched s)
     \<and> (case si_mark s of None \<Rightarrow> True | Some m \<Rightarrow> py_count m t = 1)"

definition verified_sites :: "site list \<Rightarrow> string \<Rightarrow> bool" where
  "verified_sites sites t = list_all (site_done t) sites"

fun apply_sites :: "site list \<Rightarrow> string \<Rightarrow> string res" where
  "apply_sites [] t = Inr t"
| "apply_sites (s # ss) t =
     (if py_count (si_anchor s) t \<noteq> 1 then Inl ValueError else apply_sites ss (py_replace1 (si_anchor s) (si_patched s) t))"

text \<open>The pooled-tail fixes: some places have no mark, and a finished file may carry no mark at all.\<close>

definition prepare_sites :: "site list \<Rightarrow> string \<Rightarrow> string res" where
  "prepare_sites sites t =
     (if mark_count t sites \<noteq> 0 then (if \<not> verified_sites sites t then Inl ValueError else Inr t)
      else if verified_sites sites t then Inr t
      else res_bind (apply_sites sites t) (\<lambda>out. if \<not> verified_sites sites out then Inl ValueError else Inr out))"

text \<open>The other two: every place has a mark, and all of them or none are expected.\<close>

definition prepare_marked :: "site list \<Rightarrow> string \<Rightarrow> string res" where
  "prepare_marked sites t =
     (if mark_count t sites \<noteq> 0
      then (if mark_count t sites \<noteq> length sites \<or> \<not> verified_sites sites t then Inl ValueError else Inr t)
      else res_bind (apply_sites sites t) (\<lambda>out. if \<not> verified_sites sites out then Inl ValueError else Inr out))"

subsection \<open>Everything prepared before anything is written\<close>

type_synonym target = "string \<times> (string \<Rightarrow> string res)"

text \<open>One target after the other: read, prepare, compile.\<close>

fun preflight_targets :: "(string \<Rightarrow> bool) \<Rightarrow> target list \<Rightarrow> file_system \<Rightarrow> (string \<times> string \<times> string) list res" where
  "preflight_targets parses [] fs = Inr []"
| "preflight_targets parses ((path, prepare) # ts) fs =
     (case fs path of
        None \<Rightarrow> Inl SystemExit
      | Some t \<Rightarrow>
          (case prepare t of
             Inl e \<Rightarrow> Inl SystemExit
           | Inr patched \<Rightarrow> if \<not> parses patched then Inl SyntaxError
                            else res_bind (preflight_targets parses ts fs) (\<lambda>r. Inr ((path, t, patched) # r))))"

text \<open>All read, then all prepared, then all compiled.\<close>

definition preflight_phased :: "(string \<Rightarrow> bool) \<Rightarrow> target list \<Rightarrow> file_system \<Rightarrow> (string \<times> string \<times> string) list res" where
  "preflight_phased parses ts fs =
     (if list_ex (\<lambda>(path, _). fs path = None) ts then Inl SystemExit
      else res_bind (preflight_targets (\<lambda>_. True) ts fs) (\<lambda>r. if list_all (\<lambda>(_, _, patched). parses patched) r then Inr r else Inl SyntaxError))"

fun write_changed :: "(string \<times> string \<times> string) list \<Rightarrow> file_system \<Rightarrow> file_system" where
  "write_changed [] fs = fs"
| "write_changed ((path, original, patched) # r) fs =
     write_changed r (if patched \<noteq> original then fs(path \<mapsto> patched) else fs)"

definition staged :: "(string \<times> string \<times> string) list res \<Rightarrow> bool \<Rightarrow> file_system \<Rightarrow> unit res \<times> file_system" where
  "staged prepared preflight_only fs =
     (case prepared of
        Inl e \<Rightarrow> (Inl e, fs)
      | Inr r \<Rightarrow> if preflight_only then (Inr (), fs) else (Inr (), write_changed r fs))"

subsection \<open>The installers\<close>

text \<open>The files of a plan, each with the preparation of its places.\<close>

definition plan_targets :: "(site list \<Rightarrow> string \<Rightarrow> string res) \<Rightarrow> (string \<times> site list) list \<Rightarrow> target list" where
  "plan_targets prep plan = map (map_prod id prep) plan"

definition KT_SITES :: "(string \<times> site list) list" where
  "KT_SITES =
     [(''models/glm5next/nvidia/ops/kpool_compress.py'',
       [marked_site KT_KPOOL_DOC_MARK KT_KPOOL_DOC_ANCHOR KT_KPOOL_DOC_PATCHED,
        plain_site KT_KPOOL_SIG_ANCHOR KT_KPOOL_SIG_PATCHED,
        plain_site KT_KPOOL_BODY_ANCHOR KT_KPOOL_BODY_PATCHED,
        marked_site KT_KPOOL_HOST_MARK KT_KPOOL_HOST_ANCHOR KT_KPOOL_HOST_PATCHED,
        plain_site KT_KPOOL_CALL_ANCHOR KT_KPOOL_CALL_PATCHED]),
      (''v1/worker/gpu/model_states/mamba_hybrid.py'',
       [marked_site KT_MAMBA_MARK KT_MAMBA_ANCHOR KT_MAMBA_PATCHED]),
      (''v1/attention/backends/mla/indexer.py'',
       [marked_site KT_INDEXER_SIG_MARK KT_INDEXER_SIG_ANCHOR KT_INDEXER_SIG_PATCHED,
        plain_site KT_INDEXER_DOC_ANCHOR KT_INDEXER_DOC_PATCHED,
        marked_site KT_INDEXER_OUT_MARK KT_INDEXER_OUT_ANCHOR KT_INDEXER_OUT_PATCHED,
        marked_site KT_INDEXER_INIT_MARK KT_INDEXER_INIT_ANCHOR KT_INDEXER_INIT_PATCHED,
        marked_site KT_INDEXER_CALL_MARK KT_INDEXER_CALL_ANCHOR KT_INDEXER_CALL_PATCHED]),
      (''v1/worker/gpu/block_table.py'',
       [marked_site KT_BLOCKTABLE_MARK KT_BLOCKTABLE_ANCHOR KT_BLOCKTABLE_PATCHED])]"

definition kpool_correctness_main :: "(string \<Rightarrow> bool) \<Rightarrow> bool \<Rightarrow> file_system \<Rightarrow> unit res \<times> file_system" where
  "kpool_correctness_main parses preflight_only fs =
     staged (preflight_targets parses (plan_targets prepare_sites KT_SITES) fs) preflight_only fs"

definition W8_SITES :: "(string \<times> site list) list" where
  "W8_SITES =
     [(''v1/worker/gpu/model_states/interface.py'', [marked_site W8_INTERFACE_MARK W8_INTERFACE_ANCHOR W8_INTERFACE_PATCHED]),
      (''v1/worker/gpu/model_runner.py'', [marked_site W8_RUNNER_MARK W8_RUNNER_ANCHOR W8_RUNNER_PATCHED]),
      (''v1/worker/gpu/model_states/mamba_hybrid.py'',
       [marked_site W8_MAMBA_BIND_MARK W8_MAMBA_BIND_ANCHOR W8_MAMBA_BIND_PATCHED,
        marked_site W8_MAMBA_SEED_MARK W8_MAMBA_SEED_ANCHOR W8_MAMBA_SEED_PATCHED,
        marked_site W8_MAMBA_CALLS_MARK W8_MAMBA_CALLS_ANCHOR W8_MAMBA_CALLS_PATCHED]),
      (''v1/attention/backends/mla/flashinfer_mla_sparse_sm120.py'', [marked_site W8_SM120_MARK W8_SM120_ANCHOR W8_SM120_PATCHED])]"

definition w28_main :: "(string \<Rightarrow> bool) \<Rightarrow> bool \<Rightarrow> file_system \<Rightarrow> unit res \<times> file_system" where
  "w28_main parses preflight_only fs =
     staged (preflight_targets parses (plan_targets prepare_marked W8_SITES) fs) preflight_only fs"

definition IW_PATCHED_HELPERS :: string where
  "IW_PATCHED_HELPERS = IW_ANCHOR_HELPERS @ IW_HELPERS_SRC"

definition INDEXER_SITES :: "site list" where
  "INDEXER_SITES =
     [marked_site IW_MARK_IMPORT IW_ANCHOR_IMPORT IW_PATCHED_IMPORT,
      marked_site IW_MARK_HELPERS IW_ANCHOR_HELPERS IW_PATCHED_HELPERS,
      marked_site IW_MARK_SPLITTER IW_ANCHOR_SPLITTER IW_PATCHED_SPLITTER,
      marked_site IW_MARK_CHUNK_ASSERT IW_ANCHOR_CHUNK_ASSERT IW_PATCHED_CHUNK_ASSERT]"

definition IW_SITES :: "(string \<times> site list) list" where
  "IW_SITES =
     [(''v1/attention/backends/mla/indexer.py'', INDEXER_SITES),
      (''models/glm5next/nvidia/attention.py'', [marked_site IW_MARK_GLM_IMPORT IW_ANCHOR_GLM_IMPORT IW_PATCHED_GLM_IMPORT]),
      (''model_executor/layers/sparse_attn_indexer_kpool.py'', [marked_site IW_MARK_KPOOL_CAP IW_ANCHOR_KPOOL_CAP IW_PATCHED_KPOOL_CAP])]"

definition workspace_main :: "(string \<Rightarrow> bool) \<Rightarrow> bool \<Rightarrow> file_system \<Rightarrow> unit res \<times> file_system" where
  "workspace_main parses preflight_only fs =
     staged (preflight_phased parses (plan_targets prepare_marked IW_SITES) fs) preflight_only fs"

definition KS_CLAMP :: string where
  "KS_CLAMP = ''tl.minimum(block_indices, block_table_stride - 1)''"

definition slotmap_verified :: "string \<Rightarrow> bool" where
  "slotmap_verified t \<longleftrightarrow> py_count KS_ANCHOR t = 0 \<and> py_count KS_PATCHED t = 1 \<and> py_count KS_MARK t = 1 \<and> py_in KS_CLAMP t"

definition slotmap_prepare :: "string \<Rightarrow> string res" where
  "slotmap_prepare t =
     (if py_count KS_MARK t \<noteq> 0 then (if py_count KS_MARK t \<noteq> 1 \<or> \<not> slotmap_verified t then Inl ValueError else Inr t)
      else if slotmap_verified t then Inr t
      else if py_count KS_ANCHOR t \<noteq> 1 then Inl ValueError
      else if py_in KS_CLAMP t then Inl ValueError
      else let patched = py_replace1 KS_ANCHOR KS_PATCHED t in if \<not> slotmap_verified patched then Inl ValueError else Inr patched)"

definition slotmap_main :: "(string \<Rightarrow> bool) \<Rightarrow> file_system \<Rightarrow> unit res \<times> file_system" where
  "slotmap_main parses fs = staged (preflight_targets parses [(''v1/worker/block_table.py'', slotmap_prepare)] fs) False fs"

subsection \<open>The contract\<close>

lemma mark_count_done: "list_all (\<lambda>s. site_done t s \<and> si_mark s \<noteq> None) sites \<Longrightarrow> mark_count t sites = length sites"
  by (induction sites) (auto simp: mark_count_def site_done_def split: option.splits)

interpretation sites_inst: installer "prepare_sites sites" "verified_sites sites" for sites
  by unfold_locales (auto simp: prepare_sites_def res_bind_Inr split: if_splits)

text \<open>With a mark at every place, a finished file is recognised by all of them.\<close>

lemma marked_installer:
  assumes "list_all (\<lambda>s. si_mark s \<noteq> None) sites" and "sites \<noteq> []"
  shows "installer (prepare_marked sites) (verified_sites sites)"
proof
  show "verified_sites sites t'" if "prepare_marked sites t = Inr t'" for t t'
    using that by (auto simp: prepare_marked_def res_bind_Inr split: if_splits)
  show "prepare_marked sites t = Inr t" if "verified_sites sites t" for t
  proof -
    have "mark_count t sites = length sites"
      using that assms(1) by (intro mark_count_done) (auto simp: verified_sites_def list_all_iff)
    with that assms(2) show ?thesis by (simp add: prepare_marked_def)
  qed
qed

text \<open>Targets at different paths, each with a preparation that is an installer of its file.\<close>

locale staged_targets =
  fixes targets :: "target list"
    and finished :: "string \<Rightarrow> string \<Rightarrow> bool"
  assumes paths: "distinct (map fst targets)"
    and prepares: "(path, prepare) \<in> set targets \<Longrightarrow> installer prepare (finished path)"

definition all_finished :: "target list \<Rightarrow> (string \<Rightarrow> string \<Rightarrow> bool) \<Rightarrow> (string \<Rightarrow> bool) \<Rightarrow> file_system \<Rightarrow> bool" where
  "all_finished targets finished parses fs
     \<longleftrightarrow> list_all (\<lambda>(path, _). \<exists>t. fs path = Some t \<and> finished path t \<and> parses t) targets"

lemma preflight_Inr:
  "preflight_targets parses ts fs = Inr r \<Longrightarrow> map fst r = map fst ts
     \<and> (\<forall>(path, t, patched) \<in> set r. fs path = Some t \<and> parses patched \<and> (\<exists>prepare. (path, prepare) \<in> set ts \<and> prepare t = Inr patched))"
proof (induction parses ts fs arbitrary: r rule: preflight_targets.induct)
  case (2 parses path prepare ts fs)
  from 2(2) obtain t patched r' where "fs path = Some t" "prepare t = Inr patched" "parses patched"
    "preflight_targets parses ts fs = Inr r'" "r = (path, t, patched) # r'"
    by (auto simp: res_bind_Inr split: option.splits sum.splits if_splits)
  with 2(1) show ?case by fastforce
qed simp

lemma preflight_plain:
  "preflight_targets parses ts fs = Inr r
     \<longleftrightarrow> preflight_targets (\<lambda>_. True) ts fs = Inr r \<and> list_all (\<lambda>(_, _, patched). parses patched) r"
proof (induction ts arbitrary: r)
  case (Cons a ts)
  obtain path prepare where a: "a = (path, prepare)" by (cases a)
  show ?case
  proof (cases "fs path")
    case (Some t)
    show ?thesis
    proof (cases "prepare t")
      case (Inr patched)
      show ?thesis unfolding a using Some Inr by (cases r) (auto simp: res_bind_Inr Cons)
    qed (simp add: a Some)
  qed (simp add: a)
qed auto

lemma preflight_phased_iff: "preflight_phased parses ts fs = Inr r \<longleftrightarrow> preflight_targets parses ts fs = Inr r"
proof -
  have "\<not> list_ex (\<lambda>(path, _). fs path = None) ts" if "preflight_targets (\<lambda>_. True) ts fs = Inr r"
    using that by (induction ts arbitrary: r) (auto simp: res_bind_Inr split: option.splits sum.splits if_splits)
  then show ?thesis unfolding preflight_phased_def preflight_plain [of parses] by (auto simp: res_bind_Inr)
qed

lemma write_changed_other: "path \<notin> fst ` set r \<Longrightarrow> write_changed r fs path = fs path"
  by (induction r fs rule: write_changed.induct) auto

lemma write_changed_at:
  "(path, t, patched) \<in> set r \<Longrightarrow> distinct (map fst r) \<Longrightarrow> fs path = Some t \<Longrightarrow> write_changed r fs path = Some patched"
proof (induction r fs rule: write_changed.induct)
  case (2 path' t' patched' r fs)
  show ?case
  proof (cases "(path, t, patched) \<in> set r")
    case True
    then have "path \<in> fst ` set r" by force
    with 2(3) have "path \<noteq> path'" by auto
    with 2 True show ?thesis by simp
  next
    case False
    with 2 show ?thesis by (auto simp: write_changed_other)
  qed
qed simp

lemma write_changed_same: "\<forall>(path, t, patched) \<in> set r. patched = t \<Longrightarrow> write_changed r fs = fs"
  by (induction r fs rule: write_changed.induct) auto

context staged_targets
begin

lemma prepared_finished:
  assumes "preflight_targets parses targets fs = Inr r" and "(path, t, patched) \<in> set r"
  shows "finished path patched \<and> parses patched"
  using preflight_Inr [OF assms(1)] assms(2) installer.installs [OF prepares] by fastforce

lemma finished_prepared:
  assumes "list_all (\<lambda>(path, _). \<exists>t. fs path = Some t \<and> finished path t \<and> parses t) ts" and "set ts \<subseteq> set targets"
  shows "\<exists>r. preflight_targets parses ts fs = Inr r \<and> (\<forall>(path, t, patched) \<in> set r. patched = t)"
  using assms
proof (induction ts)
  case (Cons a ts)
  obtain path prepare where a: "a = (path, prepare)" by (cases a)
  from Cons a obtain t where "fs path = Some t" "finished path t" "parses t" by auto
  moreover from this a Cons.prems(2) have "prepare t = Inr t" using installer.noop [OF prepares] by auto
  ultimately show ?case using Cons a by fastforce
qed simp

lemma staged_atomic: "atomic_boot (\<lambda>fs. staged (preflight_targets parses targets fs) False fs) (all_finished targets finished parses)"
proof
  show "fs' = fs" if "staged (preflight_targets parses targets fs) False fs = (Inl e, fs')" for fs e fs'
    using that by (auto simp: staged_def split: sum.splits)
next
  fix fs fs'
  assume "staged (preflight_targets parses targets fs) False fs = (Inr (), fs')"
  then obtain r where r: "preflight_targets parses targets fs = Inr r" and fs': "fs' = write_changed r fs"
    by (auto simp: staged_def split: sum.splits)
  note pre = preflight_Inr [OF r]
  have "\<exists>t. fs' path = Some t \<and> finished path t \<and> parses t" if "(path, prepare) \<in> set targets" for path prepare
  proof -
    from that pre have "path \<in> set (map fst r)" by force
    then obtain t patched where m: "(path, t, patched) \<in> set r" by auto
    moreover from m pre have "fs path = Some t" by auto
    moreover have "distinct (map fst r)" using pre paths by simp
    ultimately have "fs' path = Some patched" unfolding fs' by (intro write_changed_at)
    with prepared_finished [OF r m] show ?thesis by blast
  qed
  then show "all_finished targets finished parses fs'" unfolding all_finished_def list_all_iff by auto
next
  fix fs
  assume "all_finished targets finished parses fs"
  then obtain r where "preflight_targets parses targets fs = Inr r" "\<forall>(path, t, patched) \<in> set r. patched = t"
    using finished_prepared [of fs parses targets] unfolding all_finished_def by blast
  then show "staged (preflight_targets parses targets fs) False fs = (Inr (), fs)"
    by (simp add: staged_def write_changed_same)
qed

text \<open>The dry run gives the same verdict and writes nothing.\<close>

lemma dry_run:
  "staged (preflight_targets parses targets fs) True fs = (fst (staged (preflight_targets parses targets fs) False fs), fs)"
  by (simp add: staged_def split: sum.splits)

end

text \<open>When a file of a plan, and when all of them, are finished.\<close>

definition plan_finished :: "(string \<times> site list) list \<Rightarrow> string \<Rightarrow> string \<Rightarrow> bool" where
  "plan_finished plan path = verified_sites (the (map_of plan path))"

definition plan_installed :: "(string \<times> site list) list \<Rightarrow> (string \<Rightarrow> bool) \<Rightarrow> file_system \<Rightarrow> bool" where
  "plan_installed plan parses fs = list_all (\<lambda>(path, sites). \<exists>t. fs path = Some t \<and> verified_sites sites t \<and> parses t) plan"

lemma plan_staged:
  assumes "distinct (map fst plan)" and "list_all (\<lambda>(_, sites). installer (prep sites) (verified_sites sites)) plan"
  shows "staged_targets (plan_targets prep plan) (plan_finished plan)"
proof (rule staged_targets.intro)
  show "distinct (map fst (plan_targets prep plan))" using assms(1) by (simp add: plan_targets_def comp_def)
  show "installer prepare (plan_finished plan path)" if "(path, prepare) \<in> set (plan_targets prep plan)" for path prepare
  proof -
    from that obtain sites where "(path, sites) \<in> set plan" "prepare = prep sites" by (auto simp: plan_targets_def)
    with assms show ?thesis by (auto simp: plan_finished_def list_all_iff)
  qed
qed

lemma plan_installed_iff:
  assumes "distinct (map fst plan)"
  shows "all_finished (plan_targets prep plan) (plan_finished plan) parses fs \<longleftrightarrow> plan_installed plan parses fs"
  using assms by (fastforce simp: all_finished_def plan_installed_def plan_targets_def plan_finished_def list_all_iff)

text \<open>The plans have one entry per file, and all places of the last two plans are marked.\<close>

lemma plan_paths: "distinct (map fst KT_SITES)" "distinct (map fst W8_SITES)" "distinct (map fst IW_SITES)"
  by (simp_all add: KT_SITES_def W8_SITES_def IW_SITES_def)

lemma plan_marked:
  "list_all (\<lambda>(_, sites). installer (prepare_marked sites) (verified_sites sites)) W8_SITES"
  "list_all (\<lambda>(_, sites). installer (prepare_marked sites) (verified_sites sites)) IW_SITES"
  by (auto simp: W8_SITES_def IW_SITES_def INDEXER_SITES_def marked_site_def intro!: marked_installer)

interpretation kt: staged_targets "plan_targets prepare_sites KT_SITES" "plan_finished KT_SITES"
  by (rule plan_staged) (simp_all add: plan_paths list_all_iff case_prod_unfold sites_inst.installer_axioms)

interpretation w8: staged_targets "plan_targets prepare_marked W8_SITES" "plan_finished W8_SITES"
  by (rule plan_staged [OF plan_paths(2) plan_marked(1)])

interpretation iw: staged_targets "plan_targets prepare_marked IW_SITES" "plan_finished IW_SITES"
  by (rule plan_staged [OF plan_paths(3) plan_marked(2)])

lemma staged_Inr:
  "staged prepared dry fs = (Inr (), fs') \<longleftrightarrow> (\<exists>r. prepared = Inr r \<and> fs' = (if dry then fs else write_changed r fs))"
  by (auto simp: staged_def split: sum.splits)

lemma staged_phased: "staged (preflight_phased parses ts fs) dry fs = (Inr (), fs') \<longleftrightarrow> staged (preflight_targets parses ts fs) dry fs = (Inr (), fs')"
  unfolding staged_Inr preflight_phased_iff ..

interpretation kpool_boot: atomic_boot "kpool_correctness_main parses False" "plan_installed KT_SITES parses" for parses
  using kt.staged_atomic [of parses]
  unfolding kpool_correctness_main_def plan_installed_iff [OF plan_paths(1), abs_def] .

interpretation w28_boot: atomic_boot "w28_main parses False" "plan_installed W8_SITES parses" for parses
  using w8.staged_atomic [of parses]
  unfolding w28_main_def plan_installed_iff [OF plan_paths(2), abs_def] .

interpretation workspace_boot: atomic_boot "workspace_main parses False" "plan_installed IW_SITES parses" for parses
proof -
  let ?boot = "\<lambda>fs. staged (preflight_targets parses (plan_targets prepare_marked IW_SITES) fs) False fs"
  have b: "atomic_boot ?boot (plan_installed IW_SITES parses)"
    using iw.staged_atomic [of parses] unfolding plan_installed_iff [OF plan_paths(3), abs_def] .
  have eq: "workspace_main parses False fs = (Inr (), fs') \<longleftrightarrow> ?boot fs = (Inr (), fs')" for fs fs'
    by (simp add: workspace_main_def staged_phased)
  show "atomic_boot (workspace_main parses False) (plan_installed IW_SITES parses)"
  proof
    show "fs' = fs" if "workspace_main parses False fs = (Inl e, fs')" for fs e fs'
      using that by (auto simp: workspace_main_def staged_def split: sum.splits)
    show "plan_installed IW_SITES parses fs'" if "workspace_main parses False fs = (Inr (), fs')" for fs fs'
      using that repeatable.installs [OF atomic_boot.axioms(2) [OF b]] by (simp add: eq)
    show "workspace_main parses False fs = (Inr (), fs)" if "plan_installed IW_SITES parses fs" for fs
      using that repeatable.noop [OF atomic_boot.axioms(2) [OF b]] by (simp add: eq)
  qed
qed

interpretation slotmap_inst: installer slotmap_prepare slotmap_verified
  by unfold_locales (auto simp: slotmap_prepare_def slotmap_verified_def Let_def split: if_splits)

interpretation ks: staged_targets "[(''v1/worker/block_table.py'', slotmap_prepare)]" "\<lambda>_. slotmap_verified"
  by (rule staged_targets.intro) (auto intro: slotmap_inst.installer_axioms)

interpretation slotmap_boot: atomic_boot "slotmap_main parses"
    "all_finished [(''v1/worker/block_table.py'', slotmap_prepare)] (\<lambda>_. slotmap_verified) parses" for parses
  unfolding slotmap_main_def by (rule ks.staged_atomic)

subsection \<open>Properties\<close>

text \<open>A run of an installer over a plan, dry or not: what it may leave behind.\<close>

definition boot_ok :: "(bool \<Rightarrow> file_system \<Rightarrow> unit res \<times> file_system) \<Rightarrow> (file_system \<Rightarrow> bool) \<Rightarrow> bool \<Rightarrow> file_system \<Rightarrow> bool" where
  "boot_ok main installed dry fs \<longleftrightarrow>
     (case main dry fs of
        (Inl e, fs') \<Rightarrow> fs' = fs
      | (Inr u, fs') \<Rightarrow> if dry then fs' = fs \<and> fst (main False fs) = Inr ()
                        else installed fs' \<and> main False fs' = (Inr (), fs'))"

lemma staged_boot_ok:
  assumes "\<And>dry fs. main dry fs = staged (prepared fs) dry fs" and "atomic_boot (main False) installed"
  shows "boot_ok main installed dry fs"
proof (cases "prepared fs")
  case (Inl e)
  then show ?thesis by (simp add: boot_ok_def assms(1) staged_def)
next
  case (Inr r)
  have m: "main dry fs = (Inr (), if dry then fs else write_changed r fs)" for dry
    by (simp add: assms(1) staged_def Inr)
  have run: "main False fs = (Inr (), write_changed r fs)" using m [of False] by simp
  show ?thesis
    using repeatable.installs [OF atomic_boot.axioms(2) [OF assms(2)] run] repeatable.twice [OF atomic_boot.axioms(2) [OF assms(2)] run]
    by (simp add: boot_ok_def m)
qed

text \<open>(C35) The kernel installers are all-or-nothing. The pooled-tail fixes, the W28 fixes and the indexer workspace leave
  every file as it was when they refuse and when they only preflight, a dry run that passes announces a run
  that succeeds, and after a real run every file of the plan has each of its places in the patched form exactly
  once and compiles, so that the next start changes nothing.\<close>

theorem kernel_installers_atomic:
  "boot_ok (kpool_correctness_main parses) (plan_installed KT_SITES parses) dry fs
   \<and> boot_ok (w28_main parses) (plan_installed W8_SITES parses) dry fs
   \<and> boot_ok (workspace_main parses) (plan_installed IW_SITES parses) dry fs"
  using staged_boot_ok [OF kpool_correctness_main_def kpool_boot.atomic_boot_axioms]
    staged_boot_ok [OF w28_main_def w28_boot.atomic_boot_axioms]
    staged_boot_ok [OF workspace_main_def workspace_boot.atomic_boot_axioms]
  by blast

text \<open>A file with one pristine place is patched.\<close>

lemma pristine_mamba_patched:
  "prepare_sites [marked_site KT_MAMBA_MARK KT_MAMBA_ANCHOR KT_MAMBA_PATCHED] KT_MAMBA_ANCHOR = Inr KT_MAMBA_PATCHED"
  by code_simp

end
