(* ===== verification/Video_Frames.thy ===== *)
theory Video_Frames
  imports Site_Installers
begin

text \<open>
  Video prompts, \<^verbatim>\<open>overlay/patch_glm_video_placeholders.py\<close>: aligning the timestamps of a clip with the
  temporal grid of the encoder, choosing their source, the placeholder tokens, and the installer. The token
  encoder and vLLM's three sources of timestamps are arguments. The quotient of the alignment is a float in the
  source; for lengths whose product is below \<open>2 ^ 52\<close> its rounding is that of the exact quotient, which is
  what the model takes.
\<close>

subsection \<open>Aligning the timestamps\<close>

text \<open>\<open>int(round(a / b))\<close> for \<open>b > 0\<close>: to the nearest integer, halves to the even one.\<close>

definition py_round_div :: "int \<Rightarrow> int \<Rightarrow> int" where
  "py_round_div a b =
     (let q = a div b; r = a mod b
      in if 2 * r < b then q else if b < 2 * r then q + 1 else if even q then q else q + 1)"

definition align_timestamps :: "'a :: zero list \<Rightarrow> int \<Rightarrow> 'a list" where
  "align_timestamps timestamps t_groups =
     (let t_groups = (if t_groups < 1 then 1 else t_groups)
      in if timestamps = [] then replicate (nat t_groups) 0
         else let n = int (length timestamps)
              in if n = t_groups then timestamps
                 else if t_groups = 1 then [timestamps ! 0]
                 else if n < t_groups then timestamps @ replicate (nat (t_groups - n)) (last timestamps)
                 else map (\<lambda>i. timestamps ! nat (py_round_div (int i * (n - 1)) (t_groups - 1))) [0..<nat t_groups])"

subsection \<open>The placeholder\<close>

record video_processor =
  vp_name :: string
  vp_has_max_duration :: bool

record hf_processor =
  hp_name :: string
  hp_video_processor :: "video_processor option"
  hp_is_glm4v :: bool
  hp_is_glmga :: bool

definition use_glm4v_timestamps :: "hf_processor \<Rightarrow> bool" where
  "use_glm4v_timestamps p =
     (if py_in ''Glm5'' (hp_name p) \<or> py_in ''Glm5'' (case hp_video_processor p of None \<Rightarrow> [] | Some v \<Rightarrow> vp_name v) then False
      else if (case hp_video_processor p of None \<Rightarrow> False | Some v \<Rightarrow> \<not> vp_has_max_duration v) then False
      else hp_is_glm4v p)"

datatype ts_format = PlainFormat | SecondsFormat

record 'a video_env =
  ve_glm4v :: "'a list"
  ve_glmga :: "'a list"
  ve_glm46v :: "'a list"
  ve_encode :: "ts_format \<Rightarrow> 'a \<Rightarrow> int list"
  ve_embed_id :: int
  ve_image_start :: int
  ve_image_end :: int
  ve_video_start :: int
  ve_video_end :: int

definition video_timestamps :: "hf_processor \<Rightarrow> 'a video_env \<Rightarrow> ts_format \<times> 'a list" where
  "video_timestamps p e =
     (if use_glm4v_timestamps p then (PlainFormat, ve_glm4v e)
      else if hp_is_glmga p then (SecondsFormat, ve_glmga e)
      else (SecondsFormat, ve_glm46v e))"

definition frame_block :: "'a video_env \<Rightarrow> ts_format \<Rightarrow> int \<Rightarrow> 'a \<Rightarrow> int list" where
  "frame_block e fmt n_per ts = ve_image_start e # replicate (nat n_per) (ve_embed_id e) @ ve_image_end e # ve_encode e fmt ts"

definition construct_video_placeholder :: "hf_processor \<Rightarrow> 'a :: zero video_env \<Rightarrow> int \<Rightarrow> int \<Rightarrow> int \<Rightarrow> int \<Rightarrow> int list res" where
  "construct_video_placeholder p e merge_size t_groups height width =
     (let merge_length = merge_size\<^sup>2
      in if merge_length = 0 then Inl ZeroDivisionError
         else let n_per = height * width div merge_length
              in case video_timestamps p e of
                   (fmt, timestamps) \<Rightarrow>
                     Inr (ve_video_start e # concat (map (frame_block e fmt n_per) (align_timestamps timestamps t_groups)) @ [ve_video_end e]))"

subsection \<open>The installer\<close>

definition HOOK_PY :: string where "HOOK_PY = ''glm53_video_patch.py''"
definition PTH_FILE :: string where "PTH_FILE = ''glm53_video.pth''"
definition KPOOL_PY :: string where "KPOOL_PY = ''vllm/model_executor/layers/sparse_attn_indexer_kpool.py''"

definition prepare_kpool :: "string \<Rightarrow> string res" where
  "prepare_kpool t =
     (if py_in VP_KPOOL_NEW t then (if py_count VP_KPOOL_NEW t \<noteq> 1 then Inl ValueError else Inr t)
      else if py_count VP_KPOOL_OLD t \<noteq> 1 then Inl ValueError
      else let patched = py_replace1 VP_KPOOL_OLD VP_KPOOL_NEW t
           in if py_count VP_KPOOL_NEW patched \<noteq> 1 \<or> py_count VP_KPOOL_OLD patched \<noteq> 0 then Inl ValueError else Inr patched)"

definition video_main :: "(string \<Rightarrow> bool) \<Rightarrow> string \<Rightarrow> file_system \<Rightarrow> unit res \<times> file_system" where
  "video_main parses hook_text fs =
     (case fs KPOOL_PY of
        None \<Rightarrow> (Inl SystemExit, fs)
      | Some kpool_source \<Rightarrow>
          (case prepare_kpool kpool_source of
             Inl e \<Rightarrow> (Inl SystemExit, fs)
           | Inr kpool_patched \<Rightarrow>
               if \<not> parses kpool_patched then (Inl SyntaxError, fs)
               else if \<not> parses hook_text then (Inl SyntaxError, fs)
               else let fs = fs(HOOK_PY \<mapsto> hook_text, PTH_FILE \<mapsto> VP_PTH_BODY)
                    in (Inr (), if kpool_patched \<noteq> kpool_source then fs(KPOOL_PY \<mapsto> kpool_patched) else fs)))"

interpretation video_kpool: installer prepare_kpool "\<lambda>t. py_in VP_KPOOL_NEW t \<and> py_count VP_KPOOL_NEW t = 1"
proof unfold_locales
  have "VP_KPOOL_NEW \<noteq> []" by (simp add: VP_KPOOL_NEW_def)
  then show "py_in VP_KPOOL_NEW t' \<and> py_count VP_KPOOL_NEW t' = 1" if "prepare_kpool t = Inr t'" for t t'
    using that count_1_in [of VP_KPOOL_NEW t'] by (auto simp: prepare_kpool_def Let_def split: if_splits)
  show "prepare_kpool t = Inr t" if "py_in VP_KPOOL_NEW t \<and> py_count VP_KPOOL_NEW t = 1" for t
    using that by (simp add: prepare_kpool_def)
qed

interpretation video_boot: atomic_boot "video_main parses hook_text"
    "\<lambda>fs. fs HOOK_PY = Some hook_text \<and> fs PTH_FILE = Some VP_PTH_BODY \<and> parses hook_text
       \<and> (\<exists>t. fs KPOOL_PY = Some t \<and> py_in VP_KPOOL_NEW t \<and> py_count VP_KPOOL_NEW t = 1 \<and> parses t)" for parses hook_text
proof unfold_locales
  note paths = HOOK_PY_def PTH_FILE_def KPOOL_PY_def
  show "fs' = fs" if "video_main parses hook_text fs = (Inl e, fs')" for fs e fs'
    using that by (auto simp: video_main_def Let_def split: option.splits sum.splits if_splits)
  show "fs' HOOK_PY = Some hook_text \<and> fs' PTH_FILE = Some VP_PTH_BODY \<and> parses hook_text
       \<and> (\<exists>t. fs' KPOOL_PY = Some t \<and> py_in VP_KPOOL_NEW t \<and> py_count VP_KPOOL_NEW t = 1 \<and> parses t)"
    if "video_main parses hook_text fs = (Inr (), fs')" for fs fs'
    using that video_kpool.installs by (auto simp: video_main_def paths Let_def split: option.splits sum.splits if_splits)
  show "video_main parses hook_text fs = (Inr (), fs)"
    if "fs HOOK_PY = Some hook_text \<and> fs PTH_FILE = Some VP_PTH_BODY \<and> parses hook_text
       \<and> (\<exists>t. fs KPOOL_PY = Some t \<and> py_in VP_KPOOL_NEW t \<and> py_count VP_KPOOL_NEW t = 1 \<and> parses t)" for fs
  proof -
    from that obtain t where t: "fs KPOOL_PY = Some t" "prepare_kpool t = Inr t" "parses t" using video_kpool.noop by auto
    moreover have "fs(HOOK_PY \<mapsto> hook_text, PTH_FILE \<mapsto> VP_PTH_BODY) = fs" using that by (simp add: fun_upd_idem)
    ultimately show ?thesis using that by (simp add: video_main_def)
  qed
qed

subsection \<open>Rounding\<close>

lemma py_round_div_bounds:
  assumes "0 < b"
  shows "2 * \<bar>py_round_div a b * b - a\<bar> \<le> b"
proof -
  define q r where "q = a div b" and "r = a mod b"
  have a: "a = q * b + r" and r: "0 \<le> r" "r < b" using assms by (simp_all add: q_def r_def)
  have "py_round_div a b = q \<and> 2 * r \<le> b \<or> py_round_div a b = q + 1 \<and> b \<le> 2 * r"
    by (auto simp: py_round_div_def Let_def q_def r_def)
  then show ?thesis
  proof
    assume "py_round_div a b = q \<and> 2 * r \<le> b"
    with a r show ?thesis by simp
  next
    assume "py_round_div a b = q + 1 \<and> b \<le> 2 * r"
    moreover have "(q + 1) * b - (q * b + r) = b - r" by (simp add: algebra_simps)
    ultimately show ?thesis using a r by simp
  qed
qed

lemma py_round_div_mono:
  assumes "0 < b" and "a \<le> a'"
  shows "py_round_div a b \<le> py_round_div a' b"
proof (cases "a div b = a' div b")
  case True
  then have "a mod b \<le> a' mod b" using assms(2) by (metis add_le_cancel_left div_mult_mod_eq)
  with True show ?thesis by (auto simp: py_round_div_def Let_def)
next
  case False
  with assms have "a div b < a' div b" using zdiv_mono1 [of a a' b] by linarith
  then show ?thesis by (auto simp: py_round_div_def Let_def)
qed

lemma py_round_div_self: "0 < b \<Longrightarrow> py_round_div (b * c) b = c"
  by (simp add: py_round_div_def)

text \<open>The frame chosen for a group lies in the clip.\<close>

lemma frame_in_clip:
  assumes "2 \<le> t" and "t < n" and "i < nat t"
  shows "0 \<le> py_round_div (int i * (n - 1)) (t - 1) \<and> py_round_div (int i * (n - 1)) (t - 1) \<le> n - 1"
proof -
  have "int i * (n - 1) \<le> (t - 1) * (n - 1)" using assms by (intro mult_right_mono) auto
  from py_round_div_mono [OF _ this, of "t - 1"] have "py_round_div (int i * (n - 1)) (t - 1) \<le> n - 1"
    using py_round_div_self [of "t - 1" "n - 1"] assms(1) by simp
  moreover have "0 \<le> int i * (n - 1)" using assms by simp
  from py_round_div_mono [OF _ this, of "t - 1"] have "0 \<le> py_round_div (int i * (n - 1)) (t - 1)"
    using py_round_div_self [of "t - 1" 0] assms(1) by simp
  ultimately show ?thesis by simp
qed

text \<open>All cases of the alignment pick frames by a monotone index.\<close>

definition frame_index :: "nat \<Rightarrow> int \<Rightarrow> nat \<Rightarrow> nat" where
  "frame_index n t i =
     (if t \<le> 1 then 0 else if int n \<le> t then min i (n - 1) else nat (py_round_div (int i * (int n - 1)) (t - 1)))"

lemma align_frames:
  assumes "ts \<noteq> []"
  shows "align_timestamps ts t = map (\<lambda>i. ts ! frame_index (length ts) t i) [0..<nat (max 1 t)]"
proof -
  let ?n = "length ts"
  have n: "1 \<le> ?n" using assms by (cases ts) auto
  consider (one) "t \<le> 1" | (same) "int ?n = t" "1 < t" | (more) "int ?n < t" "1 < t" | (fewer) "t < int ?n" "1 < t" by linarith
  then show ?thesis
  proof cases
    case one
    have "ts = [ts ! 0]" if "?n = 1" using that by (cases ts) auto
    then show ?thesis using one assms by (auto simp: align_timestamps_def frame_index_def Let_def max_def)
  next
    case same
    then have "map (\<lambda>i. ts ! frame_index ?n t i) [0..<nat (max 1 t)] = map ((!) ts) [0..<?n]"
      by (auto simp: frame_index_def intro!: map_cong)
    with same assms show ?thesis by (simp add: align_timestamps_def Let_def map_nth)
  next
    case more
    have "align_timestamps ts t = ts @ replicate (nat t - ?n) (last ts)"
      using more assms by (simp add: align_timestamps_def Let_def nat_diff_distrib')
    also have "\<dots> = map (\<lambda>i. ts ! min i (?n - 1)) [0..<nat t]"
    proof (rule nth_equalityI)
      show "length (ts @ replicate (nat t - ?n) (last ts)) = length (map (\<lambda>i. ts ! min i (?n - 1)) [0..<nat t])" using more by simp
      show "(ts @ replicate (nat t - ?n) (last ts)) ! i = map (\<lambda>i. ts ! min i (?n - 1)) [0..<nat t] ! i"
        if "i < length (ts @ replicate (nat t - ?n) (last ts))" for i
        using that assms more n by (auto simp: nth_append last_conv_nth min_def)
    qed
    finally show ?thesis using more by (simp add: frame_index_def max_def)
  next
    case fewer
    then show ?thesis using assms by (simp add: align_timestamps_def Let_def frame_index_def max_def)
  qed
qed

lemma frame_index_less:
  assumes "1 \<le> n" and "i < nat (max 1 t)"
  shows "frame_index n t i < n"
  using frame_in_clip [of t "int n" i] assms by (auto simp: frame_index_def max_def split: if_splits)

lemma frame_index_mono:
  assumes "i \<le> j" and "1 \<le> n"
  shows "frame_index n t i \<le> frame_index n t j"
proof -
  have "int i * (int n - 1) \<le> int j * (int n - 1)" using assms by (intro mult_right_mono) auto
  then show ?thesis using py_round_div_mono [of "t - 1"] assms by (auto simp: frame_index_def min_def intro!: nat_mono)
qed

lemma frame_index_ends:
  "frame_index n t 0 = 0" "2 \<le> t \<Longrightarrow> 1 \<le> n \<Longrightarrow> frame_index n t (nat t - 1) = n - 1"
  using py_round_div_self [of "t - 1" 0] py_round_div_self [of "t - 1" "int n - 1"]
  by (auto simp: frame_index_def min_def nat_diff_distrib of_nat_diff)

subsection \<open>Properties\<close>

text \<open>The timestamps fit the grid. Aligning the timestamps of a clip gives exactly one per temporal group (at least
  one); each is a timestamp of the clip, they are in the order of the clip, the first is the first of the clip,
  and with two or more groups the last is the last.\<close>

theorem aligned_timestamps:
  fixes ts :: "'a :: {zero, linorder} list"
  assumes "ts \<noteq> []"
  shows "length (align_timestamps ts t) = nat (max 1 t) \<and> set (align_timestamps ts t) \<subseteq> set ts
    \<and> hd (align_timestamps ts t) = hd ts \<and> (2 \<le> t \<longrightarrow> last (align_timestamps ts t) = last ts)
    \<and> (sorted ts \<longrightarrow> sorted (align_timestamps ts t))"
proof -
  have n: "1 \<le> length ts" using assms by (cases ts) auto
  have ne: "[0..<nat (max 1 t)] \<noteq> []" by simp
  have "set (align_timestamps ts t) \<subseteq> set ts"
    using frame_index_less [OF n, of _ t] by (auto simp: align_frames [OF assms])
  moreover have "hd (align_timestamps ts t) = hd ts"
  proof -
    have "hd [0..<nat (max 1 t)] = 0" by (simp add: hd_upt)
    then show ?thesis using ne assms by (simp add: align_frames [OF assms] hd_map frame_index_ends(1) hd_conv_nth [of ts])
  qed
  moreover have "last (align_timestamps ts t) = last ts" if "2 \<le> t"
    using that assms n frame_index_ends(2) [of t "length ts"] by (simp add: align_frames [OF assms] last_map last_conv_nth max_def)
  moreover have "sorted (align_timestamps ts t)" if s: "sorted ts"
    unfolding align_frames [OF assms] sorted_iff_nth_mono
    using frame_index_mono [OF _ n] frame_index_less [OF n] sorted_nth_mono [OF s] by simp
  ultimately show ?thesis by (simp add: align_frames [OF assms])
qed

text \<open>The placeholder has a slot for each encoder token. If neither the marker tokens nor the encoded timestamps
  use the embedding token, the placeholder of a clip holds that token exactly as often as the encoder emits a
  token: once per pooled patch of every temporal group, whatever the number of timestamps of the clip.\<close>

theorem placeholder_matches_encoder:
  assumes "construct_video_placeholder p e merge t h w = Inr ids" and "1 \<le> t" and "0 \<le> h" and "0 \<le> w"
    and "list_all (\<lambda>x. x \<noteq> ve_embed_id e) [ve_image_start e, ve_image_end e, ve_video_start e, ve_video_end e]"
    and "\<forall>fmt x. ve_embed_id e \<notin> set (ve_encode e fmt x)"
  shows "int (count_list ids (ve_embed_id e)) = t * (h * w div merge\<^sup>2)"
proof -
  obtain fmt ts where vt: "video_timestamps p e = (fmt, ts)" by fastforce
  define n_per where "n_per = h * w div merge\<^sup>2"
  have nn: "0 \<le> n_per" using assms(3,4) by (cases "merge = 0") (simp_all add: n_per_def pos_imp_zdiv_nonneg_iff)
  have "count_list (replicate k x) x = k" for k and x :: int by (induction k) simp_all
  then have frame: "count_list (frame_block e fmt n_per x) (ve_embed_id e) = nat n_per" for x
    using assms(5,6) by (simp add: frame_block_def count_list_append)
  have "count_list (concat (map (frame_block e fmt n_per) xs)) (ve_embed_id e) = length xs * nat n_per" for xs
    by (induction xs) (simp_all add: frame)
  moreover have "length (align_timestamps ts t) = nat t"
    using assms(2) align_frames [of ts t] by (cases "ts = []") (simp_all add: align_timestamps_def max_def)
  moreover have "ids = ve_video_start e # concat (map (frame_block e fmt n_per) (align_timestamps ts t)) @ [ve_video_end e]"
    using assms(1) vt by (auto simp: construct_video_placeholder_def n_per_def Let_def split: if_splits)
  ultimately show ?thesis using assms(2,5) nn by (simp add: n_per_def [symmetric])
qed

subsection \<open>Witnesses\<close>

theorem aligned_timestamps_witness:
  "length (align_timestamps [0, 2, 3, 7, 9 :: int] 3) = 3 \<and> last (align_timestamps [0, 2, 3, 7, 9 :: int] 3) = 9
   \<and> align_timestamps [0, 2, 3, 7, 9 :: int] 3 = [0, 3, 9]"
  using aligned_timestamps [of "[0, 2, 3, 7, 9 :: int]" 3]
  by (simp add: align_timestamps_def py_round_div_def upt_rec)

text \<open>A clip of one second: three timestamps, one temporal group of four pooled patches.\<close>

definition demo_video :: "int video_env" where
  "demo_video = \<lparr>ve_glm4v = [0, 1, 2], ve_glmga = [0, 1, 2], ve_glm46v = [0, 1, 2], ve_encode = (\<lambda>_ x. [100 + (if 0 \<le> x then x else - x)]),
     ve_embed_id = 9, ve_image_start = 1, ve_image_end = 2, ve_video_start = 3, ve_video_end = 4\<rparr>"

definition demo_processor :: hf_processor where
  "demo_processor = \<lparr>hp_name = ''Glm5NextProcessor'', hp_video_processor = None, hp_is_glm4v = True, hp_is_glmga = False\<rparr>"

lemma demo_placeholder: "construct_video_placeholder demo_processor demo_video 2 1 4 4 = Inr [3, 1, 9, 9, 9, 9, 2, 100, 4]"
  by (simp add: construct_video_placeholder_def video_timestamps_def use_glm4v_timestamps_def demo_processor_def demo_video_def
      align_timestamps_def frame_block_def py_in_def numeral_eq_Suc)

theorem placeholder_matches_encoder_witness: "int (count_list [3, 1, 9, 9, 9, 9, 2, 100, 4] (9 :: int)) = 1 * (4 * 4 div 2\<^sup>2)"
proof -
  have "\<forall>fmt x. ve_embed_id demo_video \<notin> set (ve_encode demo_video fmt x)" by (auto simp: demo_video_def)
  from placeholder_matches_encoder [OF demo_placeholder _ _ _ _ this] show ?thesis by (simp add: demo_video_def)
qed

end
