(* ===== verification/Snapshot_Check.thy ===== *)
theory Snapshot_Check
  imports Glm_Prelude "HOL-Library.List_Lexorder" "HOL-Library.Char_ord"
begin

text \<open>
  The check of a downloaded model snapshot, \<^verbatim>\<open>scripts/validate_hf_snapshot.py\<close>: selecting the revision,
  the index, the paths of the shards and the layout of each safetensors file. A file is its bytes; the JSON
  decoder is an argument (it answers \<open>None\<close> where \<open>json.loads\<close> raises), its values are the datatype
  \<open>json\<close>. \<open>SnapshotError\<close> is a \<open>ValueError\<close>.
\<close>

subsection \<open>Values and files\<close>

datatype json = JNull | JBool bool | JInt int | JFloat | JStr string | JList "json list" | JObject "(string \<times> json) list"

type_synonym bytes = "nat list"

text \<open>\<open>isinstance(v, int)\<close>, and the integer it is: a boolean is one.\<close>

fun json_int :: "json \<Rightarrow> int option" where
  "json_int (JInt i) = Some i"
| "json_int (JBool b) = Some (if b then 1 else 0)"
| "json_int _ = None"

fun from_bytes_le :: "bytes \<Rightarrow> nat" where
  "from_bytes_le [] = 0"
| "from_bytes_le (b # bs) = b + 256 * from_bytes_le bs"

text \<open>What a path of the snapshot leads to.\<close>

datatype entry = Missing | Dangling | Directory | Regular bytes

record repo =
  re_ref :: "string option"
  re_snapshots :: "(string \<times> nat) list option"
  re_is_dir :: "string \<Rightarrow> bool"
  re_index :: "string \<Rightarrow> string option"
  re_entry :: "string \<Rightarrow> string \<Rightarrow> entry"
  re_safetensors :: "string \<Rightarrow> string list"

subsection \<open>The revision\<close>

text \<open>\<open>max(candidates, key=mtime)\<close>: the first of the newest.\<close>

fun newest :: "string \<times> nat \<Rightarrow> (string \<times> nat) list \<Rightarrow> string \<times> nat" where
  "newest best [] = best"
| "newest best (c # cs) = newest (if snd best < snd c then c else best) cs"

definition read_ref :: "repo \<Rightarrow> string" where
  "read_ref r = (case re_ref r of None \<Rightarrow> [] | Some s \<Rightarrow> py_strip s)"

definition select_revision :: "repo \<Rightarrow> string \<Rightarrow> string res" where
  "select_revision r explicit_revision =
     (if explicit_revision \<noteq> [] then Inr explicit_revision
      else if read_ref r \<noteq> [] then Inr (read_ref r)
      else case re_snapshots r of
             None \<Rightarrow> Inl ValueError
           | Some [] \<Rightarrow> Inl ValueError
           | Some (c # cs) \<Rightarrow> Inr (fst (newest c cs)))"

subsection \<open>Paths\<close>

text \<open>\<open>PurePosixPath(name)\<close>: split at slashes, empty and \<open>.\<close> parts dropped; a leading slash makes it absolute.\<close>

fun split_slash :: "string \<Rightarrow> string list" where
  "split_slash [] = [[]]"
| "split_slash (c # cs) = (if c = CHR ''/'' then [] # split_slash cs else (c # hd (split_slash cs)) # tl (split_slash cs))"

definition path_parts :: "string \<Rightarrow> string list" where
  "path_parts name = filter (\<lambda>p. p \<noteq> [] \<and> p \<noteq> ''.'') (split_slash name)"

definition is_absolute :: "string \<Rightarrow> bool" where
  "is_absolute name \<longleftrightarrow> take 1 name = ''/''"

fun join_slash :: "string list \<Rightarrow> string" where
  "join_slash [] = []"
| "join_slash [p] = p"
| "join_slash (p # ps) = p @ CHR ''/'' # join_slash ps"

definition as_posix :: "string \<Rightarrow> string" where
  "as_posix name =
     (if is_absolute name then CHR ''/'' # join_slash (path_parts name)
      else if path_parts name = [] then ''.'' else join_slash (path_parts name))"

definition safe_snapshot_member :: "string \<Rightarrow> string res" where
  "safe_snapshot_member name =
     (if is_absolute name \<or> path_parts name = [] \<or> ''..'' \<in> set (path_parts name) then Inl ValueError
      else Inr (join_slash (path_parts name)))"

subsection \<open>One file\<close>

definition tensor_end :: "json \<Rightarrow> int res" where
  "tensor_end metadata =
     (case metadata of
        JObject kvs \<Rightarrow>
          (case map_of kvs ''data_offsets'' of
             Some (JList [a, b]) \<Rightarrow>
               (case (json_int a, json_int b) of
                  (Some x, Some y) \<Rightarrow> if x < 0 \<or> y < x then Inl ValueError else Inr y
                | _ \<Rightarrow> Inl ValueError)
           | _ \<Rightarrow> Inl ValueError)
      | _ \<Rightarrow> Inl ValueError)"

text \<open>The loop over the header: the number of tensors and the end of the payload they declare.\<close>

fun header_scan :: "(string \<times> json) list \<Rightarrow> nat \<times> int \<Rightarrow> (nat \<times> int) res" where
  "header_scan [] acc = Inr acc"
| "header_scan ((name, metadata) # kvs) (tensor_count, max_payload_end) =
     (if name = ''__metadata__'' then header_scan kvs (tensor_count, max_payload_end)
      else res_bind (tensor_end metadata) (\<lambda>y. header_scan kvs (tensor_count + 1, max max_payload_end y)))"

definition validate_bytes :: "(bytes \<Rightarrow> json option) \<Rightarrow> bytes \<Rightarrow> nat res" where
  "validate_bytes loads bs =
     (let size = length bs
      in if size < 9 then Inl ValueError
         else let header_len = from_bytes_le (take 8 bs)
              in if header_len \<le> 0 \<or> size - 8 < header_len then Inl ValueError
                 else case loads (take header_len (drop 8 bs)) of
                        Some (JObject kvs) \<Rightarrow>
                          res_bind (header_scan kvs (0, 0)) (\<lambda>(tensor_count, max_payload_end).
                            if tensor_count = 0 then Inl ValueError
                            else if max_payload_end > int (size - 8 - header_len) then Inl ValueError
                            else Inr size)
                      | _ \<Rightarrow> Inl ValueError)"

definition validate_safetensors_file :: "(bytes \<Rightarrow> json option) \<Rightarrow> entry \<Rightarrow> nat res" where
  "validate_safetensors_file loads e = (case e of Regular bs \<Rightarrow> validate_bytes loads bs | _ \<Rightarrow> Inl ValueError)"

subsection \<open>The snapshot\<close>

record report =
  rp_revision :: string
  rp_shard_count :: nat
  rp_total_bytes :: nat

fun shard_names :: "(string \<times> json) list \<Rightarrow> string list option" where
  "shard_names [] = Some []"
| "shard_names ((_, v) # kvs) =
     (case v of JStr (c # cs) \<Rightarrow> map_option ((#) (c # cs)) (shard_names kvs) | _ \<Rightarrow> None)"

fun total_bytes :: "(bytes \<Rightarrow> json option) \<Rightarrow> (string \<Rightarrow> entry) \<Rightarrow> string list \<Rightarrow> nat res" where
  "total_bytes loads entries [] = Inr 0"
| "total_bytes loads entries (name # names) =
     res_bind (safe_snapshot_member name) (\<lambda>path.
     res_bind (validate_safetensors_file loads (entries path)) (\<lambda>size.
     res_bind (total_bytes loads entries names) (\<lambda>rest. Inr (size + rest))))"

text \<open>The shards that the index names, one for each weight.\<close>

definition index_names :: "(string \<Rightarrow> json option) \<Rightarrow> string \<Rightarrow> string list option" where
  "index_names loads_text raw =
     (case loads_text raw of
        Some (JObject kvs) \<Rightarrow>
          (case map_of kvs ''weight_map'' of Some (JObject (w # ws)) \<Rightarrow> shard_names (w # ws) | _ \<Rightarrow> None)
      | _ \<Rightarrow> None)"

definition validate_snapshot ::
    "(string \<Rightarrow> json option) \<Rightarrow> (bytes \<Rightarrow> json option) \<Rightarrow> repo \<Rightarrow> string \<Rightarrow> nat option \<Rightarrow> report res" where
  "validate_snapshot loads_text loads r explicit_revision expected_shards =
     res_bind (select_revision r explicit_revision) (\<lambda>revision.
       if \<not> re_is_dir r revision then Inl ValueError
       else case re_index r revision of
         None \<Rightarrow> Inl ValueError
       | Some raw \<Rightarrow>
           (case index_names loads_text raw of
              None \<Rightarrow> Inl ValueError
            | Some names \<Rightarrow>
                let shards = sort (remdups names)
                in if (case expected_shards of None \<Rightarrow> False | Some n \<Rightarrow> length shards \<noteq> n) then Inl ValueError
                   else if \<not> set (re_safetensors r revision) \<subseteq> as_posix ` set shards then Inl ValueError
                   else res_bind (total_bytes loads (re_entry r revision) shards) (\<lambda>total.
                          Inr \<lparr>rp_revision = revision, rp_shard_count = length shards, rp_total_bytes = total\<rparr>)))"

subsection \<open>What an accepted shard declares\<close>

definition tensors :: "(string \<times> json) list \<Rightarrow> json list" where
  "tensors kvs = map snd (filter (\<lambda>(name, _). name \<noteq> ''__metadata__'') kvs)"

lemma tensors_simps [simp]:
  "tensors [] = []"
  "tensors ((name, md) # kvs) = (if name = ''__metadata__'' then tensors kvs else md # tensors kvs)"
  by (simp_all add: tensors_def)

definition tensor_within :: "int \<Rightarrow> json \<Rightarrow> bool" where
  "tensor_within payload t = (case tensor_end t of Inl e \<Rightarrow> False | Inr y \<Rightarrow> y \<le> payload)"

lemma tensor_end_Inl: "tensor_end t = Inl e \<Longrightarrow> e = ValueError"
  by (auto simp: tensor_end_def split: json.splits option.splits list.splits if_splits)

definition scan_result :: "(string \<times> json) list \<Rightarrow> nat \<times> int \<Rightarrow> (nat \<times> int) res \<Rightarrow> bool" where
  "scan_result kvs acc r =
     (case r of
        Inl e \<Rightarrow> e = ValueError \<and> (\<forall>p. \<not> list_all (tensor_within p) (tensors kvs))
      | Inr (c, m) \<Rightarrow> c = fst acc + length (tensors kvs)
          \<and> (\<forall>p. m \<le> p \<longleftrightarrow> snd acc \<le> p \<and> list_all (tensor_within p) (tensors kvs)))"

lemma header_scan_result: "scan_result kvs acc (header_scan kvs acc)"
proof (induction kvs acc rule: header_scan.induct)
  case (1 acc)
  then show ?case by (cases acc) (simp add: scan_result_def)
next
  case (2 name md kvs c m)
  show ?case
  proof (cases "name = ''__metadata__''")
    case True
    with 2(1) show ?thesis by (auto simp: scan_result_def split: sum.splits)
  next
    case False
    show ?thesis
    proof (cases "tensor_end md")
      case (Inl e)
      with False tensor_end_Inl [OF Inl] show ?thesis by (simp add: scan_result_def tensor_within_def)
    next
      case (Inr y)
      have "tensor_within p md \<longleftrightarrow> y \<le> p" for p by (simp add: tensor_within_def Inr)
      with 2(2) [OF False, of y] False Inr show ?thesis by (auto simp: scan_result_def split: sum.splits)
    qed
  qed
qed

text \<open>A shard as its parts: the length of its header and the tensors it declares.\<close>

definition shard_layout :: "(bytes \<Rightarrow> json option) \<Rightarrow> bytes \<Rightarrow> (nat \<times> json list) option" where
  "shard_layout loads bs =
     (let header_len = from_bytes_le (take 8 bs)
      in if length bs < 9 \<or> header_len = 0 \<or> length bs - 8 < header_len then None
         else case loads (take header_len (drop 8 bs)) of
                Some (JObject kvs) \<Rightarrow> Some (header_len, tensors kvs)
              | _ \<Rightarrow> None)"

lemma validate_bytes_cases:
  "validate_bytes loads bs =
     (case shard_layout loads bs of
        None \<Rightarrow> Inl ValueError
      | Some (header_len, ts) \<Rightarrow>
          if ts \<noteq> [] \<and> list_all (tensor_within (int (length bs - 8 - header_len))) ts then Inr (length bs) else Inl ValueError)"
proof (cases "length bs < 9 \<or> from_bytes_le (take 8 bs) = 0 \<or> length bs - 8 < from_bytes_le (take 8 bs)")
  case True
  then show ?thesis by (auto simp: validate_bytes_def shard_layout_def Let_def)
next
  case False
  show ?thesis
  proof (cases "\<exists>kvs. loads (take (from_bytes_le (take 8 bs)) (drop 8 bs)) = Some (JObject kvs)")
    case True
    then obtain kvs where l: "loads (take (from_bytes_le (take 8 bs)) (drop 8 bs)) = Some (JObject kvs)" ..
    show ?thesis
    proof (cases "header_scan kvs (0, 0)")
      case (Inl e)
      with header_scan_result [of kvs "(0, 0)"] False l show ?thesis
        by (simp add: validate_bytes_def shard_layout_def Let_def scan_result_def)
    next
      case (Inr r)
      obtain c m where r: "r = (c, m)" by (cases r)
      with header_scan_result [of kvs "(0, 0)"] Inr
      have "c = length (tensors kvs)" "int p < m \<longleftrightarrow> \<not> list_all (tensor_within (int p)) (tensors kvs)" for p
        by (simp_all add: scan_result_def flip: not_le)
      with False l Inr r show ?thesis by (auto simp: validate_bytes_def shard_layout_def Let_def not_less simp del: of_nat_diff)
    qed
  next
    case False': False
    with False show ?thesis by (auto simp: validate_bytes_def shard_layout_def Let_def split: option.splits json.splits)
  qed
qed

text \<open>A shard is accepted exactly if it holds what it declares. The check of a file succeeds, with its size, if and
  only if its header decodes to an object with at least one tensor and every tensor has ordered, non-negative
  offsets that end inside the payload; and if the declared tensors end exactly where the file does, every proper
  prefix of the file is refused.\<close>

theorem truncated_shard_refused:
  assumes "shard_layout loads bs = Some (header_len, ts)"
  shows "(is_ok (validate_bytes loads bs) \<longleftrightarrow> ts \<noteq> [] \<and> list_all (tensor_within (int (length bs - 8 - header_len))) ts)
    \<and> (list_ex (\<lambda>t. tensor_end t = Inr (int (length bs - 8 - header_len))) ts \<longrightarrow> k < length bs
         \<longrightarrow> validate_bytes loads (take k bs) = Inl ValueError)"
proof (intro conjI impI)
  show "is_ok (validate_bytes loads bs) \<longleftrightarrow> ts \<noteq> [] \<and> list_all (tensor_within (int (length bs - 8 - header_len))) ts"
    unfolding validate_bytes_cases assms by simp
next
  assume full: "list_ex (\<lambda>t. tensor_end t = Inr (int (length bs - 8 - header_len))) ts" and k: "k < length bs"
  from assms have hl: "header_len = from_bytes_le (take 8 bs)" "header_len \<le> length bs - 8" "9 \<le> length bs"
    by (auto simp: shard_layout_def Let_def split: if_splits option.splits json.splits)
  show "validate_bytes loads (take k bs) = Inl ValueError"
  proof (cases "8 + header_len \<le> k")
    case True
    then have "take 8 (take k bs) = take 8 bs" "take header_len (drop 8 (take k bs)) = take header_len (drop 8 bs)"
      by (simp_all add: min_def drop_take)
    with assms True k hl have lay: "shard_layout loads (take k bs) = Some (header_len, ts)"
      by (auto simp: shard_layout_def Let_def min_def split: if_splits)
    from full obtain t where t: "t \<in> set ts" "tensor_end t = Inr (int (length bs - 8 - header_len))" by (auto simp: list_ex_iff)
    then have "\<not> tensor_within (int (k - 8 - header_len)) t" using True k hl by (simp add: tensor_within_def)
    with t k show ?thesis unfolding validate_bytes_cases lay by (auto simp: list_all_iff min_def)
  next
    case False
    then show ?thesis
    proof (cases "8 \<le> k")
      case True
      then have "take 8 (take k bs) = take 8 bs" by (simp add: min_def)
      with False True k hl show ?thesis by (auto simp: validate_bytes_def Let_def min_def)
    next
      case small: False
      then show ?thesis by (simp add: validate_bytes_def Let_def min_def)
    qed
  qed
qed

subsection \<open>What an accepted snapshot holds\<close>

definition member_path :: "string \<Rightarrow> string" where
  "member_path name = join_slash (path_parts name)"

text \<open>
  What a complete shard is, by the layout of the format and not by the check: an eight-byte length, a
  header of that length that decodes to an object with a tensor, and behind it a payload that
  contains the byte range of every tensor.
\<close>

definition tensor_in_file :: "bytes \<Rightarrow> nat \<Rightarrow> json \<Rightarrow> bool" where
  "tensor_in_file bs header_len md \<longleftrightarrow>
     (\<exists>fields a b x y. md = JObject fields \<and> map_of fields ''data_offsets'' = Some (JList [a, b])
        \<and> json_int a = Some x \<and> json_int b = Some y \<and> 0 \<le> x \<and> x \<le> y \<and> 8 + int header_len + y \<le> int (length bs))"

definition complete_shard :: "(bytes \<Rightarrow> json option) \<Rightarrow> bytes \<Rightarrow> bool" where
  "complete_shard loads bs \<longleftrightarrow>
     (\<exists>len header payload kvs. bs = len @ header @ payload \<and> length len = 8 \<and> header \<noteq> []
        \<and> from_bytes_le len = length header \<and> loads header = Some (JObject kvs)
        \<and> (\<exists>(name, md) \<in> set kvs. name \<noteq> ''__metadata__'')
        \<and> (\<forall>(name, md) \<in> set kvs. name \<noteq> ''__metadata__'' \<longrightarrow> tensor_in_file bs (length header) md))"

lemma tensor_end_Inr:
  "tensor_end md = Inr y \<longleftrightarrow>
     (\<exists>fields a b x. md = JObject fields \<and> map_of fields ''data_offsets'' = Some (JList [a, b])
        \<and> json_int a = Some x \<and> json_int b = Some y \<and> 0 \<le> x \<and> x \<le> y)"
  by (auto simp: tensor_end_def split: json.splits option.splits list.splits)

lemma tensor_within_in_file:
  assumes "8 + header_len \<le> length bs"
  shows "tensor_within (int (length bs - 8 - header_len)) md \<longleftrightarrow> tensor_in_file bs header_len md"
proof -
  have "tensor_within (int (length bs - 8 - header_len)) md \<longleftrightarrow> (\<exists>y. tensor_end md = Inr y \<and> 8 + int header_len + y \<le> int (length bs))"
    using assms by (auto simp: tensor_within_def of_nat_diff split: sum.splits)
  then show ?thesis
    unfolding tensor_end_Inr tensor_in_file_def by blast
qed

lemma shard_layout_Some:
  "shard_layout loads bs = Some (header_len, ts) \<longleftrightarrow>
     (\<exists>len header payload kvs. bs = len @ header @ payload \<and> length len = 8 \<and> header \<noteq> []
        \<and> from_bytes_le len = length header \<and> loads header = Some (JObject kvs) \<and> header_len = length header \<and> ts = tensors kvs)"
  (is "?l \<longleftrightarrow> ?r")
proof
  assume ?l
  then have h: "\<not> length bs < 9" "from_bytes_le (take 8 bs) = header_len" "header_len \<noteq> 0" "header_len \<le> length bs - 8"
    and k: "\<exists>kvs. loads (take header_len (drop 8 bs)) = Some (JObject kvs) \<and> ts = tensors kvs"
    by (auto simp: shard_layout_def Let_def split: if_splits option.splits json.splits)
  then have "length (take header_len (drop 8 bs)) = header_len" "bs = take 8 bs @ take header_len (drop 8 bs) @ drop header_len (drop 8 bs)"
    by (simp, metis append_take_drop_id)
  with h k show ?r
    by (intro exI [of _ "take 8 bs"] exI [of _ "take header_len (drop 8 bs)"] exI [of _ "drop header_len (drop 8 bs)"]) auto
next
  assume ?r
  then obtain len header payload kvs where p: "bs = len @ header @ payload" "length len = 8" "header \<noteq> []"
    "from_bytes_le len = length header" "loads header = Some (JObject kvs)" "header_len = length header" "ts = tensors kvs" by blast
  have parts: "take 8 bs = len" "drop 8 bs = header @ payload" "length bs = 8 + (length header + length payload)" "0 < length header"
    using p(1-3) by simp_all
  show ?l
    unfolding shard_layout_def Let_def parts(1,2) using parts(3,4) p(4-7) by simp
qed

lemma tensors_mem: "md \<in> set (tensors kvs) \<longleftrightarrow> (\<exists>name. (name, md) \<in> set kvs \<and> name \<noteq> ''__metadata__'')"
  by (force simp: tensors_def)

lemma tensors_nonempty: "tensors kvs \<noteq> [] \<longleftrightarrow> (\<exists>(name, md) \<in> set kvs. name \<noteq> ''__metadata__'')"
proof -
  have "tensors kvs \<noteq> [] \<longleftrightarrow> (\<exists>md. md \<in> set (tensors kvs))"
    by (cases "tensors kvs") auto
  then show ?thesis
    by (auto simp: tensors_mem)
qed

lemma accepted_iff_complete: "is_ok (validate_bytes loads bs) \<longleftrightarrow> complete_shard loads bs"
proof -
  have "is_ok (validate_bytes loads bs) \<longleftrightarrow>
      (\<exists>hl ts. shard_layout loads bs = Some (hl, ts) \<and> ts \<noteq> [] \<and> list_all (tensor_within (int (length bs - 8 - hl))) ts)"
    unfolding validate_bytes_cases by (auto split: option.splits)
  also have "\<dots> \<longleftrightarrow> complete_shard loads bs"
    unfolding shard_layout_Some complete_shard_def
  proof (intro iffI; elim exE conjE)
    fix hl ts len header payload kvs
    assume p: "bs = len @ header @ payload" "length len = 8" "hl = length header" "ts = tensors kvs"
      and n: "ts \<noteq> []" and w: "list_all (tensor_within (int (length bs - 8 - hl))) ts"
      and "header \<noteq> []" "from_bytes_le len = length header" "loads header = Some (JObject kvs)"
    moreover have "8 + hl \<le> length bs"
      using p by simp
    note F = tensor_within_in_file [OF this]
    have "\<forall>(name, md) \<in> set kvs. name \<noteq> ''__metadata__'' \<longrightarrow> tensor_in_file bs (length header) md"
      using w F by (auto simp: list_all_iff p(3,4) tensors_mem)
    moreover have "\<exists>(name, md) \<in> set kvs. name \<noteq> ''__metadata__''"
      using n unfolding p(4) tensors_nonempty .
    ultimately show "\<exists>len header payload kvs. bs = len @ header @ payload \<and> length len = 8 \<and> header \<noteq> []
        \<and> from_bytes_le len = length header \<and> loads header = Some (JObject kvs)
        \<and> (\<exists>(name, md) \<in> set kvs. name \<noteq> ''__metadata__'')
        \<and> (\<forall>(name, md) \<in> set kvs. name \<noteq> ''__metadata__'' \<longrightarrow> tensor_in_file bs (length header) md)"
      by blast
  next
    fix len header payload kvs
    assume p: "bs = len @ header @ payload" "length len = 8"
      and n: "\<exists>(name, md) \<in> set kvs. name \<noteq> ''__metadata__''"
      and w: "\<forall>(name, md) \<in> set kvs. name \<noteq> ''__metadata__'' \<longrightarrow> tensor_in_file bs (length header) md"
      and rest: "header \<noteq> []" "from_bytes_le len = length header" "loads header = Some (JObject kvs)"
    have "8 + length header \<le> length bs"
      using p by simp
    note F = tensor_within_in_file [OF this]
    have "list_all (tensor_within (int (length bs - 8 - length header))) (tensors kvs)"
      using w F by (auto simp: list_all_iff tensors_mem)
    moreover have "tensors kvs \<noteq> []"
      using n unfolding tensors_nonempty .
    ultimately show "\<exists>hl ts. (\<exists>len header payload kvs. bs = len @ header @ payload \<and> length len = 8 \<and> header \<noteq> []
        \<and> from_bytes_le len = length header \<and> loads header = Some (JObject kvs) \<and> hl = length header \<and> ts = tensors kvs)
        \<and> ts \<noteq> [] \<and> list_all (tensor_within (int (length bs - 8 - hl))) ts"
      using p rest by blast
  qed
  finally show ?thesis .
qed

definition shard_ok :: "(bytes \<Rightarrow> json option) \<Rightarrow> (string \<Rightarrow> entry) \<Rightarrow> string \<Rightarrow> bool" where
  "shard_ok loads entries name \<longleftrightarrow> \<not> is_absolute name \<and> path_parts name \<noteq> [] \<and> ''..'' \<notin> set (path_parts name)
     \<and> (\<exists>bs. entries (member_path name) = Regular bs \<and> complete_shard loads bs)"

definition file_size :: "entry \<Rightarrow> nat" where
  "file_size e = (case e of Regular bs \<Rightarrow> length bs | _ \<Rightarrow> 0)"

lemma validate_bytes_size: "validate_bytes loads bs = Inr n \<Longrightarrow> n = length bs"
  unfolding validate_bytes_cases by (auto split: option.splits if_splits)

lemma total_bytes_Inr:
  "total_bytes loads entries names = Inr t \<longleftrightarrow>
     list_all (shard_ok loads entries) names \<and> t = sum_list (map (\<lambda>name. file_size (entries (member_path name))) names)"
proof (induction names arbitrary: t)
  case (Cons name names)
  show ?case
  proof (cases "entries (member_path name)")
    case (Regular bs)
    with Cons validate_bytes_size [of loads bs] show ?thesis
      by (auto simp: res_bind_Inr safe_snapshot_member_def validate_safetensors_file_def shard_ok_def file_size_def is_ok_iff member_path_def
          accepted_iff_complete [symmetric])
  qed (auto simp: res_bind_Inr safe_snapshot_member_def validate_safetensors_file_def shard_ok_def member_path_def)
qed auto

lemma shard_names_Some: "shard_names kvs = Some names \<Longrightarrow> map snd kvs = map JStr names"
proof (induction kvs arbitrary: names)
  case (Cons a kvs)
  then show ?case by (cases a) (auto split: json.splits list.splits)
qed simp

lemma index_names_Some:
  "index_names loads_text raw = Some names \<Longrightarrow>
     \<exists>kvs ws. loads_text raw = Some (JObject kvs) \<and> map_of kvs ''weight_map'' = Some (JObject ws) \<and> map snd ws = map JStr names"
  by (auto simp: index_names_def simp del: shard_names.simps dest!: shard_names_Some split: option.splits json.splits list.splits)

text \<open>(C29) A snapshot is accepted exactly if it is complete. The validation reports a snapshot if and only if the selected
  revision is a directory with an index whose non-empty names are as many different shards as expected, each of them
  a relative path without an upward step to a regular file that is a complete shard by the layout of the format
  (the byte range of every tensor of its header lies inside the file), and no safetensors file of the snapshot
  is missing from the index; the report then holds the revision, the number of shards and the sum of
  their sizes.\<close>

theorem accepted_snapshot_complete:
  "validate_snapshot loads_text loads r explicit_revision expected = Inr rep \<longleftrightarrow>
   (\<exists>revision raw names. select_revision r explicit_revision = Inr revision \<and> re_is_dir r revision
      \<and> re_index r revision = Some raw \<and> index_names loads_text raw = Some names
      \<and> (case expected of None \<Rightarrow> True | Some n \<Rightarrow> n = card (set names))
      \<and> list_all (shard_ok loads (re_entry r revision)) names
      \<and> set (re_safetensors r revision) \<subseteq> member_path ` set names
      \<and> rep = \<lparr>rp_revision = revision, rp_shard_count = card (set names),
           rp_total_bytes = (\<Sum>name \<in> set names. file_size (re_entry r revision (member_path name)))\<rparr>)"
proof -
  have shards: "as_posix ` set names = member_path ` set names"
    if "list_all (shard_ok loads entries) names" for names entries
    using that by (intro image_cong) (auto simp: list_all_iff shard_ok_def as_posix_def member_path_def)
  have len: "length (sort (remdups names)) = card (set names)" for names :: "string list"
    by (simp add: length_remdups_card_conv)
  have total: "total_bytes loads entries (sort (remdups names)) = Inr t \<longleftrightarrow>
      list_all (shard_ok loads entries) names \<and> t = (\<Sum>name \<in> set names. file_size (entries (member_path name)))" for entries names t
    by (simp add: total_bytes_Inr list_all_iff sum_list_distinct_conv_sum_set)
  have checked: "(if \<not> re_is_dir r revision then Inl ValueError
       else case re_index r revision of
         None \<Rightarrow> Inl ValueError
       | Some raw \<Rightarrow>
           (case index_names loads_text raw of
              None \<Rightarrow> Inl ValueError
            | Some names \<Rightarrow>
                if (case expected of None \<Rightarrow> False | Some n \<Rightarrow> card (set names) \<noteq> n) then Inl ValueError
                else if \<not> set (re_safetensors r revision) \<subseteq> as_posix ` set (sort (remdups names)) then Inl ValueError
                else res_bind (total_bytes loads (re_entry r revision) (sort (remdups names))) (\<lambda>total.
                       Inr \<lparr>rp_revision = revision, rp_shard_count = card (set names), rp_total_bytes = total\<rparr>))) = Inr rep \<longleftrightarrow>
     re_is_dir r revision \<and> (\<exists>raw names t. re_index r revision = Some raw \<and> index_names loads_text raw = Some names
      \<and> (case expected of None \<Rightarrow> True | Some n \<Rightarrow> n = card (set names))
      \<and> set (re_safetensors r revision) \<subseteq> as_posix ` set names
      \<and> total_bytes loads (re_entry r revision) (sort (remdups names)) = Inr t
      \<and> rep = \<lparr>rp_revision = revision, rp_shard_count = card (set names), rp_total_bytes = t\<rparr>)" for revision
    by (cases "re_index r revision"; cases "index_names loads_text (the (re_index r revision))"; cases expected)
       (auto simp: res_bind_Inr)
  have "validate_snapshot loads_text loads r explicit_revision expected = Inr rep \<longleftrightarrow>
     (\<exists>revision raw names t. select_revision r explicit_revision = Inr revision \<and> re_is_dir r revision
      \<and> re_index r revision = Some raw \<and> index_names loads_text raw = Some names
      \<and> (case expected of None \<Rightarrow> True | Some n \<Rightarrow> n = card (set names))
      \<and> set (re_safetensors r revision) \<subseteq> as_posix ` set names
      \<and> total_bytes loads (re_entry r revision) (sort (remdups names)) = Inr t
      \<and> rep = \<lparr>rp_revision = revision, rp_shard_count = card (set names), rp_total_bytes = t\<rparr>)"
    unfolding validate_snapshot_def res_bind_Inr [of _ "\<lambda>revision. if \<not> re_is_dir r revision then _ revision else _ revision"] Let_def len checked
    by blast
  also have "\<dots> \<longleftrightarrow> (\<exists>revision raw names. select_revision r explicit_revision = Inr revision \<and> re_is_dir r revision
      \<and> re_index r revision = Some raw \<and> index_names loads_text raw = Some names
      \<and> (case expected of None \<Rightarrow> True | Some n \<Rightarrow> n = card (set names))
      \<and> list_all (shard_ok loads (re_entry r revision)) names
      \<and> set (re_safetensors r revision) \<subseteq> member_path ` set names
      \<and> rep = \<lparr>rp_revision = revision, rp_shard_count = card (set names),
           rp_total_bytes = (\<Sum>name \<in> set names. file_size (re_entry r revision (member_path name)))\<rparr>)"
    unfolding total using shards by blast
  finally show ?thesis .
qed

subsection \<open>Witnesses\<close>

text \<open>A decoder of two headers by their bytes, and a shard of one tensor with a payload of four bytes.\<close>

definition demo_loads :: "bytes \<Rightarrow> json option" where
  "demo_loads h = (if h = [1, 2] then Some (JObject [(''__metadata__'', JNull), (''w'', JObject [(''data_offsets'', JList [JInt 0, JInt 4])])]) else None)"

definition demo_shard :: bytes where
  "demo_shard = [2, 0, 0, 0, 0, 0, 0, 0, 1, 2, 7, 7, 7, 7]"

lemma demo_layout: "shard_layout demo_loads demo_shard = Some (2, [JObject [(''data_offsets'', JList [JInt 0, JInt 4])]])"
  by (simp add: shard_layout_def demo_shard_def demo_loads_def eval_nat_numeral)

theorem truncated_shard_refused_witness:
  "is_ok (validate_bytes demo_loads demo_shard) \<and> validate_bytes demo_loads (take 13 demo_shard) = Inl ValueError"
  using truncated_shard_refused [OF demo_layout, of 13]
  by (simp add: demo_shard_def tensor_within_def tensor_end_def)

definition demo_repo :: repo where
  "demo_repo = \<lparr>re_ref = Some ''r1 '', re_snapshots = Some [(''r0'', 5), (''r1'', 3)], re_is_dir = (\<lambda>v. v \<in> {''r0'', ''r1''}), re_index = (\<lambda>_. Some ''index''),
     re_entry = (\<lambda>_ path. if path = ''m/a.st'' then Regular demo_shard else Missing), re_safetensors = (\<lambda>_. [''m/a.st''])\<rparr>"

definition demo_index :: "string \<Rightarrow> json option" where
  "demo_index s = Some (JObject [(''weight_map'', JObject [(''w'', JStr ''m/./a.st''), (''v'', JStr ''m/./a.st'')])])"

lemma demo_report:
  "validate_snapshot demo_index demo_loads demo_repo [] (Some 1) = Inr \<lparr>rp_revision = ''r1'', rp_shard_count = 1, rp_total_bytes = 14\<rparr>"
  by code_simp

theorem accepted_snapshot_complete_witness:
  "\<exists>revision raw names. select_revision demo_repo [] = Inr revision \<and> re_index demo_repo revision = Some raw
     \<and> index_names demo_index raw = Some names \<and> list_all (shard_ok demo_loads (re_entry demo_repo revision)) names"
  using accepted_snapshot_complete [THEN iffD1, OF demo_report] by blast

end
