(* ===== verification/Import_Closure.thy ===== *)
theory Import_Closure
  imports Py_Text "HOL-Library.While_Combinator" "HOL-Library.List_Lexorder" "HOL-Library.Char_ord"
begin

text \<open>
  The import closure of \<open>scripts/audit_exl3_mgemm_indices.py\<close>: dotted names, the search for the
  file of a module, the references an import statement makes, and the worklist that follows them
  (\<open>_resolve_module\<close>, \<open>import_closure\<close>). The worklist is a \<open>while\<close> loop whose queue is popped at
  its end, so it is a \<open>while_option\<close> here, and that it ends is a theorem. \<open>ast.parse\<close> is an
  argument: a text gives the nodes \<open>ast.walk\<close> lists, or the message of a \<open>SyntaxError\<close>. The names
  of a parsed import have no empty component; that is the one law of it (\<open>parser_ok\<close>) the
  theorems use. Names hold no slash and files are UTF-8.
\<close>

subsection \<open>Dotted names\<close>

text \<open>\<open>s.split(".")\<close> and \<open>".".join(ps)\<close>.\<close>

fun split_dot :: "string \<Rightarrow> string list" where
  "split_dot [] = [[]]"
| "split_dot (c # cs) =
     (if c = CHR ''.'' then [] # split_dot cs
      else (c # hd (split_dot cs)) # tl (split_dot cs))"

fun join_dot :: "string list \<Rightarrow> string" where
  "join_dot [] = []"
| "join_dot [p] = p"
| "join_dot (p # q # ps) = p @ ''.'' @ join_dot (q # ps)"

definition wf_name :: "string \<Rightarrow> bool" where
  "wf_name n \<longleftrightarrow> [] \<notin> set (split_dot n)"

subsection \<open>Files and syntax\<close>

text \<open>
  The files at and below the package directory: path components, the directory's name first, and
  the text, or the message of the \<open>OSError\<close> that reading it raises.
\<close>

type_synonym package_files = "(string list \<times> (string + string)) list"

definition is_file :: "package_files \<Rightarrow> string list \<Rightarrow> bool" where
  "is_file fs p \<longleftrightarrow> map_of fs p \<noteq> None"

text \<open>The nodes the walks look at; \<open>level\<close>, \<open>module\<close> and the alias names as \<open>ast\<close> gives them.\<close>

datatype py_node =
    Import "string list"
  | ImportFrom nat "string option" "string list"
  | OtherNode

type_synonym py_parser = "string \<Rightarrow> string + py_node list"

fun node_ok :: "py_node \<Rightarrow> bool" where
  "node_ok (Import names) = list_all wf_name names"
| "node_ok (ImportFrom level m names) =
     ((case m of None \<Rightarrow> True | Some m \<Rightarrow> wf_name m) \<and> list_all wf_name names)"
| "node_ok OtherNode = True"

definition parser_ok :: "py_parser \<Rightarrow> bool" where
  "parser_ok parse \<longleftrightarrow> (\<forall>txt nodes. parse txt = Inr nodes \<longrightarrow> list_all node_ok nodes)"

definition STUB_NAMESPACES :: "string set" where
  "STUB_NAMESPACES = {''exllamav3.modules'', ''exllamav3.model'', ''exllamav3.model.config''}"

text \<open>\<open>base.with_suffix(".py")\<close> of a path whose last component has no dot.\<close>

definition with_suffix_py :: "string list \<Rightarrow> string list" where
  "with_suffix_py base = butlast base @ [last base @ ''.py'']"

definition resolve_module :: "string \<Rightarrow> package_files \<Rightarrow> string \<Rightarrow> (string list \<times> bool) option" where
  "resolve_module pkg fs name =
     (let parts = split_dot name;
          parts = (if parts \<noteq> [] \<and> hd parts = pkg then tl parts else parts);
          base = pkg # filter (\<lambda>p. p \<noteq> []) parts;
          module_file = with_suffix_py base;
          package_file = base @ [''__init__.py'']
      in if is_file fs module_file then Some (module_file, False)
         else if is_file fs package_file then Some (package_file, True)
         else None)"

subsection \<open>The worklist\<close>

text \<open>What one node of a module appends to the queue.\<close>

fun node_refs :: "string list \<Rightarrow> py_node \<Rightarrow> (string \<times> bool) list" where
  "node_refs package_parts (Import names) = map (\<lambda>a. (a, True)) names"
| "node_refs package_parts (ImportFrom level m names) =
     (if level \<noteq> 0 then
        let dropped = level - 1 in
        if length package_parts < dropped then []
        else
          let base_parts = take (length package_parts - dropped) package_parts;
              base_parts = (if m \<noteq> None \<and> m \<noteq> Some [] then base_parts @ split_dot (the m) else base_parts)
          in if base_parts = [] then []
             else let base = join_dot base_parts
                  in (base, True) # map (\<lambda>a. (base @ ''.'' @ a, False)) names
      else if m \<noteq> None \<and> m \<noteq> Some [] then
        (the m, True) # map (\<lambda>a. (the m @ ''.'' @ a, False)) names
      else [])"
| "node_refs package_parts OtherNode = []"

record closure_state =
  cl_queue :: "(string \<times> bool) list"
  cl_seen :: "string set"
  cl_required :: "string set"
  cl_resolvable :: "string set"
  cl_unparseable :: "string set"

definition closure_init :: "string list \<Rightarrow> closure_state" where
  "closure_init seeds =
     \<lparr>cl_queue = map (\<lambda>n. (n, True)) seeds, cl_seen = {}, cl_required = {}, cl_resolvable = {},
      cl_unparseable = {}\<rparr>"

text \<open>The body of the loop, entered with a queue that is not empty.\<close>

definition closure_step :: "py_parser \<Rightarrow> string \<Rightarrow> package_files \<Rightarrow> closure_state \<Rightarrow> closure_state" where
  "closure_step parse pkg fs st =
     (let (name, is_module_ref) = last (cl_queue st);
          st = st\<lparr>cl_queue := butlast (cl_queue st)\<rparr>;
          st = (if is_module_ref then st\<lparr>cl_required := insert name (cl_required st)\<rparr> else st)
      in if name \<in> cl_seen st then st
         else
           let st = st\<lparr>cl_seen := insert name (cl_seen st)\<rparr> in
           if name \<in> STUB_NAMESPACES then st\<lparr>cl_resolvable := insert name (cl_resolvable st)\<rparr>
           else case resolve_module pkg fs name of
             None \<Rightarrow> st
           | Some (path, is_package) \<Rightarrow>
               (let st = st\<lparr>cl_resolvable := insert name (cl_resolvable st)\<rparr> in
                case the (map_of fs path) of
                  Inl exc \<Rightarrow>
                    st\<lparr>cl_unparseable := insert (name @ '': unreadable ('' @ exc @ '')'') (cl_unparseable st)\<rparr>
                | Inr txt \<Rightarrow>
                    (case parse txt of
                       Inl exc \<Rightarrow> st\<lparr>cl_unparseable := insert (name @ '': '' @ exc) (cl_unparseable st)\<rparr>
                     | Inr tree \<Rightarrow>
                         (let parts = split_dot name;
                              package_parts = (if is_package then parts else butlast parts)
                          in st\<lparr>cl_queue := cl_queue st @ concat (map (node_refs package_parts) tree)\<rparr>))))"

record closure_result =
  cr_modules :: "string set"
  cr_unresolved :: "string list"
  cr_unparseable :: "string list"

definition in_package :: "string \<Rightarrow> string \<Rightarrow> bool" where
  "in_package pkg name \<longleftrightarrow> name = pkg \<or> starts (pkg @ ''.'') name"

definition closure_loop :: "py_parser \<Rightarrow> string \<Rightarrow> package_files \<Rightarrow> string list \<Rightarrow> closure_state option" where
  "closure_loop parse pkg fs seeds =
     while_option (\<lambda>st. cl_queue st \<noteq> []) (closure_step parse pkg fs) (closure_init seeds)"

definition import_closure :: "py_parser \<Rightarrow> string \<Rightarrow> package_files \<Rightarrow> string list \<Rightarrow> closure_result option" where
  "import_closure parse pkg fs seeds =
     map_option (\<lambda>st. \<lparr>cr_modules = cl_seen st,
                       cr_unresolved = sorted_list_of_set
                          {n \<in> cl_required st. in_package pkg n \<and> n \<notin> cl_resolvable st},
                       cr_unparseable = sorted_list_of_set (cl_unparseable st)\<rparr>)
       (closure_loop parse pkg fs seeds)"

subsection \<open>Splitting and joining\<close>

lemma split_dot_not_Nil [simp]: "split_dot s \<noteq> []"
  by (cases s) auto

lemma split_dot_no_dot: "CHR ''.'' \<notin> set p \<Longrightarrow> split_dot p = [p]"
  by (induction p) auto

lemma split_dot_parts: "p \<in> set (split_dot s) \<Longrightarrow> CHR ''.'' \<notin> set p"
proof (induction s arbitrary: p)
  case (Cons c cs)
  have "hd (split_dot cs) \<in> set (split_dot cs)" and "set (tl (split_dot cs)) \<subseteq> set (split_dot cs)"
    by (simp_all add: list.set_sel(2) subsetI)
  with Cons show ?case by (auto split: if_splits)
qed simp

lemma split_dot_append: "split_dot (s @ ''.'' @ t) = split_dot s @ split_dot t"
  by (induction s) auto

lemma join_split_dot [simp]: "join_dot (split_dot s) = s"
proof (induction s)
  case (Cons c cs)
  obtain p ps where "split_dot cs = p # ps" by (cases "split_dot cs") auto
  with Cons show ?case by (cases ps) auto
qed simp

lemma split_join_dot: "ps \<noteq> [] \<Longrightarrow> split_dot (join_dot ps) = concat (map split_dot ps)"
  by (induction ps rule: join_dot.induct) (simp_all add: split_dot_append [simplified])

lemma split_join_parts:
  assumes "ps \<noteq> []" and "\<forall>p \<in> set ps. CHR ''.'' \<notin> set p"
  shows "split_dot (join_dot ps) = ps"
proof -
  have "concat (map split_dot ps) = ps"
    using assms(2) by (induction ps) (simp_all add: split_dot_no_dot)
  with assms(1) show ?thesis by (simp add: split_join_dot)
qed

lemma wf_name_append: "wf_name (s @ ''.'' @ t) \<longleftrightarrow> wf_name s \<and> wf_name t"
  by (simp only: wf_name_def split_dot_append set_append Un_iff de_Morgan_disj)

lemma wf_name_join:
  assumes "ps \<noteq> []" and "\<forall>p \<in> set ps. p \<noteq> [] \<and> CHR ''.'' \<notin> set p"
  shows "wf_name (join_dot ps)"
  using assms by (auto simp: wf_name_def split_join_parts)

subsection \<open>What the loop computes\<close>

text \<open>
  The abstract view: the references a module contributes once it is visited, the complaint it
  contributes, and whether its name counts as found. A stub namespace is a leaf.
\<close>

definition module_refs :: "py_parser \<Rightarrow> string \<Rightarrow> package_files \<Rightarrow> string \<Rightarrow> (string \<times> bool) list" where
  "module_refs parse pkg fs name =
     (if name \<in> STUB_NAMESPACES then []
      else case resolve_module pkg fs name of
        None \<Rightarrow> []
      | Some (path, is_package) \<Rightarrow>
          (case the (map_of fs path) of
             Inl exc \<Rightarrow> []
           | Inr txt \<Rightarrow>
               (case parse txt of
                  Inl exc \<Rightarrow> []
                | Inr tree \<Rightarrow>
                    concat (map (node_refs (if is_package then split_dot name else butlast (split_dot name))) tree))))"

definition module_error :: "py_parser \<Rightarrow> string \<Rightarrow> package_files \<Rightarrow> string \<Rightarrow> string option" where
  "module_error parse pkg fs name =
     (if name \<in> STUB_NAMESPACES then None
      else case resolve_module pkg fs name of
        None \<Rightarrow> None
      | Some (path, is_package) \<Rightarrow>
          (case the (map_of fs path) of
             Inl exc \<Rightarrow> Some (name @ '': unreadable ('' @ exc @ '')'')
           | Inr txt \<Rightarrow>
               (case parse txt of
                  Inl exc \<Rightarrow> Some (name @ '': '' @ exc)
                | Inr tree \<Rightarrow> None)))"

definition found :: "string \<Rightarrow> package_files \<Rightarrow> string \<Rightarrow> bool" where
  "found pkg fs name \<longleftrightarrow> name \<in> STUB_NAMESPACES \<or> resolve_module pkg fs name \<noteq> None"

text \<open>
  The specification: a name is referenced as a module (\<open>True\<close>) or as an attribute that may be one
  (\<open>False\<close>) by the seeds or by a referenced module.
\<close>

inductive referenced :: "py_parser \<Rightarrow> string \<Rightarrow> package_files \<Rightarrow> string list \<Rightarrow> string \<Rightarrow> bool \<Rightarrow> bool"
  for parse pkg fs seeds where
  seed: "n \<in> set seeds \<Longrightarrow> referenced parse pkg fs seeds n True"
| refer: "referenced parse pkg fs seeds n b \<Longrightarrow> (m, b') \<in> set (module_refs parse pkg fs n)
    \<Longrightarrow> referenced parse pkg fs seeds m b'"

lemma closure_step_pop:
  assumes "last (cl_queue st) = (n, b)"
  shows "closure_step parse pkg fs st =
    (let new = n \<notin> cl_seen st in
     st\<lparr>cl_queue := butlast (cl_queue st) @ (if new then module_refs parse pkg fs n else []),
        cl_seen := insert n (cl_seen st),
        cl_required := (if b then insert n (cl_required st) else cl_required st),
        cl_resolvable := (if new \<and> found pkg fs n then insert n (cl_resolvable st) else cl_resolvable st),
        cl_unparseable := (if new then set_option (module_error parse pkg fs n) else {}) \<union> cl_unparseable st\<rparr>)"
  using assms
  by (simp add: closure_step_def module_refs_def module_error_def found_def Let_def insert_absorb
      split: option.splits sum.splits)

text \<open>
  The invariant of the loop: nothing but referenced names is queued or recorded, the references of
  the visited names and the seeds are recorded or still queued, and the two diagnostic sets are
  those of the visited names.
\<close>

definition closure_inv :: "py_parser \<Rightarrow> string \<Rightarrow> package_files \<Rightarrow> string list \<Rightarrow> closure_state \<Rightarrow> bool" where
  "closure_inv parse pkg fs seeds st \<longleftrightarrow>
     (\<forall>(n, b) \<in> set (cl_queue st). referenced parse pkg fs seeds n b) \<and>
     (\<forall>n \<in> cl_seen st. \<exists>b. referenced parse pkg fs seeds n b) \<and>
     (\<forall>n \<in> cl_required st. referenced parse pkg fs seeds n True) \<and>
     (\<forall>m b. m \<in> set seeds \<and> b \<or> (\<exists>n \<in> cl_seen st. (m, b) \<in> set (module_refs parse pkg fs n)) \<longrightarrow>
        (m, b) \<in> set (cl_queue st) \<or> m \<in> cl_seen st \<and> (b \<longrightarrow> m \<in> cl_required st)) \<and>
     cl_resolvable st = {n \<in> cl_seen st. found pkg fs n} \<and>
     cl_unparseable st = (\<Union>n \<in> cl_seen st. set_option (module_error parse pkg fs n)) \<and>
     finite (cl_seen st) \<and> finite (cl_required st)"

lemma closure_inv_init: "closure_inv parse pkg fs seeds (closure_init seeds)"
  by (auto simp: closure_inv_def closure_init_def intro: referenced.seed)

lemma queue_pop: "q \<noteq> [] \<Longrightarrow> last q = x \<Longrightarrow> set q = insert x (set (butlast q))"
  by (metis append_butlast_last_id list.simps(15) rotate1.simps(2) set_rotate1)

lemma closure_inv_step:
  assumes inv: "closure_inv parse pkg fs seeds st" and queue: "cl_queue st \<noteq> []"
  shows "closure_inv parse pkg fs seeds (closure_step parse pkg fs st)"
proof -
  obtain n b where pop: "last (cl_queue st) = (n, b)" by (cases "last (cl_queue st)")
  have q: "set (cl_queue st) = insert (n, b) (set (butlast (cl_queue st)))"
    using queue pop by (rule queue_pop)
  have n: "referenced parse pkg fs seeds n b"
    using inv q by (auto simp: closure_inv_def)
  let ?st = "closure_step parse pkg fs st"
  have queue': "set (cl_queue ?st) =
      set (butlast (cl_queue st)) \<union> (if n \<in> cl_seen st then {} else set (module_refs parse pkg fs n))"
    and seen': "cl_seen ?st = insert n (cl_seen st)"
    and required': "cl_required ?st = (if b then insert n (cl_required st) else cl_required st)"
    and resolvable': "cl_resolvable ?st =
      (if n \<notin> cl_seen st \<and> found pkg fs n then insert n (cl_resolvable st) else cl_resolvable st)"
    and unparseable': "cl_unparseable ?st =
      (if n \<notin> cl_seen st then set_option (module_error parse pkg fs n) else {}) \<union> cl_unparseable st"
    by (simp_all add: closure_step_pop [OF pop] Let_def)
  have due: "(m, c) \<in> set (cl_queue ?st) \<or> m \<in> cl_seen ?st \<and> (c \<longrightarrow> m \<in> cl_required ?st)"
    if "m \<in> set seeds \<and> c \<or> (\<exists>k \<in> cl_seen ?st. (m, c) \<in> set (module_refs parse pkg fs k))" for m c
  proof (cases "n \<notin> cl_seen st \<and> (m, c) \<in> set (module_refs parse pkg fs n)")
    case True then show ?thesis by (simp add: queue')
  next
    case False
    then have "m \<in> set seeds \<and> c \<or> (\<exists>k \<in> cl_seen st. (m, c) \<in> set (module_refs parse pkg fs k))"
      using that by (auto simp: seen')
    then have "(m, c) \<in> set (cl_queue st) \<or> m \<in> cl_seen st \<and> (c \<longrightarrow> m \<in> cl_required st)"
      using inv unfolding closure_inv_def by blast
    then show ?thesis by (auto simp: q queue' seen' required')
  qed
  show ?thesis unfolding closure_inv_def
  proof (intro conjI)
    show "\<forall>(n, b) \<in> set (cl_queue ?st). referenced parse pkg fs seeds n b"
      using inv n by (auto simp: closure_inv_def queue' q intro: referenced.refer)
  qed (use inv n due in \<open>auto simp: closure_inv_def seen' required' resolvable' unparseable' split: if_splits\<close>)
qed

lemma closure_loop_inv: "closure_loop parse pkg fs seeds = Some st \<Longrightarrow> closure_inv parse pkg fs seeds st"
  unfolding closure_loop_def
  by (erule while_option_rule [rotated]) (auto intro: closure_inv_init closure_inv_step)

lemma closure_loop_exact:
  assumes "closure_loop parse pkg fs seeds = Some st"
  shows "cl_seen st = {n. \<exists>b. referenced parse pkg fs seeds n b}"
    and "cl_required st = {n. referenced parse pkg fs seeds n True}"
proof -
  have inv: "closure_inv parse pkg fs seeds st" and stop: "cl_queue st = []"
    using assms closure_loop_inv while_option_stop unfolding closure_loop_def by fastforce+
  have "n \<in> cl_seen st \<and> (b \<longrightarrow> n \<in> cl_required st)" if "referenced parse pkg fs seeds n b" for n b
    using that
  proof induction
    case (seed n) then show ?case using inv stop by (auto simp: closure_inv_def)
  next
    case (refer n b m b')
    then show ?case using inv stop unfolding closure_inv_def by (metis empty_iff list.set(1))
  qed
  with inv show "cl_seen st = {n. \<exists>b. referenced parse pkg fs seeds n b}"
    and "cl_required st = {n. referenced parse pkg fs seeds n True}"
    by (auto simp: closure_inv_def)
qed

subsection \<open>The loop ends\<close>

text \<open>
  A name without empty components is determined by the file it resolves to, up to the package
  prefix, so finitely many names contribute references.
\<close>

lemma with_suffix_py_inverse:
  "base \<noteq> [] \<Longrightarrow> butlast (with_suffix_py base) @ [take (length (last (with_suffix_py base)) - 3) (last (with_suffix_py base))] = base"
  by (simp add: with_suffix_py_def)

definition sources :: "string \<Rightarrow> package_files \<Rightarrow> string set" where
  "sources pkg fs = {n. wf_name n \<and> resolve_module pkg fs n \<noteq> None}"

definition file_bases :: "package_files \<Rightarrow> string list set" where
  "file_bases fs = (\<lambda>p. butlast p @ [take (length (last p) - 3) (last p)]) ` fst ` set fs \<union> butlast ` fst ` set fs"

lemma file_basesI:
  assumes "base \<noteq> []" and "is_file fs (with_suffix_py base) \<or> is_file fs (base @ [''__init__.py''])"
  shows "base \<in> file_bases fs"
proof -
  have in_fs: "p \<in> fst ` set fs" if "is_file fs p" for p
    using that by (simp add: is_file_def) (metis map_of_eq_None_iff option.distinct(1))
  show ?thesis using assms(2)
  proof
    assume "is_file fs (with_suffix_py base)"
    from imageI [OF in_fs [OF this], of "\<lambda>p. butlast p @ [take (length (last p) - 3) (last p)]"]
    show ?thesis by (simp add: file_bases_def with_suffix_py_inverse [OF assms(1)])
  next
    assume "is_file fs (base @ [''__init__.py''])"
    from imageI [OF in_fs [OF this], of butlast] show ?thesis by (simp add: file_bases_def)
  qed
qed

lemma sources_bases:
  assumes "n \<in> sources pkg fs"
  shows "split_dot n \<in> file_bases fs \<union> tl ` file_bases fs"
proof -
  let ?parts = "split_dot n"
  define rel where "rel = (if hd ?parts = pkg then tl ?parts else ?parts)"
  have "set rel \<subseteq> set ?parts" by (auto simp: rel_def list.set_sel(2))
  then have "filter (\<lambda>p. p \<noteq> []) rel = rel"
    using assms by (auto simp: sources_def wf_name_def filter_id_conv)
  then have "is_file fs (with_suffix_py (pkg # rel)) \<or> is_file fs ((pkg # rel) @ [''__init__.py''])"
    using assms by (auto simp: sources_def resolve_module_def Let_def rel_def [symmetric] split: if_splits)
  then have base: "pkg # rel \<in> file_bases fs" by (rule file_basesI [OF list.distinct(2)])
  have "?parts = pkg # rel \<or> ?parts = rel" unfolding rel_def by (cases ?parts) auto
  moreover have "rel \<in> tl ` file_bases fs" using imageI [OF base, of tl] by simp
  ultimately show ?thesis using base by auto
qed

lemma finite_sources: "finite (sources pkg fs)"
proof (rule finite_subset)
  show "sources pkg fs \<subseteq> join_dot ` (file_bases fs \<union> tl ` file_bases fs)"
  proof
    fix n assume "n \<in> sources pkg fs"
    from imageI [OF sources_bases [OF this], of join_dot]
    show "n \<in> join_dot ` (file_bases fs \<union> tl ` file_bases fs)" by simp
  qed
  show "finite (join_dot ` (file_bases fs \<union> tl ` file_bases fs))" by (simp add: file_bases_def)
qed

lemma node_refs_wf:
  assumes "node_ok node" and "(m, b) \<in> set (node_refs pp node)"
    and "\<forall>p \<in> set pp. p \<noteq> [] \<and> CHR ''.'' \<notin> set p"
  shows "wf_name m"
proof (cases node)
  case (ImportFrom level md names)
  have parts: "p \<noteq> [] \<and> CHR ''.'' \<notin> set p" if "wf_name x" "p \<in> set (split_dot x)" for x p
    using that split_dot_parts by (auto simp: wf_name_def)
  let ?base = "take (length pp - (level - 1)) pp @ (if md \<noteq> None \<and> md \<noteq> Some [] then split_dot (the md) else [])"
  have base: "?base \<noteq> [] \<Longrightarrow> wf_name (join_dot ?base)"
    using assms(1,3) ImportFrom parts
    by (intro wf_name_join) (auto dest!: in_set_takeD split: option.splits)
  show ?thesis
    using assms(1,2) ImportFrom base
    by (auto simp: Let_def list_all_iff wf_name_append [simplified] split: if_splits)
qed (use assms in \<open>auto simp: list_all_iff\<close>)

lemma module_refs_cases:
  assumes "(m, b) \<in> set (module_refs parse pkg fs n)"
  obtains src tree node pp where "parse src = Inr tree" and "node \<in> set tree"
    and "(m, b) \<in> set (node_refs pp node)" and "set pp \<subseteq> set (split_dot n)"
proof -
  obtain path is_package where path: "resolve_module pkg fs n = Some (path, is_package)"
    and stub: "n \<notin> STUB_NAMESPACES"
    using assms by (cases "resolve_module pkg fs n") (auto simp: module_refs_def split: if_splits)
  obtain src tree where src: "the (map_of fs path) = Inr src" "parse src = Inr tree"
    using assms path stub
    by (cases "the (map_of fs path)"; cases "parse (projr (the (map_of fs path)))") (auto simp: module_refs_def)
  obtain node where "node \<in> set tree"
    and "(m, b) \<in> set (node_refs (if is_package then split_dot n else butlast (split_dot n)) node)"
    using assms path stub src by (auto simp: module_refs_def)
  then show ?thesis by (intro that [OF src(2)]) (auto dest: in_set_butlastD split: if_splits)
qed

lemma module_refs_wf:
  assumes "parser_ok parse" and n: "wf_name n" and "(m, b) \<in> set (module_refs parse pkg fs n)"
  shows "wf_name m"
  using assms(3)
proof (cases rule: module_refs_cases)
  case (1 src tree node pp)
  then have ok: "node_ok node" using assms(1) by (auto simp: parser_ok_def list_all_iff)
  have "p \<noteq> [] \<and> CHR ''.'' \<notin> set p" if "p \<in> set (split_dot n)" for p
    using that n split_dot_parts by (auto simp: wf_name_def)
  then show ?thesis using 1(4) by (intro node_refs_wf [OF ok 1(3)]) auto
qed

text \<open>
  The measure: the queue, and one more than the references of every name that is still unseen.
\<close>

definition pending :: "py_parser \<Rightarrow> string \<Rightarrow> package_files \<Rightarrow> closure_state \<Rightarrow> nat" where
  "pending parse pkg fs st =
     length (cl_queue st) +
     (\<Sum>n \<in> sources pkg fs - cl_seen st. length (module_refs parse pkg fs n))"

lemma pending_decreases:
  assumes "cl_queue st \<noteq> []" and wf: "\<forall>(n, b) \<in> set (cl_queue st). wf_name n"
  shows "pending parse pkg fs (closure_step parse pkg fs st) < pending parse pkg fs st"
proof -
  obtain n b where pop: "last (cl_queue st) = (n, b)" by (cases "last (cl_queue st)")
  then have n: "wf_name n" using assms by (metis case_prodD last_in_set)
  let ?S = "sources pkg fs - cl_seen st"
  let ?l = "\<lambda>n. length (module_refs parse pkg fs n)"
  have len: "length (butlast (cl_queue st)) < length (cl_queue st)" using assms(1) by simp
  have "sum ?l (?S - {n}) + (if n \<in> cl_seen st then 0 else ?l n) \<le> sum ?l ?S"
  proof (cases "n \<in> ?S")
    case True
    then show ?thesis using sum.remove [OF finite_Diff [OF finite_sources] True, of ?l] by simp
  next
    case False
    then have "n \<in> cl_seen st \<or> module_refs parse pkg fs n = []" using n by (cases "resolve_module pkg fs n") (auto simp: module_refs_def sources_def)
    with False show ?thesis by auto
  qed
  moreover have "sources pkg fs - insert n (cl_seen st) = ?S - {n}" by auto
  then have "pending parse pkg fs (closure_step parse pkg fs st) =
      length (butlast (cl_queue st)) + (if n \<in> cl_seen st then 0 else ?l n) + sum ?l (?S - {n})"
    by (simp add: pending_def closure_step_pop [OF pop] Let_def)
  ultimately show ?thesis using len unfolding pending_def by linarith
qed

lemma closure_loop_returns:
  assumes "parser_ok parse" and "list_all wf_name seeds"
  shows "\<exists>st. closure_loop parse pkg fs seeds = Some st"
  unfolding closure_loop_def
proof (rule measure_while_option_Some [where P = "\<lambda>st. \<forall>(n, b) \<in> set (cl_queue st). wf_name n"
      and f = "pending parse pkg fs"])
  fix st :: closure_state assume wf: "\<forall>(n, b) \<in> set (cl_queue st). wf_name n" and queue: "cl_queue st \<noteq> []"
  obtain n b where pop: "last (cl_queue st) = (n, b)" by (cases "last (cl_queue st)")
  then have n: "wf_name n" using wf queue by (metis case_prodD last_in_set)
  have "\<forall>(n, b) \<in> set (cl_queue (closure_step parse pkg fs st)). wf_name n"
    using wf module_refs_wf [OF assms(1) n]
    by (auto simp: closure_step_pop [OF pop] Let_def dest: in_set_butlastD)
  then show "(\<forall>(n, b) \<in> set (cl_queue (closure_step parse pkg fs st)). wf_name n) \<and>
      pending parse pkg fs (closure_step parse pkg fs st) < pending parse pkg fs st"
    using pending_decreases [OF queue wf] by blast
qed (use assms(2) in \<open>auto simp: closure_init_def list_all_iff\<close>)

subsection \<open>The closure\<close>

lemma import_closure_result:
  assumes "closure_loop parse pkg fs seeds = Some st"
  shows "import_closure parse pkg fs seeds =
    Some \<lparr>cr_modules = cl_seen st,
          cr_unresolved = sorted_list_of_set {n \<in> cl_required st. in_package pkg n \<and> n \<notin> cl_resolvable st},
          cr_unparseable = sorted_list_of_set (cl_unparseable st)\<rparr>"
    and "{n \<in> cl_required st. in_package pkg n \<and> n \<notin> cl_resolvable st} =
      {n. referenced parse pkg fs seeds n True \<and> in_package pkg n \<and> \<not> found pkg fs n}"
    and "cl_unparseable st = {e. \<exists>n b. referenced parse pkg fs seeds n b \<and> module_error parse pkg fs n = Some e}"
    and "finite (cl_required st)" and "finite (cl_unparseable st)"
proof -
  note exact = closure_loop_exact [OF assms]
  have inv: "cl_resolvable st = {n \<in> cl_seen st. found pkg fs n}"
      "cl_unparseable st = (\<Union>n \<in> cl_seen st. set_option (module_error parse pkg fs n))"
      "finite (cl_seen st)" "finite (cl_required st)"
    using closure_loop_inv [OF assms] by (simp_all add: closure_inv_def)
  show "import_closure parse pkg fs seeds =
    Some \<lparr>cr_modules = cl_seen st,
          cr_unresolved = sorted_list_of_set {n \<in> cl_required st. in_package pkg n \<and> n \<notin> cl_resolvable st},
          cr_unparseable = sorted_list_of_set (cl_unparseable st)\<rparr>"
    by (simp add: import_closure_def assms)
  show "{n \<in> cl_required st. in_package pkg n \<and> n \<notin> cl_resolvable st} =
      {n. referenced parse pkg fs seeds n True \<and> in_package pkg n \<and> \<not> found pkg fs n}"
    by (auto simp: inv(1) exact)
  show "cl_unparseable st = {e. \<exists>n b. referenced parse pkg fs seeds n b \<and> module_error parse pkg fs n = Some e}"
    unfolding inv(2) exact by (auto simp: elem_set)
  show "finite (cl_required st)" "finite (cl_unparseable st)"
    by (simp_all add: inv)
qed

lemma import_closure_spec:
  assumes "import_closure parse pkg fs seeds = Some r"
  shows "cr_modules r = {n. \<exists>b. referenced parse pkg fs seeds n b}"
    and "set (cr_unresolved r) = {n. referenced parse pkg fs seeds n True \<and> in_package pkg n \<and> \<not> found pkg fs n}"
    and "set (cr_unparseable r) =
      {e. \<exists>n b. referenced parse pkg fs seeds n b \<and> module_error parse pkg fs n = Some e}"
proof -
  obtain st where st: "closure_loop parse pkg fs seeds = Some st"
    using assms by (auto simp: import_closure_def)
  note res = import_closure_result [OF st]
  have r: "cr_modules r = cl_seen st"
      "cr_unresolved r = sorted_list_of_set {n \<in> cl_required st. in_package pkg n \<and> n \<notin> cl_resolvable st}"
      "cr_unparseable r = sorted_list_of_set (cl_unparseable st)"
    using assms res(1) by auto
  have "finite {n \<in> cl_required st. in_package pkg n \<and> n \<notin> cl_resolvable st}" using res(4) by simp
  then show "set (cr_unresolved r) = {n. referenced parse pkg fs seeds n True \<and> in_package pkg n \<and> \<not> found pkg fs n}"
    by (simp only: r(2) set_sorted_list_of_set res(2))
  show "set (cr_unparseable r) =
      {e. \<exists>n b. referenced parse pkg fs seeds n b \<and> module_error parse pkg fs n = Some e}"
    using set_sorted_list_of_set [OF res(5)] by (simp only: r(3) res(3))
  show "cr_modules r = {n. \<exists>b. referenced parse pkg fs seeds n b}"
    by (simp add: r(1) closure_loop_exact [OF st])
qed

text \<open>(C19) Whatever the package holds, cycles included, the worklist empties, and what it returns is
  exactly the transitive closure of the import statements: the visited names are the referenced
  ones, the unresolved ones are the in-package module references that name no file (whichever
  order they were met in), and every visited module that cannot be read or parsed is reported.
\<close>

theorem import_closure_exact:
  assumes "parser_ok parse" and "list_all wf_name seeds"
  shows "\<exists>r. import_closure parse pkg fs seeds = Some r \<and>
    cr_modules r = {n. \<exists>b. referenced parse pkg fs seeds n b} \<and>
    set (cr_unresolved r) = {n. referenced parse pkg fs seeds n True \<and> in_package pkg n \<and> \<not> found pkg fs n} \<and>
    set (cr_unparseable r) =
      {e. \<exists>n b. referenced parse pkg fs seeds n b \<and> module_error parse pkg fs n = Some e}"
proof -
  obtain st where "closure_loop parse pkg fs seeds = Some st"
    using closure_loop_returns [OF assms] by blast
  from import_closure_result(1) [OF this] obtain r where r: "import_closure parse pkg fs seeds = Some r" by blast
  then show ?thesis using import_closure_spec [OF r] by blast
qed

text \<open>A package of three modules, two of which import each other, and one missing reference.\<close>

definition demo_files :: package_files where
  "demo_files =
     [([''exllamav3'', ''a.py''], Inr ''A''), ([''exllamav3'', ''b'', ''__init__.py''], Inr ''B''),
      ([''exllamav3'', ''b'', ''c.py''], Inr ''C'')]"

definition demo_parse :: py_parser where
  "demo_parse src =
     (if src = ''A'' then Inr [Import [''exllamav3.b'', ''os'']]
      else if src = ''B'' then Inr [ImportFrom 1 None [''c'', ''VALUE'']]
      else if src = ''C'' then Inr [OtherNode, ImportFrom 2 (Some ''a'') [''f''], ImportFrom 1 (Some ''gone'') []]
      else Inl ''bad syntax'')"

lemma demo_parser_ok: "parser_ok demo_parse"
  by (auto simp: parser_ok_def demo_parse_def wf_name_def split: if_splits)

text \<open>A concrete instance.\<close>

theorem import_closure_exact_witness:
  "(\<exists>r. import_closure demo_parse ''exllamav3'' demo_files [''exllamav3.a''] = Some r \<and>
     cr_modules r = {n. \<exists>b. referenced demo_parse ''exllamav3'' demo_files [''exllamav3.a''] n b} \<and>
     ''exllamav3.b.gone'' \<in> set (cr_unresolved r) \<and> ''os'' \<notin> set (cr_unresolved r))"
proof -
  let ?ref = "referenced demo_parse ''exllamav3'' demo_files [''exllamav3.a'']"
  have a: "?ref ''exllamav3.a'' True" by (rule referenced.seed) simp
  have b: "?ref ''exllamav3.b'' True"
    by (rule referenced.refer [OF a]) code_simp
  have c: "?ref ''exllamav3.b.c'' False"
    by (rule referenced.refer [OF b]) code_simp
  have gone: "?ref ''exllamav3.b.gone'' True"
    by (rule referenced.refer [OF c]) code_simp
  have missing: "in_package ''exllamav3'' ''exllamav3.b.gone''"
      "\<not> found ''exllamav3'' demo_files ''exllamav3.b.gone''" "\<not> in_package ''exllamav3'' ''os''"
    by code_simp+
  obtain r where "import_closure demo_parse ''exllamav3'' demo_files [''exllamav3.a''] = Some r"
      "cr_modules r = {n. \<exists>b. ?ref n b}"
      "set (cr_unresolved r) = {n. ?ref n True \<and> in_package ''exllamav3'' n \<and> \<not> found ''exllamav3'' demo_files n}"
    using import_closure_exact [OF demo_parser_ok, of "[''exllamav3.a'']" "''exllamav3''" demo_files]
    by (auto simp: wf_name_def)
  with gone missing show ?thesis by auto
qed

end
