(* ===== verification/Mgemm_Audit.thy ===== *)
theory Mgemm_Audit
  imports Import_Closure
begin

text \<open>
  The audit of the 128-slot scratch of \<open>exl3_mgemm_kernel\<close>
  (\<open>scripts/audit_exl3_mgemm_indices.py\<close>): the regular expressions it scans with, the facts it
  reads from the pinned sources (\<open>kernel_scratch\<close>, \<open>serving_path\<close>, \<open>gemm_guards\<close>, \<open>mgemm_call_sites\<close>,
  \<open>overlay_module_seeds\<close>, \<open>overlay_ext_symbols\<close>, \<open>mgemm_entry_points\<close>), the slot counts and the
  verdict with its exit status. \<open>Abort\<close>, a subclass of \<open>RuntimeError\<close>, is that constructor here and
  its message is left out. \<open>stub_contract\<close> runs the installer it checks; its outcome is an
  argument of \<open>audit\<close>. Sources are ASCII text.
\<close>

subsection \<open>Regular expressions\<close>

definition py_word :: "char \<Rightarrow> bool" where
  "py_word c \<longleftrightarrow> (let n = (of_char c :: nat) in
     48 \<le> n \<and> n \<le> 57 \<or> 65 \<le> n \<and> n \<le> 90 \<or> n = 95 \<or> 97 \<le> n \<and> n \<le> 122)"

definition py_ident_start :: "char \<Rightarrow> bool" where
  "py_ident_start c \<longleftrightarrow> (let n = (of_char c :: nat) in
     65 \<le> n \<and> n \<le> 90 \<or> n = 95 \<or> 97 \<le> n \<and> n \<le> 122)"

text \<open>
  A matcher is given whether the character before the position is a word character (for \<open>\b\<close>) and
  the rest of the text, and returns what follows the match with the captured group. The
  expressions here have one way to match at a position, so no backtracking is needed.
\<close>

type_synonym matcher = "bool \<Rightarrow> string \<Rightarrow> (string \<times> string) option"

definition lit :: "string \<Rightarrow> string \<Rightarrow> string option" where
  "lit p s = (if starts p s then Some (drop (length p) s) else None)"

text \<open>\<open>finditer\<close>: start, end and group of the matches, from left to right without overlap.\<close>

function finditer :: "matcher \<Rightarrow> nat \<Rightarrow> bool \<Rightarrow> string \<Rightarrow> (nat \<times> nat \<times> string) list" where
  "finditer m pos prev [] = []"
| "finditer m pos prev (c # cs) =
     (case m prev (c # cs) of
        None \<Rightarrow> finditer m (Suc pos) (py_word c) cs
      | Some (rest, g) \<Rightarrow>
          (let n = max 1 (length (c # cs) - length rest)
           in (pos, pos + n, g) # finditer m (pos + n) (py_word (last (take n (c # cs)))) (drop n (c # cs))))"
  by pat_completeness auto
termination
  by (relation "measure (\<lambda>(m, pos, prev, s). length s)") auto

definition find_all :: "matcher \<Rightarrow> string \<Rightarrow> (nat \<times> nat \<times> string) list" where
  "find_all m s = finditer m 0 False s"

text \<open>\<open>exl3_mgemm\w*\s*\(\<close>\<close>

definition mgemm_call :: "string \<Rightarrow> (string \<times> string) option" where
  "mgemm_call s =
     (if starts ''exl3_mgemm'' s then
        map_option (\<lambda>rest. (rest, takeWhile py_word s)) (lit ''('' (dropWhile py_ws (dropWhile py_word s)))
      else None)"

definition CALL_RE :: matcher where
  "CALL_RE prev s =
     (if prev then None
      else case Option.bind (lit ''ext.'' s) mgemm_call of
        Some m \<Rightarrow> Some m
      | None \<Rightarrow> mgemm_call s)"

definition WRITE_RE :: matcher where
  "WRITE_RE prev s =
     (if prev then None
      else
        let array = (if starts ''v_indices'' s then ''v_indices'' else ''v_weights'') in
        Option.bind (lit array s) (\<lambda>r.
        Option.bind (lit ''['' (dropWhile py_ws r)) (\<lambda>r.
        Option.bind (lit '']'' (dropWhile (\<lambda>c. c \<noteq> CHR '']'') r)) (\<lambda>r.
        map_option (\<lambda>r. (r, array)) (lit ''='' (dropWhile py_ws r))))))"

definition GLOBAL_RE :: matcher where
  "GLOBAL_RE prev s =
     Option.bind (lit ''__global__'' s) (\<lambda>r.
     Option.bind (lit ''\<newline>'' (dropWhile (\<lambda>c. c \<noteq> CHR ''\<newline>'') r)) (\<lambda>r.
     Option.bind (lit ''void'' (dropWhile py_ws r)) (\<lambda>r.
     if r = [] \<or> \<not> py_ws (hd r) then None
     else
       let r = dropWhile py_ws r; name = takeWhile py_word r in
       if name = [] then None
       else map_option (\<lambda>r. (r, name)) (lit ''('' (dropWhile py_ws (dropWhile py_word r))))))"

definition EXT_SYMBOL_RE :: matcher where
  "EXT_SYMBOL_RE prev s =
     (if prev then None
      else Option.bind (lit ''exllamav3_ext.'' s) (\<lambda>r.
        if r = [] \<or> \<not> py_ident_start (hd r) then None
        else Some (dropWhile py_word r, takeWhile py_word r)))"

definition MGEMM_BIND_RE :: matcher where
  "MGEMM_BIND_RE prev s =
     Option.bind (lit ''m.def('' s) (\<lambda>r.
     Option.bind (lit ''\"'' (dropWhile py_ws r)) (\<lambda>r.
     if starts ''exl3_mgemm'' r
     then map_option (\<lambda>r'. (r', takeWhile py_word r)) (lit ''\"'' (dropWhile py_word r))
     else None))"

text \<open>\<open>text[:pos].count("\n") + 1\<close>\<close>

definition line_of :: "string \<Rightarrow> nat \<Rightarrow> nat" where
  "line_of s pos = length (filter (\<lambda>c. c = CHR ''\<newline>'') (take pos s)) + 1"

subsection \<open>Facts read from the sources\<close>

definition abort_unless :: "bool \<Rightarrow> 'a res \<Rightarrow> 'a res" where
  "abort_unless ok r = (if ok then r else Inl RuntimeError)"

definition MAX_INDICES_DECL :: string where
  "MAX_INDICES_DECL = ''#define MAX_INDICES 128''"

definition V_INDICES_DECL :: string where
  "V_INDICES_DECL = ''__device__ int64_t v_indices[128];''"

definition V_WEIGHTS_DECL :: string where
  "V_WEIGHTS_DECL = ''__device__ half v_weights[128];''"

record scratch_writer =
  sw_array :: string
  sw_line :: nat
  sw_kernel :: "string option"

record scratch_report =
  sc_max_indices :: int
  sc_writers :: "scratch_writer list"
  sc_kernels :: "string list"
  sc_orphans :: "scratch_writer list"

text \<open>The span of a kernel: from the end of its header to the start of the next one.\<close>

fun kernel_bounds :: "nat \<Rightarrow> (nat \<times> nat \<times> string) list \<Rightarrow> (string \<times> nat \<times> nat) list" where
  "kernel_bounds n [] = []"
| "kernel_bounds n [(s, e, name)] = [(name, e, n)]"
| "kernel_bounds n ((s, e, name) # (s', e', name') # ks) = (name, e, s') # kernel_bounds n ((s', e', name') # ks)"

definition write_owner :: "(string \<times> nat \<times> nat) list \<Rightarrow> nat \<Rightarrow> string option" where
  "write_owner bounds pos = map_option fst (find (\<lambda>(name, start, end). start \<le> pos \<and> pos < end) bounds)"

definition kernel_scratch :: "string \<Rightarrow> scratch_report res" where
  "kernel_scratch src =
     abort_unless (py_in MAX_INDICES_DECL src)
     (abort_unless (py_in V_INDICES_DECL src)
     (abort_unless (py_in V_WEIGHTS_DECL src)
     (let spans = find_all GLOBAL_RE src;
          bounds = kernel_bounds (length src) spans;
          writers = map (\<lambda>(pos, _, array). \<lparr>sw_array = array, sw_line = line_of src pos,
                                             sw_kernel = write_owner bounds pos\<rparr>) (find_all WRITE_RE src)
      in abort_unless (spans \<noteq> [])
         (abort_unless (writers \<noteq> [])
           (Inr \<lparr>sc_max_indices = 128, sc_writers = writers, sc_kernels = map fst bounds,
                 sc_orphans = filter (\<lambda>w. sw_kernel w \<noteq> Some ''exl3_mgemm_kernel'') writers\<rparr>)))))"

definition SERVING_CLASS :: string where
  "SERVING_CLASS = ''BC_LinearEXL3::run_gr''"

text \<open>
  The text searched for the calls. \<open>end\<close> is an index into the whole source, and the slice adds
  \<open>start\<close> to it once more.
\<close>

definition serving_body :: "string \<Rightarrow> string" where
  "serving_body src =
     (let start = the (py_find SERVING_CLASS src)
      in case py_find_from ''\<newline>void '' src start of
           None \<Rightarrow> drop start src
         | Some end \<Rightarrow> take (start + end - start) (drop start src))"

definition serving_path :: "string \<Rightarrow> bool res" where
  "serving_path src =
     abort_unless (py_in SERVING_CLASS src)
     (let body = serving_body src in
      abort_unless (py_in ''exl3_gemm_gr('' body)
      (abort_unless (py_in ''exl3_gemm('' body)
        (Inr (py_in ''exl3_mgemm'' body))))"

definition gemm_guards :: "string \<Rightarrow> unit res" where
  "gemm_guards src =
     abort_unless (py_in ''exl3_mgemm_gr'' src)
     (abort_unless (py_in ''min_index < 0'' src)
     (abort_unless (py_in ''per-matrix widths incompatible'' src) (Inr ())))"

definition ends_py :: "string \<Rightarrow> bool" where
  "ends_py name \<longleftrightarrow> suffix ''.py'' name"

text \<open>\<open>path.relative_to(python_dir).with_suffix("")\<close>; a file called \<open>.py\<close> has no suffix.\<close>

definition module_name_of :: "string \<Rightarrow> string list \<Rightarrow> string" where
  "module_name_of pkg path =
     join_dot (pkg # butlast (tl path) @
       [if last path = ''.py'' then last path else take (length (last path) - 3) (last path)])"

definition call_hits :: "string \<Rightarrow> nat list" where
  "call_hits src = map (\<lambda>(pos, _, _). line_of src pos) (find_all CALL_RE src)"

text \<open>\<open>python_dir.rglob("*.py")\<close> lists what lies strictly below the directory.\<close>

definition scanned :: "string \<Rightarrow> string list \<Rightarrow> bool" where
  "scanned pkg path \<longleftrightarrow>
     2 \<le> length path \<and> hd path = pkg \<and> ends_py (last path) \<and> ''__pycache__'' \<notin> set path"

definition mgemm_call_sites :: "string \<Rightarrow> package_files \<Rightarrow> (string \<times> nat list) list" where
  "mgemm_call_sites pkg fs =
     concat (map (\<lambda>(path, contents).
       (case contents of
          Inl exc \<Rightarrow> []
        | Inr src \<Rightarrow> if scanned pkg path \<and> call_hits src \<noteq> [] then [(module_name_of pkg path, call_hits src)] else [])) fs)"

type_synonym overlay_files = "(string \<times> (string + string)) list"

text \<open>\<open>overlay_dir.glob("*.py")\<close>\<close>

definition overlay_sources :: "overlay_files \<Rightarrow> overlay_files" where
  "overlay_sources ovl = filter (\<lambda>(name, _). ends_py name) ovl"

fun node_seeds :: "py_node \<Rightarrow> string list" where
  "node_seeds (Import names) = filter (in_package ''exllamav3'') names"
| "node_seeds (ImportFrom level m names) =
     (if level \<noteq> 0 then []
      else let m = (case m of None \<Rightarrow> [] | Some m \<Rightarrow> m) in if in_package ''exllamav3'' m then [m] else [])"
| "node_seeds OtherNode = []"

definition source_seeds :: "py_parser \<Rightarrow> string + string \<Rightarrow> string list" where
  "source_seeds parse contents =
     (case contents of
        Inl exc \<Rightarrow> []
      | Inr src \<Rightarrow> (case parse src of Inl exc \<Rightarrow> [] | Inr tree \<Rightarrow> concat (map node_seeds tree)))"

definition overlay_module_seeds :: "py_parser \<Rightarrow> overlay_files \<Rightarrow> string list res" where
  "overlay_module_seeds parse ovl =
     abort_unless (overlay_sources ovl \<noteq> [])
       (Inr (sorted_list_of_set (set (concat (map (source_seeds parse \<circ> snd) (overlay_sources ovl))))))"

definition source_symbols :: "string + string \<Rightarrow> string list" where
  "source_symbols contents =
     (case contents of Inl exc \<Rightarrow> [] | Inr src \<Rightarrow> map (snd \<circ> snd) (find_all EXT_SYMBOL_RE src))"

definition overlay_ext_symbols :: "overlay_files \<Rightarrow> string set res" where
  "overlay_ext_symbols ovl =
     (let symbols = concat (map (source_symbols \<circ> snd) (overlay_sources ovl))
      in abort_unless (symbols \<noteq> []) (Inr (set symbols)))"

definition mgemm_entry_points :: "string \<Rightarrow> string set res" where
  "mgemm_entry_points src =
     (let entries = map (snd \<circ> snd) (find_all MGEMM_BIND_RE src)
      in abort_unless (entries \<noteq> []) (Inr (set entries)))"

record slot_counts =
  num_tokens_1_slots_batch_x_topk :: int
  num_tokens_gt_1_slots_bszm :: int

definition worst_case_slots :: "int \<Rightarrow> int \<Rightarrow> int \<Rightarrow> slot_counts" where
  "worst_case_slots top_k max_num_seqs draft_tokens =
     (let decode = max_num_seqs * (draft_tokens + 1)
      in \<lparr>num_tokens_1_slots_batch_x_topk = decode, num_tokens_gt_1_slots_bszm = decode\<rparr>)"

subsection \<open>The verdict\<close>

datatype verdict = NOT_REACHABLE | REACHABLE_OK | REACHABLE_OVERFLOW | ABORT

text \<open>\<open>None\<close> stands for a file or directory that is missing or unreadable.\<close>

record audit_tree =
  at_kernel :: "string option"
  at_gemm :: "string option"
  at_linear :: "string option"
  at_bindings :: "string option"
  at_overlay :: "overlay_files option"
  at_python :: "package_files option"

definition need :: "'a option \<Rightarrow> 'a res" where
  "need x = (case x of None \<Rightarrow> Inl RuntimeError | Some y \<Rightarrow> Inr y)"

record audit_facts =
  af_scratch :: scratch_report
  af_calls_mgemm :: bool
  af_entries :: "string set"
  af_symbols :: "string set"
  af_sites :: "string list"
  af_files :: package_files
  af_seeds :: "string list"

text \<open>What is read before the closure is computed; \<open>stubs\<close> is the outcome of \<open>stub_contract\<close>.\<close>

definition audit_facts_of ::
  "py_parser \<Rightarrow> string \<Rightarrow> string \<Rightarrow> bool \<Rightarrow> audit_tree \<Rightarrow> audit_facts res" where
  "audit_facts_of parse pkg serving_module stubs tree =
     res_bind (need (at_kernel tree)) (\<lambda>kernel_src.
     res_bind (need (at_gemm tree)) (\<lambda>gemm_src.
     res_bind (need (at_linear tree)) (\<lambda>linear_src.
     res_bind (need (at_bindings tree)) (\<lambda>bindings_src.
     res_bind (kernel_scratch kernel_src) (\<lambda>scratch.
     res_bind (serving_path linear_src) (\<lambda>serving.
     res_bind (gemm_guards gemm_src) (\<lambda>_.
     res_bind (mgemm_entry_points bindings_src) (\<lambda>entries.
     res_bind (need (at_overlay tree)) (\<lambda>ovl.
     abort_unless stubs
     (res_bind (overlay_ext_symbols ovl) (\<lambda>symbols.
     res_bind (need (at_python tree)) (\<lambda>fs.
     res_bind (overlay_module_seeds parse ovl) (\<lambda>ovl_seeds.
       Inr \<lparr>af_scratch = scratch, af_calls_mgemm = serving, af_entries = entries, af_symbols = symbols,
            af_sites = map fst (mgemm_call_sites pkg fs), af_files = fs,
            af_seeds = serving_module # ovl_seeds\<rparr>)))))))))))))"

definition closure_usable :: "string list \<Rightarrow> closure_result \<Rightarrow> bool" where
  "closure_usable seeds cl \<longleftrightarrow>
     filter (\<lambda>name. name \<in> set (cr_unresolved cl) \<or>
       list_ex (\<lambda>entry. takeWhile (\<lambda>c. c \<noteq> CHR '':'') entry = name) (cr_unparseable cl)) seeds = [] \<and>
     cr_unparseable cl = [] \<and> cr_unresolved cl = []"

definition audit_verdict :: "string \<Rightarrow> slot_counts \<Rightarrow> audit_facts \<Rightarrow> closure_result \<Rightarrow> verdict" where
  "audit_verdict serving_module shapes facts cl =
     (let closure_hits = filter (\<lambda>name. name \<in> cr_modules cl) (af_sites facts);
          decisive = (af_symbols facts \<inter> af_entries facts)
            \<union> (if serving_module \<in> set (af_sites facts) then {serving_module} else {})
            \<union> (if af_calls_mgemm facts then {SERVING_CLASS @ '' -> exl3_mgemm''} else {});
          unresolved_calls = filter (\<lambda>name. name \<noteq> serving_module) closure_hits
      in if sc_orphans (af_scratch facts) \<noteq> [] then ABORT
         else if decisive \<noteq> {} then
           (if sc_max_indices (af_scratch facts)
                 < max (num_tokens_1_slots_batch_x_topk shapes) (num_tokens_gt_1_slots_bszm shapes)
            then REACHABLE_OVERFLOW else REACHABLE_OK)
         else if unresolved_calls \<noteq> [] then ABORT
         else NOT_REACHABLE)"

definition audit ::
  "py_parser \<Rightarrow> string \<Rightarrow> string \<Rightarrow> slot_counts \<Rightarrow> bool \<Rightarrow> audit_tree \<Rightarrow> verdict res option" where
  "audit parse pkg serving_module shapes stubs tree =
     (case audit_facts_of parse pkg serving_module stubs tree of
        Inl e \<Rightarrow> Some (Inl e)
      | Inr facts \<Rightarrow>
          map_option (\<lambda>cl. abort_unless (closure_usable (af_seeds facts) cl)
                             (Inr (audit_verdict serving_module shapes facts cl)))
            (import_closure parse pkg (af_files facts) (af_seeds facts)))"

definition audit_exit :: "verdict res \<Rightarrow> int" where
  "audit_exit r =
     (case r of
        Inl e \<Rightarrow> 1
      | Inr v \<Rightarrow> if v = ABORT then 1 else if v = REACHABLE_OVERFLOW then 2 else 0)"

subsection \<open>Searches\<close>

lemma abort_unless_Inr [simp]: "abort_unless ok r = Inr x \<longleftrightarrow> ok \<and> r = Inr x"
  by (simp add: abort_unless_def)

lemma need_Inr [simp]: "need x = Inr y \<longleftrightarrow> x = Some y"
  by (simp add: need_def split: option.splits)

text \<open>\<open>finditer\<close> lists nothing exactly when the expression matches at no position.\<close>

definition matches_at :: "matcher \<Rightarrow> string \<Rightarrow> nat \<Rightarrow> bool" where
  "matches_at m s i \<longleftrightarrow> m (i \<noteq> 0 \<and> py_word (s ! (i - 1))) (drop i s) \<noteq> None"

lemma finditer_Nil:
  "finditer m pos prev s = [] \<longleftrightarrow>
     (\<forall>i < length s. m (if i = 0 then prev else py_word (s ! (i - 1))) (drop i s) = None)"
proof (induction s arbitrary: pos prev)
  case (Cons c cs)
  show ?case
  proof (cases "m prev (c # cs)")
    case None
    have shift: "(\<forall>i < length (c # cs). P i) \<longleftrightarrow> P 0 \<and> (\<forall>i < length cs. P (Suc i))" for P
      by (simp add: All_less_Suc2)
    have "(if i = 0 then py_word c else py_word (cs ! (i - 1))) = py_word ((c # cs) ! i)" for i
      by (cases i) simp_all
    then show ?thesis using None Cons.IH [of "Suc pos" "py_word c"] by (simp only: shift) (simp add: None)
  qed (auto simp: Let_def)
qed simp

lemma find_all_Nil: "find_all m s = [] \<longleftrightarrow> (\<forall>i < length s. \<not> matches_at m s i)"
proof -
  have "(if i = 0 then False else b) = (i \<noteq> 0 \<and> b)" for i :: nat and b by simp
  then show ?thesis by (simp add: find_all_def finditer_Nil matches_at_def del: not_None_eq cong: if_cong)
qed

lemma write_ownerD:
  assumes "write_owner bounds pos = Some k"
  shows "\<exists>start stop. (k, start, stop) \<in> set bounds \<and> start \<le> pos \<and> pos < stop"
proof -
  obtain b where "find (\<lambda>(name, start, stop). start \<le> pos \<and> pos < stop) bounds = Some b" and "k = fst b"
    using assms by (auto simp: write_owner_def)
  then show ?thesis by (cases b) (auto simp: find_Some_iff, metis nth_mem)
qed

text \<open>The window of \<open>serving_path\<close> is the function and as many characters after it as precede it.\<close>

lemma serving_body_overruns:
  assumes "py_find SERVING_CLASS src = Some start" and "py_find_from ''\<newline>void '' src start = Some stop"
  shows "serving_body src = take (stop - start) (drop start src) @ take start (drop stop src)"
proof -
  have "start \<le> stop" using assms(2) by (auto simp: py_find_from_def split: if_splits)
  then have "take stop (drop start src) = take (stop - start) (drop start src) @ take start (drop stop src)"
    using take_add [of "stop - start" start "drop start src"] by simp
  then show ?thesis using assms by (simp add: serving_body_def)
qed

subsection \<open>Call sites and names\<close>

text \<open>The key of the call sites of a module file is the name the closure has for it.\<close>

lemma in_package_split:
  assumes "CHR ''.'' \<notin> set pkg" and "in_package pkg n" and "n \<noteq> pkg"
  obtains rel where "split_dot n = pkg # rel" and "rel \<noteq> []"
proof -
  obtain t where "n = pkg @ ''.'' @ t" using assms(2,3) by (auto simp: in_package_def starts_iff)
  then have "split_dot n = pkg # split_dot t"
    by (simp add: split_dot_append [simplified] split_dot_no_dot [OF assms(1)])
  then show thesis by (rule that) simp
qed

lemma module_file_key:
  assumes "CHR ''.'' \<notin> set pkg" and "in_package pkg n" and "n \<noteq> pkg" and "wf_name n"
    and path: "resolve_module pkg fs n = Some (path, False)" and "''__pycache__'' \<notin> set path"
  shows "module_name_of pkg path = n" and "scanned pkg path"
proof -
  obtain rel where rel: "split_dot n = pkg # rel" "rel \<noteq> []"
    using assms(1-3) by (rule in_package_split)
  then have "filter (\<lambda>p. p \<noteq> []) rel = rel" and ne: "last rel \<noteq> []"
    using assms(4) by (auto simp: wf_name_def filter_id_conv) (metis last_in_set)
  then have eq: "path = pkg # butlast rel @ [last rel @ ''.py'']"
    using path rel by (auto simp: resolve_module_def with_suffix_py_def Let_def split: if_splits)
  have "join_dot (pkg # rel) = n" using join_split_dot [of n] by (simp add: rel)
  then show "module_name_of pkg path = n" using ne rel(2) by (simp add: module_name_of_def eq)
  show "scanned pkg path" using assms(6) by (simp add: scanned_def eq ends_py_def suffix_def)
qed

lemma call_site_listed:
  assumes "map_of fs path = Some (Inr src)" and "scanned pkg path" and "find_all CALL_RE src \<noteq> []"
  shows "module_name_of pkg path \<in> set (map fst (mgemm_call_sites pkg fs))"
proof -
  have "(path, Inr src) \<in> set fs" using assms(1) by (rule map_of_SomeD)
  moreover have "call_hits src \<noteq> []" using assms(3) by (simp add: call_hits_def)
  ultimately show ?thesis using assms(2) by (force simp: mgemm_call_sites_def)
qed

text \<open>The key of a package is another name than the closure's: \<open>__init__\<close> is appended.\<close>

lemma package_file_key:
  assumes "CHR ''.'' \<notin> set pkg" and "in_package pkg n" and "wf_name n"
    and path: "resolve_module pkg fs n = Some (path, True)"
  shows "module_name_of pkg path = n @ ''.__init__''"
proof -
  obtain rel where rel: "split_dot n = pkg # rel"
    using assms(1,2) by (metis in_package_split split_dot_no_dot)
  then have "filter (\<lambda>p. p \<noteq> []) rel = rel"
    using assms(3) by (auto simp: wf_name_def filter_id_conv)
  then have eq: "path = pkg # rel @ [''__init__.py'']"
    using path rel by (auto simp: resolve_module_def Let_def split: if_splits)
  have "join_dot (ps @ [x]) = join_dot ps @ ''.'' @ x" if "ps \<noteq> []" for ps x
    using that by (induction ps rule: join_dot.induct) auto
  from this [of "pkg # rel" "''__init__''"] show ?thesis
    using join_split_dot [of n] by (simp add: module_name_of_def eq rel)
qed

subsection \<open>The audit returns\<close>

lemma overlay_seeds_wf:
  assumes "parser_ok parse" and "overlay_module_seeds parse ovl = Inr seeds"
  shows "list_all wf_name seeds"
proof -
  have node: "wf_name n" if "node_ok node" "n \<in> set (node_seeds node)" for node n
    using that by (cases node) (auto simp: list_all_iff in_package_def Let_def split: if_splits option.splits)
  have "wf_name n" if n: "n \<in> set (source_seeds parse contents)" for contents n
  proof -
    obtain src tree where "contents = Inr src" and tree: "parse src = Inr tree"
      using n by (cases contents; cases "parse (projr contents)") (auto simp: source_seeds_def)
    then obtain nd where "nd \<in> set tree" and "n \<in> set (node_seeds nd)"
      using n by (auto simp: source_seeds_def)
    then show ?thesis using assms(1) tree by (auto simp: parser_ok_def list_all_iff intro: node)
  qed
  then show ?thesis using assms(2) by (auto simp: overlay_module_seeds_def list_all_iff)
qed

lemma audit_factsD:
  assumes "audit_facts_of parse pkg sm stubs tree = Inr facts"
  obtains kernel_src linear_src bindings ovl fs ovl_seeds
  where "at_kernel tree = Some kernel_src" and "at_linear tree = Some linear_src"
    and "at_bindings tree = Some bindings" and "at_overlay tree = Some ovl" and "at_python tree = Some fs"
    and "kernel_scratch kernel_src = Inr (af_scratch facts)" and "serving_path linear_src = Inr (af_calls_mgemm facts)"
    and "mgemm_entry_points bindings = Inr (af_entries facts)" and "overlay_ext_symbols ovl = Inr (af_symbols facts)"
    and "af_sites facts = map fst (mgemm_call_sites pkg fs)" and "af_files facts = fs"
    and "overlay_module_seeds parse ovl = Inr ovl_seeds" and "af_seeds facts = sm # ovl_seeds"
  using assms unfolding audit_facts_of_def by (auto simp: res_bind_Inr)

lemma audit_returns:
  assumes "parser_ok parse" and "wf_name sm"
  shows "\<exists>r. audit parse pkg sm shapes stubs tree = Some r"
proof (cases "audit_facts_of parse pkg sm stubs tree")
  case (Inr facts)
  then obtain ovl ovl_seeds where "overlay_module_seeds parse ovl = Inr ovl_seeds" "af_seeds facts = sm # ovl_seeds"
    by (rule audit_factsD)
  with assms overlay_seeds_wf have wf: "list_all wf_name (af_seeds facts)" by auto
  obtain st where "closure_loop parse pkg (af_files facts) (af_seeds facts) = Some st"
    using closure_loop_returns [OF assms(1) wf] by blast
  then show ?thesis by (simp add: audit_def Inr import_closure_def)
qed (simp add: audit_def)

subsection \<open>What a verdict establishes\<close>

lemma not_reachable_facts:
  assumes "audit parse pkg sm shapes stubs tree = Some (Inr NOT_REACHABLE)"
  obtains facts cl where "audit_facts_of parse pkg sm stubs tree = Inr facts"
    and "import_closure parse pkg (af_files facts) (af_seeds facts) = Some cl"
    and "cr_unparseable cl = []" and "cr_unresolved cl = []"
    and "sc_orphans (af_scratch facts) = []" and "af_symbols facts \<inter> af_entries facts = {}"
    and "\<not> af_calls_mgemm facts" and "\<forall>n \<in> cr_modules cl. n \<notin> set (af_sites facts)"
proof -
  obtain facts cl where facts: "audit_facts_of parse pkg sm stubs tree = Inr facts"
    and cl: "import_closure parse pkg (af_files facts) (af_seeds facts) = Some cl"
    and usable: "closure_usable (af_seeds facts) cl"
    and v: "audit_verdict sm shapes facts cl = NOT_REACHABLE"
    using assms by (auto simp: audit_def split: sum.splits)
  have seeds: "sm \<in> set (af_seeds facts)" using facts by (auto elim: audit_factsD)
  have hits: "filter (\<lambda>name. name \<noteq> sm) (filter (\<lambda>name. name \<in> cr_modules cl) (af_sites facts)) = []"
    and sm: "sm \<notin> set (af_sites facts)"
    and rest: "sc_orphans (af_scratch facts) = []" "af_symbols facts \<inter> af_entries facts = {}" "\<not> af_calls_mgemm facts"
    using v by (auto simp: audit_verdict_def Let_def split: if_splits)
  have "n \<notin> set (af_sites facts)" if "n \<in> cr_modules cl" for n
    using hits sm that by (auto simp: filter_empty_conv)
  then show thesis using that facts cl usable rest by (auto simp: closure_usable_def)
qed

lemma scratch_contained:
  assumes "kernel_scratch src = Inr sc" and "sc_orphans sc = []" and "(pos, stop, array) \<in> set (find_all WRITE_RE src)"
  shows "write_owner (kernel_bounds (length src) (find_all GLOBAL_RE src)) pos = Some ''exl3_mgemm_kernel''"
  using assms by (force simp: kernel_scratch_def Let_def filter_empty_conv)

lemma referenced_wf:
  assumes "parser_ok parse" and "list_all wf_name seeds" and "referenced parse pkg fs seeds n b"
  shows "wf_name n"
  using assms(3)
proof induction
  case (seed n) then show ?case using assms(2) by (simp add: list_all_iff)
next
  case (refer n b m b') then show ?case using module_refs_wf [OF assms(1)] by blast
qed

lemma symbols_disjoint:
  assumes "overlay_ext_symbols ovl = Inr symbols" and "mgemm_entry_points bindings = Inr entries"
    and "symbols \<inter> entries = {}" and "(name, Inr src) \<in> set ovl" and "ends_py name"
    and "(s, e, symb) \<in> set (find_all EXT_SYMBOL_RE src)"
  shows "(s', e', symb) \<notin> set (find_all MGEMM_BIND_RE bindings)"
proof -
  have "(name, Inr src) \<in> set (overlay_sources ovl)" using assms(4,5) by (simp add: overlay_sources_def)
  then have "symb \<in> symbols" using assms(1,6)
    by (force simp: overlay_ext_symbols_def source_symbols_def Let_def)
  then show ?thesis using assms(2,3) by (force simp: mgemm_entry_points_def Let_def)
qed

lemma not_reachable_parts:
  assumes "audit parse pkg sm shapes stubs tree = Some (Inr NOT_REACHABLE)"
    and "parser_ok parse" and "wf_name sm" and "CHR ''.'' \<notin> set pkg"
    and "at_python tree = Some fs" and "at_overlay tree = Some ovl" and "at_kernel tree = Some kernel_src"
    and "at_linear tree = Some linear_src" and "at_bindings tree = Some bindings"
    and "overlay_module_seeds parse ovl = Inr ovl_seeds"
  shows "referenced parse pkg fs (sm # ovl_seeds) n True \<and> in_package pkg n \<longrightarrow> found pkg fs n"
    and "referenced parse pkg fs (sm # ovl_seeds) n b \<longrightarrow> module_error parse pkg fs n = None"
    and "referenced parse pkg fs (sm # ovl_seeds) n b \<and> in_package pkg n \<and> n \<noteq> pkg \<and>
      resolve_module pkg fs n = Some (path, False) \<and> ''__pycache__'' \<notin> set path \<and>
      map_of fs path = Some (Inr src) \<and> i < length src \<longrightarrow> \<not> matches_at CALL_RE src i"
    and "(name, Inr ovl_src) \<in> set ovl \<and> ends_py name \<and> (s, e, symb) \<in> set (find_all EXT_SYMBOL_RE ovl_src) \<longrightarrow>
      (s', e', symb) \<notin> set (find_all MGEMM_BIND_RE bindings)"
    and "\<not> py_in ''exl3_mgemm'' (serving_body linear_src)"
    and "(pos, stop, array) \<in> set (find_all WRITE_RE kernel_src) \<longrightarrow>
      (\<exists>from until. (''exl3_mgemm_kernel'', from, until)
         \<in> set (kernel_bounds (length kernel_src) (find_all GLOBAL_RE kernel_src)) \<and> from \<le> pos \<and> pos < until)"
proof -
  from assms(1) obtain facts cl where facts: "audit_facts_of parse pkg sm stubs tree = Inr facts"
    and cl: "import_closure parse pkg (af_files facts) (af_seeds facts) = Some cl"
    and clean: "cr_unparseable cl = []" "cr_unresolved cl = []" "sc_orphans (af_scratch facts) = []"
      "af_symbols facts \<inter> af_entries facts = {}" "\<not> af_calls_mgemm facts"
    and sites: "\<forall>n \<in> cr_modules cl. n \<notin> set (af_sites facts)"
    by (rule not_reachable_facts)
  have f: "af_files facts = fs" "af_seeds facts = sm # ovl_seeds" "kernel_scratch kernel_src = Inr (af_scratch facts)"
      "serving_path linear_src = Inr (af_calls_mgemm facts)" "mgemm_entry_points bindings = Inr (af_entries facts)"
      "overlay_ext_symbols ovl = Inr (af_symbols facts)" "af_sites facts = map fst (mgemm_call_sites pkg fs)"
    using facts assms(5-10) by (auto elim!: audit_factsD)
  note spec = import_closure_spec [OF cl [unfolded f]]
  have wf: "list_all wf_name (sm # ovl_seeds)"
    using assms(3) overlay_seeds_wf [OF assms(2,10)] by simp
  show "referenced parse pkg fs (sm # ovl_seeds) n True \<and> in_package pkg n \<longrightarrow> found pkg fs n"
    using spec(2) clean(2) by auto
  show "referenced parse pkg fs (sm # ovl_seeds) n b \<longrightarrow> module_error parse pkg fs n = None"
    using spec(3) clean(1) by (cases "module_error parse pkg fs n") auto
  show "referenced parse pkg fs (sm # ovl_seeds) n b \<and> in_package pkg n \<and> n \<noteq> pkg \<and>
      resolve_module pkg fs n = Some (path, False) \<and> ''__pycache__'' \<notin> set path \<and>
      map_of fs path = Some (Inr src) \<and> i < length src \<longrightarrow> \<not> matches_at CALL_RE src i"
  proof (intro impI, elim conjE)
    assume n: "referenced parse pkg fs (sm # ovl_seeds) n b" "in_package pkg n" "n \<noteq> pkg"
      "resolve_module pkg fs n = Some (path, False)" "''__pycache__'' \<notin> set path"
      and src: "map_of fs path = Some (Inr src)" and i: "i < length src"
    note key = module_file_key [OF assms(4) n(2,3) referenced_wf [OF assms(2) wf n(1)] n(4,5)]
    have "n \<notin> set (map fst (mgemm_call_sites pkg fs))" using sites n(1) spec(1) by (auto simp: f)
    then have "find_all CALL_RE src = []" using call_site_listed [OF src key(2)] key(1) by auto
    then show "\<not> matches_at CALL_RE src i" using i by (simp add: find_all_Nil)
  qed
  show "(name, Inr ovl_src) \<in> set ovl \<and> ends_py name \<and> (s, e, symb) \<in> set (find_all EXT_SYMBOL_RE ovl_src) \<longrightarrow>
      (s', e', symb) \<notin> set (find_all MGEMM_BIND_RE bindings)"
    using symbols_disjoint [OF f(6,5) clean(4)] by blast
  show "\<not> py_in ''exl3_mgemm'' (serving_body linear_src)"
    using f(4) clean(5) by (auto simp: serving_path_def Let_def)
  show "(pos, stop, array) \<in> set (find_all WRITE_RE kernel_src) \<longrightarrow>
      (\<exists>from until. (''exl3_mgemm_kernel'', from, until)
         \<in> set (kernel_bounds (length kernel_src) (find_all GLOBAL_RE kernel_src)) \<and> from \<le> pos \<and> pos < until)"
    using scratch_contained [OF f(3) clean(3)] write_ownerD by blast
qed

text \<open>(C24) What the verdict \<open>NOT_REACHABLE\<close> has established. Every module reference inside the package
  that the serving module or the overlay reaches names a file, and every module reached was read
  and parsed; no module file reached holds a call of \<open>exl3_mgemm\<close> at any position; no extension
  symbol an overlay source names is a bound \<open>exl3_mgemm\<close> entry; the serving function does not name
  it; and every write of the scratch lies in the span of \<open>exl3_mgemm_kernel\<close>.
\<close>

theorem not_reachable_sound:
  assumes "audit parse pkg sm shapes stubs tree = Some (Inr NOT_REACHABLE)"
    and "parser_ok parse" and "wf_name sm" and "CHR ''.'' \<notin> set pkg"
    and "at_python tree = Some fs" and "at_overlay tree = Some ovl" and "at_kernel tree = Some kernel_src"
    and "at_linear tree = Some linear_src" and "at_bindings tree = Some bindings"
    and "overlay_module_seeds parse ovl = Inr ovl_seeds"
  shows "(\<forall>n. referenced parse pkg fs (sm # ovl_seeds) n True \<and> in_package pkg n \<longrightarrow> found pkg fs n) \<and>
    (\<forall>n b. referenced parse pkg fs (sm # ovl_seeds) n b \<longrightarrow> module_error parse pkg fs n = None) \<and>
    (\<forall>n b path src i. referenced parse pkg fs (sm # ovl_seeds) n b \<and> in_package pkg n \<and> n \<noteq> pkg \<and>
      resolve_module pkg fs n = Some (path, False) \<and> ''__pycache__'' \<notin> set path \<and>
      map_of fs path = Some (Inr src) \<and> i < length src \<longrightarrow> \<not> matches_at CALL_RE src i) \<and>
    (\<forall>name src s e symb s' e'. (name, Inr src) \<in> set ovl \<and> ends_py name \<and>
      (s, e, symb) \<in> set (find_all EXT_SYMBOL_RE src) \<longrightarrow>
      (s', e', symb) \<notin> set (find_all MGEMM_BIND_RE bindings)) \<and>
    \<not> py_in ''exl3_mgemm'' (serving_body linear_src) \<and>
    (\<forall>pos stop array. (pos, stop, array) \<in> set (find_all WRITE_RE kernel_src) \<longrightarrow>
      (\<exists>from until. (''exl3_mgemm_kernel'', from, until)
         \<in> set (kernel_bounds (length kernel_src) (find_all GLOBAL_RE kernel_src)) \<and> from \<le> pos \<and> pos < until))"
  using not_reachable_parts [OF assms] by (intro conjI allI) assumption+

text \<open>
  A tree that the audit accepts: the serving module imports a module of its package, and that one
  the package \<open>b\<close>, whose \<open>__init__\<close> calls \<open>ext.exl3_mgemm\<close>.
\<close>

definition demo_tree :: audit_tree where
  "demo_tree =
     \<lparr>at_kernel = Some (lns
        [MAX_INDICES_DECL, V_INDICES_DECL, V_WEIGHTS_DECL, ''__global__'', ''void exl3_mgemm_kernel(int n)'',
         ''{ v_indices[0] = 0; }'']),
      at_gemm = Some ''exl3_mgemm_gr min_index < 0 per-matrix widths incompatible'',
      at_linear = Some ''void BC_LinearEXL3::run_gr() { exl3_gemm_gr(x); exl3_gemm(x); }'',
      at_bindings = Some ''m.def(\"exl3_mgemm\");'',
      at_overlay = Some [(''exl3.py'', Inr ''exllamav3_ext.exl3_gemm(x)'')],
      at_python = Some
        [([''exllamav3'', ''a.py''], Inr ''A''),
         ([''exllamav3'', ''b'', ''__init__.py''], Inr ''ext.exl3_mgemm(x)'')]\<rparr>"

definition demo_tree_parse :: py_parser where
  "demo_tree_parse src = (if src = ''A'' then Inr [Import [''exllamav3.b'']] else Inr [OtherNode])"

lemma demo_tree_parser_ok: "parser_ok demo_tree_parse"
  by (auto simp: parser_ok_def demo_tree_parse_def wf_name_def)

lemma demo_tree_verdict:
  "audit demo_tree_parse ''exllamav3'' ''exllamav3.a'' (worst_case_slots 8 4 7) True demo_tree
     = Some (Inr NOT_REACHABLE)"
  by code_simp

text \<open>A concrete instance.\<close>

theorem not_reachable_sound_witness:
  "found ''exllamav3'' (the (at_python demo_tree)) ''exllamav3.b'' \<and>
   module_error demo_tree_parse ''exllamav3'' (the (at_python demo_tree)) ''exllamav3.b'' = None \<and>
   \<not> matches_at CALL_RE ''A'' 0 \<and>
   \<not> py_in ''exl3_mgemm'' (serving_body (the (at_linear demo_tree)))"
proof -
  let ?fs = "the (at_python demo_tree)"
  have wf: "wf_name ''exllamav3.a''" and dots: "CHR ''.'' \<notin> set ''exllamav3''"
    and seeds: "overlay_module_seeds demo_tree_parse (the (at_overlay demo_tree)) = Inr []"
    by code_simp+
  have some: "at_python demo_tree = Some ?fs"
      "at_overlay demo_tree = Some (the (at_overlay demo_tree))"
      "at_kernel demo_tree = Some (the (at_kernel demo_tree))"
      "at_linear demo_tree = Some (the (at_linear demo_tree))"
      "at_bindings demo_tree = Some (the (at_bindings demo_tree))"
    by (simp_all add: demo_tree_def)
  note sound = not_reachable_sound [OF demo_tree_verdict demo_tree_parser_ok wf dots some seeds]
  have a: "referenced demo_tree_parse ''exllamav3'' ?fs [''exllamav3.a''] ''exllamav3.a'' True"
    by (rule referenced.seed) simp
  have b: "referenced demo_tree_parse ''exllamav3'' ?fs [''exllamav3.a''] ''exllamav3.b'' True"
    by (rule referenced.refer [OF a]) code_simp
  have names: "in_package ''exllamav3'' ''exllamav3.a''" "in_package ''exllamav3'' ''exllamav3.b''"
      "''exllamav3.a'' \<noteq> ''exllamav3''" "''__pycache__'' \<notin> set [''exllamav3'', ''a.py'']"
      "resolve_module ''exllamav3'' ?fs ''exllamav3.a'' = Some ([''exllamav3'', ''a.py''], False)"
      "map_of ?fs [''exllamav3'', ''a.py''] = Some (Inr ''A'')" "0 < length ''A''"
    by code_simp+
  show ?thesis using sound a b names by blast
qed

text \<open>(C37) The sites of a package are filed under its name with \<open>.__init__\<close> appended, a name the
  closure does not give it. Whatever the \<open>__init__\<close> of a package calls, the verdict is the one the
  audit reaches without that file's call sites, unless the appended name itself is imported or
  serves.
\<close>

theorem package_calls_ignored:
  assumes "CHR ''.'' \<notin> set pkg" and "in_package pkg n" and "wf_name n"
    and "resolve_module pkg fs n = Some (path, True)"
    and "n @ ''.__init__'' \<notin> cr_modules cl" and "n @ ''.__init__'' \<noteq> sm"
  shows "audit_verdict sm shapes (facts\<lparr>af_sites := map fst (mgemm_call_sites pkg ((path, Inr src) # fs))\<rparr>) cl
    = audit_verdict sm shapes (facts\<lparr>af_sites := map fst (mgemm_call_sites pkg fs)\<rparr>) cl"
proof -
  have key: "module_name_of pkg path = n @ ''.__init__''" using assms(1-4) by (rule package_file_key)
  have "map fst (mgemm_call_sites pkg ((path, Inr src) # fs)) =
      (if scanned pkg path \<and> call_hits src \<noteq> [] then [n @ ''.__init__''] else [])
        @ map fst (mgemm_call_sites pkg fs)"
    by (simp add: mgemm_call_sites_def key)
  then show ?thesis using assms(5,6) by (simp add: audit_verdict_def Let_def)
qed

text \<open>
  A concrete instance: the serving module imports the package \<open>b\<close>, the \<open>__init__\<close> of which begins with
  a call, and the verdict is that nothing is reachable.
\<close>

theorem package_calls_ignored_witness:
  "matches_at CALL_RE ''ext.exl3_mgemm(x)'' 0 \<and>
   map_of (the (at_python demo_tree)) [''exllamav3'', ''b'', ''__init__.py''] = Some (Inr ''ext.exl3_mgemm(x)'') \<and>
   ''exllamav3.b'' \<in> cr_modules (the (import_closure demo_tree_parse ''exllamav3''
      (the (at_python demo_tree)) [''exllamav3.a''])) \<and>
   audit demo_tree_parse ''exllamav3'' ''exllamav3.a'' (worst_case_slots 8 4 7) True demo_tree
     = Some (Inr NOT_REACHABLE) \<and>
   (\<forall>facts. audit_verdict ''exllamav3.a'' (worst_case_slots 8 4 7)
       (facts\<lparr>af_sites := map fst (mgemm_call_sites ''exllamav3''
          (([''exllamav3'', ''b'', ''__init__.py''], Inr ''ext.exl3_mgemm(x)'') # the (at_python demo_tree)))\<rparr>)
       \<lparr>cr_modules = {''exllamav3.a'', ''exllamav3.b''}, cr_unresolved = [], cr_unparseable = []\<rparr>
     = audit_verdict ''exllamav3.a'' (worst_case_slots 8 4 7)
       (facts\<lparr>af_sites := map fst (mgemm_call_sites ''exllamav3'' (the (at_python demo_tree)))\<rparr>)
       \<lparr>cr_modules = {''exllamav3.a'', ''exllamav3.b''}, cr_unresolved = [], cr_unparseable = []\<rparr>)"
proof (intro conjI allI)
  fix facts :: audit_facts
  have "CHR ''.'' \<notin> set ''exllamav3''" "in_package ''exllamav3'' ''exllamav3.b''" "wf_name ''exllamav3.b''"
    and "resolve_module ''exllamav3'' (the (at_python demo_tree)) ''exllamav3.b''
      = Some ([''exllamav3'', ''b'', ''__init__.py''], True)"
    by code_simp+
  then show "audit_verdict ''exllamav3.a'' (worst_case_slots 8 4 7)
       (facts\<lparr>af_sites := map fst (mgemm_call_sites ''exllamav3''
          (([''exllamav3'', ''b'', ''__init__.py''], Inr ''ext.exl3_mgemm(x)'') # the (at_python demo_tree)))\<rparr>)
       \<lparr>cr_modules = {''exllamav3.a'', ''exllamav3.b''}, cr_unresolved = [], cr_unparseable = []\<rparr>
     = audit_verdict ''exllamav3.a'' (worst_case_slots 8 4 7)
       (facts\<lparr>af_sites := map fst (mgemm_call_sites ''exllamav3'' (the (at_python demo_tree)))\<rparr>)
       \<lparr>cr_modules = {''exllamav3.a'', ''exllamav3.b''}, cr_unresolved = [], cr_unparseable = []\<rparr>"
    by (rule package_calls_ignored) simp_all
  show "audit demo_tree_parse ''exllamav3'' ''exllamav3.a'' (worst_case_slots 8 4 7) True demo_tree
     = Some (Inr NOT_REACHABLE)"
    by (rule demo_tree_verdict)
qed code_simp+

end
