(* ===== verification/Ab_Verdict.thy ===== *)
theory Ab_Verdict
  imports Glm_Prelude
begin

text \<open>
  The statistics behind the A/B diagnosis of \<open>scripts/diagnose_v149_ab.py\<close>: the binomial tail, the
  sign-test interval for a median, the smallest sample that supports a level, the statistics of a
  lane, the comparison of two arms on the ratio of their medians, and the overall verdict. Floats
  are rationals here; the rounding of a quotient is not modelled. The bands and the variability
  limit are those of \<open>scripts/audit_v149_qualification.py\<close>.
\<close>

subsection \<open>The interval of one arm\<close>

text \<open>\<open>_binomial_cdf\<close>\<close>

definition binomial_cdf :: "int \<Rightarrow> nat \<Rightarrow> rat" where
  "binomial_cdf k n =
     (if k < 0 then 0
      else if int n \<le> k then 1
      else of_nat (sum_list (map (\<lambda>i. n choose i) [0..<nat k + 1])) / 2 ^ n)"

record median_interval =
  ci_low :: "rat option"
  ci_high :: "rat option"
  ci_level :: "rat option"
  ci_order :: "nat option"

text \<open>The loop over the candidates: it keeps the last one inside the tail and stops at the first outside.\<close>

fun tail_index :: "rat \<Rightarrow> nat \<Rightarrow> nat \<Rightarrow> nat list \<Rightarrow> nat" where
  "tail_index alpha n k [] = k"
| "tail_index alpha n k (c # cs) =
     (if binomial_cdf (int c) n \<le> alpha then tail_index alpha n c cs else k)"

definition median_ci :: "rat list \<Rightarrow> rat \<Rightarrow> median_interval" where
  "median_ci values level =
     (let clean = sort values; n = length clean in
      if n = 0 then \<lparr>ci_low = None, ci_high = None, ci_level = None, ci_order = None\<rparr>
      else if n = 1 then \<lparr>ci_low = Some (clean ! 0), ci_high = Some (clean ! 0), ci_level = None, ci_order = None\<rparr>
      else
        let alpha = (1 - level) / 2;
            k = tail_index alpha n 0 [0..<n];
            achieved = 1 - 2 * binomial_cdf (int k) n
        in \<lparr>ci_low = Some (clean ! k), ci_high = Some (clean ! (n - 1 - k)), ci_level = Some achieved,
            ci_order = Some (k + 1)\<rparr>)"

definition MIN_LEVEL :: rat where
  "MIN_LEVEL = 95 / 100"

definition ARM_LEVEL :: rat where
  "ARM_LEVEL = 1 - (1 - MIN_LEVEL) / 2"

definition level_reached :: "rat \<Rightarrow> nat \<Rightarrow> bool" where
  "level_reached level n =
     (case ci_level (median_ci (map of_nat [0..<n]) (1 - (1 - level) / 2)) of
        None \<Rightarrow> False
      | Some l \<Rightarrow> level \<le> 2 * l - 1)"

definition min_runs_for_level :: "rat \<Rightarrow> nat" where
  "min_runs_for_level level =
     (case find (level_reached level) [2..<128] of None \<Rightarrow> 128 | Some n \<Rightarrow> n)"

subsection \<open>A lane\<close>

text \<open>\<open>statistics.median\<close> of a list that is not empty.\<close>

definition py_median :: "rat list \<Rightarrow> rat" where
  "py_median values =
     (let ys = sort values; n = length ys in
      if n mod 2 = 1 then ys ! (n div 2) else (ys ! (n div 2 - 1) + ys ! (n div 2)) / 2)"

definition STALL_FRACTION :: rat where
  "STALL_FRACTION = 1 / 2"

definition VARIABILITY_MAX :: rat where
  "VARIABILITY_MAX = 30 / 100"

record lane_spread =
  sp_min :: rat
  sp_max :: rat
  sp_mad :: rat
  sp_stall_count :: nat
  sp_registered_spread :: rat
  sp_registered_settled :: bool

record lane_statistics =
  ls_valid_runs :: nat
  ls_median :: "rat option"
  ls_ci :: median_interval
  ls_spread :: "lane_spread option"

text \<open>A zero median is falsy: the lane then has none, and its interval is taken at the default level.\<close>

definition lane_stats :: "rat list \<Rightarrow> rat \<Rightarrow> lane_statistics" where
  "lane_stats values level =
     (let clean = sort values; n = length clean in
      if n = 0 then \<lparr>ls_valid_runs = 0, ls_median = None, ls_ci = median_ci [] (95 / 100), ls_spread = None\<rparr>
      else
        let m = py_median clean in
        if m = 0 then
          \<lparr>ls_valid_runs = n, ls_median = None, ls_ci = median_ci clean (95 / 100), ls_spread = None\<rparr>
        else
          \<lparr>ls_valid_runs = n, ls_median = Some m, ls_ci = median_ci clean level,
           ls_spread = Some
             \<lparr>sp_min = hd clean, sp_max = last clean, sp_mad = py_median (map (\<lambda>v. \<bar>v - m\<bar>) clean),
              sp_stall_count = length (filter (\<lambda>v. v < STALL_FRACTION * m) clean),
              sp_registered_spread = (last clean - hd clean) / m,
              sp_registered_settled = ((last clean - hd clean) / m \<le> VARIABILITY_MAX)\<rparr>\<rparr>)"

text \<open>The lane of an arm that was not recorded (\<open>phase_report\<close>).\<close>

definition missing_lane :: lane_statistics where
  "missing_lane =
     \<lparr>ls_valid_runs = 0, ls_median = None,
      ls_ci = \<lparr>ci_low = None, ci_high = None, ci_level = None, ci_order = None\<rparr>, ls_spread = None\<rparr>"

definition BANDS :: "string \<Rightarrow> rat option" where
  "BANDS = map_of
     [(''structured'', 97 / 100), (''essay'', 95 / 100), (''hashmap'', 95 / 100),
      (''prefill60k'', 95 / 100), (''prefill240k'', 95 / 100)]"

subsection \<open>The verdicts\<close>

datatype lane_verdict = Unmeasurable | Inconclusive | Non_Inferior | REGRESSED

record lane_row =
  lr_ratio :: "rat option"
  lr_ci :: "(rat \<times> rat \<times> rat) option"
  lr_verdict :: lane_verdict

text \<open>Division by a zero bound raises; a median that is zero or absent does not get that far.\<close>

definition truthy :: "rat option \<Rightarrow> bool" where
  "truthy x \<longleftrightarrow> x \<noteq> None \<and> x \<noteq> Some 0"

definition compare_lane :: "string \<Rightarrow> lane_statistics \<Rightarrow> lane_statistics \<Rightarrow> lane_row res" where
  "compare_lane lane control candidate =
     (case BANDS lane of
        None \<Rightarrow> Inl KeyError
      | Some band \<Rightarrow>
        if \<not> truthy (ls_median control) \<or> \<not> truthy (ls_median candidate)
        then Inr \<lparr>lr_ratio = None, lr_ci = None, lr_verdict = Unmeasurable\<rparr>
        else
          let ratio = the (ls_median candidate) / the (ls_median control);
              a = ls_ci control; b = ls_ci candidate
          in if None \<in> {ci_level a, ci_level b, ci_low a, ci_high a, ci_low b, ci_high b}
             then Inr \<lparr>lr_ratio = Some ratio, lr_ci = None, lr_verdict = Inconclusive\<rparr>
             else
               let composed = 2 * min (the (ci_level a)) (the (ci_level b)) - 1 in
               if the (ci_high a) = 0 \<or> the (ci_low a) = 0 then Inl ZeroDivisionError
               else
                 let lo = the (ci_low b) / the (ci_high a);
                     hi = the (ci_high b) / the (ci_low a);
                     v = (if composed < MIN_LEVEL then Inconclusive
                          else if band \<le> lo then Non_Inferior
                          else if hi < band then REGRESSED
                          else Inconclusive)
                 in Inr \<lparr>lr_ratio = Some ratio, lr_ci = Some (lo, hi, composed), lr_verdict = v\<rparr>)"

datatype overall = REGRESSION | INCONCLUSIVE | NO_REGRESSION_DETECTED

definition overall_verdict :: "lane_row list \<Rightarrow> overall" where
  "overall_verdict rows =
     (if list_ex (\<lambda>r. lr_verdict r = REGRESSED) rows then REGRESSION
      else if list_ex (\<lambda>r. lr_verdict r = Inconclusive \<or> lr_verdict r = Unmeasurable) rows then INCONCLUSIVE
      else NO_REGRESSION_DETECTED)"

subsection \<open>Binomial tails\<close>

lemma binomial_cdf_less:
  "k < n \<Longrightarrow> binomial_cdf (int k) n = of_nat (\<Sum>i \<le> k. n choose i) / 2 ^ n"
  by (simp add: binomial_cdf_def sum_list_distinct_conv_sum_set atLeast0LessThan lessThan_Suc_atMost del: upt_Suc)

lemma upper_tail: "k \<le> n \<Longrightarrow> (\<Sum>i = n - k..n. n choose i) = (\<Sum>i \<le> k. n choose i)"
  by (rule sum.reindex_bij_witness [where i = "\<lambda>i. n - i" and j = "\<lambda>i. n - i"])
    (auto simp: binomial_symmetric [symmetric])

lemma tail_half:
  assumes "k < n" and "binomial_cdf (int k) n \<le> 1 / 2"
  shows "2 * k < n"
proof (rule ccontr)
  assume "\<not> 2 * k < n"
  then have sub: "{..n - Suc k} \<subset> {..k}" using assms(1) by auto
  have "(\<Sum>i \<le> n - Suc k. n choose i) < (\<Sum>i \<le> k. n choose i)"
    by (rule sum_strict_mono2 [where b = k]) (use sub assms(1) \<open>\<not> 2 * k < n\<close> in auto)
  moreover have "(\<Sum>i \<le> n. n choose i) = (\<Sum>i \<le> k. n choose i) + (\<Sum>i = Suc k..n. n choose i)"
    using assms(1) sum_up_index_split [of "\<lambda>i. n choose i" k "n - k"] by simp
  moreover have "(\<Sum>i = Suc k..n. n choose i) = (\<Sum>i \<le> n - Suc k. n choose i)"
    using upper_tail [of "n - Suc k" n] assms(1) by simp
  ultimately have "2 ^ n < 2 * (\<Sum>i \<le> k. n choose i)" using choose_row_sum [of n] by simp
  then have "(2 :: rat) ^ n < 2 * of_nat (\<Sum>i \<le> k. n choose i)"
    by (metis (no_types, lifting) of_nat_less_iff of_nat_mult of_nat_numeral of_nat_power)
  with assms show False by (simp add: binomial_cdf_less field_simps)
qed

lemma tail_index_cases:
  "tail_index alpha n k cs = k \<or>
     tail_index alpha n k cs \<in> set cs \<and> binomial_cdf (int (tail_index alpha n k cs)) n \<le> alpha"
  by (induction cs arbitrary: k) (auto, metis)

lemma tail_index_central:
  assumes "2 \<le> n" and "alpha \<le> 1 / 2"
  shows "2 * tail_index alpha n 0 [0..<n] < n"
  using tail_index_cases [of alpha n 0 "[0..<n]"] assms tail_half [of "tail_index alpha n 0 [0..<n]" n]
  by auto

subsection \<open>Coverage of the interval\<close>

text \<open>
  The observations of an arm that lie below a point, as positions: the sign pattern of the sign
  test. Under any distribution without an atom at its median the \<open>2 ^ n\<close> patterns are equally
  likely, so coverage is a count.
\<close>

definition signs :: "rat \<Rightarrow> rat list \<Rightarrow> nat set" where
  "signs m xs = {i. i < length xs \<and> xs ! i < m}"

definition covered :: "nat \<Rightarrow> nat \<Rightarrow> nat set set" where
  "covered n k = {S. S \<subseteq> {..<n} \<and> k < card S \<and> card S < n - k}"

lemma count_by_card:
  "card {S. S \<subseteq> {..<n} \<and> P (card S)} = (\<Sum>i | i \<le> n \<and> P i. n choose i)"
proof -
  have "{S. S \<subseteq> {..<n} \<and> P (card S)} = (\<Union>i \<in> {i. i \<le> n \<and> P i}. {S. S \<subseteq> {..<n} \<and> card S = i})"
    using card_mono [of "{..<n}"] by auto
  then have "card {S. S \<subseteq> {..<n} \<and> P (card S)} = (\<Sum>i | i \<le> n \<and> P i. card {S. S \<subseteq> {..<n} \<and> card S = i})"
    by (simp only:) (rule card_UN_disjoint, auto)
  then show ?thesis by (simp add: n_subsets)
qed

lemma covered_count:
  assumes "2 * k < n"
  shows "of_nat (card (covered n k)) / 2 ^ n = 1 - 2 * binomial_cdf (int k) n"
proof -
  have "{i. i \<le> n \<and> k < i \<and> i < n - k} = {Suc k..<n - k}" using assms by auto
  then have "card (covered n k) = (\<Sum>i \<in> {Suc k..<n - k}. n choose i)"
    using count_by_card [of n "\<lambda>c. k < c \<and> c < n - k"] by (simp add: covered_def)
  moreover have "{..n} = {..k} \<union> {Suc k..<n - k} \<union> {n - k..n}" using assms by auto
  then have "(\<Sum>i \<le> n. n choose i) =
      (\<Sum>i \<le> k. n choose i) + (\<Sum>i \<in> {Suc k..<n - k}. n choose i) + (\<Sum>i = n - k..n. n choose i)"
    using assms by (simp only:) (subst sum.union_disjoint, auto)+
  ultimately have "2 ^ n = card (covered n k) + 2 * (\<Sum>i \<le> k. n choose i)"
    using upper_tail [of k n] assms by (simp add: choose_row_sum)
  then have "(2 :: rat) ^ n = of_nat (card (covered n k)) + 2 * of_nat (\<Sum>i \<le> k. n choose i)"
    by (metis (no_types, lifting) of_nat_add of_nat_mult of_nat_numeral of_nat_power)
  then have "of_nat (card (covered n k)) = (2 :: rat) ^ n - 2 * of_nat (\<Sum>i \<le> k. n choose i)" by linarith
  then show ?thesis using assms by (simp add: binomial_cdf_less diff_divide_distrib)
qed

lemma sorted_nth_less:
  "sorted ys \<Longrightarrow> j < length ys \<Longrightarrow> ys ! j < m \<longleftrightarrow> j < length (filter (\<lambda>x. x < m) ys)" for ys :: "rat list"
proof (induction ys arbitrary: j)
  case (Cons y ys)
  show ?case
  proof (cases "y < m")
    case True then show ?thesis using Cons by (cases j) auto
  next
    case False
    then have "\<forall>x \<in> set (y # ys). \<not> x < m" using Cons.prems(1) by auto
    then have "filter (\<lambda>x. x < m) (y # ys) = []" by (simp add: filter_empty_conv)
    moreover have "\<not> (y # ys) ! j < m" using \<open>\<forall>x \<in> set (y # ys). \<not> x < m\<close> Cons.prems(2) nth_mem by blast
    ultimately show ?thesis by simp
  qed
qed simp

lemma card_signs: "card (signs m xs) = length (filter (\<lambda>x. x < m) (sort xs))"
proof -
  have "length (filter (\<lambda>x. x < m) (sort xs)) = length (filter (\<lambda>x. x < m) xs)"
    by (metis filter_sort length_sort)
  then show ?thesis by (simp add: signs_def length_filter_conv_card)
qed

lemma interval_contains:
  assumes "2 * k < length xs" and "m \<notin> set xs"
  shows "sort xs ! k \<le> m \<and> m \<le> sort xs ! (length xs - 1 - k) \<longleftrightarrow> signs m xs \<in> covered (length xs) k"
proof -
  let ?ys = "sort xs"
  have bounds: "k < length ?ys" "length xs - 1 - k < length ?ys" using assms(1) by auto
  have "?ys ! j \<noteq> m" if "j < length ?ys" for j
    using nth_mem [OF that] assms(2) by (metis set_sort)
  then have "?ys ! k \<le> m \<longleftrightarrow> ?ys ! k < m"
    and "m \<le> ?ys ! (length xs - 1 - k) \<longleftrightarrow> \<not> ?ys ! (length xs - 1 - k) < m"
    using bounds by (auto simp: order_le_less)
  moreover have "signs m xs \<subseteq> {..<length xs}" by (auto simp: signs_def)
  ultimately show ?thesis
    using assms(1) sorted_nth_less [OF sorted_sort bounds(1), of m] sorted_nth_less [OF sorted_sort bounds(2), of m]
    by (auto simp: covered_def card_signs)
qed

text \<open>The order statistic and the level depend on the size of the sample alone.\<close>

definition ci_index :: "nat \<Rightarrow> rat \<Rightarrow> nat" where
  "ci_index n level = tail_index ((1 - level) / 2) n 0 [0..<n]"

definition share :: "nat \<Rightarrow> rat \<Rightarrow> rat" where
  "share n level = of_nat (card (covered n (ci_index n level))) / 2 ^ n"

lemma ci_index_central: "2 \<le> n \<Longrightarrow> 0 \<le> level \<Longrightarrow> 2 * ci_index n level < n"
  unfolding ci_index_def by (intro tail_index_central) simp_all

lemma median_ci_parts:
  assumes "2 \<le> length xs" and "0 \<le> level"
  shows "median_ci xs level =
    \<lparr>ci_low = Some (sort xs ! ci_index (length xs) level),
     ci_high = Some (sort xs ! (length xs - 1 - ci_index (length xs) level)),
     ci_level = Some (share (length xs) level), ci_order = Some (ci_index (length xs) level + 1)\<rparr>"
  using assms(1)
  unfolding share_def covered_count [OF ci_index_central [OF assms]] median_ci_def Let_def length_sort
    ci_index_def [symmetric]
  by auto

text \<open>The sign-test interval holds what its comment claims for it. For a sample of at least two,
  the achieved level is exactly the share of the sign patterns for which the interval contains the
  median, whatever the values are: it contains a point that is no observation iff the pattern of
  that point is one of the covered ones, and their number over \<open>2 ^ n\<close> is the level.
\<close>

theorem median_ci_coverage:
  assumes "2 \<le> length xs" and "0 \<le> level"
  shows "\<exists>low high k. median_ci xs level =
      \<lparr>ci_low = Some low, ci_high = Some high, ci_level = Some (of_nat (card (covered (length xs) k)) / 2 ^ length xs),
       ci_order = Some (k + 1)\<rparr> \<and>
    low \<le> high \<and> low \<in> set xs \<and> high \<in> set xs \<and>
    (\<forall>m. m \<notin> set xs \<longrightarrow> (low \<le> m \<and> m \<le> high \<longleftrightarrow> signs m xs \<in> covered (length xs) k))"
proof -
  let ?k = "ci_index (length xs) level"
  have k: "2 * ?k < length xs" using assms by (rule ci_index_central)
  then have idx: "?k < length (sort xs)" "length xs - 1 - ?k < length (sort xs)" by auto
  have "sort xs ! ?k \<le> sort xs ! (length xs - 1 - ?k)"
    using k idx by (intro sorted_nth_mono) auto
  moreover have "sort xs ! ?k \<in> set xs" "sort xs ! (length xs - 1 - ?k) \<in> set xs"
    using nth_mem [OF idx(1)] nth_mem [OF idx(2)] by simp_all
  ultimately show ?thesis
    using interval_contains [OF k] median_ci_parts [OF assms] unfolding share_def by blast
qed

text \<open>A concrete instance: seven runs, the smallest against the largest, with 126 of 128 patterns covered.\<close>

theorem median_ci_coverage_witness:
  "median_ci [30, 26, 31, 29, 33, 28, 32] ARM_LEVEL =
     \<lparr>ci_low = Some 26, ci_high = Some 33, ci_level = Some (126 / 128), ci_order = Some 1\<rparr> \<and>
   (\<exists>low high k. median_ci [30, 26, 31, 29, 33, 28, 32] ARM_LEVEL =
      \<lparr>ci_low = Some low, ci_high = Some high, ci_level = Some (of_nat (card (covered 7 k)) / 2 ^ 7),
       ci_order = Some (k + 1)\<rparr> \<and> low \<le> high)"
proof
  show "median_ci [30, 26, 31, 29, 33, 28, 32] ARM_LEVEL =
     \<lparr>ci_low = Some 26, ci_high = Some 33, ci_level = Some (126 / 128), ci_order = Some 1\<rparr>"
    by code_simp
  have "2 \<le> length [30, 26, 31, 29, 33, 28, 32 :: rat]" "0 \<le> ARM_LEVEL" by code_simp+
  from median_ci_coverage [OF this] obtain low high k where
    "median_ci [30, 26, 31, 29, 33, 28, 32] ARM_LEVEL =
      \<lparr>ci_low = Some low, ci_high = Some high,
       ci_level = Some (of_nat (card (covered (length [30, 26, 31, 29, 33, 28, 32 :: rat]) k))
         / 2 ^ length [30, 26, 31, 29, 33, 28, 32 :: rat]), ci_order = Some (k + 1)\<rparr>" "low \<le> high"
    by blast
  moreover have "length [30, 26, 31, 29, 33, 28, 32 :: rat] = 7" by simp
  ultimately show "\<exists>low high k. median_ci [30, 26, 31, 29, 33, 28, 32] ARM_LEVEL =
      \<lparr>ci_low = Some low, ci_high = Some high, ci_level = Some (of_nat (card (covered 7 k)) / 2 ^ 7),
       ci_order = Some (k + 1)\<rparr> \<and> low \<le> high"
    by metis
qed

subsection \<open>The ratio of the medians\<close>

lemma lane_row_decided:
  assumes "compare_lane lane control candidate = Inr row" and "lr_verdict row \<in> {Non_Inferior, REGRESSED}"
  obtains band la lb alo ahi blo bhi where "BANDS lane = Some band"
    and "ci_level (ls_ci control) = Some la" and "ci_level (ls_ci candidate) = Some lb"
    and "ci_low (ls_ci control) = Some alo" and "ci_high (ls_ci control) = Some ahi"
    and "ci_low (ls_ci candidate) = Some blo" and "ci_high (ls_ci candidate) = Some bhi"
    and "MIN_LEVEL \<le> 2 * min la lb - 1"
    and "lr_verdict row = Non_Inferior \<longleftrightarrow> band \<le> blo / ahi"
    and "lr_verdict row = REGRESSED \<longrightarrow> bhi / alo < band"
proof -
  obtain band where band: "BANDS lane = Some band"
    using assms(1) by (cases "BANDS lane") (auto simp: compare_lane_def)
  let ?a = "ls_ci control" and ?b = "ls_ci candidate"
  have none: "None \<notin> {ci_level ?a, ci_level ?b, ci_low ?a, ci_high ?a, ci_low ?b, ci_high ?b}"
    and level: "\<not> 2 * min (the (ci_level ?a)) (the (ci_level ?b)) - 1 < MIN_LEVEL"
    and verdict: "lr_verdict row = (if band \<le> the (ci_low ?b) / the (ci_high ?a) then Non_Inferior
        else if the (ci_high ?b) / the (ci_low ?a) < band then REGRESSED else Inconclusive)"
    using assms band by (auto simp: compare_lane_def Let_def split: if_splits)
  from none obtain la lb alo ahi blo bhi where "ci_level ?a = Some la" "ci_level ?b = Some lb"
      "ci_low ?a = Some alo" "ci_high ?a = Some ahi" "ci_low ?b = Some blo" "ci_high ?b = Some bhi"
    by (metis insertI1 insertI2 option.exhaust)
  with band level verdict assms(2) show thesis by (intro that) (auto split: if_splits)
qed

text \<open>A decided lane is right whenever both intervals contain the medians they are for.\<close>

lemma decided_is_right:
  assumes "compare_lane lane control candidate = Inr row" and "lr_verdict row \<in> {Non_Inferior, REGRESSED}"
    and "BANDS lane = Some band"
    and "ci_low (ls_ci control) = Some alo" and "ci_high (ls_ci control) = Some ahi"
    and "ci_low (ls_ci candidate) = Some blo" and "ci_high (ls_ci candidate) = Some bhi"
    and "0 < alo" and "0 < blo" and "alo \<le> A" and "A \<le> ahi" and "blo \<le> B" and "B \<le> bhi"
  shows "lr_verdict row = Non_Inferior \<longleftrightarrow> band \<le> B / A"
proof -
  from assms(1,2) have "lr_verdict row = Non_Inferior \<longleftrightarrow> band \<le> blo / ahi"
    and "lr_verdict row = REGRESSED \<longrightarrow> bhi / alo < band"
    by (rule lane_row_decided; use assms(3-7) in auto)+
  moreover have "blo / ahi \<le> B / A" using assms by (intro frac_le) auto
  moreover have "B / A \<le> bhi / alo" using assms by (intro frac_le) auto
  ultimately show ?thesis using assms(2) by auto
qed

lemma sort_idem [simp]: "sort (sort xs) = sort xs" for xs :: "rat list"
  by (simp add: sorted_sort_id)

lemma lane_stats_ci:
  assumes "2 \<le> length xs" and "\<forall>x \<in> set xs. 0 < x"
  shows "ls_ci (lane_stats xs level) = median_ci xs level"
proof -
  let ?ys = "sort xs" and ?h = "length xs div 2"
  have "?h < length ?ys" "?h - 1 < length ?ys" using assms(1) by auto
  then have "?ys ! ?h \<in> set xs" "?ys ! (?h - 1) \<in> set xs"
    by (metis nth_mem set_sort)+
  with assms(2) have "0 < ?ys ! ?h" "0 < ?ys ! (?h - 1)" by auto
  then have "0 < py_median ?ys" by (simp add: py_median_def Let_def sort_idem)
  moreover have "median_ci (sort xs) level = median_ci xs level"
    by (simp add: median_ci_def sort_idem)
  moreover have "sort xs \<noteq> []" using \<open>?h < length ?ys\<close> by (metis list.size(3) not_less_zero)
  ultimately show ?thesis by (simp add: lane_stats_def Let_def)
qed

lemma small_sample_no_level: "length xs < 2 \<Longrightarrow> ci_level (ls_ci (lane_stats xs level)) = None"
  by (cases xs; cases "tl xs") (auto simp: lane_stats_def Let_def median_ci_def)

text \<open>
  How an arm can come out: for every sign pattern around the true median a sample with that
  pattern, of positive values none of which is the median itself.
\<close>

definition arm_samples :: "nat \<Rightarrow> rat \<Rightarrow> (nat set \<Rightarrow> rat list) \<Rightarrow> bool" where
  "arm_samples n m X \<longleftrightarrow>
     (\<forall>S. S \<subseteq> {..<n} \<longrightarrow> length (X S) = n \<and> signs m (X S) = S \<and> m \<notin> set (X S) \<and> (\<forall>x \<in> set (X S). 0 < x))"

definition wrong_verdict :: "string \<Rightarrow> rat \<Rightarrow> rat \<Rightarrow> rat list \<Rightarrow> rat list \<Rightarrow> bool" where
  "wrong_verdict lane A B xs ys =
     (case compare_lane lane (lane_stats xs ARM_LEVEL) (lane_stats ys ARM_LEVEL) of
        Inl e \<Rightarrow> False
      | Inr row \<Rightarrow>
          lr_verdict row = Non_Inferior \<and> B / A < the (BANDS lane) \<or>
          lr_verdict row = REGRESSED \<and> the (BANDS lane) \<le> B / A)"

lemma ARM_LEVEL_nonneg: "0 \<le> ARM_LEVEL"
  by (simp add: ARM_LEVEL_def MIN_LEVEL_def)

lemma wrong_verdict_levels:
  assumes "wrong_verdict lane A B xs ys" and "\<forall>x \<in> set xs. 0 < x" and "\<forall>y \<in> set ys. 0 < y"
  shows "2 \<le> length xs" and "2 \<le> length ys"
    and "MIN_LEVEL \<le> 2 * min (share (length xs) ARM_LEVEL) (share (length ys) ARM_LEVEL) - 1"
proof -
  obtain row where row: "compare_lane lane (lane_stats xs ARM_LEVEL) (lane_stats ys ARM_LEVEL) = Inr row"
      "lr_verdict row \<in> {Non_Inferior, REGRESSED}"
    using assms(1) by (auto simp: wrong_verdict_def split: sum.splits)
  from row obtain la lb where lv: "ci_level (ls_ci (lane_stats xs ARM_LEVEL)) = Some la"
      "ci_level (ls_ci (lane_stats ys ARM_LEVEL)) = Some lb" "MIN_LEVEL \<le> 2 * min la lb - 1"
    by (rule lane_row_decided)
  show len: "2 \<le> length xs" "2 \<le> length ys"
    using lv(1,2) small_sample_no_level [of xs ARM_LEVEL] small_sample_no_level [of ys ARM_LEVEL] by force+
  show "MIN_LEVEL \<le> 2 * min (share (length xs) ARM_LEVEL) (share (length ys) ARM_LEVEL) - 1"
    using lv by (simp add: lane_stats_ci len assms(2,3) median_ci_parts ARM_LEVEL_nonneg)
qed

lemma wrong_verdict_uncovered:
  assumes wrong: "wrong_verdict lane A B xs ys" and pos: "\<forall>x \<in> set xs. 0 < x" "\<forall>y \<in> set ys. 0 < y"
    and "A \<notin> set xs" and "B \<notin> set ys"
  shows "\<not> (signs A xs \<in> covered (length xs) (ci_index (length xs) ARM_LEVEL) \<and>
            signs B ys \<in> covered (length ys) (ci_index (length ys) ARM_LEVEL))"
proof
  assume cov: "signs A xs \<in> covered (length xs) (ci_index (length xs) ARM_LEVEL) \<and>
            signs B ys \<in> covered (length ys) (ci_index (length ys) ARM_LEVEL)"
  note len = wrong_verdict_levels(1,2) [OF wrong pos]
  obtain row where row: "compare_lane lane (lane_stats xs ARM_LEVEL) (lane_stats ys ARM_LEVEL) = Inr row"
      "lr_verdict row \<in> {Non_Inferior, REGRESSED}"
      "lr_verdict row = Non_Inferior \<and> B / A < the (BANDS lane) \<or> lr_verdict row = REGRESSED \<and> the (BANDS lane) \<le> B / A"
    using wrong by (auto simp: wrong_verdict_def split: sum.splits)
  from row(1,2) obtain band where band: "BANDS lane = Some band" by (rule lane_row_decided)
  note ci = lane_stats_ci [OF len(1) pos(1), of ARM_LEVEL] median_ci_parts [OF len(1) ARM_LEVEL_nonneg]
    lane_stats_ci [OF len(2) pos(2), of ARM_LEVEL] median_ci_parts [OF len(2) ARM_LEVEL_nonneg]
  have k: "2 * ci_index (length xs) ARM_LEVEL < length xs" "2 * ci_index (length ys) ARM_LEVEL < length ys"
    using len by (simp_all add: ci_index_central ARM_LEVEL_nonneg)
  have "0 < sort zs ! j" if "\<forall>z \<in> set zs. 0 < z" "j < length zs" for zs :: "rat list" and j
    using that by (metis length_sort nth_mem set_sort)
  then have low: "0 < sort xs ! ci_index (length xs) ARM_LEVEL" "0 < sort ys ! ci_index (length ys) ARM_LEVEL"
    using pos k by simp_all
  have a: "ci_low (ls_ci (lane_stats xs ARM_LEVEL)) = Some (sort xs ! ci_index (length xs) ARM_LEVEL)"
      "ci_high (ls_ci (lane_stats xs ARM_LEVEL)) = Some (sort xs ! (length xs - 1 - ci_index (length xs) ARM_LEVEL))"
    and b: "ci_low (ls_ci (lane_stats ys ARM_LEVEL)) = Some (sort ys ! ci_index (length ys) ARM_LEVEL)"
      "ci_high (ls_ci (lane_stats ys ARM_LEVEL)) = Some (sort ys ! (length ys - 1 - ci_index (length ys) ARM_LEVEL))"
    by (simp_all add: ci)
  have "lr_verdict row = Non_Inferior \<longleftrightarrow> band \<le> B / A"
    using interval_contains [OF k(1) assms(4)] interval_contains [OF k(2) assms(5)] cov
    by (intro decided_is_right [OF row(1,2) band a b low]) simp_all
  with row(3) band show False by auto
qed

lemma share_bounds: "0 \<le> share n level" "share n level \<le> 1"
proof -
  have "card (covered n (ci_index n level)) \<le> card (Pow {..<n})"
    by (rule card_mono) (auto simp: covered_def)
  then have "card (covered n (ci_index n level)) \<le> 2 ^ n" by (simp add: card_Pow)
  then have "(of_nat (card (covered n (ci_index n level))) :: rat) \<le> 2 ^ n"
    by (metis of_nat_le_iff of_nat_numeral of_nat_power)
  then show "0 \<le> share n level" "share n level \<le> 1" by (simp_all add: share_def)
qed

lemma union_bound: "2 * min p q - 1 \<le> p * q" if "p \<le> 1" "q \<le> 1" for p q :: rat
proof -
  have "0 \<le> (1 - p) * (1 - q)" using that by simp
  then have "p + q - 1 \<le> p * q" by (simp add: algebra_simps)
  then show ?thesis by linarith
qed

text \<open>(C13) The error of a decided lane. Take any two arms, the true medians \<open>A\<close> and \<open>B\<close>, and any way of
  drawing positive samples of sizes \<open>n\<close> and \<open>m\<close> for each sign pattern around them. Of the
  \<open>2 ^ (n + m)\<close> equally likely pairs of patterns, at most one in twenty has a verdict that is
  wrong about the ratio of the medians: a lane called non-inferior although the ratio is below its
  band, or called regressed although it is not.
\<close>

theorem wrong_verdicts_rare:
  assumes X: "arm_samples n A X" and Y: "arm_samples m B Y"
  shows "of_nat (card {(S, T). S \<subseteq> {..<n} \<and> T \<subseteq> {..<m} \<and> wrong_verdict lane A B (X S) (Y T)})
    \<le> (1 - MIN_LEVEL) * 2 ^ (n + m)"
proof -
  let ?W = "{(S, T). S \<subseteq> {..<n} \<and> T \<subseteq> {..<m} \<and> wrong_verdict lane A B (X S) (Y T)}"
  let ?C = "covered n (ci_index n ARM_LEVEL)" and ?D = "covered m (ci_index m ARM_LEVEL)"
  show ?thesis
  proof (cases "?W = {}")
    case True show ?thesis unfolding True by (simp add: MIN_LEVEL_def)
  next
    case False
    then obtain S T where "S \<subseteq> {..<n}" "T \<subseteq> {..<m}" "wrong_verdict lane A B (X S) (Y T)" by auto
    then have level: "MIN_LEVEL \<le> 2 * min (share n ARM_LEVEL) (share m ARM_LEVEL) - 1"
      using wrong_verdict_levels(3) [of lane A B "X S" "Y T"] X Y by (simp add: arm_samples_def)
    have fin: "finite (Pow {..<n} \<times> Pow {..<m})" by simp
    have sub: "?C \<times> ?D \<subseteq> Pow {..<n} \<times> Pow {..<m}" by (auto simp: covered_def)
    have "?W \<subseteq> Pow {..<n} \<times> Pow {..<m} - ?C \<times> ?D"
    proof clarify
      fix S T assume ST: "S \<subseteq> {..<n}" "T \<subseteq> {..<m}" and wrong: "wrong_verdict lane A B (X S) (Y T)"
      have "length (X S) = n" "signs A (X S) = S" "A \<notin> set (X S)" "\<forall>x \<in> set (X S). 0 < x"
        and "length (Y T) = m" "signs B (Y T) = T" "B \<notin> set (Y T)" "\<forall>x \<in> set (Y T). 0 < x"
        using X Y ST by (simp_all add: arm_samples_def)
      with wrong_verdict_uncovered [OF wrong] ST
      show "(S, T) \<in> Pow {..<n} \<times> Pow {..<m} - ?C \<times> ?D" by simp
    qed
    then have "card ?W \<le> card (Pow {..<n} \<times> Pow {..<m} - ?C \<times> ?D)" using fin by (intro card_mono) auto
    also have "\<dots> = 2 ^ n * 2 ^ m - card ?C * card ?D"
      using finite_subset [OF sub fin] sub by (simp add: card_Diff_subset card_cartesian_product card_Pow)
    finally have "card ?W + card ?C * card ?D \<le> 2 ^ n * 2 ^ m"
      using card_mono [OF fin sub] by (simp add: card_cartesian_product card_Pow)
    then have "of_nat (card ?W + card ?C * card ?D) \<le> (of_nat (2 ^ n * 2 ^ m) :: rat)" by (simp only: of_nat_le_iff)
    moreover have "of_nat (card ?C) = share n ARM_LEVEL * 2 ^ n" "of_nat (card ?D) = share m ARM_LEVEL * 2 ^ m"
      by (simp_all add: share_def)
    ultimately have "of_nat (card ?W) \<le> (1 - share n ARM_LEVEL * share m ARM_LEVEL) * 2 ^ (n + m)"
      by (simp add: algebra_simps power_add)
    also have "\<dots> \<le> (1 - MIN_LEVEL) * 2 ^ (n + m)"
      using level union_bound [OF share_bounds(2) [of n ARM_LEVEL] share_bounds(2) [of m ARM_LEVEL]] by (intro mult_right_mono) auto
    finally show ?thesis .
  qed
qed

text \<open>Samples a hundredth away from a median of 100, by sign.\<close>

definition demo_arm :: "nat \<Rightarrow> nat set \<Rightarrow> rat list" where
  "demo_arm n S = map (\<lambda>i. if i \<in> S then 99 else 101) [0..<n]"

lemma demo_arm_samples: "arm_samples n 100 (demo_arm n)"
  by (auto simp: arm_samples_def demo_arm_def signs_def split: if_splits)

text \<open>A concrete instance, at the smallest sample size that can decide, with a pattern that does decide.\<close>

theorem wrong_verdicts_rare_witness:
  "of_nat (card {(S, T). S \<subseteq> {..<7} \<and> T \<subseteq> {..<7} \<and>
      wrong_verdict ''structured'' 100 100 (demo_arm 7 S) (demo_arm 7 T)}) \<le> (1 - MIN_LEVEL) * 2 ^ (7 + 7) \<and>
   map_option lr_verdict (case compare_lane ''structured'' (lane_stats (demo_arm 7 {0, 1, 2}) ARM_LEVEL)
      (lane_stats (demo_arm 7 {0, 1, 2}) ARM_LEVEL) of Inl e \<Rightarrow> None | Inr row \<Rightarrow> Some row) = Some Non_Inferior"
proof
  show "of_nat (card {(S, T). S \<subseteq> {..<7} \<and> T \<subseteq> {..<7} \<and>
      wrong_verdict ''structured'' 100 100 (demo_arm 7 S) (demo_arm 7 T)}) \<le> (1 - MIN_LEVEL) * 2 ^ (7 + 7)"
    by (rule wrong_verdicts_rare [OF demo_arm_samples demo_arm_samples])
  show "map_option lr_verdict (case compare_lane ''structured'' (lane_stats (demo_arm 7 {0, 1, 2}) ARM_LEVEL)
      (lane_stats (demo_arm 7 {0, 1, 2}) ARM_LEVEL) of Inl e \<Rightarrow> None | Inr row \<Rightarrow> Some row) = Some Non_Inferior"
    by code_simp
qed

subsection \<open>The smallest sample\<close>

lemma min_runs_is_seven: "min_runs_for_level MIN_LEVEL = 7"
  by code_simp

text \<open>What \<open>min_runs_for_level\<close> announces is what the comparison enforces: fewer runs decide nothing.\<close>

lemma decided_needs_min_runs:
  assumes "compare_lane lane (lane_stats xs ARM_LEVEL) (lane_stats ys ARM_LEVEL) = Inr row"
    and "lr_verdict row \<in> {Non_Inferior, REGRESSED}" and "\<forall>x \<in> set xs. 0 < x" and "\<forall>y \<in> set ys. 0 < y"
  shows "min_runs_for_level MIN_LEVEL \<le> length xs \<and> min_runs_for_level MIN_LEVEL \<le> length ys"
proof -
  from assms(1,2) obtain la lb where lv: "ci_level (ls_ci (lane_stats xs ARM_LEVEL)) = Some la"
      "ci_level (ls_ci (lane_stats ys ARM_LEVEL)) = Some lb" "MIN_LEVEL \<le> 2 * min la lb - 1"
    by (rule lane_row_decided)
  have small: "share n ARM_LEVEL = 1 - 2 * binomial_cdf (int (ci_index n ARM_LEVEL)) n" if "2 \<le> n" for n
    using that by (simp add: share_def covered_count ci_index_central ARM_LEVEL_nonneg)
  have few: "list_all (\<lambda>n. 2 * (1 - 2 * binomial_cdf (int (ci_index n ARM_LEVEL)) n) - 1 < MIN_LEVEL) [2..<7]"
    by code_simp
  have "7 \<le> length zs" if "ci_level (ls_ci (lane_stats zs ARM_LEVEL)) = Some l" "MIN_LEVEL \<le> 2 * l - 1"
    "\<forall>z \<in> set zs. 0 < z" for zs l
  proof (rule ccontr)
    assume short: "\<not> 7 \<le> length zs"
    have len: "2 \<le> length zs" using that(1) small_sample_no_level [of zs ARM_LEVEL] by force
    then have "l = share (length zs) ARM_LEVEL"
      using that by (simp add: lane_stats_ci median_ci_parts ARM_LEVEL_nonneg)
    moreover have "length zs \<in> set [2..<7]" using len short by auto
    with few have "2 * (1 - 2 * binomial_cdf (int (ci_index (length zs) ARM_LEVEL)) (length zs)) - 1 < MIN_LEVEL"
      unfolding list_all_iff by blast
    ultimately show False using small [OF len] that(2) by simp
  qed
  then show ?thesis using lv assms(3,4) by (force simp: min_runs_is_seven)
qed

text \<open>The overall verdict is clean exactly when every lane is non-inferior.\<close>

lemma overall_clean_iff:
  "overall_verdict rows = NO_REGRESSION_DETECTED \<longleftrightarrow> (\<forall>r \<in> set rows. lr_verdict r = Non_Inferior)"
proof -
  have "lr_verdict r = Non_Inferior \<longleftrightarrow>
      lr_verdict r \<noteq> REGRESSED \<and> lr_verdict r \<noteq> Inconclusive \<and> lr_verdict r \<noteq> Unmeasurable" for r
    by (cases "lr_verdict r") auto
  then show ?thesis by (auto simp: overall_verdict_def list_ex_iff)
qed

end
