(* ===== verification/Occupancy_Gate.thy ===== *)
theory Occupancy_Gate
  imports Py_Text
begin

text \<open>
  The gate on an occupancy capture (\<open>scripts/audit_e3_occupancy.py\<close>): the reading of a metric
  value, the rows of the capture folded into launch records (\<open>parse_csv\<close> after the \<open>csv\<close> module has
  split a row into its cells), the check of a launch and the decision (\<open>judge\<close>). Floats are
  rationals, a capture is a list of launches in the order they are first seen, and of a report the
  decision and the verdict of each kernel are kept; the wording of the reasons is left out.
\<close>

subsection \<open>Names\<close>

definition KERNELS :: "string list" where
  "KERNELS = [''fm_gateup_kernel'', ''fm_down_kernel'']"

text \<open>The canonical metrics with their labels and raw names.\<close>

definition METRICS :: "(string \<times> string list) list" where
  "METRICS =
     [(''registers_per_thread'', [''Registers Per Thread'', ''launch__registers_per_thread'']),
      (''block_size'', [''Block Size'', ''launch__block_size'']),
      (''grid_size'', [''Grid Size'', ''launch__grid_size'']),
      (''smem_static'', [''Static Shared Memory Per Block'', ''launch__shared_mem_per_block_static'']),
      (''smem_dynamic'', [''Dynamic Shared Memory Per Block'', ''launch__shared_mem_per_block_dynamic'']),
      (''block_limit_registers'', [''Block Limit Registers'', ''launch__occupancy_limit_registers'']),
      (''block_limit_shared_mem'', [''Block Limit Shared Mem'', ''launch__occupancy_limit_shared_mem'']),
      (''block_limit_warps'', [''Block Limit Warps'', ''launch__occupancy_limit_warps'']),
      (''block_limit_sm'', [''Block Limit SM'', ''launch__occupancy_limit_blocks'']),
      (''theoretical_occupancy_pct'', [''Theoretical Occupancy'', ''sm__maximum_warps_per_active_cycle_pct'']),
      (''achieved_occupancy_pct'', [''Achieved Occupancy'', ''sm__warps_active.avg.pct_of_peak_sustained_active'']),
      (''waves_per_sm'', [''Waves Per SM'', ''launch__waves_per_multiprocessor''])]"

definition REQUIRED :: "string list" where
  "REQUIRED =
     [''registers_per_thread'', ''block_size'', ''grid_size'', ''block_limit_registers'',
      ''block_limit_shared_mem'', ''block_limit_warps'', ''theoretical_occupancy_pct'',
      ''achieved_occupancy_pct'', ''waves_per_sm'']"

text \<open>The table of \<open>_lookup\<close>: every spelling, stripped and lower-cased, to its metric.\<close>

definition metric_lookup :: "string \<Rightarrow> string option" where
  "metric_lookup label =
     map_of (concat (map (\<lambda>(metric, spellings). map (\<lambda>s. (py_lower (py_strip s), metric)) spellings) METRICS)) label"

subsection \<open>Values\<close>

definition is_digit :: "char \<Rightarrow> bool" where
  "is_digit c \<longleftrightarrow> digit_val c \<noteq> None"

definition digits_val :: "string \<Rightarrow> int" where
  "digits_val = foldl (\<lambda>v c. 10 * v + the (digit_val c)) 0"

definition unit_start :: "char \<Rightarrow> bool" where
  "unit_start c \<longleftrightarrow> (let n = (of_char c :: nat) in 65 \<le> n \<and> n \<le> 90 \<or> 97 \<le> n \<and> n \<le> 122 \<or> c = CHR ''%'')"

text \<open>The rest of the value: blanks, an optional unit, blanks, and the end.\<close>

definition unit_tail :: "string \<Rightarrow> bool" where
  "unit_tail s =
     (let r = dropWhile py_ws s
      in r = [] \<or>
         unit_start (hd r) \<and> dropWhile py_ws (dropWhile (\<lambda>c. unit_start c \<or> c = CHR ''/'') r) = [])"

text \<open>\<open>_number\<close>: the whole value is a decimal number with an optional unit.\<close>

definition number :: "string \<Rightarrow> rat option" where
  "number s =
     (let r = dropWhile py_ws s;
          neg = (r \<noteq> [] \<and> hd r = CHR ''-'');
          r = (if r \<noteq> [] \<and> (hd r = CHR ''-'' \<or> hd r = CHR ''+'') then tl r else r);
          whole = takeWhile is_digit r;
          r = dropWhile is_digit r;
          frac = (if r \<noteq> [] \<and> hd r = CHR ''.'' then takeWhile is_digit (tl r) else []);
          r = (if frac \<noteq> [] then drop (Suc (length frac)) r else r);
          v = of_int (digits_val whole) + of_int (digits_val frac) / 10 ^ length frac
      in if whole = [] \<or> \<not> unit_tail r then None
         else Some (if neg then - v else v))"

subsection \<open>Rows\<close>

text \<open>The cells of a row that are read; a missing cell is empty.\<close>

record capture_row =
  row_kernel :: string
  row_launch :: string
  row_metric :: string
  row_value :: string

type_synonym launch_metrics = "string \<Rightarrow> rat option option"
type_synonym capture = "((string \<times> string) \<times> launch_metrics) list"

text \<open>\<open>out.setdefault(short, {}).setdefault(launch, {})\<close> and an update of that record.\<close>

fun update_launch :: "string \<times> string \<Rightarrow> (launch_metrics \<Rightarrow> launch_metrics) \<Rightarrow> capture \<Rightarrow> capture" where
  "update_launch key f [] = [(key, f (\<lambda>_. None))]"
| "update_launch key f ((k, m) # cap) = (if k = key then (k, f m) # cap else (k, m) # update_launch key f cap)"

definition record_metric :: "string \<Rightarrow> string \<Rightarrow> launch_metrics \<Rightarrow> launch_metrics" where
  "record_metric canonical cell m =
     (case m canonical of
        Some (Some v) \<Rightarrow> m
      | _ \<Rightarrow> m(canonical \<mapsto> number cell))"

definition parse_row :: "capture_row \<Rightarrow> capture \<Rightarrow> capture res" where
  "parse_row row cap =
     (let kern = py_strip (row_kernel row);
          launch = py_strip (row_launch row);
          canonical = metric_lookup (py_lower (py_strip (row_metric row)))
      in if kern = [] then (if launch \<noteq> [] \<and> canonical \<noteq> None then Inl ValueError else Inr cap)
         else case find (\<lambda>name. py_in name kern) KERNELS of
           None \<Rightarrow> Inr cap
         | Some short \<Rightarrow>
             if launch = [] then Inl ValueError
             else case canonical of
               None \<Rightarrow> Inr (update_launch (short, launch) id cap)
             | Some metric \<Rightarrow> Inr (update_launch (short, launch) (record_metric metric (row_value row)) cap))"

fun parse_rows :: "capture_row list \<Rightarrow> capture \<Rightarrow> capture res" where
  "parse_rows [] cap = Inr cap"
| "parse_rows (row # rows) cap = res_bind (parse_row row cap) (parse_rows rows)"

subsection \<open>The decision\<close>

definition metric_keys :: "launch_metrics \<Rightarrow> string list" where
  "metric_keys m = filter (\<lambda>k. m k \<noteq> None) (map fst METRICS)"

definition metric :: "launch_metrics \<Rightarrow> string \<Rightarrow> rat" where
  "metric m key = the (the (m key))"

text \<open>\<open>_launch_problem\<close> finds nothing.\<close>

definition launch_usable :: "launch_metrics \<Rightarrow> bool" where
  "launch_usable m =
     (list_all (\<lambda>k. m k \<noteq> None) REQUIRED \<and>
      list_all (\<lambda>k. m k \<noteq> Some None) (metric_keys m) \<and>
      (let regs = metric m ''registers_per_thread''; block = metric m ''block_size'';
           grid = metric m ''grid_size''; theoretical = metric m ''theoretical_occupancy_pct'';
           achieved = metric m ''achieved_occupancy_pct''
       in 0 < regs \<and> 0 < block \<and> 0 < grid \<and> 0 < theoretical \<and> theoretical \<le> 100 \<and>
          0 < achieved \<and> achieved \<le> 100 \<and> achieved \<le> theoretical + 5 / 100 \<and>
          list_all (\<lambda>k. 0 \<le> metric m k)
            [''block_limit_registers'', ''block_limit_shared_mem'', ''block_limit_warps'', ''waves_per_sm'']))"

definition launches_of :: "capture \<Rightarrow> string \<Rightarrow> launch_metrics list" where
  "launches_of cap name = map snd (filter (\<lambda>((k, l), m). k = name) cap)"

datatype gate = STOP_REGISTER_HEADROOM | STOP_NO_GAP | OPEN_GAP | GATE_ABORT

text \<open>The loop over the kernels before any verdict is given.\<close>

definition capture_ok :: "int option \<Rightarrow> capture \<Rightarrow> bool" where
  "capture_ok expected cap =
     (list_all (\<lambda>name. launches_of cap name \<noteq> []) KERNELS \<and>
      (case expected of None \<Rightarrow> True | Some n \<Rightarrow> int (length cap) = n) \<and>
      list_all (\<lambda>name. let ls = launches_of cap name in
        list_all (\<lambda>m. metric_keys m = metric_keys (hd ls)) ls \<and> list_all launch_usable ls) KERNELS)"

definition lowest :: "string \<Rightarrow> launch_metrics list \<Rightarrow> rat" where
  "lowest key ls = Min (set (map (\<lambda>m. metric m key) ls))"

definition kernel_verdict :: "rat \<Rightarrow> rat \<Rightarrow> launch_metrics list \<Rightarrow> gate" where
  "kernel_verdict regs_stop achieved_ratio ls =
     (let regs = lowest ''registers_per_thread'' ls;
          theoretical = lowest ''theoretical_occupancy_pct'' ls;
          achieved = lowest ''achieved_occupancy_pct'' ls;
          ratio = achieved / theoretical
      in if regs_stop < regs then STOP_REGISTER_HEADROOM
         else if achieved_ratio \<le> ratio then STOP_NO_GAP
         else OPEN_GAP)"

definition judge :: "rat \<Rightarrow> rat \<Rightarrow> int option \<Rightarrow> capture \<Rightarrow> gate \<times> (string \<times> gate) list" where
  "judge regs_stop achieved_ratio expected cap =
     (if \<not> capture_ok expected cap then (GATE_ABORT, [])
      else
        let kernels = map (\<lambda>name. (name, kernel_verdict regs_stop achieved_ratio (launches_of cap name))) KERNELS;
            verdicts = map snd kernels
        in (if list_ex (\<lambda>v. v = OPEN_GAP) verdicts then OPEN_GAP
            else if list_all (\<lambda>v. v = STOP_REGISTER_HEADROOM) verdicts then STOP_REGISTER_HEADROOM
            else STOP_NO_GAP, kernels))"

text \<open>\<open>main\<close> after the cells have been split: a \<open>ValueError\<close> of the rows is an abort.\<close>

definition gate_main :: "rat \<Rightarrow> rat \<Rightarrow> int option \<Rightarrow> capture_row list \<Rightarrow> gate \<times> int" where
  "gate_main regs_stop achieved_ratio expected rows =
     (let decision = (case parse_rows rows [] of
            Inl e \<Rightarrow> GATE_ABORT
          | Inr cap \<Rightarrow> fst (judge regs_stop achieved_ratio expected cap))
      in (decision, if decision \<noteq> GATE_ABORT then 0 else 1))"

subsection \<open>What a record holds\<close>

text \<open>The table computed once, for evaluation.\<close>

lemma metric_lookup_table [code]:
  "metric_lookup label = map_of
     [(''registers per thread'', ''registers_per_thread''), (''launch__registers_per_thread'', ''registers_per_thread''),
      (''block size'', ''block_size''), (''launch__block_size'', ''block_size''),
      (''grid size'', ''grid_size''), (''launch__grid_size'', ''grid_size''),
      (''static shared memory per block'', ''smem_static''), (''launch__shared_mem_per_block_static'', ''smem_static''),
      (''dynamic shared memory per block'', ''smem_dynamic''), (''launch__shared_mem_per_block_dynamic'', ''smem_dynamic''),
      (''block limit registers'', ''block_limit_registers''), (''launch__occupancy_limit_registers'', ''block_limit_registers''),
      (''block limit shared mem'', ''block_limit_shared_mem''), (''launch__occupancy_limit_shared_mem'', ''block_limit_shared_mem''),
      (''block limit warps'', ''block_limit_warps''), (''launch__occupancy_limit_warps'', ''block_limit_warps''),
      (''block limit sm'', ''block_limit_sm''), (''launch__occupancy_limit_blocks'', ''block_limit_sm''),
      (''theoretical occupancy'', ''theoretical_occupancy_pct''), (''sm__maximum_warps_per_active_cycle_pct'', ''theoretical_occupancy_pct''),
      (''achieved occupancy'', ''achieved_occupancy_pct''), (''sm__warps_active.avg.pct_of_peak_sustained_active'', ''achieved_occupancy_pct''),
      (''waves per sm'', ''waves_per_sm''), (''launch__waves_per_multiprocessor'', ''waves_per_sm'')] label"
proof -
  have "concat (map (\<lambda>(metric, spellings). map (\<lambda>s. (py_lower (py_strip s), metric)) spellings) METRICS) =
     [(''registers per thread'', ''registers_per_thread''), (''launch__registers_per_thread'', ''registers_per_thread''),
      (''block size'', ''block_size''), (''launch__block_size'', ''block_size''),
      (''grid size'', ''grid_size''), (''launch__grid_size'', ''grid_size''),
      (''static shared memory per block'', ''smem_static''), (''launch__shared_mem_per_block_static'', ''smem_static''),
      (''dynamic shared memory per block'', ''smem_dynamic''), (''launch__shared_mem_per_block_dynamic'', ''smem_dynamic''),
      (''block limit registers'', ''block_limit_registers''), (''launch__occupancy_limit_registers'', ''block_limit_registers''),
      (''block limit shared mem'', ''block_limit_shared_mem''), (''launch__occupancy_limit_shared_mem'', ''block_limit_shared_mem''),
      (''block limit warps'', ''block_limit_warps''), (''launch__occupancy_limit_warps'', ''block_limit_warps''),
      (''block limit sm'', ''block_limit_sm''), (''launch__occupancy_limit_blocks'', ''block_limit_sm''),
      (''theoretical occupancy'', ''theoretical_occupancy_pct''), (''sm__maximum_warps_per_active_cycle_pct'', ''theoretical_occupancy_pct''),
      (''achieved occupancy'', ''achieved_occupancy_pct''), (''sm__warps_active.avg.pct_of_peak_sustained_active'', ''achieved_occupancy_pct''),
      (''waves per sm'', ''waves_per_sm''), (''launch__waves_per_multiprocessor'', ''waves_per_sm'')]"
    by code_simp
  then show ?thesis by (simp only: metric_lookup_def)
qed

text \<open>The metric a row gives a value for, and the launch it belongs to.\<close>

definition row_target :: "capture_row \<Rightarrow> ((string \<times> string) \<times> string option) option" where
  "row_target row =
     (if py_strip (row_kernel row) = [] then None
      else map_option (\<lambda>short. ((short, py_strip (row_launch row)), metric_lookup (py_lower (py_strip (row_metric row)))))
        (find (\<lambda>name. py_in name (py_strip (row_kernel row))) KERNELS))"

definition cells_for :: "string \<times> string \<Rightarrow> string \<Rightarrow> capture_row list \<Rightarrow> rat option list" where
  "cells_for key c rows = map (number \<circ> row_value) (filter (\<lambda>row. row_target row = Some (key, Some c)) rows)"

text \<open>The first readable value, or an unreadable one if there are only such, or nothing.\<close>

fun first_readable :: "rat option list \<Rightarrow> rat option option" where
  "first_readable [] = None"
| "first_readable (Some v # vs) = Some (Some v)"
| "first_readable (None # vs) = (case first_readable vs of None \<Rightarrow> Some None | r \<Rightarrow> r)"

definition keep_readable :: "rat option option \<Rightarrow> rat option list \<Rightarrow> rat option option" where
  "keep_readable old vs =
     (case old of
        Some (Some v) \<Rightarrow> old
      | _ \<Rightarrow> (case first_readable vs of None \<Rightarrow> old | r \<Rightarrow> r))"

lemma keep_readable_simps [simp]:
  "keep_readable old [] = old" "keep_readable None vs = first_readable vs"
  by (auto simp: keep_readable_def split: option.splits)

lemma keep_readable_Cons:
  "keep_readable (case old of Some (Some v) \<Rightarrow> old | _ \<Rightarrow> Some w) vs = keep_readable old (w # vs)"
  by (cases w) (auto simp: keep_readable_def split: option.splits)

lemma map_of_update_launch:
  "map_of (update_launch key f cap) k =
     (if k = key then Some (f (case map_of cap key of None \<Rightarrow> \<lambda>_. None | Some m \<Rightarrow> m)) else map_of cap k)"
  by (induction cap) auto

definition lookup_metric :: "capture \<Rightarrow> string \<times> string \<Rightarrow> string \<Rightarrow> rat option option" where
  "lookup_metric cap key c = (case map_of cap key of None \<Rightarrow> None | Some m \<Rightarrow> m c)"

lemma parse_row_target:
  assumes "parse_row row cap = Inr cap'"
  shows "row_target row = None \<Longrightarrow> cap' = cap"
    and "row_target row = Some (key, None) \<Longrightarrow> cap' = update_launch key id cap"
    and "row_target row = Some (key, Some c) \<Longrightarrow> cap' = update_launch key (record_metric c (row_value row)) cap"
  using assms
  by (auto simp: parse_row_def row_target_def Let_def split: if_splits option.splits)

lemma parse_row_lookup:
  assumes "parse_row row cap = Inr cap'"
  shows "lookup_metric cap' key c =
    (if row_target row = Some (key, Some c)
     then (case lookup_metric cap key c of Some (Some v) \<Rightarrow> lookup_metric cap key c | _ \<Rightarrow> Some (number (row_value row)))
     else lookup_metric cap key c)"
proof (cases "row_target row")
  case None then show ?thesis using parse_row_target(1) [OF assms] by simp
next
  case (Some target)
  then obtain key' c' where target: "row_target row = Some (key', c')" by (cases target) auto
  show ?thesis
  proof (cases c')
    case None
    then have "cap' = update_launch key' id cap" using parse_row_target(2) [OF assms] target by simp
    then show ?thesis using target None
      by (auto simp: lookup_metric_def map_of_update_launch split: option.splits)
  next
    case (Some d)
    then have cap': "cap' = update_launch key' (record_metric d (row_value row)) cap"
      using parse_row_target(3) [OF assms] target by simp
    show ?thesis unfolding cap' target Some
      by (cases "map_of cap key'") (auto simp: lookup_metric_def map_of_update_launch record_metric_def split: option.splits)
  qed
qed

lemma parse_rows_lookup:
  "parse_rows rows cap = Inr cap' \<Longrightarrow>
     lookup_metric cap' key c = keep_readable (lookup_metric cap key c) (cells_for key c rows)"
proof (induction rows arbitrary: cap)
  case Nil then show ?case by (simp add: cells_for_def)
next
  case (Cons row rows)
  then obtain mid where mid: "parse_row row cap = Inr mid" and rest: "parse_rows rows mid = Inr cap'"
    by (auto simp: res_bind_Inr)
  show ?case
  proof (cases "row_target row = Some (key, Some c)")
    case True
    then have "lookup_metric mid key c = (case lookup_metric cap key c of
        Some (Some v) \<Rightarrow> lookup_metric cap key c | _ \<Rightarrow> Some (number (row_value row)))"
      using parse_row_lookup [OF mid] by simp
    then show ?thesis using Cons.IH [OF rest] True keep_readable_Cons [where old = "lookup_metric cap key c"]
      by (simp add: cells_for_def)
  next
    case False
    then show ?thesis using Cons.IH [OF rest] parse_row_lookup [OF mid] by (simp add: cells_for_def)
  qed
qed

text \<open>Launches stay separate, and no value is invented. After the rows have been read, a metric
  of a launch is the first readable cell among the rows of that very kernel, launch and metric; it
  is present but unreadable exactly if there are such rows and none can be read, and absent
  exactly if there are none.
\<close>

theorem launch_records_exact:
  assumes "parse_rows rows [] = Inr cap"
  shows "lookup_metric cap key c = first_readable (cells_for key c rows)"
  using parse_rows_lookup [OF assms] by (simp add: lookup_metric_def)

text \<open>Rows of two launches of one kernel, the first value of one of them unreadable.\<close>

definition demo_rows :: "capture_row list" where
  "demo_rows =
     [\<lparr>row_kernel = ''void fm_down_kernel<8>'', row_launch = ''1'', row_metric = ''Grid Size'', row_value = ''N/A''\<rparr>,
      \<lparr>row_kernel = ''void fm_down_kernel<8>'', row_launch = ''2'', row_metric = ''Grid Size'', row_value = ''46 block''\<rparr>,
      \<lparr>row_kernel = ''void fm_down_kernel<8>'', row_launch = ''1'', row_metric = ''launch__grid_size'', row_value = ''48.5''\<rparr>]"

text \<open>A concrete instance.\<close>

theorem launch_records_exact_witness:
  "\<exists>cap. parse_rows demo_rows [] = Inr cap \<and>
     lookup_metric cap (''fm_down_kernel'', ''1'') ''grid_size'' = Some (Some (485 / 10)) \<and>
     lookup_metric cap (''fm_down_kernel'', ''2'') ''grid_size'' = Some (Some 46) \<and>
     lookup_metric cap (''fm_down_kernel'', ''2'') ''block_size'' = None"
proof -
  have "is_ok (parse_rows demo_rows [])" by code_simp
  then obtain cap where cap: "parse_rows demo_rows [] = Inr cap" by (auto simp: is_ok_iff)
  have "first_readable (cells_for (''fm_down_kernel'', ''1'') ''grid_size'' demo_rows) = Some (Some (485 / 10))"
    "first_readable (cells_for (''fm_down_kernel'', ''2'') ''grid_size'' demo_rows) = Some (Some 46)"
    "first_readable (cells_for (''fm_down_kernel'', ''2'') ''block_size'' demo_rows) = None"
    by code_simp+
  then show ?thesis using cap by (simp add: launch_records_exact [OF cap])
qed

text \<open>A launch with 64 registers and the occupancies given.\<close>

definition demo_launch :: "rat \<Rightarrow> rat \<Rightarrow> launch_metrics" where
  "demo_launch theoretical achieved = map_option Some \<circ> map_of
     [(''registers_per_thread'', 64), (''block_size'', 256), (''grid_size'', 4608), (''block_limit_registers'', 2),
      (''block_limit_shared_mem'', 3), (''block_limit_warps'', 6), (''theoretical_occupancy_pct'', theoretical),
      (''achieved_occupancy_pct'', achieved), (''waves_per_sm'', 5)]"

definition demo_capture :: capture where
  "demo_capture =
     [((''fm_gateup_kernel'', ''0''), demo_launch 50 45), ((''fm_down_kernel'', ''1''), demo_launch 50 40),
      ((''fm_down_kernel'', ''2''), demo_launch 100 40)]"

subsection \<open>What the gate decides\<close>

lemma capture_ok_launches:
  assumes "capture_ok expected cap" and "name \<in> set KERNELS"
  shows "launches_of cap name \<noteq> []" and "m \<in> set (launches_of cap name) \<Longrightarrow> launch_usable m"
  using assms by (auto simp: capture_ok_def list_all_iff Let_def)

lemma lowest_le_iff: "ls \<noteq> [] \<Longrightarrow> lowest key ls \<le> x \<longleftrightarrow> (\<exists>m \<in> set ls. metric m key \<le> x)"
  by (simp add: lowest_def Min_le_iff)

lemma lowest_less_iff: "ls \<noteq> [] \<Longrightarrow> lowest key ls < x \<longleftrightarrow> (\<exists>m \<in> set ls. metric m key < x)"
  by (simp add: lowest_def Min_less_iff)

lemma lowest_const:
  assumes "ls \<noteq> []" and "\<forall>m \<in> set ls. metric m key = t"
  shows "lowest key ls = t"
proof -
  have "set (map (\<lambda>m. metric m key) ls) = {t}" using assms by (cases ls) auto
  then show ?thesis by (simp add: lowest_def)
qed

text \<open>
  The per-kernel rule, when the launches of a kernel share their theoretical occupancy: the gap is
  open iff some launch is within the register stop and some launch is below the ratio.
\<close>

lemma kernel_open_iff:
  assumes "ls \<noteq> []" and "\<forall>m \<in> set ls. metric m ''theoretical_occupancy_pct'' = t" and "0 < t"
  shows "kernel_verdict regs_stop achieved_ratio ls = OPEN_GAP \<longleftrightarrow>
    (\<exists>m \<in> set ls. metric m ''registers_per_thread'' \<le> regs_stop) \<and>
    (\<exists>m \<in> set ls. metric m ''achieved_occupancy_pct'' / metric m ''theoretical_occupancy_pct'' < achieved_ratio)"
proof -
  have "kernel_verdict regs_stop achieved_ratio ls = OPEN_GAP \<longleftrightarrow>
      lowest ''registers_per_thread'' ls \<le> regs_stop \<and> lowest ''achieved_occupancy_pct'' ls < achieved_ratio * t"
    using assms(3) lowest_const [OF assms(1,2)] by (auto simp: kernel_verdict_def Let_def field_simps not_le not_less)
  then show ?thesis
    using assms by (simp add: lowest_le_iff lowest_less_iff field_simps)
qed

text \<open>What opens the sweep. On a complete capture in which the launches of each kernel share their
  theoretical occupancy, the gate opens exactly if some kernel has a launch within the register
  stop and a launch whose achieved occupancy is below the ratio.
\<close>

theorem gate_opens_iff:
  assumes "capture_ok expected cap"
    and "\<forall>name \<in> set KERNELS. \<exists>t. \<forall>m \<in> set (launches_of cap name). metric m ''theoretical_occupancy_pct'' = t"
  shows "fst (judge regs_stop achieved_ratio expected cap) = OPEN_GAP \<longleftrightarrow>
    (\<exists>name \<in> set KERNELS.
      (\<exists>m \<in> set (launches_of cap name). metric m ''registers_per_thread'' \<le> regs_stop) \<and>
      (\<exists>m \<in> set (launches_of cap name).
        metric m ''achieved_occupancy_pct'' / metric m ''theoretical_occupancy_pct'' < achieved_ratio))"
proof -
  have kernel: "kernel_verdict regs_stop achieved_ratio (launches_of cap name) = OPEN_GAP \<longleftrightarrow>
      (\<exists>m \<in> set (launches_of cap name). metric m ''registers_per_thread'' \<le> regs_stop) \<and>
      (\<exists>m \<in> set (launches_of cap name).
        metric m ''achieved_occupancy_pct'' / metric m ''theoretical_occupancy_pct'' < achieved_ratio)"
    if name: "name \<in> set KERNELS" for name
  proof -
    note ok = capture_ok_launches [OF assms(1) name]
    obtain t where t: "\<forall>m \<in> set (launches_of cap name). metric m ''theoretical_occupancy_pct'' = t"
      using assms(2) name by blast
    have "launch_usable (hd (launches_of cap name))" using ok by simp
    then have "0 < t" using t ok(1) by (auto simp: launch_usable_def Let_def)
    then show ?thesis by (rule kernel_open_iff [OF ok(1) t])
  qed
  have "fst (judge regs_stop achieved_ratio expected cap) = OPEN_GAP \<longleftrightarrow>
      (\<exists>name \<in> set KERNELS. kernel_verdict regs_stop achieved_ratio (launches_of cap name) = OPEN_GAP)"
    using assms(1) by (force simp: judge_def Let_def list_ex_iff)
  then show ?thesis by (simp only: bex_cong [OF refl kernel])
qed

text \<open>A concrete instance: one launch of each kernel, the second with a gap.\<close>

definition demo_open :: capture where
  "demo_open =
     [((''fm_gateup_kernel'', ''0''), demo_launch 50 45), ((''fm_down_kernel'', ''1''), demo_launch 50 30)]"

theorem gate_opens_iff_witness:
  "fst (judge 96 (8 / 10) None demo_open) = OPEN_GAP"
proof -
  have ok: "capture_ok None demo_open" by code_simp
  have "list_all (\<lambda>name. list_all (\<lambda>m. metric m ''theoretical_occupancy_pct'' = 50) (launches_of demo_open name)) KERNELS"
    by code_simp
  then have same: "\<forall>name \<in> set KERNELS. \<exists>t. \<forall>m \<in> set (launches_of demo_open name). metric m ''theoretical_occupancy_pct'' = t"
    unfolding list_all_iff by blast
  have "\<exists>name \<in> set KERNELS.
      (\<exists>m \<in> set (launches_of demo_open name). metric m ''registers_per_thread'' \<le> 96) \<and>
      (\<exists>m \<in> set (launches_of demo_open name).
        metric m ''achieved_occupancy_pct'' / metric m ''theoretical_occupancy_pct'' < 8 / 10)"
    by code_simp
  then show ?thesis by (simp only: gate_opens_iff [OF ok same])
qed

text \<open>
  The rule for any launches, also when their theoretical occupancies differ.
\<close>

lemma kernel_open_general:
  assumes "ls \<noteq> []" and "\<forall>m \<in> set ls. 0 < metric m ''theoretical_occupancy_pct''" and "0 \<le> achieved_ratio"
  shows "kernel_verdict regs_stop achieved_ratio ls = OPEN_GAP \<longleftrightarrow>
    (\<exists>m \<in> set ls. metric m ''registers_per_thread'' \<le> regs_stop) \<and>
    (\<exists>m \<in> set ls. \<forall>m' \<in> set ls. metric m ''achieved_occupancy_pct'' < achieved_ratio * metric m' ''theoretical_occupancy_pct'')"
proof -
  let ?t = "lowest ''theoretical_occupancy_pct'' ls" and ?a = "lowest ''achieved_occupancy_pct'' ls"
  have t: "0 < ?t"
    using assms(1,2) by (simp add: lowest_def)
  have below: "x < achieved_ratio * ?t \<longleftrightarrow> (\<forall>m' \<in> set ls. x < achieved_ratio * metric m' ''theoretical_occupancy_pct'')" for x
  proof
    assume "x < achieved_ratio * ?t"
    moreover have "achieved_ratio * ?t \<le> achieved_ratio * metric m' ''theoretical_occupancy_pct''" if "m' \<in> set ls" for m'
      using that assms(3) by (intro mult_left_mono) (auto simp: lowest_def)
    ultimately show "\<forall>m' \<in> set ls. x < achieved_ratio * metric m' ''theoretical_occupancy_pct''"
      by fastforce
  next
    assume all: "\<forall>m' \<in> set ls. x < achieved_ratio * metric m' ''theoretical_occupancy_pct''"
    have "?t \<in> set (map (\<lambda>m. metric m ''theoretical_occupancy_pct'') ls)"
      unfolding lowest_def using assms(1) by (intro Min_in) auto
    then show "x < achieved_ratio * ?t"
      using all by auto
  qed
  have "kernel_verdict regs_stop achieved_ratio ls = OPEN_GAP \<longleftrightarrow>
      lowest ''registers_per_thread'' ls \<le> regs_stop \<and> ?a < achieved_ratio * ?t"
    using t by (auto simp: kernel_verdict_def Let_def field_simps not_le not_less)
  also have "?a < achieved_ratio * ?t \<longleftrightarrow> (\<exists>m \<in> set ls. metric m ''achieved_occupancy_pct'' < achieved_ratio * ?t)"
    by (rule lowest_less_iff [OF assms(1)])
  finally show ?thesis
    by (simp only: below lowest_le_iff [OF assms(1)])
qed

text \<open>(C38) When the gate opens, on every complete capture: exactly if some kernel has a launch within the
  register stop and a launch whose achieved occupancy is below the ratio of the theoretical
  occupancy of every launch of that kernel, not only of its own. The minimum of the theoretical
  occupancies is therefore not the conservative direction: a launch with a gap of its own is
  hidden by any other launch of the kernel with a low enough theoretical occupancy.
\<close>

theorem gap_hidden_by_other_launch:
  assumes "capture_ok expected cap" and "0 \<le> achieved_ratio"
  shows "fst (judge regs_stop achieved_ratio expected cap) = OPEN_GAP \<longleftrightarrow>
    (\<exists>name \<in> set KERNELS.
      (\<exists>m \<in> set (launches_of cap name). metric m ''registers_per_thread'' \<le> regs_stop) \<and>
      (\<exists>m \<in> set (launches_of cap name). \<forall>m' \<in> set (launches_of cap name).
        metric m ''achieved_occupancy_pct'' < achieved_ratio * metric m' ''theoretical_occupancy_pct''))"
proof -
  have kernel: "kernel_verdict regs_stop achieved_ratio (launches_of cap name) = OPEN_GAP \<longleftrightarrow>
      (\<exists>m \<in> set (launches_of cap name). metric m ''registers_per_thread'' \<le> regs_stop) \<and>
      (\<exists>m \<in> set (launches_of cap name). \<forall>m' \<in> set (launches_of cap name).
        metric m ''achieved_occupancy_pct'' < achieved_ratio * metric m' ''theoretical_occupancy_pct'')"
    if name: "name \<in> set KERNELS" for name
    using capture_ok_launches [OF assms(1) name]
    by (intro kernel_open_general assms(2)) (auto simp: launch_usable_def Let_def)
  have "fst (judge regs_stop achieved_ratio expected cap) = OPEN_GAP \<longleftrightarrow>
      (\<exists>name \<in> set KERNELS. kernel_verdict regs_stop achieved_ratio (launches_of cap name) = OPEN_GAP)"
    using assms(1) by (force simp: judge_def Let_def list_ex_iff)
  then show ?thesis by (simp only: bex_cong [OF refl kernel])
qed

text \<open>
  A launch of the down kernel with 64 registers and 40 % achieved of 100 % theoretical, half of the
  ratio asked for; the gate stays shut because of the other launch.
\<close>

theorem gap_hidden_by_other_launch_witness:
  "fst (judge 96 (8 / 10) (Some 3) demo_capture) \<noteq> OPEN_GAP \<and>
   (\<exists>m \<in> set (launches_of demo_capture ''fm_down_kernel'').
      metric m ''achieved_occupancy_pct'' / metric m ''theoretical_occupancy_pct'' < 8 / 10)"
proof
  have ok: "capture_ok (Some 3) demo_capture" by code_simp
  have "\<not> (\<exists>name \<in> set KERNELS.
      (\<exists>m \<in> set (launches_of demo_capture name). metric m ''registers_per_thread'' \<le> 96) \<and>
      (\<exists>m \<in> set (launches_of demo_capture name). \<forall>m' \<in> set (launches_of demo_capture name).
        metric m ''achieved_occupancy_pct'' < 8 / 10 * metric m' ''theoretical_occupancy_pct''))"
    by code_simp
  then show "fst (judge 96 (8 / 10) (Some 3) demo_capture) \<noteq> OPEN_GAP"
    by (subst gap_hidden_by_other_launch [OF ok]) simp_all
  show "\<exists>m \<in> set (launches_of demo_capture ''fm_down_kernel'').
      metric m ''achieved_occupancy_pct'' / metric m ''theoretical_occupancy_pct'' < 8 / 10"
    by code_simp
qed

end
