(* ===== verification/Moe_Route.thy ===== *)
theory Moe_Route
  imports Glm_Prelude "HOL-Library.Multiset"
begin

text \<open>
  Routing of tokens to quantised experts in \<open>overlay/exl3.py\<close>: the map of router ids to local
  experts, the sort by expert, and the paths that walk an expert's rows (\<open>apply_exl3_python_loop\<close>,
  \<open>apply_exl3_sorted_fat\<close>, \<open>apply_exl3_batched_fat\<close>). Rows of tensors are elements of a commutative
  monoid: what an expert computes on a row is built from the operations of the extension, which are
  an argument (\<open>ext_ops\<close>), and sums are exact, so that rounding, dtypes and the order of atomic
  additions are outside the model. \<open>LinearEXL3.forward\<close> is the Hadamard transform with input
  scales, the product with the packed matrix and the transform with output scales
  (\<open>linear_ok\<close>); \<open>argsort\<close> is any permutation that sorts (\<open>argsort_ok\<close>).
\<close>

subsection \<open>Experts and the extension\<close>

record ('s, 't) linear =
  l_suh :: 's
  l_trellis :: 't
  l_svh :: 's

record ('s, 't) pack =
  p_gate :: "('s, 't) linear"
  p_up :: "('s, 't) linear"
  p_down :: "('s, 't) linear"

text \<open>
  \<open>forward\<close> of a packed layer, \<open>had_r_128\<close> with input and with output scales, the product with a
  packed matrix, the clamped SwiGLU, and the product with a routing weight, all on one row.
\<close>

record ('r, 's, 't, 'w) ext_ops =
  op_forward :: "('s, 't) linear \<Rightarrow> 'r \<Rightarrow> 'r"
  op_had_in :: "'r \<Rightarrow> 's \<Rightarrow> 'r"
  op_gemm :: "'t \<Rightarrow> 'r \<Rightarrow> 'r"
  op_had_out :: "'r \<Rightarrow> 's \<Rightarrow> 'r"
  op_act :: "'r \<Rightarrow> 'r \<Rightarrow> 'r"
  op_mul :: "'r \<Rightarrow> 'w \<Rightarrow> 'r"

definition linear_ok :: "('r, 's, 't, 'w) ext_ops \<Rightarrow> bool" where
  "linear_ok ops \<longleftrightarrow>
     (\<forall>l x. op_forward ops l x = op_had_out ops (op_gemm ops (l_trellis l) (op_had_in ops x (l_suh l))) (l_svh l))"

text \<open>\<open>torch.equal(w13_suh[:, 0], w13_suh[:, 1])\<close>\<close>

definition shared_suh :: "('s, 't) pack list \<Rightarrow> bool" where
  "shared_suh packs = list_all (\<lambda>p. l_suh (p_up p) = l_suh (p_gate p)) packs"

text \<open>The body of the reference loop on one row: gate, up, clamped SwiGLU, down.\<close>

definition expert_row :: "('r, 's, 't, 'w) ext_ops \<Rightarrow> ('s, 't) pack \<Rightarrow> 'r \<Rightarrow> 'r" where
  "expert_row ops p x =
     (let gate = op_forward ops (p_gate p) x;
          up = op_forward ops (p_up p) x
      in op_forward ops (p_down p) (op_act ops gate up))"

text \<open>\<open>out.index_add_(0, idx, rows)\<close>\<close>

definition add_row :: "nat \<times> 'r \<Rightarrow> 'r list \<Rightarrow> 'r::comm_monoid_add list" where
  "add_row = (\<lambda>(t, r) out. out[t := out ! t + r])"

definition index_add :: "'r::comm_monoid_add list \<Rightarrow> (nat \<times> 'r) list \<Rightarrow> 'r list" where
  "index_add out rows = fold add_row rows out"

text \<open>One expert on the rows of the tokens given, with their weights.\<close>

definition run_expert ::
  "('r::comm_monoid_add, 's, 't, 'w) ext_ops \<Rightarrow> ('s, 't) pack \<Rightarrow> 'r list \<Rightarrow> nat list \<Rightarrow> 'w list \<Rightarrow> 'r list \<Rightarrow> 'r list"
where
  "run_expert ops p xs toks wts out =
     (let h = map (\<lambda>t. xs ! t) toks;
          down = map (expert_row ops p) h
      in index_add out (zip toks (map2 (op_mul ops) down wts)))"

text \<open>
  The batched form: one transform with the gate's scales feeds the stacked gate and up matrices.
\<close>

definition run_expert_batched ::
  "('r::comm_monoid_add, 's, 't, 'w) ext_ops \<Rightarrow> ('s, 't) pack \<Rightarrow> 'r list \<Rightarrow> nat list \<Rightarrow> 'w list \<Rightarrow> 'r list \<Rightarrow> 'r list"
where
  "run_expert_batched ops p xs toks wts out =
     (let h = map (\<lambda>t. xs ! t) toks;
          h13 = map (\<lambda>x. op_had_in ops x (l_suh (p_gate p))) h;
          gate_up = map (\<lambda>z. (op_gemm ops (l_trellis (p_gate p)) z, op_gemm ops (l_trellis (p_up p)) z)) h13;
          gate_up = map (\<lambda>(g, u). (op_had_out ops g (l_svh (p_gate p)), op_had_out ops u (l_svh (p_up p)))) gate_up;
          act_h = map (\<lambda>(g, u). op_act ops g u) gate_up;
          h2 = map (\<lambda>a. op_had_in ops a (l_suh (p_down p))) act_h;
          down = map (\<lambda>z. op_had_out ops (op_gemm ops (l_trellis (p_down p)) z) (l_svh (p_down p))) h2
      in index_add out (zip toks (map2 (op_mul ops) down wts)))"

subsection \<open>Routing\<close>

text \<open>\<open>map_topk_to_local\<close> on the flattened ids; \<open>n_local\<close> is the sentinel.\<close>

definition map_topk_to_local :: "int list \<Rightarrow> nat \<Rightarrow> int list option \<Rightarrow> nat list" where
  "map_topk_to_local flat n_local expert_map =
     (case expert_map of
        None \<Rightarrow> map (\<lambda>i. if i < 0 \<or> int n_local \<le> i then n_local else nat i) flat
      | Some em \<Rightarrow>
          (let n_global = int (length em) in
           map (\<lambda>i. let safe = min (max i 0) (max (n_global - 1) 0);
                        mapped = (if n_global \<noteq> 0 then em ! nat safe else int n_local)
                    in if i < 0 \<or> n_global \<le> i \<or> mapped < 0 \<or> int n_local \<le> mapped
                       then n_local else nat mapped) flat))"

text \<open>The local expert of a router id in the reference loop, if it is served at all.\<close>

definition loop_expert :: "nat \<Rightarrow> int list option \<Rightarrow> int \<Rightarrow> nat option" where
  "loop_expert n expert_map raw =
     (if raw < 0 then None
      else
        let e = (case expert_map of
              None \<Rightarrow> raw
            | Some em \<Rightarrow> if raw < int (length em) then em ! nat raw else raw)
        in if e < 0 \<or> int n \<le> e then None else Some (nat e))"

text \<open>\<open>(ids == raw).nonzero()\<close> in row-major order.\<close>

definition positions :: "int list list \<Rightarrow> int \<Rightarrow> (nat \<times> nat) list" where
  "positions ids raw =
     concat (map (\<lambda>t. map (Pair t) (filter (\<lambda>k. ids ! t ! k = raw) [0..<length (ids ! t)])) [0..<length ids])"

definition loop_step ::
  "('r::comm_monoid_add, 's, 't, 'w) ext_ops \<Rightarrow> ('s, 't) pack list \<Rightarrow> 'r list \<Rightarrow> int list list \<Rightarrow> 'w list list \<Rightarrow>
   int list option \<Rightarrow> nat set option \<Rightarrow> int \<Rightarrow> 'r list \<Rightarrow> 'r list"
where
  "loop_step ops packs xs ids weights expert_map only raw out =
     (case loop_expert (length packs) expert_map raw of
        None \<Rightarrow> out
      | Some e \<Rightarrow>
          if (case only of None \<Rightarrow> False | Some es \<Rightarrow> e \<notin> es) then out
          else run_expert ops (packs ! e) xs (map fst (positions ids raw))
                 (map (\<lambda>(t, k). weights ! t ! k) (positions ids raw)) out)"

definition apply_exl3_python_loop ::
  "('r::comm_monoid_add, 's, 't, 'w) ext_ops \<Rightarrow> ('s, 't) pack list \<Rightarrow> 'r list \<Rightarrow> int list list \<Rightarrow> 'w list list \<Rightarrow>
   int list option \<Rightarrow> nat set option \<Rightarrow> 'r list \<Rightarrow> 'r list"
where
  "apply_exl3_python_loop ops packs xs ids weights expert_map only out =
     fold (loop_step ops packs xs ids weights expert_map only) (sorted_list_of_set (set (concat ids))) out"

text \<open>\<open>flat_token\<close>, the sorted tokens and weights, and the histogram with the sentinel bucket.\<close>

definition flat_token :: "nat \<Rightarrow> nat \<Rightarrow> nat list" where
  "flat_token tokens topk = concat (map (replicate topk) [0..<tokens])"

definition expert_count :: "nat \<Rightarrow> nat list \<Rightarrow> nat list" where
  "expert_count n_exp local = map (count_list local) [0..<Suc n_exp]"

definition argsort_ok :: "nat list \<Rightarrow> nat list \<Rightarrow> bool" where
  "argsort_ok local order \<longleftrightarrow> mset order = mset [0..<length local] \<and> sorted (map (\<lambda>i. local ! i) order)"

text \<open>
  The walk over the sorted rows: expert by expert, the running offset, and only the experts whose
  number of rows is selected.
\<close>

fun slice_loop ::
  "(nat \<Rightarrow> nat list \<Rightarrow> 'w list \<Rightarrow> 'r list \<Rightarrow> 'r list) \<Rightarrow> (nat \<Rightarrow> bool) \<Rightarrow> nat list \<Rightarrow> 'w list \<Rightarrow>
   nat \<Rightarrow> nat \<Rightarrow> nat list \<Rightarrow> 'r list \<Rightarrow> 'r list"
where
  "slice_loop run sel toks wts e offset [] out = out"
| "slice_loop run sel toks wts e offset (n # ns) out =
     slice_loop run sel toks wts (Suc e) (offset + n) ns
       (if sel n then run e (take n (drop offset toks)) (take n (drop offset wts)) out else out)"

definition apply_exl3_sorted_fat ::
  "('r::comm_monoid_add, 's, 't, 'w) ext_ops \<Rightarrow> ('s, 't) pack list \<Rightarrow> 'r list \<Rightarrow> nat list \<Rightarrow> 'w list \<Rightarrow> nat list \<Rightarrow>
   nat \<Rightarrow> 'r list \<Rightarrow> 'r list"
where
  "apply_exl3_sorted_fat ops packs xs toks wts counts cap out =
     slice_loop (\<lambda>e. run_expert ops (packs ! e) xs) (\<lambda>n. \<not> n \<le> cap) toks wts 0 0 counts out"

text \<open>
  The batched fallback. \<open>scr n\<close> is the outcome of \<open>_fat_scratch\<close> for \<open>n\<close> rows. With \<open>use_kernel\<close> the
  products run in the fat kernels, which must be in the extension; their absence is noticed at the
  first fat expert.
\<close>

fun batched_loop ::
  "(nat \<Rightarrow> nat list \<Rightarrow> 'w list \<Rightarrow> 'r list \<Rightarrow> 'r list res) \<Rightarrow> nat \<Rightarrow> nat list \<Rightarrow> 'w list \<Rightarrow>
   nat \<Rightarrow> nat \<Rightarrow> nat list \<Rightarrow> 'r list \<Rightarrow> 'r list res"
where
  "batched_loop run cap toks wts e offset [] out = Inr out"
| "batched_loop run cap toks wts e offset (n # ns) out =
     (if n \<le> cap then batched_loop run cap toks wts (Suc e) (offset + n) ns out
      else res_bind (run e (take n (drop offset toks)) (take n (drop offset wts)) out)
             (batched_loop run cap toks wts (Suc e) (offset + n) ns))"

definition apply_exl3_batched_fat ::
  "('r::comm_monoid_add, 's, 't, 'w) ext_ops \<Rightarrow> (nat \<Rightarrow> unit res) \<Rightarrow> bool \<Rightarrow> bool \<Rightarrow> ('s, 't) pack list \<Rightarrow> 'r list \<Rightarrow>
   nat list \<Rightarrow> 'w list \<Rightarrow> nat list \<Rightarrow> nat \<Rightarrow> bool \<Rightarrow> 'r list \<Rightarrow> 'r list res"
where
  "apply_exl3_batched_fat ops scr has_gemm has_scatter packs xs toks wts counts cap use_kernel out =
     batched_loop
       (\<lambda>e ts ws out. res_bind (scr (length ts)) (\<lambda>_.
          if use_kernel \<and> \<not> has_gemm then Inl RuntimeError
          else if use_kernel \<and> \<not> has_scatter then Inl RuntimeError
          else Inr (run_expert_batched ops (packs ! e) xs ts ws out)))
       cap toks wts 0 0 counts out"

text \<open>
  The fused kernel \<open>exl3_moe\<close> on one expert (gather and transform with both input scales, the two
  products, output transforms, activation and transform for the down matrix, the down product, the
  weighted scatter), and its walk: experts with no rows, or with more rows than the temporaries
  hold, are skipped, and the last bucket of \<open>expert_count\<close> is ignored.
\<close>

definition run_expert_fused ::
  "('r::comm_monoid_add, 's, 't, 'w) ext_ops \<Rightarrow> ('s, 't) pack \<Rightarrow> 'r list \<Rightarrow> nat list \<Rightarrow> 'w list \<Rightarrow> 'r list \<Rightarrow> 'r list"
where
  "run_expert_fused ops p xs toks wts out =
     (let temp_state = map (\<lambda>t. (op_had_in ops (xs ! t) (l_suh (p_gate p)), op_had_in ops (xs ! t) (l_suh (p_up p)))) toks;
          temp_intermediate = map (\<lambda>(g, u). (op_gemm ops (l_trellis (p_gate p)) g, op_gemm ops (l_trellis (p_up p)) u)) temp_state;
          guad = map (\<lambda>(g, u). op_had_in ops
                   (op_act ops (op_had_out ops g (l_svh (p_gate p))) (op_had_out ops u (l_svh (p_up p)))) (l_suh (p_down p))) temp_intermediate;
          down = map (op_gemm ops (l_trellis (p_down p))) guad
      in index_add out (zip toks (map2 (\<lambda>d w. op_mul ops (op_had_out ops d (l_svh (p_down p))) w) down wts)))"

definition exl3_moe ::
  "('r::comm_monoid_add, 's, 't, 'w) ext_ops \<Rightarrow> ('s, 't) pack list \<Rightarrow> 'r list \<Rightarrow> nat list \<Rightarrow> nat list \<Rightarrow> 'w list \<Rightarrow>
   nat \<Rightarrow> 'r list \<Rightarrow> 'r list"
where
  "exl3_moe ops packs xs ecount toks wts cap out =
     slice_loop (\<lambda>e. run_expert_fused ops (packs ! e) xs) (\<lambda>n. n \<noteq> 0 \<and> \<not> n > cap) toks wts 0 0 (butlast ecount) out"

subsection \<open>What the paths have to add up to\<close>

text \<open>
  A routed row is a local expert, a token and a weight. The contribution of a routed row is added
  to its token's output.
\<close>

definition contrib ::
  "('r, 's, 't, 'w) ext_ops \<Rightarrow> ('s, 't) pack list \<Rightarrow> 'r list \<Rightarrow> nat \<times> nat \<times> 'w \<Rightarrow> nat \<times> 'r"
where
  "contrib ops packs xs = (\<lambda>(e, t, w). (t, op_mul ops (expert_row ops (packs ! e) (xs ! t)) w))"

text \<open>All rows the router asks for, in row-major order, with the sentinel as expert of the invalid ones.\<close>

definition routed :: "nat list \<Rightarrow> nat list \<Rightarrow> 'w list \<Rightarrow> (nat \<times> nat \<times> 'w) list" where
  "routed local toks wts = zip local (zip toks wts)"

text \<open>The rows of the experts below \<open>n\<close> that a selection keeps.\<close>

definition served :: "nat \<Rightarrow> (nat \<Rightarrow> bool) \<Rightarrow> (nat \<times> 'a) list \<Rightarrow> (nat \<times> 'a) list" where
  "served n sel rows = filter (\<lambda>r. fst r < n \<and> sel (fst r)) rows"

definition rect :: "nat \<Rightarrow> 'a list list \<Rightarrow> bool" where
  "rect k m = list_all (\<lambda>r. length r = k) m"

text \<open>Every id is one the expert map knows, or negative.\<close>

definition ids_in_map :: "int list option \<Rightarrow> int list \<Rightarrow> bool" where
  "ids_in_map expert_map flat =
     (case expert_map of None \<Rightarrow> True | Some em \<Rightarrow> list_all (\<lambda>i. i < int (length em)) flat)"

definition only_sel :: "nat set option \<Rightarrow> nat \<Rightarrow> bool" where
  "only_sel only e = (case only of None \<Rightarrow> True | Some es \<Rightarrow> e \<in> es)"

definition triples :: "int list list \<Rightarrow> 'w list list \<Rightarrow> (int \<times> nat \<times> 'w) list" where
  "triples ids weights =
     concat (map (\<lambda>t. map (\<lambda>k. (ids ! t ! k, t, weights ! t ! k)) [0..<length (ids ! t)]) [0..<length ids])"

fun slice_items :: "(nat \<Rightarrow> bool) \<Rightarrow> 'a list \<Rightarrow> nat \<Rightarrow> nat \<Rightarrow> nat list \<Rightarrow> (nat \<times> 'a) list" where
  "slice_items sel rows e offset [] = []"
| "slice_items sel rows e offset (n # ns) =
     (if sel n then map (Pair e) (take n (drop offset rows)) else []) @
     slice_items sel rows (Suc e) (offset + n) ns"

subsection \<open>Sums do not depend on the order\<close>

lemma add_row_commute: "add_row a (add_row b out) = add_row b (add_row a out)"
proof (cases "fst a = fst b")
  case True
  then show ?thesis
    by (cases "fst b < length out") (auto simp: add_row_def list_update_beyond add.commute add.left_commute split: prod.splits)
next
  case False
  then show ?thesis
    by (auto simp: add_row_def list_update_swap split: prod.splits)
qed

lemma index_add_mset:
  assumes "mset rs = mset rs'"
  shows "index_add out rs = index_add out rs'"
  unfolding index_add_def
  by (rule fun_cong [OF fold_multiset_equiv [OF _ assms]]) (auto simp: fun_eq_iff add_row_commute)

lemma index_add_append: "index_add (index_add out rs) rs' = index_add out (rs @ rs')"
  by (simp add: index_add_def)

lemma index_add_Nil [simp]: "index_add out [] = out"
  by (simp add: index_add_def)

lemma length_add_row [simp]: "length (add_row a out) = length out"
  by (simp add: add_row_def split: prod.splits)

lemma length_index_add [simp]: "length (index_add out rs) = length out"
  by (induction rs arbitrary: out) (simp_all add: index_add_def)

subsection \<open>One expert\<close>

lemma run_expert_contrib:
  "run_expert ops (packs ! e) xs toks wts out =
   index_add out (map (contrib ops packs xs) (map (Pair e) (zip toks wts)))"
proof -
  have "zip toks (map2 (op_mul ops) (map (expert_row ops (packs ! e)) (map ((!) xs) toks)) wts) =
        map (contrib ops packs xs) (map (Pair e) (zip toks wts))"
    by (rule nth_equalityI) (simp_all add: contrib_def)
  then show ?thesis
    by (simp add: run_expert_def)
qed

lemma run_expert_batched_eq:
  assumes "linear_ok ops" "l_suh (p_up p) = l_suh (p_gate p)"
  shows "run_expert_batched ops p xs toks wts out = run_expert ops p xs toks wts out"
  using assms by (simp add: run_expert_batched_def run_expert_def linear_ok_def expert_row_def o_def)

lemma run_expert_fused_eq:
  assumes "linear_ok ops"
  shows "run_expert_fused ops p xs toks wts out = run_expert ops p xs toks wts out"
proof -
  have "map2 (\<lambda>d w. op_mul ops (op_had_out ops d (l_svh (p_down p))) w)
          (map (\<lambda>t. op_gemm ops (l_trellis (p_down p)) (op_had_in ops
             (op_act ops (op_had_out ops (op_gemm ops (l_trellis (p_gate p)) (op_had_in ops (xs ! t) (l_suh (p_gate p)))) (l_svh (p_gate p)))
                         (op_had_out ops (op_gemm ops (l_trellis (p_up p)) (op_had_in ops (xs ! t) (l_suh (p_up p)))) (l_svh (p_up p))))
             (l_suh (p_down p)))) toks) wts =
        map2 (op_mul ops) (map (\<lambda>t. expert_row ops p (xs ! t)) toks) wts"
    using assms by (intro nth_equalityI) (simp_all add: linear_ok_def expert_row_def)
  then show ?thesis
    by (simp add: run_expert_fused_def run_expert_def o_def)
qed

subsection \<open>Slices of the sorted rows\<close>

lemma slice_loop_items:
  assumes "\<And>d ts ws out. d < e + length ns \<Longrightarrow> run d ts ws out = index_add out (map f (map (Pair d) (zip ts ws)))"
  shows "slice_loop run sel toks wts e off ns out = index_add out (map f (slice_items sel (zip toks wts) e off ns))"
  using assms
proof (induction ns arbitrary: e off out)
  case (Cons n ns)
  then have "run e ts ws out = index_add out (map f (map (Pair e) (zip ts ws)))" for ts ws out
    by simp
  moreover have "slice_loop run sel toks wts (Suc e) (off + n) ns out' =
      index_add out' (map f (slice_items sel (zip toks wts) (Suc e) (off + n) ns))" for out'
    by (rule Cons.IH) (simp add: Cons.prems)
  ultimately show ?case
    by (simp add: index_add_append take_zip drop_zip)
qed simp

lemma sorted_three_way:
  assumes "sorted (map fst zs)"
  shows "zs = filter (\<lambda>z. fst z < e) zs @ filter (\<lambda>z. fst z = e) zs @ filter (\<lambda>z. e < fst z) zs"
  using assms
proof (induction zs)
  case (Cons z zs)
  consider "fst z < e" | "fst z = e" | "e < fst z" by (rule linorder_cases)
  then show ?case
  proof cases
    case 2
    then have "filter (\<lambda>z. fst z < e) zs = []"
      using Cons.prems by (auto simp: filter_empty_conv)
    with 2 Cons show ?thesis by auto
  next
    case 3
    then have "\<forall>y \<in> set zs. e < fst y"
      using Cons.prems by auto
    then have "filter (\<lambda>z. fst z < e) zs = []" "filter (\<lambda>z. fst z = e) zs = []" "filter (\<lambda>z. e < fst z) zs = zs"
      by (auto simp: filter_empty_conv filter_id_conv)
    with 3 show ?thesis by simp
  qed (use Cons in auto)
qed simp

lemma slice_of_sorted:
  fixes zs :: "(nat \<times> 'a) list"
  assumes "sorted (map fst zs)"
  shows "take (count_list (map fst zs) e) (drop (length (filter (\<lambda>z. fst z < e) zs)) zs) =
         filter (\<lambda>z. fst z = e) zs"
proof -
  have n: "count_list (map fst zs) e = length (filter (\<lambda>z. fst z = e) zs)"
    by (induction zs) auto
  show ?thesis
    by (subst (3) sorted_three_way [OF assms, of e]) (simp add: n)
qed

lemma below_Suc:
  "length (filter (\<lambda>z. fst z < Suc e) zs) =
   length (filter (\<lambda>z. fst z < e) zs) + count_list (map fst zs) e"
  by (induction zs) auto

lemma slice_items_sorted:
  fixes zs :: "(nat \<times> 'a) list"
  assumes "sorted (map fst zs)"
  shows "slice_items sel (map snd zs) e (length (filter (\<lambda>z. fst z < e) zs))
           (map (count_list (map fst zs)) [e..<e + m]) =
         concat (map (\<lambda>d. if sel (count_list (map fst zs) d) then filter (\<lambda>z. fst z = d) zs else []) [e..<e + m])"
proof (induction m arbitrary: e)
  case (Suc m)
  have "map (Pair e) (take (count_list (map fst zs) e) (drop (length (filter (\<lambda>z. fst z < e) zs)) (map snd zs)))
        = map (Pair e) (map snd (filter (\<lambda>z. fst z = e) zs))"
    using arg_cong [OF slice_of_sorted [OF assms, of e], of "map snd"]
    by (simp add: take_map drop_map)
  also have "\<dots> = filter (\<lambda>z. fst z = e) zs"
    by (simp add: o_def) (rule map_idI, auto)
  finally have row: "map (Pair e) (take (count_list (map fst zs) e) (drop (length (filter (\<lambda>z. fst z < e) zs)) (map snd zs)))
      = filter (\<lambda>z. fst z = e) zs" .
  have up: "[e..<e + Suc m] = e # [Suc e..<Suc e + m]"
    by (subst upt_rec) simp
  show ?case
    unfolding up list.map slice_items.simps concat.simps row
    by (simp only: below_Suc [symmetric] Suc.IH)
qed simp

lemma mset_concat_filter:
  assumes "distinct ds"
  shows "mset (concat (map (\<lambda>d. if P d then filter (\<lambda>z. key z = d) zs else []) ds)) =
         mset (filter (\<lambda>z. key z \<in> set ds \<and> P (key z)) zs)"
  using assms
proof (induction ds)
  case (Cons d ds)
  have "mset (filter (\<lambda>z. key z \<in> set (d # ds) \<and> P (key z)) zs) =
        mset (if P d then filter (\<lambda>z. key z = d) zs else []) +
        mset (filter (\<lambda>z. key z \<in> set ds \<and> P (key z)) zs)"
    using Cons.prems by (induction zs) auto
  with Cons show ?case by simp
qed simp

lemma mset_slice_items:
  fixes zs :: "(nat \<times> 'a) list"
  assumes "sorted (map fst zs)"
  shows "mset (slice_items sel (map snd zs) 0 0 (map (count_list (map fst zs)) [0..<n])) =
         mset (served n (\<lambda>e. sel (count_list (map fst zs) e)) zs)"
  using slice_items_sorted [OF assms, of sel 0 n]
  by (simp add: mset_concat_filter served_def)

subsection \<open>The sort keeps the routed rows\<close>

lemma routed_nth:
  assumes "length toks = length local" "length wts = length local"
  shows "routed local toks wts = map (\<lambda>i. (local ! i, toks ! i, wts ! i)) [0..<length local]"
  using assms by (intro nth_equalityI) (simp_all add: routed_def)

lemma argsort_ok_range:
  assumes "argsort_ok local order"
  shows "set order = {0..<length local}" "length order = length local"
proof -
  have m: "mset order = mset [0..<length local]"
    using assms by (simp only: argsort_ok_def)
  show "set order = {0..<length local}"
    using mset_eq_setD [OF m] by simp
  show "length order = length local"
    using mset_eq_length [OF m] by simp
qed

lemma mset_map_cong: "mset xs = mset ys \<Longrightarrow> mset (map f xs) = mset (map f ys)"
  by (simp only: mset_map)

lemma mset_sorted_rows:
  assumes "argsort_ok local order" "length toks = length local" "length wts = length local"
  shows "mset (map (\<lambda>i. (local ! i, toks ! i, wts ! i)) order) = mset (routed local toks wts)"
  unfolding routed_nth [OF assms(2,3)]
  using assms(1) by (intro mset_map_cong) (simp only: argsort_ok_def)

lemma count_list_sorted:
  assumes "argsort_ok local order"
  shows "count_list (map ((!) local) order) e = count_list local e"
proof -
  have "mset (map ((!) local) order) = mset (map ((!) local) [0..<length local])"
    using assms by (intro mset_map_cong) (simp only: argsort_ok_def)
  then show ?thesis
    by (simp only: map_nth count_mset [symmetric])
qed

text \<open>The contiguous slices of the sort are the rows of the selected experts.\<close>

lemma slice_items_served:
  assumes "argsort_ok local order" "length toks = length local" "length wts = length local"
  shows "mset (slice_items sel (zip (map ((!) toks) order) (map ((!) wts) order)) 0 0 (map (count_list local) [0..<n])) =
         mset (served n (\<lambda>e. sel (count_list local e)) (routed local toks wts))"
proof -
  let ?zs = "map (\<lambda>i. (local ! i, toks ! i, wts ! i)) order"
  have fst_zs: "map fst ?zs = map ((!) local) order" and snd_zs: "map snd ?zs = zip (map ((!) toks) order) (map ((!) wts) order)"
    by (auto simp: zip_map_map intro!: nth_equalityI)
  have "sorted (map fst ?zs)"
    using assms(1) by (simp only: fst_zs argsort_ok_def)
  from mset_slice_items [OF this, of sel n]
  have "mset (slice_items sel (zip (map ((!) toks) order) (map ((!) wts) order)) 0 0 (map (count_list local) [0..<n])) =
        mset (served n (\<lambda>e. sel (count_list local e)) ?zs)"
    by (simp only: fst_zs snd_zs ext [OF count_list_sorted [OF assms(1)]])
  also have "\<dots> = mset (served n (\<lambda>e. sel (count_list local e)) (routed local toks wts))"
    by (simp only: served_def mset_filter mset_sorted_rows [OF assms])
  finally show ?thesis .
qed

lemma slice_loop_served:
  assumes "\<And>e ts ws out. e < n \<Longrightarrow> run e ts ws out = index_add out (map (contrib ops packs xs) (map (Pair e) (zip ts ws)))"
  assumes "argsort_ok local order" "length toks = length local" "length wts = length local"
  shows "slice_loop run sel (map ((!) toks) order) (map ((!) wts) order) 0 0 (map (count_list local) [0..<n]) out =
         index_add out (map (contrib ops packs xs) (served n (\<lambda>e. sel (count_list local e)) (routed local toks wts)))"
proof -
  have "slice_loop run sel (map ((!) toks) order) (map ((!) wts) order) 0 0 (map (count_list local) [0..<n]) out =
        index_add out (map (contrib ops packs xs)
          (slice_items sel (zip (map ((!) toks) order) (map ((!) wts) order)) 0 0 (map (count_list local) [0..<n])))"
    by (rule slice_loop_items) (simp add: assms(1))
  also have "\<dots> = index_add out (map (contrib ops packs xs) (served n (\<lambda>e. sel (count_list local e)) (routed local toks wts)))"
    by (intro index_add_mset mset_map_cong slice_items_served assms(2-4))
  finally show ?thesis .
qed

lemma batched_loop_ok:
  "batched_loop (\<lambda>e ts ws out. Inr (run e ts ws out)) cap toks wts e off ns out =
   Inr (slice_loop run (\<lambda>n. \<not> n \<le> cap) toks wts e off ns out)"
  by (induction ns arbitrary: e off out) simp_all

lemma apply_exl3_batched_fat_ok:
  assumes "\<And>n. scr n = Inr ()" "uk \<longrightarrow> hg \<and> hs"
  shows "apply_exl3_batched_fat ops scr hg hs packs xs toks wts counts cap uk out =
         Inr (slice_loop (\<lambda>e. run_expert_batched ops (packs ! e) xs) (\<lambda>n. \<not> n \<le> cap) toks wts 0 0 counts out)"
proof -
  have run: "(\<lambda>e ts ws out. res_bind (scr (length ts)) (\<lambda>_.
          if uk \<and> \<not> hg then Inl RuntimeError
          else if uk \<and> \<not> hs then Inl RuntimeError
          else Inr (run_expert_batched ops (packs ! e) xs ts ws out))) =
        (\<lambda>e ts ws out. Inr (run_expert_batched ops (packs ! e) xs ts ws out))"
    using assms(2) by (auto simp: assms(1))
  show ?thesis
    unfolding apply_exl3_batched_fat_def run batched_loop_ok by (rule refl)
qed

subsection \<open>The reference loop\<close>

lemma positions_triples:
  "map (\<lambda>(t, k). (t, weights ! t ! k)) (positions ids raw) =
   map snd (filter (\<lambda>z. fst z = raw) (triples ids weights))"
  by (simp add: positions_def triples_def map_concat filter_concat filter_map o_def)

lemma zip_positions:
  "zip (map fst ps) (map (\<lambda>(t, k). weights ! t ! k) ps) = map (\<lambda>(t, k). (t, weights ! t ! k)) ps"
  by (rule nth_equalityI) (simp_all add: case_prod_beta)

lemma loop_step_items:
  "loop_step ops packs xs ids weights em only raw out =
   index_add out (map (contrib ops packs xs)
     (map (\<lambda>z. (the (loop_expert (length packs) em (fst z)), snd z))
       (if (case loop_expert (length packs) em raw of None \<Rightarrow> False | Some e \<Rightarrow> only_sel only e)
        then filter (\<lambda>z. fst z = raw) (triples ids weights) else [])))"
proof (cases "loop_expert (length packs) em raw")
  case (Some e)
  have "map (\<lambda>z. (the (loop_expert (length packs) em (fst z)), snd z)) (filter (\<lambda>z. fst z = raw) (triples ids weights))
      = map (Pair e) (map snd (filter (\<lambda>z. fst z = raw) (triples ids weights)))"
    by (simp add: Some)
  then show ?thesis
    by (simp add: loop_step_def Some only_sel_def run_expert_contrib zip_positions positions_triples
        del: map_map split: option.splits)
qed (simp add: loop_step_def)

lemma fold_loop_step:
  assumes "\<And>raw out. step raw out = index_add out (map f (map g (h raw)))"
  shows "fold step raws out = index_add out (map f (map g (concat (map h raws))))"
  by (induction raws arbitrary: out) (simp_all add: assms index_add_append)

lemma triples_fst: "z \<in> set (triples ids weights) \<Longrightarrow> fst z \<in> set (concat ids)"
  by (auto simp: triples_def) (meson nth_mem)

lemma map_topk_to_local_loop:
  assumes "ids_in_map em flat"
  shows "map_topk_to_local flat n em = map (\<lambda>i. case loop_expert n em i of None \<Rightarrow> n | Some e \<Rightarrow> e) flat"
proof (cases em)
  case (Some m)
  then show ?thesis
    using assms by (auto simp: map_topk_to_local_def loop_expert_def ids_in_map_def Let_def list_all_iff)
qed (auto simp: map_topk_to_local_def loop_expert_def)

lemma triples_from:
  assumes "length ids = length weights" "rect k ids" "rect k weights"
  shows "concat (map (\<lambda>(t, r, w). map (\<lambda>i. (r ! i, t, w ! i)) [0..<length r])
           (zip [s..<s + length ids] (zip ids weights))) =
         zip (concat ids) (zip (concat (map (replicate k) [s..<s + length ids])) (concat weights))"
  using assms
proof (induction ids weights arbitrary: s rule: list_induct2)
  case (Cons r ids w weights)
  have up: "[s..<s + length (r # ids)] = s # [Suc s..<Suc s + length ids]"
    by (subst upt_rec) simp
  have row: "map (\<lambda>i. (r ! i, s, w ! i)) [0..<k] = zip r (zip (replicate k s) w)"
    using Cons.prems by (intro nth_equalityI) (simp_all add: rect_def)
  show ?case
    unfolding up using Cons.IH [of "Suc s"] Cons.prems
    by (simp add: rect_def row)
qed simp

lemma triples_flat:
  assumes "length ids = length weights" "rect k ids" "rect k weights"
  shows "triples ids weights = zip (concat ids) (zip (flat_token (length ids) k) (concat weights))"
proof -
  have "map (\<lambda>t. map (\<lambda>k. (ids ! t ! k, t, weights ! t ! k)) [0..<length (ids ! t)]) [0..<length ids] =
        map (\<lambda>(t, r, w). map (\<lambda>i. (r ! i, t, w ! i)) [0..<length r]) (zip [0..<0 + length ids] (zip ids weights))"
    using assms(1) by (intro nth_equalityI) simp_all
  then show ?thesis
    using triples_from [OF assms, of 0] by (simp add: triples_def flat_token_def)
qed

lemma apply_exl3_python_loop_served:
  assumes "length ids = length weights" "rect k ids" "rect k weights" "ids_in_map em (concat ids)"
  shows "apply_exl3_python_loop ops packs xs ids weights em only out =
         index_add out (map (contrib ops packs xs)
           (served (length packs) (only_sel only)
             (routed (map_topk_to_local (concat ids) (length packs) em) (flat_token (length ids) k) (concat weights))))"
proof -
  let ?lx = "loop_expert (length packs) em"
  let ?P = "\<lambda>raw. case ?lx raw of None \<Rightarrow> False | Some e \<Rightarrow> only_sel only e"
  let ?g = "\<lambda>z. (the (?lx (fst z)), snd z)"
  let ?tr = "triples ids weights"
  let ?us = "sorted_list_of_set (set (concat ids))"
  have lt: "e < length packs" if "?lx raw = Some e" for raw e
    using that by (auto simp: loop_expert_def Let_def split: if_splits option.splits)
  have "mset (concat (map (\<lambda>raw. if ?P raw then filter (\<lambda>z. fst z = raw) ?tr else []) ?us)) =
        mset (filter (\<lambda>z. fst z \<in> set ?us \<and> ?P (fst z)) ?tr)"
    by (rule mset_concat_filter) simp
  also have "filter (\<lambda>z. fst z \<in> set ?us \<and> ?P (fst z)) ?tr = filter (\<lambda>z. ?P (fst z)) ?tr"
    by (rule filter_cong) (use triples_fst in auto)
  finally have "apply_exl3_python_loop ops packs xs ids weights em only out =
      index_add out (map (contrib ops packs xs) (map ?g (filter (\<lambda>z. ?P (fst z)) ?tr)))"
    unfolding apply_exl3_python_loop_def fold_loop_step [OF loop_step_items]
    by (intro index_add_mset mset_map_cong)
  also have "map ?g (filter (\<lambda>z. ?P (fst z)) ?tr) =
      served (length packs) (only_sel only) (map (\<lambda>z. (case ?lx (fst z) of None \<Rightarrow> length packs | Some e \<Rightarrow> e, snd z)) ?tr)"
    unfolding served_def filter_map
    by (intro map_cong filter_cong refl) (auto dest: lt split: option.splits)
  also have "map (\<lambda>z. (case ?lx (fst z) of None \<Rightarrow> length packs | Some e \<Rightarrow> e, snd z)) ?tr =
      routed (map_topk_to_local (concat ids) (length packs) em) (flat_token (length ids) k) (concat weights)"
    unfolding triples_flat [OF assms(1-3)] map_topk_to_local_loop [OF assms(4)] routed_def
    by (rule nth_equalityI) simp_all
  finally show ?thesis .
qed

subsection \<open>Every path adds the rows of its experts\<close>

lemma apply_exl3_sorted_fat_served:
  assumes "argsort_ok local order" "length toks = length local" "length wts = length local"
  shows "apply_exl3_sorted_fat ops packs xs (map ((!) toks) order) (map ((!) wts) order)
           (map (count_list local) [0..<n]) cap out =
         index_add out (map (contrib ops packs xs) (served n (\<lambda>e. cap < count_list local e) (routed local toks wts)))"
  using slice_loop_served [of n "\<lambda>e. run_expert ops (packs ! e) xs", OF run_expert_contrib assms, of "\<lambda>m. \<not> m \<le> cap" out]
  by (simp add: apply_exl3_sorted_fat_def not_le)

lemma apply_exl3_batched_fat_served:
  assumes "argsort_ok local order" "length toks = length local" "length wts = length local"
    and "linear_ok ops" "shared_suh packs" "\<And>n. scr n = Inr ()" "uk \<longrightarrow> hg \<and> hs"
  shows "apply_exl3_batched_fat ops scr hg hs packs xs (map ((!) toks) order) (map ((!) wts) order)
           (map (count_list local) [0..<length packs]) cap uk out =
         Inr (index_add out (map (contrib ops packs xs)
           (served (length packs) (\<lambda>e. cap < count_list local e) (routed local toks wts))))"
proof -
  have "run_expert_batched ops (packs ! e) xs ts ws out =
        index_add out (map (contrib ops packs xs) (map (Pair e) (zip ts ws)))" if "e < length packs" for e ts ws out
    using that assms(4,5) by (simp only: run_expert_batched_eq run_expert_contrib shared_suh_def list_all_length)
  from slice_loop_served [of "length packs" "\<lambda>e. run_expert_batched ops (packs ! e) xs", OF this assms(1-3),
      of "\<lambda>m. \<not> m \<le> cap" out]
  show ?thesis
    by (simp add: apply_exl3_batched_fat_ok [OF assms(6,7)] not_le)
qed

lemma served_cong:
  "(\<And>r. r \<in> set rows \<Longrightarrow> fst r < n \<Longrightarrow> P (fst r) \<longleftrightarrow> Q (fst r)) \<Longrightarrow> served n P rows = served n Q rows"
  unfolding served_def by (rule filter_cong) auto

lemma fst_routed: "r \<in> set (routed local toks wts) \<Longrightarrow> fst r \<in> set local"
  by (cases r) (auto simp: routed_def dest: set_zip_leftD)

lemma exl3_moe_served:
  assumes "argsort_ok local order" "length toks = length local" "length wts = length local" "linear_ok ops"
  shows "exl3_moe ops packs xs (expert_count n local) (map ((!) toks) order) (map ((!) wts) order) cap out =
         index_add out (map (contrib ops packs xs) (served n (\<lambda>e. count_list local e \<le> cap) (routed local toks wts)))"
proof -
  have "run_expert_fused ops (packs ! e) xs ts ws out =
        index_add out (map (contrib ops packs xs) (map (Pair e) (zip ts ws)))" for e ts ws out
    by (simp only: run_expert_fused_eq [OF assms(4)] run_expert_contrib)
  from slice_loop_served [of n "\<lambda>e. run_expert_fused ops (packs ! e) xs", OF this assms(1-3), of "\<lambda>m. m \<noteq> 0 \<and> \<not> m > cap" out]
  have "exl3_moe ops packs xs (expert_count n local) (map ((!) toks) order) (map ((!) wts) order) cap out =
        index_add out (map (contrib ops packs xs)
          (served n (\<lambda>e. count_list local e \<noteq> 0 \<and> \<not> count_list local e > cap) (routed local toks wts)))"
    by (simp add: exl3_moe_def expert_count_def)
  also have "served n (\<lambda>e. count_list local e \<noteq> 0 \<and> \<not> count_list local e > cap) (routed local toks wts) =
      served n (\<lambda>e. count_list local e \<le> cap) (routed local toks wts)"
    by (rule served_cong) (auto dest!: fst_routed simp: count_list_0_iff)
  finally show ?thesis .
qed

text \<open>Serving the thin and the fat experts is serving all of them.\<close>

lemma served_split:
  "mset (served n (\<lambda>e. \<not> P e) rows @ served n P rows) = mset (served n (\<lambda>_. True) rows)"
  by (induction rows) (auto simp: served_def)

lemma index_add_split:
  "index_add (index_add out (map f (served n (\<lambda>e. \<not> P e) rows))) (map f (served n P rows)) =
   index_add out (map f (served n (\<lambda>_. True) rows))"
  by (simp only: index_add_append flip: map_append) (intro index_add_mset mset_map_cong served_split)

lemma length_map_topk [simp]: "length (map_topk_to_local flat n em) = length flat"
  by (simp add: map_topk_to_local_def Let_def split: option.splits)

lemma length_flat_token [simp]: "length (flat_token n k) = n * k"
  by (induction n) (simp_all add: flat_token_def)

lemma length_concat_rect: "rect k m \<Longrightarrow> length (concat m) = length m * k"
  by (induction m) (simp_all add: rect_def)

lemma map_topk_le: "e \<in> set (map_topk_to_local flat n em) \<Longrightarrow> e \<le> n"
  by (auto simp: map_topk_to_local_def Let_def split: option.splits if_splits)

end
