(* ===== verification/Moe_Tables.thy ===== *)
theory Moe_Tables
  imports Moe_Route
begin

text \<open>
  The tables that drive the grouped kernels and the row tiles of \<open>overlay/exl3.py\<close>: cumulative sums,
  \<open>searchsorted\<close>, \<open>build_grouped_fat_tables\<close>, the three grouped kernels of
  \<open>overlay/exl3_fat_moe.cu\<close> on whole rows, and \<open>_exl3_moe_row_tiles\<close>. Counts and offsets are
  naturals: every subtraction that could go below zero in the source is followed by
  \<open>clamp(min=0)\<close>. The grid-stride loops of the kernels are walked in order; what they write does not
  depend on it. The theory shows that the segments cover every fat row exactly once with the expert
  the row belongs to, and that the grouped kernels and the row tiles add the same rows as the walk
  over the sorted buffer.
\<close>

subsection \<open>Cumulative sums\<close>

fun cumsum_from :: "nat \<Rightarrow> nat list \<Rightarrow> nat list" where
  "cumsum_from a [] = []"
| "cumsum_from a (x # xs) = (a + x) # cumsum_from (a + x) xs"

abbreviation cumsum :: "nat list \<Rightarrow> nat list" where
  "cumsum \<equiv> cumsum_from 0"

definition excl_cumsum :: "nat list \<Rightarrow> nat list \<times> nat list" where
  "excl_cumsum x = (let inclusive = cumsum x in (map2 (-) inclusive x, inclusive))"

text \<open>\<open>torch.searchsorted(..., right=True)\<close> on an ascending list.\<close>

definition searchsorted_right :: "nat list \<Rightarrow> nat \<Rightarrow> nat" where
  "searchsorted_right xs v = length (takeWhile (\<lambda>c. c \<le> v) xs)"

subsection \<open>Tables of the grouped kernels\<close>

record 'w fat_tables =
  seg_expert :: "nat list"
  seg_row0 :: "nat list"
  seg_rows :: "nat list"
  num_segs :: nat
  num_rows :: nat
  row_expert :: "nat list"
  row_token :: "nat list"
  row_weight :: "'w list"

definition build_grouped_fat_tables :: "nat list \<Rightarrow> nat \<Rightarrow> nat list \<Rightarrow> 'w list \<Rightarrow> nat \<Rightarrow> nat \<Rightarrow> 'w fat_tables" where
  "build_grouped_fat_tables counts cap toks wts rows_cap tile_rows =
     (let n_exp = length counts;
          fat_rows = map (\<lambda>c. if c > cap then c else 0) counts;
          (row_off, row_cum) = excl_cumsum fat_rows;
          (sorted_off, _) = excl_cumsum counts;
          tiles = map (\<lambda>f. (f + (tile_rows - 1)) div tile_rows) fat_rows;
          (tile_off, tile_cum) = excl_cumsum tiles;
          max_segs = (rows_cap + tile_rows - 1) div tile_rows + n_exp;
          e = map (\<lambda>seg. min (searchsorted_right tile_cum seg) (n_exp - 1)) [0..<max_segs];
          local_tile = map2 (\<lambda>seg e. seg - tile_off ! e) [0..<max_segs] e;
          r_row0 = map2 (\<lambda>e lt. row_off ! e + lt * tile_rows) e local_tile;
          r_rows = map2 (\<lambda>e lt. min (fat_rows ! e - lt * tile_rows) tile_rows) e local_tile;
          re = map (\<lambda>r. min (searchsorted_right row_cum r) (n_exp - 1)) [0..<rows_cap];
          src = map2 (\<lambda>r re. min (sorted_off ! re + (r - row_off ! re)) (rows_cap - 1)) [0..<rows_cap] re
      in \<lparr>seg_expert = e, seg_row0 = r_row0, seg_rows = r_rows,
          num_segs = last tile_cum, num_rows = last row_cum,
          row_expert = re, row_token = map (\<lambda>i. toks ! i) src, row_weight = map (\<lambda>i. wts ! i) src\<rparr>)"

subsection \<open>The grouped kernels\<close>

definition fat_moe_gather ::
  "('r, 's, 't, 'w) ext_ops \<Rightarrow> ('s, 't) pack list \<Rightarrow> 'r list \<Rightarrow> nat list \<Rightarrow> nat list \<Rightarrow> nat \<Rightarrow> 'r list \<Rightarrow> 'r list"
where
  "fat_moe_gather ops packs xs rtoken rexpert nrows h13 =
     fold (\<lambda>r h. h[r := op_had_in ops (xs ! (rtoken ! r)) (l_suh (p_gate (packs ! (rexpert ! r))))]) [0..<nrows] h13"

text \<open>The rows the blocks of a segment kernel work on, with the expert of their segment.\<close>

definition seg_work :: "'w fat_tables \<Rightarrow> (nat \<times> nat) list" where
  "seg_work t =
     concat (map (\<lambda>s. map (\<lambda>j. (seg_expert t ! s, seg_row0 t ! s + j)) [0..<seg_rows t ! s]) [0..<num_segs t])"

definition fat_moe_gateup ::
  "('r, 's, 't, 'w) ext_ops \<Rightarrow> ('s, 't) pack list \<Rightarrow> 'r list \<Rightarrow> 'w fat_tables \<Rightarrow> 'r list \<Rightarrow> 'r list"
where
  "fat_moe_gateup ops packs h13 t h2 =
     fold (\<lambda>(e, r) h. h[r := op_had_in ops
              (op_act ops (op_had_out ops (op_gemm ops (l_trellis (p_gate (packs ! e))) (h13 ! r)) (l_svh (p_gate (packs ! e))))
                          (op_had_out ops (op_gemm ops (l_trellis (p_up (packs ! e))) (h13 ! r)) (l_svh (p_up (packs ! e)))))
              (l_suh (p_down (packs ! e)))])
       (seg_work t) h2"

definition fat_moe_down ::
  "('r::comm_monoid_add, 's, 't, 'w) ext_ops \<Rightarrow> ('s, 't) pack list \<Rightarrow> 'r list \<Rightarrow> 'w fat_tables \<Rightarrow> 'r list \<Rightarrow> 'r list"
where
  "fat_moe_down ops packs h2 t out =
     index_add out (map (\<lambda>(e, r). (row_token t ! r,
         op_mul ops (op_had_out ops (op_gemm ops (l_trellis (p_down (packs ! e))) (h2 ! r)) (l_svh (p_down (packs ! e))))
                (row_weight t ! r))) (seg_work t))"

text \<open>
  The three launches of \<open>apply_exl3_grouped_fat\<close>, with one set of tables per tile height. \<open>h13\<close> and
  \<open>h2\<close> are the rows of the scratch, with whatever they held before.
\<close>

definition grouped_launches ::
  "('r::comm_monoid_add, 's, 't, 'w) ext_ops \<Rightarrow> ('s, 't) pack list \<Rightarrow> 'r list \<Rightarrow> nat list \<Rightarrow> nat list \<Rightarrow> 'w list \<Rightarrow>
   nat \<Rightarrow> nat \<Rightarrow> nat \<Rightarrow> 'r list \<Rightarrow> 'r list \<Rightarrow> 'r list \<Rightarrow> 'r list"
where
  "grouped_launches ops packs xs counts toks wts cap tile_gu tile_dn h13 h2 out =
     (let rows_cap = length toks;
          tg = build_grouped_fat_tables counts cap toks wts rows_cap tile_gu;
          td = (if tile_dn = tile_gu then tg else build_grouped_fat_tables counts cap toks wts rows_cap tile_dn);
          h13 = fat_moe_gather ops packs xs (row_token tg) (row_expert tg) (num_rows tg) h13;
          h2 = fat_moe_gateup ops packs h13 tg h2
      in fat_moe_down ops packs h2 td out)"

subsection \<open>Row tiles\<close>

definition tile_counts :: "nat list \<Rightarrow> nat \<Rightarrow> nat \<Rightarrow> nat list" where
  "tile_counts counts tile row0 = map (\<lambda>c. min (c - row0) tile) counts"

text \<open>The positions in the sorted buffer that one tile reads.\<close>

definition tile_src :: "nat list \<Rightarrow> nat \<Rightarrow> nat \<Rightarrow> nat list" where
  "tile_src counts tile row0 =
     (let prefix = 0 # cumsum (butlast counts);
          tc = tile_counts counts tile row0;
          cum = cumsum tc
      in map (\<lambda>idx. let expert_id = searchsorted_right cum idx;
                        local_row = idx - (cum ! expert_id - tc ! expert_id)
                    in prefix ! expert_id + row0 + local_row) [0..<sum_list tc])"

definition row_tile_step ::
  "('r::comm_monoid_add, 's, 't, 'w) ext_ops \<Rightarrow> ('s, 't) pack list \<Rightarrow> 'r list \<Rightarrow> nat list \<Rightarrow> nat list \<Rightarrow> 'w list \<Rightarrow>
   nat \<Rightarrow> nat \<Rightarrow> 'r list \<Rightarrow> 'r list"
where
  "row_tile_step ops packs xs counts toks wts tile t out =
     (let row0 = t * tile;
          tc = tile_counts counts tile row0
      in if sum_list tc = 0 then out
         else
           let src = tile_src counts tile row0
           in exl3_moe ops packs xs (tc @ [0]) (map (\<lambda>i. toks ! i) src) (map (\<lambda>i. wts ! i) src) tile out)"

definition exl3_moe_row_tiles ::
  "('r::comm_monoid_add, 's, 't, 'w) ext_ops \<Rightarrow> ('s, 't) pack list \<Rightarrow> 'r list \<Rightarrow> nat list \<Rightarrow> nat list \<Rightarrow> 'w list \<Rightarrow>
   nat \<Rightarrow> nat \<Rightarrow> 'r list \<Rightarrow> 'r list"
where
  "exl3_moe_row_tiles ops packs xs counts toks wts tile max_rows out =
     fold (row_tile_step ops packs xs counts toks wts tile) [0..<(max_rows + tile - 1) div tile] out"

subsection \<open>Offsets\<close>

lemma length_cumsum_from [simp]: "length (cumsum_from a xs) = length xs"
  by (induction xs arbitrary: a) simp_all

lemma cumsum_from_nth: "i < length xs \<Longrightarrow> cumsum_from a xs ! i = a + sum_list (take (Suc i) xs)"
  by (induction xs arbitrary: a i) (auto simp: nth_Cons split: nat.splits)

lemma cumsum_from_Nil [simp]: "cumsum_from a xs = [] \<longleftrightarrow> xs = []"
  by (cases xs) simp_all

lemma last_cumsum_from: "xs \<noteq> [] \<Longrightarrow> last (cumsum_from a xs) = a + sum_list xs"
  by (induction xs arbitrary: a) (auto simp: add.assoc)

lemma searchsorted_cumsum:
  assumes "i < length xs" "j < xs ! i"
  shows "searchsorted_right (cumsum_from a xs) (a + sum_list (take i xs) + j) = i"
  using assms
proof (induction xs arbitrary: a i)
  case (Cons x xs)
  show ?case
  proof (cases i)
    case (Suc k)
    then show ?thesis
      using Cons.IH [of k "a + x"] Cons.prems by (simp add: searchsorted_right_def add.assoc)
  qed (use Cons.prems in \<open>simp add: searchsorted_right_def\<close>)
qed simp

lemma excl_cumsum_off: "i < length xs \<Longrightarrow> fst (excl_cumsum xs) ! i = sum_list (take i xs)"
  by (simp add: excl_cumsum_def Let_def cumsum_from_nth take_Suc_conv_app_nth)

lemma snd_excl_cumsum: "snd (excl_cumsum xs) = cumsum xs"
  by (simp add: excl_cumsum_def Let_def)

lemma upt_plus: "[0..<a + b] = [0..<a] @ map (\<lambda>j. a + j) [0..<b]"
  by (rule nth_equalityI) (simp_all add: nth_append)

text \<open>The numbers below a sum, block by block.\<close>

lemma upt_blocks:
  "[0..<sum_list xs] = concat (map (\<lambda>i. map (\<lambda>j. sum_list (take i xs) + j) [0..<xs ! i]) [0..<length xs])"
proof (induction xs rule: rev_induct)
  case (snoc x xs)
  have "[0..<sum_list (xs @ [x])] = [0..<sum_list xs] @ map (\<lambda>j. sum_list xs + j) [0..<x]"
    by (simp add: upt_plus)
  also have "[0..<sum_list xs] =
      concat (map (\<lambda>i. map (\<lambda>j. sum_list (take i (xs @ [x])) + j) [0..<(xs @ [x]) ! i]) [0..<length xs])"
    unfolding snoc.IH by (intro arg_cong [of _ _ concat] map_cong refl) (simp_all add: nth_append)
  finally show ?case
    by simp
qed simp

text \<open>\<open>n\<close> rows cut into tiles.\<close>

lemma upt_tiles_cut:
  "concat (map (\<lambda>l. map (\<lambda>j. l * T + j) [0..<min (n - l * T) T]) [0..<m]) = [0..<min n (m * T)]"
proof (induction m)
  case (Suc m)
  have "min n (Suc m * T) = min n (m * T) + min (n - m * T) T"
    by (cases "n \<le> m * T") auto
  then have "[0..<min n (Suc m * T)] = [0..<min n (m * T)] @ map (\<lambda>j. min n (m * T) + j) [0..<min (n - m * T) T]"
    by (simp only: upt_plus)
  then show ?case
    using Suc by (cases "n \<le> m * T") (simp_all add: min_def)
qed simp

lemma tiles_enough:
  fixes T n :: nat
  assumes "0 < T"
  shows "n \<le> ((n + (T - 1)) div T) * T"
proof -
  have "n + (T - 1) < ((n + (T - 1)) div T) * T + T"
    using div_mult_mod_eq [of "n + (T - 1)" T] mod_less_divisor [OF assms, of "n + (T - 1)"] by linarith
  then show ?thesis
    using assms by linarith
qed

lemma upt_tiles:
  assumes "0 < T"
  shows "concat (map (\<lambda>l. map (\<lambda>j. l * T + j) [0..<min (n - l * T) T]) [0..<(n + (T - 1)) div T]) = [0..<n]"
  using tiles_enough [OF assms, of n] by (simp add: upt_tiles_cut min_absorb1)

lemma map_blocks:
  assumes "\<And>i j. i < length xs \<Longrightarrow> j < xs ! i \<Longrightarrow> f (sum_list (take i xs) + j) = g i j"
  shows "map f [0..<sum_list xs] = concat (map (\<lambda>i. map (g i) [0..<xs ! i]) [0..<length xs])"
  unfolding upt_blocks map_concat map_map o_def
  by (intro arg_cong [of _ _ concat] map_cong refl) (simp_all add: assms)

lemma concat_of_concat: "concat (concat xss) = concat (map concat xss)"
  by (induction xss) simp_all

lemma concat_map_blocks:
  assumes "\<And>i j. i < length xs \<Longrightarrow> j < xs ! i \<Longrightarrow> f (sum_list (take i xs) + j) = g i j"
  shows "concat (map f [0..<sum_list xs]) = concat (map (\<lambda>i. concat (map (g i) [0..<xs ! i])) [0..<length xs])"
  using map_blocks [of xs f g, OF assms] by (simp add: concat_of_concat o_def)

lemma sum_take_less: "i < length xs \<Longrightarrow> j < xs ! i \<Longrightarrow> sum_list (take i xs) + j < sum_list (xs :: nat list)"
proof (induction xs arbitrary: i)
  case (Cons x xs)
  then show ?case by (cases i) auto
qed simp

lemma sum_list_take_Suc_le: "i < length xs \<Longrightarrow> sum_list (take i xs) + xs ! i \<le> sum_list (xs :: nat list)"
proof (induction xs arbitrary: i)
  case (Cons x xs)
  then show ?case by (cases i) auto
qed simp

lemma slice_items_blocks:
  "slice_items sel rows e off ns =
   concat (map (\<lambda>i. if sel (ns ! i) then map (Pair (e + i)) (take (ns ! i) (drop (off + sum_list (take i ns)) rows)) else [])
     [0..<length ns])"
proof (induction ns arbitrary: e off)
  case (Cons n ns)
  have "[0..<length (n # ns)] = 0 # map Suc [0..<length ns]"
    by (simp add: map_Suc_upt upt_conv_Cons del: upt_Suc)
  then show ?case
    by (simp add: Cons.IH o_def add.assoc cong: if_cong)
qed simp

lemma take_drop_upt:
  "off + n \<le> length rows \<Longrightarrow> take n (drop off rows) = map (\<lambda>j. rows ! (off + j)) [0..<n]"
  by (rule nth_equalityI) simp_all

subsection \<open>What the tables say\<close>

definition fat_of :: "nat \<Rightarrow> nat list \<Rightarrow> nat list" where
  "fat_of cap counts = map (\<lambda>c. if c > cap then c else 0) counts"

definition tiles_of :: "nat \<Rightarrow> nat list \<Rightarrow> nat list" where
  "tiles_of T fat = map (\<lambda>f. (f + (T - 1)) div T) fat"

lemma build_grouped_fat_tables_alt:
  "build_grouped_fat_tables counts cap toks wts rows_cap tile_rows =
     (let n_exp = length counts;
          fat_rows = fat_of cap counts;
          (row_off, row_cum) = excl_cumsum fat_rows;
          (sorted_off, _) = excl_cumsum counts;
          tiles = tiles_of tile_rows fat_rows;
          (tile_off, tile_cum) = excl_cumsum tiles;
          max_segs = (rows_cap + tile_rows - 1) div tile_rows + n_exp;
          e = map (\<lambda>seg. min (searchsorted_right tile_cum seg) (n_exp - 1)) [0..<max_segs];
          local_tile = map2 (\<lambda>seg e. seg - tile_off ! e) [0..<max_segs] e;
          r_row0 = map2 (\<lambda>e lt. row_off ! e + lt * tile_rows) e local_tile;
          r_rows = map2 (\<lambda>e lt. min (fat_rows ! e - lt * tile_rows) tile_rows) e local_tile;
          re = map (\<lambda>r. min (searchsorted_right row_cum r) (n_exp - 1)) [0..<rows_cap];
          src = map2 (\<lambda>r re. min (sorted_off ! re + (r - row_off ! re)) (rows_cap - 1)) [0..<rows_cap] re
      in \<lparr>seg_expert = e, seg_row0 = r_row0, seg_rows = r_rows,
          num_segs = last tile_cum, num_rows = last row_cum,
          row_expert = re, row_token = map (\<lambda>i. toks ! i) src, row_weight = map (\<lambda>i. wts ! i) src\<rparr>)"
  unfolding build_grouped_fat_tables_def fat_of_def tiles_of_def by (rule refl)

lemmas fat_table_simps = build_grouped_fat_tables_alt Let_def split_beta snd_excl_cumsum

lemma length_fat_of [simp]: "length (fat_of cap counts) = length counts"
  and length_tiles_of [simp]: "length (tiles_of T fat) = length fat"
  by (simp_all add: fat_of_def tiles_of_def)

lemma sum_fat_le: "sum_list (fat_of cap counts) \<le> sum_list counts"
  unfolding fat_of_def by (induction counts) auto

lemma sum_tiles_le:
  assumes "0 < T"
  shows "sum_list (tiles_of T fat) \<le> sum_list fat div T + length fat"
proof (induction fat)
  case (Cons f fat)
  have "(f + (T - 1)) div T \<le> f div T + 1"
    using assms div_le_mono [of "f + (T - 1)" "f + T" T] by simp
  moreover have "f div T + sum_list fat div T \<le> (f + sum_list fat) div T"
    by (simp add: div_add1_eq [of f])
  ultimately show ?case
    using Cons by (simp add: tiles_of_def)
qed (simp add: tiles_of_def)

lemma fat_tables_rows:
  fixes toks :: "nat list" and wts :: "'w list" and T :: nat
  assumes "sum_list counts \<le> rows_cap" "e < length counts" "j < fat_of cap counts ! e"
  defines "t \<equiv> build_grouped_fat_tables counts cap toks wts rows_cap T"
  defines "r \<equiv> sum_list (take e (fat_of cap counts)) + j"
  shows "row_expert t ! r = e" "row_token t ! r = toks ! (sum_list (take e counts) + j)"
    "row_weight t ! r = wts ! (sum_list (take e counts) + j)"
proof -
  have rlt: "r < rows_cap"
    using sum_take_less [of e "fat_of cap counts" j] assms(1-3) sum_fat_le [of cap counts]
    unfolding r_def by simp
  have "j < counts ! e"
    using assms(2,3) by (simp add: fat_of_def split: if_splits)
  then have src: "sum_list (take e counts) + j < rows_cap"
    using sum_take_less [of e counts j] assms(1,2) by simp
  have "searchsorted_right (cumsum (fat_of cap counts)) r = e"
    using searchsorted_cumsum [of e "fat_of cap counts" j 0] assms(2,3) unfolding r_def by simp
  then have re: "min (searchsorted_right (cumsum (fat_of cap counts)) r) (length counts - Suc 0) = e"
    using assms(2) by simp
  show "row_expert t ! r = e"
    unfolding t_def using rlt re by (simp add: fat_table_simps)
  show "row_token t ! r = toks ! (sum_list (take e counts) + j)" "row_weight t ! r = wts ! (sum_list (take e counts) + j)"
    unfolding t_def using rlt re assms(2) src by (simp_all add: fat_table_simps excl_cumsum_off r_def)
qed

lemma fat_tables_segs:
  fixes toks :: "nat list" and wts :: "'w list" and T :: nat
  assumes "0 < T" "sum_list counts \<le> rows_cap" "e < length counts" "l < tiles_of T (fat_of cap counts) ! e"
  defines "t \<equiv> build_grouped_fat_tables counts cap toks wts rows_cap T"
  defines "s \<equiv> sum_list (take e (tiles_of T (fat_of cap counts))) + l"
  shows "seg_expert t ! s = e" "seg_row0 t ! s = sum_list (take e (fat_of cap counts)) + l * T"
    "seg_rows t ! s = min (fat_of cap counts ! e - l * T) T"
proof -
  let ?m = "(rows_cap + T - Suc 0) div T + length counts"
  have "s < sum_list (tiles_of T (fat_of cap counts))"
    using sum_take_less [of e "tiles_of T (fat_of cap counts)" l] assms(3,4) unfolding s_def by simp
  also have "\<dots> \<le> sum_list (fat_of cap counts) div T + length counts"
    using sum_tiles_le [OF assms(1), of "fat_of cap counts"] by simp
  also have "\<dots> \<le> ?m"
    using assms(1,2) sum_fat_le [of cap counts] by (intro add_mono div_le_mono) simp_all
  finally have slt: "s < ?m" .
  have "searchsorted_right (cumsum (tiles_of T (fat_of cap counts))) s = e"
    using searchsorted_cumsum [of e "tiles_of T (fat_of cap counts)" l 0] assms(3,4) unfolding s_def by simp
  then have se: "min (searchsorted_right (cumsum (tiles_of T (fat_of cap counts))) s) (length counts - Suc 0) = e"
    using assms(3) by simp
  show "seg_expert t ! s = e"
    unfolding t_def using slt se by (simp add: fat_table_simps)
  show "seg_row0 t ! s = sum_list (take e (fat_of cap counts)) + l * T"
    "seg_rows t ! s = min (fat_of cap counts ! e - l * T) T"
  proof -
    have l: "s - sum_list (take e (tiles_of T (fat_of cap counts))) = l"
      by (simp add: s_def)
    show "seg_row0 t ! s = sum_list (take e (fat_of cap counts)) + l * T"
      unfolding t_def using slt se assms(3) by (simp add: fat_table_simps excl_cumsum_off l)
    show "seg_rows t ! s = min (fat_of cap counts ! e - l * T) T"
      unfolding t_def using slt se assms(3) by (simp add: fat_table_simps excl_cumsum_off l)
  qed
qed

lemma fat_tables_nums:
  assumes "counts \<noteq> []"
  shows "num_rows (build_grouped_fat_tables counts cap toks wts rows_cap T) = sum_list (fat_of cap counts)"
    "num_segs (build_grouped_fat_tables counts cap toks wts rows_cap T) = sum_list (tiles_of T (fat_of cap counts))"
proof -
  have "fat_of cap counts \<noteq> []" "tiles_of T (fat_of cap counts) \<noteq> []"
    using assms by (simp_all add: fat_of_def tiles_of_def)
  from last_cumsum_from [OF this(1), of 0] last_cumsum_from [OF this(2), of 0]
  show "num_rows (build_grouped_fat_tables counts cap toks wts rows_cap T) = sum_list (fat_of cap counts)"
    "num_segs (build_grouped_fat_tables counts cap toks wts rows_cap T) = sum_list (tiles_of T (fat_of cap counts))"
    by (simp_all add: fat_table_simps)
qed

text \<open>The blocks of the segment kernels work on the fat rows, each once, with the row's expert.\<close>

lemma seg_work_rows:
  fixes toks :: "nat list" and wts :: "'w list" and T cap :: nat
  assumes "0 < T" "counts \<noteq> []" "sum_list counts \<le> rows_cap"
  defines "t \<equiv> build_grouped_fat_tables counts cap toks wts rows_cap T"
  shows "seg_work t = map (\<lambda>r. (row_expert t ! r, r)) [0..<num_rows t]"
proof -
  let ?fat = "fat_of cap counts"
  let ?off = "\<lambda>e. sum_list (take e ?fat)"
  have "seg_work t = concat (map (\<lambda>e. concat (map (\<lambda>l. map (\<lambda>j. (e, ?off e + l * T + j)) [0..<min (?fat ! e - l * T) T])
      [0..<tiles_of T ?fat ! e])) [0..<length (tiles_of T ?fat)])"
    unfolding seg_work_def t_def fat_tables_nums [OF assms(2)]
    by (rule concat_map_blocks) (simp add: fat_tables_segs [OF assms(1,3)])
  also have "\<dots> = concat (map (\<lambda>e. map (\<lambda>x. (e, ?off e + x)) [0..<?fat ! e]) [0..<length ?fat])"
  proof (intro arg_cong [of _ _ concat] map_cong)
    fix e assume "e \<in> set [0..<length ?fat]"
    then have "tiles_of T ?fat ! e = (?fat ! e + (T - 1)) div T"
      by (simp add: tiles_of_def)
    then show "concat (map (\<lambda>l. map (\<lambda>j. (e, ?off e + l * T + j)) [0..<min (?fat ! e - l * T) T]) [0..<tiles_of T ?fat ! e]) =
        map (\<lambda>x. (e, ?off e + x)) [0..<?fat ! e]"
      using arg_cong [OF upt_tiles [OF assms(1), of "?fat ! e"], of "map (\<lambda>x. (e, ?off e + x))"]
      by (simp add: map_concat o_def add.assoc)
  qed simp
  also have "\<dots> = map (\<lambda>r. (row_expert t ! r, r)) [0..<num_rows t]"
    unfolding t_def fat_tables_nums [OF assms(2)]
    by (rule map_blocks [symmetric]) (simp add: fat_tables_rows [OF assms(3)])
  finally show ?thesis .
qed

text \<open>The row tables list the fat slices of the sorted buffer.\<close>

lemma row_tables_items:
  fixes toks :: "nat list" and wts :: "'w list" and T cap :: nat
  assumes "counts \<noteq> []" "sum_list counts \<le> length toks" "length wts = length toks"
  defines "t \<equiv> build_grouped_fat_tables counts cap toks wts (length toks) T"
  shows "map (\<lambda>r. (row_expert t ! r, row_token t ! r, row_weight t ! r)) [0..<num_rows t] =
         slice_items (\<lambda>m. cap < m) (zip toks wts) 0 0 counts"
proof -
  let ?fat = "fat_of cap counts"
  have "map (\<lambda>r. (row_expert t ! r, row_token t ! r, row_weight t ! r)) [0..<num_rows t] =
    concat (map (\<lambda>e. map (\<lambda>j. (e, toks ! (sum_list (take e counts) + j), wts ! (sum_list (take e counts) + j))) [0..<?fat ! e]) [0..<length ?fat])"
    unfolding t_def fat_tables_nums [OF assms(1)]
    by (rule map_blocks) (simp add: fat_tables_rows [OF assms(2)])
  also have "\<dots> = slice_items (\<lambda>m. cap < m) (zip toks wts) 0 0 counts"
    unfolding slice_items_blocks
  proof (intro arg_cong [of _ _ concat] map_cong)
    fix e assume e: "e \<in> set [0..<length counts]"
    have le: "sum_list (take e counts) + counts ! e \<le> length toks"
      using e assms(2) sum_list_take_Suc_le [of e counts] by simp
    show "map (\<lambda>j. (e, toks ! (sum_list (take e counts) + j), wts ! (sum_list (take e counts) + j))) [0..<?fat ! e] =
      (if cap < counts ! e then map (Pair (0 + e)) (take (counts ! e) (drop (0 + sum_list (take e counts)) (zip toks wts))) else [])"
      using e le assms(3) by (simp add: fat_of_def take_drop_upt)
  qed simp
  finally show ?thesis .
qed

subsection \<open>The grouped launches add the fat rows\<close>

lemma length_fold_update [simp]: "length (fold (\<lambda>r h. h[r := g r]) rs b) = length b"
  by (induction rs arbitrary: b) simp_all

lemma fold_update_upt: "r < n \<Longrightarrow> n \<le> length b \<Longrightarrow> fold (\<lambda>r h. h[r := g r]) [0..<n] b ! r = g r"
  by (induction n) (auto simp: nth_list_update less_Suc_eq)

lemma fat_tables_tile_indep:
  "row_expert (build_grouped_fat_tables counts cap toks wts rows_cap T) =
   row_expert (build_grouped_fat_tables counts cap toks wts rows_cap T')"
  "row_token (build_grouped_fat_tables counts cap toks wts rows_cap T) =
   row_token (build_grouped_fat_tables counts cap toks wts rows_cap T')"
  "row_weight (build_grouped_fat_tables counts cap toks wts rows_cap T) =
   row_weight (build_grouped_fat_tables counts cap toks wts rows_cap T')"
  "num_rows (build_grouped_fat_tables counts cap toks wts rows_cap T) =
   num_rows (build_grouped_fat_tables counts cap toks wts rows_cap T')"
  by (simp_all add: fat_table_simps)

lemma grouped_launches_items:
  assumes ok: "linear_ok ops" "shared_suh packs" and tiles: "0 < tile_gu" "0 < tile_dn"
    and counts: "counts \<noteq> []" "length counts \<le> length packs" "sum_list counts \<le> length toks" "length wts = length toks"
    and scratch: "length toks \<le> length h13" "length toks \<le> length h2"
  shows "grouped_launches ops packs xs counts toks wts cap tile_gu tile_dn h13 h2 out =
         index_add out (map (contrib ops packs xs) (slice_items (\<lambda>m. cap < m) (zip toks wts) 0 0 counts))"
proof -
  let ?t = "\<lambda>T. build_grouped_fat_tables counts cap toks wts (length toks) T"
  let ?re = "\<lambda>r. row_expert (?t tile_gu) ! r" and ?rt = "\<lambda>r. row_token (?t tile_gu) ! r"
  let ?rw = "\<lambda>r. row_weight (?t tile_gu) ! r" and ?n = "num_rows (?t tile_gu)"
  let ?p = "\<lambda>r. packs ! ?re r"
  let ?g = "\<lambda>r. op_had_in ops (xs ! ?rt r) (l_suh (p_gate (?p r)))"
  let ?h13 = "fat_moe_gather ops packs xs (row_token (?t tile_gu)) (row_expert (?t tile_gu)) ?n h13"
  let ?h2 = "fat_moe_gateup ops packs ?h13 (?t tile_gu) h2"
  have n: "?n \<le> length toks"
    using fat_tables_nums(1) [OF counts(1), of cap toks wts "length toks" tile_gu] sum_fat_le [of cap counts] counts(3) by simp
  have g: "?h13 ! r = ?g r" if "r < ?n" for r
    using that n scratch(1) unfolding fat_moe_gather_def by (intro fold_update_upt) simp_all
  have work: "seg_work (?t tile_gu) = map (\<lambda>r. (?re r, r)) [0..<?n]" "seg_work (?t tile_dn) = map (\<lambda>r. (?re r, r)) [0..<?n]"
    using seg_work_rows [OF tiles(1) counts(1,3), of cap toks wts] seg_work_rows [OF tiles(2) counts(1,3), of cap toks wts]
    by (simp_all add: fat_tables_tile_indep [of counts cap toks wts "length toks" tile_dn tile_gu])
  have h2: "?h2 ! r = op_had_in ops (op_act ops (op_forward ops (p_gate (?p r)) (xs ! ?rt r)) (op_forward ops (p_up (?p r)) (xs ! ?rt r)))
      (l_suh (p_down (?p r)))" if r: "r < ?n" for r
  proof -
    have "(?re r, ?rt r, ?rw r) \<in> set (slice_items (\<lambda>m. cap < m) (zip toks wts) 0 0 counts)"
      using r by (subst row_tables_items [OF counts(1,3,4), symmetric, of cap tile_gu]) auto
    then have "?re r < length packs"
      using counts(2) by (auto simp: slice_items_blocks split: if_splits)
    then have suh: "l_suh (p_up (?p r)) = l_suh (p_gate (?p r))"
      using ok(2) by (simp add: shared_suh_def list_all_length)
    have "?h2 ! r = op_had_in ops
        (op_act ops (op_had_out ops (op_gemm ops (l_trellis (p_gate (?p r))) (?h13 ! r)) (l_svh (p_gate (?p r))))
                    (op_had_out ops (op_gemm ops (l_trellis (p_up (?p r))) (?h13 ! r)) (l_svh (p_up (?p r)))))
        (l_suh (p_down (?p r)))"
      using r n scratch(2) unfolding fat_moe_gateup_def work fold_map o_def split by (intro fold_update_upt) simp_all
    then show ?thesis
      using ok(1) by (simp add: g r suh linear_ok_def)
  qed
  have "grouped_launches ops packs xs counts toks wts cap tile_gu tile_dn h13 h2 out = fat_moe_down ops packs ?h2 (?t tile_dn) out"
    unfolding grouped_launches_def Let_def by simp
  also have "\<dots> = index_add out (map (contrib ops packs xs) (map (\<lambda>r. (?re r, ?rt r, ?rw r)) [0..<?n]))"
    unfolding fat_moe_down_def work(2) map_map o_def split fat_tables_tile_indep [of counts cap toks wts "length toks" tile_dn tile_gu]
    using ok(1) by (intro arg_cong [of _ _ "index_add out"] map_cong refl) (simp add: h2 contrib_def linear_ok_def expert_row_def Let_def)
  finally show ?thesis
    by (simp only: row_tables_items [OF counts(1,3,4)])
qed

subsection \<open>The row tiles add every row\<close>

lemma tile_src_nth:
  assumes "i < length counts" "j < tile_counts counts tile row0 ! i"
  shows "tile_src counts tile row0 ! (sum_list (take i (tile_counts counts tile row0)) + j) =
         sum_list (take i counts) + row0 + j"
proof -
  let ?tc = "tile_counts counts tile row0"
  have i: "i < length ?tc"
    using assms(1) by (simp add: tile_counts_def)
  have "searchsorted_right (cumsum ?tc) (sum_list (take i ?tc) + j) = i"
    using searchsorted_cumsum [OF i assms(2), of 0] by simp
  moreover have "cumsum ?tc ! i - ?tc ! i = sum_list (take i ?tc)"
    using i by (simp add: cumsum_from_nth take_Suc_conv_app_nth)
  moreover have "(0 # cumsum (butlast counts)) ! i = sum_list (take i counts)"
    using assms(1) by (cases i) (simp_all add: cumsum_from_nth take_butlast)
  ultimately show ?thesis
    using sum_take_less [OF i assms(2)] by (simp add: tile_src_def Let_def)
qed

lemma row_tile_step_items:
  assumes "linear_ok ops"
  shows "row_tile_step ops packs xs counts toks wts tile t out =
    index_add out (map (contrib ops packs xs) (concat (map (\<lambda>i. map (\<lambda>j. (i, toks ! (sum_list (take i counts) + t * tile + j),
        wts ! (sum_list (take i counts) + t * tile + j))) [0..<min (counts ! i - t * tile) tile]) [0..<length counts])))"
    (is "_ = index_add out (map _ ?items)")
proof -
  let ?tc = "tile_counts counts tile (t * tile)"
  let ?src = "tile_src counts tile (t * tile)"
  let ?rows = "zip (map ((!) toks) ?src) (map ((!) wts) ?src)"
  have tc: "?tc ! i = min (counts ! i - t * tile) tile" if "i < length counts" for i
    using that by (simp add: tile_counts_def)
  have len: "length ?tc = length counts" "length ?rows = sum_list ?tc"
    by (simp_all add: tile_counts_def tile_src_def Let_def)
  have "exl3_moe ops packs xs (?tc @ [0]) (map ((!) toks) ?src) (map ((!) wts) ?src) tile out =
      index_add out (map (contrib ops packs xs) (slice_items (\<lambda>n. n \<noteq> 0 \<and> \<not> n > tile) ?rows 0 0 ?tc))"
    unfolding exl3_moe_def butlast_snoc
    by (rule slice_loop_items) (simp only: run_expert_fused_eq [OF assms] run_expert_contrib)
  also have "slice_items (\<lambda>n. n \<noteq> 0 \<and> \<not> n > tile) ?rows 0 0 ?tc = ?items"
    unfolding slice_items_blocks len(1)
  proof (intro arg_cong [of _ _ concat] map_cong refl)
    fix i assume "i \<in> set [0..<length counts]"
    then have i: "i < length counts" by simp
    have "take (?tc ! i) (drop (sum_list (take i ?tc)) ?rows) = map (\<lambda>j. ?rows ! (sum_list (take i ?tc) + j)) [0..<?tc ! i]"
      using sum_list_take_Suc_le [of i ?tc] i len by (intro take_drop_upt) simp
    also have "\<dots> = map (\<lambda>j. (toks ! (sum_list (take i counts) + t * tile + j), wts ! (sum_list (take i counts) + t * tile + j))) [0..<?tc ! i]"
      using i len sum_take_less [of i ?tc] by (intro map_cong refl) (simp add: tile_src_nth)
    finally show "(if ?tc ! i \<noteq> 0 \<and> \<not> ?tc ! i > tile
        then map (Pair (0 + i)) (take (?tc ! i) (drop (0 + sum_list (take i ?tc)) ?rows)) else []) =
      map (\<lambda>j. (i, toks ! (sum_list (take i counts) + t * tile + j), wts ! (sum_list (take i counts) + t * tile + j)))
        [0..<min (counts ! i - t * tile) tile]"
      by (auto simp: tc [OF i] min_def)
  qed
  finally have launch: "exl3_moe ops packs xs (?tc @ [0]) (map ((!) toks) ?src) (map ((!) wts) ?src) tile out =
      index_add out (map (contrib ops packs xs) ?items)" .
  show ?thesis
  proof (cases "sum_list ?tc = 0")
    case True
    then have "\<forall>i < length counts. min (counts ! i - t * tile) tile = 0"
      using tc len(1) by (metis nth_mem sum_list_eq_0_iff)
    then have empty: "?items = []"
      by (auto simp: concat_eq_Nil_conv)
    show ?thesis
      unfolding empty using True by (simp add: row_tile_step_def Let_def)
  next
    case False
    then show ?thesis
      using launch by (simp only: row_tile_step_def Let_def if_False)
  qed
qed

lemma mset_concat_swap:
  "mset (concat (map (\<lambda>t. concat (map (f t) ys)) ts)) = mset (concat (map (\<lambda>i. concat (map (\<lambda>t. f t i) ts)) ys))"
proof (induction ts)
  case (Cons t ts)
  have "mset (concat (map (\<lambda>i. f t i @ concat (map (\<lambda>t. f t i) ts)) ys)) =
        mset (concat (map (f t) ys)) + mset (concat (map (\<lambda>i. concat (map (\<lambda>t. f t i) ts)) ys))"
    by (induction ys) simp_all
  with Cons show ?case by simp
qed (induction ys, simp_all)

lemma row_tiles_items:
  assumes "linear_ok ops" "0 < tile" "\<forall>c \<in> set counts. c \<le> max_rows"
    and "sum_list counts \<le> length toks" "length wts = length toks"
  shows "exl3_moe_row_tiles ops packs xs counts toks wts tile max_rows out =
         index_add out (map (contrib ops packs xs) (slice_items (\<lambda>_. True) (zip toks wts) 0 0 counts))"
proof -
  let ?m = "(max_rows + tile - 1) div tile"
  let ?row = "\<lambda>i x. (i, toks ! (sum_list (take i counts) + x), wts ! (sum_list (take i counts) + x))"
  let ?blk = "\<lambda>t i. map (\<lambda>j. ?row i (t * tile + j)) [0..<min (counts ! i - t * tile) tile]"
  have "exl3_moe_row_tiles ops packs xs counts toks wts tile max_rows out =
      index_add out (map (contrib ops packs xs) (map id (concat (map (\<lambda>t. concat (map (?blk t) [0..<length counts])) [0..<?m]))))"
    unfolding exl3_moe_row_tiles_def
    by (rule fold_loop_step) (simp add: row_tile_step_items [OF assms(1)] add.assoc)
  also have "\<dots> = index_add out (map (contrib ops packs xs) (concat (map (\<lambda>i. concat (map (\<lambda>t. ?blk t i) [0..<?m])) [0..<length counts])))"
    by (simp only: list.map_id) (intro index_add_mset mset_map_cong mset_concat_swap)
  also have "concat (map (\<lambda>i. concat (map (\<lambda>t. ?blk t i) [0..<?m])) [0..<length counts]) = slice_items (\<lambda>_. True) (zip toks wts) 0 0 counts"
    unfolding slice_items_blocks
  proof (intro arg_cong [of _ _ concat] map_cong refl)
    fix i assume "i \<in> set [0..<length counts]"
    then have i: "i < length counts" by simp
    have "counts ! i \<le> ?m * tile"
      using tiles_enough [OF assms(2), of max_rows] assms(2,3) i nth_mem [OF i] by fastforce
    then have "concat (map (\<lambda>t. map (\<lambda>j. t * tile + j) [0..<min (counts ! i - t * tile) tile]) [0..<?m]) = [0..<counts ! i]"
      by (simp add: upt_tiles_cut min_absorb1)
    then have "concat (map (\<lambda>t. ?blk t i) [0..<?m]) = map (?row i) [0..<counts ! i]"
      by (subst (asm) eq_commute) (simp add: map_concat o_def)
    also have "\<dots> = map (Pair i) (take (counts ! i) (drop (sum_list (take i counts)) (zip toks wts)))"
      using sum_list_take_Suc_le [OF i] assms(4,5) by (simp add: take_drop_upt)
    finally show "concat (map (\<lambda>t. ?blk t i) [0..<?m]) =
        (if True then map (Pair (0 + i)) (take (counts ! i) (drop (0 + sum_list (take i counts)) (zip toks wts))) else [])"
      by simp
  qed
  finally show ?thesis .
qed

subsection \<open>Properties\<close>

text \<open>(C8) The segment tables of the grouped kernels: the blocks of a segment kernel work on the fat rows, each
  exactly once and with the expert the row belongs to; the live numbers of segments and rows stay
  within the capacity the tensors were allocated with, and no segment is higher than a tile.
\<close>

theorem fat_segments_cover:
  assumes "0 < T" "counts \<noteq> []" "sum_list counts \<le> length toks"
  shows "(let t = build_grouped_fat_tables counts cap toks wts (length toks) T in
          seg_work t = map (\<lambda>r. (row_expert t ! r, r)) [0..<num_rows t] \<and>
          num_segs t \<le> length (seg_expert t) \<and> num_rows t \<le> length (row_token t) \<and>
          list_all (\<lambda>n. n \<le> T) (seg_rows t))"
proof -
  let ?t = "build_grouped_fat_tables counts cap toks wts (length toks) T"
  have "sum_list (tiles_of T (fat_of cap counts)) \<le> sum_list (fat_of cap counts) div T + length counts"
    using sum_tiles_le [OF assms(1), of "fat_of cap counts"] by simp
  also have "\<dots> \<le> (length toks + T - 1) div T + length counts"
    using assms sum_fat_le [of cap counts] by (intro add_mono div_le_mono) simp_all
  finally have "num_segs ?t \<le> length (seg_expert ?t)"
    by (simp add: fat_tables_nums [OF assms(2)]) (simp add: fat_table_simps)
  moreover have "num_rows ?t \<le> length (row_token ?t)"
    using assms(3) sum_fat_le [of cap counts] by (simp add: fat_tables_nums [OF assms(2)]) (simp add: fat_table_simps)
  moreover have "list_all (\<lambda>n. n \<le> T) (seg_rows ?t)"
    by (auto simp: fat_table_simps list_all_iff)
  ultimately show ?thesis
    using seg_work_rows [OF assms] by (simp add: Let_def)
qed

definition demo_tables :: "unit fat_tables" where
  "demo_tables = (let toks = [0, 1, 2, 3, 4, 0, 1, 2, 3, 9] in build_grouped_fat_tables [5, 1, 4] 2 toks [] (length toks) 2)"

theorem fat_segments_cover_witness:
  "seg_work demo_tables = [(0, 0), (0, 1), (0, 2), (0, 3), (0, 4), (2, 5), (2, 6), (2, 7), (2, 8)] \<and>
   num_segs demo_tables \<le> length (seg_expert demo_tables)"
proof -
  have "seg_work demo_tables = map (\<lambda>r. (row_expert demo_tables ! r, r)) [0..<num_rows demo_tables] \<and>
      num_segs demo_tables \<le> length (seg_expert demo_tables)"
    using fat_segments_cover [of 2 "[5, 1, 4]" "[0, 1, 2, 3, 4, 0, 1, 2, 3, 9]" 2 "[] :: unit list"]
    unfolding demo_tables_def Let_def by simp
  moreover have "map (\<lambda>r. (row_expert demo_tables ! r, r)) [0..<num_rows demo_tables] =
      [(0, 0), (0, 1), (0, 2), (0, 3), (0, 4), (2, 5), (2, 6), (2, 7), (2, 8)]"
    by code_simp
  ultimately show ?thesis by simp
qed

end
