(* ===== verification/Moe_Ticket.thy ===== *)
theory Moe_Ticket
  imports Moe_Tables
begin

text \<open>
  The expert scheduler of the fused kernel (\<open>overlay/exl3-ticket/patched/exl3_moe_kernel.cuh\<close>).
  \<open>num_groups\<close> groups of thread blocks scan the experts on their own and number the active ones; a
  group works on the active expert whose number is its ticket and then draws a new ticket from a
  counter shared by all groups. The first tickets are the group indices. The last group to retire
  resets the counters for the next launch. One step of the model is one iteration of a group's
  scan, one draw (an atomic addition followed by the barrier of the group) or one retirement;
  steps of different groups interleave in any order. The theory shows that whatever the order,
  every active expert is worked on exactly once, that the counters are back at zero at the end, and
  that the sum the launch leaves in the output is the one of \<open>exl3_moe\<close>, which walks the experts in
  order. That a launch of real thread blocks, with the barriers between them, reaches such an end is
  the subject of \<open>Moe_Blocks\<close>.
\<close>

subsection \<open>State\<close>

datatype phase = Scan | Draw | Retired

record group_st =
  expert_idx :: nat
  expert_idx_assign :: nat
  ticket :: nat
  g_phase :: phase

record sched_st =
  next_ticket :: nat
  retired_groups :: nat
  groups :: "group_st list"
  worked :: "nat list"

text \<open>Experts the kernel does not skip: some rows, and no more than the temporaries hold.\<close>

definition active :: "nat \<Rightarrow> nat \<Rightarrow> bool" where
  "active cap n \<longleftrightarrow> n \<noteq> 0 \<and> \<not> n > cap"

definition launch_groups :: "nat \<Rightarrow> group_st list" where
  "launch_groups G = map (\<lambda>g. \<lparr>expert_idx = 0, expert_idx_assign = 0, ticket = g, g_phase = Scan\<rparr>) [0..<G]"

text \<open>A launch on the counters the previous launch left.\<close>

definition launch_st :: "nat \<Rightarrow> nat \<Rightarrow> nat \<Rightarrow> sched_st" where
  "launch_st next0 retired0 G =
     \<lparr>next_ticket = next0, retired_groups = retired0, groups = launch_groups G, worked = []\<rparr>"

text \<open>One step of group \<open>g\<close>; \<open>None\<close> when the group has retired.\<close>

definition group_step :: "nat list \<Rightarrow> nat \<Rightarrow> nat \<Rightarrow> sched_st \<Rightarrow> sched_st option" where
  "group_step counts cap g s =
     (let G = length (groups s); gr = groups s ! g; i = expert_idx gr in
      case g_phase gr of
        Scan \<Rightarrow>
          if i < length counts then
            if \<not> active cap (counts ! i) then
              Some (s\<lparr>groups := (groups s)[g := gr\<lparr>expert_idx := Suc i\<rparr>]\<rparr>)
            else if expert_idx_assign gr \<noteq> ticket gr then
              Some (s\<lparr>groups := (groups s)[g := gr\<lparr>expert_idx := Suc i, expert_idx_assign := Suc (expert_idx_assign gr)\<rparr>]\<rparr>)
            else
              Some (s\<lparr>groups := (groups s)[g := gr\<lparr>expert_idx_assign := Suc (expert_idx_assign gr), g_phase := Draw\<rparr>],
                      worked := worked s @ [i]\<rparr>)
          else
            (let gs = (groups s)[g := gr\<lparr>g_phase := Retired\<rparr>] in
             if retired_groups s = G - 1
             then Some (s\<lparr>groups := gs, next_ticket := 0, retired_groups := 0\<rparr>)
             else Some (s\<lparr>groups := gs, retired_groups := Suc (retired_groups s)\<rparr>))
      | Draw \<Rightarrow>
          Some (s\<lparr>groups := (groups s)[g := gr\<lparr>expert_idx := Suc i, ticket := G + next_ticket s, g_phase := Scan\<rparr>],
                  next_ticket := Suc (next_ticket s)\<rparr>)
      | Retired \<Rightarrow> None)"

inductive ticket_step :: "nat list \<Rightarrow> nat \<Rightarrow> sched_st \<Rightarrow> sched_st \<Rightarrow> bool" for counts cap where
  group: "g < length (groups s) \<Longrightarrow> group_step counts cap g s = Some s' \<Longrightarrow> ticket_step counts cap s s'"

inductive_cases ticket_stepE: "ticket_step counts cap s s'"

definition all_retired :: "sched_st \<Rightarrow> bool" where
  "all_retired s = list_all (\<lambda>gr. g_phase gr = Retired) (groups s)"

text \<open>A fixed order of the groups, to run the scheduler on examples.\<close>

fun run_schedule :: "nat list \<Rightarrow> nat \<Rightarrow> nat list \<Rightarrow> sched_st \<Rightarrow> sched_st" where
  "run_schedule counts cap [] s = s"
| "run_schedule counts cap (g # gs) s =
     run_schedule counts cap gs (case group_step counts cap g s of None \<Rightarrow> s | Some s' \<Rightarrow> s')"

text \<open>
  What a launch adds when its groups work on the experts \<open>es\<close>: each on its slice of the sorted
  rows. Additions of different groups interleave row by row, but sums do not depend on the order.
\<close>

definition expert_slice :: "nat list \<Rightarrow> 'a list \<Rightarrow> nat \<Rightarrow> 'a list" where
  "expert_slice counts xs e = take (counts ! e) (drop (sum_list (take e counts)) xs)"

definition work_experts ::
  "('r::comm_monoid_add, 's, 't, 'w) ext_ops \<Rightarrow> ('s, 't) pack list \<Rightarrow> 'r list \<Rightarrow> nat list \<Rightarrow> nat list \<Rightarrow> 'w list \<Rightarrow>
   nat list \<Rightarrow> 'r list \<Rightarrow> 'r list"
where
  "work_experts ops packs xs counts toks wts es out =
     fold (\<lambda>e. run_expert_fused ops (packs ! e) xs (expert_slice counts toks e) (expert_slice counts wts e)) es out"

subsection \<open>The numbering of the active experts\<close>

definition rank :: "nat list \<Rightarrow> nat \<Rightarrow> nat \<Rightarrow> nat" where
  "rank counts cap i = length (filter (active cap) (take i counts))"

definition active_experts :: "nat list \<Rightarrow> nat \<Rightarrow> nat list" where
  "active_experts counts cap = filter (\<lambda>e. active cap (counts ! e)) [0..<length counts]"

lemma rank_0 [simp]: "rank counts cap 0 = 0"
  by (simp add: rank_def)

lemma rank_Suc:
  "i < length counts \<Longrightarrow> rank counts cap (Suc i) = rank counts cap i + (if active cap (counts ! i) then 1 else 0)"
  by (simp add: rank_def take_Suc_conv_app_nth)

lemma rank_mono: "i \<le> j \<Longrightarrow> rank counts cap i \<le> rank counts cap j"
proof -
  assume "i \<le> j"
  then have "take j counts = take i counts @ take (j - i) (drop i counts)"
    by (metis le_add_diff_inverse take_add)
  then show ?thesis
    by (simp add: rank_def)
qed

lemma rank_less:
  assumes "i < j" "i < length counts" "active cap (counts ! i)"
  shows "rank counts cap i < rank counts cap j"
  using rank_mono [of "Suc i" j counts cap] assms by (simp add: rank_Suc)

lemma rank_inj:
  assumes "i < length counts" "active cap (counts ! i)" "j < length counts" "active cap (counts ! j)"
    "rank counts cap i = rank counts cap j"
  shows "i = j"
  using rank_less [of i j counts cap] rank_less [of j i counts cap] assms by (metis less_irrefl linorder_neqE_nat)

subsection \<open>Invariant\<close>

definition held :: "group_st list \<Rightarrow> nat multiset" where
  "held gs = mset (map ticket (filter (\<lambda>gr. g_phase gr \<noteq> Draw) gs))"

definition n_retired :: "group_st list \<Rightarrow> nat" where
  "n_retired gs = length (filter (\<lambda>gr. g_phase gr = Retired) gs)"

definition group_ok :: "nat list \<Rightarrow> nat \<Rightarrow> nat \<Rightarrow> group_st \<Rightarrow> bool" where
  "group_ok counts cap hi gr =
     (case g_phase gr of
        Scan \<Rightarrow> expert_idx gr \<le> length counts \<and> expert_idx_assign gr = rank counts cap (expert_idx gr) \<and>
                expert_idx_assign gr \<le> ticket gr
      | Draw \<Rightarrow> expert_idx gr < length counts \<and> expert_idx_assign gr = rank counts cap (Suc (expert_idx gr)) \<and>
                expert_idx_assign gr \<le> hi
      | Retired \<Rightarrow> rank counts cap (length counts) \<le> ticket gr)"

text \<open>\<open>hi\<close> is the next number to be drawn: every smaller one is held by a group or was worked on.\<close>

definition tickets_ok :: "nat list \<Rightarrow> nat \<Rightarrow> nat \<Rightarrow> sched_st \<Rightarrow> bool" where
  "tickets_ok counts cap hi s \<longleftrightarrow>
     list_all (group_ok counts cap hi) (groups s) \<and>
     list_all (\<lambda>e. e < length counts \<and> active cap (counts ! e)) (worked s) \<and>
     mset (map (rank counts cap) (worked s)) + held (groups s) = mset [0..<hi]"

definition sched_inv :: "nat list \<Rightarrow> nat \<Rightarrow> nat \<Rightarrow> sched_st \<Rightarrow> bool" where
  "sched_inv counts cap G s \<longleftrightarrow>
     length (groups s) = G \<and>
     (\<exists>hi. tickets_ok counts cap hi s \<and>
        (if all_retired s then next_ticket s = 0 \<and> retired_groups s = 0
         else hi = G + next_ticket s \<and> retired_groups s = n_retired (groups s)))"

lemma update_parts:
  assumes "g < length gs"
  obtains xs ys where "gs = xs @ gs ! g # ys" "\<And>gr. gs[g := gr] = xs @ gr # ys"
  using that [of "take g gs" "drop (Suc g) gs"] id_take_nth_drop [OF assms] upd_conv_take_nth_drop [OF assms] by blast

lemma held_part: "held (xs @ gr # ys) = held (xs @ ys) + (if g_phase gr = Draw then {#} else {#ticket gr#})"
  by (simp add: held_def)

lemma n_retired_part: "n_retired (xs @ gr # ys) = n_retired (xs @ ys) + (if g_phase gr = Retired then 1 else 0)"
  by (simp add: n_retired_def)

lemma held_update:
  assumes "g < length gs"
  shows "held (gs[g := gr]) + (if g_phase (gs ! g) = Draw then {#} else {#ticket (gs ! g)#}) =
         held gs + (if g_phase gr = Draw then {#} else {#ticket gr#})"
proof -
  obtain xs ys where gs: "gs = xs @ gs ! g # ys" "gs[g := gr] = xs @ gr # ys"
    using update_parts [OF assms] by metis
  have "held gs = held (xs @ ys) + (if g_phase (gs ! g) = Draw then {#} else {#ticket (gs ! g)#})"
    by (subst gs(1)) (rule held_part)
  then show ?thesis
    by (simp add: gs(2) held_part)
qed

lemma n_retired_update:
  assumes "g < length gs"
  shows "n_retired (gs[g := gr]) + (if g_phase (gs ! g) = Retired then 1 else 0) =
         n_retired gs + (if g_phase gr = Retired then 1 else 0)"
proof -
  obtain xs ys where gs: "gs = xs @ gs ! g # ys" "gs[g := gr] = xs @ gr # ys"
    using update_parts [OF assms] by metis
  have "n_retired gs = n_retired (xs @ ys) + (if g_phase (gs ! g) = Retired then 1 else 0)"
    by (subst gs(1)) (rule n_retired_part)
  then show ?thesis
    by (simp add: gs(2) n_retired_part)
qed

lemma length_filter_all: "length (filter P xs) = length xs \<longleftrightarrow> list_all P xs"
proof (induction xs)
  case (Cons x xs)
  then show ?case
    using length_filter_le [of P xs] by (auto simp del: length_filter_le)
qed simp

lemma all_retired_iff: "all_retired s \<longleftrightarrow> n_retired (groups s) = length (groups s)"
  by (simp add: all_retired_def n_retired_def length_filter_all)

lemma n_retired_le: "n_retired gs \<le> length gs"
  by (simp add: n_retired_def)

lemma group_ok_mono: "group_ok counts cap hi gr \<Longrightarrow> hi \<le> hi' \<Longrightarrow> group_ok counts cap hi' gr"
  by (auto simp: group_ok_def split: phase.splits)

abbreviation holds :: "group_st \<Rightarrow> nat multiset" where
  "holds gr \<equiv> (if g_phase gr = Draw then {#} else {#ticket gr#})"

lemma held_below:
  assumes "tickets_ok counts cap hi s" "g < length (groups s)" "g_phase (groups s ! g) \<noteq> Draw"
  shows "ticket (groups s ! g) < hi"
proof -
  have "ticket (groups s ! g) \<in># held (groups s)"
    using assms(2,3) nth_mem by (fastforce simp: held_def)
  then have "ticket (groups s ! g) \<in># mset [0..<hi]"
    using assms(1) by (metis tickets_ok_def union_iff)
  then show ?thesis
    by simp
qed

lemma tickets_ok_update:
  assumes ok: "tickets_ok counts cap hi s" and g: "g < length (groups s)" and hi: "hi \<le> hi'"
    and gr: "group_ok counts cap hi' gr"
    and ws: "list_all (\<lambda>e. e < length counts \<and> active cap (counts ! e)) ws"
    and bal: "mset (map (rank counts cap) ws) + holds gr + mset [0..<hi] = mset [0..<hi'] + holds (groups s ! g)"
    and s': "groups s' = (groups s)[g := gr]" "worked s' = worked s @ ws"
  shows "tickets_ok counts cap hi' s'"
proof -
  let ?W = "mset (map (rank counts cap) (worked s))" and ?R = "mset (map (rank counts cap) ws)"
  have "list_all (group_ok counts cap hi') (groups s')"
    using ok hi gr unfolding s' tickets_ok_def list_all_iff
    by (auto dest!: set_update_subset_insert [THEN subsetD] intro: group_ok_mono)
  moreover have "?W + ?R + held (groups s') = mset [0..<hi']"
  proof -
    have "?W + ?R + held (groups s') + holds (groups s ! g) = ?R + holds gr + (?W + held (groups s))"
      using held_update [OF g, of gr] by (simp add: s' ac_simps)
    also have "\<dots> = mset [0..<hi'] + holds (groups s ! g)"
      using ok bal by (simp only: tickets_ok_def)
    finally show ?thesis
      by (simp only: add_right_cancel)
  qed
  ultimately show ?thesis
    using ok ws by (simp add: tickets_ok_def s')
qed

subsection \<open>Every step keeps the invariant\<close>

lemma sched_inv_launch:
  assumes "0 < G"
  shows "sched_inv counts cap G (launch_st 0 0 G)"
proof -
  have "held (launch_groups G) = mset [0..<G]"
    unfolding held_def launch_groups_def by (simp add: filter_map o_def)
  moreover have "n_retired (launch_groups G) = 0"
    by (simp add: n_retired_def launch_groups_def filter_empty_conv)
  moreover have "list_all (group_ok counts cap G) (launch_groups G)"
    by (simp add: launch_groups_def list_all_iff group_ok_def)
  ultimately show ?thesis
    using assms unfolding sched_inv_def
    by (intro conjI exI [of _ G]) (simp_all add: tickets_ok_def launch_st_def all_retired_iff launch_groups_def)
qed

text \<open>What the invariant gives while group \<open>g\<close> has not retired.\<close>

lemma sched_inv_live:
  assumes "sched_inv counts cap G s" "g < G" "g_phase (groups s ! g) \<noteq> Retired"
  shows "length (groups s) = G" "tickets_ok counts cap (G + next_ticket s) s"
    "retired_groups s = n_retired (groups s)" "group_ok counts cap (G + next_ticket s) (groups s ! g)"
proof -
  show len: "length (groups s) = G"
    using assms(1) by (simp add: sched_inv_def)
  have "\<not> all_retired s"
    using assms(2,3) len by (auto simp: all_retired_def list_all_length)
  then show ok: "tickets_ok counts cap (G + next_ticket s) s" and "retired_groups s = n_retired (groups s)"
    using assms(1) by (auto simp: sched_inv_def)
  show "group_ok counts cap (G + next_ticket s) (groups s ! g)"
    using ok assms(2) len by (simp add: tickets_ok_def list_all_length)
qed

lemma sched_inv_move:
  assumes inv: "sched_inv counts cap G s" and g: "g < G" and live: "g_phase (groups s ! g) \<noteq> Retired"
    and gr: "group_ok counts cap (G + next_ticket s') gr" "g_phase gr \<noteq> Retired"
    and ws: "list_all (\<lambda>e. e < length counts \<and> active cap (counts ! e)) ws"
    and bal: "mset (map (rank counts cap) ws) + holds gr + mset [0..<G + next_ticket s] =
              mset [0..<G + next_ticket s'] + holds (groups s ! g)"
    and s': "groups s' = (groups s)[g := gr]" "worked s' = worked s @ ws"
      "next_ticket s \<le> next_ticket s'" "retired_groups s' = retired_groups s"
  shows "sched_inv counts cap G s'"
proof -
  note L = sched_inv_live [OF inv g live]
  have "tickets_ok counts cap (G + next_ticket s') s'"
    using L(1) g s'(3) by (intro tickets_ok_update [OF L(2) _ _ gr(1) ws bal s'(1,2)]) simp_all
  moreover have "n_retired (groups s') = n_retired (groups s)"
    using n_retired_update [of g "groups s" gr] L(1) g live gr(2) s'(1) by simp
  moreover have "n_retired (groups s) \<noteq> length (groups s)"
    using g live L(1) all_retired_iff [of s] by (auto simp: all_retired_def list_all_length)
  ultimately show ?thesis
    using L(1,3) s'(1,4) by (auto simp: sched_inv_def all_retired_iff)
qed

lemma sched_inv_retire:
  assumes inv: "sched_inv counts cap G s" and g: "g < G" and scan: "g_phase (groups s ! g) = Scan"
    and i: "\<not> expert_idx (groups s ! g) < length counts"
    and s': "groups s' = (groups s)[g := (groups s ! g)\<lparr>g_phase := Retired\<rparr>]" "worked s' = worked s"
    and counters: "retired_groups s = G - 1 \<Longrightarrow> next_ticket s' = 0 \<and> retired_groups s' = 0"
      "retired_groups s \<noteq> G - 1 \<Longrightarrow> next_ticket s' = next_ticket s \<and> retired_groups s' = Suc (retired_groups s)"
  shows "sched_inv counts cap G s'"
proof -
  have live: "g_phase (groups s ! g) \<noteq> Retired"
    using scan by simp
  note L = sched_inv_live [OF inv g live]
  have "group_ok counts cap (G + next_ticket s) ((groups s ! g)\<lparr>g_phase := Retired\<rparr>)"
    using L(4) scan i by (auto simp: group_ok_def le_antisym not_less)
  then have "tickets_ok counts cap (G + next_ticket s) s'"
    using L(1) g scan s' by (intro tickets_ok_update [OF L(2), of g _ _ "[]"]) simp_all
  moreover have "n_retired (groups s') = Suc (n_retired (groups s))"
    using n_retired_update [of g "groups s" "(groups s ! g)\<lparr>g_phase := Retired\<rparr>"] L(1) g scan s'(1) by simp
  ultimately show ?thesis
    using L(1,3) s'(1) counters g by (cases "Suc (n_retired (groups s)) = G") (auto simp: sched_inv_def all_retired_iff)
qed

lemma group_step_inv:
  assumes inv: "sched_inv counts cap G s" and g: "g < G" and step: "group_step counts cap g s = Some s'"
  shows "sched_inv counts cap G s'"
proof (cases "g_phase (groups s ! g)")
  case Draw
  then have live: "g_phase (groups s ! g) \<noteq> Retired" by simp
  note L = sched_inv_live [OF inv g live]
  let ?new = "(groups s ! g)\<lparr>expert_idx := Suc (expert_idx (groups s ! g)), ticket := G + next_ticket s, g_phase := Scan\<rparr>"
  have s': "s' = s\<lparr>groups := (groups s)[g := ?new], next_ticket := Suc (next_ticket s)\<rparr>"
    using step Draw L(1) by (simp add: group_step_def Let_def)
  show ?thesis
    using L(4) Draw by (intro sched_inv_move [OF inv g live, of _ ?new "[]"]) (simp_all add: s' group_ok_def)
next
  case Scan
  then have live: "g_phase (groups s ! g) \<noteq> Retired" by simp
  note L = sched_inv_live [OF inv g live]
  let ?gr = "groups s ! g"
  let ?i = "expert_idx ?gr"
  consider (skip) "?i < length counts" "\<not> active cap (counts ! ?i)"
    | (other) "?i < length counts" "active cap (counts ! ?i)" "expert_idx_assign ?gr \<noteq> ticket ?gr"
    | (claim) "?i < length counts" "active cap (counts ! ?i)" "expert_idx_assign ?gr = ticket ?gr"
    | (ends) "\<not> ?i < length counts" by blast
  then show ?thesis
  proof cases
    case skip
    then have "s' = s\<lparr>groups := (groups s)[g := ?gr\<lparr>expert_idx := Suc ?i\<rparr>]\<rparr>"
      using step Scan by (simp add: group_step_def Let_def)
    then show ?thesis
      using L(4) Scan skip
      by (intro sched_inv_move [OF inv g live, of _ "?gr\<lparr>expert_idx := Suc ?i\<rparr>" "[]"]) (simp_all add: group_ok_def rank_Suc)
  next
    case other
    let ?new = "?gr\<lparr>expert_idx := Suc ?i, expert_idx_assign := Suc (expert_idx_assign ?gr)\<rparr>"
    have "s' = s\<lparr>groups := (groups s)[g := ?new]\<rparr>"
      using step Scan other by (simp add: group_step_def Let_def)
    then show ?thesis
      using L(4) Scan other by (intro sched_inv_move [OF inv g live, of _ ?new "[]"]) (simp_all add: group_ok_def rank_Suc)
  next
    case claim
    let ?new = "?gr\<lparr>expert_idx_assign := Suc (expert_idx_assign ?gr), g_phase := Draw\<rparr>"
    have "s' = s\<lparr>groups := (groups s)[g := ?new], worked := worked s @ [?i]\<rparr>"
      using step Scan claim by (simp add: group_step_def Let_def)
    then show ?thesis
      using L(4) Scan claim held_below [OF L(2), of g] L(1) g
      by (intro sched_inv_move [OF inv g live, of _ ?new "[?i]"]) (simp_all add: group_ok_def rank_Suc)
  next
    case ends
    then show ?thesis
      using step Scan L(1) by (intro sched_inv_retire [OF inv g Scan ends]) (auto simp: group_step_def Let_def split: if_splits)
  qed
qed (use step in \<open>simp add: group_step_def Let_def\<close>)

lemma ticket_step_inv: "ticket_step counts cap s s' \<Longrightarrow> sched_inv counts cap G s \<Longrightarrow> sched_inv counts cap G s'"
  by (erule ticket_stepE, rule group_step_inv) (auto simp: sched_inv_def)

lemma reachable_sched_inv:
  assumes "0 < G" "(ticket_step counts cap)\<^sup>*\<^sup>* (launch_st 0 0 G) s"
  shows "sched_inv counts cap G s"
  using assms(2) by induction (use assms(1) in \<open>auto intro: sched_inv_launch ticket_step_inv\<close>)

subsection \<open>Progress\<close>

lemma group_step_live: "g_phase (groups s ! g) \<noteq> Retired \<Longrightarrow> \<exists>s'. group_step counts cap g s = Some s'"
  by (cases "g_phase (groups s ! g)") (auto simp: group_step_def Let_def)

lemma ticket_progress: "\<not> all_retired s \<Longrightarrow> \<exists>s'. ticket_step counts cap s s'"
  by (auto simp: all_retired_def list_all_length) (metis group_step_live ticket_step.group)

lemma retired_final: "all_retired s \<Longrightarrow> \<not> ticket_step counts cap s s'"
  by (auto elim!: ticket_stepE simp: all_retired_def list_all_length group_step_def Let_def)

lemma sum_weight_update:
  assumes "g < length gs" "w gr < w (gs ! g)"
  shows "sum_list (map w (gs[g := gr])) < sum_list (map w gs :: nat list)"
proof -
  obtain xs ys where gs: "gs = xs @ gs ! g # ys" "gs[g := gr] = xs @ gr # ys"
    using update_parts [OF assms(1)] by metis
  have "sum_list (map w gs) = sum_list (map w xs) + w (gs ! g) + sum_list (map w ys)"
    by (subst gs(1)) simp
  then show ?thesis
    using assms(2) by (simp add: gs(2))
qed

subsection \<open>Every active expert, once\<close>

lemma distinct_of_mset:
  assumes "distinct zs" "mset xs + M = mset zs"
  shows "distinct xs"
proof -
  obtain ys where "mset ys = M"
    using ex_mset by blast
  then have "mset (xs @ ys) = mset zs"
    using assms(2) by simp
  then have "distinct (xs @ ys)"
    using assms(1) mset_eq_imp_distinct_iff by blast
  then show ?thesis
    by simp
qed

lemma worked_exact:
  assumes inv: "sched_inv counts cap G s" and G: "0 < G" and ret: "all_retired s"
  shows "mset (worked s) = mset (active_experts counts cap)"
proof -
  let ?r = "rank counts cap" and ?n = "length counts"
  obtain hi where ok: "tickets_ok counts cap hi s" and len: "length (groups s) = G"
    using inv by (auto simp: sched_inv_def)
  have bal: "mset (map ?r (worked s)) + held (groups s) = mset [0..<hi]"
    and act: "\<And>e. e \<in> set (worked s) \<Longrightarrow> e < ?n \<and> active cap (counts ! e)"
    using ok by (auto simp: tickets_ok_def list_all_iff)
  have big: "?r ?n \<le> t" if "t \<in># held (groups s)" for t
    using that ret ok by (auto simp: held_def all_retired_def tickets_ok_def list_all_iff group_ok_def)
  have "g_phase (groups s ! 0) \<noteq> Draw"
    using ret G len by (simp add: all_retired_def list_all_length)
  then have "ticket (groups s ! 0) \<in># held (groups s)"
    using G len nth_mem [of 0 "groups s"] by (auto simp: held_def)
  then have hi: "?r ?n < hi"
    using big [of "ticket (groups s ! 0)"] held_below [OF ok, of 0] G len \<open>g_phase (groups s ! 0) \<noteq> Draw\<close> by simp
  have dist: "distinct (worked s)"
    using distinct_of_mset [OF _ bal] by (simp add: distinct_map)
  have "set (worked s) = set (active_experts counts cap)"
  proof (intro set_eqI iffI)
    fix e assume e: "e \<in> set (active_experts counts cap)"
    then have el: "e < ?n" "active cap (counts ! e)"
      by (auto simp: active_experts_def)
    then have lt: "?r e < ?r ?n"
      by (intro rank_less)
    then have "?r e \<in># mset [0..<hi]"
      using hi by simp
    then have "?r e \<in># mset (map ?r (worked s))"
      using lt big [of "?r e"] unfolding bal [symmetric] by auto
    then show "e \<in> set (worked s)"
      using act el rank_inj [of e counts cap] by auto
  qed (use act in \<open>auto simp: active_experts_def\<close>)
  then show ?thesis
    using dist by (intro set_eq_iff_mset_eq_distinct [THEN iffD1]) (auto simp: active_experts_def)
qed

subsection \<open>The sum of a launch\<close>

lemma mset_concat_map_cong: "mset es = mset es' \<Longrightarrow> mset (concat (map f es)) = mset (concat (map f es'))"
  by (simp add: mset_concat o_def) (metis mset_map sum_mset_sum_list)

lemma work_experts_items:
  assumes "linear_ok ops"
  shows "work_experts ops packs xs counts toks wts es out =
         index_add out (map (contrib ops packs xs) (concat (map (\<lambda>e. map (Pair e) (expert_slice counts (zip toks wts) e)) es)))"
proof -
  have "work_experts ops packs xs counts toks wts es out =
      index_add out (map (contrib ops packs xs) (map id (concat (map (\<lambda>e. map (Pair e) (expert_slice counts (zip toks wts) e)) es))))"
    unfolding work_experts_def
    by (rule fold_loop_step) (simp only: run_expert_fused_eq [OF assms] run_expert_contrib expert_slice_def take_zip drop_zip list.map_id)
  then show ?thesis
    by simp
qed

lemma concat_map_filter: "concat (map (\<lambda>x. if P x then f x else []) xs) = concat (map f (filter P xs))"
  by (induction xs) simp_all

lemma work_active_exl3_moe:
  assumes "linear_ok ops" "mset es = mset (active_experts counts cap)"
  shows "work_experts ops packs xs counts toks wts es out = exl3_moe ops packs xs (counts @ [n]) toks wts cap out"
proof -
  have "exl3_moe ops packs xs (counts @ [n]) toks wts cap out =
      index_add out (map (contrib ops packs xs) (slice_items (active cap) (zip toks wts) 0 0 counts))"
    unfolding exl3_moe_def butlast_snoc active_def [of cap, abs_def]
    by (rule slice_loop_items) (simp only: run_expert_fused_eq [OF assms(1)] run_expert_contrib)
  also have "slice_items (active cap) (zip toks wts) 0 0 counts =
      concat (map (\<lambda>e. map (Pair e) (expert_slice counts (zip toks wts) e)) (active_experts counts cap))"
    by (simp add: slice_items_blocks expert_slice_def active_experts_def concat_map_filter)
  finally show ?thesis
    unfolding work_experts_items [OF assms(1)] using assms(2)
    by (simp only:) (intro index_add_mset mset_map_cong mset_concat_map_cong)
qed

subsection \<open>Properties\<close>

text \<open>(C2) Whatever the order in which the groups of a fused launch take their steps, when no group can take
  another one every active expert has been worked on exactly once, the counters of the scheduler
  are back at zero for the next launch, and the sum in the output is the one of the walk over the
  experts in order.
\<close>

theorem ticket_launch_exact:
  assumes "0 < G" "linear_ok ops"
    and "(ticket_step counts cap)\<^sup>*\<^sup>* (launch_st 0 0 G) s" "\<not> (\<exists>s'. ticket_step counts cap s s')"
  shows "mset (worked s) = mset (active_experts counts cap) \<and> next_ticket s = 0 \<and> retired_groups s = 0 \<and>
         work_experts ops packs xs counts toks wts (worked s) out = exl3_moe ops packs xs (counts @ [n]) toks wts cap out"
proof -
  have inv: "sched_inv counts cap G s"
    using reachable_sched_inv [OF assms(1,3)] .
  have ret: "all_retired s"
    using ticket_progress assms(4) by blast
  note w = worked_exact [OF inv assms(1) ret]
  show ?thesis
    using w inv ret work_active_exl3_moe [OF assms(2) w] by (auto simp: sched_inv_def)
qed

definition demo_ops :: "(int, int, int, int) ext_ops" where
  "demo_ops = \<lparr>op_forward = (\<lambda>l x. l_trellis l * (x * l_suh l) * l_svh l), op_had_in = (*), op_gemm = (*), op_had_out = (*),
     op_act = (\<lambda>g u. min g 10 * max (- 10) (min 10 u)), op_mul = (*)\<rparr>"

lemma demo_linear_ok: "linear_ok demo_ops"
  by (simp add: linear_ok_def demo_ops_def)

lemma run_schedule_reachable:
  "\<forall>g \<in> set gs. g < length (groups s) \<Longrightarrow> (ticket_step counts cap)\<^sup>*\<^sup>* s (run_schedule counts cap gs s)"
proof (induction gs arbitrary: s)
  case (Cons g gs)
  show ?case
  proof (cases "group_step counts cap g s")
    case (Some s')
    have "length (groups s') = length (groups s)"
      using Some by (auto simp: group_step_def Let_def split: phase.splits if_splits)
    moreover have "ticket_step counts cap s s'"
      using Some Cons.prems by (auto intro: ticket_step.group)
    ultimately show ?thesis
      using Cons Some by (auto intro: converse_rtranclp_into_rtranclp)
  qed (use Cons in auto)
qed simp

definition demo_schedule :: "nat list" where
  "demo_schedule = [1, 1, 1, 1, 1, 1, 1, 1, 0, 0, 0, 0, 0, 0, 0, 0]"

definition demo_end :: sched_st where
  "demo_end = run_schedule [2, 0, 9, 1, 3] 4 demo_schedule (launch_st 0 0 2)"

theorem ticket_launch_exact_witness:
  "worked demo_end = [3, 4, 0] \<and> next_ticket demo_end = 0 \<and>
   work_experts demo_ops [] [] [2, 0, 9, 1, 3] [] [] (worked demo_end) [] = exl3_moe demo_ops [] [] [2, 0, 9, 1, 3, 7] [] [] 4 []"
proof -
  have r: "(ticket_step [2, 0, 9, 1, 3] 4)\<^sup>*\<^sup>* (launch_st 0 0 2) demo_end"
    unfolding demo_end_def by (rule run_schedule_reachable) (simp add: demo_schedule_def launch_st_def launch_groups_def)
  have "all_retired demo_end"
    by code_simp
  then have e: "\<not> (\<exists>s'. ticket_step [2, 0, 9, 1, 3] 4 demo_end s')"
    using retired_final by blast
  have "worked demo_end = [3, 4, 0]"
    by code_simp
  with ticket_launch_exact [OF _ demo_linear_ok r e, of "[]" "[]" "[]" "[]" "[]" 7] show ?thesis
    by simp
qed

end
