(* ===== verification/Moe_Blocks.thy ===== *)
theory Moe_Blocks
  imports Moe_Ticket
begin

text \<open>
  The fused kernel (\<open>overlay/exl3-ticket/patched/exl3_moe_kernel.cuh\<close>) by thread blocks. A group of
  \<open>Moe_Ticket\<close> is \<open>group_size\<close> blocks that scan the experts separately, each with its own copy of the
  ticket. On an expert they pass five barriers of the group; before the last one block 0 draws the
  next ticket and writes it to the slot of the group, and behind it every block reads the slot. The
  retirement is done by block 0 too. \<open>group_barrier\<close> is not part of the repository: whether a block
  may leave a barrier is an argument \<open>bar\<close> of the arrivals of the group, with the law \<open>barrier_ok\<close>. The
  theory shows that this implements the groups of \<open>Moe_Ticket\<close>: no launch gets stuck, although a
  block that retires never arrives again, and all blocks of a group work on the same experts.
\<close>

subsection \<open>State\<close>

datatype bphase = BScan | BWork nat | BArrive nat | BWait nat | BRead | BRetired

record block_st =
  b_idx :: nat
  b_assign :: nat
  b_ticket :: nat
  b_phase :: bphase
  b_arrived :: nat
  b_worked :: "nat list"

record blocks_st =
  k_next :: nat
  k_retired :: nat
  k_slots :: "nat list"
  k_groups :: "block_st list list"

text \<open>
  One step of a block on its own variables. The part \<open>j\<close> of the work on an expert ends with
  barrier \<open>j\<close>: gather and input transform, gate and up product, activation, down product, and
  output with the draw.
\<close>

definition block_move :: "(nat list \<Rightarrow> nat \<Rightarrow> bool) \<Rightarrow> nat list \<Rightarrow> nat \<Rightarrow> nat list \<Rightarrow> nat \<Rightarrow> block_st \<Rightarrow> block_st option" where
  "block_move bar counts cap arrivals slot bl =
     (let i = b_idx bl in
      case b_phase bl of
        BScan \<Rightarrow>
          if i < length counts then
            if \<not> active cap (counts ! i) then Some (bl\<lparr>b_idx := Suc i\<rparr>)
            else if b_assign bl \<noteq> b_ticket bl then Some (bl\<lparr>b_idx := Suc i, b_assign := Suc (b_assign bl)\<rparr>)
            else Some (bl\<lparr>b_assign := Suc (b_assign bl), b_phase := BWork 0, b_worked := b_worked bl @ [i]\<rparr>)
          else Some (bl\<lparr>b_phase := BRetired\<rparr>)
      | BWork j \<Rightarrow> Some (bl\<lparr>b_phase := BArrive j\<rparr>)
      | BArrive j \<Rightarrow> Some (bl\<lparr>b_phase := BWait j, b_arrived := Suc (b_arrived bl)\<rparr>)
      | BWait j \<Rightarrow>
          if bar arrivals (b_arrived bl) then Some (bl\<lparr>b_phase := if j < 4 then BWork (Suc j) else BRead\<rparr>) else None
      | BRead \<Rightarrow> Some (bl\<lparr>b_idx := Suc i, b_ticket := slot, b_phase := BScan\<rparr>)
      | BRetired \<Rightarrow> None)"

text \<open>A step of block \<open>b\<close> of group \<open>g\<close>, with what block 0 does to the counters.\<close>

definition block_step :: "(nat list \<Rightarrow> nat \<Rightarrow> bool) \<Rightarrow> nat list \<Rightarrow> nat \<Rightarrow> nat \<Rightarrow> nat \<Rightarrow> blocks_st \<Rightarrow> blocks_st option" where
  "block_step bar counts cap g b s =
     (let G = length (k_groups s); bs = k_groups s ! g; bl = bs ! b in
      case block_move bar counts cap (map b_arrived bs) (k_slots s ! g) bl of
        None \<Rightarrow> None
      | Some bl' \<Rightarrow>
          let s' = s\<lparr>k_groups := (k_groups s)[g := bs[b := bl']]\<rparr> in
          Some (if b \<noteq> 0 then s'
                else if b_phase bl = BWork 4
                then s'\<lparr>k_slots := (k_slots s)[g := G + k_next s], k_next := Suc (k_next s)\<rparr>
                else if b_phase bl' = BRetired
                then if k_retired s = G - 1 then s'\<lparr>k_next := 0, k_retired := 0\<rparr>
                     else s'\<lparr>k_retired := Suc (k_retired s)\<rparr>
                else s'))"

inductive blocks_step :: "(nat list \<Rightarrow> nat \<Rightarrow> bool) \<Rightarrow> nat list \<Rightarrow> nat \<Rightarrow> blocks_st \<Rightarrow> blocks_st \<Rightarrow> bool" for bar counts cap where
  block: "g < length (k_groups s) \<Longrightarrow> b < length (k_groups s ! g) \<Longrightarrow> block_step bar counts cap g b s = Some s' \<Longrightarrow>
    blocks_step bar counts cap s s'"

inductive_cases blocks_stepE: "blocks_step bar counts cap s s'"

text \<open>A launch; the slots hold what the previous launch left there.\<close>

definition blocks_launch :: "nat list \<Rightarrow> nat \<Rightarrow> nat \<Rightarrow> blocks_st" where
  "blocks_launch slots G B =
     \<lparr>k_next = 0, k_retired = 0, k_slots = slots,
      k_groups = map (\<lambda>g. replicate B \<lparr>b_idx = 0, b_assign = 0, b_ticket = g, b_phase = BScan, b_arrived = 0, b_worked = []\<rparr>) [0..<G]\<rparr>"

definition blocks_retired :: "blocks_st \<Rightarrow> bool" where
  "blocks_retired s = list_all (list_all (\<lambda>bl. b_phase bl = BRetired)) (k_groups s)"

text \<open>A barrier lets a block go exactly when every block of the group has arrived as often.\<close>

definition barrier_ok :: "(nat list \<Rightarrow> nat \<Rightarrow> bool) \<Rightarrow> bool" where
  "barrier_ok bar \<longleftrightarrow> (\<forall>arrivals n. n \<in> set arrivals \<longrightarrow> bar arrivals n = list_all ((\<le>) n) arrivals)"

subsection \<open>A group is its block 0\<close>

definition group_of :: "nat \<Rightarrow> block_st \<Rightarrow> group_st" where
  "group_of slot bl =
     (let working = \<lparr>expert_idx = b_idx bl, expert_idx_assign = b_assign bl, ticket = b_ticket bl, g_phase = Draw\<rparr>;
          drawn = \<lparr>expert_idx = Suc (b_idx bl), expert_idx_assign = b_assign bl, ticket = slot, g_phase = Scan\<rparr>
      in case b_phase bl of
           BScan \<Rightarrow> working\<lparr>g_phase := Scan\<rparr>
         | BWork j \<Rightarrow> working
         | BArrive j \<Rightarrow> if j < 4 then working else drawn
         | BWait j \<Rightarrow> if j < 4 then working else drawn
         | BRead \<Rightarrow> drawn
         | BRetired \<Rightarrow> working\<lparr>g_phase := Retired\<rparr>)"

definition groups_of :: "nat list \<Rightarrow> block_st list list \<Rightarrow> group_st list" where
  "groups_of slots gs = map2 (\<lambda>slot bs. group_of slot (bs ! 0)) slots gs"

definition worked_of :: "block_st list list \<Rightarrow> nat multiset" where
  "worked_of gs = mset (concat (map (\<lambda>bs. b_worked (bs ! 0)) gs))"

definition sim :: "blocks_st \<Rightarrow> sched_st \<Rightarrow> bool" where
  "sim s t \<longleftrightarrow> groups t = groups_of (k_slots s) (k_groups s) \<and> next_ticket t = k_next s \<and> retired_groups t = k_retired s
     \<and> mset (worked t) = worked_of (k_groups s)"

definition shaped :: "nat \<Rightarrow> nat \<Rightarrow> blocks_st \<Rightarrow> bool" where
  "shaped G B s \<longleftrightarrow> length (k_slots s) = G \<and> length (k_groups s) = G \<and> list_all (\<lambda>bs. length bs = B) (k_groups s)"

lemma shapedD: "shaped G B s \<Longrightarrow> g < G \<Longrightarrow> length (k_groups s ! g) = B"
  by (simp add: shaped_def list_all_length)

lemma block_step_cases:
  assumes "block_step bar counts cap g b s = Some s'"
  obtains bl' where "block_move bar counts cap (map b_arrived (k_groups s ! g)) (k_slots s ! g) (k_groups s ! g ! b) = Some bl'"
    and "k_groups s' = (k_groups s)[g := (k_groups s ! g)[b := bl']]"
    and "b = 0 \<and> b_phase (k_groups s ! g ! b) = BWork 4 \<longrightarrow>
      k_slots s' = (k_slots s)[g := length (k_groups s) + k_next s] \<and> k_next s' = Suc (k_next s) \<and> k_retired s' = k_retired s"
    and "\<not> (b = 0 \<and> b_phase (k_groups s ! g ! b) = BWork 4) \<longrightarrow> k_slots s' = k_slots s"
    and "b = 0 \<and> b_phase (k_groups s ! g ! b) \<noteq> BWork 4 \<and> b_phase bl' = BRetired \<longrightarrow>
      (if k_retired s = length (k_groups s) - 1 then k_next s' = 0 \<and> k_retired s' = 0
       else k_next s' = k_next s \<and> k_retired s' = Suc (k_retired s))"
    and "b \<noteq> 0 \<or> b_phase (k_groups s ! g ! b) \<noteq> BWork 4 \<and> b_phase bl' \<noteq> BRetired \<longrightarrow>
      k_next s' = k_next s \<and> k_retired s' = k_retired s"
proof -
  obtain bl' where m: "block_move bar counts cap (map b_arrived (k_groups s ! g)) (k_slots s ! g) (k_groups s ! g ! b) = Some bl'"
    using assms by (auto simp: block_step_def Let_def split: option.splits)
  show thesis
    using assms by (intro that [OF m]) (auto simp: block_step_def Let_def m split: if_splits)
qed

lemma block_step_shaped: "block_step bar counts cap g b s = Some s' \<Longrightarrow> shaped G B s \<Longrightarrow> g < G \<Longrightarrow> shaped G B s'"
  by (erule block_step_cases) (auto simp: shaped_def list_all_length nth_list_update)

lemma groups_of_update:
  assumes "length slots = length gs" "g < length gs"
  shows "groups_of (slots[g := slot]) (gs[g := bs]) = (groups_of slots gs)[g := group_of slot (bs ! 0)]"
  unfolding groups_of_def using assms by (intro nth_equalityI) (auto simp: nth_list_update)

lemma groups_of_nth: "length slots = length gs \<Longrightarrow> g < length gs \<Longrightarrow> groups_of slots gs ! g = group_of (slots ! g) (gs ! g ! 0)"
  by (simp add: groups_of_def)

lemma groups_of_same:
  assumes "length slots = length gs" "g < length gs" "group_of (slots ! g) (bs ! 0) = group_of (slots ! g) (gs ! g ! 0)"
  shows "groups_of slots (gs[g := bs]) = groups_of slots gs"
  using groups_of_update [OF assms(1,2), of "slots ! g" bs] groups_of_nth [OF assms(1,2)] assms(3) by (metis list_update_id)

lemma worked_of_update:
  assumes "g < length gs"
  shows "worked_of (gs[g := bs]) + mset (b_worked (gs ! g ! 0)) = worked_of gs + mset (b_worked (bs ! 0))"
proof -
  obtain xs ys where gs: "gs = xs @ gs ! g # ys" "gs[g := bs] = xs @ bs # ys"
    using id_take_nth_drop [OF assms] upd_conv_take_nth_drop [OF assms] by blast
  have "worked_of gs = worked_of xs + mset (b_worked (gs ! g ! 0)) + worked_of ys"
    by (subst gs(1)) (simp add: worked_of_def)
  then show ?thesis
    by (simp add: gs(2) worked_of_def)
qed

lemma sim_other:
  assumes "sim s t" "shaped G B s" "g < G" "k_slots s' = k_slots s" "k_next s' = k_next s" "k_retired s' = k_retired s"
    and "k_groups s' = (k_groups s)[g := bs]" "group_of (k_slots s ! g) (bs ! 0) = group_of (k_slots s ! g) (k_groups s ! g ! 0)"
    and "b_worked (bs ! 0) = b_worked (k_groups s ! g ! 0)"
  shows "sim s' t"
  using assms groups_of_same [of "k_slots s" "k_groups s" g bs] worked_of_update [of g "k_groups s" bs]
  by (simp add: sim_def shaped_def)

lemma sim_group:
  assumes "sim s t" "shaped G B s" "g < G" "group_step counts cap g t = Some t'"
    and "groups t' = (groups t)[g := gr]" "worked t' = worked t @ ws" "next_ticket t' = k_next s'" "retired_groups t' = k_retired s'"
    and "k_slots s' = (k_slots s)[g := slot]" "k_groups s' = (k_groups s)[g := bs]" "group_of slot (bs ! 0) = gr"
    and "b_worked (bs ! 0) = b_worked (k_groups s ! g ! 0) @ ws"
  shows "\<exists>t'. group_step counts cap g t = Some t' \<and> sim s' t'"
proof -
  have "groups t' = groups_of (k_slots s') (k_groups s')"
    using assms(1-3,5,9-11) groups_of_update [of "k_slots s" "k_groups s" g slot bs] by (simp add: sim_def shaped_def)
  moreover have "mset (worked t') = worked_of (k_groups s')"
    using assms(1-3,6,10,12) worked_of_update [of g "k_groups s" bs] by (simp add: sim_def shaped_def)
  ultimately show ?thesis
    using assms(4,7,8) by (auto simp: sim_def)
qed

lemma sim_step:
  assumes sim: "sim s t" and sh: "shaped G B s" and g: "g < G" and b: "b < B" and step: "block_step bar counts cap g b s = Some s'"
    and parts: "\<And>j. b_phase (k_groups s ! g ! b) = BWork j \<Longrightarrow> j \<le> 4"
  shows "sim s' t \<or> (\<exists>t'. group_step counts cap g t = Some t' \<and> sim s' t')"
proof -
  let ?bs = "k_groups s ! g" and ?slot = "k_slots s ! g"
  let ?bl = "?bs ! b"
  obtain bl' where m: "block_move bar counts cap (map b_arrived ?bs) ?slot ?bl = Some bl'"
    and gs: "k_groups s' = (k_groups s)[g := ?bs[b := bl']]"
    and draw: "b = 0 \<and> b_phase ?bl = BWork 4 \<longrightarrow>
      k_slots s' = (k_slots s)[g := length (k_groups s) + k_next s] \<and> k_next s' = Suc (k_next s) \<and> k_retired s' = k_retired s"
    and nodraw: "\<not> (b = 0 \<and> b_phase ?bl = BWork 4) \<longrightarrow> k_slots s' = k_slots s"
    and ret: "b = 0 \<and> b_phase ?bl \<noteq> BWork 4 \<and> b_phase bl' = BRetired \<longrightarrow>
      (if k_retired s = length (k_groups s) - 1 then k_next s' = 0 \<and> k_retired s' = 0
       else k_next s' = k_next s \<and> k_retired s' = Suc (k_retired s))"
    and plain: "b \<noteq> 0 \<or> b_phase ?bl \<noteq> BWork 4 \<and> b_phase bl' \<noteq> BRetired \<longrightarrow> k_next s' = k_next s \<and> k_retired s' = k_retired s"
    using step by (rule block_step_cases)
  have len: "length ?bs = B" "length (k_groups s) = G" "length (k_slots s) = G" "length (groups t) = G"
    using sh sim shapedD [OF sh g] by (simp_all add: shaped_def sim_def groups_of_def)
  have slot: "k_slots s = (k_slots s)[g := ?slot]" by simp
  show ?thesis
  proof (cases "b = 0")
    case False
    then have "(?bs[b := bl']) ! 0 = ?bs ! 0" by simp
    then show ?thesis
      using False nodraw plain by (intro disjI1 sim_other [OF sim sh g _ _ _ gs]) simp_all
  next
    case True
    then have new: "(?bs[b := bl']) ! 0 = bl'" using len(1) b by simp
    have gr: "groups t ! g = group_of ?slot ?bl" using sim len g True by (simp add: sim_def groups_of_nth)
    note cnt = sim [unfolded sim_def]
    show ?thesis
    proof (cases "b_phase ?bl")
      case BScan
      let ?w = "if b_phase bl' = BWork 0 then [b_idx ?bl] else []"
      have same: "k_slots s' = (k_slots s)[g := ?slot]" using nodraw BScan by simp
      have wk: "b_worked bl' = b_worked (?bs ! 0) @ ?w"
        using m BScan True by (auto simp: block_move_def Let_def split: if_splits)
      have G: "\<exists>t'. group_step counts cap g t = Some t' \<and> sim s' t'"
        if "group_step counts cap g t = Some t'" "groups t' = (groups t)[g := group_of ?slot bl']" "worked t' = worked t @ ?w"
          "next_ticket t' = k_next s'" "retired_groups t' = k_retired s'" for t'
        by (rule sim_group [OF sim sh g that same gs]) (simp_all only: new wk)
      have gt: "groups t ! g = \<lparr>expert_idx = b_idx ?bl, expert_idx_assign = b_assign ?bl, ticket = b_ticket ?bl, g_phase = Scan\<rparr>"
        using gr BScan by (simp add: group_of_def)
      have ct: "next_ticket t = k_next s" "retired_groups t = k_retired s" using sim by (simp_all add: sim_def)
      have "\<exists>t'. group_step counts cap g t = Some t' \<and> groups t' = (groups t)[g := group_of ?slot bl'] \<and> worked t' = worked t @ ?w
          \<and> next_ticket t' = k_next s' \<and> retired_groups t' = k_retired s'"
      proof (cases "b_idx ?bl < length counts")
        case i: True
        then have "b_phase bl' \<noteq> BRetired" using m BScan by (auto simp: block_move_def Let_def split: if_splits)
        then have cs: "k_next s' = k_next s" "k_retired s' = k_retired s" using plain BScan by simp_all
        show ?thesis
          using m BScan i by (cases "active cap (counts ! b_idx ?bl)"; cases "b_assign ?bl = b_ticket ?bl")
            (auto simp: block_move_def Let_def group_step_def gt group_of_def ct cs)
      next
        case i: False
        then have bl': "bl' = ?bl\<lparr>b_phase := BRetired\<rparr>" using m BScan by (simp add: block_move_def Let_def)
        show ?thesis
          using i ret True BScan bl' len
          by (cases "k_retired s = G - 1") (auto simp: group_step_def Let_def gt group_of_def ct)
      qed
      then show ?thesis using G by blast
    next
      case (BWork j)
      show ?thesis
      proof (cases "j = 4")
        case j: True
        let ?n = "length (k_groups s) + k_next s"
        have "\<exists>t'. group_step counts cap g t = Some t' \<and> groups t' = (groups t)[g := group_of ?n bl'] \<and> worked t' = worked t @ []
            \<and> next_ticket t' = k_next s' \<and> retired_groups t' = k_retired s'"
          using m BWork j draw cnt len gr True by (auto simp: block_move_def Let_def group_step_def group_of_def)
        moreover have "b_worked bl' = b_worked ?bl @ []" using m BWork by (auto simp: block_move_def Let_def)
        ultimately show ?thesis
          using draw BWork j gs new True by (auto intro!: disjI2 intro: sim_group [OF sim sh g, where gr = "group_of ?n bl'" and ws = "[]" and slot = ?n])
      next
        case False
        then show ?thesis
          using parts [OF BWork] m BWork nodraw plain new True
          by (intro disjI1 sim_other [OF sim sh g _ _ _ gs]) (auto simp: block_move_def Let_def group_of_def)
      qed
    next
      case (BWait j)
      then show ?thesis
        using m nodraw plain new True
        by (intro disjI1 sim_other [OF sim sh g _ _ _ gs]) (auto simp: block_move_def Let_def group_of_def split: if_splits)
    qed (use m nodraw plain new True in \<open>auto intro!: disjI1 sim_other [OF sim sh g _ _ _ gs] simp: block_move_def Let_def group_of_def\<close>)
  qed
qed

subsection \<open>The blocks of a group stay together\<close>

text \<open>A block at work on the expert of its ticket, and what holds of a block alone.\<close>

definition claimed :: "nat list \<Rightarrow> nat \<Rightarrow> block_st \<Rightarrow> bool" where
  "claimed counts cap bl \<longleftrightarrow> b_worked bl \<noteq> [] \<and> last (b_worked bl) = b_idx bl \<and> b_idx bl < length counts
     \<and> active cap (counts ! b_idx bl) \<and> b_assign bl = rank counts cap (Suc (b_idx bl)) \<and> rank counts cap (b_idx bl) = b_ticket bl"

definition block_ok :: "nat list \<Rightarrow> nat \<Rightarrow> block_st \<Rightarrow> bool" where
  "block_ok counts cap bl =
     (let n = 5 * length (b_worked bl) in
      case b_phase bl of
        BScan \<Rightarrow> b_idx bl \<le> length counts \<and> b_assign bl = rank counts cap (b_idx bl) \<and> b_assign bl \<le> b_ticket bl \<and> b_arrived bl = n
      | BWork j \<Rightarrow> j \<le> 4 \<and> claimed counts cap bl \<and> b_arrived bl + 5 = n + j
      | BArrive j \<Rightarrow> j \<le> 4 \<and> claimed counts cap bl \<and> b_arrived bl + 5 = n + j
      | BWait j \<Rightarrow> j \<le> 4 \<and> claimed counts cap bl \<and> b_arrived bl + 4 = n + j
      | BRead \<Rightarrow> claimed counts cap bl \<and> b_arrived bl = n
      | BRetired \<Rightarrow> rank counts cap (length counts) \<le> b_ticket bl \<and> b_arrived bl = n)"

text \<open>
  \<open>base\<close> are the experts the group has finished up to the last draw and \<open>cur\<close> is the ticket drawn then. A
  block has read that ticket, or it is between the last two barriers of the expert before.
\<close>

definition current :: "nat \<Rightarrow> nat list \<Rightarrow> block_st \<Rightarrow> bool" where
  "current cur base bl \<longleftrightarrow> b_ticket bl = cur \<and>
     (if b_phase bl \<in> {BScan, BRetired} then b_worked bl = base else b_phase bl \<noteq> BRead \<and> butlast (b_worked bl) = base)"

definition behind :: "nat list \<Rightarrow> block_st \<Rightarrow> bool" where
  "behind base bl \<longleftrightarrow> base \<noteq> [] \<and> b_worked bl = base \<and> b_phase bl \<in> {BWait 3, BWork 4, BArrive 4, BWait 4, BRead}"

definition passed :: "block_st \<Rightarrow> nat" where
  "passed bl = (case b_phase bl of BWait j \<Rightarrow> b_arrived bl - 1 | _ \<Rightarrow> b_arrived bl)"

definition leads :: "nat \<Rightarrow> nat list \<Rightarrow> block_st \<Rightarrow> bool" where
  "leads cur base bl \<longleftrightarrow> current cur base bl \<and> b_phase bl \<notin> {BArrive 4, BWait 4} \<or> behind base bl \<and> b_phase bl \<in> {BArrive 4, BWait 4, BRead}"

definition team_ok :: "nat list \<Rightarrow> nat \<Rightarrow> nat \<Rightarrow> nat \<Rightarrow> nat list \<Rightarrow> block_st list \<Rightarrow> bool" where
  "team_ok counts cap slot cur base bs \<longleftrightarrow>
     (base \<noteq> [] \<longrightarrow> slot = cur \<and> rank counts cap (Suc (last base)) \<le> cur) \<and>
     (\<forall>bl \<in> set bs. block_ok counts cap bl \<and> (current cur base bl \<or> behind base bl)) \<and>
     (\<forall>x \<in> set bs. \<forall>y \<in> set bs. passed x \<le> b_arrived y) \<and> leads cur base (bs ! 0)"

lemma team_update:
  assumes team: "team_ok counts cap slot cur base bs" and b: "b < length bs"
    and bl: "block_ok counts cap bl" "current cur base bl \<or> behind base bl" "b = 0 \<Longrightarrow> leads cur base bl"
    and bar: "\<And>y. y \<in> set bs \<Longrightarrow> passed bl \<le> b_arrived y" "passed bl \<le> b_arrived bl" "b_arrived (bs ! b) \<le> b_arrived bl"
  shows "team_ok counts cap slot cur base (bs[b := bl])"
proof -
  have set: "set (bs[b := bl]) \<subseteq> insert bl (set bs)" by (rule set_update_subset_insert)
  have "passed x \<le> b_arrived y" if "x \<in> set (bs[b := bl])" "y \<in> set (bs[b := bl])" for x y
  proof -
    have old: "\<forall>x \<in> set bs. \<forall>y \<in> set bs. passed x \<le> b_arrived y" using team by (simp add: team_ok_def)
    then have "passed x \<le> b_arrived bl" if "x \<in> set bs" using that b bar(3) nth_mem order_trans by blast
    moreover have "x = bl \<or> x \<in> set bs" "y = bl \<or> y \<in> set bs" using that set by auto
    ultimately show ?thesis using old bar(1,2) by blast
  qed
  moreover have "leads cur base (bs[b := bl] ! 0)" using team bl(3) b by (cases "b = 0") (auto simp: team_ok_def)
  ultimately show ?thesis using team set bl(1,2) unfolding team_ok_def by blast
qed

text \<open>Arrivals of a block by where it is.\<close>

lemma behind_arrived: "block_ok counts cap bl \<Longrightarrow> behind base bl \<Longrightarrow> b_arrived bl \<le> 5 * length base"
  by (auto simp: block_ok_def behind_def Let_def)

lemma current_length:
  "block_ok counts cap bl \<Longrightarrow> current cur base bl \<Longrightarrow>
     length (b_worked bl) = length base + (if b_phase bl \<in> {BScan, BRetired} then 0 else 1)"
  by (auto simp: block_ok_def current_def claimed_def Let_def split: bphase.splits if_splits)

lemma leads_arrived:
  assumes "block_ok counts cap bl" "leads cur base bl"
  shows "b_arrived bl \<le> 5 * length base + 4"
  using assms(2) unfolding leads_def
proof
  assume c: "current cur base bl \<and> b_phase bl \<notin> {BArrive 4, BWait 4}"
  then show ?thesis
    using assms(1) current_length [OF assms(1), of cur base]
    by (auto simp: block_ok_def current_def Let_def split: bphase.splits if_splits)
qed (use behind_arrived [OF assms(1)] in fastforce)

text \<open>A step of a block that is not the draw.\<close>

lemma team_move:
  assumes team: "team_ok counts cap slot cur base bs" and b: "b < length bs" and bok: "barrier_ok bar"
    and m: "block_move bar counts cap (map b_arrived bs) slot (bs ! b) = Some bl"
    and nodraw: "\<not> (b = 0 \<and> b_phase (bs ! b) = BWork 4)"
  shows "team_ok counts cap slot cur base (bs[b := bl])"
proof -
  let ?old = "bs ! b"
  have old: "block_ok counts cap ?old" "current cur base ?old \<or> behind base ?old" "b = 0 \<Longrightarrow> leads cur base ?old"
    and pass: "\<And>y. y \<in> set bs \<Longrightarrow> passed ?old \<le> b_arrived y"
    and next_slot: "base \<noteq> [] \<Longrightarrow> slot = cur \<and> rank counts cap (Suc (last base)) \<le> cur"
    using team b by (auto simp: team_ok_def)
  have "bs ! 0 \<in> set bs" using b by (cases bs) auto
  then have zero: "block_ok counts cap (bs ! 0)" "leads cur base (bs ! 0)" "bs ! 0 \<in> set bs"
    using team by (auto simp: team_ok_def)
  show ?thesis
  proof (cases "b_phase ?old")
    case BScan
    have cur: "current cur base ?old" using old(2) BScan by (auto simp: behind_def)
    have "block_ok counts cap bl \<and> current cur base bl \<and> b_phase bl \<notin> {BArrive 4, BWait 4}"
      using m old(1) cur BScan by (auto simp: block_move_def Let_def block_ok_def current_def claimed_def rank_Suc split: if_splits)
    moreover have "passed bl = passed ?old" "b_arrived bl = b_arrived ?old"
      using m BScan by (auto simp: block_move_def Let_def passed_def split: if_splits)
    ultimately show ?thesis
      using pass b by (intro team_update [OF team b]) (auto simp: leads_def)
  next
    case (BWork j)
    have bl: "bl = ?old\<lparr>b_phase := BArrive j\<rparr>" using m BWork by (simp add: block_move_def Let_def)
    have "block_ok counts cap bl" using old(1) BWork by (auto simp: bl block_ok_def claimed_def Let_def)
    moreover have "current cur base bl \<or> behind base bl" using old(2) BWork by (auto simp: bl current_def behind_def)
    moreover have "leads cur base bl" if "b = 0"
      using old(3) [OF that] nodraw that BWork by (auto simp: bl leads_def current_def behind_def)
    moreover have "passed bl = passed ?old" "b_arrived bl = b_arrived ?old" using BWork by (simp_all add: bl passed_def)
    ultimately show ?thesis using pass b by (intro team_update [OF team b]) auto
  next
    case (BArrive j)
    have bl: "bl = ?old\<lparr>b_phase := BWait j, b_arrived := Suc (b_arrived ?old)\<rparr>" using m BArrive by (simp add: block_move_def Let_def)
    have "block_ok counts cap bl" using old(1) BArrive by (auto simp: bl block_ok_def claimed_def Let_def)
    moreover have "current cur base bl \<or> behind base bl" using old(2) BArrive by (auto simp: bl current_def behind_def)
    moreover have "leads cur base bl" if "b = 0"
      using old(3) [OF that] BArrive by (auto simp: bl leads_def current_def behind_def)
    moreover have "passed bl = passed ?old" using BArrive by (simp add: bl passed_def)
    ultimately show ?thesis using pass b by (intro team_update [OF team b]) (auto simp: bl passed_def)
  next
    case (BWait j)
    then have go: "bar (map b_arrived bs) (b_arrived ?old)" and bl: "bl = ?old\<lparr>b_phase := if j < 4 then BWork (Suc j) else BRead\<rparr>"
      using m by (auto simp: block_move_def Let_def split: if_splits)
    have all: "b_arrived ?old \<le> b_arrived y" if "y \<in> set bs" for y
      using bok go that b by (auto simp: barrier_ok_def list_all_iff)
    have late: "behind base ?old" if "j = 4"
    proof (rule ccontr)
      assume "\<not> behind base ?old"
      then have "b_arrived ?old = 5 * length base + 5"
        using old(1,2) BWait that current_length [OF old(1), of cur base] by (auto simp: block_ok_def Let_def)
      then show False using all [OF zero(3)] leads_arrived [OF zero(1,2)] by simp
    qed
    have "block_ok counts cap bl" using old(1) BWait by (auto simp: bl block_ok_def claimed_def Let_def)
    moreover have "current cur base bl \<or> behind base bl"
      using old(1,2) late BWait by (cases "j = 4") (auto simp: bl block_ok_def current_def behind_def Let_def)
    moreover have "leads cur base bl" if "b = 0"
      using old(1) old(3) [OF that] late BWait by (cases "j = 4") (auto simp: bl leads_def block_ok_def current_def behind_def Let_def)
    moreover have "passed bl = b_arrived ?old" "b_arrived bl = b_arrived ?old" by (simp_all add: bl passed_def)
    ultimately show ?thesis using all b by (intro team_update [OF team b]) auto
  next
    case BRead
    have bl: "bl = ?old\<lparr>b_idx := Suc (b_idx ?old), b_ticket := slot, b_phase := BScan\<rparr>" using m BRead by (simp add: block_move_def Let_def)
    have old_behind: "behind base ?old" using old(2) BRead by (auto simp: current_def)
    then have base: "base \<noteq> []" "b_worked ?old = base" by (simp_all add: behind_def)
    have cl: "claimed counts cap ?old" "b_arrived ?old = 5 * length base" using old(1) BRead base by (simp_all add: block_ok_def Let_def)
    have "block_ok counts cap bl"
      using cl next_slot [OF base(1)] base by (auto simp: bl block_ok_def claimed_def Let_def)
    moreover have "current cur base bl" using next_slot [OF base(1)] base by (simp add: bl current_def)
    moreover have "passed bl = passed ?old" "b_arrived bl = b_arrived ?old" using BRead by (simp_all add: bl passed_def)
    ultimately show ?thesis using pass b by (intro team_update [OF team b]) (auto simp: leads_def bl)
  qed (use m in \<open>simp add: block_move_def Let_def\<close>)
qed

text \<open>
  The draw of block 0: every block of the group has reached the last but one barrier of the same expert,
  so that none of them still needs the old ticket and none has read the slot before it is written.
\<close>

lemma team_draw:
  assumes team: "team_ok counts cap slot cur base bs" and n: "0 < length bs" and w: "b_phase (bs ! 0) = BWork 4"
    and new: "rank counts cap (Suc (b_idx (bs ! 0))) \<le> new" and bl: "bl = (bs ! 0)\<lparr>b_phase := BArrive 4\<rparr>"
  shows "team_ok counts cap new new (base @ [b_idx (bs ! 0)]) (bs[0 := bl])"
proof -
  let ?z = "bs ! 0"
  have z: "?z \<in> set bs" using n by simp
  have ok: "block_ok counts cap y" "current cur base y \<or> behind base y" if "y \<in> set bs" for y
    using team that by (auto simp: team_ok_def)
  have zc: "current cur base ?z" using team w by (auto simp: team_ok_def leads_def)
  have zok: "claimed counts cap ?z" "b_arrived ?z = 5 * length base + 4"
    using ok(1) [OF z] current_length [OF ok(1) [OF z] zc] w by (auto simp: block_ok_def Let_def)
  have at: "b_phase y \<in> {BWait 3, BWork 4, BArrive 4, BWait 4, BRead} \<and> b_worked y = base @ [b_idx ?z]" if y: "y \<in> set bs" for y
  proof -
    have "passed ?z \<le> b_arrived y" using team z y by (auto simp: team_ok_def)
    then have arr: "5 * length base + 4 \<le> b_arrived y" using zok w by (simp add: passed_def)
    then have "\<not> behind base y" using behind_arrived [OF ok(1) [OF y]] by fastforce
    then have c: "current cur base y" using ok(2) [OF y] by blast
    have ph: "b_phase y \<in> {BWait 3, BWork 4, BArrive 4, BWait 4} \<and> claimed counts cap y"
      using ok(1) [OF y] current_length [OF ok(1) [OF y] c] arr c
      by (cases "b_phase y") (auto simp: block_ok_def current_def Let_def)
    have "rank counts cap (b_idx y) = rank counts cap (b_idx ?z)"
      using ph zok(1) c zc by (simp add: claimed_def current_def)
    then have "b_idx y = b_idx ?z"
      using ph zok(1) rank_inj [of "b_idx y" counts cap "b_idx ?z"] by (simp add: claimed_def)
    moreover have "b_worked y = base @ [b_idx y]"
      using ph c append_butlast_last_id [of "b_worked y"] by (auto simp: claimed_def current_def)
    ultimately show ?thesis using ph by auto
  qed
  have mem: "y = bl \<or> y \<in> set bs" if "y \<in> set (bs[0 := bl])" for y
    using that set_update_subset_insert [of bs 0 bl] by auto
  have blok: "block_ok counts cap bl" "behind (base @ [b_idx ?z]) bl" "passed bl = passed ?z" "b_arrived bl = b_arrived ?z"
    using ok(1) [OF z] at [OF z] w by (auto simp: bl block_ok_def claimed_def behind_def passed_def Let_def)
  have "block_ok counts cap y \<and> behind (base @ [b_idx ?z]) y" if "y \<in> set (bs[0 := bl])" for y
    using mem [OF that] blok ok(1) at by (auto simp: behind_def)
  moreover have "passed x \<le> b_arrived y" if "x \<in> set (bs[0 := bl])" "y \<in> set (bs[0 := bl])" for x y
  proof -
    have "\<forall>x \<in> set bs. \<forall>y \<in> set bs. passed x \<le> b_arrived y" using team by (simp add: team_ok_def)
    then show ?thesis using mem that blok(3,4) z by metis
  qed
  moreover have "leads new (base @ [b_idx ?z]) (bs[0 := bl] ! 0)"
    using blok(2) n by (simp add: leads_def bl)
  ultimately show ?thesis
    using new unfolding team_ok_def by simp
qed

subsection \<open>Every reachable state\<close>

definition blocks_inv :: "nat list \<Rightarrow> nat \<Rightarrow> nat \<Rightarrow> nat \<Rightarrow> blocks_st \<Rightarrow> bool" where
  "blocks_inv counts cap G B s \<longleftrightarrow> shaped G B s \<and> (\<exists>t. (ticket_step counts cap)\<^sup>*\<^sup>* (launch_st 0 0 G) t \<and> sim s t)
     \<and> (\<forall>g < G. \<exists>cur base. team_ok counts cap (k_slots s ! g) cur base (k_groups s ! g))"

lemma blocks_inv_launch:
  assumes "0 < B" "length slots = G"
  shows "blocks_inv counts cap G B (blocks_launch slots G B)"
proof -
  let ?s = "blocks_launch slots G B"
  have "groups_of slots (k_groups ?s) = launch_groups G"
    using assms by (intro nth_equalityI) (simp_all add: groups_of_def blocks_launch_def launch_groups_def group_of_def)
  moreover have "worked_of (k_groups ?s) = {#}"
    using assms(1) by (auto simp: worked_of_def blocks_launch_def)
  ultimately have "sim ?s (launch_st 0 0 G)"
    by (simp add: sim_def launch_st_def blocks_launch_def)
  moreover have "shaped G B ?s"
    using assms(2) by (simp add: shaped_def blocks_launch_def list_all_length)
  moreover have "team_ok counts cap (k_slots ?s ! g) g [] (k_groups ?s ! g)" if "g < G" for g
    using that assms(1) by (auto simp: team_ok_def blocks_launch_def block_ok_def current_def leads_def passed_def Let_def)
  ultimately show ?thesis
    unfolding blocks_inv_def by blast
qed

lemma drawn_above:
  assumes "sim s t" "shaped G B s" "g < G" "sched_inv counts cap G t" "b_phase (k_groups s ! g ! 0) = BWork 4"
  shows "b_assign (k_groups s ! g ! 0) \<le> length (k_groups s) + k_next s"
proof -
  have gr: "groups t ! g = group_of (k_slots s ! g) (k_groups s ! g ! 0)"
    using assms(1-3) by (simp add: sim_def shaped_def groups_of_nth)
  then have "group_ok counts cap (G + next_ticket t) (groups t ! g)"
    using assms(5) by (intro sched_inv_live(4) [OF assms(4,3)]) (simp add: group_of_def)
  then show ?thesis
    using assms(1,2,5) by (simp add: gr group_of_def group_ok_def sim_def shaped_def)
qed

lemma block_step_inv:
  assumes inv: "blocks_inv counts cap G B s" and g: "g < G" and b: "b < B" and bok: "barrier_ok bar"
    and step: "block_step bar counts cap g b s = Some s'"
  shows "blocks_inv counts cap G B s'"
proof -
  let ?bs = "k_groups s ! g"
  obtain t where sh: "shaped G B s" and t: "(ticket_step counts cap)\<^sup>*\<^sup>* (launch_st 0 0 G) t" "sim s t"
    and teams: "\<And>g. g < G \<Longrightarrow> \<exists>cur base. team_ok counts cap (k_slots s ! g) cur base (k_groups s ! g)"
    using inv by (auto simp: blocks_inv_def)
  obtain cur base where team: "team_ok counts cap (k_slots s ! g) cur base ?bs" using teams [OF g] by blast
  have len: "length ?bs = B" "length (k_groups s) = G" "length (k_slots s) = G" using sh shapedD [OF sh g] by (simp_all add: shaped_def)
  have bok0: "block_ok counts cap (?bs ! b)" using team b len by (simp add: team_ok_def)
  have "\<exists>t'. (ticket_step counts cap)\<^sup>*\<^sup>* (launch_st 0 0 G) t' \<and> sim s' t'"
  proof -
    have "j \<le> 4" if "b_phase (?bs ! b) = BWork j" for j using bok0 that by (simp add: block_ok_def Let_def)
    then consider "sim s' t" | t' where "group_step counts cap g t = Some t'" "sim s' t'"
      using sim_step [OF t(2) sh g b step] by blast
    then show ?thesis
    proof cases
      case 2
      have "length (groups t) = G" using t(2) len by (simp add: sim_def groups_of_def)
      then have "ticket_step counts cap t t'" using 2(1) g by (intro ticket_step.group [of g]) simp_all
      then show ?thesis using t(1) 2(2) rtranclp.rtrancl_into_rtrancl by metis
    qed (use t(1) in blast)
  qed
  moreover obtain bl' where m: "block_move bar counts cap (map b_arrived ?bs) (k_slots s ! g) (?bs ! b) = Some bl'"
    and gs: "k_groups s' = (k_groups s)[g := ?bs[b := bl']]"
    and draw: "b = 0 \<and> b_phase (?bs ! b) = BWork 4 \<longrightarrow> k_slots s' = (k_slots s)[g := length (k_groups s) + k_next s]"
    and nodraw: "\<not> (b = 0 \<and> b_phase (?bs ! b) = BWork 4) \<longrightarrow> k_slots s' = k_slots s"
    using block_step_cases [OF step] by metis
  have mine: "\<exists>cur base. team_ok counts cap (k_slots s' ! g) cur base (?bs[b := bl'])"
  proof (cases "b = 0 \<and> b_phase (?bs ! b) = BWork 4")
    case True
    then have z: "b = 0" "b_phase (?bs ! 0) = BWork 4" by auto
    have "sched_inv counts cap G t" using reachable_sched_inv [OF _ t(1)] g by simp
    from drawn_above [OF t(2) sh g this z(2)]
    have new: "rank counts cap (Suc (b_idx (?bs ! 0))) \<le> length (k_groups s) + k_next s"
      using bok0 z by (simp add: block_ok_def claimed_def Let_def)
    have "bl' = (?bs ! 0)\<lparr>b_phase := BArrive 4\<rparr>" using m z by (simp add: block_move_def Let_def)
    from team_draw [OF team _ z(2) new this] z draw True len g b show ?thesis by auto
  next
    case False
    from team_move [OF team _ bok m False] False nodraw b len show ?thesis by auto
  qed
  moreover have "k_slots s' ! h = k_slots s ! h" if "h \<noteq> g" for h
    using draw nodraw that by (metis nth_list_update_neq)
  then have "\<exists>cur base. team_ok counts cap (k_slots s' ! h) cur base (k_groups s' ! h)" if "h < G" for h
    using that teams mine len g unfolding gs by (cases "h = g") simp_all
  ultimately show ?thesis
    using block_step_shaped [OF step sh g] unfolding blocks_inv_def by blast
qed

lemma reachable_blocks_inv:
  assumes "0 < B" "length slots = G" "barrier_ok bar" "(blocks_step bar counts cap)\<^sup>*\<^sup>* (blocks_launch slots G B) s"
  shows "blocks_inv counts cap G B s"
  using assms(4)
proof induction
  case (step s s')
  obtain g b where "g < length (k_groups s)" "b < length (k_groups s ! g)" "block_step bar counts cap g b s = Some s'"
    using step.hyps(2) by (auto elim: blocks_stepE)
  moreover have "shaped G B s" using step.IH by (simp add: blocks_inv_def)
  ultimately show ?case
    using step.IH assms(3) shapedD [of G B s g] by (intro block_step_inv [of counts cap G B s g b bar s']) (simp_all add: shaped_def)
qed (use assms(1,2) in \<open>rule blocks_inv_launch\<close>)

subsection \<open>No launch gets stuck or runs for ever\<close>

text \<open>A group cannot wait for a block that has retired: if one block finds the expert of a ticket, all do.\<close>

lemma retired_not_awaited:
  assumes "team_ok counts cap slot cur base bs" "x \<in> set bs" "y \<in> set bs" "b_phase x = BWait j" "b_phase y = BRetired"
  shows "b_arrived x \<le> b_arrived y"
proof -
  have ok: "block_ok counts cap x" "block_ok counts cap y" "current cur base x \<or> behind base x" "current cur base y \<or> behind base y"
    using assms(1-3) by (auto simp: team_ok_def)
  have y: "b_arrived y = 5 * length base" "rank counts cap (length counts) \<le> cur"
    using ok(2,4) assms(5) by (auto simp: block_ok_def current_def behind_def Let_def)
  have "\<not> current cur base x"
  proof
    assume "current cur base x"
    then have "rank counts cap (b_idx x) = cur" "b_idx x < length counts" "active cap (counts ! b_idx x)"
      using ok(1) assms(4) by (auto simp: block_ok_def claimed_def current_def Let_def)
    then show False using rank_less [of "b_idx x" "length counts" counts cap] y(2) by simp
  qed
  then show ?thesis using ok(1,3) behind_arrived y(1) by fastforce
qed

lemma team_progress:
  assumes team: "team_ok counts cap slot cur base bs" and bok: "barrier_ok bar" and live: "\<exists>bl \<in> set bs. b_phase bl \<noteq> BRetired"
  shows "\<exists>b < length bs. \<exists>bl'. block_move bar counts cap (map b_arrived bs) slot (bs ! b) = Some bl'"
proof -
  have "\<exists>bl \<in> set bs. \<exists>bl'. block_move bar counts cap (map b_arrived bs) slot bl = Some bl'"
  proof (cases "\<exists>bl \<in> set bs. b_phase bl \<noteq> BRetired \<and> (\<forall>j. b_phase bl \<noteq> BWait j)")
    case True
    then obtain bl where "bl \<in> set bs" "b_phase bl \<noteq> BRetired" "\<forall>j. b_phase bl \<noteq> BWait j" by blast
    then show ?thesis by (intro bexI [of _ bl]) (auto simp: block_move_def Let_def split: bphase.splits)
  next
    case False
    let ?W = "{bl \<in> set bs. b_phase bl \<noteq> BRetired}"
    have "\<exists>x. is_arg_min b_arrived (\<lambda>x. x \<in> ?W) x" using live by (intro ex_is_arg_min_if_finite) auto
    then obtain x where x: "x \<in> ?W" "\<And>y. y \<in> ?W \<Longrightarrow> b_arrived x \<le> b_arrived y" by (auto simp: is_arg_min_linorder)
    then obtain j where j: "b_phase x = BWait j" using False by blast
    have "b_arrived x \<le> b_arrived y" if "y \<in> set bs" for y
      using x that j retired_not_awaited [OF team _ that j, of] by (cases "b_phase y = BRetired") auto
    then have "bar (map b_arrived bs) (b_arrived x)" using bok x(1) by (auto simp: barrier_ok_def list_all_iff)
    then show ?thesis using x(1) j by (intro bexI [of _ x]) (simp_all add: block_move_def Let_def)
  qed
  then show ?thesis by (metis in_set_conv_nth)
qed

lemma blocks_progress:
  assumes "blocks_inv counts cap G B s" "barrier_ok bar" "\<not> blocks_retired s"
  shows "\<exists>s'. blocks_step bar counts cap s s'"
proof -
  obtain g where g: "g < length (k_groups s)" "\<exists>bl \<in> set (k_groups s ! g). b_phase bl \<noteq> BRetired"
    using assms(3) by (fastforce simp: blocks_retired_def list_all_iff in_set_conv_nth)
  have "g < G" using g(1) assms(1) by (simp add: blocks_inv_def shaped_def)
  then obtain cur base where "team_ok counts cap (k_slots s ! g) cur base (k_groups s ! g)" using assms(1) by (auto simp: blocks_inv_def)
  from team_progress [OF this assms(2) g(2)] obtain b bl' where
    "b < length (k_groups s ! g)" "block_move bar counts cap (map b_arrived (k_groups s ! g)) (k_slots s ! g) (k_groups s ! g ! b) = Some bl'"
    by blast
  then show ?thesis using g(1) by (intro exI, intro blocks_step.block [of g s b]) (simp_all add: block_step_def Let_def)
qed

lemma retired_stops: "blocks_retired s \<Longrightarrow> \<not> blocks_step bar counts cap s s'"
  by (auto elim!: blocks_stepE block_step_cases simp: blocks_retired_def list_all_length block_move_def Let_def)

fun block_weight :: "nat \<Rightarrow> block_st \<Rightarrow> nat" where
  "block_weight n bl =
     (case b_phase bl of
        BScan \<Rightarrow> 20 * (n - b_idx bl) + 19
      | BWork j \<Rightarrow> 20 * (n - Suc (b_idx bl)) + (38 - 3 * min j 4)
      | BArrive j \<Rightarrow> 20 * (n - Suc (b_idx bl)) + (37 - 3 * min j 4)
      | BWait j \<Rightarrow> 20 * (n - Suc (b_idx bl)) + (36 - 3 * min j 4)
      | BRead \<Rightarrow> 20 * (n - Suc (b_idx bl)) + 23
      | BRetired \<Rightarrow> 0)"

lemma block_move_weight:
  "block_move bar counts cap arrivals slot bl = Some bl' \<Longrightarrow> block_weight (length counts) bl' < block_weight (length counts) bl"
  by (cases "b_phase bl") (auto simp: block_move_def Let_def min_def split: if_splits)

lemma blocks_step_wf: "wfp (blocks_step bar counts cap)\<inverse>\<inverse>"
proof -
  let ?w = "block_weight (length counts)"
  have "sum_list (map (\<lambda>bs. sum_list (map ?w bs)) (k_groups s')) < sum_list (map (\<lambda>bs. sum_list (map ?w bs)) (k_groups s))"
    if step: "blocks_step bar counts cap s s'" for s s'
  proof -
    obtain g b where gb: "g < length (k_groups s)" "b < length (k_groups s ! g)" and st: "block_step bar counts cap g b s = Some s'"
      using step by (auto elim: blocks_stepE)
    from st obtain bl' where "?w bl' < ?w (k_groups s ! g ! b)" "k_groups s' = (k_groups s)[g := (k_groups s ! g)[b := bl']]"
      using block_move_weight by (metis block_step_cases)
    then show ?thesis
      using sum_weight_update [OF gb(1), of "\<lambda>bs. sum_list (map ?w bs)"] sum_weight_update [OF gb(2), of ?w] by simp
  qed
  then show ?thesis
    by (intro wfp_if_convertible_to_nat [of _ "\<lambda>s. sum_list (map (\<lambda>bs. sum_list (map ?w bs)) (k_groups s))"]) simp
qed

lemma blocks_done:
  assumes inv: "blocks_inv counts cap G B s" and G: "0 < G" and ret: "blocks_retired s" and B: "0 < B"
  shows "k_next s = 0 \<and> k_retired s = 0 \<and> worked_of (k_groups s) = mset (active_experts counts cap)
    \<and> (\<forall>g < G. \<forall>b < B. b_worked (k_groups s ! g ! b) = b_worked (k_groups s ! g ! 0))"
proof -
  obtain t where sh: "shaped G B s" and t: "(ticket_step counts cap)\<^sup>*\<^sup>* (launch_st 0 0 G) t" "sim s t"
    using inv by (auto simp: blocks_inv_def)
  have ph: "b_phase (k_groups s ! g ! b) = BRetired" if "g < G" "b < B" for g b
    using ret that sh shapedD [OF sh that(1)] by (simp add: blocks_retired_def list_all_length shaped_def)
  have "all_retired t"
    using t(2) sh ph B by (auto simp: all_retired_def list_all_length sim_def shaped_def groups_of_nth group_of_def groups_of_def)
  moreover have "sched_inv counts cap G t" using reachable_sched_inv [OF G t(1)] .
  ultimately have "next_ticket t = 0" "retired_groups t = 0" "mset (worked t) = mset (active_experts counts cap)"
    using worked_exact [OF _ G] by (auto simp: sched_inv_def)
  then have "k_next s = 0 \<and> k_retired s = 0 \<and> worked_of (k_groups s) = mset (active_experts counts cap)"
    using t(2) by (simp add: sim_def)
  moreover have "b_worked (k_groups s ! g ! b) = b_worked (k_groups s ! g ! 0)" if g: "g < G" and b: "b < B" for g b
  proof -
    obtain cur base where "team_ok counts cap (k_slots s ! g) cur base (k_groups s ! g)" using inv g by (auto simp: blocks_inv_def)
    then have "current cur base bl \<or> behind base bl" if "bl \<in> set (k_groups s ! g)" for bl using that by (simp add: team_ok_def)
    then have "b_worked bl = base" if "bl \<in> set (k_groups s ! g)" "b_phase bl = BRetired" for bl
      using that by (force simp: current_def behind_def)
    then have "b_worked (k_groups s ! g ! c) = base" if "c < B" for c
      using ph [OF g that] that shapedD [OF sh g] by simp
    then show ?thesis using b B by simp
  qed
  ultimately show ?thesis by blast
qed

subsection \<open>Properties\<close>

text \<open>(C10) The fused kernel block by block, for any order of the blocks' steps and any barrier that meets its law. No launch
  runs for ever. A reachable state has a next step exactly when some block has not retired, so that no block waits
  for ever at a barrier, not even for a block that left the loop before it. And when all blocks have retired, the
  counters are zero again, the blocks of a group have all worked on the same experts in the same order, and the
  groups together have worked on every active expert exactly once.
\<close>

theorem block_launch_exact:
  assumes "0 < G" "0 < B" "length slots = G" "barrier_ok bar"
    and "(blocks_step bar counts cap)\<^sup>*\<^sup>* (blocks_launch slots G B) s"
  shows "wfp (blocks_step bar counts cap)\<inverse>\<inverse>
    \<and> ((\<exists>s'. blocks_step bar counts cap s s') \<longleftrightarrow> \<not> blocks_retired s)
    \<and> (blocks_retired s \<longrightarrow> k_next s = 0 \<and> k_retired s = 0
         \<and> (\<forall>g < G. \<forall>b < B. b_worked (k_groups s ! g ! b) = b_worked (k_groups s ! g ! 0))
         \<and> mset (concat (map (\<lambda>bs. b_worked (bs ! 0)) (k_groups s))) = mset (active_experts counts cap))"
proof -
  have inv: "blocks_inv counts cap G B s"
    using reachable_blocks_inv [OF assms(2-5)] .
  have "\<not> blocks_retired s \<Longrightarrow> \<exists>s'. blocks_step bar counts cap s s'"
    by (rule blocks_progress [OF inv assms(4)])
  then show ?thesis
    using blocks_step_wf retired_stops blocks_done [OF inv assms(1) _ assms(2)] unfolding worked_of_def by blast
qed

text \<open>Two groups of two blocks on five experts, run by a fixed order of blocks.\<close>

fun run_blocks :: "(nat list \<Rightarrow> nat \<Rightarrow> bool) \<Rightarrow> nat list \<Rightarrow> nat \<Rightarrow> (nat \<times> nat) list \<Rightarrow> blocks_st \<Rightarrow> blocks_st" where
  "run_blocks bar counts cap [] s = s"
| "run_blocks bar counts cap ((g, b) # gbs) s =
     run_blocks bar counts cap gbs (case block_step bar counts cap g b s of None \<Rightarrow> s | Some s' \<Rightarrow> s')"

lemma run_blocks_reachable:
  assumes "shaped G B s" "\<forall>(g, b) \<in> set gbs. g < G \<and> b < B"
  shows "(blocks_step bar counts cap)\<^sup>*\<^sup>* s (run_blocks bar counts cap gbs s)"
  using assms
proof (induction gbs arbitrary: s)
  case (Cons gb gbs)
  obtain g b where gb: "gb = (g, b)" "g < G" "b < B" using Cons.prems(2) by (cases gb) auto
  show ?case
  proof (cases "block_step bar counts cap g b s")
    case (Some s')
    have "blocks_step bar counts cap s s'"
      using Some gb Cons.prems(1) shapedD [OF Cons.prems(1) gb(2)] by (intro blocks_step.block [of g s b]) (simp_all add: shaped_def)
    moreover have "shaped G B s'" using block_step_shaped [OF Some Cons.prems(1) gb(2)] .
    ultimately show ?thesis using Cons.IH [of s'] Cons.prems(2) gb(1) Some by (auto intro: converse_rtranclp_into_rtranclp)
  qed (use Cons gb in auto)
qed simp

definition demo_bar :: "nat list \<Rightarrow> nat \<Rightarrow> bool" where
  "demo_bar arrivals n = list_all ((\<le>) n) arrivals"

definition demo_blocks :: blocks_st where
  "demo_blocks = run_blocks demo_bar [2, 0, 9, 1, 3] 4
     (concat (replicate 40 [(1, 1), (1, 0), (0, 1)]) @ concat (replicate 40 [(0, 0), (0, 1)])) (blocks_launch [7, 7] 2 2)"

theorem block_launch_exact_witness:
  "k_next demo_blocks = 0 \<and> b_worked (k_groups demo_blocks ! 1 ! 1) = b_worked (k_groups demo_blocks ! 1 ! 0)
   \<and> mset (concat (map (\<lambda>bs. b_worked (bs ! 0)) (k_groups demo_blocks))) = {#0, 3, 4#}"
proof -
  have bar: "barrier_ok demo_bar" by (simp add: barrier_ok_def demo_bar_def)
  have sh: "shaped 2 2 (blocks_launch [7, 7] 2 2)" by (simp add: shaped_def blocks_launch_def list_all_length nth_Cons')
  have r: "(blocks_step demo_bar [2, 0, 9, 1, 3] 4)\<^sup>*\<^sup>* (blocks_launch [7, 7] 2 2) demo_blocks"
    unfolding demo_blocks_def by (rule run_blocks_reachable [OF sh]) auto
  have ret: "blocks_retired demo_blocks" by code_simp
  have act: "active_experts [2, 0, 9, 1, 3] 4 = [0, 3, 4]" by code_simp
  have two: "0 < (2 :: nat)" "length [7 :: nat, 7] = 2" "1 < (2 :: nat)" by simp_all
  from block_launch_exact [OF two(1) two(1,2) bar r] ret
  have "k_next demo_blocks = 0" "mset (concat (map (\<lambda>bs. b_worked (bs ! 0)) (k_groups demo_blocks))) = mset [0, 3, 4]"
    "b_worked (k_groups demo_blocks ! 1 ! 1) = b_worked (k_groups demo_blocks ! 1 ! 0)"
    unfolding act using two(3) by blast+
  then show ?thesis by simp
qed

end
