(* ===== verification/Moe_Tier.thy ===== *)
theory Moe_Tier
  imports Moe_Tables
begin

text \<open>
  Flags, fat-expert tiers, diagnostics and the grouped scratch of \<open>overlay/exl3.py\<close>. A tier is
  requested by environment flags (\<open>configured_fat_tier\<close>) and resolved once per layer at weight load
  against what the checkpoint, the device and the extension can run (\<open>grouped_fat_eligibility\<close>,
  \<open>resolve_exl3_fat_tier\<close>). Module globals (\<open>_EXL3_FAT_DIAG\<close>, \<open>_FAT_STATS\<close>, the grouped scratch
  cache) are the fields of the record \<open>moe_world\<close>, which the operations return updated.
\<close>

subsection \<open>Flags\<close>

definition env_not_zero :: "environ \<Rightarrow> string \<Rightarrow> string \<Rightarrow> bool" where
  "env_not_zero env name dflt \<longleftrightarrow> env_get env name dflt \<noteq> ''0''"

definition fused_moe_row_tile_enabled :: "environ \<Rightarrow> bool" where
  "fused_moe_row_tile_enabled env = env_not_zero env ''EXL3_MOE_ROW_TILE'' ''0''"

definition sorted_fat_fallback_enabled :: "environ \<Rightarrow> bool" where
  "sorted_fat_fallback_enabled env = env_not_zero env ''EXL3_FAT_SORTED'' ''0''"

definition batched_fat_fallback_enabled :: "environ \<Rightarrow> bool" where
  "batched_fat_fallback_enabled env = env_not_zero env ''EXL3_FAT_BATCHED'' ''0''"

definition fat_kernel_enabled :: "environ \<Rightarrow> bool" where
  "fat_kernel_enabled env = env_not_zero env ''EXL3_FAT_KERNEL'' ''0''"

definition grouped_fat_enabled :: "environ \<Rightarrow> bool" where
  "grouped_fat_enabled env = env_not_zero env ''EXL3_FAT_GROUPED'' ''0''"

definition fat_expert_log_enabled :: "environ \<Rightarrow> bool" where
  "fat_expert_log_enabled env =
     env_not_zero env ''EXL3_FAT_EXPERT_LOG'' (if grouped_fat_enabled env then ''0'' else ''1'')"

definition fused_moe_enabled :: "environ \<Rightarrow> bool" where
  "fused_moe_enabled env = env_not_zero env ''EXL3_FUSED_MOE'' ''1''"

definition TEMP_ROWS_FUSED :: int where
  "TEMP_ROWS_FUSED = 128"

definition temp_rows_fused :: "environ \<Rightarrow> int res" where
  "temp_rows_fused env =
     (let raw = py_strip (env_get env ''EXL3_TEMP_ROWS_FUSED'' '''')
      in if raw = [] then Inr TEMP_ROWS_FUSED
         else res_bind (py_int (PStr raw)) (\<lambda>n. Inr (max 1 n)))"

definition fused_moe_reuse_enabled :: "environ \<Rightarrow> bool res" where
  "fused_moe_reuse_enabled env =
     (case env ''GLM53_EXL3_MOE_REUSE'' of
        None \<Rightarrow> Inr False
      | Some raw \<Rightarrow>
          if raw = '''' then Inr False
          else if raw \<notin> {''0'', ''1''} then Inl RuntimeError
          else Inr (raw = ''1''))"

subsection \<open>Which decode steps would lose experts\<close>

definition fused_temp_rows_decode_floor :: "int \<Rightarrow> int \<Rightarrow> int" where
  "fused_temp_rows_decode_floor max_num_seqs dflash_tokens = max_num_seqs * (dflash_tokens + 1)"

text \<open>The loop over a row with its set of seen ids.\<close>

fun unique_row :: "int set \<Rightarrow> int list \<Rightarrow> bool" where
  "unique_row seen [] = True"
| "unique_row seen (e # es) =
     (if e < 0 then unique_row seen es
      else if e \<in> seen then False
      else unique_row (insert e seen) es)"

definition unique_per_token_topk_ids :: "int list list \<Rightarrow> bool" where
  "unique_per_token_topk_ids ids = list_all (unique_row {}) ids"

definition unique_topk_hottest_upper_bound :: "int \<Rightarrow> int" where
  "unique_topk_hottest_upper_bound tokens = max 0 tokens"

definition fused_moe_decode_skips_fat :: "int \<Rightarrow> int \<Rightarrow> int \<Rightarrow> bool" where
  "fused_moe_decode_skips_fat tokens hottest cap = (if tokens > cap then False else hottest > cap)"

definition fused_moe_decode_skips_unique_topk :: "int \<Rightarrow> int \<Rightarrow> bool" where
  "fused_moe_decode_skips_unique_topk tokens cap =
     fused_moe_decode_skips_fat tokens (unique_topk_hottest_upper_bound tokens) cap"

definition w2_trf32_no_fallback_skip :: "int \<Rightarrow> bool \<Rightarrow> int option \<Rightarrow> int \<Rightarrow> bool" where
  "w2_trf32_no_fallback_skip tokens unique_topk hottest_expert_count cap =
     (if unique_topk then fused_moe_decode_skips_fat tokens (unique_topk_hottest_upper_bound tokens) cap
      else case hottest_expert_count of
          None \<Rightarrow> True
        | Some hottest \<Rightarrow> fused_moe_decode_skips_fat tokens hottest cap)"

subsection \<open>Tiers\<close>

definition configured_fat_tier :: "environ \<Rightarrow> string" where
  "configured_fat_tier env =
     (if grouped_fat_enabled env then ''grouped''
      else if fat_kernel_enabled env then ''kernel''
      else if batched_fat_fallback_enabled env then ''batched''
      else if sorted_fat_fallback_enabled env then ''sorted''
      else ''legacy'')"

text \<open>
  What importing the two extension modules finds: the symbols of \<open>exllamav3_ext\<close> and of
  \<open>exl3_fat_moe_ext\<close>, \<open>None\<close> when the import raises.
\<close>

record ext_mods =
  ext_main :: "string list option"
  ext_fat :: "string list option"

definition exl3_fat_symbols :: "ext_mods \<Rightarrow> bool \<times> bool \<times> bool" where
  "exl3_fat_symbols mods =
     (case ext_main mods of
        None \<Rightarrow> (False, False, False)
      | Some names \<Rightarrow> (''exl3_moe'' \<in> set names, ''exl3_fat_gemm'' \<in> set names, ''exl3_fat_gemm_scatter'' \<in> set names))"

definition EXL3_FAT_MOE_SYMBOLS :: "string list" where
  "EXL3_FAT_MOE_SYMBOLS =
     [''exl3_fat_moe_gather'', ''exl3_fat_moe_gateup'', ''exl3_fat_moe_down'',
      ''exl3_fat_moe_tile_rows_gateup'', ''exl3_fat_moe_tile_rows_down'']"

text \<open>\<open>load_fat_moe_ext() is not None\<close>; the answer is cached, and the modules do not change.\<close>

definition exl3_fat_moe_symbols :: "ext_mods \<Rightarrow> bool" where
  "exl3_fat_moe_symbols mods =
     (let carries = (\<lambda>m. case m of None \<Rightarrow> False | Some names \<Rightarrow> list_all (\<lambda>s. s \<in> set names) EXL3_FAT_MOE_SYMBOLS)
      in carries (ext_main mods) \<or> carries (ext_fat mods))"

text \<open>The decimal digits of an integer, as an f-string prints it.\<close>

fun nat_digits :: "nat \<Rightarrow> string" where
  "nat_digits n = (if n < 10 then [char_of (48 + n)] else nat_digits (n div 10) @ [char_of (48 + n mod 10)])"

definition int_digits :: "int \<Rightarrow> string" where
  "int_digits i = (if i < 0 then CHR ''-'' # nat_digits (nat (- i)) else nat_digits (nat i))"

text \<open>The attributes of a layer and of a packed matrix that the eligibility check reads.\<close>

record mat_info =
  mi_K :: int
  mi_mcg :: bool
  mi_mul1 :: bool
  mi_in_features :: int

record lay_info =
  li_bits :: int
  li_k_words :: int
  li_inners :: "mat_info list list"
  li_shared :: bool
  li_hidden :: int
  li_inter :: int
  li_device_type :: string
  li_device :: nat
  li_tensor_devices :: "(string \<times> nat) list"

definition EXL3_FAT_MOE_MIN_K :: int where
  "EXL3_FAT_MOE_MIN_K = 128"

fun inner_refusal :: "mat_info list \<Rightarrow> string option" where
  "inner_refusal [] = None"
| "inner_refusal (m # ms) =
     (if mi_K m \<noteq> 4 then Some (''K_'' @ int_digits (mi_K m))
      else if \<not> mi_mcg m then Some ''not_mcg''
      else if mi_mul1 m then Some ''mul1''
      else inner_refusal ms)"

definition grouped_fat_eligibility :: "int \<times> int \<Rightarrow> lay_info \<Rightarrow> bool \<times> string" where
  "grouped_fat_eligibility capability li =
     (if li_bits li \<noteq> 4 then (False, ''bits_'' @ int_digits (li_bits li))
      else if li_k_words li \<noteq> 64 then (False, ''k_words_'' @ int_digits (li_k_words li))
      else if li_inners li = [] then (False, ''no_inners'')
      else case inner_refusal (concat (li_inners li)) of Some r \<Rightarrow> (False, r)
      | None \<Rightarrow>
        (let ks = map mi_in_features (concat (li_inners li)) in
         if ks = [] then (False, ''k_in_None'')
         else if Min (set ks) < EXL3_FAT_MOE_MIN_K then (False, ''k_in_'' @ int_digits (Min (set ks)))
         else if \<not> li_shared li then (False, ''shared_suh_absent'')
         else if li_hidden li \<le> 0 \<or> li_hidden li mod 256 \<noteq> 0 then (False, ''hidden_'' @ int_digits (li_hidden li))
         else if li_inter li \<le> 0 \<or> li_inter li mod 128 \<noteq> 0 then (False, ''intermediate_'' @ int_digits (li_inter li))
         else if li_device_type li \<noteq> ''cuda'' then (False, ''device_'' @ li_device_type li)
         else case find (\<lambda>(name, d). d \<noteq> li_device li) (li_tensor_devices li) of
             Some (name, d) \<Rightarrow> (False, ''device_mismatch_'' @ name)
           | None \<Rightarrow>
             if fst capability < 9 \<or> (fst capability = 9 \<and> snd capability < 0)
             then (False, ''capability_'' @ int_digits (fst capability) @ ''.'' @ int_digits (snd capability))
             else (True, ''eligible'')))"

definition resolve_exl3_fat_tier ::
  "environ \<Rightarrow> bool \<Rightarrow> bool \<times> bool \<times> bool \<Rightarrow> bool \<Rightarrow> bool \<times> string \<Rightarrow> (string \<times> string) res"
where
  "resolve_exl3_fat_tier env shared symbols fat_moe_symbols grouped_eligible =
     (let configured = configured_fat_tier env in
      if configured = ''legacy'' then Inr (configured, ''none_requested'')
      else if configured = ''grouped'' \<and> \<not> fat_moe_symbols then Inl RuntimeError
      else if \<not> shared \<and> configured \<in> {''grouped'', ''kernel'', ''batched''} then Inr (''sorted'', ''shared_suh_absent'')
      else if configured = ''grouped'' \<and> fst grouped_eligible then Inr (configured, ''grouped_ok'')
      else
        let (configured, reason_prefix) =
              (if configured = ''grouped'' then (''kernel'', ''grouped_ineligible_'' @ snd grouped_eligible @ '':'')
               else (configured, ''''))
        in if configured = ''kernel'' \<and> \<not> (fst (snd symbols) \<and> snd (snd symbols)) then Inl RuntimeError
           else Inr (configured, reason_prefix @ configured @ ''_ok''))"

subsection \<open>Diagnostics\<close>

definition FAT_TIERS :: "string list" where
  "FAT_TIERS = [''grouped'', ''kernel'', ''batched'', ''sorted'', ''legacy'']"

record fat_diag =
  d_configured_tier :: string
  d_effective_tier :: string
  d_tier_reason :: string
  d_shared_suh :: bool
  d_shared_suh_layers :: nat
  d_moe_layers_loaded :: nat
  d_symbols :: "bool \<times> bool \<times> bool"
  d_sym_fat_moe :: bool
  d_grouped_calls :: nat
  d_grouped_scratch_bytes :: nat
  d_grouped_scratch_growths :: nat
  d_grouped_eligible :: bool
  d_cap :: "int \<times> int"
  d_cap_ok :: bool
  d_tp :: "int \<times> int"
  d_prefill_layer_calls :: nat
  d_thin_calls :: nat
  d_row_tile_calls :: nat
  d_fallback_calls :: "(string \<times> nat) list"
  d_fallback_reasons :: "(string \<times> nat) list"

record fat_stats =
  s_layers :: nat
  s_fat_layers :: nat
  s_fat_experts :: nat
  s_max_rows :: nat
  s_sum_max_rows :: nat
  s_hist :: "nat list"

type_synonym scratch_key = "nat \<times> nat \<times> nat"

record moe_world =
  w_diag :: fat_diag
  w_stats :: fat_stats
  w_grouped_cache :: "(scratch_key \<times> nat) list"
  w_grouped_bytes :: "(scratch_key \<times> nat) list"
  w_fat_cache :: "(nat list \<times> nat) list"

text \<open>\<open>d[k] = d.get(k, 0) + 1\<close> and \<open>if k in d: d[k] += 1\<close> on a dict in insertion order.\<close>

fun bump :: "string \<Rightarrow> (string \<times> nat) list \<Rightarrow> (string \<times> nat) list" where
  "bump k [] = [(k, 1)]"
| "bump k ((k', n) # d) = (if k' = k then (k', Suc n) # d else (k', n) # bump k d)"

definition record_exl3_fat_reason :: "string \<Rightarrow> moe_world \<Rightarrow> moe_world" where
  "record_exl3_fat_reason reason w =
     w\<lparr>w_diag := (w_diag w)\<lparr>d_fallback_reasons := bump reason (d_fallback_reasons (w_diag w))\<rparr>\<rparr>"

definition count_fat_tier :: "string \<Rightarrow> moe_world \<Rightarrow> moe_world" where
  "count_fat_tier tier w =
     (if tier \<in> fst ` set (d_fallback_calls (w_diag w))
      then w\<lparr>w_diag := (w_diag w)\<lparr>d_fallback_calls := bump tier (d_fallback_calls (w_diag w))\<rparr>\<rparr>
      else w)"

definition reset_exl3_fat_diag_counters :: "moe_world \<Rightarrow> moe_world" where
  "reset_exl3_fat_diag_counters w =
     w\<lparr>w_diag := (w_diag w)\<lparr>d_prefill_layer_calls := 0, d_thin_calls := 0, d_row_tile_calls := 0, d_grouped_calls := 0,
        d_fallback_calls := map (\<lambda>t. (t, 0)) FAT_TIERS, d_fallback_reasons := [],
        d_grouped_scratch_bytes := sum_list (map snd (w_grouped_bytes w))\<rparr>\<rparr>"

definition FAT_BUCKET_EDGES :: "nat list" where
  "FAT_BUCKET_EDGES = [16, 32, 64, 128, 256, 512, 1024, 2048]"

definition fat_bucket :: "nat \<Rightarrow> nat" where
  "fat_bucket n = length (takeWhile (\<lambda>edge. \<not> n \<le> edge) FAT_BUCKET_EDGES)"

definition reset_exl3_fat_expert_stats :: "moe_world \<Rightarrow> moe_world" where
  "reset_exl3_fat_expert_stats w =
     w\<lparr>w_stats := \<lparr>s_layers = 0, s_fat_layers = 0, s_fat_experts = 0, s_max_rows = 0, s_sum_max_rows = 0,
        s_hist = replicate (length FAT_BUCKET_EDGES + 1) 0\<rparr>\<rparr>"

text \<open>
  The statistics of one prefill layer. The largest count is the caller's or is taken here; the fat
  experts are counted against \<open>EXL3_TEMP_ROWS_FUSED\<close>. The log line of every 42nd layer is left out.
\<close>

definition record_exl3_fat_expert_stats :: "environ \<Rightarrow> nat list \<Rightarrow> nat option \<Rightarrow> moe_world \<Rightarrow> moe_world res" where
  "record_exl3_fat_expert_stats env counts max_rows w =
     res_bind (temp_rows_fused env) (\<lambda>cap.
       let m = (case max_rows of None \<Rightarrow> foldr max counts 0 | Some m \<Rightarrow> m);
           n_fat = length (filter (\<lambda>n. int n > cap) counts);
           st = w_stats w;
           st = st\<lparr>s_layers := s_layers st + 1, s_sum_max_rows := s_sum_max_rows st + m,
                  s_hist := (s_hist st)[fat_bucket m := s_hist st ! fat_bucket m + 1]\<rparr>;
           st = (if m > s_max_rows st then st\<lparr>s_max_rows := m\<rparr> else st);
           st = (if n_fat \<noteq> 0 then st\<lparr>s_fat_layers := s_fat_layers st + 1, s_fat_experts := s_fat_experts st + n_fat\<rparr> else st)
       in Inr (w\<lparr>w_stats := st\<rparr>))"

subsection \<open>The grouped scratch\<close>

definition GROUPED_SCRATCH_MIN_ROWS :: int where
  "GROUPED_SCRATCH_MIN_ROWS = 256"

definition grouped_scratch_capacity :: "int \<Rightarrow> int \<Rightarrow> int" where
  "grouped_scratch_capacity rows scratch_rows =
     (let needed = max GROUPED_SCRATCH_MIN_ROWS rows; floor = max 0 scratch_rows in max needed floor)"

definition grouped_scratch_bytes_for :: "int \<Rightarrow> int \<Rightarrow> int \<Rightarrow> int" where
  "grouped_scratch_bytes_for hidden intermediate rows = rows * hidden * 2 + rows * intermediate * 2"

definition grouped_scratch_rows_env :: "environ \<Rightarrow> int res" where
  "grouped_scratch_rows_env env =
     (let raw = py_strip (env_get env ''EXL3_FAT_SCRATCH_ROWS'' '''')
      in if raw = [] then Inr 0 else res_bind (py_int (PStr raw)) (\<lambda>n. Inr (max 0 n)))"

fun dict_put :: "'k \<Rightarrow> 'v \<Rightarrow> ('k \<times> 'v) list \<Rightarrow> ('k \<times> 'v) list" where
  "dict_put k v [] = [(k, v)]"
| "dict_put k v ((k', v') # d) = (if k' = k then (k', v) # d else (k', v') # dict_put k v d)"

definition grow_scratch :: "scratch_key \<Rightarrow> nat \<Rightarrow> moe_world \<Rightarrow> moe_world" where
  "grow_scratch key needed w =
     (let (device, hidden, intermediate) = key;
          bytes = dict_put key (nat (grouped_scratch_bytes_for (int hidden) (int intermediate) (int needed))) (w_grouped_bytes w);
          d = w_diag w
      in w\<lparr>w_grouped_cache := dict_put key needed (w_grouped_cache w), w_grouped_bytes := bytes,
           w_diag := d\<lparr>d_grouped_scratch_bytes := sum_list (map snd bytes),
                      d_grouped_scratch_growths := d_grouped_scratch_growths d + 1\<rparr>\<rparr>)"

text \<open>
  Rows the cached buffers have afterwards: an entry that is large enough is kept, otherwise a new
  one is allocated, which graph capture forbids.
\<close>

definition grouped_scratch ::
  "environ \<Rightarrow> bool \<Rightarrow> nat \<Rightarrow> nat \<Rightarrow> nat \<Rightarrow> nat \<Rightarrow> moe_world \<Rightarrow> nat res \<times> moe_world"
where
  "grouped_scratch env capturing device rows hidden intermediate w =
     (case grouped_scratch_rows_env env of
        Inl x \<Rightarrow> (Inl x, w)
      | Inr scratch_rows \<Rightarrow>
          let needed = nat (grouped_scratch_capacity (int rows) scratch_rows);
              key = (device, hidden, intermediate)
          in case map_of (w_grouped_cache w) key of
               Some have_rows \<Rightarrow>
                 if have_rows \<ge> needed then (Inr have_rows, w)
                 else if capturing then (Inl RuntimeError, w)
                 else (Inr needed, grow_scratch key needed w)
             | None \<Rightarrow>
                 if capturing then (Inl RuntimeError, w)
                 else (Inr needed, grow_scratch key needed w))"

subsection \<open>The scratch of the batched tiers\<close>

fun bit_length :: "nat \<Rightarrow> nat" where
  "bit_length n = (if n = 0 then 0 else Suc (bit_length (n div 2)))"

declare bit_length.simps [simp del]

definition fat_scratch_rows :: "environ \<Rightarrow> int res" where
  "fat_scratch_rows env =
     (let raw = env_get env ''EXL3_FAT_SCRATCH_ROWS'' (env_get env ''MAX_NUM_BATCHED_TOKENS'' ''0'')
      in if raw = [] then Inr 0 else py_int (PStr raw))"

definition fat_capacity :: "nat \<Rightarrow> int \<Rightarrow> nat" where
  "fat_capacity rows configured = (let needed = nat (max 256 (max (int rows) configured)) in 2 ^ bit_length (needed - 1))"

text \<open>Rows of the shared buffers of a key afterwards; the settings are read first, and may not parse.\<close>

definition fat_scratch :: "environ \<Rightarrow> nat list \<Rightarrow> nat \<Rightarrow> moe_world \<Rightarrow> (nat \<times> moe_world) res" where
  "fat_scratch env key rows w =
     res_bind (fat_scratch_rows env) (\<lambda>configured.
       let grown = fat_capacity rows configured in
       case map_of (w_fat_cache w) key of
         Some have_rows \<Rightarrow>
           if have_rows \<ge> rows then Inr (have_rows, w)
           else Inr (grown, w\<lparr>w_fat_cache := dict_put key grown (w_fat_cache w)\<rparr>)
       | None \<Rightarrow> Inr (grown, w\<lparr>w_fat_cache := dict_put key grown (w_fat_cache w)\<rparr>))"

lemma bit_length_bounds: "n < 2 ^ bit_length n \<and> (0 < n \<longrightarrow> 2 ^ bit_length n \<le> 2 * n)"
proof (induction n rule: bit_length.induct)
  case (1 n)
  show ?case
  proof (cases "n = 0")
    case False
    then show ?thesis
      using 1 by (cases "n div 2 = 0") (auto simp: bit_length.simps [of n] bit_length.simps [of 0])
  qed (simp add: bit_length.simps)
qed

text \<open>The buffers hold the rows, and are at most twice what is needed.\<close>

lemma pow2_cover: "(2::nat) \<le> n \<Longrightarrow> n \<le> 2 ^ bit_length (n - 1) \<and> 2 ^ bit_length (n - 1) < 2 * n"
proof -
  assume n: "2 \<le> n"
  then obtain m where m: "n = Suc m" "0 < m"
    by (cases n) auto
  show ?thesis
    using bit_length_bounds [of m] m by auto
qed

lemma fat_capacity_bounds:
  "rows \<le> fat_capacity rows c \<and> 256 \<le> fat_capacity rows c \<and> int (fat_capacity rows c) < 2 * max 256 (max (int rows) c)"
proof -
  define k where "k = max 256 (max (int rows) c)"
  have k: "256 \<le> k" "int rows \<le> k"
    unfolding k_def by (rule max.cobounded1, rule max.coboundedI2, rule max.cobounded1)
  have "fat_capacity rows c = 2 ^ bit_length (nat k - 1)"
    by (simp only: fat_capacity_def Let_def k_def)
  then have "nat k \<le> fat_capacity rows c" "fat_capacity rows c < 2 * nat k"
    using pow2_cover [of "nat k"] k(1) by simp_all
  then show ?thesis
    unfolding k_def [symmetric] using k by linarith
qed

lemma fat_scratch_enough: "fat_scratch env key rows w = Inr (n, w') \<Longrightarrow> rows \<le> n \<and> w_diag w' = w_diag w"
  using fat_capacity_bounds [of rows]
  by (auto simp: fat_scratch_def res_bind_Inr Let_def split: option.splits if_splits)

subsection \<open>Resolution at weight load\<close>

record resolution =
  r_eligible :: "bool \<times> string"
  r_tier :: string
  r_reason :: string

text \<open>
  The tier of a layer, and the diagnostics it leaves; a refusal raises before anything is recorded.
  The log lines are left out.
\<close>

definition record_exl3_fat_resolution ::
  "environ \<Rightarrow> ext_mods \<Rightarrow> int \<times> int \<Rightarrow> int \<times> int \<Rightarrow> lay_info \<Rightarrow> moe_world \<Rightarrow> (resolution \<times> moe_world) res"
where
  "record_exl3_fat_resolution env mods capability tp li w =
     (let eligible = (if grouped_fat_enabled env then grouped_fat_eligibility capability li else (False, ''grouped_off'')) in
      res_bind (resolve_exl3_fat_tier env (li_shared li) (exl3_fat_symbols mods) (exl3_fat_moe_symbols mods) eligible)
        (\<lambda>(tier, reason).
          let d = w_diag w;
              loaded = d_moe_layers_loaded d + 1;
              shared_layers = d_shared_suh_layers d + (if li_shared li then 1 else 0);
              d = d\<lparr>d_moe_layers_loaded := loaded, d_shared_suh_layers := shared_layers,
                    d_shared_suh := (shared_layers = loaded), d_configured_tier := configured_fat_tier env,
                    d_symbols := exl3_fat_symbols mods,
                    d_sym_fat_moe := (if grouped_fat_enabled env then exl3_fat_moe_symbols mods else False),
                    d_grouped_eligible := fst eligible, d_cap := capability,
                    d_cap_ok := (fst capability > 8 \<or> fst capability = 8 \<and> snd capability \<ge> 0), d_tp := tp,
                    d_grouped_scratch_bytes := sum_list (map snd (w_grouped_bytes w))\<rparr>;
              d = (if d_tier_reason d = ''unresolved'' \<or> d_effective_tier d \<noteq> tier
                   then d\<lparr>d_effective_tier := tier, d_tier_reason := reason\<rparr> else d)
          in Inr (\<lparr>r_eligible = eligible, r_tier = tier, r_reason = reason\<rparr>, w\<lparr>w_diag := d\<rparr>)))"

subsection \<open>Resolution only picks what can run\<close>

definition tier_rank :: "string \<Rightarrow> nat" where
  "tier_rank t = length (takeWhile (\<lambda>u. u \<noteq> t) FAT_TIERS)"

lemma configured_cases:
  "configured_fat_tier env = ''grouped'' \<longleftrightarrow> grouped_fat_enabled env"
  "configured_fat_tier env = ''kernel'' \<longleftrightarrow> \<not> grouped_fat_enabled env \<and> fat_kernel_enabled env"
  "configured_fat_tier env = ''batched'' \<longleftrightarrow>
     \<not> grouped_fat_enabled env \<and> \<not> fat_kernel_enabled env \<and> batched_fat_fallback_enabled env"
  "configured_fat_tier env \<in> set FAT_TIERS"
  by (simp_all add: configured_fat_tier_def FAT_TIERS_def)

lemma resolve_table:
  "resolve_exl3_fat_tier env shared symbols fm el =
     (let syms = fst (snd symbols) \<and> snd (snd symbols) in
      if grouped_fat_enabled env then
        if \<not> fm then Inl RuntimeError
        else if \<not> shared then Inr (''sorted'', ''shared_suh_absent'')
        else if fst el then Inr (''grouped'', ''grouped_ok'')
        else if syms then Inr (''kernel'', ''grouped_ineligible_'' @ snd el @ '':'' @ ''kernel_ok'')
        else Inl RuntimeError
      else if fat_kernel_enabled env then
        if \<not> shared then Inr (''sorted'', ''shared_suh_absent'')
        else if syms then Inr (''kernel'', ''kernel_ok'') else Inl RuntimeError
      else if batched_fat_fallback_enabled env then
        if \<not> shared then Inr (''sorted'', ''shared_suh_absent'') else Inr (''batched'', ''batched_ok'')
      else if sorted_fat_fallback_enabled env then Inr (''sorted'', ''sorted_ok'')
      else Inr (''legacy'', ''none_requested''))"
  by (simp add: resolve_exl3_fat_tier_def Let_def configured_fat_tier_def)

lemma tier_ranks:
  "tier_rank ''grouped'' = 0" "tier_rank ''kernel'' = 1" "tier_rank ''batched'' = 2" "tier_rank ''sorted'' = 3"
  "tier_rank ''legacy'' = 4"
  by (simp_all add: tier_rank_def FAT_TIERS_def)

lemma resolve_facts:
  assumes "resolve_exl3_fat_tier env shared symbols fm el = Inr (tier, reason)"
  shows "tier \<in> set FAT_TIERS" "tier_rank (configured_fat_tier env) \<le> tier_rank tier"
    "tier = ''grouped'' \<Longrightarrow> fm \<and> shared \<and> fst el \<and> grouped_fat_enabled env"
    "tier = ''kernel'' \<Longrightarrow> shared \<and> fst (snd symbols) \<and> snd (snd symbols)"
    "tier = ''batched'' \<Longrightarrow> shared"
    "grouped_fat_enabled env \<or> fat_kernel_enabled env \<Longrightarrow> shared \<Longrightarrow>
       tier = ''grouped'' \<or> fst (snd symbols) \<and> snd (snd symbols)"
proof -
  show "tier \<in> set FAT_TIERS"
    using assms unfolding resolve_table Let_def by (auto simp: FAT_TIERS_def split: if_splits)
  show "tier_rank (configured_fat_tier env) \<le> tier_rank tier"
    using assms unfolding resolve_table Let_def configured_fat_tier_def by (auto simp: tier_ranks split: if_splits)
qed (use assms in \<open>auto simp: resolve_table Let_def split: if_splits\<close>)

lemma resolve_refuses:
  "resolve_exl3_fat_tier env shared symbols fm el = Inl x \<longleftrightarrow>
     x = RuntimeError \<and>
     (grouped_fat_enabled env \<and> \<not> fm \<or>
      shared \<and> \<not> (fst (snd symbols) \<and> snd (snd symbols)) \<and>
        (grouped_fat_enabled env \<and> \<not> fst el \<or> \<not> grouped_fat_enabled env \<and> fat_kernel_enabled env))"
  unfolding resolve_table Let_def by auto

subsection \<open>Unique top-k bounds the hottest expert\<close>

text \<open>No local expert is the image of two global ones.\<close>

definition em_inj :: "int list option \<Rightarrow> bool" where
  "em_inj expert_map = (case expert_map of None \<Rightarrow> True | Some em \<Rightarrow> distinct (filter (\<lambda>i. 0 \<le> i) em))"

definition local_id :: "nat \<Rightarrow> int list option \<Rightarrow> int \<Rightarrow> nat" where
  "local_id n em i = hd (map_topk_to_local [i] n em)"

lemma map_topk_local_id: "map_topk_to_local flat n em = map (local_id n em) flat"
  by (cases em) (simp_all add: map_topk_to_local_def local_id_def Let_def)

lemma unique_row_distinct: "unique_row seen es \<Longrightarrow> distinct (filter (\<lambda>i. 0 \<le> i) es) \<and> seen \<inter> set (filter (\<lambda>i. 0 \<le> i) es) = {}"
  by (induction seen es rule: unique_row.induct) (auto split: if_splits)

lemma distinct_nonneg_nth:
  assumes "distinct (filter (\<lambda>i. 0 \<le> i) em)" "a < length em" "b < length em" "em ! a = em ! b" "0 \<le> (em ! a :: int)"
  shows "a = b"
  using assms
proof (induction em arbitrary: a b)
  case (Cons x em)
  then show ?case
    by (cases a; cases b) (auto split: if_splits)
qed simp

lemma local_id_None: "local_id n None i = (if 0 \<le> i \<and> i < int n then nat i else n)"
  by (simp add: local_id_def map_topk_to_local_def)

lemma local_id_Some:
  "local_id n (Some m) i =
     (if 0 \<le> i \<and> i < int (length m) \<and> 0 \<le> m ! nat i \<and> m ! nat i < int n then nat (m ! nat i) else n)"
proof -
  have eq: "local_id n (Some m) i =
      (if i < 0 \<or> int (length m) \<le> i \<or>
          (if int (length m) \<noteq> 0 then m ! nat (min (max i 0) (max (int (length m) - 1) 0)) else int n) < 0 \<or>
          int n \<le> (if int (length m) \<noteq> 0 then m ! nat (min (max i 0) (max (int (length m) - 1) 0)) else int n)
       then n else nat (if int (length m) \<noteq> 0 then m ! nat (min (max i 0) (max (int (length m) - 1) 0)) else int n))"
    by (simp only: local_id_def map_topk_to_local_def option.case Let_def list.map list.sel)
  show ?thesis
  proof (cases "0 \<le> i \<and> i < int (length m)")
    case True
    have "max i 0 = i"
      using True by (intro max_absorb1) simp
    moreover have "max (int (length m) - 1) 0 = int (length m) - 1"
      using True by (intro max_absorb1) linarith
    moreover have "min i (int (length m) - 1) = i"
      using True by (intro min_absorb1) linarith
    moreover have "int (length m) \<noteq> 0"
      using True by linarith
    ultimately show ?thesis
      using True by (simp only: eq if_P) auto
  next
    case False
    then show ?thesis
      unfolding eq by (simp only: not_less not_le de_Morgan_conj) auto
  qed
qed

lemma local_id_lessD:
  assumes "local_id n (Some m) i < n"
  shows "0 \<le> i" "i < int (length m)" "0 \<le> m ! nat i" "local_id n (Some m) i = nat (m ! nat i)"
proof -
  have c: "0 \<le> i \<and> i < int (length m) \<and> 0 \<le> m ! nat i \<and> m ! nat i < int n"
    using assms unfolding local_id_Some by (rule contrapos_pp) (simp only: if_False less_irrefl not_False_eq_True)
  then show "0 \<le> i" "i < int (length m)" "0 \<le> m ! nat i"
    by simp_all
  show "local_id n (Some m) i = nat (m ! nat i)"
    unfolding local_id_Some using c by (rule if_P)
qed

lemma local_id_nonneg: "local_id n em i < n \<Longrightarrow> 0 \<le> i"
  by (cases em) (auto simp: local_id_None dest: local_id_lessD(1) split: if_splits)

lemma local_id_inj:
  assumes "em_inj em" "local_id n em i = local_id n em j" "local_id n em i < n"
  shows "i = j"
proof (cases em)
  case None
  then show ?thesis
    using assms(2,3) by (simp add: local_id_None split: if_splits)
next
  case (Some m)
  have lt: "local_id n (Some m) i < n" "local_id n (Some m) j < n"
    using assms(2,3) Some by simp_all
  have i: "0 \<le> i" "i < int (length m)" "0 \<le> m ! nat i" "local_id n (Some m) i = nat (m ! nat i)"
    by (fact local_id_lessD [OF lt(1)])+
  have j: "0 \<le> j" "j < int (length m)" "0 \<le> m ! nat j" "local_id n (Some m) j = nat (m ! nat j)"
    by (fact local_id_lessD [OF lt(2)])+
  have "m ! nat i = m ! nat j"
    using i(4) j(4) assms(2) Some eq_nat_nat_iff [OF i(3) j(3)] by simp
  then show ?thesis
    using distinct_nonneg_nth [of m "nat i" "nat j"] assms(1) Some i j eq_nat_nat_iff [OF i(1) j(1)]
    by (simp add: em_inj_def nat_less_iff)
qed

lemma count_list_filter: "count_list (map f xs) e = length (filter (\<lambda>x. f x = e) xs)"
  by (induction xs) auto

lemma distinct_same_length:
  assumes "distinct ys" "\<forall>i \<in> set ys. \<forall>j \<in> set ys. i = j"
  shows "length ys \<le> 1"
  by (metis assms List.finite_set One_nat_def card_le_Suc0_iff_eq distinct_card)

lemma unique_row_count:
  assumes "unique_row {} row" "em_inj em" "e < n"
  shows "count_list (map (local_id n em) row) e \<le> 1"
proof -
  let ?ys = "filter (\<lambda>i. local_id n em i = e) row"
  have "?ys = filter (\<lambda>i. local_id n em i = e) (filter (\<lambda>i. 0 \<le> i) row)"
    unfolding filter_filter by (rule filter_cong) (use local_id_nonneg [of n em] assms(3) in auto)
  moreover have "distinct (filter (\<lambda>i. 0 \<le> i) row)"
    using unique_row_distinct [OF assms(1)] by simp
  ultimately have "distinct ?ys"
    by (simp only: distinct_filter)
  moreover have "\<forall>i \<in> set ?ys. \<forall>j \<in> set ?ys. i = j"
    using local_id_inj [OF assms(2), of n] assms(3) by auto
  ultimately have "length ?ys \<le> 1"
    by (rule distinct_same_length)
  then show ?thesis
    by (simp add: count_list_filter)
qed

lemma unique_topk_count:
  assumes "unique_per_token_topk_ids ids" "em_inj em" "e < n"
  shows "count_list (map_topk_to_local (concat ids) n em) e \<le> length ids"
  using assms(1)
proof (induction ids)
  case (Cons row ids)
  then show ?case
    using unique_row_count [OF _ assms(2,3), of row] by (auto simp: unique_per_token_topk_ids_def map_topk_local_id)
qed (simp add: map_topk_local_id)

subsection \<open>The statistics add up\<close>

definition stats_ok :: "fat_stats \<Rightarrow> bool" where
  "stats_ok st \<longleftrightarrow>
     length (s_hist st) = length FAT_BUCKET_EDGES + 1 \<and> sum_list (s_hist st) = s_layers st \<and>
     s_fat_layers st \<le> s_layers st \<and> s_fat_layers st \<le> s_fat_experts st \<and>
     s_sum_max_rows st \<le> s_layers st * s_max_rows st"

lemma fat_bucket_le: "fat_bucket n \<le> length FAT_BUCKET_EDGES"
  unfolding fat_bucket_def by (rule length_takeWhile_le)

lemma sum_list_bump: "i < length xs \<Longrightarrow> sum_list (xs[i := xs ! i + 1]) = sum_list (xs :: nat list) + 1"
  by (induction xs arbitrary: i) (auto split: nat.splits)

lemma stats_ok_step:
  assumes "stats_ok st" "m \<le> mx" "s_max_rows st \<le> mx" "k \<le> f" "k \<le> 1"
    and "s_layers st' = s_layers st + 1" "s_sum_max_rows st' = s_sum_max_rows st + m"
      "s_hist st' = (s_hist st)[fat_bucket m := s_hist st ! fat_bucket m + 1]" "s_max_rows st' = mx"
      "s_fat_layers st' = s_fat_layers st + k" "s_fat_experts st' = s_fat_experts st + f"
  shows "stats_ok st'"
proof -
  have "s_layers st * s_max_rows st \<le> s_layers st * mx"
    using assms(3) by simp
  moreover have "s_sum_max_rows st \<le> s_layers st * s_max_rows st"
    using assms(1) by (simp add: stats_ok_def)
  ultimately have "s_sum_max_rows st + m \<le> mx + s_layers st * mx"
    using assms(2) by linarith
  then show ?thesis
    using assms sum_list_bump [of "fat_bucket m" "s_hist st"] fat_bucket_le [of m] by (auto simp: stats_ok_def)
qed

lemma record_stats_ok:
  assumes "stats_ok (w_stats w)" "record_exl3_fat_expert_stats env counts mr w = Inr w'"
  shows "stats_ok (w_stats w')"
proof -
  obtain cap where cap: "temp_rows_fused env = Inr cap"
    using assms(2) by (auto simp: record_exl3_fat_expert_stats_def res_bind_Inr)
  let ?m = "case mr of None \<Rightarrow> foldr max counts 0 | Some m \<Rightarrow> m"
  let ?n = "length (filter (\<lambda>n. int n > cap) counts)"
  note w' = assms(2) [unfolded record_exl3_fat_expert_stats_def cap res_bind.simps Let_def, simplified, symmetric]
  show ?thesis
    by (rule stats_ok_step [OF assms(1), of ?m "max ?m (s_max_rows (w_stats w))" "if ?n = 0 then 0 else 1" ?n])
      (auto simp: w' max_def Suc_le_eq)
qed

subsection \<open>The grouped scratch grows and never shrinks\<close>

definition scratch_ok :: "moe_world \<Rightarrow> bool" where
  "scratch_ok w \<longleftrightarrow>
     w_grouped_bytes w =
       map (\<lambda>(key, n). (key, nat (grouped_scratch_bytes_for (int (fst (snd key))) (int (snd (snd key))) (int n)))) (w_grouped_cache w)"

lemma map_of_dict_put: "map_of (dict_put k v d) = (map_of d)(k \<mapsto> v)"
  by (induction d) auto

lemma dict_put_map: "dict_put k (f k v) (map (\<lambda>(key, n). (key, f key n)) d) = map (\<lambda>(key, n). (key, f key n)) (dict_put k v d)"
  by (induction d) auto

lemma grow_scratch_ok: "scratch_ok w \<Longrightarrow> scratch_ok (grow_scratch key needed w)"
  using dict_put_map [of key "\<lambda>key n. nat (grouped_scratch_bytes_for (int (fst (snd key))) (int (snd (snd key))) (int n))" needed]
  by (auto simp: scratch_ok_def grow_scratch_def Let_def split_beta)

lemma grouped_scratch_cases:
  assumes "grouped_scratch env capturing device rows hidden itm w = (r, w')"
  obtains x where "r = Inl x" "w' = w"
  | n where "r = Inr n" "w' = w" "map_of (w_grouped_cache w) (device, hidden, itm) = Some n" "rows \<le> n"
  | n where "r = Inr n" "\<not> capturing" "w' = grow_scratch (device, hidden, itm) n w" "rows \<le> n" "256 \<le> n"
      "\<forall>m. map_of (w_grouped_cache w) (device, hidden, itm) = Some m \<longrightarrow> m < n"
proof (cases "grouped_scratch_rows_env env")
  case (Inl x)
  then show thesis
    using assms that(1) [of x] by (simp add: grouped_scratch_def)
next
  case (Inr b)
  let ?n = "nat (grouped_scratch_capacity (int rows) b)"
  have n: "rows \<le> ?n" "256 \<le> ?n"
    by (auto simp: grouped_scratch_capacity_def Let_def GROUPED_SCRATCH_MIN_ROWS_def)
  show thesis
    using assms Inr n that
    by (auto simp: grouped_scratch_def Let_def not_le split: option.splits if_splits)
qed

lemma grow_scratch_cache: "w_grouped_cache (grow_scratch key n w) = dict_put key n (w_grouped_cache w)"
  by (simp add: grow_scratch_def Let_def split_beta)

lemma grouped_scratch_rows:
  assumes "grouped_scratch env capturing device rows hidden itm w = (Inr n, w')"
  shows "rows \<le> n"
  using assms by (cases rule: grouped_scratch_cases) simp_all

subsection \<open>Properties\<close>

text \<open>(C12) The fat tier a layer ends up with never needs what is not there: grouped needs the grouped kernels,
  a checkpoint with shared scales and an eligible layer, kernel needs the two fat kernels and shared
  scales, batched needs shared scales; it is never a higher tier than the one requested; and the
  load is refused exactly when grouped is requested without its kernels, or when the kernel tier
  is where the request leads and one of its kernels is missing.
\<close>

theorem resolved_tier_runs:
  "(\<forall>tier reason. resolve_exl3_fat_tier env shared symbols fm el = Inr (tier, reason) \<longrightarrow>
      tier_rank (configured_fat_tier env) \<le> tier_rank tier \<and>
      (tier = ''grouped'' \<longrightarrow> fm \<and> shared \<and> fst el) \<and>
      (tier = ''kernel'' \<longrightarrow> shared \<and> fst (snd symbols) \<and> snd (snd symbols)) \<and>
      (tier = ''batched'' \<longrightarrow> shared)) \<and>
   (\<forall>x. resolve_exl3_fat_tier env shared symbols fm el = Inl x \<longleftrightarrow>
      x = RuntimeError \<and>
      (grouped_fat_enabled env \<and> \<not> fm \<or>
       shared \<and> \<not> (fst (snd symbols) \<and> snd (snd symbols)) \<and>
         (grouped_fat_enabled env \<and> \<not> fst el \<or> \<not> grouped_fat_enabled env \<and> fat_kernel_enabled env)))"
  using resolve_facts(2-5) [of env shared symbols fm el] resolve_refuses [of env shared symbols fm el] by blast

theorem resolved_tier_runs_witness:
  "resolve_exl3_fat_tier (\<lambda>k. if k = ''EXL3_FAT_GROUPED'' then Some ''1'' else None) True (True, True, True) True (False, ''bits_3'')
     = Inr (''kernel'', ''grouped_ineligible_bits_3:kernel_ok'') \<and>
   tier_rank ''grouped'' \<le> tier_rank ''kernel''"
proof -
  let ?env = "\<lambda>k. if k = ''EXL3_FAT_GROUPED'' then Some ''1'' else None"
  have r: "resolve_exl3_fat_tier ?env True (True, True, True) True (False, ''bits_3'')
      = Inr (''kernel'', ''grouped_ineligible_bits_3:kernel_ok'')"
    and c: "configured_fat_tier ?env = ''grouped''"
    by code_simp+
  show ?thesis
    using resolved_tier_runs [of ?env True "(True, True, True)" True "(False, ''bits_3'')"] r c by auto
qed

text \<open>(C14) When every token picks distinct experts and no two global experts share a local one, no local
  expert gets more rows than the batch has tokens; a decode step, whose tokens fit the
  temporaries, then never meets an expert the fused kernel skips, as
  \<open>fused_moe_decode_skips_unique_topk\<close> says.
\<close>

theorem unique_topk_never_drops:
  assumes "unique_per_token_topk_ids ids" "em_inj em" "e < n"
  shows "int (count_list (map_topk_to_local (concat ids) n em) e) \<le> unique_topk_hottest_upper_bound (int (length ids)) \<and>
         \<not> fused_moe_decode_skips_fat (int (length ids)) (int (count_list (map_topk_to_local (concat ids) n em) e)) cap \<and>
         \<not> fused_moe_decode_skips_unique_topk (int (length ids)) cap"
  using unique_topk_count [OF assms]
  by (auto simp: unique_topk_hottest_upper_bound_def fused_moe_decode_skips_fat_def fused_moe_decode_skips_unique_topk_def)

theorem unique_topk_never_drops_witness:
  "int (count_list (map_topk_to_local (concat [[0, 2], [2, 3], [-1, 2]]) 2 (Some [-1, 0, 1, -1])) 1) \<le> 3 \<and>
   \<not> fused_moe_decode_skips_unique_topk 3 2"
proof -
  have "unique_per_token_topk_ids [[0, 2], [2, 3], [-1, 2]]" "em_inj (Some [-1, 0, 1, -1])"
    by (simp_all add: unique_per_token_topk_ids_def em_inj_def)
  from unique_topk_never_drops [OF this, of 1 2 2] show ?thesis
    by (simp add: unique_topk_hottest_upper_bound_def)
qed

text \<open>(C22) The scratch of the grouped tier: a call gets at least the rows it asks for; a cached buffer
  never shrinks; under graph capture nothing is allocated; and the byte table stays the size of
  the cached buffers.
\<close>

theorem grouped_scratch_grows:
  assumes "scratch_ok w" "grouped_scratch env capturing device rows hidden itm w = (r, w')"
  shows "scratch_ok w' \<and> (case r of Inl _ \<Rightarrow> w' = w | Inr n \<Rightarrow> rows \<le> n) \<and>
         (capturing \<longrightarrow> w' = w) \<and>
         (\<forall>key n. map_of (w_grouped_cache w) key = Some n \<longrightarrow> (\<exists>m. map_of (w_grouped_cache w') key = Some m \<and> n \<le> m))"
  using assms(2)
proof (cases rule: grouped_scratch_cases)
  case (3 n)
  then show ?thesis
    using grow_scratch_ok [OF assms(1)] by (auto simp: grow_scratch_cache map_of_dict_put dest: less_imp_le)
qed (use assms(1) in auto)

definition demo_world :: moe_world where
  "demo_world = reset_exl3_fat_expert_stats (reset_exl3_fat_diag_counters
     \<lparr>w_diag = \<lparr>d_configured_tier = ''legacy'', d_effective_tier = ''legacy'', d_tier_reason = ''unresolved'', d_shared_suh = False,
        d_shared_suh_layers = 0, d_moe_layers_loaded = 0, d_symbols = (False, False, False), d_sym_fat_moe = False,
        d_grouped_calls = 0, d_grouped_scratch_bytes = 0, d_grouped_scratch_growths = 0, d_grouped_eligible = False,
        d_cap = (-1, -1), d_cap_ok = False, d_tp = (-1, 1), d_prefill_layer_calls = 0, d_thin_calls = 0, d_row_tile_calls = 0,
        d_fallback_calls = [], d_fallback_reasons = []\<rparr>,
      w_stats = \<lparr>s_layers = 0, s_fat_layers = 0, s_fat_experts = 0, s_max_rows = 0, s_sum_max_rows = 0, s_hist = []\<rparr>,
      w_grouped_cache = [], w_grouped_bytes = [], w_fat_cache = []\<rparr>)"

theorem grouped_scratch_grows_witness:
  "grouped_scratch (\<lambda>_. None) False 0 300 8 4 demo_world = (Inr 300, grow_scratch (0, 8, 4) 300 demo_world) \<and>
   scratch_ok (grow_scratch (0, 8, 4) 300 demo_world)"
proof -
  have ok: "scratch_ok demo_world"
    by (simp add: scratch_ok_def demo_world_def reset_exl3_fat_expert_stats_def reset_exl3_fat_diag_counters_def)
  have r: "grouped_scratch (\<lambda>_. None) False 0 300 8 4 demo_world = (Inr 300, grow_scratch (0, 8, 4) 300 demo_world)"
    by (simp add: grouped_scratch_def grouped_scratch_rows_env_def env_get_def py_strip_def Let_def grouped_scratch_capacity_def
        GROUPED_SCRATCH_MIN_ROWS_def demo_world_def reset_exl3_fat_expert_stats_def reset_exl3_fat_diag_counters_def)
  from grouped_scratch_grows [OF ok r] r show ?thesis
    by simp
qed

end
