(* ===== verification/Moe_Dispatch.thy ===== *)
theory Moe_Dispatch
  imports Moe_Tier Moe_Ticket
begin

text \<open>
  The routed-expert apply of \<open>overlay/exl3.py\<close>: pointer tables and the reuse alias
  (\<open>build_exl3_fused_state\<close>, \<open>alias_exl3_fused_up_suh\<close>), weight load
  (\<open>process_weights_after_loading\<close>), the dispatch over the tiers (\<open>apply_exl3_fused_moe\<close>) and
  \<open>apply_exl3_experts\<close>. The interface of a fat-expert path is the locale \<open>fat_path\<close>: on the sorted
  rows of a batch it adds the rows of the experts above the cap and nothing else. The sorted, the
  batched and the grouped path are its instances, and the client's lemma, that the fused launch
  followed by the path is the reference loop, is proved once. The main results are that every
  branch of the dispatch computes the reference loop on every layer that weight load accepts, and
  that the counters of the diagnostics account for every prefill call.
\<close>

subsection \<open>Pointer tables\<close>

record ('s, 't) ptr_tables =
  gate_trellis :: "'t list"
  gate_suh :: "'s list"
  gate_svh :: "'s list"
  up_trellis :: "'t list"
  up_suh :: "'s list"
  up_svh :: "'s list"
  down_trellis :: "'t list"
  down_suh :: "'s list"
  down_svh :: "'s list"

definition build_ptrs :: "('s, 't) pack list \<Rightarrow> ('s, 't) ptr_tables" where
  "build_ptrs inners =
     \<lparr>gate_trellis = map (\<lambda>p. l_trellis (p_gate p)) inners, gate_suh = map (\<lambda>p. l_suh (p_gate p)) inners,
      gate_svh = map (\<lambda>p. l_svh (p_gate p)) inners,
      up_trellis = map (\<lambda>p. l_trellis (p_up p)) inners, up_suh = map (\<lambda>p. l_suh (p_up p)) inners,
      up_svh = map (\<lambda>p. l_svh (p_up p)) inners,
      down_trellis = map (\<lambda>p. l_trellis (p_down p)) inners, down_suh = map (\<lambda>p. l_suh (p_down p)) inners,
      down_svh = map (\<lambda>p. l_svh (p_down p)) inners\<rparr>"

text \<open>The experts a kernel sees through the tables.\<close>

definition ptr_packs :: "('s, 't) ptr_tables \<Rightarrow> ('s, 't) pack list" where
  "ptr_packs t =
     map (\<lambda>e. \<lparr>p_gate = \<lparr>l_suh = gate_suh t ! e, l_trellis = gate_trellis t ! e, l_svh = gate_svh t ! e\<rparr>,
               p_up = \<lparr>l_suh = up_suh t ! e, l_trellis = up_trellis t ! e, l_svh = up_svh t ! e\<rparr>,
               p_down = \<lparr>l_suh = down_suh t ! e, l_trellis = down_trellis t ! e, l_svh = down_svh t ! e\<rparr>\<rparr>)
       [0..<length (gate_trellis t)]"

subsection \<open>Layers\<close>

text \<open>
  A layer after weight load. \<open>y_temp_rows\<close> is the second dimension of the fused temporaries;
  the \<open>y_last\<close> fields are labels the apply leaves.
\<close>

record ('s, 't) moe_layer =
  y_inners :: "('s, 't) pack list"
  y_shared :: bool
  y_ptrs :: "('s, 't) ptr_tables option"
  y_temp_rows :: "nat option"
  y_tier :: "string option"
  y_eligible :: "bool \<times> string"
  y_reuse_aliased :: bool
  y_expert_map :: "int list option"
  y_hidden :: nat
  y_inter :: nat
  y_k :: nat
  y_last_fallback :: string
  y_last_reason :: string
  y_last_apply :: string

text \<open>
  The context of a call: environment, modules, operations of the extension, \<open>argsort\<close>, tile heights
  of the grouped kernels, whether a graph is being captured, the device, and what uninitialised
  scratch rows hold.
\<close>

record ('r, 's, 't, 'w) moe_ctx =
  c_env :: environ
  c_mods :: ext_mods
  c_ops :: "('r, 's, 't, 'w) ext_ops"
  c_argsort :: "nat list \<Rightarrow> nat list"
  c_tile_gu :: nat
  c_tile_dn :: nat
  c_capturing :: bool
  c_device :: nat
  c_stale :: "nat \<Rightarrow> 'r"

subsection \<open>The alias and the fused state\<close>

definition alias_exl3_fused_up_suh :: "environ \<Rightarrow> ('s, 't) moe_layer \<Rightarrow> (bool \<times> ('s, 't) moe_layer) res" where
  "alias_exl3_fused_up_suh env y =
     (case y_ptrs y of
        None \<Rightarrow> Inr (False, y)
      | Some t \<Rightarrow>
          res_bind (fused_moe_reuse_enabled env) (\<lambda>reuse.
            if \<not> reuse then Inr (False, y)
            else if \<not> y_shared y then Inl RuntimeError
            else if env ''GLM53_EXL3_MOE_PIPELINE'' \<noteq> Some ''1'' then Inl RuntimeError
            else Inr (True, y\<lparr>y_ptrs := Some (t\<lparr>up_suh := gate_suh t\<rparr>), y_reuse_aliased := True\<rparr>)))"

definition build_exl3_fused_state :: "environ \<Rightarrow> ('s, 't) pack list \<Rightarrow> ('s, 't) moe_layer \<Rightarrow> ('s, 't) moe_layer res" where
  "build_exl3_fused_state env inners y =
     res_bind (temp_rows_fused env) (\<lambda>rows.
       let y = y\<lparr>y_ptrs := Some (build_ptrs inners), y_temp_rows := Some (nat rows)\<rparr>
       in res_bind (alias_exl3_fused_up_suh env y) (\<lambda>(aliased, y). Inr (y\<lparr>y_reuse_aliased := aliased\<rparr>)))"

subsection \<open>One batch\<close>

text \<open>The sorted routing of a batch and the launch of the fused kernel on it.\<close>

record ('r, 'w) batch =
  b_toks :: "nat list"
  b_wts :: "'w list"
  b_ecount :: "nat list"
  b_counts :: "nat list"

definition topk_of :: "'a list list \<Rightarrow> nat" where
  "topk_of ids = (case ids of [] \<Rightarrow> 0 | r # _ \<Rightarrow> length r)"

definition route_batch ::
  "(nat list \<Rightarrow> nat list) \<Rightarrow> nat \<Rightarrow> int list option \<Rightarrow> 'r list \<Rightarrow> int list list \<Rightarrow> 'w list list \<Rightarrow> ('r, 'w) batch"
where
  "route_batch argsort n_exp expert_map xs ids weights =
     (let local = map_topk_to_local (concat ids) n_exp expert_map;
          ftoken = flat_token (length xs) (topk_of ids);
          fweight = concat weights;
          order = argsort local;
          ecount = expert_count n_exp local
      in \<lparr>b_toks = map (\<lambda>i. ftoken ! i) order, b_wts = map (\<lambda>i. fweight ! i) order,
          b_ecount = ecount, b_counts = take n_exp ecount\<rparr>)"

definition fused_launch ::
  "('r::comm_monoid_add, 's, 't, 'w) ext_ops \<Rightarrow> ('s, 't) ptr_tables \<Rightarrow> 'r list \<Rightarrow> ('r, 'w) batch \<Rightarrow> nat \<Rightarrow> 'r list \<Rightarrow> 'r list"
where
  "fused_launch ops t xs b cap out = exl3_moe ops (ptr_packs t) xs (b_ecount b) (b_toks b) (b_wts b) cap out"

text \<open>\<open>apply_exl3_grouped_fat\<close>: missing kernels and a growth under capture raise; the call is counted.\<close>

definition apply_exl3_grouped_fat ::
  "('r::comm_monoid_add, 's, 't, 'w) moe_ctx \<Rightarrow> ('s, 't) moe_layer \<Rightarrow> ('s, 't) ptr_tables \<Rightarrow> 'r list \<Rightarrow> ('r, 'w) batch \<Rightarrow> nat \<Rightarrow>
   moe_world \<Rightarrow> 'r list \<Rightarrow> 'r list res \<times> moe_world"
where
  "apply_exl3_grouped_fat c y t xs b cap w out =
     (if \<not> exl3_fat_moe_symbols (c_mods c) then (Inl RuntimeError, w)
      else
        let rows_cap = length (b_toks b) in
        case grouped_scratch (c_env c) (c_capturing c) (c_device c) rows_cap (y_hidden y) (y_inter y) w of
          (Inl x, w) \<Rightarrow> (Inl x, w)
        | (Inr _, w) \<Rightarrow>
            (let h13 = map (c_stale c) [0..<rows_cap]; h2 = map (c_stale c) [0..<rows_cap] in
             (Inr (grouped_launches (c_ops c) (ptr_packs t) xs (b_counts b) (b_toks b) (b_wts b) cap
                     (c_tile_gu c) (c_tile_dn c) h13 h2 out),
              w\<lparr>w_diag := (w_diag w)\<lparr>d_grouped_calls := d_grouped_calls (w_diag w) + 1\<rparr>\<rparr>)))"

definition record_exl3_fat_tier ::
  "string \<Rightarrow> string \<Rightarrow> ('s, 't) moe_layer \<times> moe_world \<Rightarrow> ('s, 't) moe_layer \<times> moe_world"
where
  "record_exl3_fat_tier tier reason = (\<lambda>(y, w).
     (y\<lparr>y_last_fallback := tier, y_last_reason := reason\<rparr>, record_exl3_fat_reason reason (count_fat_tier tier w)))"

text \<open>\<open>if fat_expert_log_enabled(): record_exl3_fat_expert_stats(...)\<close>\<close>

definition log_stats :: "environ \<Rightarrow> nat list \<Rightarrow> nat option \<Rightarrow> moe_world \<Rightarrow> moe_world res" where
  "log_stats env counts max_rows w =
     (if fat_expert_log_enabled env then record_exl3_fat_expert_stats env counts max_rows w else Inr w)"

definition bump_thin :: "moe_world \<Rightarrow> moe_world" where
  "bump_thin w = w\<lparr>w_diag := (w_diag w)\<lparr>d_thin_calls := d_thin_calls (w_diag w) + 1\<rparr>\<rparr>"

definition bump_row_tile :: "moe_world \<Rightarrow> moe_world" where
  "bump_row_tile w = w\<lparr>w_diag := (w_diag w)\<lparr>d_row_tile_calls := d_row_tile_calls (w_diag w) + 1\<rparr>\<rparr>"

definition bump_prefill :: "moe_world \<Rightarrow> moe_world" where
  "bump_prefill w = w\<lparr>w_diag := (w_diag w)\<lparr>d_prefill_layer_calls := d_prefill_layer_calls (w_diag w) + 1\<rparr>\<rparr>"

subsection \<open>The dispatch\<close>

type_synonym ('r, 's, 't) moe_result = "'r list res \<times> ('s, 't) moe_layer \<times> moe_world"

text \<open>The E3 branch: thin experts in the fused kernel, then every fat expert in three launches.\<close>

definition grouped_branch ::
  "('r::comm_monoid_add, 's, 't, 'w) moe_ctx \<Rightarrow> ('s, 't) moe_layer \<Rightarrow> moe_world \<Rightarrow> ('s, 't) ptr_tables \<Rightarrow> nat \<Rightarrow>
   'r list \<Rightarrow> ('r, 'w) batch \<Rightarrow> 'r list \<Rightarrow> ('r, 's, 't) moe_result"
where
  "grouped_branch c y w t cap xs b out =
     (case apply_exl3_grouped_fat c y t xs b cap w (fused_launch (c_ops c) t xs b cap out) of
        (Inl x, w) \<Rightarrow> (Inl x, y, w)
      | (Inr out, w) \<Rightarrow>
          (let (y, w) = record_exl3_fat_tier ''grouped'' ''grouped_ok'' (y, w) in
           case log_stats (c_env c) (b_counts b) None w of
             Inl x \<Rightarrow> (Inl x, y, w)
           | Inr w \<Rightarrow> (Inr out, y, w)))"

text \<open>
  The buffers of the batched tiers after a call: they grow at each fat expert the loop reaches,
  which is the first one only when the kernels it then needs are missing.
\<close>

definition fat_key :: "nat \<Rightarrow> ('s, 't) moe_layer \<Rightarrow> nat list" where
  "fat_key device y = [device, y_hidden y, y_inter y, y_k y, 16 * y_k y]"

definition grow_fat_scratch :: "environ \<Rightarrow> nat list \<Rightarrow> nat list \<Rightarrow> moe_world \<Rightarrow> moe_world" where
  "grow_fat_scratch env key rows w =
     fold (\<lambda>n w. case fat_scratch env key n w of Inl _ \<Rightarrow> w | Inr (_, w') \<Rightarrow> w') rows w"

text \<open>The fat experts of a prefill after the fused launch: batched or kernel, sorted, or legacy.\<close>

definition fat_branch ::
  "('r::comm_monoid_add, 's, 't, 'w) moe_ctx \<Rightarrow> ('s, 't) moe_layer \<Rightarrow> moe_world \<Rightarrow> nat \<Rightarrow> 'r list \<Rightarrow>
   int list list \<Rightarrow> 'w list list \<Rightarrow> ('r, 'w) batch \<Rightarrow> 'r list \<Rightarrow> ('r, 's, 't) moe_result"
where
  "fat_branch c y w cap xs ids weights b out =
     (let env = c_env c; counts = b_counts b;
          want_fat_kernel = (fat_kernel_enabled env \<or> grouped_fat_enabled env);
          want_batched_fat = (batched_fat_fallback_enabled env \<or> want_fat_kernel);
          use_sorted_fat = (sorted_fat_fallback_enabled env \<or> want_batched_fat);
          use_batched_fat = (want_batched_fat \<and> y_shared y);
          use_fat_kernel = (use_batched_fat \<and> want_fat_kernel)
      in if use_batched_fat then
           let (y, w) = (if use_fat_kernel then record_exl3_fat_tier ''kernel'' ''kernel_ok'' (y, w)
                         else record_exl3_fat_tier ''batched'' ''batched_ok'' (y, w));
               (_, has_gemm, has_scatter) = exl3_fat_symbols (c_mods c);
               key = fat_key (c_device c) y;
               scr = (\<lambda>n. map_sum id (\<lambda>_. ()) (fat_scratch env key n w));
               fat_rows = filter (\<lambda>n. n > cap) counts;
               reached = (if use_fat_kernel \<and> \<not> (has_gemm \<and> has_scatter) then take 1 fat_rows else fat_rows)
           in (apply_exl3_batched_fat (c_ops c) scr has_gemm has_scatter (y_inners y) xs (b_toks b) (b_wts b) counts cap use_fat_kernel out,
               y, grow_fat_scratch env key reached w)
         else if use_sorted_fat then
           let (y, w) = record_exl3_fat_tier ''sorted'' (if want_batched_fat then ''degraded_shared_suh'' else ''sorted_ok'') (y, w)
           in (Inr (apply_exl3_sorted_fat (c_ops c) (y_inners y) xs (b_toks b) (b_wts b) counts cap out), y, w)
         else
           let (y, w) = record_exl3_fat_tier ''legacy'' ''legacy_default'' (y, w);
               fat = filter (\<lambda>e. counts ! e > cap) [0..<length counts]
           in (Inr (if fat = [] then out
                    else apply_exl3_python_loop (c_ops c) (y_inners y) xs ids weights (y_expert_map y) (Some (set fat)) out), y, w))"

text \<open>
  The other branches: the launch runs first when the batched path will need the counts on the host
  anyway, and later otherwise.
\<close>

definition host_branch ::
  "('r::comm_monoid_add, 's, 't, 'w) moe_ctx \<Rightarrow> ('s, 't) moe_layer \<Rightarrow> moe_world \<Rightarrow> ('s, 't) ptr_tables \<Rightarrow> nat \<Rightarrow>
   'r list \<Rightarrow> int list list \<Rightarrow> 'w list list \<Rightarrow> ('r, 'w) batch \<Rightarrow> 'r list \<Rightarrow> ('r, 's, 't) moe_result"
where
  "host_branch c y w t cap xs ids weights b out =
     (let env = c_env c; counts = b_counts b;
          use_row_tiles = fused_moe_row_tile_enabled env;
          launch = fused_launch (c_ops c) t xs b cap;
          use_batched_fat = ((batched_fat_fallback_enabled env \<or> fat_kernel_enabled env \<or> grouped_fat_enabled env) \<and> y_shared y);
          launched = (use_batched_fat \<and> \<not> use_row_tiles);
          out = (if launched then launch out else out);
          max_rows = foldr max counts 0
      in case log_stats env counts (Some max_rows) w of
           Inl x \<Rightarrow> (Inl x, y, w)
         | Inr w \<Rightarrow>
             if max_rows \<le> cap then
               (Inr (if launched then out else launch out), y, record_exl3_fat_reason ''thin_only'' (bump_thin w))
             else if use_row_tiles then
               let (y, w) = record_exl3_fat_tier ''row_tile'' ''row_tile_preempts_fat'' (y, bump_row_tile w)
               in (Inr (exl3_moe_row_tiles (c_ops c) (ptr_packs t) xs counts (b_toks b) (b_wts b) cap max_rows out), y, w)
             else fat_branch c y w cap xs ids weights b (if launched then out else launch out))"

definition apply_exl3_fused_moe ::
  "('r::comm_monoid_add, 's, 't, 'w) moe_ctx \<Rightarrow> ('s, 't) moe_layer \<Rightarrow> moe_world \<Rightarrow> 'r list \<Rightarrow> int list list \<Rightarrow> 'w list list \<Rightarrow>
   ('r, 's, 't) moe_result"
where
  "apply_exl3_fused_moe c y w xs ids weights =
     (case y_ptrs y of None \<Rightarrow> (Inl RuntimeError, y, w) | Some t \<Rightarrow>
      case y_temp_rows y of None \<Rightarrow> (Inl RuntimeError, y, w) | Some cap \<Rightarrow>
        (let env = c_env c; tokens = length xs;
             b = route_batch (c_argsort c) (length (y_inners y)) (y_expert_map y) xs ids weights;
             out = replicate tokens 0;
             y = y\<lparr>y_last_fallback := ''none'', y_last_reason := ''no_fat_experts''\<rparr>
         in if tokens \<le> cap then (Inr (fused_launch (c_ops c) t xs b cap out), y, w)
            else if grouped_fat_enabled env \<and> \<not> fused_moe_row_tile_enabled env \<and> y_tier y = Some ''grouped''
            then grouped_branch c y (bump_prefill w) t cap xs b out
            else host_branch c y (bump_prefill w) t cap xs ids weights b out))"

definition apply_exl3_experts ::
  "('r::comm_monoid_add, 's, 't, 'w) moe_ctx \<Rightarrow> bool option \<Rightarrow> ('s, 't) moe_layer \<Rightarrow> moe_world \<Rightarrow> 'r list \<Rightarrow> int list list \<Rightarrow>
   'w list list \<Rightarrow> ('r, 's, 't) moe_result"
where
  "apply_exl3_experts c fused y w xs ids weights =
     (if y_inners y = [] then (Inl RuntimeError, y, w)
      else if fused = Some True \<and> y_ptrs y = None then (Inl RuntimeError, y, w)
      else
        let use_fused = ((case fused of None \<Rightarrow> fused_moe_enabled (c_env c) | Some f \<Rightarrow> f) \<and> y_ptrs y \<noteq> None \<and>
                         fst (exl3_fat_symbols (c_mods c)))
        in if use_fused then
             case apply_exl3_fused_moe c y w xs ids weights of
               (Inl x, y, w) \<Rightarrow> (Inl x, y, w)
             | (Inr out, y, w) \<Rightarrow> (Inr out, y\<lparr>y_last_apply := ''fused''\<rparr>, w)
           else (Inr (apply_exl3_python_loop (c_ops c) (y_inners y) xs ids weights (y_expert_map y) None (replicate (length xs) 0)),
                 y\<lparr>y_last_apply := ''loop''\<rparr>, w))"

subsection \<open>Weight load\<close>

text \<open>
  What \<open>process_weights_after_loading\<close> finds: the marker words, the packed experts, the layer's
  attributes, the device capability and the TP identity.
\<close>

definition MCG_MARKER_SIGNED_INT32 :: int where
  "MCG_MARKER_SIGNED_INT32 = -877912083"

record ('s, 't) loaded =
  ld_mcg13 :: "int list"
  ld_mcg2 :: "int list"
  ld_packs :: "('s, 't) pack list"
  ld_info :: lay_info
  ld_capability :: "int \<times> int"
  ld_tp :: "int \<times> int"
  ld_expert_map :: "int list option"
  ld_hidden :: nat
  ld_inter :: nat

definition blank_layer :: "('s, 't) loaded \<Rightarrow> ('s, 't) moe_layer" where
  "blank_layer ld =
     \<lparr>y_inners = ld_packs ld, y_shared = shared_suh (ld_packs ld), y_ptrs = None, y_temp_rows = None, y_tier = None,
      y_eligible = (False, ''''), y_reuse_aliased = False, y_expert_map = ld_expert_map ld,
      y_hidden = ld_hidden ld, y_inter = ld_inter ld, y_k = nat (li_bits (ld_info ld)),
      y_last_fallback = ''none'', y_last_reason = '''', y_last_apply = ''''\<rparr>"

definition reuse_requirements :: "environ \<Rightarrow> bool \<Rightarrow> unit res" where
  "reuse_requirements env shared =
     res_bind (fused_moe_reuse_enabled env) (\<lambda>reuse.
       if reuse \<and> env ''GLM53_EXL3_MOE_PIPELINE'' \<noteq> Some ''1'' then Inl RuntimeError
       else if reuse \<and> \<not> fused_moe_enabled env then Inl RuntimeError
       else if reuse \<and> \<not> shared then Inl RuntimeError
       else Inr ())"

text \<open>
  The fused state is built when the kernel is there. A failure is remembered and the loop serves,
  unless reuse was asked for.
\<close>

definition build_or_loop :: "environ \<Rightarrow> ext_mods \<Rightarrow> ('s, 't) moe_layer \<Rightarrow> ('s, 't) moe_layer res" where
  "build_or_loop env mods y =
     res_bind (fused_moe_reuse_enabled env) (\<lambda>reuse.
       let attempt = (if fused_moe_enabled env \<and> fst (exl3_fat_symbols mods)
                      then map_sum id Some (build_exl3_fused_state env (y_inners y) y)
                      else Inr None)
       in case attempt of
            Inl x \<Rightarrow> if reuse then Inl RuntimeError else Inr (y\<lparr>y_ptrs := None\<rparr>)
          | Inr None \<Rightarrow> if reuse then Inl RuntimeError else Inr y
          | Inr (Some y') \<Rightarrow> Inr y')"

definition process_weights_after_loading ::
  "environ \<Rightarrow> ext_mods \<Rightarrow> ('s, 't) loaded \<Rightarrow> moe_world \<Rightarrow> (('s, 't) moe_layer \<times> moe_world) res"
where
  "process_weights_after_loading env mods ld w =
     (if \<not> (list_all (\<lambda>m. m = MCG_MARKER_SIGNED_INT32) (ld_mcg13 ld) \<and> list_all (\<lambda>m. m = MCG_MARKER_SIGNED_INT32) (ld_mcg2 ld))
      then Inl RuntimeError
      else
        let y = blank_layer ld in
        res_bind (record_exl3_fat_resolution env mods (ld_capability ld) (ld_tp ld) ((ld_info ld)\<lparr>li_shared := y_shared y\<rparr>) w)
          (\<lambda>(r, w).
            let y = y\<lparr>y_eligible := r_eligible r, y_tier := Some (r_tier r)\<rparr> in
            res_bind (reuse_requirements env (y_shared y)) (\<lambda>_.
              res_bind (build_or_loop env mods y) (\<lambda>y. Inr (y, w)))))"

subsection \<open>The interface of a fat-expert path\<close>

locale fat_path =
  fixes path :: "nat list \<Rightarrow> 'w list \<Rightarrow> nat list \<Rightarrow> nat \<Rightarrow> 'r::comm_monoid_add list \<Rightarrow> 'r list res"
    and ops :: "('r, 's, 't, 'w) ext_ops"
    and packs :: "('s, 't) pack list"
    and xs :: "'r list"
    and usable :: bool
  assumes adds_fat:
    "usable \<Longrightarrow> argsort_ok local order \<Longrightarrow> length toks = length local \<Longrightarrow> length wts = length local \<Longrightarrow>
     path (map ((!) toks) order) (map ((!) wts) order) (map (count_list local) [0..<length packs]) cap out =
     Inr (index_add out (map (contrib ops packs xs)
       (served (length packs) (\<lambda>e. cap < count_list local e) (routed local toks wts))))"
begin

lemma thin_then_fat:
  assumes "usable" "linear_ok ops" "argsort_ok local order" "length toks = length local" "length wts = length local"
  shows "path (map ((!) toks) order) (map ((!) wts) order) (map (count_list local) [0..<length packs]) cap
           (exl3_moe ops packs xs (expert_count (length packs) local) (map ((!) toks) order) (map ((!) wts) order) cap out) =
         Inr (index_add out (map (contrib ops packs xs) (served (length packs) (\<lambda>_. True) (routed local toks wts))))"
  using adds_fat [OF assms(1,3-5), of cap] index_add_split [of out "contrib ops packs xs" "length packs" "\<lambda>e. cap < count_list local e"]
  by (simp add: exl3_moe_served [OF assms(3-5,2)] not_less)

end

interpretation sorted_path: fat_path
  "\<lambda>toks wts counts cap out. Inr (apply_exl3_sorted_fat ops packs xs toks wts counts cap out)" ops packs xs True
  for ops packs xs
  by unfold_locales (simp add: apply_exl3_sorted_fat_served)

interpretation batched_path: fat_path
  "\<lambda>toks wts counts cap out. apply_exl3_batched_fat ops scr hg hs packs xs toks wts counts cap uk out" ops packs xs
  "linear_ok ops \<and> shared_suh packs \<and> (\<forall>n. scr n = Inr ()) \<and> (uk \<longrightarrow> hg \<and> hs)"
  for ops scr hg hs uk packs xs
  by unfold_locales (simp add: apply_exl3_batched_fat_served)

lemma sum_counts: "sum_list (map (count_list local) [0..<n]) = length (filter (\<lambda>x. x < n) local)"
proof (induction n)
  case (Suc n)
  have "length (filter (\<lambda>x. x < Suc n) local) = length (filter (\<lambda>x. x < n) local) + count_list local n"
    by (induction local) auto
  with Suc show ?case by simp
qed simp

lemma sum_counts_le: "sum_list (map (count_list local) [0..<n]) \<le> length local"
  by (simp add: sum_counts)

lemma grouped_launches_served:
  assumes u: "linear_ok ops" "shared_suh packs" "packs \<noteq> []" "0 < tg" "0 < td"
    and a: "argsort_ok local order" "length toks = length local" "length wts = length local"
  shows "grouped_launches ops packs xs (map (count_list local) [0..<length packs]) (map ((!) toks) order) (map ((!) wts) order) cap tg td
           (map stale [0..<length order]) (map stale [0..<length order]) out =
         index_add out (map (contrib ops packs xs) (served (length packs) (\<lambda>e. cap < count_list local e) (routed local toks wts)))"
proof -
  let ?toks = "map ((!) toks) order" and ?wts = "map ((!) wts) order"
  let ?counts = "map (count_list local) [0..<length packs]"
  have "grouped_launches ops packs xs ?counts ?toks ?wts cap tg td (map stale [0..<length order]) (map stale [0..<length order]) out =
      index_add out (map (contrib ops packs xs) (slice_items (\<lambda>m. cap < m) (zip ?toks ?wts) 0 0 ?counts))"
    using u argsort_ok_range(2) [OF a(1)] sum_counts_le [of local "length packs"]
    by (intro grouped_launches_items) simp_all
  also have "\<dots> = index_add out (map (contrib ops packs xs)
      (served (length packs) (\<lambda>e. cap < count_list local e) (routed local toks wts)))"
    by (intro index_add_mset mset_map_cong slice_items_served a)
  finally show ?thesis .
qed

interpretation grouped_path: fat_path
  "\<lambda>toks wts counts cap out. Inr (grouped_launches ops packs xs counts toks wts cap tg td
      (map stale [0..<length toks]) (map stale [0..<length toks]) out)" ops packs xs
  "linear_ok ops \<and> shared_suh packs \<and> packs \<noteq> [] \<and> 0 < tg \<and> 0 < td"
  for ops packs xs tg td stale
  by unfold_locales (simp add: grouped_launches_served)

subsection \<open>Well-formed calls\<close>

definition moe_reference ::
  "('r::comm_monoid_add, 's, 't, 'w) moe_ctx \<Rightarrow> ('s, 't) moe_layer \<Rightarrow> 'r list \<Rightarrow> int list list \<Rightarrow> 'w list list \<Rightarrow> 'r list"
where
  "moe_reference c y xs ids weights =
     apply_exl3_python_loop (c_ops c) (y_inners y) xs ids weights (y_expert_map y) None (replicate (length xs) 0)"

definition ctx_ok :: "('r, 's, 't, 'w) moe_ctx \<Rightarrow> bool" where
  "ctx_ok c \<longleftrightarrow> linear_ok (c_ops c) \<and> (\<forall>l. argsort_ok l (c_argsort c l)) \<and> 0 < c_tile_gu c \<and> 0 < c_tile_dn c"

text \<open>The settings a call reads can be parsed.\<close>

definition env_parses :: "environ \<Rightarrow> bool" where
  "env_parses env \<longleftrightarrow> is_ok (temp_rows_fused env) \<and> is_ok (grouped_scratch_rows_env env) \<and> is_ok (fat_scratch_rows env)"

text \<open>What weight load establishes of a layer.\<close>

definition layer_ok :: "environ \<Rightarrow> ext_mods \<Rightarrow> ('s, 't) moe_layer \<Rightarrow> bool" where
  "layer_ok env mods y \<longleftrightarrow>
     (y_shared y \<longrightarrow> shared_suh (y_inners y)) \<and>
     (\<forall>t. y_ptrs y = Some t \<longrightarrow> ptr_packs t = y_inners y) \<and>
     (y_tier y = Some ''grouped'' \<longrightarrow> exl3_fat_moe_symbols mods \<and> y_shared y \<and> grouped_fat_enabled env) \<and>
     ((grouped_fat_enabled env \<or> fat_kernel_enabled env) \<and> y_shared y \<longrightarrow>
        y_tier y = Some ''grouped'' \<or> fst (snd (exl3_fat_symbols mods)) \<and> snd (snd (exl3_fat_symbols mods)))"

definition batch_ok :: "int list option \<Rightarrow> 'r list \<Rightarrow> int list list \<Rightarrow> 'w list list \<Rightarrow> bool" where
  "batch_ok em xs ids weights \<longleftrightarrow>
     length ids = length xs \<and> length weights = length xs \<and> rect (topk_of ids) ids \<and> rect (topk_of ids) weights \<and>
     ids_in_map em (concat ids)"

text \<open>No expert has more rows than the temporaries hold, or the prefill path will look after it.\<close>

definition no_decode_drop :: "('s, 't) moe_layer \<Rightarrow> 'r list \<Rightarrow> int list list \<Rightarrow> bool" where
  "no_decode_drop y xs ids \<longleftrightarrow>
     (\<forall>cap. y_temp_rows y = Some cap \<longrightarrow> length xs \<le> cap \<longrightarrow>
        (\<forall>e < length (y_inners y). count_list (map_topk_to_local (concat ids) (length (y_inners y)) (y_expert_map y)) e \<le> cap))"

lemma route_batch_fields:
  "b_toks (route_batch argsort n em xs ids weights) =
     map ((!) (flat_token (length xs) (topk_of ids))) (argsort (map_topk_to_local (concat ids) n em))"
  "b_wts (route_batch argsort n em xs ids weights) = map ((!) (concat weights)) (argsort (map_topk_to_local (concat ids) n em))"
  "b_ecount (route_batch argsort n em xs ids weights) = expert_count n (map_topk_to_local (concat ids) n em)"
  "b_counts (route_batch argsort n em xs ids weights) = map (count_list (map_topk_to_local (concat ids) n em)) [0..<n]"
  by (simp_all add: route_batch_def Let_def expert_count_def)

text \<open>The routed rows of a call.\<close>

definition call_rows :: "('s, 't) moe_layer \<Rightarrow> 'r list \<Rightarrow> int list list \<Rightarrow> 'w list list \<Rightarrow> (nat \<times> nat \<times> 'w) list" where
  "call_rows y xs ids weights =
     routed (map_topk_to_local (concat ids) (length (y_inners y)) (y_expert_map y)) (flat_token (length xs) (topk_of ids)) (concat weights)"

lemma reference_served:
  assumes "batch_ok (y_expert_map y) xs ids weights"
  shows "apply_exl3_python_loop ops (y_inners y) xs ids weights (y_expert_map y) only out =
         index_add out (map (contrib ops (y_inners y) xs) (served (length (y_inners y)) (only_sel only) (call_rows y xs ids weights)))"
  using apply_exl3_python_loop_served [of ids weights "topk_of ids" "y_expert_map y" ops "y_inners y" xs only out] assms
  by (simp add: batch_ok_def call_rows_def)

lemma call_lengths:
  assumes "batch_ok em xs ids weights"
  shows "length (flat_token (length xs) (topk_of ids)) = length (map_topk_to_local (concat ids) n em)"
    "length (concat weights) = length (map_topk_to_local (concat ids) n em)"
  using assms length_concat_rect [of "topk_of ids" ids] length_concat_rect [of "topk_of ids" weights]
  by (simp_all add: batch_ok_def)

subsection \<open>Every branch computes the reference\<close>

text \<open>The facts all branches share: the sorted rows of a well-formed call.\<close>

lemma call_sorted:
  assumes "ctx_ok c" "batch_ok (y_expert_map y) xs ids weights"
  shows "argsort_ok (map_topk_to_local (concat ids) (length (y_inners y)) (y_expert_map y))
           (c_argsort c (map_topk_to_local (concat ids) (length (y_inners y)) (y_expert_map y)))"
    "length (flat_token (length xs) (topk_of ids)) = length (map_topk_to_local (concat ids) (length (y_inners y)) (y_expert_map y))"
    "length (concat weights) = length (map_topk_to_local (concat ids) (length (y_inners y)) (y_expert_map y))"
    "linear_ok (c_ops c)"
  using assms call_lengths [OF assms(2)] by (simp_all add: ctx_ok_def)

lemma moe_reference_served:
  assumes "batch_ok (y_expert_map y) xs ids weights"
  shows "moe_reference c y xs ids weights =
         index_add (replicate (length xs) 0) (map (contrib (c_ops c) (y_inners y) xs)
           (served (length (y_inners y)) (\<lambda>_. True) (call_rows y xs ids weights)))"
  unfolding moe_reference_def reference_served [OF assms] by (simp add: only_sel_def [abs_def])

definition call_count :: "('s, 't) moe_layer \<Rightarrow> int list list \<Rightarrow> nat \<Rightarrow> nat" where
  "call_count y ids e = count_list (map_topk_to_local (concat ids) (length (y_inners y)) (y_expert_map y)) e"

abbreviation call_batch where
  "call_batch c y xs ids weights \<equiv> route_batch (c_argsort c) (length (y_inners y)) (y_expert_map y) xs ids weights"

lemma fused_launch_served:
  assumes "ctx_ok c" "batch_ok (y_expert_map y) xs ids weights" "ptr_packs t = y_inners y"
  shows "fused_launch (c_ops c) t xs (call_batch c y xs ids weights) cap out =
         index_add out (map (contrib (c_ops c) (y_inners y) xs)
           (served (length (y_inners y)) (\<lambda>e. call_count y ids e \<le> cap) (call_rows y xs ids weights)))"
  unfolding fused_launch_def assms(3) route_batch_fields call_rows_def call_count_def
  by (rule exl3_moe_served [OF call_sorted [OF assms(1,2)]])

text \<open>When every expert fits, the launch is the whole sum.\<close>

lemma fused_launch_all:
  assumes "ctx_ok c" "batch_ok (y_expert_map y) xs ids weights" "ptr_packs t = y_inners y"
    and "\<And>e. e < length (y_inners y) \<Longrightarrow> call_count y ids e \<le> cap"
  shows "fused_launch (c_ops c) t xs (call_batch c y xs ids weights) cap (replicate (length xs) 0) = moe_reference c y xs ids weights"
proof -
  have "served (length (y_inners y)) (\<lambda>e. call_count y ids e \<le> cap) (call_rows y xs ids weights) =
        served (length (y_inners y)) (\<lambda>_. True) (call_rows y xs ids weights)"
    by (rule served_cong) (simp add: assms(4))
  then show ?thesis
    by (simp only: fused_launch_served [OF assms(1-3)] moe_reference_served [OF assms(2)])
qed

lemma sorted_call:
  assumes "ctx_ok c" "batch_ok (y_expert_map y) xs ids weights" "ptr_packs t = y_inners y"
  defines "b \<equiv> call_batch c y xs ids weights"
  shows "apply_exl3_sorted_fat (c_ops c) (y_inners y) xs (b_toks b) (b_wts b) (b_counts b) cap
           (fused_launch (c_ops c) t xs b cap (replicate (length xs) 0)) = moe_reference c y xs ids weights"
  unfolding b_def fused_launch_def assms(3) route_batch_fields moe_reference_served [OF assms(2)] call_rows_def
  by (rule Inr_inject [OF sorted_path.thin_then_fat [OF TrueI call_sorted(4,1-3) [OF assms(1,2)]]])

lemma batched_call:
  assumes "ctx_ok c" "batch_ok (y_expert_map y) xs ids weights" "ptr_packs t = y_inners y"
    and "shared_suh (y_inners y)" "uk \<longrightarrow> hg \<and> hs" "\<And>n. scr n = Inr ()"
  defines "b \<equiv> call_batch c y xs ids weights"
  shows "apply_exl3_batched_fat (c_ops c) scr hg hs (y_inners y) xs (b_toks b) (b_wts b) (b_counts b) cap uk
           (fused_launch (c_ops c) t xs b cap (replicate (length xs) 0)) = Inr (moe_reference c y xs ids weights)"
  unfolding b_def fused_launch_def assms(3) route_batch_fields moe_reference_served [OF assms(2)] call_rows_def
  using call_sorted(4) [OF assms(1,2)] assms(4-6)
  by (intro batched_path.thin_then_fat [OF _ call_sorted(4,1-3) [OF assms(1,2)]]) simp

lemma grouped_call:
  assumes "ctx_ok c" "batch_ok (y_expert_map y) xs ids weights" "ptr_packs t = y_inners y"
    and "shared_suh (y_inners y)" "y_inners y \<noteq> []"
  defines "b \<equiv> call_batch c y xs ids weights"
  shows "grouped_launches (c_ops c) (ptr_packs t) xs (b_counts b) (b_toks b) (b_wts b) cap (c_tile_gu c) (c_tile_dn c)
           (map (c_stale c) [0..<length (b_toks b)]) (map (c_stale c) [0..<length (b_toks b)])
           (fused_launch (c_ops c) t xs b cap (replicate (length xs) 0)) = moe_reference c y xs ids weights"
proof -
  have u: "linear_ok (c_ops c) \<and> shared_suh (y_inners y) \<and> y_inners y \<noteq> [] \<and> 0 < c_tile_gu c \<and> 0 < c_tile_dn c"
    using assms(1,4,5) by (simp add: ctx_ok_def)
  show ?thesis
    unfolding b_def fused_launch_def assms(3) route_batch_fields moe_reference_served [OF assms(2)] call_rows_def
    by (rule Inr_inject [OF grouped_path.thin_then_fat [OF u call_sorted(4,1-3) [OF assms(1,2)]]])
qed

lemma legacy_call:
  fixes cap :: nat
  assumes "ctx_ok c" "batch_ok (y_expert_map y) xs ids weights" "ptr_packs t = y_inners y"
  defines "b \<equiv> call_batch c y xs ids weights"
  defines "fat \<equiv> filter (\<lambda>e. b_counts b ! e > cap) [0..<length (b_counts b)]"
  shows "(let out = fused_launch (c_ops c) t xs b cap (replicate (length xs) 0)
          in if fat = [] then out
             else apply_exl3_python_loop (c_ops c) (y_inners y) xs ids weights (y_expert_map y) (Some (set fat)) out) =
         moe_reference c y xs ids weights"
proof -
  let ?n = "length (y_inners y)"
  have fat: "set fat = {e. e < ?n \<and> cap < call_count y ids e}"
    by (auto simp: fat_def b_def route_batch_fields call_count_def)
  have "apply_exl3_python_loop (c_ops c) (y_inners y) xs ids weights (y_expert_map y) (Some (set fat))
          (fused_launch (c_ops c) t xs b cap (replicate (length xs) 0)) = moe_reference c y xs ids weights"
  proof -
    have "served ?n (only_sel (Some (set fat))) (call_rows y xs ids weights) =
          served ?n (\<lambda>e. cap < call_count y ids e) (call_rows y xs ids weights)"
      by (rule served_cong) (simp add: only_sel_def fat)
    then show ?thesis
      using index_add_split [of _ _ ?n "\<lambda>e. cap < call_count y ids e" "call_rows y xs ids weights"]
      by (simp add: b_def reference_served [OF assms(2)] moe_reference_served [OF assms(2)]
          fused_launch_served [OF assms(1-3)] not_less)
  qed
  moreover have "fused_launch (c_ops c) t xs b cap (replicate (length xs) 0) = moe_reference c y xs ids weights" if "fat = []"
    unfolding b_def by (intro fused_launch_all [OF assms(1-3)] leI) (use fat that in auto)
  ultimately show ?thesis
    by (simp add: Let_def)
qed

lemma le_foldr_max: "n \<in> set ns \<Longrightarrow> n \<le> foldr max ns (0::nat)"
  by (induction ns) auto

lemma row_tile_call:
  assumes "ctx_ok c" "batch_ok (y_expert_map y) xs ids weights" "ptr_packs t = y_inners y" "0 < cap"
  defines "b \<equiv> call_batch c y xs ids weights"
  shows "exl3_moe_row_tiles (c_ops c) (ptr_packs t) xs (b_counts b) (b_toks b) (b_wts b) cap (foldr max (b_counts b) 0)
           (replicate (length xs) 0) = moe_reference c y xs ids weights"
proof -
  note S = call_sorted [OF assms(1,2)]
  let ?l = "map_topk_to_local (concat ids) (length (y_inners y)) (y_expert_map y)"
  have "exl3_moe_row_tiles (c_ops c) (ptr_packs t) xs (b_counts b) (b_toks b) (b_wts b) cap (foldr max (b_counts b) 0)
          (replicate (length xs) 0) =
        index_add (replicate (length xs) 0) (map (contrib (c_ops c) (ptr_packs t) xs)
          (slice_items (\<lambda>_. True) (zip (b_toks b) (b_wts b)) 0 0 (b_counts b)))"
    unfolding b_def route_batch_fields
    using S(2-4) assms(4) argsort_ok_range(2) [OF S(1)] sum_counts_le [of ?l "length (y_inners y)"]
    by (intro row_tiles_items) (auto intro: le_foldr_max)
  also have "\<dots> = moe_reference c y xs ids weights"
    unfolding moe_reference_served [OF assms(2)] b_def route_batch_fields call_rows_def assms(3)
    using slice_items_served [OF S(1-3), of "\<lambda>_. True"] by (intro index_add_mset mset_map_cong) simp
  finally show ?thesis .
qed

text \<open>Every outcome of a call is the reference, or an exception.\<close>

definition right_or_raised :: "'r list \<Rightarrow> ('r, 's, 't) moe_result \<Rightarrow> bool" where
  "right_or_raised ref r = (case fst r of Inl _ \<Rightarrow> True | Inr out \<Rightarrow> out = ref)"

lemma record_tier_pair:
  "record_exl3_fat_tier tier reason (y, w) =
   (y\<lparr>y_last_fallback := tier, y_last_reason := reason\<rparr>, record_exl3_fat_reason reason (count_fat_tier tier w))"
  by (simp add: record_exl3_fat_tier_def)

lemma fat_branch_right:
  assumes "ctx_ok c" "batch_ok (y_expert_map y) xs ids weights" "ptr_packs t = y_inners y"
    and "y_shared y \<longrightarrow> shared_suh (y_inners y)"
    and "(grouped_fat_enabled (c_env c) \<or> fat_kernel_enabled (c_env c)) \<and> y_shared y \<longrightarrow>
         fst (snd (exl3_fat_symbols (c_mods c))) \<and> snd (snd (exl3_fat_symbols (c_mods c)))"
    and "env_parses (c_env c)"
  defines "b \<equiv> call_batch c y xs ids weights"
  shows "fst (fat_branch c y w cap xs ids weights b (fused_launch (c_ops c) t xs b cap (replicate (length xs) 0))) =
         Inr (moe_reference c y xs ids weights)"
proof -
  have scr: "map_sum id (\<lambda>_. ()) (fat_scratch (c_env c) key n w) = Inr ()" for key n w
    using assms(6) by (auto simp: env_parses_def is_ok_iff fat_scratch_def Let_def split: option.splits)
  note batched = batched_call [OF assms(1-3) _ _ scr, folded b_def]
  note sorted = sorted_call [OF assms(1-3), of cap, folded b_def]
  note legacy = legacy_call [OF assms(1-3), of cap, folded b_def, unfolded Let_def]
  show ?thesis
    using assms(4,5) legacy unfolding fat_branch_def
    by (auto simp: Let_def split_beta record_tier_pair batched sorted split: if_splits)
qed

lemma host_branch_right:
  assumes "ctx_ok c" "batch_ok (y_expert_map y) xs ids weights" "ptr_packs t = y_inners y" "0 < cap"
    and "y_shared y \<longrightarrow> shared_suh (y_inners y)"
    and "fused_moe_row_tile_enabled (c_env c) \<or>
         ((grouped_fat_enabled (c_env c) \<or> fat_kernel_enabled (c_env c)) \<and> y_shared y \<longrightarrow>
          fst (snd (exl3_fat_symbols (c_mods c))) \<and> snd (snd (exl3_fat_symbols (c_mods c))))"
    and "env_parses (c_env c)"
  defines "b \<equiv> call_batch c y xs ids weights"
  shows "right_or_raised (moe_reference c y xs ids weights)
           (host_branch c y w t cap xs ids weights b (replicate (length xs) 0))"
    "log_stats (c_env c) (b_counts b) (Some (foldr max (b_counts b) 0)) w = Inr w' \<Longrightarrow>
     fst (host_branch c y w t cap xs ids weights b (replicate (length xs) 0)) = Inr (moe_reference c y xs ids weights)"
proof -
  have thin: "fused_launch (c_ops c) t xs b cap (replicate (length xs) 0) = moe_reference c y xs ids weights"
    if "foldr max (b_counts b) 0 \<le> cap"
    unfolding b_def
  proof (rule fused_launch_all [OF assms(1-3)])
    fix e assume "e < length (y_inners y)"
    then have "call_count y ids e \<in> set (b_counts b)"
      by (simp add: b_def route_batch_fields call_count_def)
    then show "call_count y ids e \<le> cap"
      using le_foldr_max that order_trans by blast
  qed
  note fat = fat_branch_right [OF assms(1-3,5) _ assms(7), of _ cap, folded b_def]
  note rows = row_tile_call [OF assms(1-4), folded b_def]
  show ok: "fst (host_branch c y w t cap xs ids weights b (replicate (length xs) 0)) = Inr (moe_reference c y xs ids weights)"
    if "log_stats (c_env c) (b_counts b) (Some (foldr max (b_counts b) 0)) w = Inr w'" for w'
    using that thin rows fat assms(6) unfolding host_branch_def
    by (auto simp: Let_def split_beta)
  show "right_or_raised (moe_reference c y xs ids weights) (host_branch c y w t cap xs ids weights b (replicate (length xs) 0))"
  proof (cases "log_stats (c_env c) (b_counts b) (Some (foldr max (b_counts b) 0)) w")
    case (Inl x)
    then show ?thesis
      by (simp add: right_or_raised_def host_branch_def Let_def)
  next
    case (Inr w')
    then show ?thesis
      using ok [OF Inr] by (simp add: right_or_raised_def)
  qed
qed

lemma grouped_branch_right:
  assumes "ctx_ok c" "batch_ok (y_expert_map y) xs ids weights" "ptr_packs t = y_inners y"
    and "shared_suh (y_inners y)" "y_inners y \<noteq> []"
  defines "b \<equiv> call_batch c y xs ids weights"
  shows "right_or_raised (moe_reference c y xs ids weights) (grouped_branch c y w t cap xs b (replicate (length xs) 0))"
  using grouped_call [OF assms(1-5), of cap, folded b_def]
  unfolding grouped_branch_def apply_exl3_grouped_fat_def right_or_raised_def
  by (auto simp: Let_def split_beta split: if_splits sum.splits prod.splits)

lemma call_relabel:
  "moe_reference c (y\<lparr>y_last_fallback := f, y_last_reason := r\<rparr>) xs ids weights = moe_reference c y xs ids weights"
  by (simp add: moe_reference_def)

text \<open>The dispatch on a layer that weight load accepted.\<close>

lemma apply_exl3_fused_moe_right:
  assumes "ctx_ok c" "layer_ok (c_env c) (c_mods c) y" "batch_ok (y_expert_map y) xs ids weights"
    and "y_inners y \<noteq> []" "no_decode_drop y xs ids" "y_temp_rows y \<noteq> Some 0" "env_parses (c_env c)"
  shows "right_or_raised (moe_reference c y xs ids weights) (apply_exl3_fused_moe c y w xs ids weights)"
proof (cases "y_ptrs y = None \<or> y_temp_rows y = None")
  case True
  then show ?thesis
    by (auto simp: apply_exl3_fused_moe_def right_or_raised_def split: option.splits)
next
  case False
  then obtain t cap where t: "y_ptrs y = Some t" and cap: "y_temp_rows y = Some cap"
    by auto
  have pk: "ptr_packs t = y_inners y" and capp: "0 < cap" and sh: "y_shared y \<longrightarrow> shared_suh (y_inners y)"
    using assms(2,6) t cap by (auto simp: layer_ok_def)
  let ?y = "y\<lparr>y_last_fallback := ''none'', y_last_reason := ''no_fat_experts''\<rparr>"
  let ?b = "call_batch c ?y xs ids weights"
  have y: "batch_ok (y_expert_map ?y) xs ids weights" "ptr_packs t = y_inners ?y"
    using assms(3) pk by simp_all
  have small: "fused_launch (c_ops c) t xs ?b cap (replicate (length xs) 0) = moe_reference c ?y xs ids weights" if "length xs \<le> cap"
    using that assms(5) cap by (intro fused_launch_all [OF assms(1) y]) (simp add: no_decode_drop_def call_count_def)
  have grouped: "right_or_raised (moe_reference c ?y xs ids weights) (grouped_branch c ?y w t cap xs ?b (replicate (length xs) 0))"
    if "y_tier y = Some ''grouped''" for w
    using that assms(2,4) sh by (intro grouped_branch_right [OF assms(1) y]) (auto simp: layer_ok_def)
  have host: "right_or_raised (moe_reference c ?y xs ids weights) (host_branch c ?y w t cap xs ids weights ?b (replicate (length xs) 0))"
    if "\<not> (grouped_fat_enabled (c_env c) \<and> \<not> fused_moe_row_tile_enabled (c_env c) \<and> y_tier y = Some ''grouped'')" for w
    using that assms(2,7) sh by (intro host_branch_right(1) [OF assms(1) y capp]) (auto simp: layer_ok_def)
  show ?thesis
    using small grouped host unfolding apply_exl3_fused_moe_def call_relabel
    by (auto simp: t cap Let_def right_or_raised_def)
qed

subsection \<open>Weight load establishes the layer\<close>

lemma ptr_packs_build: "ptr_packs (build_ptrs inners) = inners"
  by (rule nth_equalityI) (simp_all add: ptr_packs_def build_ptrs_def)

lemma ptr_packs_alias:
  assumes "shared_suh inners"
  shows "ptr_packs ((build_ptrs inners)\<lparr>up_suh := gate_suh (build_ptrs inners)\<rparr>) = inners"
proof -
  have "gate_suh (build_ptrs inners) = up_suh (build_ptrs inners)"
    using assms by (simp add: build_ptrs_def shared_suh_def list_all_iff)
  then have "(build_ptrs inners)\<lparr>up_suh := gate_suh (build_ptrs inners)\<rparr> = build_ptrs inners"
    by simp
  then show ?thesis
    by (simp only: ptr_packs_build)
qed

lemma build_exl3_fused_state_ok:
  assumes "build_exl3_fused_state env (y_inners y) y = Inr y'" "y_shared y \<longrightarrow> shared_suh (y_inners y)"
  shows "\<exists>t rows. y_ptrs y' = Some t \<and> ptr_packs t = y_inners y \<and> temp_rows_fused env = Inr rows \<and>
           y_temp_rows y' = Some (nat rows) \<and> y_inners y' = y_inners y \<and> y_shared y' = y_shared y \<and>
           y_tier y' = y_tier y \<and> y_expert_map y' = y_expert_map y"
  using assms
  by (auto simp: build_exl3_fused_state_def alias_exl3_fused_up_suh_def res_bind_Inr Let_def ptr_packs_build ptr_packs_alias
      split: if_splits)

lemma temp_rows_pos: "temp_rows_fused env = Inr rows \<Longrightarrow> 1 \<le> rows"
  by (auto simp: temp_rows_fused_def Let_def TEMP_ROWS_FUSED_def res_bind_Inr split: if_splits)

lemma build_or_loop_ok:
  assumes "build_or_loop env mods y = Inr y'" "y_shared y \<longrightarrow> shared_suh (y_inners y)" "y_ptrs y = None" "y_temp_rows y = None"
  shows "y_inners y' = y_inners y \<and> y_shared y' = y_shared y \<and> y_tier y' = y_tier y \<and> y_expert_map y' = y_expert_map y \<and>
         y_temp_rows y' \<noteq> Some 0 \<and> (\<forall>t. y_ptrs y' = Some t \<longrightarrow> ptr_packs t = y_inners y \<and> y_temp_rows y' \<noteq> None)"
proof -
  obtain reuse where r: "fused_moe_reuse_enabled env = Inr reuse"
    using assms(1) by (auto simp: build_or_loop_def res_bind_Inr)
  show ?thesis
  proof (cases "fused_moe_enabled env \<and> fst (exl3_fat_symbols mods)")
    case True
    show ?thesis
    proof (cases "build_exl3_fused_state env (y_inners y) y")
      case (Inl x)
      then show ?thesis
        using assms True r by (auto simp: build_or_loop_def Let_def split: if_splits)
    next
      case (Inr z)
      then have "y' = z"
        using assms(1) True r by (simp add: build_or_loop_def Let_def)
      then show ?thesis
        using build_exl3_fused_state_ok [OF Inr assms(2)] temp_rows_pos [of env] by fastforce
    qed
  next
    case False
    then show ?thesis
      using assms r by (auto simp: build_or_loop_def Let_def split: if_splits)
  qed
qed

lemma resolution_ok:
  assumes "record_exl3_fat_resolution env mods capability tp li w = Inr (r, w')"
  shows "resolve_exl3_fat_tier env (li_shared li) (exl3_fat_symbols mods) (exl3_fat_moe_symbols mods) (r_eligible r) =
         Inr (r_tier r, r_reason r)"
  using assms by (auto simp: record_exl3_fat_resolution_def Let_def res_bind_Inr)

lemma load_layer_ok:
  assumes "process_weights_after_loading env mods ld w = Inr (y, w')"
  shows "layer_ok env mods y" "y_inners y = ld_packs ld" "y_expert_map y = ld_expert_map ld" "y_temp_rows y \<noteq> Some 0"
    "y_ptrs y = Some t \<Longrightarrow> \<exists>cap. y_temp_rows y = Some cap"
proof -
  obtain r w1 where res: "record_exl3_fat_resolution env mods (ld_capability ld) (ld_tp ld)
        ((ld_info ld)\<lparr>li_shared := shared_suh (ld_packs ld)\<rparr>) w = Inr (r, w1)"
    and b: "build_or_loop env mods ((blank_layer ld)\<lparr>y_eligible := r_eligible r, y_tier := Some (r_tier r)\<rparr>) = Inr y"
    using assms by (auto simp: process_weights_after_loading_def Let_def res_bind_Inr blank_layer_def split: if_splits)
  have built: "y_inners y = ld_packs ld" "y_shared y = shared_suh (ld_packs ld)" "y_tier y = Some (r_tier r)"
      "y_expert_map y = ld_expert_map ld" "y_temp_rows y \<noteq> Some 0" "\<forall>t. y_ptrs y = Some t \<longrightarrow> ptr_packs t = ld_packs ld \<and> y_temp_rows y \<noteq> None"
    using build_or_loop_ok [OF b] by (simp_all add: blank_layer_def)
  have R: "resolve_exl3_fat_tier env (shared_suh (ld_packs ld)) (exl3_fat_symbols mods) (exl3_fat_moe_symbols mods) (r_eligible r) =
      Inr (r_tier r, r_reason r)"
    using resolution_ok [OF res] by simp
  show "layer_ok env mods y"
    using built resolve_facts(3,6) [OF R] by (auto simp: layer_ok_def)
  show "y_inners y = ld_packs ld" "y_expert_map y = ld_expert_map ld" "y_temp_rows y \<noteq> Some 0"
    by (fact built)+
  show "\<exists>cap. y_temp_rows y = Some cap" if "y_ptrs y = Some t"
    using built(6) that by auto
qed

subsection \<open>The counters account for every prefill call\<close>

definition tally :: "(string \<times> nat) list \<Rightarrow> nat" where
  "tally d = sum_list (map snd d)"

definition accounted :: "moe_world \<Rightarrow> bool" where
  "accounted w \<longleftrightarrow>
     map fst (d_fallback_calls (w_diag w)) = FAT_TIERS \<and>
     d_prefill_layer_calls (w_diag w) =
       d_thin_calls (w_diag w) + d_row_tile_calls (w_diag w) + tally (d_fallback_calls (w_diag w)) \<and>
     tally (d_fallback_reasons (w_diag w)) = d_prefill_layer_calls (w_diag w)"

text \<open>The same, one call of a prefill being under way.\<close>

definition pending :: "moe_world \<Rightarrow> bool" where
  "pending w \<longleftrightarrow>
     map fst (d_fallback_calls (w_diag w)) = FAT_TIERS \<and>
     d_prefill_layer_calls (w_diag w) =
       Suc (d_thin_calls (w_diag w) + d_row_tile_calls (w_diag w) + tally (d_fallback_calls (w_diag w))) \<and>
     Suc (tally (d_fallback_reasons (w_diag w))) = d_prefill_layer_calls (w_diag w)"

lemma tally_bump [simp]: "tally (bump k d) = Suc (tally d)"
  by (induction d) (auto simp: tally_def)

lemma fst_bump: "k \<in> set (map fst d) \<Longrightarrow> map fst (bump k d) = map fst d"
  by (induction d) (auto simp del: set_map)

lemma accounted_reset: "accounted (reset_exl3_fat_diag_counters w)"
  by (simp add: accounted_def reset_exl3_fat_diag_counters_def tally_def FAT_TIERS_def)

lemma pending_prefill: "accounted w \<Longrightarrow> pending (bump_prefill w)"
  by (simp add: accounted_def pending_def bump_prefill_def)

lemma pending_thin: "pending w \<Longrightarrow> accounted (record_exl3_fat_reason r (bump_thin w))"
  by (simp add: accounted_def pending_def bump_thin_def record_exl3_fat_reason_def)

lemma pending_row_tile:
  "pending w \<Longrightarrow> accounted (snd (record_exl3_fat_tier ''row_tile'' r (y, bump_row_tile w)))"
  by (auto simp: accounted_def pending_def bump_row_tile_def record_exl3_fat_reason_def record_tier_pair count_fat_tier_def
      FAT_TIERS_def simp flip: set_map)

lemma pending_tier:
  assumes "pending w" "tier \<in> set FAT_TIERS"
  shows "accounted (snd (record_exl3_fat_tier tier r (y, w)))"
proof -
  have k: "tier \<in> set (map fst (d_fallback_calls (w_diag w)))"
    using assms by (simp only: pending_def)
  then show ?thesis
    using assms(1) fst_bump [OF k]
    by (simp add: accounted_def pending_def record_exl3_fat_reason_def record_tier_pair count_fat_tier_def)
qed

lemma log_stats_diag: "log_stats env counts m w = Inr w' \<Longrightarrow> w_diag w' = w_diag w"
  by (auto simp: log_stats_def record_exl3_fat_expert_stats_def res_bind_Inr Let_def split: if_splits)

lemma pending_cong: "w_diag w' = w_diag w \<Longrightarrow> pending w' = pending w"
  and accounted_cong: "w_diag w' = w_diag w \<Longrightarrow> accounted w' = accounted w"
  by (simp_all add: pending_def accounted_def)

lemma pending_scratch: "grouped_scratch env cp dv rows h i w = (r, w') \<Longrightarrow> pending w' = pending w"
  by (erule grouped_scratch_cases) (auto simp: pending_def grow_scratch_def Let_def)

lemma pending_grouped: "apply_exl3_grouped_fat c y t xs b cap w out = (r, w') \<Longrightarrow> pending w \<Longrightarrow> pending w'"
  by (auto simp: apply_exl3_grouped_fat_def Let_def pending_def pending_scratch
      split: if_splits prod.splits sum.splits dest!: pending_scratch)

lemma grow_fat_diag [simp]: "w_diag (grow_fat_scratch env key rows w) = w_diag w"
  unfolding grow_fat_scratch_def
  by (induction rows arbitrary: w) (auto dest: fat_scratch_enough split: sum.splits)

lemma accounted_grow [simp]: "accounted (grow_fat_scratch env key rows w) = accounted w"
  by (rule accounted_cong) simp

lemma fat_branch_accounts: "pending w \<Longrightarrow> accounted (snd (snd (fat_branch c y w cap xs ids weights b out)))"
  unfolding fat_branch_def by (simp add: Let_def split_beta pending_tier FAT_TIERS_def)

lemma grouped_branch_accounts:
  assumes "pending w" "fst (grouped_branch c y w t cap xs b out) = Inr r"
  shows "accounted (snd (snd (grouped_branch c y w t cap xs b out)))"
proof -
  obtain q w1 where g: "apply_exl3_grouped_fat c y t xs b cap w (fused_launch (c_ops c) t xs b cap out) = (q, w1)"
    by force
  have p: "pending w1"
    using pending_grouped [OF g assms(1)] .
  then have "accounted (snd (record_exl3_fat_tier ''grouped'' ''grouped_ok'' (y, w1)))"
    by (rule pending_tier) (simp add: FAT_TIERS_def)
  then show ?thesis
    using assms(2) unfolding grouped_branch_def g
    by (auto simp: split_beta split: sum.splits dest!: log_stats_diag cong: accounted_cong)
qed

lemma host_branch_accounts:
  assumes "pending w" "fst (host_branch c y w t cap xs ids weights b out) = Inr r"
  shows "accounted (snd (snd (host_branch c y w t cap xs ids weights b out)))"
proof -
  obtain w1 where l: "log_stats (c_env c) (b_counts b) (Some (foldr max (b_counts b) 0)) w = Inr w1"
    using assms(2) by (auto simp: host_branch_def Let_def split: sum.splits)
  have p: "pending w1"
    using assms(1) pending_cong [OF log_stats_diag [OF l]] by simp
  show ?thesis
    unfolding host_branch_def by (simp add: Let_def l p split_beta pending_thin pending_row_tile fat_branch_accounts)
qed

lemma apply_exl3_fused_moe_accounts:
  assumes "accounted w" "apply_exl3_fused_moe c y w xs ids weights = (Inr out, y', w')"
  shows "accounted w'"
proof -
  obtain t cap where tc: "y_ptrs y = Some t" "y_temp_rows y = Some cap"
    using assms(2) by (auto simp: apply_exl3_fused_moe_def split: option.splits)
  let ?y = "y\<lparr>y_last_fallback := ''none'', y_last_reason := ''no_fat_experts''\<rparr>"
  let ?b = "call_batch c y xs ids weights" and ?o = "replicate (length xs) 0"
  note eq = assms(2) [unfolded apply_exl3_fused_moe_def, simplified tc option.case Let_def]
  note pend = pending_prefill [OF assms(1)]
  consider "w' = w" | "grouped_branch c ?y (bump_prefill w) t cap xs ?b ?o = (Inr out, y', w')"
    | "host_branch c ?y (bump_prefill w) t cap xs ids weights ?b ?o = (Inr out, y', w')"
    using eq by (auto split: if_splits)
  then show ?thesis
  proof cases
    case 1
    with assms(1) show ?thesis by simp
  next
    case 2
    with grouped_branch_accounts [OF pend, of c ?y t cap xs ?b ?o out] show ?thesis by simp
  next
    case 3
    with host_branch_accounts [OF pend, of c ?y t cap xs ids weights ?b ?o out] show ?thesis by simp
  qed
qed

subsection \<open>Calls that do not raise\<close>

lemma log_stats_ok: "env_parses env \<Longrightarrow> \<exists>w'. log_stats env counts m w = Inr w'"
  by (auto simp: log_stats_def env_parses_def is_ok_iff record_exl3_fat_expert_stats_def Let_def)

lemma grouped_scratch_ok: "env_parses env \<Longrightarrow> \<exists>n w'. grouped_scratch env False dv rows h i w = (Inr n, w')"
  by (auto simp: grouped_scratch_def env_parses_def is_ok_iff Let_def split: option.splits)

lemma grouped_branch_total:
  assumes "env_parses (c_env c)" "\<not> c_capturing c" "exl3_fat_moe_symbols (c_mods c)"
  shows "\<exists>out. fst (grouped_branch c y w t cap xs b o0) = Inr out"
proof -
  obtain n w1 where g: "grouped_scratch (c_env c) False (c_device c) (length (b_toks b)) (y_hidden y) (y_inter y) w = (Inr n, w1)"
    using grouped_scratch_ok [OF assms(1)] by blast
  then obtain out w2 where a: "apply_exl3_grouped_fat c y t xs b cap w (fused_launch (c_ops c) t xs b cap o0) = (Inr out, w2)"
    using assms(2,3) by (auto simp: apply_exl3_grouped_fat_def Let_def)
  obtain w3 where "log_stats (c_env c) (b_counts b) None (snd (record_exl3_fat_tier ''grouped'' ''grouped_ok'' (y, w2))) = Inr w3"
    using log_stats_ok [OF assms(1)] by blast
  then show ?thesis
    by (auto simp: grouped_branch_def a split_beta)
qed

lemma apply_exl3_fused_moe_total:
  assumes "ctx_ok c" "layer_ok (c_env c) (c_mods c) y" "batch_ok (y_expert_map y) xs ids weights"
    and "y_inners y \<noteq> []" "no_decode_drop y xs ids" "y_temp_rows y = Some cap" "0 < cap" "y_ptrs y = Some t"
    and "env_parses (c_env c)" "\<not> c_capturing c"
  shows "fst (apply_exl3_fused_moe c y w xs ids weights) = Inr (moe_reference c y xs ids weights)"
proof -
  let ?y = "y\<lparr>y_last_fallback := ''none'', y_last_reason := ''no_fat_experts''\<rparr>"
  have r: "right_or_raised (moe_reference c y xs ids weights) (apply_exl3_fused_moe c y w xs ids weights)"
    using assms(6,7,9) by (intro apply_exl3_fused_moe_right [OF assms(1-5)]) simp_all
  have "\<exists>out. fst (apply_exl3_fused_moe c y w xs ids weights) = Inr out"
  proof -
    have grouped: "\<exists>out. fst (grouped_branch c ?y w t cap xs b o0) = Inr out" if "y_tier y = Some ''grouped''" for b w o0
      using that assms(2,9,10) by (intro grouped_branch_total) (auto simp: layer_ok_def)
    have host: "\<exists>out. fst (host_branch c ?y w t cap xs ids weights (call_batch c ?y xs ids weights) (replicate (length xs) 0)) = Inr out"
      if "\<not> (grouped_fat_enabled (c_env c) \<and> \<not> fused_moe_row_tile_enabled (c_env c) \<and> y_tier y = Some ''grouped'')" for w
    proof -
      obtain w' where "log_stats (c_env c) (b_counts (call_batch c ?y xs ids weights))
          (Some (foldr max (b_counts (call_batch c ?y xs ids weights)) 0)) w = Inr w'"
        using log_stats_ok [OF assms(9)] by blast
      from host_branch_right(2) [OF assms(1) _ _ assms(7) _ _ assms(9) this, of t] show ?thesis
        using that assms(2,3,8) by (auto simp: layer_ok_def)
    qed
    show ?thesis
      using grouped host by (auto simp: apply_exl3_fused_moe_def assms(6,8) Let_def)
  qed
  with r show ?thesis
    by (auto simp: right_or_raised_def)
qed

subsection \<open>Properties\<close>

text \<open>(C1) On a layer that weight load accepted, the routed-expert apply returns the sum of the reference
  loop, whichever branch of the dispatch runs: decode launch, thin prefill, row tiles, grouped,
  kernel, batched, sorted or legacy fallback, with or without the reuse alias, or the loop itself.
  This needs the laws of the extension and of \<open>argsort\<close>, ids the expert map knows, settings that
  parse, no graph capture, and a decode step none of whose experts outgrows the temporaries.
\<close>

theorem loaded_layer_serves_reference:
  assumes "process_weights_after_loading (c_env c) (c_mods c) ld w0 = Inr (y, w1)"
    and "ctx_ok c" "ld_packs ld \<noteq> []" "batch_ok (ld_expert_map ld) xs ids weights" "no_decode_drop y xs ids"
    and "env_parses (c_env c)" "\<not> c_capturing c"
  shows "fst (apply_exl3_experts c None y w xs ids weights) =
         Inr (apply_exl3_python_loop (c_ops c) (ld_packs ld) xs ids weights (ld_expert_map ld) None (replicate (length xs) 0))"
proof -
  note L = load_layer_ok [OF assms(1)]
  have ref: "moe_reference c y xs ids weights =
      apply_exl3_python_loop (c_ops c) (ld_packs ld) xs ids weights (ld_expert_map ld) None (replicate (length xs) 0)"
    by (simp add: moe_reference_def L(2,3))
  have fused: "fst (apply_exl3_fused_moe c y w xs ids weights) = Inr (moe_reference c y xs ids weights)" if t: "y_ptrs y = Some t" for t
  proof -
    obtain cap where "y_temp_rows y = Some cap" "0 < cap"
      using L(4) L(5) [OF t] by auto
    then show ?thesis
      using assms L t by (intro apply_exl3_fused_moe_total) simp_all
  qed
  show ?thesis
    using assms(3) fused L(2,3) ref unfolding apply_exl3_experts_def
    by (auto simp: Let_def moe_reference_def split: prod.splits sum.splits)
qed

text \<open>(C16) What a decode step leaves out: when the tokens fit the temporaries the output is the sum over the
  experts with at most that many rows, so that exactly the rows of the experts above it are
  missing, without an error.
\<close>

theorem decode_drops_hot_experts:
  assumes "ctx_ok c" "layer_ok (c_env c) (c_mods c) y" "batch_ok (y_expert_map y) xs ids weights"
    and "y_ptrs y = Some t" "y_temp_rows y = Some cap" "length xs \<le> cap"
  shows "fst (apply_exl3_fused_moe c y w xs ids weights) =
         Inr (apply_exl3_python_loop (c_ops c) (y_inners y) xs ids weights (y_expert_map y)
               (Some {e. call_count y ids e \<le> cap}) (replicate (length xs) 0))"
proof -
  have "ptr_packs t = y_inners y"
    using assms(2,4) by (simp add: layer_ok_def)
  then show ?thesis
    using assms(4-6) fused_launch_served [OF assms(1,3)]
    by (simp add: apply_exl3_fused_moe_def Let_def reference_served [OF assms(3)] only_sel_def [abs_def])
qed

text \<open>(C4) The grouped kernels, driven by device-side tables and whatever their scratch held before, add the
  same rows as the loop over the slices of the sorted buffer.
\<close>

theorem grouped_equals_sorted:
  assumes "linear_ok ops" "shared_suh packs" "packs \<noteq> []" "0 < tg" "0 < td"
    and "argsort_ok local order" "length toks = length local" "length wts = length local"
  shows "grouped_launches ops packs xs (map (count_list local) [0..<length packs]) (map ((!) toks) order) (map ((!) wts) order) cap tg td
           (map stale [0..<length order]) (map stale [0..<length order]) out =
         apply_exl3_sorted_fat ops packs xs (map ((!) toks) order) (map ((!) wts) order) (map (count_list local) [0..<length packs]) cap out"
  by (simp only: grouped_launches_served [OF assms] apply_exl3_sorted_fat_served [OF assms(6-8)])

text \<open>(C20) The diagnostics account for every call: from a reset on, as long as calls return, the prefill
  calls are the thin ones, the row-tile ones and those counted under a tier, and every one of
  them left exactly one reason.
\<close>

theorem counters_account:
  "accounted (reset_exl3_fat_diag_counters w0) \<and>
   (\<forall>w. accounted w \<longrightarrow> apply_exl3_experts c fused y w xs ids weights = (Inr out, y', w') \<longrightarrow> accounted w')"
proof (intro conjI allI impI)
  show "accounted (reset_exl3_fat_diag_counters w0)"
    by (rule accounted_reset)
  fix w assume w: "accounted w" and r: "apply_exl3_experts c fused y w xs ids weights = (Inr out, y', w')"
  show "accounted w'"
  proof (cases "apply_exl3_fused_moe c y w xs ids weights")
    case (fields q z v)
    then show ?thesis
      using r w apply_exl3_fused_moe_accounts [OF w]
      by (auto simp: apply_exl3_experts_def Let_def split: if_splits sum.splits)
  qed
qed

subsection \<open>Witnesses\<close>

text \<open>Two experts, three tokens that all pick expert 1, room for one row, and the kernel tier.\<close>

definition demo_moe_env :: environ where
  "demo_moe_env = (\<lambda>k. if k = ''EXL3_FAT_KERNEL'' then Some ''1'' else if k = ''EXL3_TEMP_ROWS_FUSED'' then Some ''1''
     else if k = ''GLM53_EXL3_MOE_REUSE'' then Some ''1'' else if k = ''GLM53_EXL3_MOE_PIPELINE'' then Some ''1'' else None)"

definition demo_mods :: ext_mods where
  "demo_mods = \<lparr>ext_main = Some [''exl3_moe'', ''exl3_fat_gemm'', ''exl3_fat_gemm_scatter''], ext_fat = None\<rparr>"

definition demo_argsort :: "nat list \<Rightarrow> nat list" where
  "demo_argsort l = sort_key ((!) l) [0..<length l]"

definition demo_ctx :: "(int, int, int, int) moe_ctx" where
  "demo_ctx = \<lparr>c_env = demo_moe_env, c_mods = demo_mods, c_ops = demo_ops, c_argsort = demo_argsort, c_tile_gu = 2, c_tile_dn = 1,
     c_capturing = False, c_device = 0, c_stale = (\<lambda>_. 99)\<rparr>"

definition demo_pack :: "int \<Rightarrow> (int, int) pack" where
  "demo_pack k = \<lparr>p_gate = \<lparr>l_suh = 1, l_trellis = k, l_svh = 1\<rparr>, p_up = \<lparr>l_suh = 1, l_trellis = 2, l_svh = 1\<rparr>,
     p_down = \<lparr>l_suh = 1, l_trellis = k, l_svh = -1\<rparr>\<rparr>"

definition demo_ld :: "(int, int) loaded" where
  "demo_ld = \<lparr>ld_mcg13 = replicate 4 (-877912083), ld_mcg2 = replicate 2 (-877912083), ld_packs = [demo_pack 2, demo_pack 3],
     ld_info = \<lparr>li_bits = 4, li_k_words = 64, li_inners = [], li_shared = True, li_hidden = 256, li_inter = 128,
       li_device_type = ''cuda'', li_device = 0, li_tensor_devices = []\<rparr>,
     ld_capability = (12, 1), ld_tp = (0, 2), ld_expert_map = Some [0, 1], ld_hidden = 256, ld_inter = 128\<rparr>"

definition demo_xs :: "int list" where "demo_xs = [1, 2, 3]"
definition demo_ids :: "int list list" where "demo_ids = [[1, 0], [1, -1], [1, -1]]"
definition demo_wts :: "int list list" where "demo_wts = [[1, 5], [2, 0], [1, 0]]"

lemma demo_ctx_ok: "ctx_ok demo_ctx"
  by (simp add: ctx_ok_def demo_ctx_def demo_linear_ok argsort_ok_def demo_argsort_def del: mset_upt)

lemma demo_batch_ok: "batch_ok (Some [0, 1]) demo_xs demo_ids demo_wts"
  by (simp add: batch_ok_def demo_xs_def demo_ids_def demo_wts_def topk_of_def rect_def ids_in_map_def)

definition demo_layer :: "(int, int) moe_layer" where
  "demo_layer = (case process_weights_after_loading demo_moe_env demo_mods demo_ld demo_world of Inr (y, w) \<Rightarrow> y)"

lemma demo_load: "\<exists>w. process_weights_after_loading demo_moe_env demo_mods demo_ld demo_world = Inr (demo_layer, w)"
proof -
  have "is_ok (process_weights_after_loading demo_moe_env demo_mods demo_ld demo_world)"
    by code_simp
  then show ?thesis
    by (auto simp: is_ok_iff demo_layer_def)
qed

lemma demo_layer_fields: "y_temp_rows demo_layer = Some 1" "y_reuse_aliased demo_layer" "y_tier demo_layer = Some ''kernel''"
  by code_simp+

lemma demo_env_parses: "env_parses demo_moe_env"
  by code_simp

theorem loaded_layer_serves_reference_witness:
  "fst (apply_exl3_experts demo_ctx None demo_layer demo_world demo_xs demo_ids demo_wts) = Inr [-58, -144, -162]"
proof -
  obtain w1 where l: "process_weights_after_loading (c_env demo_ctx) (c_mods demo_ctx) demo_ld demo_world = Inr (demo_layer, w1)"
    using demo_load by (auto simp: demo_ctx_def)
  have "no_decode_drop demo_layer demo_xs demo_ids"
    by (simp add: no_decode_drop_def demo_layer_fields demo_xs_def)
  with loaded_layer_serves_reference [OF l demo_ctx_ok, of demo_xs demo_ids demo_wts demo_world] demo_batch_ok demo_env_parses
  have "fst (apply_exl3_experts demo_ctx None demo_layer demo_world demo_xs demo_ids demo_wts) =
      Inr (apply_exl3_python_loop demo_ops [demo_pack 2, demo_pack 3] demo_xs demo_ids demo_wts (Some [0, 1]) None (replicate (length demo_xs) 0))"
    by (simp add: demo_ctx_def demo_ld_def)
  moreover have "apply_exl3_python_loop demo_ops [demo_pack 2, demo_pack 3] demo_xs demo_ids demo_wts (Some [0, 1]) None
      (replicate (length demo_xs) 0) = [-58, -144, -162]"
    by code_simp
  ultimately show ?thesis by simp
qed

theorem decode_drops_hot_experts_witness:
  "fst (apply_exl3_fused_moe demo_ctx (demo_layer\<lparr>y_temp_rows := Some 3\<rparr>) demo_world [1, 2] [[1, 1], [1, 1]] [[1, 1], [1, 2]]) = Inr [0, 0]"
proof -
  let ?y = "demo_layer\<lparr>y_temp_rows := Some 3\<rparr>"
  obtain w1 where l: "process_weights_after_loading demo_moe_env demo_mods demo_ld demo_world = Inr (demo_layer, w1)"
    using demo_load by auto
  have y: "layer_ok (c_env demo_ctx) (c_mods demo_ctx) ?y" "y_inners ?y = [demo_pack 2, demo_pack 3]" "y_expert_map ?y = Some [0, 1]"
    using load_layer_ok(1-3) [OF l] by (simp_all add: layer_ok_def demo_ctx_def demo_ld_def)
  have b: "batch_ok (y_expert_map ?y) [1::int, 2] [[1, 1], [1, 1]] [[1, 1], [1, 2::int]]"
    by (simp add: y batch_ok_def topk_of_def rect_def ids_in_map_def)
  obtain t where t: "y_ptrs ?y = Some t"
  proof -
    have "y_ptrs demo_layer \<noteq> None" by code_simp
    then show thesis using that by auto
  qed
  have "call_count ?y [[1, 1], [1, 1]] 1 = 4"
    by (simp add: call_count_def y) code_simp
  moreover have "call_count ?y [[1, 1], [1, 1]] 0 = 0"
    by (simp add: call_count_def y) code_simp
  ultimately have e: "1 \<notin> {e. call_count ?y [[1, 1], [1, 1]] e \<le> 3}"
    by simp
  have "apply_exl3_python_loop demo_ops [demo_pack 2, demo_pack 3] [1, 2] [[1, 1], [1, 1]] [[1, 1], [1, 2]] (Some [0, 1])
      (Some {e. call_count ?y [[1, 1], [1, 1]] e \<le> 3}) (replicate 2 0) = [0, 0]"
    using e by (simp add: apply_exl3_python_loop_def loop_step_def loop_expert_def numeral_2_eq_2)
  then show ?thesis
    using decode_drops_hot_experts [OF demo_ctx_ok y(1) b t, of 3 demo_world] by (simp add: y demo_ctx_def numeral_2_eq_2)
qed

theorem grouped_equals_sorted_witness:
  "grouped_launches demo_ops [demo_pack 2, demo_pack 3] [1, 2] [1, 2] [0, 0, 1] [5, 1, 2] 1 2 1 [99, 99, 99] [99, 99, 99] [0, 0] =
   apply_exl3_sorted_fat demo_ops [demo_pack 2, demo_pack 3] [1, 2] [0, 0, 1] [5, 1, 2] [1, 2] 1 [0, 0]"
proof -
  have sh: "shared_suh [demo_pack 2, demo_pack 3]"
    by (simp add: shared_suh_def demo_pack_def)
  have so: "argsort_ok [1, 0, 1] [1, 0, 2]"
    by (simp add: argsort_ok_def)
  from grouped_equals_sorted [OF demo_linear_ok sh _ _ _ so, of 2 1 "[0, 0, 1]" "[1, 5, 2]" "[1, 2]" 1 "\<lambda>_. 99" "[0, 0]"]
  show ?thesis
    by (simp add: upt_rec numeral_2_eq_2)
qed

theorem counters_account_witness:
  "accounted (snd (snd (apply_exl3_experts demo_ctx None demo_layer demo_world demo_xs demo_ids demo_wts)))"
proof -
  have "fst (apply_exl3_experts demo_ctx None demo_layer demo_world demo_xs demo_ids demo_wts) = Inr [-58, -144, -162]"
    by code_simp
  then obtain y' w' where r: "apply_exl3_experts demo_ctx None demo_layer demo_world demo_xs demo_ids demo_wts = (Inr [-58, -144, -162], y', w')"
    by (metis prod.collapse)
  have "accounted demo_world"
    by (simp add: demo_world_def accounted_def reset_exl3_fat_expert_stats_def reset_exl3_fat_diag_counters_def tally_def FAT_TIERS_def)
  with counters_account [of demo_world demo_ctx None demo_layer demo_xs demo_ids demo_wts] r show ?thesis
    by auto
qed

end
