(* ===== verification/Moe_Load.thy ===== *)
theory Moe_Load
  imports Glm_Prelude
begin

text \<open>
  Packed expert weights in \<open>overlay/exl3.py\<close>: the configuration \<open>Exl3Config\<close>, the shapes
  \<open>create_weights\<close> allocates, the tensor-parallel shards (\<open>_narrow_tp\<close>, \<open>shard_exl3_col\<close>,
  \<open>shard_exl3_row\<close>) and the weight loader \<open>_load_exl3\<close>. A tensor is its shape and its entries by
  index; strides, dtypes and devices are left out. The map of global to local experts is vLLM's and
  is an argument of the loader.
\<close>

subsection \<open>Configuration\<close>

record exl3_config =
  q_bits :: int
  q_codebook :: string
  q_scope :: string
  q_raw :: "(string \<times> pyval) list"

definition exl3_config_init :: "int \<Rightarrow> string \<Rightarrow> string \<Rightarrow> (string \<times> pyval) list \<Rightarrow> exl3_config res" where
  "exl3_config_init bits codebook scope kwargs =
     (if codebook \<noteq> ''mcg'' then Inl ValueError
      else if bits \<notin> {3, 4, 5, 6} then Inl ValueError
      else Inr \<lparr>q_bits = bits, q_codebook = codebook, q_scope = scope, q_raw = kwargs\<rparr>)"

text \<open>\<open>str(x)\<close> of a configuration value is an argument; the checkpoint's ledger is not kept.\<close>

definition exl3_from_config :: "(pyval \<Rightarrow> string) \<Rightarrow> (string \<times> pyval) list \<Rightarrow> exl3_config res" where
  "exl3_from_config str config =
     (let get = (\<lambda>k d. case map_of config k of None \<Rightarrow> d | Some v \<Rightarrow> v);
          skip = {''bits'', ''codebook'', ''scope'', ''quant_method'', ''tensor_storage''}
      in res_bind (py_int (get ''bits'' (PInt 4))) (\<lambda>bits.
           exl3_config_init bits (str (get ''codebook'' (PStr ''mcg'')))
             (str (get ''scope'' (PStr ''glm53_routed_experts_only''))) (filter (\<lambda>(k, v). k \<notin> skip) config)))"

definition override_quantization_method :: "(pyval \<Rightarrow> string) \<Rightarrow> (string \<times> pyval) list option \<Rightarrow> string option" where
  "override_quantization_method str hf =
     (let method = py_lower (str (case map_of (case hf of None \<Rightarrow> [] | Some c \<Rightarrow> c) ''quant_method'' of None \<Rightarrow> PStr '''' | Some v \<Rightarrow> v))
      in if method = ''exl3'' then Some ''exl3'' else None)"

datatype layer_kind = RoutedExperts | LinearBase | OtherLayer
datatype quant_method = Exl3MoEMethod | UnquantizedLinearMethod

definition get_quant_method :: "layer_kind \<Rightarrow> quant_method option" where
  "get_quant_method k =
     (case k of RoutedExperts \<Rightarrow> Some Exl3MoEMethod | LinearBase \<Rightarrow> Some UnquantizedLinearMethod | OtherLayer \<Rightarrow> None)"

subsection \<open>Tensors and shards\<close>

record 'a tensor =
  t_shape :: "nat list"
  t_at :: "nat list \<Rightarrow> 'a"

definition narrow :: "'a tensor \<Rightarrow> nat \<Rightarrow> nat \<Rightarrow> nat \<Rightarrow> 'a tensor" where
  "narrow t ax start n =
     \<lparr>t_shape = (t_shape t)[ax := n], t_at = (\<lambda>ix. t_at t (ix[ax := ix ! ax + start]))\<rparr>"

definition narrow_tp :: "'a tensor \<Rightarrow> nat \<Rightarrow> nat \<Rightarrow> nat \<Rightarrow> 'a tensor res" where
  "narrow_tp t ax tp_rank tp_size =
     (if tp_size \<le> 1 then Inr t
      else
        let size = t_shape t ! ax in
        if size mod tp_size \<noteq> 0 then Inl ValueError
        else let chunk = size div tp_size in Inr (narrow t ax (chunk * tp_rank) chunk))"

definition shard_exl3_col :: "'a tensor \<Rightarrow> string \<Rightarrow> nat \<Rightarrow> nat \<Rightarrow> 'a tensor res" where
  "shard_exl3_col t sfx tp_rank tp_size =
     (if sfx = ''trellis'' then narrow_tp t 1 tp_rank tp_size
      else if sfx = ''svh'' then narrow_tp t 0 tp_rank tp_size
      else Inr t)"

definition shard_exl3_row :: "'a tensor \<Rightarrow> string \<Rightarrow> nat \<Rightarrow> nat \<Rightarrow> 'a tensor res" where
  "shard_exl3_row t sfx tp_rank tp_size =
     (if sfx = ''trellis'' then narrow_tp t 0 tp_rank tp_size
      else if sfx = ''suh'' then narrow_tp t 0 tp_rank tp_size
      else Inr t)"

subsection \<open>Allocation\<close>

definition create_weights :: "nat \<Rightarrow> nat \<Rightarrow> nat \<Rightarrow> nat \<Rightarrow> (string \<times> nat list) list res" where
  "create_weights bits num_experts hidden inter_local =
     (if hidden mod 16 \<noteq> 0 \<or> inter_local mod 16 \<noteq> 0 then Inl ValueError
      else
        let k_words = bits * 16; in_tiles = hidden div 16; out_tiles = inter_local div 16
        in Inr [(''w13_trellis'', [num_experts, 2, in_tiles, out_tiles, k_words]),
                (''w13_suh'', [num_experts, 2, hidden]),
                (''w13_svh'', [num_experts, 2, inter_local]),
                (''w13_mcg'', [num_experts, 2, 1]),
                (''w2_trellis'', [num_experts, out_tiles, in_tiles, k_words]),
                (''w2_suh'', [num_experts, inter_local]),
                (''w2_svh'', [num_experts, hidden]),
                (''w2_mcg'', [num_experts, 1])])"

subsection \<open>The loader\<close>

definition EXL3_SUFFIXES :: "string list" where
  "EXL3_SUFFIXES = [''trellis'', ''suh'', ''svh'', ''mcg'']"

definition py_endswith :: "string \<Rightarrow> string \<Rightarrow> bool" where
  "py_endswith s e \<longleftrightarrow> length e \<le> length s \<and> drop (length s - length e) s = e"

definition suffix_from_mapped_name :: "string \<Rightarrow> string res" where
  "suffix_from_mapped_name weight_name =
     (let tail = rev (takeWhile (\<lambda>c. c \<noteq> CHR ''.'') (rev weight_name))
      in case find (\<lambda>s. tail = s \<or> py_endswith tail (CHR ''_'' # s)) EXL3_SUFFIXES of
           None \<Rightarrow> Inl ValueError
         | Some s \<Rightarrow> Inr s)"

text \<open>\<open>param.data[i, j].copy_(src)\<close> with the leading indices \<open>pre\<close>.\<close>

definition copy_into :: "nat list \<Rightarrow> 'a tensor \<Rightarrow> 'a tensor \<Rightarrow> 'a tensor" where
  "copy_into pre src param =
     param\<lparr>t_at := (\<lambda>ix. if take (length pre) ix = pre then t_at src (drop (length pre) ix) else t_at param ix)\<rparr>"

text \<open>A Python index into a dimension of size \<open>n\<close>.\<close>

definition py_index :: "nat \<Rightarrow> int \<Rightarrow> nat res" where
  "py_index n i =
     (let j = (if i < 0 then i + int n else i)
      in if 0 \<le> j \<and> j < int n then Inr (nat j) else Inl IndexError)"

text \<open>
  \<open>owner\<close> is \<open>_map_global_expert_id_to_local_expert_id\<close> of the owning module, if it is bound. An
  expert of another rank is not loaded. The result is what the loader returns and the parameter.
\<close>

definition load_exl3 ::
  "(int \<Rightarrow> int) option \<Rightarrow> nat \<Rightarrow> nat \<Rightarrow> 'a tensor \<Rightarrow> 'a tensor \<Rightarrow> string \<Rightarrow> string \<Rightarrow> int \<Rightarrow> bool \<Rightarrow> (bool option \<times> 'a tensor) res"
where
  "load_exl3 owner tp_rank tp_size param loaded weight_name shard_id expert_id return_success =
     (let local_id = (case owner of None \<Rightarrow> expert_id | Some f \<Rightarrow> f expert_id) in
      if owner \<noteq> None \<and> local_id = -1 then Inr (if return_success then Some False else None, param)
      else
        res_bind (suffix_from_mapped_name weight_name) (\<lambda>sfx.
          let e = py_index (t_shape param ! 0) local_id;
              target = (if shard_id \<in> {''w1'', ''w3''}
                then res_bind (shard_exl3_col loaded sfx tp_rank tp_size)
                       (\<lambda>s. res_bind e (\<lambda>e. Inr (s, [e, if shard_id = ''w1'' then 0 else 1])))
                else if shard_id = ''w2''
                then res_bind (shard_exl3_row loaded sfx tp_rank tp_size) (\<lambda>s. res_bind e (\<lambda>e. Inr (s, [e])))
                else Inl ValueError)
          in res_bind target (\<lambda>(sharded, pre).
               if drop (length pre) (t_shape param) \<noteq> t_shape sharded then Inl RuntimeError
               else Inr (if return_success then Some True else None, copy_into pre sharded param))))"

subsection \<open>Shards put together\<close>

definition valid_ix :: "nat list \<Rightarrow> nat list \<Rightarrow> bool" where
  "valid_ix shape ix = list_all2 (<) ix shape"

definition tensor_eq :: "'a tensor \<Rightarrow> 'a tensor \<Rightarrow> bool" where
  "tensor_eq s t \<longleftrightarrow> t_shape s = t_shape t \<and> (\<forall>ix. valid_ix (t_shape t) ix \<longrightarrow> t_at s ix = t_at t ix)"

text \<open>\<open>torch.cat\<close> of equal shards along an axis.\<close>

definition tp_gather :: "nat \<Rightarrow> 'a tensor list \<Rightarrow> 'a tensor" where
  "tp_gather ax shards =
     (let chunk = t_shape (hd shards) ! ax in
      \<lparr>t_shape = (t_shape (hd shards))[ax := chunk * length shards],
       t_at = (\<lambda>ix. t_at (shards ! (ix ! ax div chunk)) (ix[ax := ix ! ax mod chunk]))\<rparr>)"

lemma narrow_tp_ok:
  assumes "1 < n" "t_shape t ! ax mod n = 0"
  shows "narrow_tp t ax r n = Inr (narrow t ax (t_shape t ! ax div n * r) (t_shape t ! ax div n))"
  using assms by (simp add: narrow_tp_def Let_def)

lemma narrow_gather:
  assumes "ax < length (t_shape t)" "0 < n" "t_shape t ! ax mod n = 0"
  defines "chunk \<equiv> t_shape t ! ax div n"
  shows "tensor_eq (tp_gather ax (map (\<lambda>r. narrow t ax (chunk * r) chunk) [0..<n])) t"
proof -
  let ?sh = "map (\<lambda>r. narrow t ax (chunk * r) chunk) [0..<n]"
  have hd: "hd ?sh = narrow t ax 0 chunk"
    using assms(2) by (simp add: hd_map)
  have size: "chunk * n = t_shape t ! ax"
    using assms(3) by (auto simp: chunk_def)
  have c: "t_shape (hd ?sh) ! ax = chunk"
    unfolding hd using assms(1) by (simp add: narrow_def)
  have "t_shape (tp_gather ax ?sh) = t_shape t"
    unfolding tp_gather_def Let_def c hd using size assms(1) by (simp add: narrow_def)
  moreover have "t_at (tp_gather ax ?sh) ix = t_at t ix" if "valid_ix (t_shape t) ix" for ix
  proof -
    have len: "length ix = length (t_shape t)" and lt: "ix ! ax < chunk * n"
      using that assms(1) size by (auto simp: valid_ix_def list_all2_conv_all_nth)
    then have "ix ! ax div chunk < n"
      by (metis less_mult_imp_div_less mult.commute)
    then show ?thesis
      unfolding tp_gather_def Let_def c using len assms(1) by (simp add: narrow_def)
  qed
  ultimately show ?thesis
    by (simp add: tensor_eq_def)
qed

subsection \<open>Shapes of the checkpoint\<close>

text \<open>The full shape of a packed matrix of an expert in the checkpoint, by shard and suffix.\<close>

definition full_shape :: "nat \<Rightarrow> nat \<Rightarrow> nat \<Rightarrow> string \<Rightarrow> string \<Rightarrow> nat list" where
  "full_shape bits hidden inter_full shard_id sfx =
     (let (n_in, n_out) = (if shard_id = ''w2'' then (inter_full, hidden) else (hidden, inter_full))
      in if sfx = ''trellis'' then [n_in div 16, n_out div 16, bits * 16]
         else if sfx = ''suh'' then [n_in]
         else if sfx = ''svh'' then [n_out]
         else [1])"

definition param_name :: "string \<Rightarrow> string \<Rightarrow> string" where
  "param_name shard_id sfx = (if shard_id = ''w2'' then ''w2_'' @ sfx else ''w13_'' @ sfx)"

lemma suffix_cases:
  "suffix_from_mapped_name name = Inr sfx \<Longrightarrow> sfx = ''trellis'' \<or> sfx = ''suh'' \<or> sfx = ''svh'' \<or> sfx = ''mcg''"
  by (auto simp: suffix_from_mapped_name_def EXL3_SUFFIXES_def Let_def split: if_splits)

lemma narrow_tp_shape:
  assumes "0 < n" "t_shape t ! ax = n * m"
  shows "\<exists>s. narrow_tp t ax r n = Inr s \<and> t_shape s = (t_shape t)[ax := m]"
proof (cases "1 < n")
  case False
  then have "n = 1"
    using assms(1) by simp
  then show ?thesis
    using assms(2) by (auto simp: narrow_tp_def list_update_same_conv intro: list_update_id [symmetric])
qed (use assms in \<open>auto simp: narrow_tp_def narrow_def Let_def\<close>)

lemma shard_shape:
  assumes "0 < tp_size" "inter_local mod 16 = 0" "suffix_from_mapped_name name = Inr sfx"
    and "t_shape loaded = full_shape bits hidden (tp_size * inter_local) shard_id sfx"
  shows "shard_id \<noteq> ''w2'' \<Longrightarrow> \<exists>s. shard_exl3_col loaded sfx tp_rank tp_size = Inr s \<and> t_shape s = full_shape bits hidden inter_local shard_id sfx"
    "shard_id = ''w2'' \<Longrightarrow> \<exists>s. shard_exl3_row loaded sfx tp_rank tp_size = Inr s \<and> t_shape s = full_shape bits hidden inter_local shard_id sfx"
proof -
  have d: "tp_size * inter_local div 16 = tp_size * (inter_local div 16)"
    using assms(2) by (metis div_mult_swap mod_eq_0_iff_dvd)
  note N = narrow_tp_shape [OF assms(1), of loaded]
  show "\<exists>s. shard_exl3_col loaded sfx tp_rank tp_size = Inr s \<and> t_shape s = full_shape bits hidden inter_local shard_id sfx"
    if "shard_id \<noteq> ''w2''"
    using suffix_cases [OF assms(3)] assms(4) that N [of 1 "inter_local div 16" tp_rank] N [of 0 inter_local tp_rank]
    by (auto simp: shard_exl3_col_def full_shape_def d)
  show "\<exists>s. shard_exl3_row loaded sfx tp_rank tp_size = Inr s \<and> t_shape s = full_shape bits hidden inter_local shard_id sfx"
    if "shard_id = ''w2''"
    using suffix_cases [OF assms(3)] assms(4) that N [of 0 "inter_local div 16" tp_rank] N [of 0 inter_local tp_rank]
    by (auto simp: shard_exl3_row_def full_shape_def d)
qed

lemma created_shape:
  assumes "create_weights bits E hidden inter_local = Inr shapes" "suffix_from_mapped_name name = Inr sfx"
  shows "inter_local mod 16 = 0"
    "shard_id \<noteq> ''w2'' \<Longrightarrow> map_of shapes (param_name shard_id sfx) = Some (E # 2 # full_shape bits hidden inter_local shard_id sfx)"
    "shard_id = ''w2'' \<Longrightarrow> map_of shapes (param_name shard_id sfx) = Some (E # full_shape bits hidden inter_local shard_id sfx)"
proof -
  have ok: "inter_local mod 16 = 0" and
    sh: "shapes = [(''w13_trellis'', [E, 2, hidden div 16, inter_local div 16, bits * 16]), (''w13_suh'', [E, 2, hidden]),
      (''w13_svh'', [E, 2, inter_local]), (''w13_mcg'', [E, 2, 1]),
      (''w2_trellis'', [E, inter_local div 16, hidden div 16, bits * 16]), (''w2_suh'', [E, inter_local]),
      (''w2_svh'', [E, hidden]), (''w2_mcg'', [E, 1])]"
    using assms(1) by (auto simp: create_weights_def Let_def split: if_splits)
  show "inter_local mod 16 = 0" by (fact ok)
  show "map_of shapes (param_name shard_id sfx) = Some (E # 2 # full_shape bits hidden inter_local shard_id sfx)" if "shard_id \<noteq> ''w2''"
    using suffix_cases [OF assms(2)] that unfolding sh by (auto simp: param_name_def full_shape_def)
  show "map_of shapes (param_name shard_id sfx) = Some (E # full_shape bits hidden inter_local shard_id sfx)" if "shard_id = ''w2''"
    using suffix_cases [OF assms(2)] that unfolding sh by (auto simp: param_name_def full_shape_def)
qed

lemma py_index_in: "0 \<le> i \<Longrightarrow> i < int n \<Longrightarrow> py_index n i = Inr (nat i)"
  by (simp add: py_index_def)

lemma t_shape_copy_into [simp]: "t_shape (copy_into pre src param) = t_shape param"
  by (simp add: copy_into_def)

subsection \<open>Properties\<close>

text \<open>(C6) Loading is well typed, with the owner that \<open>create_weights\<close> binds and without one. On every rank, a
  tensor of the checkpoint with the full shape its name and shard call for fits the slot
  \<open>create_weights\<close> allocated and the loader does not raise. An expert that the owner maps to no local
  one leaves the parameter as it is and is reported as not loaded; otherwise the parameter keeps its
  shape, the slot of the local expert holds the rank's entries of the loaded tensor, and no other
  entry changes. A local id the owner gives is -1 or an index of an allocated expert.
\<close>

theorem load_is_well_typed:
  assumes "create_weights bits E hidden inter_local = Inr shapes" "tp_rank < tp_size"
    and "suffix_from_mapped_name name = Inr sfx" "shard_id \<in> {''w1'', ''w2'', ''w3''}"
    and "t_shape loaded = full_shape bits hidden (tp_size * inter_local) shard_id sfx"
    and "map_of shapes (param_name shard_id sfx) = Some (t_shape param)"
    and "e = (case owner of None \<Rightarrow> expert_id | Some f \<Rightarrow> f expert_id)" "0 \<le> e \<and> e < int E \<or> owner \<noteq> None \<and> e = -1"
  shows "if e = -1 then load_exl3 owner tp_rank tp_size param loaded name shard_id expert_id ret = Inr (if ret then Some False else None, param)
    else \<exists>param' sharded.
      load_exl3 owner tp_rank tp_size param loaded name shard_id expert_id ret = Inr (if ret then Some True else None, param') \<and>
      t_shape param' = t_shape param \<and>
      (if shard_id = ''w2'' then shard_exl3_row else shard_exl3_col) loaded sfx tp_rank tp_size = Inr sharded \<and>
      (let pre = (if shard_id = ''w2'' then [nat e] else [nat e, if shard_id = ''w1'' then 0 else 1]) in
       (\<forall>ix. t_at param' (pre @ ix) = t_at sharded ix) \<and>
       (\<forall>ix. take (length pre) ix \<noteq> pre \<longrightarrow> t_at param' ix = t_at param ix))"
proof (cases "e = -1")
  case True
  then show ?thesis
    using assms(8) by (auto simp: load_exl3_def assms(7) [symmetric])
next
  case local: False
  then have e: "0 \<le> e" "e < int E" and mine: "\<not> (owner \<noteq> None \<and> e = -1)"
    using assms(8) by auto
  have tp: "0 < tp_size"
    using assms(2) by simp
  note sh = shard_shape [OF tp created_shape(1) [OF assms(1,3)] assms(3,5)]
  note cs = created_shape(2,3) [OF assms(1,3), of shard_id]
  note id = assms(7) [symmetric]
  show ?thesis
  proof (cases "shard_id = ''w2''")
    case True
    obtain s where s: "shard_exl3_row loaded sfx tp_rank tp_size = Inr s" "t_shape s = full_shape bits hidden inter_local shard_id sfx"
      using sh(2) [OF True] by blast
    have p: "t_shape param = E # t_shape s"
      using cs(2) [OF True] assms(6) s(2) by simp
    have "load_exl3 owner tp_rank tp_size param loaded name shard_id expert_id ret =
        Inr (if ret then Some True else None, copy_into [nat e] s param)"
      using True assms(3) e s(1) mine by (simp add: load_exl3_def id Let_def p py_index_in)
    then show ?thesis
      using local True s(1) by (simp add: copy_into_def)
  next
    case False
    let ?pre = "[nat e, if shard_id = ''w1'' then 0 else 1]"
    obtain s where s: "shard_exl3_col loaded sfx tp_rank tp_size = Inr s" "t_shape s = full_shape bits hidden inter_local shard_id sfx"
      using sh(1) [OF False] by blast
    have p: "t_shape param = E # 2 # t_shape s"
      using cs(1) [OF False] assms(6) s(2) by simp
    have "load_exl3 owner tp_rank tp_size param loaded name shard_id expert_id ret =
        Inr (if ret then Some True else None, copy_into ?pre s param)"
      using False assms(3,4) e s(1) mine by (auto simp: load_exl3_def id Let_def p py_index_in)
    then show ?thesis
      using local False s(1) by (simp add: copy_into_def numeral_2_eq_2)
  qed
qed

text \<open>(C18) Sharding loses nothing: when the ranks divide the axis, the shards of all ranks put together along
  it are the tensor; when they do not, every rank raises.
\<close>

theorem tp_shards_roundtrip:
  assumes "ax < length (t_shape t)" "1 < n"
  shows "if t_shape t ! ax mod n = 0
         then \<exists>shards. map (\<lambda>r. narrow_tp t ax r n) [0..<n] = map Inr shards \<and> tensor_eq (tp_gather ax shards) t
         else map (\<lambda>r. narrow_tp t ax r n) [0..<n] = replicate n (Inl ValueError)"
proof (cases "t_shape t ! ax mod n = 0")
  case True
  let ?c = "t_shape t ! ax div n"
  have "map (\<lambda>r. narrow_tp t ax r n) [0..<n] = map Inr (map (\<lambda>r. narrow t ax (?c * r) ?c) [0..<n])"
    using narrow_tp_ok [OF assms(2) True] by simp
  moreover have "tensor_eq (tp_gather ax (map (\<lambda>r. narrow t ax (?c * r) ?c) [0..<n])) t"
    using assms True by (intro narrow_gather) simp_all
  ultimately show ?thesis
    unfolding if_P [OF True] by blast
next
  case False
  then show ?thesis
    using assms(2) by (auto simp: narrow_tp_def Let_def map_replicate_const)
qed

definition demo_tensor :: "nat list \<Rightarrow> nat tensor" where
  "demo_tensor sh = \<lparr>t_shape = sh, t_at = (\<lambda>ix. foldl (\<lambda>a i. 10 * a + i) 0 ix)\<rparr>"

theorem tp_shards_roundtrip_witness:
  "\<exists>shards. map (\<lambda>r. narrow_tp (demo_tensor [3, 4]) 1 r 2) [0..<2] = map Inr shards \<and>
     tensor_eq (tp_gather 1 shards) (demo_tensor [3, 4])"
  using tp_shards_roundtrip [of 1 "demo_tensor [3, 4]" 2] by (simp add: demo_tensor_def)

text \<open>A rank that owns the experts 4 and 5 of the checkpoint.\<close>

definition demo_owner :: "int \<Rightarrow> int" where
  "demo_owner i = (if i \<in> {4, 5} then i - 4 else -1)"

theorem load_is_well_typed_witness:
  "\<exists>param'. load_exl3 (Some demo_owner) 1 2 (demo_tensor [2, 2, 1, 1, 64]) (demo_tensor [1, 2, 64]) ''experts.5.w13_trellis'' ''w3'' 5 True =
     Inr (Some True, param') \<and> t_shape param' = [2, 2, 1, 1, 64] \<and> t_at param' [1, 1, 0, 0, 7] = 17"
proof -
  have c: "create_weights 4 2 16 16 = Inr [(''w13_trellis'', [2, 2, 1, 1, 64]), (''w13_suh'', [2, 2, 16]), (''w13_svh'', [2, 2, 16]),
      (''w13_mcg'', [2, 2, 1]), (''w2_trellis'', [2, 1, 1, 64]), (''w2_suh'', [2, 16]), (''w2_svh'', [2, 16]), (''w2_mcg'', [2, 1])]"
    by (simp add: create_weights_def)
  have s: "suffix_from_mapped_name ''experts.5.w13_trellis'' = Inr ''trellis''"
    by code_simp
  have o: "1 = (case Some demo_owner of None \<Rightarrow> 5 | Some f \<Rightarrow> f 5)"
    by (simp add: demo_owner_def)
  obtain param' sharded where l: "load_exl3 (Some demo_owner) 1 2 (demo_tensor [2, 2, 1, 1, 64]) (demo_tensor [1, 2, 64]) ''experts.5.w13_trellis'' ''w3'' 5 True
        = Inr (Some True, param')" "t_shape param' = [2, 2, 1, 1, 64]"
      "shard_exl3_col (demo_tensor [1, 2, 64]) ''trellis'' 1 2 = Inr sharded" "\<forall>ix. t_at param' ([1, 1] @ ix) = t_at sharded ix"
    using load_is_well_typed [OF c, of 1 2 "''experts.5.w13_trellis''" "''trellis''" "''w3''" "demo_tensor [1, 2, 64]"
        "demo_tensor [2, 2, 1, 1, 64]" 1 5 "Some demo_owner" True] s o
    by (auto simp: full_shape_def param_name_def demo_tensor_def)
  have "t_at sharded [0, 0, 7] = 17"
    using l(3) by (auto simp: shard_exl3_col_def narrow_tp_def narrow_def demo_tensor_def)
  then show ?thesis
    using l(1,2) l(4) [rule_format, of "[0, 0, 7]"] by auto
qed

end
