(* ===== verification/Spec2Isabelle.thy ===== *)
theory Spec2Isabelle
  imports Glm_Prelude Py_Text Overlay_Texts Block_Evict Adaptive_K Prefix_Admit Resident_Tail
    Decode_Floor Align_Tail Mamba_Retire Segment_Cache Hybrid_Cache No_Store Installers
    Stop_Guard Draft_Page Kv_Capacity Boot_Installers Draft_Group Grammar_Guard
    Indexer_Workspace Kpool_Tail Mamba_Bind Kernel_Texts Site_Installers Video_Frames Snapshot_Check
    Import_Closure Mgemm_Audit Ab_Verdict Occupancy_Gate
    Moe_Route Moe_Tables Moe_Ticket Moe_Blocks Moe_Tier Moe_Dispatch Moe_Load
begin

text \<open>
  \<^bold>\<open>Serving GLM-5.3-Flash on two DGX Sparks: the overlays.\<close>

  The repository turns a stock vLLM image into a server for one quantised hybrid model. Its own logic is a set of
  Python modules under \<^verbatim>\<open>src/overlay/\<close>. Each carries some policy code (given as a helper function, or as the
  replacement text of an edit) and an installer that rewrites files of the installed vLLM when the container
  starts; \<^verbatim>\<open>src/scripts/\<close> holds offline checks and measurement tools. The development models the policy
  code, in its form before and after the edit where the difference matters, and the installers.

  \<^bold>\<open>Shared theories.\<close> \<open>Glm_Prelude\<close>: Python exceptions, results as sums, dynamically typed values, the
  environment, rounding to a grid. \<open>Py_Text\<close>: Python string search, counting and replacement, and the
  contract of an installer of one file (locale \<open>installer\<close>). \<open>Overlay_Texts\<close> and \<open>Kernel_Texts\<close>: the anchors
  and replacement texts of the modules, verbatim.

  \<^bold>\<open>Scheduling.\<close> \<open>Prefix_Admit\<close> (\<^verbatim>\<open>patch_prefix_admit.py\<close>): a waiting request is held back while a
  running one computes a prefix both share; the decision is characterised exactly and the sliced scan is the
  aligned longest common prefix. \<open>Resident_Tail\<close> (\<^verbatim>\<open>patch_resident_tail.py\<close>): a cold prefill yields to a
  request that only lacks its tail; when it yields, how often at most, and never to a request that waits for it.
  \<open>Decode_Floor\<close> (\<^verbatim>\<open>patch_scheduler_decode_floor.py\<close>): the gate on mixed prefill in its three generations;
  a held request is served by a deadline, and the last generation refines the one before. \<open>Align_Tail\<close>
  (\<^verbatim>\<open>patch_align_floor.py\<close>, \<^verbatim>\<open>patch_apc_tail_boundary.py\<close>): progress of aligned chunks and reachable
  tail boundaries. \<open>Adaptive_K\<close> (\<^verbatim>\<open>patch_adaptive_k.py\<close>): the verification length policy, its reload and
  the handler it patches, a refinement of the stock handler; in every reachable state the width has a graph.

  \<^bold>\<open>Cache.\<close> \<open>Block_Evict\<close> (\<^verbatim>\<open>cache_tail_evict.py\<close> and its two installers' policy): victim order, exact
  selection, reuse marks. \<open>Hybrid_Cache\<close> (\<^verbatim>\<open>patch_hybrid_prefix_hit.py\<close>,
  \<^verbatim>\<open>patch_apc_per_group_retention.py\<close>): the fixpoint of the hybrid hit and the retention vector.
  \<open>Mamba_Retire\<close> (\<^verbatim>\<open>patch_mamba_null_gap_retirement.py\<close>): states are freed exactly once. \<open>No_Store\<close>
  (\<^verbatim>\<open>patch_apc_no_store.py\<close>): the caching operations of such requests leave no trace. \<open>Segment_Cache\<close>
  (\<^verbatim>\<open>role_token_cache.py\<close>): tokenization through the cache is exact, within budget and isolated by salt.

  \<^bold>\<open>Memory layout.\<close> \<open>Draft_Page\<close> (\<^verbatim>\<open>patch_draft_compact_page.py\<close>), \<open>Draft_Group\<close>
  (\<^verbatim>\<open>patch_glm5_drafter_group.py\<close>), \<open>Kv_Capacity\<close> (\<^verbatim>\<open>patch_kv_capacity_log.py\<close>), \<open>Indexer_Workspace\<close>
  (\<^verbatim>\<open>patch_indexer_workspace.py\<close>): block and tensor sizes whose consumers must agree, the reported
  capacity, and the workspace with the splitter that must never exceed it.

  \<^bold>\<open>Model and kernel fixes.\<close> \<open>Kpool_Tail\<close> (\<^verbatim>\<open>patch_kpool_tail_slotmap.py\<close>,
  \<^verbatim>\<open>patch_kpool_tail_correctness.py\<close>): addresses of the pooled tail. \<open>Mamba_Bind\<close>
  (\<^verbatim>\<open>patch_w28_correctness.py\<close>): the state index of resumed requests. \<open>Grammar_Guard\<close>
  (\<^verbatim>\<open>patch_xgrammar_termination.py\<close>) and \<open>Stop_Guard\<close> (\<^verbatim>\<open>patch_suppress_stops_in_reasoning.py\<close>): grammars and
  stop strings around the end of the reasoning. \<open>Video_Frames\<close> (\<^verbatim>\<open>patch_glm_video_placeholders.py\<close>): the
  placeholder of a clip. \<open>Snapshot_Check\<close> (\<^verbatim>\<open>scripts/validate_hf_snapshot.py\<close>): the check of a download.

  \<^bold>\<open>Quantised experts.\<close> \<^verbatim>\<open>exl3.py\<close> runs the routed experts of the model on packed weights. \<open>Moe_Load\<close>: the
  configuration, the allocated shapes, the tensor-parallel shards and the weight loader; every shard fits its slot
  and the shards of all ranks give back the tensor. \<open>Moe_Route\<close>: router ids to local experts, the sort by expert,
  the reference loop and the sorted and batched paths. \<open>Moe_Tables\<close>: the device-side tables, the grouped kernels of
  \<^verbatim>\<open>exl3_fat_moe.cu\<close> on whole rows and the row tiles; the segments cover every fat row once. \<open>Moe_Ticket\<close>
  (\<^verbatim>\<open>exl3-ticket/patched/exl3_moe_kernel.cuh\<close>): the expert scheduler of the fused kernel as a step relation over
  interleaved groups; every active expert is worked on exactly once and the counters are reset. \<open>Moe_Blocks\<close>: the
  same kernel one level down, as interleaved thread blocks that share a group's ticket and wait at its barriers
  (an argument \<open>bar\<close> with the law \<open>barrier_ok\<close>, met by the counting barrier); a launch never deadlocks, ends, and every
  block of a group works on the experts of its group and on no other.
  \<open>Moe_Tier\<close>: flags, the resolution of the fat tier, module globals, statistics and scratch. \<open>Moe_Dispatch\<close>:
  weight load and the dispatch over the tiers; on every layer that weight load accepts, each branch that returns
  has computed the reference loop. The interface of a path for experts above the cap is the locale \<open>fat_path\<close>,
  interpreted on the sorted, the batched and the grouped path. Rows are elements of a commutative monoid, so sums
  are exact and their order does not matter; what the extension computes on a row is the argument \<open>ext_ops\<close>
  with the law \<open>linear_ok\<close>, and \<open>argsort\<close> is any permutation that sorts (\<open>argsort_ok\<close>).

  \<^bold>\<open>Offline audits.\<close> \<open>Import_Closure\<close> and \<open>Mgemm_Audit\<close> (\<^verbatim>\<open>scripts/audit_exl3_mgemm_indices.py\<close>): the
  worklist over the imports of a package ends and returns the transitive closure; what the verdict that a
  kernel is unreachable has established, and which call sites it overlooks. \<open>Ab_Verdict\<close>
  (\<^verbatim>\<open>scripts/diagnose_v149_ab.py\<close>): coverage of the median interval as a count of sign patterns, and the
  share of wrong lane verdicts it bounds. \<open>Occupancy_Gate\<close> (\<^verbatim>\<open>scripts/audit_e3_occupancy.py\<close>): the records of
  the launches of a capture, and when the gate opens.

  \<^bold>\<open>Installers.\<close> \<open>Installers\<close>, \<open>Boot_Installers\<close> and \<open>Site_Installers\<close> hold the installers of one file, of several
  files, and those that edit several places and prepare everything before the first write. Their contracts are
  the locales \<open>installer\<close>, \<open>fail_safe\<close>, \<open>repeatable\<close>, \<open>atomic_boot\<close> and \<open>staged_targets\<close>, each interpreted on the
  installers themselves: a refused run leaves the files as they were, a successful one leaves a complete
  installation, and a further start changes nothing.

  \<^bold>\<open>Parameters.\<close> Code that is not in the repository is an argument: the stock parts of vLLM's scheduler and block
  pool, tokenizers, the grammar matcher, the Python compiler as a predicate on texts, the Python parser, the JSON
  decoder, the row operations of the exllamav3 extension, helper texts that an installer takes from its own source. Hypotheses about them are predicates with a
  name (\<open>matcher_ok\<close>, \<open>parser_ok\<close>, \<open>barrier_ok\<close>, \<open>linear_ok\<close>, \<open>argsort_ok\<close>) or premises of the theorem, and the witnesses instantiate them. Integers of the
  Python code are unbounded; addresses of kernels are natural numbers, so that overflow of device integers is
  outside the model; floats of the audits are rationals, without rounding. Loops are recursive functions with
  termination proofs; the import worklist is a \<open>while_option\<close> that is proved to return. No fuel is used.

  \<^bold>\<open>Not modelled.\<close> The drafter network (\<^verbatim>\<open>dflash2_*.py\<close>), the direct GEMM kernel (\<^verbatim>\<open>exl3_fat_gemm.cu\<close>), arithmetic on
  tiles, shared memory and the code of the barriers inside the modelled kernels, and the scripts that build them; installers whose only content is a replacement of such
  code; probes, smoke tests and measurement windows, which talk to running servers and remote hosts; the other
  readers of recorded measurements; shell scripts. Of modelled modules: temporary files, permissions, byte-code caches
  and log lines of the installers, rounding, dtypes, streams, the pinned count buffer and the diagnostics snapshot of
  \<^verbatim>\<open>exl3.py\<close>, the upgrade chain of the drafter-group installer, the import hook of the video
  patch, the wording of the capacity report, the stub check of the scratch audit (it executes an installer), and
  the phases of the A/B diagnosis.
\<close>

end
